(* ===== verification/Blitz_Prelude.thy ===== *)
theory Blitz_Prelude
  imports Main "HOL-Library.Word" "HOL-Library.AList" "HOL-Library.Char_ord"
    "HOL-Library.List_Lexorder" "HOL-Library.Multiset" "HOL-Library.Sublist"
begin

text \<open>
  Shared vocabulary of the development: the machine integers of the Rust code, results
  (\<open>Result<T, E>\<close> is a sum with the error on the left), hash maps as association lists
  with distinct keys, three-way comparisons with the contract of Rust's \<open>Ord\<close> as a
  locale, stable sorting over such a comparison, and the interface of a bounded log
  (the event history, the change log and the oplog are its instances).
\<close>

section \<open>Machine integers\<close>

type_synonym u8 = "8 word"
type_synonym u16 = "16 word"
type_synonym u32 = "32 word"
type_synonym u64 = "64 word"

text \<open>Signed integers share the bit patterns; they are read with \<^const>\<open>sint\<close>.\<close>

type_synonym i8 = "8 word"
type_synonym i16 = "16 word"
type_synonym i32 = "32 word"
type_synonym i64 = "64 word"

text \<open>IEEE floats are kept as their bit patterns (\<open>to_bits\<close>).\<close>

type_synonym f32 = "32 word"
type_synonym f64 = "64 word"

lemma word_less_plus_1: "w \<noteq> - 1 \<Longrightarrow> w < (w + 1 :: 'a::len word)"
proof -
  assume "w \<noteq> - 1"
  then have "1 + w \<noteq> 0" by (metis add.commute add_eq_0_iff)
  then have "unat (1 + w) = Suc (unat w)" by (rule unatSuc)
  then show ?thesis by (simp add: word_less_nat_alt add.commute)
qed

named_theorems hm_simps \<open>rewrite rules for hash maps\<close>
named_theorems cmp_simps \<open>rewrite rules for three-way comparisons\<close>

section \<open>Results\<close>

abbreviation Ok :: "'a \<Rightarrow> 'e + 'a" where
  "Ok x \<equiv> Inr x"

abbreviation Err :: "'e \<Rightarrow> 'e + 'a" where
  "Err e \<equiv> Inl e"

fun is_ok :: "'e + 'a \<Rightarrow> bool" where
  "is_ok (Inl _) = False"
| "is_ok (Inr _) = True"

fun map_err :: "('e \<Rightarrow> 'f) \<Rightarrow> 'e + 'a \<Rightarrow> 'f + 'a" where
  "map_err f (Inl e) = Inl (f e)"
| "map_err f (Inr x) = Inr x"

fun ok_or :: "'e \<Rightarrow> 'a option \<Rightarrow> 'e + 'a" where
  "ok_or e None = Inl e"
| "ok_or e (Some x) = Inr x"

lemma is_ok_iff: "is_ok r \<longleftrightarrow> (\<exists>x. r = Inr x)"
  by (cases r) auto

lemma map_err_Ok_iff [simp]: "map_err f r = Inr x \<longleftrightarrow> r = Inr x"
  by (cases r) auto

lemma map_err_Err_iff: "map_err f r = Inl e \<longleftrightarrow> (\<exists>e'. r = Inl e' \<and> e = f e')"
  by (cases r) auto

lemma ok_or_Ok_iff [simp]: "ok_or e opt = Inr x \<longleftrightarrow> opt = Some x"
  by (cases opt) auto

lemma ok_or_Err_iff [simp]: "ok_or e opt = Inl e' \<longleftrightarrow> opt = None \<and> e' = e"
  by (cases opt) auto

section \<open>Hash maps\<close>

text \<open>
  A \<open>HashMap\<close> is an association list with distinct keys: \<open>get\<close>, \<open>insert\<close> and
  \<open>remove\<close> go by key, and the list order stands for the iteration order, which Rust
  leaves unspecified. No theorem of the development fixes that order.
\<close>

type_synonym ('k, 'v) hmap = "('k \<times> 'v) list"

abbreviation hm_get :: "('k, 'v) hmap \<Rightarrow> 'k \<Rightarrow> 'v option" where
  "hm_get m k \<equiv> map_of m k"

abbreviation hm_insert :: "'k \<Rightarrow> 'v \<Rightarrow> ('k, 'v) hmap \<Rightarrow> ('k, 'v) hmap" where
  "hm_insert k v m \<equiv> AList.update k v m"

abbreviation hm_remove :: "'k \<Rightarrow> ('k, 'v) hmap \<Rightarrow> ('k, 'v) hmap" where
  "hm_remove k m \<equiv> AList.delete k m"

abbreviation hm_contains :: "('k, 'v) hmap \<Rightarrow> 'k \<Rightarrow> bool" where
  "hm_contains m k \<equiv> map_of m k \<noteq> None"

abbreviation hm_keys :: "('k, 'v) hmap \<Rightarrow> 'k list" where
  "hm_keys m \<equiv> map fst m"

abbreviation hm_values :: "('k, 'v) hmap \<Rightarrow> 'v list" where
  "hm_values m \<equiv> map snd m"

abbreviation hm_wf :: "('k, 'v) hmap \<Rightarrow> bool" where
  "hm_wf m \<equiv> distinct (map fst m)"

text \<open>\<open>for (k, v) in new { m.insert(k, v) }\<close>.\<close>

definition hm_extend :: "('k, 'v) hmap \<Rightarrow> ('k, 'v) hmap \<Rightarrow> ('k, 'v) hmap" where
  "hm_extend m new = fold (\<lambda>(k, v). hm_insert k v) new m"

lemma hm_get_insert [hm_simps]:
  "hm_get (hm_insert k v m) k' = (if k' = k then Some v else hm_get m k')"
  by (simp add: update_conv')

lemma hm_get_remove [hm_simps]:
  "hm_get (hm_remove k m) k' = (if k' = k then None else hm_get m k')"
  by (simp add: delete_conv')

lemma hm_wf_insert [simp, intro]: "hm_wf m \<Longrightarrow> hm_wf (hm_insert k v m)"
  by (rule distinct_update)

lemma hm_wf_remove [simp, intro]: "hm_wf m \<Longrightarrow> hm_wf (hm_remove k m)"
  by (rule distinct_delete)

lemma hm_get_in_set: "hm_wf m \<Longrightarrow> hm_get m k = Some v \<longleftrightarrow> (k, v) \<in> set m"
  by simp

lemma hm_get_value: "hm_get m k = Some v \<Longrightarrow> v \<in> set (hm_values m)"
  by (force dest: map_of_SomeD)

lemma hm_values_get: "hm_wf m \<Longrightarrow> v \<in> set (hm_values m) \<longleftrightarrow> (\<exists>k. hm_get m k = Some v)"
  by (force simp: hm_get_in_set)

lemma length_hm_insert:
  "length (hm_insert k v m) = (if hm_contains m k then length m else Suc (length m))"
  by (induction m) (auto split: if_splits)

lemma length_hm_remove:
  "hm_wf m \<Longrightarrow> length (hm_remove k m) = (if hm_contains m k then length m - 1 else length m)"
proof (induction m)
  case (Cons p m)
  obtain a b where p: "p = (a, b)" by (cases p)
  have "hm_contains m k \<Longrightarrow> 0 < length m" by (cases m) auto
  moreover have "a = k \<Longrightarrow> hm_remove k m = m"
    using Cons.prems p by (auto intro: delete_id)
  ultimately show ?case
    using Cons p by (auto simp: delete_simps)
qed simp

lemma hm_insert_same: "hm_get m k = Some v \<Longrightarrow> hm_insert k v m = m"
  by (induction m) auto

lemma hm_extend_Nil [simp]: "hm_extend m [] = m"
  by (simp add: hm_extend_def)

lemma hm_extend_Cons: "hm_extend m (p # ps) = hm_extend (hm_insert (fst p) (snd p) m) ps"
  by (simp add: hm_extend_def split_def)

lemma hm_get_extend [hm_simps]:
  "hm_wf new \<Longrightarrow>
   hm_get (hm_extend m new) k = (case hm_get new k of Some v \<Rightarrow> Some v | None \<Rightarrow> hm_get m k)"
proof (induction new arbitrary: m)
  case (Cons p ps)
  then have "hm_get ps (fst p) = None" by (simp add: map_of_eq_None_iff)
  then show ?case using Cons
    by (cases p) (auto simp: hm_extend_Cons hm_simps split: option.split)
qed simp

lemma hm_wf_extend [simp, intro]: "hm_wf m \<Longrightarrow> hm_wf (hm_extend m new)"
  by (induction new arbitrary: m) (auto simp: hm_extend_Cons)

lemma hm_get_map_values:
  "hm_get (map (\<lambda>(k, v). (k, f v)) m) k = map_option f (hm_get m k)"
  by (induction m) auto

section \<open>Three-way comparisons\<close>

text \<open>\<open>std::cmp::Ordering\<close>, and the contract that Rust's \<open>Ord\<close> and \<open>sort_by\<close> ask of it.\<close>

datatype ordering = Less | Equal | Greater

fun reverse_ordering :: "ordering \<Rightarrow> ordering" where
  "reverse_ordering Less = Greater"
| "reverse_ordering Equal = Equal"
| "reverse_ordering Greater = Less"

lemma reverse_ordering_simps [simp]:
  "reverse_ordering r = Less \<longleftrightarrow> r = Greater"
  "reverse_ordering r = Equal \<longleftrightarrow> r = Equal"
  "reverse_ordering r = Greater \<longleftrightarrow> r = Less"
  "reverse_ordering (reverse_ordering r) = r"
  by (cases r; simp)+

text \<open>The comparison of a linearly ordered type (\<open>a.cmp(b)\<close> on integers and strings).\<close>

definition cmp_of :: "'a::linorder \<Rightarrow> 'a \<Rightarrow> ordering" where
  "cmp_of a b = (if a < b then Less else if a = b then Equal else Greater)"

lemma cmp_of_simps [cmp_simps]:
  "cmp_of a b = Less \<longleftrightarrow> a < b"
  "cmp_of a b = Equal \<longleftrightarrow> a = b"
  "cmp_of a b = Greater \<longleftrightarrow> b < a"
  by (auto simp: cmp_of_def)

lemma cmp_of_refl [simp]: "cmp_of a a = Equal"
  by (simp add: cmp_of_def)

lemma cmp_of_flip: "cmp_of b a = reverse_ordering (cmp_of a b)"
  by (auto simp: cmp_of_def)

text \<open>Insertion from the right keeps equal elements in their order: the stable \<open>sort_by\<close>.\<close>

fun insert_by :: "('a \<Rightarrow> 'a \<Rightarrow> ordering) \<Rightarrow> 'a \<Rightarrow> 'a list \<Rightarrow> 'a list" where
  "insert_by cmp x [] = [x]"
| "insert_by cmp x (y # ys) =
     (if cmp x y = Greater then y # insert_by cmp x ys else x # y # ys)"

fun sort_by :: "('a \<Rightarrow> 'a \<Rightarrow> ordering) \<Rightarrow> 'a list \<Rightarrow> 'a list" where
  "sort_by cmp [] = []"
| "sort_by cmp (x # xs) = insert_by cmp x (sort_by cmp xs)"

lemma mset_insert_by [simp]: "mset (insert_by cmp x ys) = add_mset x (mset ys)"
  by (induction ys) auto

lemma mset_sort_by [simp]: "mset (sort_by cmp xs) = mset xs"
  by (induction xs) auto

lemma set_sort_by [simp]: "set (sort_by cmp xs) = set xs"
  by (metis mset_sort_by set_mset_mset)

lemma length_sort_by [simp]: "length (sort_by cmp xs) = length xs"
  by (metis mset_sort_by size_mset)

locale comparator =
  fixes cmp :: "'a \<Rightarrow> 'a \<Rightarrow> ordering"
  assumes cmp_refl: "cmp x x = Equal"
    and cmp_flip: "cmp y x = reverse_ordering (cmp x y)"
    and cmp_trans: "cmp x y \<noteq> Greater \<Longrightarrow> cmp y z \<noteq> Greater \<Longrightarrow> cmp x z \<noteq> Greater"
begin

lemma cmp_equal_left: "cmp x y = Equal \<Longrightarrow> cmp x z = cmp y z"
  using cmp_trans [of x y z] cmp_trans [of y x z] cmp_trans [of z x y] cmp_trans [of z y x]
    cmp_flip [of x y] cmp_flip [of z x] cmp_flip [of z y]
  by (cases "cmp x z"; cases "cmp y z") auto

lemma sorted_insert_by:
  "sorted_wrt (\<lambda>a b. cmp a b \<noteq> Greater) ys \<Longrightarrow>
   sorted_wrt (\<lambda>a b. cmp a b \<noteq> Greater) (insert_by cmp x ys)"
proof (induction ys)
  case (Cons y ys)
  have set_ins: "set (insert_by cmp x ys) = insert x (set ys)"
    by (metis mset_insert_by set_mset_add_mset_insert set_mset_mset)
  show ?case
  proof (cases "cmp x y = Greater")
    case True
    then have "cmp y x \<noteq> Greater" using cmp_flip [of x y] by simp
    with Cons True set_ins show ?thesis by auto
  next
    case False
    have "cmp x z \<noteq> Greater" if "z \<in> set ys" for z
      using False that Cons.prems cmp_trans [of x y z] by auto
    with False Cons.prems show ?thesis by auto
  qed
qed simp

lemma sorted_sort_by: "sorted_wrt (\<lambda>a b. cmp a b \<noteq> Greater) (sort_by cmp xs)"
  by (induction xs) (auto intro: sorted_insert_by)

lemma filter_equal_insert_by:
  "filter (\<lambda>y. cmp z y = Equal) (insert_by cmp x ys) =
   (if cmp z x = Equal then x # filter (\<lambda>y. cmp z y = Equal) ys
    else filter (\<lambda>y. cmp z y = Equal) ys)"
proof (induction ys)
  case (Cons y ys)
  have "cmp z x = Equal \<Longrightarrow> cmp x y = Greater \<Longrightarrow> cmp z y \<noteq> Equal"
    using cmp_equal_left [of z x y] by simp
  with Cons show ?case by auto
qed simp

lemma sort_by_stable:
  "filter (\<lambda>y. cmp z y = Equal) (sort_by cmp xs) = filter (\<lambda>y. cmp z y = Equal) xs"
  by (induction xs) (auto simp: filter_equal_insert_by)

lemma sort_by_id:
  "sorted_wrt (\<lambda>a b. cmp a b \<noteq> Greater) xs \<Longrightarrow> sort_by cmp xs = xs"
proof (induction xs)
  case (Cons x xs)
  then show ?case by (cases xs) auto
qed simp

text \<open>Sortedness and stability determine the result, whichever algorithm computes it.\<close>

lemma stable_sort_unique:
  assumes "sorted_wrt (\<lambda>a b. cmp a b \<noteq> Greater) xs" and "sorted_wrt (\<lambda>a b. cmp a b \<noteq> Greater) ys"
    and "mset xs = mset ys"
    and "\<And>z. filter (\<lambda>y. cmp z y = Equal) xs = filter (\<lambda>y. cmp z y = Equal) ys"
  shows "xs = ys"
  using assms
proof (induction xs arbitrary: ys)
  case Nil
  then show ?case by simp
next
  case (Cons x xs)
  then obtain y ys' where ys: "ys = y # ys'" by (cases ys) auto
  have "x \<in> set ys" and "y \<in> set (x # xs)"
    using Cons.prems(3) ys by (metis list.set_intros(1) set_mset_mset)+
  then have "cmp y x \<noteq> Greater" and "cmp x y \<noteq> Greater"
    using Cons.prems(1,2) ys cmp_refl by auto
  then have eq: "cmp x y = Equal"
    using cmp_flip [of y x] by (cases "cmp x y") auto
  have "x # filter (\<lambda>w. cmp x w = Equal) xs = y # filter (\<lambda>w. cmp x w = Equal) ys'"
    using Cons.prems(4) [of x] ys eq cmp_refl [of x] by auto
  then have xy: "x = y" by simp
  have "filter (\<lambda>w. cmp z w = Equal) xs = filter (\<lambda>w. cmp z w = Equal) ys'" for z
    using Cons.prems(4) [of z] unfolding ys xy by (auto split: if_splits)
  with Cons.IH [of ys'] Cons.prems ys xy show ?case by simp
qed

end

text \<open>Comparing by several criteria in turn, the first decisive one wins.\<close>

definition then_with :: "ordering \<Rightarrow> ordering \<Rightarrow> ordering" where
  "then_with a b = (if a = Equal then b else a)"

lemma comparator_cmp_of: "comparator cmp_of"
  by unfold_locales (auto simp: cmp_simps cmp_of_flip [symmetric])

lemma comparator_map: "comparator cmp \<Longrightarrow> comparator (\<lambda>a b. cmp (f a) (f b))"
  unfolding comparator_def by blast

lemma comparator_reverse:
  assumes "comparator cmp"
  shows "comparator (\<lambda>a b. reverse_ordering (cmp a b))"
proof -
  note c = assms [unfolded comparator_def]
  show ?thesis
  proof
    show "reverse_ordering (cmp x x) = Equal" for x using c by simp
    show "reverse_ordering (cmp y x) = reverse_ordering (reverse_ordering (cmp x y))" for x y
      using c by metis
    fix x y z
    assume "reverse_ordering (cmp x y) \<noteq> Greater" "reverse_ordering (cmp y z) \<noteq> Greater"
    then have "cmp y x \<noteq> Greater" "cmp z y \<noteq> Greater" using c by (metis reverse_ordering_simps)+
    then have "cmp z x \<noteq> Greater" using c by metis
    then show "reverse_ordering (cmp x z) \<noteq> Greater" using c by (metis reverse_ordering_simps)
  qed
qed

lemma comparator_then_with:
  assumes a: "comparator c1" and b: "comparator c2"
  shows "comparator (\<lambda>x y. then_with (c1 x y) (c2 x y))"
proof
  note c1 = a [unfolded comparator_def] and c2 = b [unfolded comparator_def]
  show "then_with (c1 x x) (c2 x x) = Equal" for x using c1 c2 by (simp add: then_with_def)
  show "then_with (c1 y x) (c2 y x) = reverse_ordering (then_with (c1 x y) (c2 x y))" for x y
    using c1 c2 by (metis reverse_ordering_simps(2) then_with_def)
  fix x y z
  assume xy: "then_with (c1 x y) (c2 x y) \<noteq> Greater" and yz: "then_with (c1 y z) (c2 y z) \<noteq> Greater"
  have eq: "c1 x y = reverse_ordering (c1 y z)" if "c1 x z = Equal"
    using comparator.cmp_equal_left [OF a that, of y] c1 by metis
  have t1: "c1 x y \<noteq> Greater \<Longrightarrow> c1 y z \<noteq> Greater \<Longrightarrow> c1 x z \<noteq> Greater"
    and t2: "c2 x y \<noteq> Greater \<Longrightarrow> c2 y z \<noteq> Greater \<Longrightarrow> c2 x z \<noteq> Greater"
    using c1 c2 by blast+
  show "then_with (c1 x z) (c2 x z) \<noteq> Greater"
    using xy yz eq t1 t2
    by (cases "c1 x y"; cases "c1 y z"; cases "c1 x z") (auto simp: then_with_def)
qed

section \<open>Bounded logs\<close>

text \<open>What remains of a list when only its last \<open>n\<close> elements are retained.\<close>

definition keep_last :: "nat \<Rightarrow> 'a list \<Rightarrow> 'a list" where
  "keep_last n xs = drop (length xs - n) xs"

lemma length_keep_last [simp]: "length (keep_last n xs) = min n (length xs)"
  by (auto simp: keep_last_def)

lemma suffix_keep_last: "suffix (keep_last n xs) xs"
  by (simp add: keep_last_def suffix_drop)

lemma keep_last_id [simp]: "length xs \<le> n \<Longrightarrow> keep_last n xs = xs"
  by (simp add: keep_last_def)

lemma keep_last_append: "keep_last n (keep_last n xs @ ys) = keep_last n (xs @ ys)"
  by (cases "n \<le> length xs") (auto simp: keep_last_def add.commute)

text \<open>\<open>while q.len() > max { q.pop_front(); }\<close>.\<close>

fun trim_front :: "nat \<Rightarrow> 'a list \<Rightarrow> 'a list" where
  "trim_front n [] = []"
| "trim_front n (x # xs) = (if n < length (x # xs) then trim_front n xs else x # xs)"

lemma trim_front_keep_last: "trim_front n xs = keep_last n xs"
  by (induction xs) (auto simp: keep_last_def Suc_diff_le)

locale bounded_log =
  fixes push :: "'a \<Rightarrow> 's \<Rightarrow> 's"
    and entries :: "'s \<Rightarrow> 'a list"
    and capacity :: "'s \<Rightarrow> nat"
  assumes entries_push: "entries (push x s) = keep_last (capacity s) (entries s @ [x])"
    and capacity_push: "capacity (push x s) = capacity s"
begin

lemma length_push_le: "length (entries (push x s)) \<le> capacity s"
  by (simp add: entries_push)

lemma capacity_pushes: "capacity (fold push xs s) = capacity s"
  by (induction xs arbitrary: s) (auto simp: capacity_push)

lemma entries_pushes:
  "xs \<noteq> [] \<Longrightarrow> entries (fold push xs s) = keep_last (capacity s) (entries s @ xs)"
proof (induction xs arbitrary: s)
  case (Cons x xs)
  show ?case
  proof (cases xs)
    case Nil
    then show ?thesis by (simp add: entries_push)
  next
    case (Cons y ys)
    then have "entries (fold push xs (push x s)) = keep_last (capacity s) (entries (push x s) @ xs)"
      using Cons.IH [of "push x s"] by (simp add: capacity_push)
    then show ?thesis by (simp add: entries_push keep_last_append)
  qed
qed simp

lemma entries_pushes_suffix: "suffix (entries (fold push xs s)) (entries s @ xs)"
  by (cases "xs = []") (auto simp: entries_pushes suffix_keep_last)

end

end
