(* ===== verification/Byte_Codec.thy ===== *)
theory Byte_Codec
  imports Blitz_Prelude
begin

text \<open>
  Byte sequences as the write-ahead log and the wire protocol use them: little-endian
  integers (\<open>to_le_bytes\<close>, \<open>from_le_bytes\<close>), UTF-8 strings as their bytes, readers that
  consume a prefix of the input and either fail or return the rest, and the interface of
  an encoder with its decoder as a locale, from which injectivity and the decoding of
  counted lists follow once for every format.
\<close>

unbundle bit_operations_syntax

section \<open>Little-endian integers\<close>

fun le_bytes :: "nat \<Rightarrow> 'a::len word \<Rightarrow> u8 list" where
  "le_bytes 0 w = []"
| "le_bytes (Suc n) w = ucast w # le_bytes n (drop_bit 8 w)"

fun from_le_bytes :: "u8 list \<Rightarrow> 'a::len word" where
  "from_le_bytes [] = 0"
| "from_le_bytes (b # bs) = ucast b OR push_bit 8 (from_le_bytes bs)"

lemma length_le_bytes [simp]: "length (le_bytes n w) = n"
  by (induction n arbitrary: w) auto

lemma from_le_bytes_le_bytes: "from_le_bytes (le_bytes n w) = take_bit (8 * n) w"
proof (induction n arbitrary: w)
  case (Suc n)
  have "ucast (ucast w :: u8) OR push_bit 8 (take_bit (8 * n) (drop_bit 8 w)) =
        take_bit (8 * Suc n) w"
    by (rule bit_eqI)
      (auto simp: bit_simps not_le dest: bit_imp_le_length intro: ccontr)
  with Suc show ?case by simp
qed simp

lemma from_le_le [simp]: "LENGTH('a) \<le> 8 * n \<Longrightarrow> from_le_bytes (le_bytes n w) = (w :: 'a::len word)"
  by (simp add: from_le_bytes_le_bytes take_bit_word_eq_self)

abbreviation u16_bytes :: "u16 \<Rightarrow> u8 list" where "u16_bytes \<equiv> le_bytes 2"
abbreviation u32_bytes :: "u32 \<Rightarrow> u8 list" where "u32_bytes \<equiv> le_bytes 4"
abbreviation u64_bytes :: "u64 \<Rightarrow> u8 list" where "u64_bytes \<equiv> le_bytes 8"

section \<open>Strings as UTF-8 bytes\<close>

text \<open>
  A Rust \<open>String\<close> is its sequence of UTF-8 bytes: \<open>len\<close> counts bytes, and the order is
  the order of the bytes. The model keeps one \<^typ>\<open>char\<close> per byte.
\<close>

definition byte_of_char :: "char \<Rightarrow> u8" where
  "byte_of_char c = of_nat (of_char c)"

definition char_of_byte :: "u8 \<Rightarrow> char" where
  "char_of_byte b = char_of (unat b)"

definition as_bytes :: "string \<Rightarrow> u8 list" where
  "as_bytes s = map byte_of_char s"

text \<open>\<open>std::str::from_utf8\<close>: the well-formed byte sequences of the Unicode standard.\<close>

abbreviation utf8_cont :: "u8 \<Rightarrow> bool" where
  "utf8_cont b \<equiv> 0x80 \<le> b \<and> b \<le> 0xBF"

fun utf8_valid :: "u8 list \<Rightarrow> bool" where
  "utf8_valid [] = True"
| "utf8_valid (a # bs) =
     (if a \<le> 0x7F then utf8_valid bs
      else if 0xC2 \<le> a \<and> a \<le> 0xDF then
        (case bs of b # r \<Rightarrow> utf8_cont b \<and> utf8_valid r | _ \<Rightarrow> False)
      else if 0xE0 \<le> a \<and> a \<le> 0xEF then
        (case bs of b # c # r \<Rightarrow>
           (if a = 0xE0 then 0xA0 \<le> b \<and> b \<le> 0xBF
            else if a = 0xED then 0x80 \<le> b \<and> b \<le> 0x9F
            else utf8_cont b) \<and> utf8_cont c \<and> utf8_valid r
         | _ \<Rightarrow> False)
      else if 0xF0 \<le> a \<and> a \<le> 0xF4 then
        (case bs of b # c # d # r \<Rightarrow>
           (if a = 0xF0 then 0x90 \<le> b \<and> b \<le> 0xBF
            else if a = 0xF4 then 0x80 \<le> b \<and> b \<le> 0x8F
            else utf8_cont b) \<and> utf8_cont c \<and> utf8_cont d \<and> utf8_valid r
         | _ \<Rightarrow> False)
      else False)"

definition from_utf8 :: "u8 list \<Rightarrow> string option" where
  "from_utf8 bs = (if utf8_valid bs then Some (map char_of_byte bs) else None)"

text \<open>What every \<open>String\<close> of the program satisfies.\<close>

definition str_ok :: "string \<Rightarrow> bool" where
  "str_ok s \<longleftrightarrow> utf8_valid (as_bytes s)"

lemma char_of_byte_of_char [simp]: "char_of_byte (byte_of_char c) = c"
proof -
  have "of_char c < (256 :: nat)" by simp
  then have "unat (of_nat (of_char c) :: u8) = of_char c"
    by (simp add: unsigned_of_nat take_bit_eq_mod)
  then show ?thesis by (simp add: char_of_byte_def byte_of_char_def)
qed

lemma byte_of_char_of_byte [simp]: "byte_of_char (char_of_byte b) = b"
proof -
  have "unat b < 256" using unsigned_less [of b, where ?'a = nat] by simp
  then have "of_char (char_of (unat b)) = unat b" by (simp add: of_char_of)
  then show ?thesis by (simp add: char_of_byte_def byte_of_char_def)
qed

lemma length_as_bytes [simp]: "length (as_bytes s) = length s"
  by (simp add: as_bytes_def)

lemma chars_as_bytes [simp]: "map char_of_byte (as_bytes s) = s"
  by (simp add: as_bytes_def o_def)

lemma as_bytes_inject [simp]: "as_bytes s = as_bytes t \<longleftrightarrow> s = t"
  by (metis chars_as_bytes)

lemma from_utf8_as_bytes: "str_ok s \<Longrightarrow> from_utf8 (as_bytes s) = Some s"
  by (simp add: from_utf8_def str_ok_def)

lemma from_utf8_Some: "from_utf8 bs = Some s \<Longrightarrow> str_ok s \<and> as_bytes s = bs"
  by (auto simp: from_utf8_def str_ok_def as_bytes_def o_def split: if_splits)

lemma utf8_valid_ascii: "\<forall>b \<in> set bs. b \<le> 0x7F \<Longrightarrow> utf8_valid bs"
  by (induction bs rule: utf8_valid.induct) auto

section \<open>Readers\<close>

type_synonym ('e, 'a) reader = "u8 list \<Rightarrow> 'e + ('a \<times> u8 list)"

definition rd_return :: "'a \<Rightarrow> ('e, 'a) reader" where
  "rd_return x bs = Inr (x, bs)"

definition rd_fail :: "'e \<Rightarrow> ('e, 'a) reader" where
  "rd_fail e bs = Inl e"

definition rd_bind :: "('e, 'a) reader \<Rightarrow> ('a \<Rightarrow> ('e, 'b) reader) \<Rightarrow> ('e, 'b) reader" where
  "rd_bind p f bs = (case p bs of Inl e \<Rightarrow> Inl e | Inr (x, rest) \<Rightarrow> f x rest)"

definition rd_map :: "('a \<Rightarrow> 'b) \<Rightarrow> ('e, 'a) reader \<Rightarrow> ('e, 'b) reader" where
  "rd_map g p = rd_bind p (\<lambda>x. rd_return (g x))"

text \<open>\<open>take(n)\<close> of the protocol reader and \<open>read_exact\<close> of the log: all \<open>n\<close> bytes or an error.\<close>

definition rd_take :: "'e \<Rightarrow> nat \<Rightarrow> ('e, u8 list) reader" where
  "rd_take e n bs = (if length bs < n then Inl e else Inr (take n bs, drop n bs))"

definition rd_le :: "'e \<Rightarrow> nat \<Rightarrow> ('e, 'a::len word) reader" where
  "rd_le e n = rd_map from_le_bytes (rd_take e n)"

text \<open>\<open>for _ in 0..count { items.push(read()?) }\<close>.\<close>

fun rd_list :: "nat \<Rightarrow> ('e, 'a) reader \<Rightarrow> ('e, 'a list) reader" where
  "rd_list 0 p bs = Inr ([], bs)"
| "rd_list (Suc n) p bs =
     (case p bs of Inl e \<Rightarrow> Inl e
      | Inr (x, rest) \<Rightarrow>
          (case rd_list n p rest of Inl e \<Rightarrow> Inl e
           | Inr (xs, rest') \<Rightarrow> Inr (x # xs, rest')))"

lemma rd_bind_Inr: "p bs = Inr (x, rest) \<Longrightarrow> rd_bind p f bs = f x rest"
  by (simp add: rd_bind_def)

lemma rd_bind_Inr_iff:
  "rd_bind p f bs = Inr r \<longleftrightarrow> (\<exists>x rest. p bs = Inr (x, rest) \<and> f x rest = Inr r)"
  by (auto simp: rd_bind_def split: sum.splits prod.splits)

lemma rd_take_append [simp]: "length xs = n \<Longrightarrow> rd_take e n (xs @ rest) = Inr (xs, rest)"
  by (auto simp: rd_take_def)

lemma rd_take_Inr:
  "rd_take e n bs = Inr (xs, rest) \<longleftrightarrow> n \<le> length bs \<and> xs = take n bs \<and> rest = drop n bs"
  by (auto simp: rd_take_def)

lemma rd_map_Inr: "p bs = Inr (x, rest) \<Longrightarrow> rd_map g p bs = Inr (g x, rest)"
  by (simp add: rd_map_def rd_bind_def rd_return_def)

lemma rd_le_append [simp]:
  "LENGTH('a) \<le> 8 * n \<Longrightarrow> rd_le e n (le_bytes n (w :: 'a::len word) @ rest) = Inr (w, rest)"
  by (simp add: rd_le_def rd_map_Inr [where x = "le_bytes n w" and rest = rest])

section \<open>Truncated input\<close>

text \<open>A reader that reports \<open>e\<close> on every proper prefix of a byte sequence.\<close>

definition torn :: "'e \<Rightarrow> ('e, 'a) reader \<Rightarrow> u8 list \<Rightarrow> bool" where
  "torn e p bs \<longleftrightarrow> (\<forall>k < length bs. p (take k bs) = Inl e)"

lemma torn_Nil [simp]: "torn e p []"
  by (simp add: torn_def)

lemma torn_take: "length bs = n \<Longrightarrow> torn e (rd_take e n) bs"
  by (simp add: torn_def rd_take_def)

lemma torn_le: "torn e (rd_le e n) (le_bytes n w)"
  by (simp add: torn_def rd_le_def rd_map_def rd_bind_def rd_take_def)

lemma torn_bind:
  assumes "torn e p b1" and "\<And>rest. p (b1 @ rest) = Inr (x, rest)" and "torn e (f x) b2"
  shows "torn e (rd_bind p f) (b1 @ b2)"
  unfolding torn_def
proof (intro allI impI)
  fix k
  assume k: "k < length (b1 @ b2)"
  show "rd_bind p f (take k (b1 @ b2)) = Inl e"
  proof (cases "k < length b1")
    case True
    then show ?thesis using assms(1) by (simp add: torn_def rd_bind_def)
  next
    case False
    then have "take k (b1 @ b2) = b1 @ take (k - length b1) b2" by simp
    moreover have "f x (take (k - length b1) b2) = Inl e"
      using assms(3) k False by (simp add: torn_def)
    ultimately show ?thesis using assms(2) by (simp add: rd_bind_def)
  qed
qed

lemma rd_le_Inr:
  "rd_le e n bs = Inr (x, rest) \<Longrightarrow> n \<le> length bs \<and> rest = drop n bs"
  by (auto simp: rd_le_def rd_map_def rd_bind_def rd_take_def rd_return_def split: if_splits)

section \<open>Encoders and their decoders\<close>

locale codec =
  fixes enc :: "'a \<Rightarrow> u8 list"
    and dec :: "('e, 'a) reader"
    and ok :: "'a \<Rightarrow> bool"
  assumes dec_enc: "ok x \<Longrightarrow> dec (enc x @ rest) = Inr (x, rest)"
begin

lemma enc_prefix_free:
  "ok x \<Longrightarrow> ok y \<Longrightarrow> enc x @ r = enc y @ r' \<Longrightarrow> x = y \<and> r = r'"
  by (metis dec_enc old.prod.inject sum.inject(2))

lemma dec_list_enc:
  "\<forall>x \<in> set xs. ok x \<Longrightarrow>
   rd_list (length xs) dec (concat (map enc xs) @ rest) = Inr (xs, rest)"
  by (induction xs) (auto simp: dec_enc)

lemma dec_bind_enc: "ok x \<Longrightarrow> rd_bind dec f (enc x @ rest) = f x rest"
  by (simp add: rd_bind_def dec_enc)

end

text \<open>The decoder of a counted list is again a decoder: the list form of the interface.\<close>

lemma codec_list:
  assumes "codec enc dec ok"
  shows "codec (\<lambda>xs. concat (map enc xs)) (rd_list n dec)
           (\<lambda>xs. length xs = n \<and> (\<forall>x \<in> set xs. ok x))"
proof
  fix xs rest
  assume "length xs = n \<and> (\<forall>x \<in> set xs. ok x)"
  then show "rd_list n dec (concat (map enc xs) @ rest) = Inr (xs, rest)"
    using codec.dec_list_enc [OF assms] by blast
qed

end
