(* ===== verification/Float_Bits.thy ===== *)
theory Float_Bits
  imports Byte_Codec
begin

text \<open>
  Rust's \<open>f32\<close> and \<open>f64\<close> as their bit patterns (\<open>to_bits\<close>): classification, IEEE equality
  and order, the exact value of a finite pattern as an integer times a power of two, and
  the operations the program uses (widening from \<open>f32\<close>, conversion from integers,
  addition, division), each as the exact result rounded to nearest, ties to even.
\<close>

unbundle bit_operations_syntax

section \<open>Classification and comparison\<close>

definition f32_nan :: "f32 \<Rightarrow> bool" where
  "f32_nan b \<longleftrightarrow> 0x7F800000 < b AND 0x7FFFFFFF"

definition f64_nan :: "f64 \<Rightarrow> bool" where
  "f64_nan b \<longleftrightarrow> 0x7FF0000000000000 < b AND 0x7FFFFFFFFFFFFFFF"

definition f64_finite :: "f64 \<Rightarrow> bool" where
  "f64_finite b \<longleftrightarrow> b AND 0x7FFFFFFFFFFFFFFF < 0x7FF0000000000000"

text \<open>IEEE equality: no NaN equals anything, and the two zeros are equal.\<close>

definition f32_eq :: "f32 \<Rightarrow> f32 \<Rightarrow> bool" where
  "f32_eq a b \<longleftrightarrow> \<not> f32_nan a \<and> \<not> f32_nan b \<and>
     (a = b \<or> a AND 0x7FFFFFFF = 0 \<and> b AND 0x7FFFFFFF = 0)"

definition f64_eq :: "f64 \<Rightarrow> f64 \<Rightarrow> bool" where
  "f64_eq a b \<longleftrightarrow> \<not> f64_nan a \<and> \<not> f64_nan b \<and>
     (a = b \<or> a AND 0x7FFFFFFFFFFFFFFF = 0 \<and> b AND 0x7FFFFFFFFFFFFFFF = 0)"

text \<open>The position of a pattern on the number line, and the IEEE order.\<close>

definition f64_neg :: "f64 \<Rightarrow> bool" where
  "f64_neg b = bit b 63"

definition f64_key :: "f64 \<Rightarrow> int" where
  "f64_key b = (let mag = uint (b AND 0x7FFFFFFFFFFFFFFF) in if f64_neg b then - mag else mag)"

definition f64_lt :: "f64 \<Rightarrow> f64 \<Rightarrow> bool" where
  "f64_lt a b \<longleftrightarrow> \<not> f64_nan a \<and> \<not> f64_nan b \<and> f64_key a < f64_key b"

text \<open>Bit patterns on which IEEE equality is equality of bits: no NaN, no negative zero.\<close>

definition f32_canon :: "f32 \<Rightarrow> bool" where
  "f32_canon b \<longleftrightarrow> \<not> f32_nan b \<and> b \<noteq> 0x80000000"

definition f64_canon :: "f64 \<Rightarrow> bool" where
  "f64_canon b \<longleftrightarrow> \<not> f64_nan b \<and> b \<noteq> 0x8000000000000000"

lemma magnitude_zero_cases:
  assumes "take_bit n b = (0 :: 'a::len word)" and "LENGTH('a) = Suc n"
  shows "b = 0 \<or> b = push_bit n 1"
proof -
  have "\<not> bit b i" if "i \<noteq> n" for i
  proof (cases "i < n")
    case True
    then have "bit (take_bit n b) i \<longleftrightarrow> bit b i" by (simp add: bit_simps)
    then show ?thesis using assms(1) by simp
  next
    case False
    then show ?thesis using that assms(2) by (auto dest: bit_imp_le_length)
  qed
  then show ?thesis
    by (cases "bit b n") (auto intro!: bit_eqI simp: bit_simps bit_1_iff assms(2), metis)
qed

lemma f32_magnitude: "b AND 0x7FFFFFFF = take_bit 31 (b :: f32)"
proof -
  have "(0x7FFFFFFF :: f32) = mask 31" by (simp add: mask_eq_exp_minus_1)
  then show ?thesis by (simp only: take_bit_eq_mask)
qed

lemma f64_magnitude: "b AND 0x7FFFFFFFFFFFFFFF = take_bit 63 (b :: f64)"
proof -
  have "(0x7FFFFFFFFFFFFFFF :: f64) = mask 63" by (simp add: mask_eq_exp_minus_1)
  then show ?thesis by (simp only: take_bit_eq_mask)
qed

lemma f32_zero_cases: "b AND 0x7FFFFFFF = (0 :: f32) \<Longrightarrow> b = 0 \<or> b = 0x80000000"
  using magnitude_zero_cases [of 31 b] by (simp add: f32_magnitude push_bit_eq_mult)

lemma f64_zero_cases:
  "b AND 0x7FFFFFFFFFFFFFFF = (0 :: f64) \<Longrightarrow> b = 0 \<or> b = 0x8000000000000000"
  using magnitude_zero_cases [of 63 b] by (simp add: f64_magnitude push_bit_eq_mult)

lemma f32_eq_canon: "f32_canon a \<Longrightarrow> f32_canon b \<Longrightarrow> f32_eq a b \<longleftrightarrow> a = b"
  using f32_zero_cases [of a] f32_zero_cases [of b]
  by (auto simp: f32_eq_def f32_canon_def)

lemma f64_eq_canon: "f64_canon a \<Longrightarrow> f64_canon b \<Longrightarrow> f64_eq a b \<longleftrightarrow> a = b"
  using f64_zero_cases [of a] f64_zero_cases [of b]
  by (auto simp: f64_eq_def f64_canon_def)

section \<open>Exact values and rounding\<close>

definition f64_exp :: "f64 \<Rightarrow> int" where
  "f64_exp b = uint (take_bit 11 (drop_bit 52 b))"

definition f64_mant :: "f64 \<Rightarrow> int" where
  "f64_mant b = uint (take_bit 52 b) + (if f64_exp b = 0 then 0 else 0x10000000000000)"

definition f64_scale :: "f64 \<Rightarrow> int" where
  "f64_scale b = (if f64_exp b = 0 then -1074 else f64_exp b - 1075)"

text \<open>The number of binary digits.\<close>

function bit_length :: "int \<Rightarrow> int" where
  "bit_length n = (if n \<le> 0 then 0 else 1 + bit_length (n div 2))"
  by auto
termination by (relation "measure nat") auto

declare bit_length.simps [simp del]

definition round_half_even :: "int \<Rightarrow> nat \<Rightarrow> int" where
  "round_half_even m s =
     (let q = m div 2 ^ s; r = m mod 2 ^ s in
      if 2 * r < 2 ^ s \<or> 2 * r = 2 ^ s \<and> even q then q else q + 1)"

definition f64_signed :: "bool \<Rightarrow> f64 \<Rightarrow> f64" where
  "f64_signed neg b = (if neg then b OR 0x8000000000000000 else b)"

definition f64_infinity :: f64 where
  "f64_infinity = 0x7FF0000000000000"

definition f64_quiet_nan :: f64 where
  "f64_quiet_nan = 0x7FF8000000000000"

text \<open>The float nearest to \<open>m * 2 ^ e\<close>; a carry out of the significand moves the exponent.\<close>

definition f64_round :: "bool \<Rightarrow> int \<Rightarrow> int \<Rightarrow> f64" where
  "f64_round neg m e =
     (let q = max (e + bit_length m - 53) (-1074);
          r = (if q \<le> e then m * 2 ^ nat (e - q) else round_half_even m (nat (q - e)));
          bits = (q + 1074) * 0x10000000000000 + r in
      f64_signed neg
        (if m = 0 then 0
         else if 0x7FF0000000000000 \<le> bits then f64_infinity
         else of_int bits))"

definition f64_of_int :: "int \<Rightarrow> f64" where
  "f64_of_int n = f64_round (n < 0) \<bar>n\<bar> 0"

definition f32_to_f64 :: "f32 \<Rightarrow> f64" where
  "f32_to_f64 b =
     (let e = uint (take_bit 8 (drop_bit 23 b)); m = uint (take_bit 23 b); neg = bit b 31 in
      if e = 255 then
        f64_signed neg (if m = 0 then f64_infinity
                        else f64_quiet_nan OR push_bit 29 (of_int m))
      else f64_round neg (m + (if e = 0 then 0 else 0x800000))
             (if e = 0 then -149 else e - 150))"

definition f64_add :: "f64 \<Rightarrow> f64 \<Rightarrow> f64" where
  "f64_add a b =
     (if f64_nan a \<or> f64_nan b then f64_quiet_nan
      else if \<not> f64_finite a then
        (if \<not> f64_finite b \<and> f64_neg a \<noteq> f64_neg b then f64_quiet_nan else a)
      else if \<not> f64_finite b then b
      else
        (let e = min (f64_scale a) (f64_scale b);
             v = (\<lambda>x. (if f64_neg x then -1 else 1) * f64_mant x * 2 ^ nat (f64_scale x - e));
             s = v a + v b in
         f64_round (if s = 0 then f64_neg a \<and> f64_neg b else s < 0) \<bar>s\<bar> e))"

text \<open>Division keeps 128 extra bits and a sticky bit, more than rounding looks at.\<close>

definition f64_div :: "f64 \<Rightarrow> f64 \<Rightarrow> f64" where
  "f64_div a b =
     (let neg = (f64_neg a \<noteq> f64_neg b) in
      if f64_nan a \<or> f64_nan b then f64_quiet_nan
      else if \<not> f64_finite a then
        (if \<not> f64_finite b then f64_quiet_nan else f64_signed neg f64_infinity)
      else if \<not> f64_finite b then f64_signed neg 0
      else if f64_mant b = 0 then
        (if f64_mant a = 0 then f64_quiet_nan else f64_signed neg f64_infinity)
      else
        (let n = f64_mant a * 2 ^ 128; q = n div f64_mant b; r = n mod f64_mant b in
         f64_round neg (2 * q + (if r = 0 then 0 else 1))
           (f64_scale a - f64_scale b - 129)))"

end
