(* ===== verification/Types_Value.thy ===== *)
theory Types_Value
  imports Float_Bits
begin

text \<open>
  \<open>blitz-types\<close>: the dynamically typed values of \<open>value.rs\<close>, with their total order
  (\<open>Ord for Value\<close>), their derived equality (\<open>PartialEq\<close>, IEEE on floats), what the
  hasher is fed (\<open>Hash for Value\<close>) and the conversions. JSON values follow the public
  enum of \<open>serde_json::Value\<close>, which the source matches on; the text \<open>to_string\<close> gives for
  one is a parameter \<open>js\<close> of the definitions that use it. Timestamps are nanoseconds since
  the epoch, dates are day numbers, and UUIDs are 128-bit words, all ordered as integers.
\<close>

unbundle bit_operations_syntax

section \<open>JSON values\<close>

text \<open>A JSON number is a non-negative integer, a negative one, or a finite float.\<close>

datatype json_number = PosInt u64 | NegInt i64 | JFloat f64

datatype json =
    JNull
  | JBool bool
  | JNumber json_number
  | JString string
  | JArray "json list"
  | JObject "(string \<times> json) list"

fun number_as_i64 :: "json_number \<Rightarrow> i64 option" where
  "number_as_i64 (PosInt n) = (if 0 \<le> sint n then Some n else None)"
| "number_as_i64 (NegInt n) = Some n"
| "number_as_i64 (JFloat _) = None"

fun number_as_u64 :: "json_number \<Rightarrow> u64 option" where
  "number_as_u64 (PosInt n) = Some n"
| "number_as_u64 (NegInt _) = None"
| "number_as_u64 (JFloat _) = None"

fun number_as_f64 :: "json_number \<Rightarrow> f64 option" where
  "number_as_f64 (PosInt n) = Some (f64_of_int (uint n))"
| "number_as_f64 (NegInt n) = Some (f64_of_int (sint n))"
| "number_as_f64 (JFloat b) = Some b"

text \<open>\<open>json!(n)\<close> for a signed and for an unsigned integer, and for a float.\<close>

definition json_of_i64 :: "i64 \<Rightarrow> json" where
  "json_of_i64 n = JNumber (if 0 \<le> sint n then PosInt n else NegInt n)"

definition json_of_u64 :: "u64 \<Rightarrow> json" where
  "json_of_u64 n = JNumber (PosInt n)"

definition json_of_f64 :: "f64 \<Rightarrow> json" where
  "json_of_f64 b = (if f64_finite b then JNumber (JFloat b) else JNull)"

fun number_eq :: "json_number \<Rightarrow> json_number \<Rightarrow> bool" where
  "number_eq (PosInt a) (PosInt b) = (a = b)"
| "number_eq (NegInt a) (NegInt b) = (a = b)"
| "number_eq (JFloat a) (JFloat b) = f64_eq a b"
| "number_eq _ _ = False"

fun json_eq :: "json \<Rightarrow> json \<Rightarrow> bool" and jsons_eq :: "json list \<Rightarrow> json list \<Rightarrow> bool"
  and fields_eq :: "(string \<times> json) list \<Rightarrow> (string \<times> json) list \<Rightarrow> bool" where
  "json_eq JNull w = (w = JNull)"
| "json_eq (JBool a) w = (w = JBool a)"
| "json_eq (JNumber a) w = (case w of JNumber b \<Rightarrow> number_eq a b | _ \<Rightarrow> False)"
| "json_eq (JString a) w = (w = JString a)"
| "json_eq (JArray a) w = (case w of JArray b \<Rightarrow> jsons_eq a b | _ \<Rightarrow> False)"
| "json_eq (JObject a) w = (case w of JObject b \<Rightarrow> fields_eq a b | _ \<Rightarrow> False)"
| "jsons_eq [] ys = (ys = [])"
| "jsons_eq (x # xs) ys = (case ys of [] \<Rightarrow> False | y # ys' \<Rightarrow> json_eq x y \<and> jsons_eq xs ys')"
| "fields_eq [] ys = (ys = [])"
| "fields_eq ((k, x) # xs) ys =
     (case ys of [] \<Rightarrow> False | (k', y) # ys' \<Rightarrow> k = k' \<and> json_eq x y \<and> fields_eq xs ys')"

fun json_canon :: "json \<Rightarrow> bool" where
  "json_canon (JNumber (JFloat b)) = f64_canon b"
| "json_canon (JArray xs) = (\<forall>x \<in> set xs. json_canon x)"
| "json_canon (JObject kvs) = (\<forall>x \<in> snd ` set kvs. json_canon x)"
| "json_canon _ = True"

section \<open>Values\<close>

datatype val =
    VBoolean bool
  | VInt8 i8
  | VInt16 i16
  | VInt32 i32
  | VInt64 i64
  | VUInt8 u8
  | VUInt16 u16
  | VUInt32 u32
  | VUInt64 u64
  | VFloat32 f32
  | VFloat64 f64
  | VDecimal string
  | VString string
  | VBytes "u8 list"
  | VUuid "128 word"
  | VTimestamp int
  | VDate int
  | VJson json
  | VArray "val list"
  | VNull

text \<open>The variant index that orders values of different types.\<close>

fun variant_idx :: "val \<Rightarrow> nat" where
  "variant_idx (VBoolean _) = 0"
| "variant_idx (VInt8 _) = 1"
| "variant_idx (VInt16 _) = 2"
| "variant_idx (VInt32 _) = 3"
| "variant_idx (VInt64 _) = 4"
| "variant_idx (VUInt8 _) = 5"
| "variant_idx (VUInt16 _) = 6"
| "variant_idx (VUInt32 _) = 7"
| "variant_idx (VUInt64 _) = 8"
| "variant_idx (VFloat32 _) = 9"
| "variant_idx (VFloat64 _) = 10"
| "variant_idx (VDecimal _) = 11"
| "variant_idx (VString _) = 12"
| "variant_idx (VBytes _) = 13"
| "variant_idx (VUuid _) = 14"
| "variant_idx (VTimestamp _) = 15"
| "variant_idx (VDate _) = 16"
| "variant_idx (VJson _) = 17"
| "variant_idx (VArray _) = 18"
| "variant_idx VNull = 19"

text \<open>
  \<open>Ord for Value\<close>: \<open>NULL\<close> first, values of one type by content (floats by their bits, JSON
  by its text, arrays element by element and then by length), the rest by variant index.
\<close>

fun value_cmp :: "(json \<Rightarrow> string) \<Rightarrow> val \<Rightarrow> val \<Rightarrow> ordering"
  and zip_cmp :: "(json \<Rightarrow> string) \<Rightarrow> val list \<Rightarrow> val list \<Rightarrow> ordering" where
  "value_cmp js (VBoolean a) w =
     (case w of VNull \<Rightarrow> Greater | VBoolean b \<Rightarrow> cmp_of a b
      | _ \<Rightarrow> cmp_of 0 (variant_idx w))"
| "value_cmp js (VInt8 a) w =
     (case w of VNull \<Rightarrow> Greater | VInt8 b \<Rightarrow> cmp_of (sint a) (sint b)
      | _ \<Rightarrow> cmp_of 1 (variant_idx w))"
| "value_cmp js (VInt16 a) w =
     (case w of VNull \<Rightarrow> Greater | VInt16 b \<Rightarrow> cmp_of (sint a) (sint b)
      | _ \<Rightarrow> cmp_of 2 (variant_idx w))"
| "value_cmp js (VInt32 a) w =
     (case w of VNull \<Rightarrow> Greater | VInt32 b \<Rightarrow> cmp_of (sint a) (sint b)
      | _ \<Rightarrow> cmp_of 3 (variant_idx w))"
| "value_cmp js (VInt64 a) w =
     (case w of VNull \<Rightarrow> Greater | VInt64 b \<Rightarrow> cmp_of (sint a) (sint b)
      | _ \<Rightarrow> cmp_of 4 (variant_idx w))"
| "value_cmp js (VUInt8 a) w =
     (case w of VNull \<Rightarrow> Greater | VUInt8 b \<Rightarrow> cmp_of a b
      | _ \<Rightarrow> cmp_of 5 (variant_idx w))"
| "value_cmp js (VUInt16 a) w =
     (case w of VNull \<Rightarrow> Greater | VUInt16 b \<Rightarrow> cmp_of a b
      | _ \<Rightarrow> cmp_of 6 (variant_idx w))"
| "value_cmp js (VUInt32 a) w =
     (case w of VNull \<Rightarrow> Greater | VUInt32 b \<Rightarrow> cmp_of a b
      | _ \<Rightarrow> cmp_of 7 (variant_idx w))"
| "value_cmp js (VUInt64 a) w =
     (case w of VNull \<Rightarrow> Greater | VUInt64 b \<Rightarrow> cmp_of a b
      | _ \<Rightarrow> cmp_of 8 (variant_idx w))"
| "value_cmp js (VFloat32 a) w =
     (case w of VNull \<Rightarrow> Greater | VFloat32 b \<Rightarrow> cmp_of a b
      | _ \<Rightarrow> cmp_of 9 (variant_idx w))"
| "value_cmp js (VFloat64 a) w =
     (case w of VNull \<Rightarrow> Greater | VFloat64 b \<Rightarrow> cmp_of a b
      | _ \<Rightarrow> cmp_of 10 (variant_idx w))"
| "value_cmp js (VDecimal a) w =
     (case w of VNull \<Rightarrow> Greater | VDecimal b \<Rightarrow> cmp_of a b
      | _ \<Rightarrow> cmp_of 11 (variant_idx w))"
| "value_cmp js (VString a) w =
     (case w of VNull \<Rightarrow> Greater | VString b \<Rightarrow> cmp_of a b
      | _ \<Rightarrow> cmp_of 12 (variant_idx w))"
| "value_cmp js (VBytes a) w =
     (case w of VNull \<Rightarrow> Greater | VBytes b \<Rightarrow> cmp_of a b
      | _ \<Rightarrow> cmp_of 13 (variant_idx w))"
| "value_cmp js (VUuid a) w =
     (case w of VNull \<Rightarrow> Greater | VUuid b \<Rightarrow> cmp_of a b
      | _ \<Rightarrow> cmp_of 14 (variant_idx w))"
| "value_cmp js (VTimestamp a) w =
     (case w of VNull \<Rightarrow> Greater | VTimestamp b \<Rightarrow> cmp_of a b
      | _ \<Rightarrow> cmp_of 15 (variant_idx w))"
| "value_cmp js (VDate a) w =
     (case w of VNull \<Rightarrow> Greater | VDate b \<Rightarrow> cmp_of a b
      | _ \<Rightarrow> cmp_of 16 (variant_idx w))"
| "value_cmp js (VJson a) w =
     (case w of VNull \<Rightarrow> Greater | VJson b \<Rightarrow> cmp_of (js a) (js b)
      | _ \<Rightarrow> cmp_of 17 (variant_idx w))"
| "value_cmp js (VArray a) w =
     (case w of VNull \<Rightarrow> Greater | VArray b \<Rightarrow> (case zip_cmp js a b of Equal \<Rightarrow> cmp_of (length a) (length b) | r \<Rightarrow> r)
      | _ \<Rightarrow> cmp_of 18 (variant_idx w))"
| "value_cmp js VNull w = (if w = VNull then Equal else Less)"
| "zip_cmp js (x # xs) ys =
     (case ys of [] \<Rightarrow> Equal
      | y # ys' \<Rightarrow> (case value_cmp js x y of Equal \<Rightarrow> zip_cmp js xs ys' | r \<Rightarrow> r))"
| "zip_cmp js [] ys = Equal"

text \<open>The derived \<open>PartialEq\<close>.\<close>

fun value_eq :: "val \<Rightarrow> val \<Rightarrow> bool" and values_eq :: "val list \<Rightarrow> val list \<Rightarrow> bool" where
  "value_eq (VBoolean a) w = (w = VBoolean a)"
| "value_eq (VInt8 a) w = (w = VInt8 a)"
| "value_eq (VInt16 a) w = (w = VInt16 a)"
| "value_eq (VInt32 a) w = (w = VInt32 a)"
| "value_eq (VInt64 a) w = (w = VInt64 a)"
| "value_eq (VUInt8 a) w = (w = VUInt8 a)"
| "value_eq (VUInt16 a) w = (w = VUInt16 a)"
| "value_eq (VUInt32 a) w = (w = VUInt32 a)"
| "value_eq (VUInt64 a) w = (w = VUInt64 a)"
| "value_eq (VFloat32 a) w = (case w of VFloat32 b \<Rightarrow> f32_eq a b | _ \<Rightarrow> False)"
| "value_eq (VFloat64 a) w = (case w of VFloat64 b \<Rightarrow> f64_eq a b | _ \<Rightarrow> False)"
| "value_eq (VDecimal a) w = (w = VDecimal a)"
| "value_eq (VString a) w = (w = VString a)"
| "value_eq (VBytes a) w = (w = VBytes a)"
| "value_eq (VUuid a) w = (w = VUuid a)"
| "value_eq (VTimestamp a) w = (w = VTimestamp a)"
| "value_eq (VDate a) w = (w = VDate a)"
| "value_eq (VJson a) w = (case w of VJson b \<Rightarrow> json_eq a b | _ \<Rightarrow> False)"
| "value_eq (VArray a) w = (case w of VArray b \<Rightarrow> values_eq a b | _ \<Rightarrow> False)"
| "value_eq VNull w = (w = VNull)"
| "values_eq [] ys = (ys = [])"
| "values_eq (x # xs) ys =
     (case ys of [] \<Rightarrow> False | y # ys' \<Rightarrow> value_eq x y \<and> values_eq xs ys')"

text \<open>Values on which the derived equality is identity: no NaN and no negative zero inside.\<close>

fun value_canon :: "val \<Rightarrow> bool" where
  "value_canon (VFloat32 b) = f32_canon b"
| "value_canon (VFloat64 b) = f64_canon b"
| "value_canon (VJson j) = json_canon j"
| "value_canon (VArray vs) = (\<forall>v \<in> set vs. value_canon v)"
| "value_canon _ = True"

text \<open>The typed writes a value makes to the hasher.\<close>

datatype hash_feed =
    HDiscriminant nat
  | HBool bool
  | HInt int
  | HStr string
  | HBytes "u8 list"
  | HLen nat

fun value_hash :: "(json \<Rightarrow> string) \<Rightarrow> val \<Rightarrow> hash_feed list" where
  "value_hash js (VBoolean v) = [HDiscriminant 0, HBool v]"
| "value_hash js (VInt8 v) = [HDiscriminant 1, HInt (sint v)]"
| "value_hash js (VInt16 v) = [HDiscriminant 2, HInt (sint v)]"
| "value_hash js (VInt32 v) = [HDiscriminant 3, HInt (sint v)]"
| "value_hash js (VInt64 v) = [HDiscriminant 4, HInt (sint v)]"
| "value_hash js (VUInt8 v) = [HDiscriminant 5, HInt (uint v)]"
| "value_hash js (VUInt16 v) = [HDiscriminant 6, HInt (uint v)]"
| "value_hash js (VUInt32 v) = [HDiscriminant 7, HInt (uint v)]"
| "value_hash js (VUInt64 v) = [HDiscriminant 8, HInt (uint v)]"
| "value_hash js (VFloat32 v) = [HDiscriminant 9, HInt (uint v)]"
| "value_hash js (VFloat64 v) = [HDiscriminant 10, HInt (uint v)]"
| "value_hash js (VDecimal v) = [HDiscriminant 11, HStr v]"
| "value_hash js (VString v) = [HDiscriminant 12, HStr v]"
| "value_hash js (VBytes v) = [HDiscriminant 13, HBytes v]"
| "value_hash js (VUuid v) = [HDiscriminant 14, HInt (uint v)]"
| "value_hash js (VTimestamp v) = [HDiscriminant 15, HInt v]"
| "value_hash js (VDate v) = [HDiscriminant 16, HInt v]"
| "value_hash js (VJson v) = [HDiscriminant 17, HStr (js v)]"
| "value_hash js (VArray vs) =
     HDiscriminant 18 # HLen (length vs) # concat (map (value_hash js) vs)"
| "value_hash js VNull = [HDiscriminant 19]"

definition is_null :: "val \<Rightarrow> bool" where
  "is_null v \<longleftrightarrow> v = VNull"

fun type_name :: "val \<Rightarrow> string" where
  "type_name (VBoolean _) = ''boolean''"
| "type_name (VInt8 _) = ''int8''"
| "type_name (VInt16 _) = ''int16''"
| "type_name (VInt32 _) = ''int32''"
| "type_name (VInt64 _) = ''int64''"
| "type_name (VUInt8 _) = ''uint8''"
| "type_name (VUInt16 _) = ''uint16''"
| "type_name (VUInt32 _) = ''uint32''"
| "type_name (VUInt64 _) = ''uint64''"
| "type_name (VFloat32 _) = ''float32''"
| "type_name (VFloat64 _) = ''float64''"
| "type_name (VDecimal _) = ''decimal''"
| "type_name (VString _) = ''string''"
| "type_name (VBytes _) = ''bytes''"
| "type_name (VUuid _) = ''uuid''"
| "type_name (VTimestamp _) = ''timestamp''"
| "type_name (VDate _) = ''date''"
| "type_name (VJson _) = ''json''"
| "type_name (VArray _) = ''array''"
| "type_name VNull = ''null''"

fun as_i64 :: "val \<Rightarrow> i64 option" where
  "as_i64 (VInt8 v) = Some (scast v)"
| "as_i64 (VInt16 v) = Some (scast v)"
| "as_i64 (VInt32 v) = Some (scast v)"
| "as_i64 (VInt64 v) = Some v"
| "as_i64 (VUInt8 v) = Some (ucast v)"
| "as_i64 (VUInt16 v) = Some (ucast v)"
| "as_i64 (VUInt32 v) = Some (ucast v)"
| "as_i64 _ = None"

fun as_u64 :: "val \<Rightarrow> u64 option" where
  "as_u64 (VUInt8 v) = Some (ucast v)"
| "as_u64 (VUInt16 v) = Some (ucast v)"
| "as_u64 (VUInt32 v) = Some (ucast v)"
| "as_u64 (VUInt64 v) = Some v"
| "as_u64 (VInt8 v) = (if 0 \<le> sint v then Some (scast v) else None)"
| "as_u64 (VInt16 v) = (if 0 \<le> sint v then Some (scast v) else None)"
| "as_u64 (VInt32 v) = (if 0 \<le> sint v then Some (scast v) else None)"
| "as_u64 (VInt64 v) = (if 0 \<le> sint v then Some v else None)"
| "as_u64 _ = None"

fun as_f64 :: "val \<Rightarrow> f64 option" where
  "as_f64 (VFloat32 v) = Some (f32_to_f64 v)"
| "as_f64 (VFloat64 v) = Some v"
| "as_f64 (VInt8 v) = Some (f64_of_int (sint v))"
| "as_f64 (VInt16 v) = Some (f64_of_int (sint v))"
| "as_f64 (VInt32 v) = Some (f64_of_int (sint v))"
| "as_f64 (VInt64 v) = Some (f64_of_int (sint v))"
| "as_f64 (VUInt8 v) = Some (f64_of_int (uint v))"
| "as_f64 (VUInt16 v) = Some (f64_of_int (uint v))"
| "as_f64 (VUInt32 v) = Some (f64_of_int (uint v))"
| "as_f64 (VUInt64 v) = Some (f64_of_int (uint v))"
| "as_f64 _ = None"

fun as_str :: "val \<Rightarrow> string option" where
  "as_str (VString s) = Some s"
| "as_str _ = None"

fun as_bool :: "val \<Rightarrow> bool option" where
  "as_bool (VBoolean b) = Some b"
| "as_bool _ = None"

text \<open>
  \<open>From<Value> for serde_json::Value\<close>. The texts of identifiers, timestamps and dates are
  those of the \<open>uuid\<close> and \<open>chrono\<close> crates.
\<close>

record texts =
  uuid_text :: "128 word \<Rightarrow> string"
  rfc3339_text :: "int \<Rightarrow> string"
  date_text :: "int \<Rightarrow> string"

fun json_of_value :: "texts \<Rightarrow> val \<Rightarrow> json" where
  "json_of_value t (VBoolean b) = JBool b"
| "json_of_value t (VInt8 n) = json_of_i64 (scast n)"
| "json_of_value t (VInt16 n) = json_of_i64 (scast n)"
| "json_of_value t (VInt32 n) = json_of_i64 (scast n)"
| "json_of_value t (VInt64 n) = json_of_i64 n"
| "json_of_value t (VUInt8 n) = json_of_u64 (ucast n)"
| "json_of_value t (VUInt16 n) = json_of_u64 (ucast n)"
| "json_of_value t (VUInt32 n) = json_of_u64 (ucast n)"
| "json_of_value t (VUInt64 n) = json_of_u64 n"
| "json_of_value t (VFloat32 n) = json_of_f64 (f32_to_f64 n)"
| "json_of_value t (VFloat64 n) = json_of_f64 n"
| "json_of_value t (VDecimal s) = JString s"
| "json_of_value t (VString s) = JString s"
| "json_of_value t (VBytes b) = JArray (map (\<lambda>x. json_of_u64 (ucast x)) b)"
| "json_of_value t (VUuid u) = JString (uuid_text t u)"
| "json_of_value t (VTimestamp x) = JString (rfc3339_text t x)"
| "json_of_value t (VDate d) = JString (date_text t d)"
| "json_of_value t (VJson j) = j"
| "json_of_value t (VArray a) = JArray (map (json_of_value t) a)"
| "json_of_value t VNull = JNull"

section \<open>Equality and hashing\<close>

lemma number_eq_canon:
  "json_canon (JNumber a) \<Longrightarrow> json_canon (JNumber b) \<Longrightarrow> number_eq a b \<longleftrightarrow> a = b"
  by (cases a; cases b) (auto simp: f64_eq_canon)

lemma json_eq_canon:
  "json_canon a \<Longrightarrow> json_canon b \<Longrightarrow> json_eq a b \<longleftrightarrow> a = b"
  "\<forall>x \<in> set xs. json_canon x \<Longrightarrow> \<forall>y \<in> set ys. json_canon y \<Longrightarrow> jsons_eq xs ys \<longleftrightarrow> xs = ys"
  "\<forall>x \<in> snd ` set ps. json_canon x \<Longrightarrow> \<forall>y \<in> snd ` set qs. json_canon y \<Longrightarrow>
   fields_eq ps qs \<longleftrightarrow> ps = qs"
  by (induction a b and xs ys and ps qs rule: json_eq_jsons_eq_fields_eq.induct)
    (auto simp: number_eq_canon split: json.split list.split)

lemma value_eq_canon:
  "value_canon v \<Longrightarrow> value_canon w \<Longrightarrow> value_eq v w \<longleftrightarrow> v = w"
  "\<forall>x \<in> set vs. value_canon x \<Longrightarrow> \<forall>y \<in> set ws. value_canon y \<Longrightarrow> values_eq vs ws \<longleftrightarrow> vs = ws"
  by (induction v w and vs ws rule: value_eq_values_eq.induct)
    (auto simp: f32_eq_canon f64_eq_canon json_eq_canon split: val.split list.split)

lemma value_eq_refl_canon: "value_canon v \<Longrightarrow> value_eq v v"
  by (simp add: value_eq_canon)

text \<open>
  Values without a negative zero inside: on these, values that compare equal are identical
  (a NaN is then not even equal to itself).
\<close>

fun json_zero_ok :: "json \<Rightarrow> bool" where
  "json_zero_ok (JNumber (JFloat b)) = (b \<noteq> 0x8000000000000000)"
| "json_zero_ok (JArray xs) = (\<forall>x \<in> set xs. json_zero_ok x)"
| "json_zero_ok (JObject kvs) = (\<forall>x \<in> snd ` set kvs. json_zero_ok x)"
| "json_zero_ok _ = True"

fun value_zero_ok :: "val \<Rightarrow> bool" where
  "value_zero_ok (VFloat32 b) = (b \<noteq> 0x80000000)"
| "value_zero_ok (VFloat64 b) = (b \<noteq> 0x8000000000000000)"
| "value_zero_ok (VJson j) = json_zero_ok j"
| "value_zero_ok (VArray vs) = (\<forall>v \<in> set vs. value_zero_ok v)"
| "value_zero_ok _ = True"

lemma f32_eq_zero_ok: "a \<noteq> 0x80000000 \<Longrightarrow> b \<noteq> 0x80000000 \<Longrightarrow> f32_eq a b \<Longrightarrow> a = b"
  using f32_zero_cases [of a] f32_zero_cases [of b] by (auto simp: f32_eq_def)

lemma f64_eq_zero_ok:
  "a \<noteq> 0x8000000000000000 \<Longrightarrow> b \<noteq> 0x8000000000000000 \<Longrightarrow> f64_eq a b \<Longrightarrow> a = b"
  using f64_zero_cases [of a] f64_zero_cases [of b] by (auto simp: f64_eq_def)

lemma number_eq_zero_ok:
  "json_zero_ok (JNumber a) \<Longrightarrow> json_zero_ok (JNumber b) \<Longrightarrow> number_eq a b \<Longrightarrow> a = b"
  by (cases a; cases b) (auto dest: f64_eq_zero_ok)

lemma json_eq_zero_ok:
  "json_eq a b \<Longrightarrow> json_zero_ok a \<Longrightarrow> json_zero_ok b \<Longrightarrow> a = b"
  "jsons_eq xs ys \<Longrightarrow> \<forall>x \<in> set xs. json_zero_ok x \<Longrightarrow> \<forall>y \<in> set ys. json_zero_ok y \<Longrightarrow> xs = ys"
  "fields_eq ps qs \<Longrightarrow> \<forall>x \<in> snd ` set ps. json_zero_ok x \<Longrightarrow>
   \<forall>y \<in> snd ` set qs. json_zero_ok y \<Longrightarrow> ps = qs"
  by (induction a b and xs ys and ps qs rule: json_eq_jsons_eq_fields_eq.induct)
    (auto dest: number_eq_zero_ok split: json.splits list.splits)

lemma value_eq_zero_ok:
  "value_eq v w \<Longrightarrow> value_zero_ok v \<Longrightarrow> value_zero_ok w \<Longrightarrow> v = w"
  "values_eq vs ws \<Longrightarrow> \<forall>x \<in> set vs. value_zero_ok x \<Longrightarrow> \<forall>y \<in> set ws. value_zero_ok y \<Longrightarrow> vs = ws"
  by (induction v w and vs ws rule: value_eq_values_eq.induct)
    (auto dest: f32_eq_zero_ok f64_eq_zero_ok json_eq_zero_ok(1) split: val.splits list.splits)

section \<open>The order of values\<close>

text \<open>The position of a value among those of other types: \<open>NULL\<close> is least.\<close>

definition rank :: "val \<Rightarrow> nat" where
  "rank v = (if v = VNull then 0 else Suc (variant_idx v))"

lemma value_cmp_rank: "rank v \<noteq> rank w \<Longrightarrow> value_cmp js v w = cmp_of (rank v) (rank w)"
  by (cases v; cases w; simp add: rank_def cmp_of_def)

lemma value_cmp_le_rank: "value_cmp js v w \<noteq> Greater \<Longrightarrow> rank v \<le> rank w"
  using value_cmp_rank [of v w js] by (cases "rank v = rank w") (auto simp: cmp_simps)

lemma rank_iff:
  "rank v = rank (VBoolean a0) \<longleftrightarrow> (\<exists>b. v = VBoolean b)"
  "rank v = rank (VInt8 a1) \<longleftrightarrow> (\<exists>b. v = VInt8 b)"
  "rank v = rank (VInt16 a2) \<longleftrightarrow> (\<exists>b. v = VInt16 b)"
  "rank v = rank (VInt32 a3) \<longleftrightarrow> (\<exists>b. v = VInt32 b)"
  "rank v = rank (VInt64 a4) \<longleftrightarrow> (\<exists>b. v = VInt64 b)"
  "rank v = rank (VUInt8 a5) \<longleftrightarrow> (\<exists>b. v = VUInt8 b)"
  "rank v = rank (VUInt16 a6) \<longleftrightarrow> (\<exists>b. v = VUInt16 b)"
  "rank v = rank (VUInt32 a7) \<longleftrightarrow> (\<exists>b. v = VUInt32 b)"
  "rank v = rank (VUInt64 a8) \<longleftrightarrow> (\<exists>b. v = VUInt64 b)"
  "rank v = rank (VFloat32 a9) \<longleftrightarrow> (\<exists>b. v = VFloat32 b)"
  "rank v = rank (VFloat64 a10) \<longleftrightarrow> (\<exists>b. v = VFloat64 b)"
  "rank v = rank (VDecimal a11) \<longleftrightarrow> (\<exists>b. v = VDecimal b)"
  "rank v = rank (VString a12) \<longleftrightarrow> (\<exists>b. v = VString b)"
  "rank v = rank (VBytes a13) \<longleftrightarrow> (\<exists>b. v = VBytes b)"
  "rank v = rank (VUuid a14) \<longleftrightarrow> (\<exists>b. v = VUuid b)"
  "rank v = rank (VTimestamp a15) \<longleftrightarrow> (\<exists>b. v = VTimestamp b)"
  "rank v = rank (VDate a16) \<longleftrightarrow> (\<exists>b. v = VDate b)"
  "rank v = rank (VJson a17) \<longleftrightarrow> (\<exists>b. v = VJson b)"
  "rank v = rank (VArray a18) \<longleftrightarrow> (\<exists>b. v = VArray b)"
  "rank v = rank VNull \<longleftrightarrow> v = VNull"
  by (cases v; simp add: rank_def)+

lemma zip_cmp_refl: "(\<And>v. v \<in> set vs \<Longrightarrow> value_cmp js v v = Equal) \<Longrightarrow> zip_cmp js vs vs = Equal"
  by (induction vs) auto

lemma value_cmp_refl: "value_cmp js v v = Equal"
  by (induction v) (auto simp: zip_cmp_refl)

lemma value_cmp_flip_rank:
  assumes "rank w = rank v \<Longrightarrow> value_cmp js w v = reverse_ordering (value_cmp js v w)"
  shows "value_cmp js w v = reverse_ordering (value_cmp js v w)"
  using assms value_cmp_rank [of v w js] value_cmp_rank [of w v js]
    cmp_of_flip [of "rank w" "rank v"]
  by (cases "rank w = rank v") simp_all

lemma zip_cmp_flip:
  "(\<And>x y. x \<in> set vs \<Longrightarrow> value_cmp js y x = reverse_ordering (value_cmp js x y)) \<Longrightarrow>
   zip_cmp js ws vs = reverse_ordering (zip_cmp js vs ws)"
proof (induction vs arbitrary: ws)
  case Nil
  then show ?case by (cases ws) auto
next
  case (Cons x xs)
  show ?case
  proof (cases ws)
    case (Cons y ys)
    have "zip_cmp js ys xs = reverse_ordering (zip_cmp js xs ys)"
      using Cons.IH Cons.prems by auto
    then show ?thesis using Cons Cons.prems [of x y] by (cases "value_cmp js x y") auto
  qed simp
qed

lemma value_cmp_flip: "value_cmp js w v = reverse_ordering (value_cmp js v w)"
proof (induction v arbitrary: w)
  case (VArray a)
  show ?case
  proof (rule value_cmp_flip_rank)
    assume "rank w = rank (VArray a)"
    then obtain b where "w = VArray b" by (auto simp: rank_iff)
    moreover have "zip_cmp js b a = reverse_ordering (zip_cmp js a b)"
      using VArray.IH by (intro zip_cmp_flip)
    ultimately show "value_cmp js w (VArray a) = reverse_ordering (value_cmp js (VArray a) w)"
      by (cases "zip_cmp js a b") (auto intro: cmp_of_flip)
  qed
qed (rule value_cmp_flip_rank; auto simp: rank_iff intro: cmp_of_flip)+

text \<open>Arrays compare lexicographically.\<close>

definition array_cmp :: "(json \<Rightarrow> string) \<Rightarrow> val list \<Rightarrow> val list \<Rightarrow> ordering" where
  "array_cmp js a b = value_cmp js (VArray a) (VArray b)"

lemma array_cmp_simps [simp]:
  "array_cmp js [] [] = Equal"
  "array_cmp js [] (y # ys) = Less"
  "array_cmp js (x # xs) [] = Greater"
  "array_cmp js (x # xs) (y # ys) =
     (case value_cmp js x y of Equal \<Rightarrow> array_cmp js xs ys | r \<Rightarrow> r)"
  by (auto simp: array_cmp_def cmp_of_def split: ordering.split)

lemma value_cmp_Equal_rank: "value_cmp js v w = Equal \<Longrightarrow> rank w = rank v"
  using value_cmp_rank [of v w js] by (cases "rank v = rank w") (auto simp: cmp_simps)

lemma value_cmp_Equal_cases:
  "value_cmp js v w = Equal \<Longrightarrow>
   v = w \<or> (\<exists>a b. v = VJson a \<and> w = VJson b \<and> js a = js b) \<or>
   (\<exists>a b. v = VArray a \<and> w = VArray b \<and> array_cmp js a b = Equal)"
  using value_cmp_Equal_rank [of js v w]
  by (cases v) (auto simp: rank_iff cmp_simps array_cmp_def signed_word_eqI)

lemma array_cmp_equal_left:
  "(\<And>x y z. x \<in> set a \<Longrightarrow> value_cmp js x y = Equal \<Longrightarrow> value_cmp js x z = value_cmp js y z) \<Longrightarrow>
   array_cmp js a b = Equal \<Longrightarrow> array_cmp js a c = array_cmp js b c"
proof (induction a arbitrary: b c)
  case Nil
  then show ?case by (cases b) auto
next
  case (Cons x a)
  from Cons.prems(2) obtain y b'
    where b: "b = y # b'" "value_cmp js x y = Equal" "array_cmp js a b' = Equal"
    by (cases b) (auto split: ordering.splits)
  have "array_cmp js a d = array_cmp js b' d" for d
    using Cons.IH [OF Cons.prems(1) b(3)] by auto
  moreover have "value_cmp js x z = value_cmp js y z" for z
    using Cons.prems(1) [of x y z] b(2) by simp
  ultimately show ?case using b(1) by (cases c) (auto split: ordering.split)
qed

lemma value_cmp_equal_left:
  "value_cmp js v w = Equal \<Longrightarrow> value_cmp js v u = value_cmp js w u"
proof (induction v arbitrary: w u)
  case (VArray a)
  then obtain b where w: "w = VArray b" and ab: "array_cmp js a b = Equal"
    by (auto dest!: value_cmp_Equal_cases simp: array_cmp_def value_cmp_refl simp del: value_cmp.simps)
  show ?case
  proof (cases "rank u = rank (VArray a)")
    case True
    then obtain c where "u = VArray c" by (cases u) (auto simp: rank_def)
    then show ?thesis using array_cmp_equal_left [OF VArray.IH ab] w by (simp add: array_cmp_def)
  next
    case False
    moreover have "rank w = rank (VArray a)" using w by (simp add: rank_iff)
    ultimately show ?thesis
      using value_cmp_rank [of "VArray a" u js] value_cmp_rank [of w u js] by metis
  qed
next
  case (VJson a)
  then obtain b where "w = VJson b" "js b = js a"
    using value_cmp_Equal_rank [of js "VJson a" w] by (auto simp: rank_iff cmp_simps)
  then show ?case by (cases u) auto
qed (drule value_cmp_Equal_cases; auto)+

lemma array_cmp_trans_less:
  "(\<And>x y z. x \<in> set a \<Longrightarrow> value_cmp js x y = Less \<Longrightarrow> value_cmp js y z = Less \<Longrightarrow>
     value_cmp js x z = Less) \<Longrightarrow>
   array_cmp js a b = Less \<Longrightarrow> array_cmp js b c = Less \<Longrightarrow> array_cmp js a c = Less"
proof (induction a arbitrary: b c)
  case Nil
  then show ?case by (cases b; cases c) auto
next
  case (Cons x a)
  from Cons.prems(2,3) obtain y b' z c' where bc: "b = y # b'" "c = z # c'"
    by (cases b; cases c) auto
  have eq: "value_cmp js x y = Equal \<Longrightarrow> value_cmp js x z = value_cmp js y z"
    "value_cmp js y z = Equal \<Longrightarrow> value_cmp js x z = value_cmp js x y"
    using value_cmp_equal_left value_cmp_flip by metis+
  have "array_cmp js a b' = Less \<Longrightarrow> array_cmp js b' c' = Less \<Longrightarrow> array_cmp js a c' = Less"
    using Cons.IH [of b' c'] Cons.prems(1) by auto
  then show ?case
    using Cons.prems(1) [of x y z] Cons.prems(2,3) eq unfolding bc
    by (cases "value_cmp js x y"; cases "value_cmp js y z") auto
qed

lemma value_cmp_trans_same_rank:
  "value_cmp js v w = Less \<Longrightarrow> value_cmp js w u = Less \<Longrightarrow> rank w = rank v \<Longrightarrow> rank u = rank v \<Longrightarrow>
   value_cmp js v u = Less"
proof (induction v arbitrary: w u)
  case (VArray a)
  have "value_cmp js x z = Less"
    if x: "x \<in> set a" and xy: "value_cmp js x y = Less" and yz: "value_cmp js y z = Less" for x y z
  proof (cases "rank x = rank z")
    case True
    then have "rank y = rank x" "rank z = rank x"
      using value_cmp_le_rank [of js x y] value_cmp_le_rank [of js y z] xy yz by auto
    then show ?thesis using VArray.IH [OF x xy yz] by simp
  next
    case False
    then show ?thesis
      using value_cmp_le_rank [of js x y] value_cmp_le_rank [of js y z] xy yz
        value_cmp_rank [of x z js] by (auto simp: cmp_simps)
  qed
  moreover obtain b c where "w = VArray b" "u = VArray c"
    using VArray.prems(3,4) by (auto simp: rank_iff)
  ultimately show ?case
    using array_cmp_trans_less [of a js b c] VArray.prems(1,2) by (auto simp: array_cmp_def)
qed (auto simp: rank_iff cmp_simps)

lemma value_cmp_trans_less:
  assumes "value_cmp js v w = Less" and "value_cmp js w u = Less"
  shows "value_cmp js v u = Less"
proof -
  have le: "rank v \<le> rank w" "rank w \<le> rank u"
    using assms by (auto intro: value_cmp_le_rank [of js])
  show ?thesis
  proof (cases "rank v = rank u")
    case True
    then show ?thesis using le assms value_cmp_trans_same_rank [of js v w u] by simp
  next
    case False
    then show ?thesis using le value_cmp_rank [of v u js] by (auto simp: cmp_simps)
  qed
qed

text \<open>The order of values meets the contract of \<open>Ord\<close>.\<close>

interpretation vo: comparator "value_cmp js" for js
proof
  show "value_cmp js v v = Equal" for v by (rule value_cmp_refl)
  show "value_cmp js w v = reverse_ordering (value_cmp js v w)" for v w by (rule value_cmp_flip)
  fix x y z
  assume "value_cmp js x y \<noteq> Greater" "value_cmp js y z \<noteq> Greater"
  moreover have "value_cmp js y z = Equal \<Longrightarrow> value_cmp js x z = value_cmp js x y"
    using value_cmp_equal_left value_cmp_flip by metis
  ultimately show "value_cmp js x z \<noteq> Greater"
    using value_cmp_equal_left [of js x y z] value_cmp_trans_less [of js x y z]
    by (cases "value_cmp js x y"; cases "value_cmp js y z") auto
qed

lemma value_cmp_eq_iff:
  "inj js \<Longrightarrow> value_cmp js v w = Equal \<longleftrightarrow> v = w"
proof (induction v arbitrary: w)
  case (VArray a)
  have "array_cmp js a b = Equal \<Longrightarrow> a = b" for b
    using VArray
  proof (induction a arbitrary: b)
    case Nil
    then show ?case by (cases b) auto
  next
    case (Cons x a)
    then show ?case by (cases b) (auto split: ordering.splits)
  qed
  then show ?case
    using value_cmp_Equal_cases [of js "VArray a" w] value_cmp_refl [of js w]
    by (auto simp del: value_cmp.simps)
qed (use value_cmp_Equal_cases value_cmp_refl in \<open>blast dest: injD\<close>)+

text \<open>
  The order of values is a total order in the sense of \<open>Ord\<close>: reflexive, antisymmetric
  under exchange and transitive; and it agrees with the derived equality on values without
  NaN and negative zero, when different JSON values have different texts.
\<close>

lemma value_cmp_agrees_with_eq:
  "inj js \<Longrightarrow> value_canon v \<Longrightarrow> value_canon w \<Longrightarrow> value_cmp js v w = Equal \<longleftrightarrow> value_eq v w"
  by (simp add: value_cmp_eq_iff value_eq_canon)

lemma value_eq_hash:
  "value_canon v \<Longrightarrow> value_canon w \<Longrightarrow> value_eq v w \<Longrightarrow> value_hash js v = value_hash js w"
  by (simp add: value_eq_canon)

text \<open>
  The two zeros are equal values with different hashes, and a negative number is ordered
  above every positive one: the order of floats is that of their bits.
\<close>

lemma zeros_equal_hash_differently:
  "value_eq (VFloat64 0) (VFloat64 0x8000000000000000) \<and>
   value_hash js (VFloat64 0) \<noteq> value_hash js (VFloat64 0x8000000000000000)"
  by (simp add: f64_eq_def f64_nan_def)

lemma uint_less_63: "bit (a :: f64) 63 \<longleftrightarrow> 2 ^ 63 \<le> uint a"
proof -
  have lt: "uint a < 2 ^ 64" using unsigned_less [of a, where ?'a = int] by simp
  have "uint a div 2 ^ 63 = (if 2 ^ 63 \<le> uint a then 1 else 0)"
  proof (cases "2 ^ 63 \<le> uint a")
    case True
    then have "uint a = (uint a - 2 ^ 63) + 2 ^ 63 * 1" by simp
    then have "uint a div 2 ^ 63 = (uint a - 2 ^ 63) div 2 ^ 63 + 1"
      by (metis div_mult_self2 zero_neq_numeral power_not_zero add.commute)
    then show ?thesis using lt True by (simp add: div_pos_pos_trivial)
  qed (simp add: div_pos_pos_trivial)
  moreover have "bit a 63 \<longleftrightarrow> odd (uint a div 2 ^ 63)"
    by (metis bit_iff_odd bit_uint_iff bit_imp_le_length)
  ultimately show ?thesis by (auto split: if_splits)
qed

lemma f64_neg_above: "\<not> bit a 63 \<Longrightarrow> bit b 63 \<Longrightarrow> a < (b :: f64)"
  by (simp add: uint_less_63 word_less_def)

end
