(* ===== verification/Types_Schema.thy ===== *)
theory Types_Schema
  imports Types_Value
begin

text \<open>
  \<open>blitz-types\<close>: identifiers, rows (\<open>row.rs\<close>), columns (\<open>column.rs\<close>) and table schemas
  (\<open>schema.rs\<close>) with the validation of a row and the construction of a schema from JSON.
  Error messages are kept as structured data: one constructor per message of the source,
  with the values that the message interpolates. A fresh \<open>TableId\<close> is an argument.
\<close>

section \<open>Identifiers\<close>

type_synonym row_id = u64
type_synonym tx_id = u64
type_synonym table_id = "128 word"

text \<open>\<open>RowId::next\<close>; the release build wraps around.\<close>

definition row_id_next :: "row_id \<Rightarrow> row_id" where
  "row_id_next r = r + 1"

section \<open>Columns\<close>

datatype column_type =
    TBoolean
  | TInt8
  | TInt16
  | TInt32
  | TInt64
  | TUInt8
  | TUInt16
  | TUInt32
  | TUInt64
  | TFloat32
  | TFloat64
  | TDecimal
  | TString
  | TBytes
  | TUuid
  | TTimestamp
  | TDate
  | TJson
  | TArray

fun column_type_name :: "column_type \<Rightarrow> string" where
  "column_type_name TBoolean = ''boolean''"
| "column_type_name TInt8 = ''int8''"
| "column_type_name TInt16 = ''int16''"
| "column_type_name TInt32 = ''int32''"
| "column_type_name TInt64 = ''int64''"
| "column_type_name TUInt8 = ''uint8''"
| "column_type_name TUInt16 = ''uint16''"
| "column_type_name TUInt32 = ''uint32''"
| "column_type_name TUInt64 = ''uint64''"
| "column_type_name TFloat32 = ''float32''"
| "column_type_name TFloat64 = ''float64''"
| "column_type_name TDecimal = ''decimal''"
| "column_type_name TString = ''string''"
| "column_type_name TBytes = ''bytes''"
| "column_type_name TUuid = ''uuid''"
| "column_type_name TTimestamp = ''timestamp''"
| "column_type_name TDate = ''date''"
| "column_type_name TJson = ''json''"
| "column_type_name TArray = ''array''"

record column_def =
  col_name :: string
  column_type :: column_type
  nullable :: bool
  primary_key :: bool
  col_unique :: bool
  col_default :: "val option"

definition column_new :: "string \<Rightarrow> column_type \<Rightarrow> column_def" where
  "column_new nm ct =
     \<lparr> col_name = nm, column_type = ct, nullable = False, primary_key = False,
       col_unique = False, col_default = None \<rparr>"

definition column_nullable :: "column_def \<Rightarrow> column_def" where
  "column_nullable c = c \<lparr> nullable := True \<rparr>"

definition column_primary_key :: "column_def \<Rightarrow> column_def" where
  "column_primary_key c = c \<lparr> primary_key := True, nullable := False \<rparr>"

definition column_unique :: "column_def \<Rightarrow> column_def" where
  "column_unique c = c \<lparr> col_unique := True \<rparr>"

definition column_default_value :: "val \<Rightarrow> column_def \<Rightarrow> column_def" where
  "column_default_value v c = c \<lparr> col_default := Some v \<rparr>"

section \<open>Errors\<close>

datatype schema_fault =
    ColumnExpects string string string
  | PrimaryKeyRequired string
  | ColumnRequired string
  | ColumnNotFound string
  | TableExists string
  | TableMissing string

datatype type_error =
    TypeMismatch string string
  | NullValue
  | InvalidValue string
  | InvalidId string
  | SchemaError schema_fault
  | Overflow string
  | OutOfRange string

text \<open>The messages of \<open>TableSchema::from_json\<close>.\<close>

datatype json_fault =
    SchemaNotObject
  | MissingTable
  | TableNameLength
  | MissingColumns
  | ColumnsLength
  | ColumnNotObject nat
  | ColumnMissingName nat
  | ColumnNameLength nat
  | ColumnUnknownType nat string

section \<open>Table schemas\<close>

record table_schema =
  ts_id :: table_id
  ts_name :: string
  ts_columns :: "column_def list"
  ts_column_index :: "(string, nat) hmap"

definition schema_new :: "table_id \<Rightarrow> string \<Rightarrow> table_schema" where
  "schema_new tid nm =
     \<lparr> ts_id = tid, ts_name = nm, ts_columns = [], ts_column_index = [] \<rparr>"

definition with_column :: "table_schema \<Rightarrow> column_def \<Rightarrow> table_schema" where
  "with_column s c =
     s \<lparr> ts_column_index := hm_insert (col_name c) (length (ts_columns s)) (ts_column_index s),
         ts_columns := ts_columns s @ [c] \<rparr>"

text \<open>Accessors of \<open>serde_json\<close> that the constructor uses.\<close>

fun as_object :: "json \<Rightarrow> (string \<times> json) list option" where
  "as_object (JObject kvs) = Some kvs"
| "as_object _ = None"

fun as_array :: "json \<Rightarrow> json list option" where
  "as_array (JArray xs) = Some xs"
| "as_array _ = None"

fun as_json_str :: "json \<Rightarrow> string option" where
  "as_json_str (JString s) = Some s"
| "as_json_str _ = None"

fun as_json_bool :: "json \<Rightarrow> bool option" where
  "as_json_bool (JBool b) = Some b"
| "as_json_bool _ = None"

definition parse_column_type :: "string \<Rightarrow> column_type option" where
  "parse_column_type s =
     (if s = ''bool'' \<or> s = ''boolean'' then Some TBoolean
      else if s = ''int8'' then Some TInt8
      else if s = ''int16'' then Some TInt16
      else if s = ''int32'' then Some TInt32
      else if s = ''int64'' then Some TInt64
      else if s = ''uint8'' then Some TUInt8
      else if s = ''uint16'' then Some TUInt16
      else if s = ''uint32'' then Some TUInt32
      else if s = ''uint64'' then Some TUInt64
      else if s = ''float32'' then Some TFloat32
      else if s = ''float64'' then Some TFloat64
      else if s = ''decimal'' then Some TDecimal
      else if s = ''string'' then Some TString
      else if s = ''bytes'' then Some TBytes
      else if s = ''uuid'' then Some TUuid
      else if s = ''timestamp'' then Some TTimestamp
      else if s = ''date'' then Some TDate
      else if s = ''json'' then Some TJson
      else if s = ''array'' then Some TArray
      else None)"

definition json_flag :: "(string \<times> json) list \<Rightarrow> string \<Rightarrow> bool" where
  "json_flag co key = (case Option.bind (map_of co key) as_json_bool of Some b \<Rightarrow> b | None \<Rightarrow> False)"

text \<open>One turn of the loop over \<open>columns\<close>.\<close>

definition column_of_json :: "nat \<Rightarrow> json \<Rightarrow> json_fault + column_def" where
  "column_of_json i c =
     (case as_object c of None \<Rightarrow> Err (ColumnNotObject i)
      | Some co \<Rightarrow>
     (case Option.bind (map_of co ''name'') as_json_str of None \<Rightarrow> Err (ColumnMissingName i)
      | Some nm \<Rightarrow>
        if nm = [] \<or> 128 < length nm then Err (ColumnNameLength i)
        else
          (let ty = (case Option.bind (map_of co ''type'') as_json_str of Some s \<Rightarrow> s | None \<Rightarrow> [])
           in case parse_column_type ty of None \<Rightarrow> Err (ColumnUnknownType i ty)
              | Some ct \<Rightarrow>
                  let d0 = column_new nm ct;
                      d1 = (if json_flag co ''nullable'' then column_nullable d0 else d0);
                      d2 = (if json_flag co ''pk'' then column_primary_key d1 else d1);
                      d3 = (if json_flag co ''unique'' then column_unique d2 else d2)
                  in Ok d3)))"

fun columns_of_json :: "nat \<Rightarrow> json list \<Rightarrow> table_schema \<Rightarrow> json_fault + table_schema" where
  "columns_of_json i [] s = Ok s"
| "columns_of_json i (c # cs) s =
     (case column_of_json i c of Inl e \<Rightarrow> Err e
      | Inr d \<Rightarrow> columns_of_json (Suc i) cs (with_column s d))"

definition schema_from_json :: "table_id \<Rightarrow> json \<Rightarrow> json_fault + table_schema" where
  "schema_from_json tid v =
     (case as_object v of None \<Rightarrow> Err SchemaNotObject
      | Some obj \<Rightarrow>
     (case Option.bind (map_of obj ''table'') as_json_str of None \<Rightarrow> Err MissingTable
      | Some table \<Rightarrow>
        if table = [] \<or> 128 < length table then Err TableNameLength
        else
     (case Option.bind (map_of obj ''columns'') as_array of None \<Rightarrow> Err MissingColumns
      | Some cols \<Rightarrow>
        if cols = [] \<or> 256 < length cols then Err ColumnsLength
        else columns_of_json 0 cols (schema_new tid table))))"

definition schema_column :: "table_schema \<Rightarrow> string \<Rightarrow> type_error + column_def" where
  "schema_column s nm =
     (case hm_get (ts_column_index s) nm of None \<Rightarrow> Err (SchemaError (ColumnNotFound nm))
      | Some i \<Rightarrow> if i < length (ts_columns s) then Ok (ts_columns s ! i)
                  else Err (SchemaError (ColumnNotFound nm)))"

definition schema_column_index :: "table_schema \<Rightarrow> string \<Rightarrow> type_error + nat" where
  "schema_column_index s nm = ok_or (SchemaError (ColumnNotFound nm)) (hm_get (ts_column_index s) nm)"

definition primary_key_columns :: "table_schema \<Rightarrow> column_def list" where
  "primary_key_columns s = filter primary_key (ts_columns s)"

definition has_primary_key :: "table_schema \<Rightarrow> bool" where
  "has_primary_key s \<longleftrightarrow> list_ex primary_key (ts_columns s)"

definition column_count :: "table_schema \<Rightarrow> nat" where
  "column_count s = length (ts_columns s)"

fun value_matches_type :: "val \<Rightarrow> column_type \<Rightarrow> bool" where
  "value_matches_type (VBoolean _) ct = (ct = TBoolean)"
| "value_matches_type (VInt8 _) ct = (ct = TInt8)"
| "value_matches_type (VInt16 _) ct = (ct = TInt16)"
| "value_matches_type (VInt32 _) ct = (ct = TInt32)"
| "value_matches_type (VInt64 _) ct = (ct = TInt64)"
| "value_matches_type (VUInt8 _) ct = (ct = TUInt8)"
| "value_matches_type (VUInt16 _) ct = (ct = TUInt16)"
| "value_matches_type (VUInt32 _) ct = (ct = TUInt32)"
| "value_matches_type (VUInt64 _) ct = (ct = TUInt64)"
| "value_matches_type (VFloat32 _) ct = (ct = TFloat32)"
| "value_matches_type (VFloat64 _) ct = (ct = TFloat64)"
| "value_matches_type (VDecimal _) ct = (ct = TDecimal)"
| "value_matches_type (VString _) ct = (ct = TString)"
| "value_matches_type (VBytes _) ct = (ct = TBytes)"
| "value_matches_type (VUuid _) ct = (ct = TUuid)"
| "value_matches_type (VTimestamp _) ct = (ct = TTimestamp)"
| "value_matches_type (VDate _) ct = (ct = TDate)"
| "value_matches_type (VJson _) ct = (ct = TJson)"
| "value_matches_type (VArray _) ct = (ct = TArray)"
| "value_matches_type VNull ct = False"

type_synonym row_values = "(string, val) hmap"

fun validate_columns :: "column_def list \<Rightarrow> row_values \<Rightarrow> type_error + unit" where
  "validate_columns [] vals = Ok ()"
| "validate_columns (col # cols) vals =
     (case hm_get vals (col_name col) of
        Some v \<Rightarrow>
          if is_null v \<and> \<not> nullable col then Err NullValue
          else if \<not> is_null v \<and> \<not> value_matches_type v (column_type col) then
            Err (SchemaError (ColumnExpects (col_name col)
                   (column_type_name (column_type col)) (type_name v)))
          else validate_columns cols vals
      | None \<Rightarrow>
          if col_default col \<noteq> None then validate_columns cols vals
          else if primary_key col then Err (SchemaError (PrimaryKeyRequired (col_name col)))
          else if \<not> nullable col then Err (SchemaError (ColumnRequired (col_name col)))
          else validate_columns cols vals)"

definition validate_row_values :: "table_schema \<Rightarrow> row_values \<Rightarrow> type_error + unit" where
  "validate_row_values s vals = validate_columns (ts_columns s) vals"

section \<open>Rows\<close>

record row =
  row_id :: row_id
  row_values :: row_values

definition row_new :: "row_id \<Rightarrow> row" where
  "row_new i = \<lparr> row_id = i, row_values = [] \<rparr>"

definition row_auto_id :: row where
  "row_auto_id = row_new 0"

definition row_set :: "string \<Rightarrow> val \<Rightarrow> row \<Rightarrow> row" where
  "row_set nm v r = r \<lparr> row_values := hm_insert nm v (row_values r) \<rparr>"

definition row_get :: "row \<Rightarrow> string \<Rightarrow> val option" where
  "row_get r nm = hm_get (row_values r) nm"

definition row_has_column :: "row \<Rightarrow> string \<Rightarrow> bool" where
  "row_has_column r nm \<longleftrightarrow> hm_contains (row_values r) nm"

definition row_remove :: "string \<Rightarrow> row \<Rightarrow> val option \<times> row" where
  "row_remove nm r =
     (hm_get (row_values r) nm, r \<lparr> row_values := hm_remove nm (row_values r) \<rparr>)"

definition row_len :: "row \<Rightarrow> nat" where
  "row_len r = length (row_values r)"

definition row_from_values :: "row_id \<Rightarrow> row_values \<Rightarrow> table_schema \<Rightarrow> type_error + row" where
  "row_from_values i vals s =
     (case validate_row_values s vals of Inl e \<Rightarrow> Err e
      | Inr _ \<Rightarrow> Ok \<lparr> row_id = i, row_values = vals \<rparr>)"

definition primary_key_values :: "row \<Rightarrow> table_schema \<Rightarrow> type_error + val list" where
  "primary_key_values r s =
     Ok (map (\<lambda>col. case hm_get (row_values r) (col_name col) of Some v \<Rightarrow> v | None \<Rightarrow> VNull)
           (primary_key_columns s))"

fun project_columns :: "row_values \<Rightarrow> string list \<Rightarrow> row_values \<Rightarrow> row_values" where
  "project_columns vals [] acc = acc"
| "project_columns vals (c # cs) acc =
     project_columns vals cs
       (case hm_get vals c of Some v \<Rightarrow> hm_insert c v acc | None \<Rightarrow> acc)"

definition row_project :: "row \<Rightarrow> string list \<Rightarrow> row" where
  "row_project r columns = \<lparr> row_id = row_id r, row_values = project_columns (row_values r) columns [] \<rparr>"

section \<open>The schema of a database\<close>

record db_schema =
  tables :: "table_schema list"

definition add_table :: "table_schema \<Rightarrow> db_schema \<Rightarrow> (type_error + unit) \<times> db_schema" where
  "add_table t s =
     (if list_ex (\<lambda>u. ts_name u = ts_name t) (tables s)
      then (Err (SchemaError (TableExists (ts_name t))), s)
      else (Ok (), s \<lparr> tables := tables s @ [t] \<rparr>))"

definition get_table :: "db_schema \<Rightarrow> string \<Rightarrow> type_error + table_schema" where
  "get_table s nm =
     ok_or (SchemaError (TableMissing nm)) (find (\<lambda>t. ts_name t = nm) (tables s))"

section \<open>Validation\<close>

text \<open>What a column asks of the values of a row.\<close>

definition column_accepts :: "row_values \<Rightarrow> column_def \<Rightarrow> bool" where
  "column_accepts vals col =
     (case hm_get vals (col_name col) of
        Some v \<Rightarrow> if v = VNull then nullable col else value_matches_type v (column_type col)
      | None \<Rightarrow> col_default col \<noteq> None \<or> \<not> primary_key col \<and> nullable col)"

definition column_fault :: "row_values \<Rightarrow> column_def \<Rightarrow> type_error" where
  "column_fault vals col =
     (case hm_get vals (col_name col) of
        Some v \<Rightarrow>
          if v = VNull then NullValue
          else SchemaError (ColumnExpects (col_name col)
                 (column_type_name (column_type col)) (type_name v))
      | None \<Rightarrow>
          SchemaError (if primary_key col then PrimaryKeyRequired (col_name col)
                       else ColumnRequired (col_name col)))"

lemma validate_columns_find:
  "validate_columns cols vals =
     (case find (\<lambda>col. \<not> column_accepts vals col) cols of
        None \<Rightarrow> Ok () | Some col \<Rightarrow> Err (column_fault vals col))"
  by (induction cols)
    (auto simp: column_accepts_def column_fault_def is_null_def split: option.split)

text \<open>
  a row passes validation exactly when every column of the schema accepts it; otherwise
  the error is the one of the first column, in schema order, that does not.
\<close>

theorem validate_row_values_correct:
  "validate_row_values s vals =
     (case find (\<lambda>col. \<not> column_accepts vals col) (ts_columns s) of
        None \<Rightarrow> Ok () | Some col \<Rightarrow> Err (column_fault vals col))"
  unfolding validate_row_values_def by (rule validate_columns_find)

lemma validate_row_values_Ok:
  "validate_row_values s vals = Ok u \<longleftrightarrow> (\<forall>col \<in> set (ts_columns s). column_accepts vals col)"
proof (cases "find (\<lambda>col. \<not> column_accepts vals col) (ts_columns s)")
  case None
  moreover from None have "\<forall>col \<in> set (ts_columns s). column_accepts vals col"
    by (auto simp: find_None_iff)
  ultimately show ?thesis by (simp add: validate_row_values_def validate_columns_find)
next
  case (Some col)
  then have "col \<in> set (ts_columns s)" "\<not> column_accepts vals col"
    by (auto simp: find_Some_iff)
  with Some show ?thesis by (auto simp: validate_row_values_def validate_columns_find)
qed

lemma row_from_values_Ok:
  "row_from_values i vals s = Ok r \<longleftrightarrow>
     r = \<lparr> row_id = i, row_values = vals \<rparr> \<and> (\<forall>col \<in> set (ts_columns s). column_accepts vals col)"
  using validate_row_values_Ok [of s vals]
  by (auto simp: row_from_values_def split: sum.split)

section \<open>Projection\<close>

lemma hm_get_project_columns:
  "hm_get (project_columns vals cs acc) k =
     (if k \<in> set cs \<and> hm_contains vals k then hm_get vals k else hm_get acc k)"
  by (induction cs arbitrary: acc)
    (auto simp: hm_simps split: option.split)

lemma row_get_project:
  "row_get (row_project r cs) k = (if k \<in> set cs then row_get r k else None)"
  by (auto simp: row_get_def row_project_def hm_get_project_columns)

lemma hm_wf_project_columns: "hm_wf acc \<Longrightarrow> hm_wf (project_columns vals cs acc)"
  by (induction cs arbitrary: acc) (auto split: option.split)

section \<open>Schemas built from columns\<close>

text \<open>The column index sends a name to the last column that bears it.\<close>

definition schema_wf :: "table_schema \<Rightarrow> bool" where
  "schema_wf s \<longleftrightarrow>
     hm_wf (ts_column_index s) \<and>
     (\<forall>nm i. hm_get (ts_column_index s) nm = Some i \<longleftrightarrow>
        i < length (ts_columns s) \<and> col_name (ts_columns s ! i) = nm \<and>
        (\<forall>j < length (ts_columns s). i < j \<longrightarrow> col_name (ts_columns s ! j) \<noteq> nm))"

lemma schema_wf_new: "schema_wf (schema_new tid nm)"
  by (simp add: schema_wf_def schema_new_def)

lemma schema_wf_with_column:
  assumes "schema_wf s"
  shows "schema_wf (with_column s c)"
  using assms
  by (auto simp: schema_wf_def with_column_def hm_simps nth_append less_Suc_eq)

lemma schema_column_Ok:
  assumes "schema_wf s"
  shows "schema_column s nm = Ok c \<longleftrightarrow>
    (\<exists>pre post. ts_columns s = pre @ c # post \<and> col_name c = nm \<and>
       (\<forall>d \<in> set post. col_name d \<noteq> nm))"
proof
  assume "schema_column s nm = Ok c"
  then obtain i where i: "hm_get (ts_column_index s) nm = Some i" "c = ts_columns s ! i"
    by (auto simp: schema_column_def split: option.splits if_splits)
  with assms have lt: "i < length (ts_columns s)" and nm: "col_name c = nm"
    and last: "\<And>j. j < length (ts_columns s) \<Longrightarrow> i < j \<Longrightarrow> col_name (ts_columns s ! j) \<noteq> nm"
    by (auto simp: schema_wf_def)
  have "col_name d \<noteq> nm" if "d \<in> set (drop (Suc i) (ts_columns s))" for d
  proof -
    from that obtain k where "Suc (i + k) < length (ts_columns s)" "d = ts_columns s ! Suc (i + k)"
      by (metis (no_types, lifting) add_Suc in_set_conv_nth length_drop less_diff_conv nth_drop
          add.commute less_imp_le_nat lt Suc_leI)
    then show ?thesis using last [of "Suc (i + k)"] by simp
  qed
  moreover have "ts_columns s = take i (ts_columns s) @ c # drop (Suc i) (ts_columns s)"
    using lt i by (simp add: id_take_nth_drop)
  ultimately show "\<exists>pre post. ts_columns s = pre @ c # post \<and> col_name c = nm \<and>
      (\<forall>d \<in> set post. col_name d \<noteq> nm)"
    using nm by blast
next
  assume "\<exists>pre post. ts_columns s = pre @ c # post \<and> col_name c = nm \<and>
      (\<forall>d \<in> set post. col_name d \<noteq> nm)"
  then obtain pre post where s: "ts_columns s = pre @ c # post" "col_name c = nm"
    "\<forall>d \<in> set post. col_name d \<noteq> nm"
    by blast
  then have "hm_get (ts_column_index s) nm = Some (length pre)"
    using assms by (auto simp: schema_wf_def nth_append nth_Cons')
  with s show "schema_column s nm = Ok c" by (simp add: schema_column_def)
qed

abbreviation build_schema :: "table_id \<Rightarrow> string \<Rightarrow> column_def list \<Rightarrow> table_schema" where
  "build_schema tid nm cols \<equiv> foldl with_column (schema_new tid nm) cols"

lemma foldl_with_column:
  "ts_id (foldl with_column s cols) = ts_id s"
  "ts_name (foldl with_column s cols) = ts_name s"
  "ts_columns (foldl with_column s cols) = ts_columns s @ cols"
  by (induction cols arbitrary: s) (auto simp: with_column_def)

lemma schema_wf_foldl: "schema_wf s \<Longrightarrow> schema_wf (foldl with_column s cols)"
  by (induction cols arbitrary: s) (auto simp: schema_wf_with_column)

section \<open>Schemas from JSON\<close>

text \<open>A column definition that the JSON form can express, within the size limits.\<close>

definition column_json_ok :: "column_def \<Rightarrow> bool" where
  "column_json_ok c \<longleftrightarrow>
     1 \<le> length (col_name c) \<and> length (col_name c) \<le> 128 \<and>
     (primary_key c \<longrightarrow> \<not> nullable c) \<and> col_default c = None"

lemma column_of_json_Ok: "column_of_json i j = Ok c \<Longrightarrow> column_json_ok c"
  by (auto simp: column_of_json_def column_json_ok_def column_new_def column_nullable_def
      column_primary_key_def column_unique_def Let_def Suc_le_eq
      split: option.splits if_splits)

lemma columns_of_json_Ok:
  "columns_of_json i js s = Ok s' \<Longrightarrow>
   \<exists>cols. s' = foldl with_column s cols \<and> length cols = length js \<and>
     (\<forall>k < length js. column_of_json (i + k) (js ! k) = Ok (cols ! k))"
proof (induction js arbitrary: i s)
  case Nil
  then show ?case by simp
next
  case (Cons j js)
  then obtain d where d: "column_of_json i j = Ok d"
    and rest: "columns_of_json (Suc i) js (with_column s d) = Ok s'"
    by (auto split: sum.splits)
  from Cons.IH [OF rest] obtain cols where
    cols: "s' = foldl with_column (with_column s d) cols" "length cols = length js"
      "\<forall>k < length js. column_of_json (Suc i + k) (js ! k) = Ok (cols ! k)"
    by blast
  have "column_of_json (i + k) ((j # js) ! k) = Ok ((d # cols) ! k)" if "k < length (j # js)" for k
    using that cols(2,3) d by (cases k) auto
  then show ?case using cols(1,2) by (intro exI [of _ "d # cols"]) auto
qed

text \<open>The documented JSON shape of a schema, as a client writes it.\<close>

definition column_to_json :: "column_def \<Rightarrow> json" where
  "column_to_json c =
     JObject [(''name'', JString (col_name c)), (''nullable'', JBool (nullable c)),
       (''pk'', JBool (primary_key c)), (''type'', JString (column_type_name (column_type c))),
       (''unique'', JBool (col_unique c))]"

definition schema_to_json :: "string \<Rightarrow> column_def list \<Rightarrow> json" where
  "schema_to_json nm cols =
     JObject [(''columns'', JArray (map column_to_json cols)), (''table'', JString nm)]"

lemma parse_column_type_name: "parse_column_type (column_type_name ct) = Some ct"
  by (cases ct) (simp_all add: parse_column_type_def)

lemma column_of_json_to_json: "column_json_ok c \<Longrightarrow> column_of_json i (column_to_json c) = Ok c"
  by (cases c)
    (auto simp: column_of_json_def column_to_json_def column_json_ok_def parse_column_type_name
      json_flag_def column_new_def column_nullable_def column_primary_key_def column_unique_def
      Let_def)

lemma columns_of_json_to_json:
  "\<forall>c \<in> set cols. column_json_ok c \<Longrightarrow>
   columns_of_json i (map column_to_json cols) s = Ok (foldl with_column s cols)"
  by (induction cols arbitrary: i s) (auto simp: column_of_json_to_json)

lemma schema_from_json_Ok:
  assumes "schema_from_json tid v = Ok s"
  shows "\<exists>nm cols. s = build_schema tid nm cols \<and> 1 \<le> length nm \<and> length nm \<le> 128 \<and>
    1 \<le> length cols \<and> length cols \<le> 256 \<and> (\<forall>c \<in> set cols. column_json_ok c)"
proof -
  from assms obtain nm jcols where
    nm: "1 \<le> length nm" "length nm \<le> 128" and jc: "1 \<le> length jcols" "length jcols \<le> 256"
    and cols: "columns_of_json 0 jcols (schema_new tid nm) = Ok s"
    by (auto simp: schema_from_json_def Suc_le_eq split: option.splits if_splits)
  from columns_of_json_Ok [OF cols] obtain cols where
    s: "s = build_schema tid nm cols" "length cols = length jcols"
      "\<forall>k < length jcols. column_of_json k (jcols ! k) = Ok (cols ! k)"
    by auto
  then have "\<forall>c \<in> set cols. column_json_ok c"
    by (metis column_of_json_Ok in_set_conv_nth)
  then show ?thesis
    using s(1,2) nm jc by (intro exI [of _ nm] exI [of _ cols]) simp
qed

text \<open>
  a schema that \<open>from_json\<close> accepts has a table name of 1 to 128 bytes and 1 to 256
  columns, each with a name of 1 to 128 bytes, no default, and not both primary key and
  nullable; its column index is consistent with its columns.
\<close>

theorem schema_from_json_valid:
  assumes "schema_from_json tid v = Ok s"
  shows "schema_wf s \<and> ts_id s = tid \<and> 1 \<le> length (ts_name s) \<and> length (ts_name s) \<le> 128 \<and>
    1 \<le> column_count s \<and> column_count s \<le> 256 \<and> (\<forall>c \<in> set (ts_columns s). column_json_ok c)"
proof -
  have "ts_id (build_schema tid nm cols) = tid" "ts_name (build_schema tid nm cols) = nm"
    "ts_columns (build_schema tid nm cols) = cols" for nm cols
    by (auto simp: foldl_with_column schema_new_def)
  then show ?thesis
    using schema_from_json_Ok [OF assms]
    by (auto simp: schema_wf_foldl schema_wf_new column_count_def)
qed

text \<open>
  every schema within those limits is read back from its JSON form, with the same
  columns in the same order.
\<close>

theorem schema_from_json_to_json:
  assumes "1 \<le> length nm" and "length nm \<le> 128" and "1 \<le> length cols" and "length cols \<le> 256"
    and "\<forall>c \<in> set cols. column_json_ok c"
  shows "schema_from_json tid (schema_to_json nm cols) = Ok (build_schema tid nm cols)"
  using assms
  by (auto simp: schema_from_json_def schema_to_json_def columns_of_json_to_json)

theorem schema_from_json_to_json_witness:
  "schema_from_json 7 (schema_to_json ''users'' [column_primary_key (column_new ''id'' TInt64)]) =
     Ok (build_schema 7 ''users'' [column_primary_key (column_new ''id'' TInt64)])"
  by (rule schema_from_json_to_json)
    (simp_all add: column_json_ok_def column_primary_key_def column_new_def)

theorem schema_from_json_valid_witness:
  "schema_wf (build_schema 7 ''users'' [column_primary_key (column_new ''id'' TInt64)])"
  using schema_from_json_valid [of 7
      "JObject [(''columns'', JArray [JObject [(''name'', JString ''id''), (''pk'', JBool True),
         (''type'', JString ''int64'')]]), (''table'', JString ''users'')]"
      "build_schema 7 ''users'' [column_primary_key (column_new ''id'' TInt64)]"]
  by (simp add: schema_from_json_def column_of_json_def parse_column_type_def json_flag_def)

end
