(* ===== verification/Core_Pool.thy ===== *)
theory Core_Pool
  imports Types_Schema
begin

text \<open>
  The object pools of \<open>blitz-core/src/pool.rs\<close>. The free list is a queue used at its back; a
  factory closure is the object it builds. Pools of rows and of identifier lists clear what
  they hand out.
\<close>

record 'a object_pool =
  op_free :: "'a list"
  op_factory :: 'a
  op_max_size :: nat
  op_total_created :: nat

definition pool_new :: "'a \<Rightarrow> nat \<Rightarrow> nat \<Rightarrow> 'a object_pool" where
  "pool_new factory initial_cap max_size =
     \<lparr> op_free = replicate initial_cap factory, op_factory = factory, op_max_size = max_size,
       op_total_created = initial_cap \<rparr>"

definition pool_checkout :: "'a object_pool \<Rightarrow> 'a \<times> 'a object_pool" where
  "pool_checkout p =
     (case rev (op_free p) of
        x # rest \<Rightarrow> (x, p \<lparr> op_free := rev rest \<rparr>)
      | [] \<Rightarrow> (op_factory p,
          if op_max_size p = 0 \<or> op_total_created p < op_max_size p
          then p \<lparr> op_total_created := op_total_created p + 1 \<rparr> else p))"

definition pool_checkin :: "'a \<Rightarrow> 'a object_pool \<Rightarrow> 'a object_pool" where
  "pool_checkin x p =
     (if op_max_size p = 0 \<or> length (op_free p) < op_max_size p
      then p \<lparr> op_free := op_free p @ [x] \<rparr> else p)"

definition pool_len :: "'a object_pool \<Rightarrow> nat" where
  "pool_len p = length (op_free p)"

text \<open>Rows: 16 pre-allocated, up to 64 retained, cleared on the way in and out.\<close>

type_synonym row_pool = "row object_pool"

definition row_pool_new :: row_pool where
  "row_pool_new = pool_new (row_new 0) 16 64"

definition row_pool_checkout :: "row_pool \<Rightarrow> row \<times> row_pool" where
  "row_pool_checkout p =
     (let (r, p') = pool_checkout p in (r \<lparr> row_id := 0, row_values := [] \<rparr>, p'))"

definition row_pool_checkin :: "row \<Rightarrow> row_pool \<Rightarrow> row_pool" where
  "row_pool_checkin r p = pool_checkin (r \<lparr> row_values := [] \<rparr>) p"

type_synonym id_vec_pool = "row_id list object_pool"

definition id_pool_new :: id_vec_pool where
  "id_pool_new = pool_new [] 16 64"

definition id_pool_checkout :: "id_vec_pool \<Rightarrow> row_id list \<times> id_vec_pool" where
  "id_pool_checkout p = (let (v, p') = pool_checkout p in ([], p'))"

definition id_pool_checkin :: "row_id list \<Rightarrow> id_vec_pool \<Rightarrow> id_vec_pool" where
  "id_pool_checkin v p = pool_checkin [] p"

section \<open>Bounds\<close>

text \<open>At most \<open>max_size\<close> objects are retained, when there is a bound.\<close>

definition pool_inv :: "'a object_pool \<Rightarrow> bool" where
  "pool_inv p \<longleftrightarrow> op_max_size p \<noteq> 0 \<longrightarrow> length (op_free p) \<le> op_max_size p"

lemma pool_checkout_len: "length (op_free (snd (pool_checkout p))) = length (op_free p) - 1"
  by (cases "op_free p" rule: rev_cases) (auto simp: pool_checkout_def)

lemma pool_max_simps [simp]:
  "op_max_size (snd (pool_checkout p)) = op_max_size p"
  "op_max_size (pool_checkin x p) = op_max_size p"
  by (auto simp: pool_checkout_def pool_checkin_def split: list.split)

lemma pool_inv_checkout: "pool_inv p \<Longrightarrow> pool_inv (snd (pool_checkout p))"
  by (auto simp: pool_inv_def pool_checkout_len)

lemma pool_inv_checkin: "pool_inv p \<Longrightarrow> pool_inv (pool_checkin x p)"
  by (auto simp: pool_inv_def pool_checkin_def)

lemma pool_checkout_checkin:
  "op_max_size p = 0 \<or> length (op_free p) < op_max_size p \<Longrightarrow>
   fst (pool_checkout (pool_checkin x p)) = x \<and> op_free (snd (pool_checkout (pool_checkin x p))) = op_free p"
  by (auto simp: pool_checkout_def pool_checkin_def)

datatype pool_use = UseCheckout | UseCheckin row

fun row_pool_step :: "pool_use \<Rightarrow> row_pool \<Rightarrow> row_pool" where
  "row_pool_step UseCheckout p = snd (row_pool_checkout p)"
| "row_pool_step (UseCheckin r) p = row_pool_checkin r p"

lemma row_pool_inv_step:
  "pool_inv p \<and> op_max_size p = 64 \<Longrightarrow> pool_inv (row_pool_step u p) \<and> op_max_size (row_pool_step u p) = 64"
proof (cases u)
  case UseCheckout
  have "row_pool_step u p = snd (pool_checkout p)"
    using UseCheckout by (simp add: row_pool_checkout_def split_def Let_def)
  then show "pool_inv p \<and> op_max_size p = 64 \<Longrightarrow> ?thesis" by (simp add: pool_inv_checkout)
qed (simp add: row_pool_checkin_def pool_inv_checkin)

lemma row_pool_inv_run:
  "pool_inv p \<and> op_max_size p = 64 \<Longrightarrow>
   pool_inv (fold row_pool_step us p) \<and> op_max_size (fold row_pool_step us p) = 64"
  using row_pool_inv_step by (induction us arbitrary: p) auto

text \<open>
  whatever rows were checked in before, a checked-out row is empty with identifier 0, and
  the pool never retains more than 64 rows.
\<close>

theorem row_pool_clean_and_bounded:
  "fst (row_pool_checkout (fold row_pool_step us row_pool_new)) = row_new 0 \<and>
   pool_len (fold row_pool_step us row_pool_new) \<le> 64"
proof -
  have "fst (row_pool_checkout p) = row_new 0" for p
    by (cases "pool_checkout p") (simp add: row_pool_checkout_def row_new_def)
  moreover have "pool_inv row_pool_new \<and> op_max_size row_pool_new = 64"
    by (simp add: row_pool_new_def pool_new_def pool_inv_def)
  ultimately show ?thesis
    using row_pool_inv_run [of row_pool_new us] by (auto simp: pool_inv_def pool_len_def)
qed

end
