(* ===== verification/Indexes.thy ===== *)
theory Indexes
  imports Types_Schema
begin

text \<open>
  Hash maps keyed by values, and the secondary indexes: \<open>HashIndex\<close> of \<open>blitz-core\<close>,
  \<open>HashIndex\<close> and \<open>BTreeIndex\<close> of \<open>blitz-index\<close>. The non-unique ones share the interface
  \<open>row_index\<close>: the identifiers found under a value are those inserted and not removed since,
  in insertion order.
\<close>

section \<open>Hash maps keyed by values\<close>

text \<open>
  A \<open>HashMap<Value, _>\<close> compares keys by hash and then by \<open>==\<close>. A value that is not equal to
  itself (a NaN inside) is never found again, and each insertion of one adds an entry. The
  two zeros of a float type are equal but hash differently, so they are different keys.
\<close>

definition key_reflexive :: "val \<Rightarrow> bool" where
  "key_reflexive v \<longleftrightarrow> value_eq v v"

definition vm_get :: "(val, 'a) hmap \<Rightarrow> val \<Rightarrow> 'a option" where
  "vm_get m v = (if key_reflexive v then map_of m v else None)"

definition vm_insert :: "val \<Rightarrow> 'a \<Rightarrow> (val, 'a) hmap \<Rightarrow> (val, 'a) hmap" where
  "vm_insert v x m = (if key_reflexive v then AList.update v x m else m @ [(v, x)])"

definition vm_remove :: "val \<Rightarrow> (val, 'a) hmap \<Rightarrow> (val, 'a) hmap" where
  "vm_remove v m = (if key_reflexive v then AList.delete v m else m)"

lemma vm_get_Nil [simp]: "vm_get [] v = None"
  by (simp add: vm_get_def)

lemma vm_get_insert [hm_simps]:
  "vm_get (vm_insert v x m) w = (if w = v \<and> key_reflexive v then Some x else vm_get m w)"
  by (auto simp: vm_get_def vm_insert_def hm_simps map_add_def split: option.split)

lemma vm_get_remove [hm_simps]:
  "vm_get (vm_remove v m) w = (if w = v then None else vm_get m w)"
  by (auto simp: vm_get_def vm_remove_def hm_simps)

lemma key_reflexive_canon [simp]: "value_canon v \<Longrightarrow> key_reflexive v"
  by (simp add: key_reflexive_def value_eq_refl_canon)

lemma vm_get_reflexive: "vm_get m v = Some x \<Longrightarrow> key_reflexive v"
  by (simp add: vm_get_def split: if_splits)

text \<open>\<open>entries.entry(value).or_default().push(row_id)\<close>.\<close>

definition vm_push :: "val \<Rightarrow> row_id \<Rightarrow> (val, row_id list) hmap \<Rightarrow> (val, row_id list) hmap" where
  "vm_push v r m = vm_insert v ((case vm_get m v of Some ids \<Rightarrow> ids | None \<Rightarrow> []) @ [r]) m"

text \<open>Drop an identifier from the list under a value, and the entry when the list is empty.\<close>

definition vm_retain :: "val \<Rightarrow> row_id \<Rightarrow> (val, row_id list) hmap \<Rightarrow> (val, row_id list) hmap" where
  "vm_retain v r m =
     (case vm_get m v of
        Some ids \<Rightarrow>
          (let ids' = filter (\<lambda>i. i \<noteq> r) ids in
           if ids' = [] then vm_remove v m else vm_insert v ids' m)
      | None \<Rightarrow> m)"

definition vm_ids :: "(val, row_id list) hmap \<Rightarrow> val \<Rightarrow> row_id list" where
  "vm_ids m v = (case vm_get m v of Some ids \<Rightarrow> ids | None \<Rightarrow> [])"

lemma vm_ids_push:
  "vm_ids (vm_push v r m) w = (if w = v \<and> key_reflexive v then vm_ids m w @ [r] else vm_ids m w)"
  by (auto simp: vm_ids_def vm_push_def hm_simps split: option.split)

lemma vm_ids_retain:
  "vm_ids (vm_retain v r m) w = (if w = v then filter (\<lambda>i. i \<noteq> r) (vm_ids m w) else vm_ids m w)"
  by (auto simp: vm_ids_def vm_retain_def hm_simps Let_def dest: vm_get_reflexive
      split: option.split)

section \<open>The interface of an index\<close>

datatype index_op = IndexInsert val row_id | IndexRemove val row_id

text \<open>What one operation does to the identifiers listed under a value.\<close>

fun history_step :: "(val \<Rightarrow> val \<Rightarrow> bool) \<Rightarrow> val \<Rightarrow> index_op \<Rightarrow> row_id list \<Rightarrow> row_id list" where
  "history_step same w (IndexInsert v r) ids = (if same w v then ids @ [r] else ids)"
| "history_step same w (IndexRemove v r) ids =
     (if same w v then filter (\<lambda>i. i \<noteq> r) ids else ids)"

definition history_ids :: "(val \<Rightarrow> val \<Rightarrow> bool) \<Rightarrow> index_op list \<Rightarrow> val \<Rightarrow> row_id list" where
  "history_ids same ops w = fold (history_step same w) ops []"

locale row_index =
  fixes same :: "val \<Rightarrow> val \<Rightarrow> bool"
    and inv :: "'s \<Rightarrow> bool"
    and empty :: 's
    and ins :: "val \<Rightarrow> row_id \<Rightarrow> 's \<Rightarrow> 's"
    and rem :: "val \<Rightarrow> row_id \<Rightarrow> 's \<Rightarrow> 's"
    and lookup :: "'s \<Rightarrow> val \<Rightarrow> row_id list"
  assumes inv_empty: "inv empty"
    and inv_ins: "inv s \<Longrightarrow> inv (ins v r s)"
    and inv_rem: "inv s \<Longrightarrow> inv (rem v r s)"
    and lookup_empty: "lookup empty w = []"
    and lookup_ins: "inv s \<Longrightarrow> lookup (ins v r s) w = (if same w v then lookup s w @ [r] else lookup s w)"
    and lookup_rem: "inv s \<Longrightarrow>
      lookup (rem v r s) w = (if same w v then filter (\<lambda>i. i \<noteq> r) (lookup s w) else lookup s w)"
begin

fun step :: "index_op \<Rightarrow> 's \<Rightarrow> 's" where
  "step (IndexInsert v r) s = ins v r s"
| "step (IndexRemove v r) s = rem v r s"

lemma inv_step: "inv s \<Longrightarrow> inv (step op s)"
  by (cases op) (auto simp: inv_ins inv_rem)

lemma lookup_step: "inv s \<Longrightarrow> lookup (step op s) w = history_step same w op (lookup s w)"
  by (cases op) (auto simp: lookup_ins lookup_rem)

lemma inv_run: "inv s \<Longrightarrow> inv (fold step ops s)"
  by (induction ops arbitrary: s) (auto simp: inv_step)

lemma lookup_run: "inv s \<Longrightarrow> lookup (fold step ops s) w = fold (history_step same w) ops (lookup s w)"
  by (induction ops arbitrary: s) (auto simp: inv_step lookup_step)

lemma lookup_history: "lookup (fold step ops empty) w = history_ids same ops w"
  using lookup_run [OF inv_empty] by (simp add: lookup_empty history_ids_def)

lemma removed_absent:
  "inv s \<Longrightarrow> same v v \<Longrightarrow> r \<notin> set (lookup (rem v r s) v)"
  by (simp add: lookup_rem)

lemma other_untouched:
  "inv s \<Longrightarrow> \<not> same w v \<Longrightarrow> lookup (ins v r s) w = lookup s w \<and> lookup (rem v r s) w = lookup s w"
  by (simp add: lookup_ins lookup_rem)

lemma inserted_found:
  "inv s \<Longrightarrow> same v v \<Longrightarrow> r \<in> set (lookup (ins v r s) v)"
  by (simp add: lookup_ins)

end

definition same_key :: "val \<Rightarrow> val \<Rightarrow> bool" where
  "same_key w v \<longleftrightarrow> w = v \<and> key_reflexive v"

lemma vm_ids_no_key: "\<not> key_reflexive v \<Longrightarrow> vm_ids m v = []"
  by (simp add: vm_ids_def vm_get_def)

section \<open>The hash index of the core engine\<close>

datatype index_error = DuplicateKeyOn val string | DuplicateKeyValue val

record core_hash_index =
  ci_column :: string
  ci_unique :: bool
  ci_entries :: "(val, row_id list) hmap"
  ci_unique_entries :: "(val, row_id) hmap"

definition ci_new :: "string \<Rightarrow> bool \<Rightarrow> core_hash_index" where
  "ci_new c u = \<lparr> ci_column = c, ci_unique = u, ci_entries = [], ci_unique_entries = [] \<rparr>"

definition ci_insert ::
  "val \<Rightarrow> row_id \<Rightarrow> core_hash_index \<Rightarrow> (index_error + unit) \<times> core_hash_index" where
  "ci_insert v r s =
     (if ci_unique s then
        if vm_get (ci_unique_entries s) v \<noteq> None then (Err (DuplicateKeyOn v (ci_column s)), s)
        else (Ok (), s \<lparr> ci_unique_entries := vm_insert v r (ci_unique_entries s) \<rparr>)
      else (Ok (), s \<lparr> ci_entries := vm_push v r (ci_entries s) \<rparr>))"

definition ci_remove :: "val \<Rightarrow> row_id \<Rightarrow> core_hash_index \<Rightarrow> core_hash_index" where
  "ci_remove v r s =
     (if ci_unique s then s \<lparr> ci_unique_entries := vm_remove v (ci_unique_entries s) \<rparr>
      else s \<lparr> ci_entries := vm_retain v r (ci_entries s) \<rparr>)"

definition ci_lookup :: "core_hash_index \<Rightarrow> val \<Rightarrow> row_id list" where
  "ci_lookup s v =
     (if ci_unique s then (case vm_get (ci_unique_entries s) v of Some i \<Rightarrow> [i] | None \<Rightarrow> [])
      else (case vm_get (ci_entries s) v of Some ids \<Rightarrow> ids | None \<Rightarrow> []))"

definition ci_contains :: "core_hash_index \<Rightarrow> val \<Rightarrow> bool" where
  "ci_contains s v \<longleftrightarrow>
     (if ci_unique s then vm_get (ci_unique_entries s) v \<noteq> None
      else vm_get (ci_entries s) v \<noteq> None)"

definition ci_len :: "core_hash_index \<Rightarrow> nat" where
  "ci_len s = (if ci_unique s then length (ci_unique_entries s) else length (ci_entries s))"

definition ci_is_empty :: "core_hash_index \<Rightarrow> bool" where
  "ci_is_empty s \<longleftrightarrow> ci_len s = 0"

interpretation core_ix: row_index same_key "\<lambda>s. \<not> ci_unique s" "ci_new c False"
  "\<lambda>v r s. snd (ci_insert v r s)" ci_remove ci_lookup for c
  by unfold_locales
    (auto simp: ci_new_def ci_insert_def ci_remove_def ci_lookup_def same_key_def
      vm_ids_def [symmetric] vm_ids_push vm_ids_retain vm_ids_no_key)

lemma ci_insert_unique:
  assumes "ci_unique s"
  shows "fst (ci_insert v r s) = Ok () \<longleftrightarrow> \<not> ci_contains s v"
    and "\<not> ci_contains s v \<Longrightarrow> key_reflexive v \<Longrightarrow> ci_lookup (snd (ci_insert v r s)) v = [r]"
    and "ci_contains s v \<Longrightarrow> snd (ci_insert v r s) = s"
  using assms by (auto simp: ci_insert_def ci_contains_def ci_lookup_def hm_simps)

section \<open>The hash index of the index crate\<close>

record hash_index =
  hi_column :: string
  hi_unique :: bool
  hi_entries :: "(val, row_id list) hmap"

definition hi_new :: "string \<Rightarrow> bool \<Rightarrow> hash_index" where
  "hi_new c u = \<lparr> hi_column = c, hi_unique = u, hi_entries = [] \<rparr>"

definition hi_insert :: "val \<Rightarrow> row_id \<Rightarrow> hash_index \<Rightarrow> (index_error + unit) \<times> hash_index" where
  "hi_insert v r s =
     (if hi_unique s then
        if vm_get (hi_entries s) v \<noteq> None then (Err (DuplicateKeyValue v), s)
        else (Ok (), s \<lparr> hi_entries := vm_insert v [r] (hi_entries s) \<rparr>)
      else (Ok (), s \<lparr> hi_entries := vm_push v r (hi_entries s) \<rparr>))"

definition hi_lookup :: "hash_index \<Rightarrow> val \<Rightarrow> row_id list" where
  "hi_lookup s v = (case vm_get (hi_entries s) v of Some ids \<Rightarrow> ids | None \<Rightarrow> [])"

definition hi_remove :: "val \<Rightarrow> row_id \<Rightarrow> hash_index \<Rightarrow> hash_index" where
  "hi_remove v r s = s \<lparr> hi_entries := vm_retain v r (hi_entries s) \<rparr>"

definition hi_clear :: "hash_index \<Rightarrow> hash_index" where
  "hi_clear s = s \<lparr> hi_entries := [] \<rparr>"

definition hi_len :: "hash_index \<Rightarrow> nat" where
  "hi_len s = sum_list (map (\<lambda>(_, ids). length ids) (hi_entries s))"

definition hi_key_count :: "hash_index \<Rightarrow> nat" where
  "hi_key_count s = length (hi_entries s)"

interpretation hash_ix: row_index same_key "\<lambda>s. \<not> hi_unique s" "hi_new c False"
  "\<lambda>v r s. snd (hi_insert v r s)" hi_remove hi_lookup for c
  by unfold_locales
    (auto simp: hi_new_def hi_insert_def hi_remove_def hi_lookup_def same_key_def
      vm_ids_def [symmetric] vm_ids_push vm_ids_retain vm_ids_no_key)

lemma hi_insert_unique:
  assumes "hi_unique s"
  shows "fst (hi_insert v r s) = Ok () \<longleftrightarrow> vm_get (hi_entries s) v = None"
    and "vm_get (hi_entries s) v = None \<Longrightarrow> key_reflexive v \<Longrightarrow>
      hi_lookup (snd (hi_insert v r s)) v = [r]"
  using assms by (auto simp: hi_insert_def hi_lookup_def hm_simps)

section \<open>The ordered index\<close>

text \<open>A \<open>BTreeMap<Value, _>\<close> is a list of entries in strictly ascending order of the keys.\<close>

type_synonym 'a bt_map = "(val \<times> 'a) list"

definition bt_sorted :: "(json \<Rightarrow> string) \<Rightarrow> 'a bt_map \<Rightarrow> bool" where
  "bt_sorted js m \<longleftrightarrow> sorted_wrt (\<lambda>a b. value_cmp js a b = Less) (map fst m)"

fun bt_get :: "(json \<Rightarrow> string) \<Rightarrow> 'a bt_map \<Rightarrow> val \<Rightarrow> 'a option" where
  "bt_get js [] v = None"
| "bt_get js ((k, x) # m) v = (if value_cmp js v k = Equal then Some x else bt_get js m v)"

text \<open>Replace the entry of an equal key, keeping the key, or insert in order.\<close>

fun bt_insert :: "(json \<Rightarrow> string) \<Rightarrow> val \<Rightarrow> 'a \<Rightarrow> 'a bt_map \<Rightarrow> 'a bt_map" where
  "bt_insert js v x [] = [(v, x)]"
| "bt_insert js v x ((k, y) # m) =
     (case value_cmp js v k of
        Less \<Rightarrow> (v, x) # (k, y) # m
      | Equal \<Rightarrow> (k, x) # m
      | Greater \<Rightarrow> (k, y) # bt_insert js v x m)"

definition bt_remove :: "(json \<Rightarrow> string) \<Rightarrow> val \<Rightarrow> 'a bt_map \<Rightarrow> 'a bt_map" where
  "bt_remove js v m = filter (\<lambda>(k, _). value_cmp js v k \<noteq> Equal) m"

record btree_index =
  bi_column :: string
  bi_entries :: "row_id list bt_map"

definition bi_new :: "string \<Rightarrow> btree_index" where
  "bi_new c = \<lparr> bi_column = c, bi_entries = [] \<rparr>"

definition bi_lookup :: "(json \<Rightarrow> string) \<Rightarrow> btree_index \<Rightarrow> val \<Rightarrow> row_id list" where
  "bi_lookup js s v = (case bt_get js (bi_entries s) v of Some ids \<Rightarrow> ids | None \<Rightarrow> [])"

definition bi_insert :: "(json \<Rightarrow> string) \<Rightarrow> val \<Rightarrow> row_id \<Rightarrow> btree_index \<Rightarrow> btree_index" where
  "bi_insert js v r s = s \<lparr> bi_entries := bt_insert js v (bi_lookup js s v @ [r]) (bi_entries s) \<rparr>"

definition bi_remove :: "(json \<Rightarrow> string) \<Rightarrow> val \<Rightarrow> row_id \<Rightarrow> btree_index \<Rightarrow> btree_index" where
  "bi_remove js v r s =
     (case bt_get js (bi_entries s) v of
        Some ids \<Rightarrow>
          (let ids' = filter (\<lambda>i. i \<noteq> r) ids in
           s \<lparr> bi_entries := (if ids' = [] then bt_remove js v (bi_entries s)
                              else bt_insert js v ids' (bi_entries s)) \<rparr>)
      | None \<Rightarrow> s)"

text \<open>
  \<open>BTreeMap::range\<close> panics when the start lies above the end, and, with both bounds
  excluded, when they are equal: \<^const>\<open>None\<close>.
\<close>

definition bi_range :: "(json \<Rightarrow> string) \<Rightarrow> btree_index \<Rightarrow> val \<Rightarrow> val \<Rightarrow> (val \<times> row_id list) list option" where
  "bi_range js s lo hi =
     (if value_cmp js lo hi = Greater then None
      else Some (filter (\<lambda>(k, _). value_cmp js lo k \<noteq> Greater \<and> value_cmp js k hi \<noteq> Greater)
             (bi_entries s)))"

definition bi_range_exclusive ::
  "(json \<Rightarrow> string) \<Rightarrow> btree_index \<Rightarrow> val \<Rightarrow> val \<Rightarrow> (val \<times> row_id list) list option" where
  "bi_range_exclusive js s lo hi =
     (if value_cmp js lo hi \<noteq> Less then None
      else Some (filter (\<lambda>(k, _). value_cmp js lo k = Less \<and> value_cmp js k hi = Less)
             (bi_entries s)))"

definition bi_min :: "btree_index \<Rightarrow> (val \<times> row_id list) option" where
  "bi_min s = (case bi_entries s of [] \<Rightarrow> None | e # _ \<Rightarrow> Some e)"

definition bi_max :: "btree_index \<Rightarrow> (val \<times> row_id list) option" where
  "bi_max s = (case rev (bi_entries s) of [] \<Rightarrow> None | e # _ \<Rightarrow> Some e)"

definition bi_clear :: "btree_index \<Rightarrow> btree_index" where
  "bi_clear s = s \<lparr> bi_entries := [] \<rparr>"

definition bi_len :: "btree_index \<Rightarrow> nat" where
  "bi_len s = sum_list (map (\<lambda>(_, ids). length ids) (bi_entries s))"

definition bi_key_count :: "btree_index \<Rightarrow> nat" where
  "bi_key_count s = length (bi_entries s)"

subsection \<open>Ordered maps\<close>

lemma value_cmp_less_le_trans:
  "value_cmp js a b = Less \<Longrightarrow> value_cmp js b c \<noteq> Greater \<Longrightarrow> value_cmp js a c = Less"
  "value_cmp js a b \<noteq> Greater \<Longrightarrow> value_cmp js b c = Less \<Longrightarrow> value_cmp js a c = Less"
proof -
  have right: "value_cmp js b c = Equal \<Longrightarrow> value_cmp js a c = value_cmp js a b"
    using vo.cmp_equal_left [of js b c a] vo.cmp_flip [of js a b] vo.cmp_flip [of js a c] by simp
  show "value_cmp js a b = Less \<Longrightarrow> value_cmp js b c \<noteq> Greater \<Longrightarrow> value_cmp js a c = Less"
    using right value_cmp_trans_less [of js a b c] by (cases "value_cmp js b c") auto
  show "value_cmp js a b \<noteq> Greater \<Longrightarrow> value_cmp js b c = Less \<Longrightarrow> value_cmp js a c = Less"
    using vo.cmp_equal_left [of js a b c] value_cmp_trans_less [of js a b c]
    by (cases "value_cmp js a b") auto
qed

lemma bt_insert_keys:
  "fst ` set (bt_insert js v x m) \<subseteq> insert v (fst ` set m)"
proof (induction m)
  case (Cons e m)
  then show ?case by (cases e; cases "value_cmp js v (fst e)") auto
qed simp

lemma bt_sorted_insert: "bt_sorted js m \<Longrightarrow> bt_sorted js (bt_insert js v x m)"
proof (induction m)
  case (Cons e m)
  obtain k y where e: "e = (k, y)" by (cases e)
  have lt: "value_cmp js k k' = Less" if "k' \<in> fst ` set m" for k'
    using Cons.prems that e by (auto simp: bt_sorted_def)
  show ?case
  proof (cases "value_cmp js v k")
    case Less
    then have "value_cmp js v k' = Less" if "k' \<in> fst ` set m" for k'
      using lt that value_cmp_trans_less by blast
    then show ?thesis using Cons.prems e Less by (auto simp: bt_sorted_def)
  next
    case Greater
    then have "value_cmp js k v = Less" using vo.cmp_flip [of js k v] by simp
    then have "value_cmp js k k' = Less" if "k' \<in> fst ` set (bt_insert js v x m)" for k'
      using that lt bt_insert_keys [of js v x m] by blast
    then show ?thesis using Cons e Greater by (auto simp: bt_sorted_def)
  qed (use Cons.prems e in \<open>auto simp: bt_sorted_def\<close>)
qed (simp add: bt_sorted_def)

lemma bt_sorted_filter: "bt_sorted js m \<Longrightarrow> bt_sorted js (filter P m)"
  by (induction m) (auto simp: bt_sorted_def)

lemma bt_get_insert:
  "bt_get js (bt_insert js v x m) w =
     (if value_cmp js w v = Equal then Some x else bt_get js m w)"
proof (induction m)
  case (Cons e m)
  obtain k y where e: "e = (k, y)" by (cases e)
  have "value_cmp js w v = Equal \<Longrightarrow> value_cmp js w k = value_cmp js v k"
    by (rule vo.cmp_equal_left)
  moreover have "value_cmp js v k = Equal \<Longrightarrow> value_cmp js w k = value_cmp js w v"
    using vo.cmp_equal_left [of js v k w] vo.cmp_flip [of js w v] vo.cmp_flip [of js w k] by simp
  ultimately show ?case
    using Cons e by (auto split: ordering.split)
qed simp

lemma bt_get_remove:
  "bt_get js (bt_remove js v m) w = (if value_cmp js w v = Equal then None else bt_get js m w)"
proof (induction m)
  case (Cons e m)
  obtain k y where e: "e = (k, y)" by (cases e)
  have "value_cmp js w v = Equal \<Longrightarrow> value_cmp js w k = value_cmp js v k"
    by (rule vo.cmp_equal_left)
  moreover have "value_cmp js v k = Equal \<Longrightarrow> value_cmp js w k = value_cmp js w v"
    using vo.cmp_equal_left [of js v k w] vo.cmp_flip [of js w v] vo.cmp_flip [of js w k] by simp
  ultimately show ?case
    using Cons e by (auto simp: bt_remove_def)
qed (simp add: bt_remove_def)

lemma bt_get_cong: "value_cmp js v w = Equal \<Longrightarrow> bt_get js m v = bt_get js m w"
  by (induction m) (auto simp: vo.cmp_equal_left [of js v w])

definition bi_inv :: "(json \<Rightarrow> string) \<Rightarrow> btree_index \<Rightarrow> bool" where
  "bi_inv js s \<longleftrightarrow> bt_sorted js (bi_entries s) \<and> [] \<notin> snd ` set (bi_entries s)"

lemma bt_insert_values: "snd ` set (bt_insert js v x m) \<subseteq> insert x (snd ` set m)"
proof (induction m)
  case (Cons e m)
  then show ?case by (cases e; cases "value_cmp js v (fst e)") auto
qed simp

lemma bi_inv_insert: "bi_inv js s \<Longrightarrow> bi_inv js (bi_insert js v r s)"
  using bt_insert_values [of js v "bi_lookup js s v @ [r]" "bi_entries s"]
  by (auto simp: bi_inv_def bi_insert_def bt_sorted_insert)

lemma bi_inv_remove:
  assumes "bi_inv js s"
  shows "bi_inv js (bi_remove js v r s)"
proof (cases "bt_get js (bi_entries s) v")
  case (Some ids)
  let ?ids = "filter (\<lambda>i. i \<noteq> r) ids"
  show ?thesis
    using assms Some bt_insert_values [of js v ?ids "bi_entries s"]
    by (auto simp: bi_inv_def bi_remove_def bt_sorted_insert bt_remove_def bt_sorted_filter Let_def)
qed (use assms in \<open>simp add: bi_remove_def\<close>)

interpretation btree_ix: row_index "\<lambda>w v. value_cmp js w v = Equal"
  "bi_inv js" "bi_new c" "bi_insert js" "bi_remove js" "bi_lookup js" for js c
proof (unfold_locales, goal_cases)
  case (5 s v r w)
  then show ?case
    using bt_get_cong [of js w v "bi_entries s"]
    by (auto simp: bi_lookup_def bi_insert_def bt_get_insert)
next
  case (6 s v r w)
  then show ?case
    using bt_get_cong [of js w v "bi_entries s"]
    by (auto simp: bi_lookup_def bi_remove_def bt_get_insert bt_get_remove Let_def split: option.split)
qed (auto simp: bi_new_def bi_lookup_def bi_inv_insert bi_inv_remove, simp add: bi_inv_def bt_sorted_def)

lemma bt_get_mem:
  "bt_sorted js m \<Longrightarrow> (k, x) \<in> set m \<Longrightarrow> bt_get js m k = Some x"
proof (induction m)
  case (Cons e m)
  obtain k' y where e: "e = (k', y)" by (cases e)
  show ?case
  proof (cases "(k, x) \<in> set m")
    case True
    then have "value_cmp js k' k = Less" using Cons.prems(1) e by (force simp: bt_sorted_def)
    then have "value_cmp js k k' \<noteq> Equal" using vo.cmp_flip [of js k k'] by simp
    then show ?thesis using Cons True e by (auto simp: bt_sorted_def)
  qed (use Cons.prems e in \<open>simp add: vo.cmp_refl\<close>)
qed simp

lemma bt_get_Some:
  "bt_get js m v = Some x \<Longrightarrow> \<exists>k. (k, x) \<in> set m \<and> value_cmp js v k = Equal"
  by (induction m) (auto split: if_splits)

lemma bi_min_least:
  assumes "bi_inv js s" and "bi_min s = Some (k, ids)" and "(k', ids') \<in> set (bi_entries s)"
  shows "value_cmp js k k' \<noteq> Greater"
  using assms
  by (cases "bi_entries s") (force simp: bi_min_def bi_inv_def bt_sorted_def vo.cmp_refl)+

text \<open>The state of an index after a history of operations.\<close>

fun bi_apply :: "(json \<Rightarrow> string) \<Rightarrow> index_op \<Rightarrow> btree_index \<Rightarrow> btree_index" where
  "bi_apply js (IndexInsert v r) s = bi_insert js v r s"
| "bi_apply js (IndexRemove v r) s = bi_remove js v r s"

lemma bi_apply_step: "bi_apply js = btree_ix.step js"
proof (intro ext)
  show "bi_apply js op s = btree_ix.step js op s" for op s by (cases op) auto
qed

text \<open>
  C12: on an ordered index with any history, a range query with bounds in order returns, in
  ascending order, exactly the keys between the bounds that still hold identifiers, each with
  the identifiers inserted under it and not removed since, in insertion order.
\<close>

theorem btree_range_history:
  assumes "value_cmp js lo hi \<noteq> Greater"
  shows "\<exists>es. bi_range js (fold (bi_apply js) ops (bi_new c)) lo hi = Some es \<and> bt_sorted js es \<and>
    (\<forall>k ids. (k, ids) \<in> set es \<longrightarrow> value_cmp js lo k \<noteq> Greater \<and> value_cmp js k hi \<noteq> Greater \<and>
       ids \<noteq> [] \<and> ids = history_ids (\<lambda>w v. value_cmp js w v = Equal) ops k) \<and>
    (\<forall>v. value_cmp js lo v \<noteq> Greater \<and> value_cmp js v hi \<noteq> Greater \<and>
       history_ids (\<lambda>w v. value_cmp js w v = Equal) ops v \<noteq> [] \<longrightarrow>
       (\<exists>k ids. (k, ids) \<in> set es \<and> value_cmp js v k = Equal))"
proof -
  let ?s = "fold (bi_apply js) ops (bi_new c)"
  have inv: "bi_inv js ?s"
    unfolding bi_apply_step using btree_ix.inv_run [OF btree_ix.inv_empty] .
  have look: "bi_lookup js ?s v = history_ids (\<lambda>w v. value_cmp js w v = Equal) ops v" for v
    unfolding bi_apply_step by (rule btree_ix.lookup_history)
  have srt: "bt_sorted js (bi_entries ?s)" and ne: "\<And>k ids. (k, ids) \<in> set (bi_entries ?s) \<Longrightarrow> ids \<noteq> []"
    using inv by (force simp: bi_inv_def)+
  have mem: "ids = history_ids (\<lambda>w v. value_cmp js w v = Equal) ops k"
    if "(k, ids) \<in> set (bi_entries ?s)" for k ids
    using bt_get_mem [OF srt that] look [of k] by (simp add: bi_lookup_def)
  have found: "\<exists>k ids. (k, ids) \<in> set (bi_entries ?s) \<and> value_cmp js v k = Equal"
    if "history_ids (\<lambda>w v. value_cmp js w v = Equal) ops v \<noteq> []" for v
    using that bt_get_Some [of js "bi_entries ?s" v] look [of v]
    by (auto simp: bi_lookup_def split: option.splits)
  have cong: "value_cmp js v k = Equal \<Longrightarrow>
      value_cmp js lo k = value_cmp js lo v \<and> value_cmp js k hi = value_cmp js v hi" for v k
    using vo.cmp_equal_left [of js v k] vo.cmp_flip [of js lo] by metis
  show ?thesis
  proof (rule exI, intro conjI allI impI)
    let ?es = "filter (\<lambda>(k, _). value_cmp js lo k \<noteq> Greater \<and> value_cmp js k hi \<noteq> Greater)
        (bi_entries ?s)"
    show "bi_range js ?s lo hi = Some ?es" using assms by (simp add: bi_range_def)
    show "bt_sorted js ?es" by (rule bt_sorted_filter [OF srt])
    fix v
    assume v: "value_cmp js lo v \<noteq> Greater \<and> value_cmp js v hi \<noteq> Greater \<and>
      history_ids (\<lambda>w v. value_cmp js w v = Equal) ops v \<noteq> []"
    then obtain k ids where "(k, ids) \<in> set (bi_entries ?s)" "value_cmp js v k = Equal"
      using found by blast
    with v cong [of v k] show "\<exists>k ids. (k, ids) \<in> set ?es \<and> value_cmp js v k = Equal"
      by (intro exI [of _ k] exI [of _ ids]) simp
  qed (use mem ne in \<open>auto\<close>)
qed

theorem btree_range_history_witness:
  "\<exists>es. bi_range (\<lambda>_. []) (fold (bi_apply (\<lambda>_. []))
       [IndexInsert (VUInt8 4) 1, IndexInsert (VUInt8 9) 2] (bi_new ''age'')) (VUInt8 3) (VUInt8 7) = Some es
     \<and> bt_sorted (\<lambda>_. []) es"
  using btree_range_history [of "\<lambda>_. []" "VUInt8 3" "VUInt8 7"
      "[IndexInsert (VUInt8 4) 1, IndexInsert (VUInt8 9) 2]" "''age''"]
  by (simp add: cmp_of_def) blast

end
