(* ===== verification/Row_Store.thy ===== *)
theory Row_Store
  imports Types_Schema
begin

text \<open>
  The contract a store of rows offers to its clients: what a read returns after an insertion,
  an update or a deletion, and that a failed operation changes nothing. The table engine and
  the memory store provide it; the transaction manager relies on it when it applies the
  buffered writes of a transaction one after the other.
\<close>

datatype store_write =
    PutRow string row
  | SetRow string row_id row_values
  | DropRow string row_id

text \<open>The row a write addresses, when it addresses one.\<close>

fun write_target :: "store_write \<Rightarrow> (string \<times> row_id) option" where
  "write_target (PutRow nm r) = None"
| "write_target (SetRow nm i vals) = Some (nm, i)"
| "write_target (DropRow nm i) = Some (nm, i)"

locale row_store =
  fixes inv :: "'s \<Rightarrow> bool"
    and ins :: "string \<Rightarrow> row \<Rightarrow> 's \<Rightarrow> ('e + row_id) \<times> 's"
    and get :: "string \<Rightarrow> row_id \<Rightarrow> 's \<Rightarrow> 'e + row option"
    and upd :: "string \<Rightarrow> row_id \<Rightarrow> row_values \<Rightarrow> 's \<Rightarrow> ('e + row) \<times> 's"
    and del :: "string \<Rightarrow> row_id \<Rightarrow> 's \<Rightarrow> ('e + bool) \<times> 's"
    and ins_ok :: "string \<Rightarrow> row \<Rightarrow> 's \<Rightarrow> bool"
    and upd_ok :: "row_values \<Rightarrow> bool"
  assumes ins_Ok: "inv s \<Longrightarrow> ins_ok nm r s \<Longrightarrow> ins nm r s = (Inr i, s') \<Longrightarrow>
      inv s' \<and> get nm i s = Inr None \<and>
      (\<forall>nm' j. get nm' j s' =
         (if nm' = nm \<and> j = i then Inr (Some (r \<lparr> row_id := i \<rparr>)) else get nm' j s))"
    and ins_Err: "ins nm r s = (Inl e, s') \<Longrightarrow> s' = s"
    and upd_Ok: "inv s \<Longrightarrow> upd_ok vals \<Longrightarrow> upd nm i vals s = (Inr r', s') \<Longrightarrow>
      inv s' \<and>
      (\<exists>r. get nm i s = Inr (Some r) \<and> r' = r \<lparr> row_values := hm_extend (row_values r) vals \<rparr>) \<and>
      (\<forall>nm' j. get nm' j s' = (if nm' = nm \<and> j = i then Inr (Some r') else get nm' j s))"
    and upd_Err: "upd nm i vals s = (Inl e, s') \<Longrightarrow> s' = s"
    and del_Ok: "inv s \<Longrightarrow> del nm i s = (Inr b, s') \<Longrightarrow>
      inv s' \<and> (\<exists>ro. get nm i s = Inr ro \<and> (b \<longleftrightarrow> ro \<noteq> None)) \<and>
      (\<forall>nm' j. get nm' j s' = (if nm' = nm \<and> j = i then Inr None else get nm' j s))"
    and del_Err: "del nm i s = (Inl e, s') \<Longrightarrow> s' = s"
begin

text \<open>One write, with the key of the row it touched.\<close>

fun do_write :: "store_write \<Rightarrow> 's \<Rightarrow> ('e + (string \<times> row_id)) \<times> 's" where
  "do_write (PutRow nm r) s =
     (case ins nm r s of (Inl e, s') \<Rightarrow> (Inl e, s') | (Inr i, s') \<Rightarrow> (Inr (nm, i), s'))"
| "do_write (SetRow nm i vals) s =
     (case upd nm i vals s of (Inl e, s') \<Rightarrow> (Inl e, s') | (Inr _, s') \<Rightarrow> (Inr (nm, i), s'))"
| "do_write (DropRow nm i) s =
     (case del nm i s of (Inl e, s') \<Rightarrow> (Inl e, s') | (Inr _, s') \<Rightarrow> (Inr (nm, i), s'))"

fun write_ok :: "store_write \<Rightarrow> 's \<Rightarrow> bool" where
  "write_ok (PutRow nm r) s = ins_ok nm r s"
| "write_ok (SetRow nm i vals) s = upd_ok vals"
| "write_ok (DropRow nm i) s = True"

text \<open>Writes in order, up to the first that fails; the keys touched so far are kept.\<close>

fun do_writes :: "store_write list \<Rightarrow> (string \<times> row_id) list \<Rightarrow> 's \<Rightarrow> ('e + (string \<times> row_id) list) \<times> 's" where
  "do_writes [] acc s = (Inr acc, s)"
| "do_writes (w # ws) acc s =
     (case do_write w s of
        (Inl e, s') \<Rightarrow> (Inl e, s')
      | (Inr k, s') \<Rightarrow> do_writes ws (acc @ [k]) s')"

fun writes_ok :: "store_write list \<Rightarrow> 's \<Rightarrow> bool" where
  "writes_ok [] s = True"
| "writes_ok (w # ws) s = (write_ok w s \<and> writes_ok ws (snd (do_write w s)))"

lemma do_write_Err: "do_write w s = (Inl e, s') \<Longrightarrow> s' = s"
  by (cases w) (auto dest: ins_Err upd_Err del_Err split: prod.splits sum.splits)

lemma do_write_Ok:
  assumes "inv s" and "write_ok w s" and "do_write w s = (Inr k, s')"
  shows "inv s' \<and> (\<forall>t. write_target w = Some t \<longrightarrow> k = t) \<and>
    (\<forall>nm j. (nm, j) \<noteq> k \<longrightarrow> get nm j s' = get nm j s)"
proof (cases w)
  case (PutRow nm r)
  with assms(3) obtain i where i: "ins nm r s = (Inr i, s')" "k = (nm, i)"
    by (auto split: prod.splits sum.splits)
  then show ?thesis using ins_Ok [OF assms(1) _ i(1)] assms(2) PutRow by auto
next
  case (SetRow nm i vals)
  with assms(3) obtain r where r: "upd nm i vals s = (Inr r, s')" "k = (nm, i)"
    by (auto split: prod.splits sum.splits)
  then show ?thesis using upd_Ok [OF assms(1) _ r(1)] assms(2) SetRow by auto
next
  case (DropRow nm i)
  with assms(3) obtain b where b: "del nm i s = (Inr b, s')" "k = (nm, i)"
    by (auto split: prod.splits sum.splits)
  then show ?thesis using del_Ok [OF assms(1) b(1)] DropRow by auto
qed

lemma inv_do_write: "inv s \<Longrightarrow> write_ok w s \<Longrightarrow> inv (snd (do_write w s))"
proof (cases "do_write w s")
  case (Pair res s')
  then show "inv s \<Longrightarrow> write_ok w s \<Longrightarrow> ?thesis"
    by (cases res) (auto dest: do_write_Err do_write_Ok)
qed

lemma inv_do_writes: "inv s \<Longrightarrow> writes_ok ws s \<Longrightarrow> inv (snd (do_writes ws acc s))"
proof (induction ws arbitrary: acc s)
  case (Cons w ws)
  then show ?case
    using inv_do_write [of s w] by (auto split: prod.split sum.split)
qed simp

lemma do_write_present:
  assumes "inv s" and "write_ok w s" and "write_target w \<noteq> Some (nm, j)"
    and "get nm j s = Inr (Some r)"
  shows "get nm j (snd (do_write w s)) = Inr (Some r)"
proof (cases "do_write w s")
  case (Pair res s')
  show ?thesis
  proof (cases res)
    case (Inr k)
    have "(nm, j) \<noteq> k"
    proof (cases w)
      case (PutRow nm' r')
      with Pair Inr obtain i where i: "ins nm' r' s = (Inr i, s')" "k = (nm', i)"
        by (auto split: prod.splits sum.splits)
      then have "get nm' i s = Inr None" using ins_Ok [OF assms(1) _ i(1)] assms(2) PutRow by simp
      then show ?thesis using i assms(4) by auto
    qed (use Pair Inr assms(3) do_write_Ok [OF assms(1,2), of k s'] in auto)
    then show ?thesis using Pair Inr do_write_Ok [OF assms(1,2), of k s'] assms(4) by auto
  qed (use Pair assms(4) do_write_Err [of w s] in auto)
qed

text \<open>A row that no write of the sequence addresses survives it unchanged.\<close>

lemma do_writes_frame:
  assumes "inv s" and "writes_ok ws s" and "Some (nm, j) \<notin> write_target ` set ws"
    and "get nm j s = Inr (Some r)"
  shows "get nm j (snd (do_writes ws acc s)) = Inr (Some r)"
  using assms
proof (induction ws arbitrary: acc s)
  case (Cons w ws)
  obtain res s' where w: "do_write w s = (res, s')" by fastforce
  have s': "inv s'" "get nm j s' = Inr (Some r)"
    using inv_do_write [of s w] do_write_present [of s w nm j r] Cons.prems w by auto
  show ?case
    using Cons.IH [of s'] Cons.prems s' w by (auto split: sum.split)
qed simp

lemma do_writes_append:
  "do_writes (ws @ ws') acc s =
     (case do_writes ws acc s of
        (Inl e, s') \<Rightarrow> (Inl e, s')
      | (Inr ks, s') \<Rightarrow> do_writes ws' ks s')"
  by (induction ws arbitrary: acc s) (auto split: prod.split sum.split)

lemma writes_ok_append:
  "do_writes ws acc s = (Inr ks, s') \<Longrightarrow>
   writes_ok (ws @ ws') s \<longleftrightarrow> writes_ok ws s \<and> writes_ok ws' s'"
  by (induction ws arbitrary: acc s) (auto split: prod.splits sum.splits)

text \<open>After a sequence that succeeds, every key it did not touch reads as before.\<close>

lemma do_writes_untouched:
  assumes "inv s" and "writes_ok ws s" and "do_writes ws acc s = (Inr ks, s')" and "(nm, j) \<notin> set ks"
  shows "get nm j s' = get nm j s \<and> set acc \<subseteq> set ks"
  using assms
proof (induction ws arbitrary: acc s)
  case (Cons w ws)
  from Cons.prems(3) obtain k s1 where w: "do_write w s = (Inr k, s1)"
    and rest: "do_writes ws (acc @ [k]) s1 = (Inr ks, s')"
    by (auto split: prod.splits sum.splits)
  have ok: "write_ok w s" "writes_ok ws s1" using Cons.prems(2) w by auto
  note step = do_write_Ok [OF Cons.prems(1) ok(1) w]
  have "get nm j s' = get nm j s1 \<and> set (acc @ [k]) \<subseteq> set ks"
    using Cons.IH [OF _ ok(2) rest Cons.prems(4)] step by blast
  then show ?case using step Cons.prems(4) by auto
qed simp

text \<open>The keys returned are those of the writes, in order.\<close>

lemma do_writes_length:
  "do_writes ws acc s = (Inr ks, s') \<Longrightarrow> length ks = length acc + length ws"
  by (induction ws arbitrary: acc s) (auto split: prod.splits sum.splits)

end

end
