(* ===== verification/Core_Table.thy ===== *)
theory Core_Table
  imports Indexes Row_Store
begin

text \<open>
  The in-memory table engine (\<open>blitz-core/src/table.rs\<close>): tables of rows with unique
  secondary indexes kept next to the rows. Every engine method resolves a table and runs one
  critical section under that table's lock, so a call is an atomic step; \<open>with_table\<close> is
  that section. The invariant ties the indexes to the rows: an index maps a value to the one
  row that carries it.
\<close>

section \<open>Errors and state\<close>

datatype duplicate = DupColumn string val | DupRow row_id

datatype core_error =
    TableNotFound string
  | TableAlreadyExists string
  | RowNotFound u64
  | DuplicateKey duplicate
  | ConstraintViolation string
  | CoreTypeError type_error
  | Internal string

record in_memory_table =
  t_schema :: table_schema
  t_rows :: "(row_id, row) hmap"
  t_next_id :: u64
  t_uniq :: "(string, (val, row_id) hmap) hmap"

record engine =
  e_tables :: "(string, in_memory_table) hmap"

definition table_new :: "table_schema \<Rightarrow> in_memory_table" where
  "table_new s = \<lparr> t_schema = s, t_rows = [], t_next_id = 1, t_uniq = [] \<rparr>"

definition next_row_id :: "in_memory_table \<Rightarrow> row_id \<times> in_memory_table" where
  "next_row_id t = (t_next_id t, t \<lparr> t_next_id := t_next_id t + 1 \<rparr>)"

definition uniq_cols :: "in_memory_table \<Rightarrow> string list" where
  "uniq_cols t = map col_name (filter (\<lambda>c. primary_key c \<or> col_unique c) (ts_columns (t_schema t)))"

fun check_uniq ::
  "in_memory_table \<Rightarrow> string list \<Rightarrow> row_values \<Rightarrow> row_id option \<Rightarrow> core_error + unit" where
  "check_uniq t [] vals self_id = Ok ()"
| "check_uniq t (col # cols) vals self_id =
     (case hm_get vals col of
        None \<Rightarrow> check_uniq t cols vals self_id
      | Some v \<Rightarrow>
          if is_null v then check_uniq t cols vals self_id
          else (case hm_get (t_uniq t) col of
                  None \<Rightarrow> check_uniq t cols vals self_id
                | Some idx \<Rightarrow>
                    (case vm_get idx v of
                       None \<Rightarrow> check_uniq t cols vals self_id
                     | Some owner \<Rightarrow>
                         if Some owner \<noteq> self_id then Err (DuplicateKey (DupColumn col v))
                         else check_uniq t cols vals self_id)))"

text \<open>\<open>self.uniq.entry(col).or_default().insert(v, id)\<close>.\<close>

definition uniq_put :: "string \<Rightarrow> val \<Rightarrow> row_id \<Rightarrow> in_memory_table \<Rightarrow> in_memory_table" where
  "uniq_put col v i t =
     t \<lparr> t_uniq := hm_insert col
           (vm_insert v i (case hm_get (t_uniq t) col of Some idx \<Rightarrow> idx | None \<Rightarrow> [])) (t_uniq t) \<rparr>"

text \<open>\<open>if idx.get(v) == Some(&id) { idx.remove(v) }\<close> in the index of a column, if there is one.\<close>

definition uniq_drop :: "string \<Rightarrow> val \<Rightarrow> row_id \<Rightarrow> in_memory_table \<Rightarrow> in_memory_table" where
  "uniq_drop col v i t =
     (case hm_get (t_uniq t) col of
        None \<Rightarrow> t
      | Some idx \<Rightarrow>
          if vm_get idx v = Some i then t \<lparr> t_uniq := hm_insert col (vm_remove v idx) (t_uniq t) \<rparr>
          else t)"

fun index_row :: "string list \<Rightarrow> row_id \<Rightarrow> row_values \<Rightarrow> in_memory_table \<Rightarrow> in_memory_table" where
  "index_row [] i vals t = t"
| "index_row (col # cols) i vals t =
     index_row cols i vals
       (case hm_get vals col of
          None \<Rightarrow> t
        | Some v \<Rightarrow> if is_null v then t else uniq_put col v i t)"

fun unindex_row :: "string list \<Rightarrow> row_id \<Rightarrow> row_values \<Rightarrow> in_memory_table \<Rightarrow> in_memory_table" where
  "unindex_row [] i vals t = t"
| "unindex_row (col # cols) i vals t =
     unindex_row cols i vals
       (case hm_get vals col of None \<Rightarrow> t | Some v \<Rightarrow> uniq_drop col v i t)"

section \<open>Critical sections\<close>

text \<open>What each engine method does under the write lock of its table.\<close>

definition table_insert_unchecked ::
  "row \<Rightarrow> in_memory_table \<Rightarrow> (core_error + row_id) \<times> in_memory_table" where
  "table_insert_unchecked r t =
     (case check_uniq t (uniq_cols t) (row_values r) None of
        Inl e \<Rightarrow> (Err e, t)
      | Inr _ \<Rightarrow>
          (let (i, t1) = next_row_id t;
               r' = r \<lparr> row_id := i \<rparr>;
               t2 = index_row (uniq_cols t) i (row_values r') t1 in
           (Ok i, t2 \<lparr> t_rows := hm_insert i r' (t_rows t2) \<rparr>)))"

definition table_insert ::
  "row \<Rightarrow> in_memory_table \<Rightarrow> (core_error + row_id) \<times> in_memory_table" where
  "table_insert r t =
     (case validate_row_values (t_schema t) (row_values r) of
        Inl e \<Rightarrow> (Err (CoreTypeError e), t)
      | Inr _ \<Rightarrow>
     (case check_uniq t (uniq_cols t) (row_values r) None of
        Inl e \<Rightarrow> (Err e, t)
      | Inr _ \<Rightarrow>
          (let (i, t1) = next_row_id t;
               r' = r \<lparr> row_id := i \<rparr>;
               t2 = index_row (uniq_cols t) i (row_values r') t1 in
           (Ok i, t2 \<lparr> t_rows := hm_insert i r' (t_rows t2) \<rparr>))))"

text \<open>The pairs of unique columns with the values a row has for them.\<close>

definition uniq_pairs :: "string list \<Rightarrow> row_values \<Rightarrow> (string \<times> val) list" where
  "uniq_pairs cols vals =
     List.map_filter (\<lambda>c. map_option (Pair c) (hm_get vals c)) cols"

definition option_value_eq :: "val option \<Rightarrow> val option \<Rightarrow> bool" where
  "option_value_eq a b =
     (case (a, b) of (Some v, Some w) \<Rightarrow> value_eq v w | (None, None) \<Rightarrow> True | _ \<Rightarrow> False)"

fun drop_stale ::
  "(string \<times> val) list \<Rightarrow> row_values \<Rightarrow> row_id \<Rightarrow> in_memory_table \<Rightarrow> in_memory_table" where
  "drop_stale [] vals i t = t"
| "drop_stale ((c, v) # old) vals i t =
     drop_stale old vals i
       (if \<not> option_value_eq (hm_get vals c) (Some v) then uniq_drop c v i t else t)"

fun add_current :: "(string \<times> val) list \<Rightarrow> row_id \<Rightarrow> in_memory_table \<Rightarrow> in_memory_table" where
  "add_current [] i t = t"
| "add_current ((c, v) # cur) i t =
     add_current cur i (if \<not> is_null v then uniq_put c v i t else t)"

definition table_update ::
  "row_id \<Rightarrow> row_values \<Rightarrow> in_memory_table \<Rightarrow> (core_error + row) \<times> in_memory_table" where
  "table_update i vals t =
     (case hm_get (t_rows t) i of
        None \<Rightarrow> (Err (RowNotFound i), t)
      | Some cur \<Rightarrow>
          (let old = uniq_pairs (uniq_cols t) (row_values cur) in
           case check_uniq t (uniq_cols t) vals (Some i) of
             Inl e \<Rightarrow> (Err e, t)
           | Inr _ \<Rightarrow>
               (let new_row = cur \<lparr> row_values := hm_extend (row_values cur) vals \<rparr>;
                    t1 = t \<lparr> t_rows := hm_insert i new_row (t_rows t) \<rparr>;
                    t2 = drop_stale old (row_values new_row) i t1;
                    t3 = add_current (uniq_pairs (uniq_cols t) (row_values new_row)) i t2 in
                (Ok new_row, t3))))"

definition table_take ::
  "row_id \<Rightarrow> in_memory_table \<Rightarrow> (core_error + row option) \<times> in_memory_table" where
  "table_take i t =
     (case hm_get (t_rows t) i of
        None \<Rightarrow> (Ok None, t)
      | Some r \<Rightarrow>
          (Ok (Some r),
           unindex_row (uniq_cols t) i (row_values r) (t \<lparr> t_rows := hm_remove i (t_rows t) \<rparr>)))"

definition table_insert_preserving_id ::
  "row \<Rightarrow> in_memory_table \<Rightarrow> (core_error + row_id) \<times> in_memory_table" where
  "table_insert_preserving_id r t =
     (let want = row_id r in
      if hm_contains (t_rows t) want then (Err (DuplicateKey (DupRow want)), t)
      else
        (case check_uniq t (uniq_cols t) (row_values r) (Some want) of
           Inl e \<Rightarrow> (Err e, t)
         | Inr _ \<Rightarrow>
             (let t1 = (if t_next_id t \<le> want then t \<lparr> t_next_id := want + 1 \<rparr> else t);
                  t2 = index_row (uniq_cols t) want (row_values r) t1 in
              (Ok want, t2 \<lparr> t_rows := hm_insert want r (t_rows t2) \<rparr>))))"

definition table_lookup_by_unique ::
  "string \<Rightarrow> val \<Rightarrow> in_memory_table \<Rightarrow> core_error + row option" where
  "table_lookup_by_unique column v t =
     (if \<not> list_ex (\<lambda>c. col_name c = column \<and> (primary_key c \<or> col_unique c))
             (ts_columns (t_schema t)) then
        Err (ConstraintViolation column)
      else if is_null v then Ok None
      else
        (case Option.bind (hm_get (t_uniq t) column) (\<lambda>idx. vm_get idx v) of
           Some rid \<Rightarrow> Ok (hm_get (t_rows t) rid)
         | None \<Rightarrow> Ok None))"

section \<open>The engine\<close>

definition engine_new :: engine where
  "engine_new = \<lparr> e_tables = [] \<rparr>"

definition engine_table :: "engine \<Rightarrow> string \<Rightarrow> core_error + in_memory_table" where
  "engine_table e nm = ok_or (TableNotFound nm) (hm_get (e_tables e) nm)"

text \<open>Resolve the table, then run a section under its write lock.\<close>

definition with_table ::
  "string \<Rightarrow> (in_memory_table \<Rightarrow> (core_error + 'a) \<times> in_memory_table) \<Rightarrow> engine \<Rightarrow>
     (core_error + 'a) \<times> engine" where
  "with_table nm f e =
     (case engine_table e nm of
        Inl err \<Rightarrow> (Err err, e)
      | Inr t \<Rightarrow> (case f t of (res, t') \<Rightarrow> (res, e \<lparr> e_tables := hm_insert nm t' (e_tables e) \<rparr>)))"

text \<open>The same under the read lock.\<close>

definition read_table ::
  "string \<Rightarrow> (in_memory_table \<Rightarrow> core_error + 'a) \<Rightarrow> engine \<Rightarrow> core_error + 'a" where
  "read_table nm f e = (case engine_table e nm of Inl err \<Rightarrow> Err err | Inr t \<Rightarrow> f t)"

definition engine_insert :: "string \<Rightarrow> row \<Rightarrow> engine \<Rightarrow> (core_error + row_id) \<times> engine" where
  "engine_insert nm r = with_table nm (table_insert r)"

definition engine_insert_unchecked ::
  "string \<Rightarrow> row \<Rightarrow> engine \<Rightarrow> (core_error + row_id) \<times> engine" where
  "engine_insert_unchecked nm r = with_table nm (table_insert_unchecked r)"

definition engine_get :: "string \<Rightarrow> row_id \<Rightarrow> engine \<Rightarrow> core_error + row option" where
  "engine_get nm i = read_table nm (\<lambda>t. Ok (hm_get (t_rows t) i))"

definition engine_update ::
  "string \<Rightarrow> row_id \<Rightarrow> row_values \<Rightarrow> engine \<Rightarrow> (core_error + row) \<times> engine" where
  "engine_update nm i vals = with_table nm (table_update i vals)"

definition engine_take ::
  "string \<Rightarrow> row_id \<Rightarrow> engine \<Rightarrow> (core_error + row option) \<times> engine" where
  "engine_take nm i = with_table nm (table_take i)"

definition engine_delete :: "string \<Rightarrow> row_id \<Rightarrow> engine \<Rightarrow> (core_error + bool) \<times> engine" where
  "engine_delete nm i e =
     (case engine_take nm i e of
        (Inl err, e') \<Rightarrow> (Err err, e')
      | (Inr removed, e') \<Rightarrow> (Ok (removed \<noteq> None), e'))"

definition engine_scan :: "string \<Rightarrow> engine \<Rightarrow> core_error + row list" where
  "engine_scan nm = read_table nm (\<lambda>t. Ok (hm_values (t_rows t)))"

definition engine_schema :: "string \<Rightarrow> engine \<Rightarrow> core_error + table_schema" where
  "engine_schema nm = read_table nm (\<lambda>t. Ok (t_schema t))"

definition engine_count :: "string \<Rightarrow> engine \<Rightarrow> core_error + nat" where
  "engine_count nm = read_table nm (\<lambda>t. Ok (length (t_rows t)))"

definition engine_create_table :: "table_schema \<Rightarrow> engine \<Rightarrow> (core_error + unit) \<times> engine" where
  "engine_create_table s e =
     (if hm_contains (e_tables e) (ts_name s) then (Err (TableAlreadyExists (ts_name s)), e)
      else (Ok (), e \<lparr> e_tables := hm_insert (ts_name s) (table_new s) (e_tables e) \<rparr>))"

definition engine_drop_table :: "string \<Rightarrow> engine \<Rightarrow> (core_error + unit) \<times> engine" where
  "engine_drop_table nm e =
     (if hm_contains (e_tables e) nm then (Ok (), e \<lparr> e_tables := hm_remove nm (e_tables e) \<rparr>)
      else (Err (TableNotFound nm), e))"

definition engine_table_exists :: "string \<Rightarrow> engine \<Rightarrow> bool" where
  "engine_table_exists nm e \<longleftrightarrow> hm_contains (e_tables e) nm"

definition engine_table_names :: "engine \<Rightarrow> string list" where
  "engine_table_names e = hm_keys (e_tables e)"

definition engine_lookup_by_unique ::
  "string \<Rightarrow> string \<Rightarrow> val \<Rightarrow> engine \<Rightarrow> core_error + row option" where
  "engine_lookup_by_unique nm column v = read_table nm (table_lookup_by_unique column v)"

definition engine_insert_preserving_id ::
  "string \<Rightarrow> row \<Rightarrow> engine \<Rightarrow> (core_error + row_id) \<times> engine" where
  "engine_insert_preserving_id nm r = with_table nm (table_insert_preserving_id r)"

section \<open>Index maintenance\<close>

definition uniq_get :: "in_memory_table \<Rightarrow> string \<Rightarrow> val \<Rightarrow> row_id option" where
  "uniq_get t c v = Option.bind (hm_get (t_uniq t) c) (\<lambda>idx. vm_get idx v)"

lemma uniq_get_put:
  "uniq_get (uniq_put c v i t) c' v' =
     (if c' = c \<and> v' = v \<and> key_reflexive v then Some i else uniq_get t c' v')"
  by (auto simp: uniq_get_def uniq_put_def hm_simps split: option.split)

lemma uniq_get_drop:
  "uniq_get (uniq_drop c v i t) c' v' =
     (if c' = c \<and> v' = v \<and> uniq_get t c v = Some i then None else uniq_get t c' v')"
  by (auto simp: uniq_get_def uniq_drop_def hm_simps split: option.split)

lemma uniq_put_simps [simp]:
  "t_rows (uniq_put c v i t) = t_rows t" "t_schema (uniq_put c v i t) = t_schema t"
  "t_next_id (uniq_put c v i t) = t_next_id t"
  by (simp_all add: uniq_put_def)

lemma uniq_drop_simps [simp]:
  "t_rows (uniq_drop c v i t) = t_rows t" "t_schema (uniq_drop c v i t) = t_schema t"
  "t_next_id (uniq_drop c v i t) = t_next_id t"
  by (simp_all add: uniq_drop_def split: option.split)

lemma index_row_simps [simp]:
  "t_rows (index_row cols i vals t) = t_rows t" "t_schema (index_row cols i vals t) = t_schema t"
  "t_next_id (index_row cols i vals t) = t_next_id t"
  by (induction cols i vals t rule: index_row.induct) (auto split: option.split)

lemma unindex_row_simps [simp]:
  "t_rows (unindex_row cols i vals t) = t_rows t" "t_schema (unindex_row cols i vals t) = t_schema t"
  "t_next_id (unindex_row cols i vals t) = t_next_id t"
  by (induction cols i vals t rule: unindex_row.induct) (auto split: option.split)

lemma drop_stale_simps [simp]:
  "t_rows (drop_stale old vals i t) = t_rows t" "t_schema (drop_stale old vals i t) = t_schema t"
  "t_next_id (drop_stale old vals i t) = t_next_id t"
  by (induction old vals i t rule: drop_stale.induct) auto

lemma add_current_simps [simp]:
  "t_rows (add_current cur i t) = t_rows t" "t_schema (add_current cur i t) = t_schema t"
  "t_next_id (add_current cur i t) = t_next_id t"
  by (induction cur i t rule: add_current.induct) auto

lemma uniq_get_index_row:
  "uniq_get (index_row cols i vals t) c v =
     (if c \<in> set cols \<and> hm_get vals c = Some v \<and> v \<noteq> VNull \<and> key_reflexive v then Some i
      else uniq_get t c v)"
  by (induction cols i vals t rule: index_row.induct)
    (auto simp: uniq_get_put is_null_def split: option.split)

lemma uniq_get_unindex_row:
  "uniq_get (unindex_row cols i vals t) c v =
     (if c \<in> set cols \<and> hm_get vals c = Some v \<and> uniq_get t c v = Some i then None
      else uniq_get t c v)"
  by (induction cols i vals t rule: unindex_row.induct)
    (auto simp: uniq_get_drop split: option.split)

lemma uniq_get_drop_stale:
  "uniq_get (drop_stale old vals i t) c v =
     (if (c, v) \<in> set old \<and> \<not> option_value_eq (hm_get vals c) (Some v) \<and> uniq_get t c v = Some i
      then None else uniq_get t c v)"
  by (induction old vals i t rule: drop_stale.induct) (auto simp: uniq_get_drop)

lemma uniq_get_add_current:
  "uniq_get (add_current cur i t) c v =
     (if (c, v) \<in> set cur \<and> v \<noteq> VNull \<and> key_reflexive v then Some i else uniq_get t c v)"
  by (induction cur i t rule: add_current.induct) (auto simp: uniq_get_put is_null_def)

lemma set_uniq_pairs: "(c, v) \<in> set (uniq_pairs cols vals) \<longleftrightarrow> c \<in> set cols \<and> hm_get vals c = Some v"
  by (induction cols) (auto simp: uniq_pairs_def map_filter_simps split: option.splits)

lemma uniq_get_reflexive: "uniq_get t c v = Some i \<Longrightarrow> key_reflexive v"
  by (auto simp: uniq_get_def bind_eq_Some_conv dest: vm_get_reflexive)

lemma uniq_get_update [simp]:
  "uniq_get (t \<lparr> t_rows := rs \<rparr>) = uniq_get t" "uniq_get (t \<lparr> t_next_id := n \<rparr>) = uniq_get t"
  by (simp_all add: uniq_get_def fun_eq_iff)

lemma uniq_cols_update [simp]:
  "uniq_cols (t \<lparr> t_rows := rs \<rparr>) = uniq_cols t" "uniq_cols (t \<lparr> t_next_id := n \<rparr>) = uniq_cols t"
  by (auto simp: uniq_cols_def)

lemma check_uniq_Ok:
  "check_uniq t cols vals self_id = Ok u \<longleftrightarrow>
     (\<forall>c \<in> set cols. \<forall>v owner. hm_get vals c = Some v \<and> v \<noteq> VNull \<and> uniq_get t c v = Some owner \<longrightarrow>
        self_id = Some owner)"
  by (induction t cols vals self_id rule: check_uniq.induct)
    (auto simp: uniq_get_def is_null_def split: option.split)

lemma check_uniq_Err:
  "check_uniq t cols vals self_id = Err e \<Longrightarrow>
   \<exists>c v. c \<in> set cols \<and> hm_get vals c = Some v \<and> e = DuplicateKey (DupColumn c v)"
proof (induction cols)
  case (Cons c cols)
  then show ?case
    by (cases "check_uniq t cols vals self_id = Err e")
      (fastforce split: option.splits if_splits)+
qed simp

section \<open>The invariant of a table\<close>

text \<open>
  Rows are filed under their own identifiers, all below the next one; and the index entries
  are exactly the non-null values of the unique columns, each with the row that carries it.
\<close>

definition row_ok :: "row \<Rightarrow> bool" where
  "row_ok r \<longleftrightarrow> hm_wf (row_values r) \<and> (\<forall>v \<in> set (hm_values (row_values r)). value_zero_ok v)"

definition table_inv :: "in_memory_table \<Rightarrow> bool" where
  "table_inv t \<longleftrightarrow>
     hm_wf (t_rows t) \<and>
     (\<forall>i r. hm_get (t_rows t) i = Some r \<longrightarrow> row_id r = i \<and> row_ok r \<and> i < t_next_id t) \<and>
     (\<forall>c v i. uniq_get t c v = Some i \<longleftrightarrow>
        c \<in> set (uniq_cols t) \<and> v \<noteq> VNull \<and> key_reflexive v \<and>
        (\<exists>r. hm_get (t_rows t) i = Some r \<and> hm_get (row_values r) c = Some v))"

definition engine_inv :: "engine \<Rightarrow> bool" where
  "engine_inv e \<longleftrightarrow>
     hm_wf (e_tables e) \<and>
     (\<forall>nm t. hm_get (e_tables e) nm = Some t \<longrightarrow> ts_name (t_schema t) = nm \<and> table_inv t)"

lemma table_invI:
  assumes "hm_wf (t_rows t)"
    and "\<And>i r. hm_get (t_rows t) i = Some r \<Longrightarrow> row_id r = i \<and> row_ok r \<and> i < t_next_id t"
    and "\<And>c v i. uniq_get t c v = Some i \<longleftrightarrow>
        c \<in> set (uniq_cols t) \<and> v \<noteq> VNull \<and> key_reflexive v \<and>
        (\<exists>r. hm_get (t_rows t) i = Some r \<and> hm_get (row_values r) c = Some v)"
  shows "table_inv t"
  using assms unfolding table_inv_def by auto

lemma table_invD:
  assumes "table_inv t"
  shows "hm_wf (t_rows t)"
    and "hm_get (t_rows t) i = Some r \<Longrightarrow> row_id r = i"
    and "hm_get (t_rows t) i = Some r \<Longrightarrow> row_ok r"
    and "hm_get (t_rows t) i = Some r \<Longrightarrow> i < t_next_id t"
    and "uniq_get t c v = Some i \<longleftrightarrow>
        c \<in> set (uniq_cols t) \<and> v \<noteq> VNull \<and> key_reflexive v \<and>
        (\<exists>r. hm_get (t_rows t) i = Some r \<and> hm_get (row_values r) c = Some v)"
  using assms unfolding table_inv_def by blast+

lemma table_inv_new: "table_inv (table_new s)"
  by (simp add: table_inv_def table_new_def uniq_get_def)

text \<open>Filing a new row under a free identifier, as the three insertions do.\<close>

definition file_row :: "row \<Rightarrow> in_memory_table \<Rightarrow> in_memory_table" where
  "file_row r t =
     (let t2 = index_row (uniq_cols t) (row_id r) (row_values r) t in
      t2 \<lparr> t_rows := hm_insert (row_id r) r (t_rows t2) \<rparr>)"

lemma file_row_simps [simp]:
  "t_rows (file_row r t) = hm_insert (row_id r) r (t_rows t)"
  "t_schema (file_row r t) = t_schema t" "t_next_id (file_row r t) = t_next_id t"
  by (simp_all add: file_row_def Let_def)

lemma uniq_cols_file_row [simp]: "uniq_cols (file_row r t) = uniq_cols t"
  by (simp add: uniq_cols_def)

lemma table_inv_file_row:
  assumes inv: "table_inv t" and row: "row_ok r" and id: "row_id r < n" "t_next_id t \<le> n"
    and free: "hm_get (t_rows t) (row_id r) = None"
    and chk: "check_uniq t (uniq_cols t) (row_values r) self_id = Ok u"
    and self: "self_id = None \<or> self_id = Some (row_id r)"
  shows "table_inv (file_row r (t \<lparr> t_next_id := n \<rparr>))"
proof (rule table_invI)
  let ?t = "file_row r (t \<lparr> t_next_id := n \<rparr>)"
  show "hm_wf (t_rows ?t)" using table_invD(1) [OF inv] by simp
  show "row_id r' = i \<and> row_ok r' \<and> i < t_next_id ?t" if "hm_get (t_rows ?t) i = Some r'" for i r'
    using that row id table_invD(2-4) [OF inv, of i r'] by (auto simp: hm_simps split: if_splits)
  have unowned: "uniq_get t c v = None"
    if "c \<in> set (uniq_cols t)" "hm_get (row_values r) c = Some v" "v \<noteq> VNull" for c v
  proof (cases "uniq_get t c v")
    case (Some owner)
    then have "self_id = Some owner" using chk that by (auto simp: check_uniq_Ok)
    with self have "owner = row_id r" by auto
    with Some free show ?thesis using table_invD(5) [OF inv, of c v owner] by simp
  qed
  have get: "uniq_get ?t c v =
      (if c \<in> set (uniq_cols t) \<and> hm_get (row_values r) c = Some v \<and> v \<noteq> VNull \<and> key_reflexive v
       then Some (row_id r) else uniq_get t c v)" for c v
    by (simp add: file_row_def Let_def uniq_get_index_row)
  show "uniq_get ?t c v = Some i \<longleftrightarrow>
        c \<in> set (uniq_cols ?t) \<and> v \<noteq> VNull \<and> key_reflexive v \<and>
        (\<exists>r'. hm_get (t_rows ?t) i = Some r' \<and> hm_get (row_values r') c = Some v)" for c v i
    using unowned [of c v] free table_invD(5) [OF inv, of c v i]
    by (auto simp: get hm_simps)
qed

section \<open>Every operation keeps the invariant\<close>

lemma table_insert_unchecked_cases:
  "table_insert_unchecked r t =
     (case check_uniq t (uniq_cols t) (row_values r) None of
        Inl e \<Rightarrow> (Err e, t)
      | Inr _ \<Rightarrow> (Ok (t_next_id t),
          file_row (r \<lparr> row_id := t_next_id t \<rparr>) (t \<lparr> t_next_id := t_next_id t + 1 \<rparr>)))"
  by (simp add: table_insert_unchecked_def next_row_id_def file_row_def Let_def split: sum.split)

lemma table_insert_cases:
  "table_insert r t =
     (case validate_row_values (t_schema t) (row_values r) of
        Inl e \<Rightarrow> (Err (CoreTypeError e), t)
      | Inr _ \<Rightarrow> table_insert_unchecked r t)"
  by (simp add: table_insert_def table_insert_unchecked_def split: sum.split)

lemma row_ok_id [simp]: "row_ok (r \<lparr> row_id := i \<rparr>) = row_ok r"
  by (simp add: row_ok_def)

lemma table_inv_insert_unchecked:
  assumes "table_inv t" and "row_ok r" and "t_next_id t \<noteq> - 1"
  shows "table_inv (snd (table_insert_unchecked r t))"
proof (cases "check_uniq t (uniq_cols t) (row_values r) None")
  case (Inr u)
  have free: "hm_get (t_rows t) (t_next_id t) = None"
    using table_invD(4) [OF assms(1), of "t_next_id t"] by (cases "hm_get (t_rows t) (t_next_id t)") auto
  have lt: "t_next_id t < t_next_id t + 1"
    using assms(3) by (rule word_less_plus_1)
  show ?thesis
    using table_inv_file_row [OF assms(1), of "r \<lparr> row_id := t_next_id t \<rparr>" "t_next_id t + 1" None u]
      assms(2) free lt Inr
    by (simp add: table_insert_unchecked_cases)
qed (use assms in \<open>simp add: table_insert_unchecked_cases\<close>)

lemma table_inv_insert:
  assumes "table_inv t" and "row_ok r" and "t_next_id t \<noteq> - 1"
  shows "table_inv (snd (table_insert r t))"
  using table_inv_insert_unchecked [OF assms] assms(1)
  by (simp add: table_insert_cases split: sum.split)

lemma table_inv_insert_preserving_id:
  assumes "table_inv t" and "row_ok r" and "row_id r \<noteq> - 1"
  shows "table_inv (snd (table_insert_preserving_id r t))"
proof (cases "hm_contains (t_rows t) (row_id r)")
  case False
  show ?thesis
  proof (cases "check_uniq t (uniq_cols t) (row_values r) (Some (row_id r))")
    case (Inr u)
    let ?n = "if t_next_id t \<le> row_id r then row_id r + 1 else t_next_id t"
    have "row_id r < row_id r + 1" using assms(3) by (rule word_less_plus_1)
    then have "row_id r < ?n" "t_next_id t \<le> ?n" by auto
    then have "table_inv (file_row r (t \<lparr> t_next_id := ?n \<rparr>))"
      using table_inv_file_row [OF assms(1,2), of ?n "Some (row_id r)" u] False Inr by simp
    moreover have "snd (table_insert_preserving_id r t) = file_row r (t \<lparr> t_next_id := ?n \<rparr>)"
      using False Inr by (simp add: table_insert_preserving_id_def file_row_def Let_def)
    ultimately show ?thesis by simp
  qed (use assms False in \<open>simp add: table_insert_preserving_id_def Let_def\<close>)
qed (use assms in \<open>simp add: table_insert_preserving_id_def Let_def\<close>)

lemma table_inv_take:
  assumes inv: "table_inv t"
  shows "table_inv (snd (table_take i t))"
proof (cases "hm_get (t_rows t) i")
  case (Some r)
  let ?t = "unindex_row (uniq_cols t) i (row_values r) (t \<lparr> t_rows := hm_remove i (t_rows t) \<rparr>)"
  have cols: "uniq_cols ?t = uniq_cols t" by (simp add: uniq_cols_def)
  have get: "uniq_get ?t c v = (if c \<in> set (uniq_cols t) \<and> hm_get (row_values r) c = Some v \<and>
      uniq_get t c v = Some i then None else uniq_get t c v)" for c v
    by (simp add: uniq_get_unindex_row)
  have "table_inv ?t"
  proof (rule table_invI)
    show "uniq_get ?t c v = Some j \<longleftrightarrow>
        c \<in> set (uniq_cols ?t) \<and> v \<noteq> VNull \<and> key_reflexive v \<and>
        (\<exists>r'. hm_get (t_rows ?t) j = Some r' \<and> hm_get (row_values r') c = Some v)" for c v j
      using table_invD(5) [OF inv, of c v i] table_invD(5) [OF inv, of c v j] Some
      unfolding get cols by (auto simp: hm_simps)
  qed (use table_invD(1-4) [OF inv] in \<open>auto simp: hm_simps split: if_splits\<close>)
  with Some show ?thesis by (simp add: table_take_def)
qed (use assms in \<open>simp add: table_take_def\<close>)

definition values_ok :: "row_values \<Rightarrow> bool" where
  "values_ok vals \<longleftrightarrow> hm_wf vals \<and> (\<forall>v \<in> set (hm_values vals). value_zero_ok v)"

lemma values_ok_extend:
  assumes "values_ok a" and "values_ok b"
  shows "values_ok (hm_extend a b)"
proof -
  have wf: "hm_wf (hm_extend a b)" using assms by (simp add: values_ok_def)
  have "value_zero_ok v" if "v \<in> set (hm_values (hm_extend a b))" for v
  proof -
    from that obtain k where "hm_get (hm_extend a b) k = Some v" using hm_values_get [OF wf] by blast
    then have "hm_get b k = Some v \<or> hm_get a k = Some v"
      using assms by (auto simp: hm_simps values_ok_def split: option.splits)
    then show ?thesis using assms hm_get_value unfolding values_ok_def by metis
  qed
  with wf show ?thesis by (simp add: values_ok_def)
qed

lemma row_ok_values: "row_ok r \<longleftrightarrow> values_ok (row_values r)"
  by (simp add: row_ok_def values_ok_def)

text \<open>The table an update leaves behind, when it succeeds.\<close>

definition updated_table :: "row_id \<Rightarrow> row \<Rightarrow> row_values \<Rightarrow> in_memory_table \<Rightarrow> in_memory_table" where
  "updated_table i cur vals t =
     (let new_row = cur \<lparr> row_values := hm_extend (row_values cur) vals \<rparr> in
      add_current (uniq_pairs (uniq_cols t) (row_values new_row)) i
        (drop_stale (uniq_pairs (uniq_cols t) (row_values cur)) (row_values new_row) i
           (t \<lparr> t_rows := hm_insert i new_row (t_rows t) \<rparr>)))"

lemma table_update_cases:
  "table_update i vals t =
     (case hm_get (t_rows t) i of
        None \<Rightarrow> (Err (RowNotFound i), t)
      | Some cur \<Rightarrow>
          (case check_uniq t (uniq_cols t) vals (Some i) of
             Inl e \<Rightarrow> (Err e, t)
           | Inr _ \<Rightarrow> (Ok (cur \<lparr> row_values := hm_extend (row_values cur) vals \<rparr>),
                       updated_table i cur vals t)))"
  by (simp add: table_update_def updated_table_def Let_def split: option.split sum.split)

lemma updated_table_simps [simp]:
  "t_rows (updated_table i cur vals t) =
     hm_insert i (cur \<lparr> row_values := hm_extend (row_values cur) vals \<rparr>) (t_rows t)"
  "t_schema (updated_table i cur vals t) = t_schema t"
  "t_next_id (updated_table i cur vals t) = t_next_id t"
  by (simp_all add: updated_table_def Let_def)

lemma uniq_get_updated_table:
  assumes "values_ok vals" and "values_ok (row_values cur)" and "uniq_get t c VNull = None"
  shows "uniq_get (updated_table i cur vals t) c v =
    (if c \<in> set (uniq_cols t) \<and> hm_get (hm_extend (row_values cur) vals) c = Some v \<and>
        v \<noteq> VNull \<and> key_reflexive v then Some i
     else if c \<in> set (uniq_cols t) \<and> hm_get (row_values cur) c = Some v \<and> uniq_get t c v = Some i
     then None else uniq_get t c v)"
proof -
  let ?new = "hm_extend (row_values cur) vals"
  have new_ok: "values_ok ?new" using assms values_ok_extend by blast
  have stale: "option_value_eq (hm_get ?new c) (Some v) \<longleftrightarrow> hm_get ?new c = Some v"
    if "hm_get (row_values cur) c = Some v" "key_reflexive v"
  proof -
    have "value_zero_ok v" using that assms(2) hm_get_value unfolding values_ok_def by metis
    moreover have "value_zero_ok w" if "hm_get ?new c = Some w" for w
      using that new_ok hm_get_value unfolding values_ok_def by metis
    ultimately show ?thesis
      using that(2) value_eq_zero_ok(1)
      by (auto simp: option_value_eq_def key_reflexive_def split: option.split)
  qed
  show ?thesis
    using stale uniq_get_reflexive [of t c v i] assms(3)
    by (auto simp: updated_table_def Let_def uniq_get_add_current uniq_get_drop_stale set_uniq_pairs)
qed

lemma table_inv_updated_table:
  assumes inv: "table_inv t" and row: "hm_get (t_rows t) i = Some cur" and vals: "values_ok vals"
    and chk: "check_uniq t (uniq_cols t) vals (Some i) = Ok u"
  shows "table_inv (updated_table i cur vals t)"
proof (rule table_invI)
  let ?t = "updated_table i cur vals t" and ?new = "hm_extend (row_values cur) vals"
  have cur: "values_ok (row_values cur)" "row_id cur = i" "i < t_next_id t"
    using table_invD(2-4) [OF inv row] by (auto simp: row_ok_values)
  show "hm_wf (t_rows ?t)" using table_invD(1) [OF inv] by simp
  show "row_id r = j \<and> row_ok r \<and> j < t_next_id ?t" if "hm_get (t_rows ?t) j = Some r" for j r
    using that cur values_ok_extend [OF cur(1) vals] table_invD(2-4) [OF inv, of j r]
    by (auto simp: hm_simps row_ok_values split: if_splits)
  have cols: "uniq_cols ?t = uniq_cols t" by (simp add: uniq_cols_def)
  show "uniq_get ?t c v = Some j \<longleftrightarrow>
        c \<in> set (uniq_cols ?t) \<and> v \<noteq> VNull \<and> key_reflexive v \<and>
        (\<exists>r. hm_get (t_rows ?t) j = Some r \<and> hm_get (row_values r) c = Some v)" for c v j
  proof -
    have null: "uniq_get t c VNull = None"
      using table_invD(5) [OF inv, of c VNull] by (cases "uniq_get t c VNull") auto
    note get = uniq_get_updated_table [OF vals cur(1) null]
    have owner: "uniq_get t c v = Some k \<Longrightarrow> k = i"
      if "c \<in> set (uniq_cols t)" "hm_get ?new c = Some v" "v \<noteq> VNull" "key_reflexive v" for k
    proof (cases "hm_get vals c")
      case None
      then have "hm_get (row_values cur) c = Some v"
        using that(2) vals by (simp add: hm_simps values_ok_def)
      then have "uniq_get t c v = Some i" using that row table_invD(5) [OF inv, of c v i] by auto
      then show "uniq_get t c v = Some k \<Longrightarrow> k = i" by simp
    next
      case (Some w)
      then have "w = v" using that(2) vals by (simp add: hm_simps values_ok_def)
      with Some show "uniq_get t c v = Some k \<Longrightarrow> k = i" using chk that(1,3) by (auto simp: check_uniq_Ok)
    qed
    show ?thesis
      using owner table_invD(5) [OF inv, of c v j] table_invD(5) [OF inv, of c v i] row
      unfolding get cols by (auto simp: hm_simps)
  qed
qed

lemma table_inv_update:
  assumes "table_inv t" and "values_ok vals"
  shows "table_inv (snd (table_update i vals t))"
  using assms table_inv_updated_table [OF assms(1) _ assms(2)]
  by (auto simp: table_update_cases split: option.split sum.split)

section \<open>The engine as a store of rows\<close>

lemma with_table_Ok:
  "with_table nm f e = (Ok x, e') \<longleftrightarrow>
     (\<exists>t t'. hm_get (e_tables e) nm = Some t \<and> f t = (Ok x, t') \<and>
        e' = e \<lparr> e_tables := hm_insert nm t' (e_tables e) \<rparr>)"
  by (cases "hm_get (e_tables e) nm") (auto simp: with_table_def engine_table_def split: prod.splits)

lemma with_table_Err:
  assumes "\<And>t err t'. f t = (Err err, t') \<Longrightarrow> t' = t" and "with_table nm f e = (Err err, e')"
  shows "e' = e"
proof (cases "hm_get (e_tables e) nm")
  case (Some t)
  with assms(2) obtain t' where "f t = (Err err, t')"
    and e': "e' = e \<lparr> e_tables := hm_insert nm t' (e_tables e) \<rparr>"
    by (auto simp: with_table_def engine_table_def split: prod.splits)
  then have "t' = t" using assms(1) by blast
  with Some e' show ?thesis by (simp add: hm_insert_same)
qed (use assms(2) in \<open>simp add: with_table_def engine_table_def\<close>)

lemma engine_get_eq:
  "engine_get nm i e =
     (case hm_get (e_tables e) nm of
        None \<Rightarrow> Err (TableNotFound nm) | Some t \<Rightarrow> Ok (hm_get (t_rows t) i))"
  by (auto simp: engine_get_def read_table_def engine_table_def split: option.split)

lemma engine_invD:
  "engine_inv e \<Longrightarrow> hm_get (e_tables e) nm = Some t \<Longrightarrow> table_inv t"
  "engine_inv e \<Longrightarrow> hm_get (e_tables e) nm = Some t \<Longrightarrow> ts_name (t_schema t) = nm"
  by (auto simp: engine_inv_def)

lemma engine_inv_put:
  assumes "engine_inv e" and "table_inv t'" and "ts_name (t_schema t') = nm"
  shows "engine_inv (e \<lparr> e_tables := hm_insert nm t' (e_tables e) \<rparr>)"
  using assms by (auto simp: engine_inv_def hm_simps)

text \<open>No operation on a table changes its schema.\<close>

lemma table_ops_schema [simp]:
  "t_schema (snd (table_insert_unchecked r t)) = t_schema t"
  "t_schema (snd (table_insert r t)) = t_schema t"
  "t_schema (snd (table_update i vals t)) = t_schema t"
  "t_schema (snd (table_take i t)) = t_schema t"
  "t_schema (snd (table_insert_preserving_id r t)) = t_schema t"
  by (auto simp: table_insert_cases table_insert_unchecked_cases table_update_cases table_take_def
      table_insert_preserving_id_def Let_def split: sum.split option.split)

lemma table_ops_Err:
  "table_insert_unchecked r t = (Err e, t') \<Longrightarrow> t' = t"
  "table_insert r t = (Err e, t') \<Longrightarrow> t' = t"
  "table_update i vals t = (Err e, t') \<Longrightarrow> t' = t"
  "table_take i t = (Err e, t') \<Longrightarrow> t' = t"
  "table_insert_preserving_id r t = (Err e, t') \<Longrightarrow> t' = t"
  by (auto simp: table_insert_cases table_insert_unchecked_cases table_update_cases table_take_def
      table_insert_preserving_id_def Let_def split: sum.splits option.splits if_splits)

definition id_available :: "string \<Rightarrow> engine \<Rightarrow> bool" where
  "id_available nm e =
     (case hm_get (e_tables e) nm of Some t \<Rightarrow> t_next_id t \<noteq> - 1 | None \<Rightarrow> True)"

definition insert_ok :: "string \<Rightarrow> row \<Rightarrow> engine \<Rightarrow> bool" where
  "insert_ok nm r e \<longleftrightarrow> row_ok r \<and> id_available nm e"

lemma table_insert_Ok:
  "table_insert r t = (Ok i, t') \<longleftrightarrow>
     validate_row_values (t_schema t) (row_values r) = Ok () \<and>
     check_uniq t (uniq_cols t) (row_values r) None = Ok () \<and> i = t_next_id t \<and>
     t' = file_row (r \<lparr> row_id := i \<rparr>) (t \<lparr> t_next_id := i + 1 \<rparr>)"
  by (auto simp: table_insert_cases table_insert_unchecked_cases split: sum.split)

lemma next_id_free: "table_inv t \<Longrightarrow> hm_get (t_rows t) (t_next_id t) = None"
  using table_invD(4) [of t "t_next_id t"] by (cases "hm_get (t_rows t) (t_next_id t)") auto

lemma engine_insert_Ok:
  assumes "engine_inv e" and "insert_ok nm r e" and "engine_insert nm r e = (Ok i, e')"
  shows "engine_inv e' \<and> engine_get nm i e = Ok None \<and>
    (\<forall>nm' j. engine_get nm' j e' =
       (if nm' = nm \<and> j = i then Ok (Some (r \<lparr> row_id := i \<rparr>)) else engine_get nm' j e))"
proof -
  obtain t t' where t: "hm_get (e_tables e) nm = Some t" "table_insert r t = (Ok i, t')"
    and e': "e' = e \<lparr> e_tables := hm_insert nm t' (e_tables e) \<rparr>"
    using assms(3) by (auto simp: engine_insert_def with_table_Ok)
  have inv: "table_inv t" "ts_name (t_schema t) = nm" using engine_invD [OF assms(1) t(1)] by auto
  have "table_inv t'" and "t_schema t' = t_schema t"
    using table_inv_insert [OF inv(1), of r] table_ops_schema(2) [of r t] assms(2) t
    by (auto simp: insert_ok_def id_available_def)
  then have "engine_inv e'" using engine_inv_put [OF assms(1)] inv(2) e' by simp
  then show ?thesis
    using t e' next_id_free [OF inv(1)] by (auto simp: engine_get_eq table_insert_Ok hm_simps)
qed

lemma engine_update_Ok:
  assumes "engine_inv e" and "values_ok vals" and "engine_update nm i vals e = (Ok r', e')"
  shows "engine_inv e' \<and>
    (\<exists>r. engine_get nm i e = Ok (Some r) \<and> r' = r \<lparr> row_values := hm_extend (row_values r) vals \<rparr>) \<and>
    (\<forall>nm' j. engine_get nm' j e' =
       (if nm' = nm \<and> j = i then Ok (Some r') else engine_get nm' j e))"
proof -
  obtain t t' where t: "hm_get (e_tables e) nm = Some t" "table_update i vals t = (Ok r', t')"
    and e': "e' = e \<lparr> e_tables := hm_insert nm t' (e_tables e) \<rparr>"
    using assms(3) by (auto simp: engine_update_def with_table_Ok)
  have inv: "table_inv t" "ts_name (t_schema t) = nm" using engine_invD [OF assms(1) t(1)] by auto
  have "table_inv t'" and "t_schema t' = t_schema t"
    using table_inv_update [OF inv(1) assms(2), of i] table_ops_schema(3) [of i vals t] t by auto
  then have "engine_inv e'" using engine_inv_put [OF assms(1)] inv(2) e' by simp
  then show ?thesis
    using t e' by (auto simp: engine_get_eq table_update_cases hm_simps split: option.splits sum.splits)
qed

lemma engine_delete_Ok:
  assumes "engine_inv e" and "engine_delete nm i e = (Ok b, e')"
  shows "engine_inv e' \<and> (\<exists>ro. engine_get nm i e = Ok ro \<and> (b \<longleftrightarrow> ro \<noteq> None)) \<and>
    (\<forall>nm' j. engine_get nm' j e' = (if nm' = nm \<and> j = i then Ok None else engine_get nm' j e))"
proof -
  obtain removed t t' where t: "hm_get (e_tables e) nm = Some t" "table_take i t = (Ok removed, t')"
    and e': "e' = e \<lparr> e_tables := hm_insert nm t' (e_tables e) \<rparr>" and b: "b \<longleftrightarrow> removed \<noteq> None"
    using assms(2) by (auto simp: engine_delete_def engine_take_def with_table_Ok
        split: prod.splits sum.splits)
  have inv: "table_inv t" "ts_name (t_schema t) = nm" using engine_invD [OF assms(1) t(1)] by auto
  have "table_inv t'" and "t_schema t' = t_schema t"
    using table_inv_take [OF inv(1), of i] table_ops_schema(4) [of i t] t by auto
  then have "engine_inv e'" using engine_inv_put [OF assms(1)] inv(2) e' by simp
  then show ?thesis
    using t e' b by (auto simp: engine_get_eq table_take_def hm_simps split: option.splits)
qed

lemma engine_ops_Err:
  "engine_insert nm r e = (Err err, e') \<Longrightarrow> e' = e"
  "engine_insert_unchecked nm r e = (Err err, e') \<Longrightarrow> e' = e"
  "engine_update nm i vals e = (Err err, e') \<Longrightarrow> e' = e"
  "engine_take nm i e = (Err err, e') \<Longrightarrow> e' = e"
  "engine_insert_preserving_id nm r e = (Err err, e') \<Longrightarrow> e' = e"
  unfolding engine_insert_def engine_insert_unchecked_def engine_update_def engine_take_def
    engine_insert_preserving_id_def
  by (erule with_table_Err [rotated], erule table_ops_Err)+

lemma engine_delete_Err: "engine_delete nm i e = (Err err, e') \<Longrightarrow> e' = e"
  by (auto simp: engine_delete_def dest: engine_ops_Err(4) split: prod.splits sum.splits)

interpretation engine_store: row_store engine_inv engine_insert engine_get engine_update
  engine_delete insert_ok values_ok
  by unfold_locales
    (blast dest: engine_insert_Ok engine_update_Ok engine_delete_Ok engine_ops_Err engine_delete_Err)+

section \<open>Reachable engines\<close>

datatype engine_op =
    OpCreateTable table_schema
  | OpDropTable string
  | OpInsert string row
  | OpInsertUnchecked string row
  | OpUpdate string row_id row_values
  | OpDelete string row_id
  | OpRestore string row

fun apply_op :: "engine_op \<Rightarrow> engine \<Rightarrow> engine" where
  "apply_op (OpCreateTable s) e = snd (engine_create_table s e)"
| "apply_op (OpDropTable nm) e = snd (engine_drop_table nm e)"
| "apply_op (OpInsert nm r) e = snd (engine_insert nm r e)"
| "apply_op (OpInsertUnchecked nm r) e = snd (engine_insert_unchecked nm r e)"
| "apply_op (OpUpdate nm i vals) e = snd (engine_update nm i vals e)"
| "apply_op (OpDelete nm i) e = snd (engine_delete nm i e)"
| "apply_op (OpRestore nm r) e = snd (engine_insert_preserving_id nm r e)"

text \<open>
  What is asked of a caller: the row identifiers are not exhausted, and no value holds a
  negative zero.
\<close>

fun op_ok :: "engine_op \<Rightarrow> engine \<Rightarrow> bool" where
  "op_ok (OpInsert nm r) e = insert_ok nm r e"
| "op_ok (OpInsertUnchecked nm r) e = insert_ok nm r e"
| "op_ok (OpUpdate nm i vals) e = values_ok vals"
| "op_ok (OpRestore nm r) e = (row_ok r \<and> row_id r \<noteq> - 1)"
| "op_ok _ e = True"

inductive engine_reachable :: "engine \<Rightarrow> bool" where
  reach_new: "engine_reachable engine_new"
| reach_step: "engine_reachable e \<Longrightarrow> op_ok op e \<Longrightarrow> engine_reachable (apply_op op e)"

lemma with_table_inv:
  assumes "engine_inv e"
    and "\<And>t. hm_get (e_tables e) nm = Some t \<Longrightarrow> table_inv t \<Longrightarrow>
      table_inv (snd (f t)) \<and> t_schema (snd (f t)) = t_schema t"
  shows "engine_inv (snd (with_table nm f e))"
proof (cases "hm_get (e_tables e) nm")
  case (Some t)
  note t = engine_invD [OF assms(1) Some]
  have "engine_inv (e \<lparr> e_tables := hm_insert nm (snd (f t)) (e_tables e) \<rparr>)"
    using assms(2) [OF Some t(1)] t(2) by (intro engine_inv_put [OF assms(1)]) auto
  with Some show ?thesis by (cases "f t") (simp add: with_table_def engine_table_def)
qed (use assms(1) in \<open>simp add: with_table_def engine_table_def\<close>)

lemma engine_inv_step:
  assumes inv: "engine_inv e" and ok: "op_ok op e"
  shows "engine_inv (apply_op op e)"
proof (cases op)
  case (OpCreateTable s)
  then show ?thesis
    using engine_inv_put [OF inv table_inv_new, of s] inv
    by (simp add: engine_create_table_def table_new_def)
next
  case (OpDropTable nm)
  then show ?thesis using inv
    by (auto simp: engine_drop_table_def engine_inv_def hm_simps simp del: map_of_eq_Some_iff
        split: if_splits)
next
  case (OpInsert nm r)
  then show ?thesis using inv ok
    by (auto simp: engine_insert_def insert_ok_def id_available_def intro!: with_table_inv table_inv_insert)
next
  case (OpInsertUnchecked nm r)
  then show ?thesis using inv ok
    by (auto simp: engine_insert_unchecked_def insert_ok_def id_available_def
        intro!: with_table_inv table_inv_insert_unchecked)
next
  case (OpUpdate nm i vals)
  then show ?thesis using inv ok
    by (auto simp: engine_update_def intro!: with_table_inv table_inv_update)
next
  case (OpDelete nm i)
  then have "apply_op op e = snd (engine_take nm i e)"
    by (simp add: engine_delete_def split: prod.split sum.split)
  then show ?thesis using inv by (auto simp: engine_take_def intro!: with_table_inv table_inv_take)
next
  case (OpRestore nm r)
  then show ?thesis using inv ok
    by (auto simp: engine_insert_preserving_id_def intro!: with_table_inv table_inv_insert_preserving_id)
qed

lemma engine_reachable_inv: "engine_reachable e \<Longrightarrow> engine_inv e"
  by (induction rule: engine_reachable.induct)
    (auto simp: engine_inv_step, simp add: engine_inv_def engine_new_def)

text \<open>
  C1: in every engine reached by any sequence of table and row operations, two rows of a
  table that share a value (not NULL, not NaN) in a primary-key or unique column are the same
  row.
\<close>

theorem unique_columns_unique:
  assumes "engine_reachable e" and "hm_get (e_tables e) nm = Some t" and "c \<in> set (uniq_cols t)"
    and "hm_get (t_rows t) i = Some r" and "hm_get (t_rows t) j = Some r'"
    and "hm_get (row_values r) c = Some v" and "hm_get (row_values r') c = Some v"
    and "v \<noteq> VNull" and "key_reflexive v"
  shows "i = j"
proof -
  have inv: "table_inv t" using engine_invD [OF engine_reachable_inv [OF assms(1)] assms(2)] by simp
  have "uniq_get t c v = Some i" "uniq_get t c v = Some j"
    using table_invD(5) [OF inv] assms(3-9) by auto
  then show ?thesis by simp
qed

text \<open>
  The check a full scan of the table would make. Values are compared as the index compares them: by
  their hashes and then with \<open>==\<close>. A negative zero hashes differently from zero, so it is another
  value here although \<open>==\<close> takes the two for equal; the rows of a reachable engine hold none.
\<close>

definition scan_conflict ::
  "in_memory_table \<Rightarrow> row_values \<Rightarrow> row_id option \<Rightarrow> bool" where
  "scan_conflict t vals self_id \<longleftrightarrow>
     (\<exists>c \<in> set (uniq_cols t). \<exists>v. hm_get vals c = Some v \<and> v \<noteq> VNull \<and> key_reflexive v \<and>
        (\<exists>(i, r) \<in> set (t_rows t). Some i \<noteq> self_id \<and> hm_get (row_values r) c = Some v))"

lemma check_uniq_scan:
  assumes "table_inv t"
  shows "check_uniq t (uniq_cols t) vals self_id = Ok u \<longleftrightarrow> \<not> scan_conflict t vals self_id"
  using table_invD(1) [OF assms] table_invD(5) [OF assms]
  unfolding check_uniq_Ok scan_conflict_def
  by (fastforce simp: hm_get_in_set)

text \<open>
  C2: the constant-time duplicate check of \<open>insert\<close> agrees with a scan of all rows: an
  insertion into a reachable engine's table succeeds exactly when the row passes the schema
  and no row of the table conflicts with it, and it then returns the next identifier, which
  no row has.
\<close>

theorem engine_insert_iff:
  assumes "engine_reachable e" and "hm_get (e_tables e) nm = Some t"
  shows "fst (engine_insert nm r e) = Ok i \<longleftrightarrow>
    validate_row_values (t_schema t) (row_values r) = Ok () \<and>
    \<not> scan_conflict t (row_values r) None \<and> i = t_next_id t \<and> engine_get nm i e = Ok None"
proof -
  have inv: "table_inv t" using engine_invD [OF engine_reachable_inv [OF assms(1)] assms(2)] by simp
  have "fst (engine_insert nm r e) = fst (table_insert r t)"
    using assms(2) by (simp add: engine_insert_def with_table_def engine_table_def split: prod.split)
  moreover have "fst (table_insert r t) = Ok i \<longleftrightarrow>
      validate_row_values (t_schema t) (row_values r) = Ok () \<and>
      check_uniq t (uniq_cols t) (row_values r) None = Ok () \<and> i = t_next_id t"
    using table_insert_Ok [of r t i "snd (table_insert r t)"]
    by (cases "table_insert r t") (auto simp: table_insert_cases table_insert_unchecked_cases split: sum.splits)
  ultimately show ?thesis
    using check_uniq_scan [OF inv] next_id_free [OF inv] assms(2) by (auto simp: engine_get_eq)
qed

text \<open>
  C11: \<open>lookup_by_unique\<close> returns a row exactly when the table holds one with that value in the
  column, and it is that row.
\<close>

theorem lookup_by_unique_correct:
  assumes "engine_reachable e" and "hm_get (e_tables e) nm = Some t" and "c \<in> set (uniq_cols t)"
    and "v \<noteq> VNull" and "key_reflexive v"
  shows "engine_lookup_by_unique nm c v e = Ok (Some r) \<longleftrightarrow>
    (\<exists>i. engine_get nm i e = Ok (Some r) \<and> row_get r c = Some v)"
proof -
  have inv: "table_inv t" using engine_invD [OF engine_reachable_inv [OF assms(1)] assms(2)] by simp
  have col: "list_ex (\<lambda>d. col_name d = c \<and> (primary_key d \<or> col_unique d)) (ts_columns (t_schema t))"
    using assms(3) by (auto simp: uniq_cols_def list_ex_iff)
  have "engine_lookup_by_unique nm c v e =
      (case uniq_get t c v of Some rid \<Rightarrow> Ok (hm_get (t_rows t) rid) | None \<Rightarrow> Ok None)"
    using assms(2,4) col
    by (simp add: engine_lookup_by_unique_def read_table_def engine_table_def
        table_lookup_by_unique_def is_null_def uniq_get_def)
  moreover have "uniq_get t c v = Some i \<longleftrightarrow>
      (\<exists>r. engine_get nm i e = Ok (Some r) \<and> row_get r c = Some v)" for i
    using table_invD(5) [OF inv, of c v i] assms(2-5) by (auto simp: engine_get_eq row_get_def)
  moreover have "engine_get nm i e = Ok (hm_get (t_rows t) i)" for i
    using assms(2) by (simp add: engine_get_eq)
  ultimately show ?thesis
    by (cases "uniq_get t c v")
      (simp_all del: map_of_eq_Some_iff, metis option.inject, metis option.inject sum.inject(2))
qed

text \<open>
  C10: an update that succeeds merges the given columns into the row and leaves every other
  row of every table as it was; one that fails (no such table or row, duplicate key) leaves
  the engine unchanged.
\<close>

theorem engine_update_effect:
  assumes "engine_reachable e" and "values_ok vals"
  shows "case engine_update nm i vals e of
      (Inl err, e') \<Rightarrow> e' = e
    | (Inr r', e') \<Rightarrow>
        (\<exists>r. engine_get nm i e = Ok (Some r) \<and>
           (\<forall>c. row_get r' c = (case hm_get vals c of Some v \<Rightarrow> Some v | None \<Rightarrow> row_get r c))) \<and>
        engine_get nm i e' = Ok (Some r') \<and>
        (\<forall>nm' j. (nm', j) \<noteq> (nm, i) \<longrightarrow> engine_get nm' j e' = engine_get nm' j e)"
proof (cases "engine_update nm i vals e")
  case (Pair res e')
  show ?thesis
  proof (cases res)
    case (Inr r')
    have "hm_wf vals" using assms(2) by (simp add: values_ok_def)
    with Pair Inr show ?thesis
      using engine_update_Ok [OF engine_reachable_inv [OF assms(1)] assms(2), of nm i r' e']
      by (auto simp: row_get_def hm_simps split: option.split)
  qed (use Pair engine_ops_Err(3) in auto)
qed

text \<open>
  a restored row keeps its identifier, and identifiers handed out later lie above it; an
  identifier that is taken is refused.
\<close>

theorem restore_preserves_id:
  assumes "engine_reachable e" and "hm_get (e_tables e) nm = Some t" and "row_id r \<noteq> - 1"
  shows "case engine_insert_preserving_id nm r e of
      (Inl err, e') \<Rightarrow> e' = e \<and>
        (hm_contains (t_rows t) (row_id r) \<or> scan_conflict t (row_values r) (Some (row_id r)))
    | (Inr i, e') \<Rightarrow> i = row_id r \<and> engine_get nm i e = Ok None \<and> engine_get nm i e' = Ok (Some r) \<and>
        (\<exists>t'. hm_get (e_tables e') nm = Some t' \<and> i < t_next_id t' \<and> t_next_id t \<le> t_next_id t')"
proof -
  have inv: "table_inv t" using engine_invD [OF engine_reachable_inv [OF assms(1)] assms(2)] by simp
  have lt: "row_id r < row_id r + 1" using assms(3) by (rule word_less_plus_1)
  have "check_uniq t (uniq_cols t) (row_values r) (Some (row_id r)) = Ok () \<or>
      scan_conflict t (row_values r) (Some (row_id r))"
    using check_uniq_scan [OF inv] by blast
  then show ?thesis
    using assms(2) lt
    by (auto simp: engine_insert_preserving_id_def with_table_def engine_table_def
        table_insert_preserving_id_def Let_def engine_get_eq hm_simps hm_insert_same
        simp del: map_of_eq_Some_iff split: sum.split)
qed

section \<open>A concrete engine\<close>

definition demo_schema :: table_schema where
  "demo_schema = build_schema 1 ''users''
     [column_primary_key (column_new ''id'' TInt64), column_unique (column_new ''score'' TFloat64)]"

definition demo_row :: "i64 \<Rightarrow> f64 \<Rightarrow> row" where
  "demo_row n x = \<lparr> row_id = 0, row_values = [(''id'', VInt64 n), (''score'', VFloat64 x)] \<rparr>"

definition demo_table :: in_memory_table where
  "demo_table = snd (table_insert (demo_row 7 0) (table_new demo_schema))"

definition demo_engine :: engine where
  "demo_engine = \<lparr> e_tables = [(''users'', demo_table)] \<rparr>"

lemma demo_row_ok: "x \<noteq> 0x8000000000000000 \<Longrightarrow> row_ok (demo_row n x)"
  by (simp add: demo_row_def row_ok_def)

lemma demo_engine_ops:
  "demo_engine = apply_op (OpInsert ''users'' (demo_row 7 0)) (apply_op (OpCreateTable demo_schema) engine_new)"
  by code_simp

lemma demo_engine_reachable: "engine_reachable demo_engine"
  unfolding demo_engine_ops
proof (intro reach_step reach_new)
  show "op_ok (OpCreateTable demo_schema) engine_new" by simp
  have "id_available ''users'' (apply_op (OpCreateTable demo_schema) engine_new)" by code_simp
  then show "op_ok (OpInsert ''users'' (demo_row 7 0)) (apply_op (OpCreateTable demo_schema) engine_new)"
    using demo_row_ok [of 0 7] by (simp add: insert_ok_def)
qed

lemma demo_engine_table: "hm_get (e_tables demo_engine) ''users'' = Some demo_table"
  by (simp add: demo_engine_def)

lemma demo_table_row: "hm_get (t_rows demo_table) 1 = Some ((demo_row 7 0) \<lparr> row_id := 1 \<rparr>)"
  by code_simp

lemma demo_uniq_cols: "uniq_cols demo_table = [''id'', ''score'']"
  by code_simp

theorem unique_columns_unique_witness:
  "{j. \<exists>r. hm_get (t_rows demo_table) j = Some r \<and> hm_get (row_values r) ''id'' = Some (VInt64 7)} \<subseteq> {1}"
  using unique_columns_unique [OF demo_engine_reachable demo_engine_table, of "''id''" 1
      "(demo_row 7 0) \<lparr> row_id := 1 \<rparr>"] demo_table_row
  by (auto simp: demo_uniq_cols demo_row_def key_reflexive_def simp del: map_of_eq_Some_iff)

theorem engine_insert_iff_witness:
  "fst (engine_insert ''users'' (demo_row 8 1) demo_engine) = Ok 2"
proof -
  have "validate_row_values (t_schema demo_table) (row_values (demo_row 8 1)) = Ok ()" by code_simp
  moreover have "check_uniq demo_table (uniq_cols demo_table) (row_values (demo_row 8 1)) None = Ok ()"
    by code_simp
  moreover have "t_next_id demo_table = 2" by code_simp
  moreover have "table_inv demo_table"
    using engine_invD [OF engine_reachable_inv [OF demo_engine_reachable] demo_engine_table] by simp
  ultimately show ?thesis
    using engine_insert_iff [OF demo_engine_reachable demo_engine_table, of "demo_row 8 1" 2]
      check_uniq_scan [of demo_table] next_id_free [of demo_table] demo_engine_table
    by (simp add: engine_get_eq)
qed

theorem lookup_by_unique_correct_witness:
  "engine_lookup_by_unique ''users'' ''id'' (VInt64 7) demo_engine =
     Ok (Some ((demo_row 7 0) \<lparr> row_id := 1 \<rparr>))"
  using lookup_by_unique_correct [OF demo_engine_reachable demo_engine_table, of "''id''" "VInt64 7"
      "(demo_row 7 0) \<lparr> row_id := 1 \<rparr>"] demo_table_row demo_engine_table
  by (auto simp: demo_uniq_cols key_reflexive_def engine_get_eq row_get_def demo_row_def)

theorem engine_update_effect_witness:
  "case engine_update ''users'' 1 [(''score'', VFloat64 5)] demo_engine of
      (Inl err, e') \<Rightarrow> e' = demo_engine
    | (Inr r', e') \<Rightarrow> engine_get ''users'' 1 e' = Ok (Some r')"
  using engine_update_effect [OF demo_engine_reachable, of "[(''score'', VFloat64 5)]" "''users''" 1]
  by (simp add: values_ok_def split: prod.splits sum.splits)

theorem restore_preserves_id_witness:
  "case engine_insert_preserving_id ''users'' ((demo_row 9 3) \<lparr> row_id := 40 \<rparr>) demo_engine of
      (Inl err, e') \<Rightarrow> e' = demo_engine
    | (Inr i, e') \<Rightarrow> i = 40"
  using restore_preserves_id [OF demo_engine_reachable demo_engine_table, of "(demo_row 9 3) \<lparr> row_id := 40 \<rparr>"]
  by (auto simp: demo_row_def split: prod.splits sum.splits)

section \<open>The two zeros\<close>

text \<open>
  updating a unique float column from \<open>0.0\<close> to \<open>-0.0\<close> leaves the entry of \<open>0.0\<close> in the
  index: after the row is deleted the table is empty, and still refuses a new row with \<open>0.0\<close>
  as a duplicate.
\<close>

theorem negative_zero_leaves_stale_entry:
  "let (u, e1) = engine_update ''users'' 1 [(''score'', VFloat64 0x8000000000000000)] demo_engine;
       (d, e2) = engine_delete ''users'' 1 e1
   in is_ok u \<and> d = Ok True \<and> engine_count ''users'' e2 = Ok 0 \<and>
      fst (engine_insert ''users'' (demo_row 7 0) e2) = Err (DuplicateKey (DupColumn ''score'' (VFloat64 0)))"
  by code_simp

end
