(* ===== verification/Memory_Store.thy ===== *)
theory Memory_Store
  imports Core_Table
begin

text \<open>
  The high-level table of \<open>blitz-table/src/table.rs\<close>, a wrapper of an engine with one table,
  and the simpler store of \<open>blitz-memory/src/store.rs\<close>, which keeps no unique indexes. Both
  meet the contract of a store of rows.
\<close>

section \<open>The table wrapper\<close>

record table =
  tb_engine :: engine
  tb_name :: string

datatype table_error = TableCoreError core_error

definition tb_with_schema :: "table_schema \<Rightarrow> table" where
  "tb_with_schema s = \<lparr> tb_engine = snd (engine_create_table s engine_new), tb_name = ts_name s \<rparr>"

definition tb_new :: "table_id \<Rightarrow> string \<Rightarrow> table" where
  "tb_new tid nm = tb_with_schema (schema_new tid nm)"

definition tb_insert :: "row \<Rightarrow> table \<Rightarrow> (table_error + row_id) \<times> table" where
  "tb_insert r t =
     (let (res, e) = engine_insert (tb_name t) r (tb_engine t) in
      (map_err TableCoreError res, t \<lparr> tb_engine := e \<rparr>))"

definition tb_get :: "row_id \<Rightarrow> table \<Rightarrow> table_error + row option" where
  "tb_get i t = map_err TableCoreError (engine_get (tb_name t) i (tb_engine t))"

definition tb_update :: "row_id \<Rightarrow> row_values \<Rightarrow> table \<Rightarrow> (table_error + row) \<times> table" where
  "tb_update i vals t =
     (let (res, e) = engine_update (tb_name t) i vals (tb_engine t) in
      (map_err TableCoreError res, t \<lparr> tb_engine := e \<rparr>))"

definition tb_delete :: "row_id \<Rightarrow> table \<Rightarrow> (table_error + bool) \<times> table" where
  "tb_delete i t =
     (let (res, e) = engine_delete (tb_name t) i (tb_engine t) in
      (map_err TableCoreError res, t \<lparr> tb_engine := e \<rparr>))"

definition tb_scan :: "table \<Rightarrow> table_error + row list" where
  "tb_scan t = map_err TableCoreError (engine_scan (tb_name t) (tb_engine t))"

definition tb_count :: "table \<Rightarrow> table_error + nat" where
  "tb_count t = map_err TableCoreError (engine_count (tb_name t) (tb_engine t))"

definition tb_schema :: "table \<Rightarrow> table_error + table_schema" where
  "tb_schema t = map_err TableCoreError (engine_schema (tb_name t) (tb_engine t))"

lemma tb_with_schema_table:
  "hm_get (e_tables (tb_engine (tb_with_schema s))) (tb_name (tb_with_schema s)) = Some (table_new s)"
  by (simp add: tb_with_schema_def engine_create_table_def engine_new_def)

section \<open>The memory store\<close>

datatype store_error =
    StoreTableExists string
  | StoreTableNotFound string
  | StoreRowNotFound u64
  | StoreTypeError type_error

record table_data =
  td_schema :: table_schema
  td_rows :: "(row_id, row) hmap"
  td_next_id :: u64

record memory_store =
  ms_tables :: "(string, table_data) hmap"

definition ms_new :: memory_store where
  "ms_new = \<lparr> ms_tables = [] \<rparr>"

definition ms_create_table :: "table_schema \<Rightarrow> memory_store \<Rightarrow> (store_error + unit) \<times> memory_store" where
  "ms_create_table s m =
     (if hm_contains (ms_tables m) (ts_name s) then (Err (StoreTableExists (ts_name s)), m)
      else (Ok (), m \<lparr> ms_tables := hm_insert (ts_name s)
                        \<lparr> td_schema = s, td_rows = [], td_next_id = 1 \<rparr> (ms_tables m) \<rparr>))"

definition ms_drop_table :: "string \<Rightarrow> memory_store \<Rightarrow> (store_error + unit) \<times> memory_store" where
  "ms_drop_table nm m =
     (if hm_contains (ms_tables m) nm then (Ok (), m \<lparr> ms_tables := hm_remove nm (ms_tables m) \<rparr>)
      else (Err (StoreTableNotFound nm), m))"

definition ms_table_exists :: "string \<Rightarrow> memory_store \<Rightarrow> bool" where
  "ms_table_exists nm m \<longleftrightarrow> hm_contains (ms_tables m) nm"

definition ms_schema :: "string \<Rightarrow> memory_store \<Rightarrow> store_error + table_schema" where
  "ms_schema nm m = ok_or (StoreTableNotFound nm) (map_option td_schema (hm_get (ms_tables m) nm))"

definition ms_put :: "string \<Rightarrow> table_data \<Rightarrow> memory_store \<Rightarrow> memory_store" where
  "ms_put nm t m = m \<lparr> ms_tables := hm_insert nm t (ms_tables m) \<rparr>"

definition ms_insert :: "string \<Rightarrow> row \<Rightarrow> memory_store \<Rightarrow> (store_error + row_id) \<times> memory_store" where
  "ms_insert nm r m =
     (case hm_get (ms_tables m) nm of
        None \<Rightarrow> (Err (StoreTableNotFound nm), m)
      | Some t \<Rightarrow>
          (case validate_row_values (td_schema t) (row_values r) of
             Inl e \<Rightarrow> (Err (StoreTypeError e), m)
           | Inr _ \<Rightarrow>
               (let i = td_next_id t in
                (Ok i, ms_put nm (t \<lparr> td_next_id := i + 1,
                   td_rows := hm_insert i (r \<lparr> row_id := i \<rparr>) (td_rows t) \<rparr>) m))))"

definition ms_get :: "string \<Rightarrow> row_id \<Rightarrow> memory_store \<Rightarrow> store_error + row option" where
  "ms_get nm i m =
     (case hm_get (ms_tables m) nm of
        None \<Rightarrow> Err (StoreTableNotFound nm)
      | Some t \<Rightarrow> Ok (hm_get (td_rows t) i))"

definition ms_update ::
  "string \<Rightarrow> row_id \<Rightarrow> row_values \<Rightarrow> memory_store \<Rightarrow> (store_error + row) \<times> memory_store" where
  "ms_update nm i vals m =
     (case hm_get (ms_tables m) nm of
        None \<Rightarrow> (Err (StoreTableNotFound nm), m)
      | Some t \<Rightarrow>
          (case hm_get (td_rows t) i of
             None \<Rightarrow> (Err (StoreRowNotFound i), m)
           | Some r \<Rightarrow>
               (let r' = r \<lparr> row_values := hm_extend (row_values r) vals \<rparr> in
                (Ok r', ms_put nm (t \<lparr> td_rows := hm_insert i r' (td_rows t) \<rparr>) m))))"

definition ms_delete :: "string \<Rightarrow> row_id \<Rightarrow> memory_store \<Rightarrow> (store_error + bool) \<times> memory_store" where
  "ms_delete nm i m =
     (case hm_get (ms_tables m) nm of
        None \<Rightarrow> (Err (StoreTableNotFound nm), m)
      | Some t \<Rightarrow>
          (Ok (hm_contains (td_rows t) i), ms_put nm (t \<lparr> td_rows := hm_remove i (td_rows t) \<rparr>) m))"

definition ms_scan :: "string \<Rightarrow> memory_store \<Rightarrow> store_error + row list" where
  "ms_scan nm m =
     (case hm_get (ms_tables m) nm of
        None \<Rightarrow> Err (StoreTableNotFound nm)
      | Some t \<Rightarrow> Ok (hm_values (td_rows t)))"

definition ms_count :: "string \<Rightarrow> memory_store \<Rightarrow> store_error + nat" where
  "ms_count nm m =
     (case hm_get (ms_tables m) nm of
        None \<Rightarrow> Err (StoreTableNotFound nm)
      | Some t \<Rightarrow> Ok (length (td_rows t)))"

section \<open>The memory store as a store of rows\<close>

definition ms_inv :: "memory_store \<Rightarrow> bool" where
  "ms_inv m \<longleftrightarrow>
     (\<forall>nm t. hm_get (ms_tables m) nm = Some t \<longrightarrow>
        hm_wf (td_rows t) \<and>
        (\<forall>i r. hm_get (td_rows t) i = Some r \<longrightarrow> row_id r = i \<and> i < td_next_id t))"

definition ms_insert_ok :: "string \<Rightarrow> row \<Rightarrow> memory_store \<Rightarrow> bool" where
  "ms_insert_ok nm r m =
     (case hm_get (ms_tables m) nm of Some t \<Rightarrow> td_next_id t \<noteq> - 1 | None \<Rightarrow> True)"

lemma ms_inv_put:
  assumes "ms_inv m" and "hm_wf (td_rows t)"
    and "\<And>i r. hm_get (td_rows t) i = Some r \<Longrightarrow> row_id r = i \<and> i < td_next_id t"
  shows "ms_inv (ms_put nm t m)"
  using assms by (auto simp: ms_inv_def ms_put_def hm_simps)

lemma ms_invD:
  assumes "ms_inv m" and "hm_get (ms_tables m) nm = Some t"
  shows "hm_wf (td_rows t)"
    and "hm_get (td_rows t) i = Some r \<Longrightarrow> row_id r = i \<and> i < td_next_id t"
  using assms by (auto simp: ms_inv_def)

lemma ms_get_put:
  "ms_get nm' j (ms_put nm t m) = (if nm' = nm then Ok (hm_get (td_rows t) j) else ms_get nm' j m)"
  by (simp add: ms_get_def ms_put_def hm_simps)

lemma ms_insert_Ok:
  assumes "ms_inv m" and "ms_insert_ok nm r m" and "ms_insert nm r m = (Ok i, m')"
  shows "ms_inv m' \<and> ms_get nm i m = Ok None \<and>
    (\<forall>nm' j. ms_get nm' j m' =
       (if nm' = nm \<and> j = i then Ok (Some (r \<lparr> row_id := i \<rparr>)) else ms_get nm' j m))"
proof -
  obtain t where t: "hm_get (ms_tables m) nm = Some t" and i: "i = td_next_id t"
    and m': "m' = ms_put nm (t \<lparr> td_next_id := i + 1,
        td_rows := hm_insert i (r \<lparr> row_id := i \<rparr>) (td_rows t) \<rparr>) m"
    using assms(3) by (auto simp: ms_insert_def Let_def split: option.splits sum.splits)
  note inv = ms_invD [OF assms(1) t]
  have lt: "i < i + 1" using assms(2) t i by (auto simp: ms_insert_ok_def intro: word_less_plus_1)
  have free: "hm_get (td_rows t) i = None"
    using inv(2) [of i] i by (cases "hm_get (td_rows t) i") auto
  have "ms_inv m'" unfolding m'
    using inv i lt by (intro ms_inv_put [OF assms(1)])
      (auto simp: hm_simps simp del: map_of_eq_Some_iff split: if_splits dest!: inv(2) intro: less_trans)
  then show ?thesis
    using t free unfolding m' by (auto simp: ms_get_put hm_simps ms_get_def [of nm])
qed

lemma ms_update_Ok:
  assumes "ms_inv m" and "ms_update nm i vals m = (Ok r', m')"
  shows "ms_inv m' \<and>
    (\<exists>r. ms_get nm i m = Ok (Some r) \<and> r' = r \<lparr> row_values := hm_extend (row_values r) vals \<rparr>) \<and>
    (\<forall>nm' j. ms_get nm' j m' = (if nm' = nm \<and> j = i then Ok (Some r') else ms_get nm' j m))"
proof -
  obtain t r where t: "hm_get (ms_tables m) nm = Some t" "hm_get (td_rows t) i = Some r"
    and r': "r' = r \<lparr> row_values := hm_extend (row_values r) vals \<rparr>"
    and m': "m' = ms_put nm (t \<lparr> td_rows := hm_insert i r' (td_rows t) \<rparr>) m"
    using assms(2) by (auto simp: ms_update_def Let_def split: option.splits)
  note inv = ms_invD [OF assms(1) t(1)]
  have "ms_inv m'" unfolding m'
    using inv t(2) r' by (intro ms_inv_put [OF assms(1)])
      (auto simp: hm_simps simp del: map_of_eq_Some_iff split: if_splits)
  then show ?thesis
    using t r' unfolding m' by (auto simp: ms_get_put hm_simps ms_get_def [of nm])
qed

lemma ms_delete_Ok:
  assumes "ms_inv m" and "ms_delete nm i m = (Ok b, m')"
  shows "ms_inv m' \<and> (\<exists>ro. ms_get nm i m = Ok ro \<and> (b \<longleftrightarrow> ro \<noteq> None)) \<and>
    (\<forall>nm' j. ms_get nm' j m' = (if nm' = nm \<and> j = i then Ok None else ms_get nm' j m))"
proof -
  obtain t where t: "hm_get (ms_tables m) nm = Some t" and b: "b \<longleftrightarrow> hm_contains (td_rows t) i"
    and m': "m' = ms_put nm (t \<lparr> td_rows := hm_remove i (td_rows t) \<rparr>) m"
    using assms(2) by (auto simp: ms_delete_def split: option.splits)
  note inv = ms_invD [OF assms(1) t]
  have "ms_inv m'" unfolding m'
    using inv by (intro ms_inv_put [OF assms(1)])
      (auto simp: hm_simps simp del: map_of_eq_Some_iff split: if_splits)
  then show ?thesis
    using t b unfolding m' by (auto simp: ms_get_put hm_simps ms_get_def [of nm])
qed

lemma ms_ops_Err:
  "ms_insert nm r m = (Err e, m') \<Longrightarrow> m' = m" "ms_update nm i vals m = (Err e, m') \<Longrightarrow> m' = m"
  "ms_delete nm i m = (Err e, m') \<Longrightarrow> m' = m"
  by (auto simp: ms_insert_def ms_update_def ms_delete_def Let_def split: option.splits sum.splits)

interpretation memory_rows: row_store ms_inv ms_insert ms_get ms_update ms_delete ms_insert_ok
  "\<lambda>_. True"
  by unfold_locales (blast dest: ms_insert_Ok ms_update_Ok ms_delete_Ok ms_ops_Err)+

end
