(* ===== verification/Transactions.thy ===== *)
theory Transactions
  imports Core_Table
begin

text \<open>
  Transactions (\<open>blitz-tx/src/transaction.rs\<close>) and the manager that commits them with
  optimistic concurrency control (\<open>blitz-tx/src/manager.rs\<close>). A commit here is one
  step: locks, validation, application and version stamps together, as a caller sees it whose
  commit no other thread interrupts. In the code the steps of a commit interleave with those of
  other threads, and beginning a transaction takes no lock: \<open>Tx_Interleaving\<close> has the phases and
  the locks, \<open>Tx_Threads\<close> and \<open>Tx_Reads\<close> what holds under every interleaving. Lock poisoning, which needs a panic elsewhere, is not modelled.
\<close>

section \<open>Transactions\<close>

datatype isolation_level = ReadUncommitted | ReadCommitted | RepeatableRead | Serializable

datatype tx_state = Active | Committed | RolledBack

datatype write_op =
    WInsert string row
  | WUpdate string row_id row_values
  | WDelete string row_id

datatype conflict = ReadWriteConflict string row_id tx_id | WriteWriteConflict tx_id

datatype tx_error =
    TxNotActive
  | Conflict conflict
  | TxCoreError core_error

type_synonym row_key = "string \<times> row_id"

record transaction =
  tx_id :: tx_id
  tx_state :: tx_state
  tx_isolation :: isolation_level
  tx_writes :: "write_op list"
  tx_read_set :: "(string \<times> row_id \<times> u64) list"
  tx_start_seq :: u64

definition tx_new :: "tx_id \<Rightarrow> isolation_level \<Rightarrow> transaction" where
  "tx_new i lvl =
     \<lparr> tx_id = i, tx_state = Active, tx_isolation = lvl, tx_writes = [], tx_read_set = [],
       tx_start_seq = 0 \<rparr>"

definition tx_is_active :: "transaction \<Rightarrow> bool" where
  "tx_is_active tx \<longleftrightarrow> tx_state tx = Active"

definition tx_push :: "write_op \<Rightarrow> transaction \<Rightarrow> (tx_error + unit) \<times> transaction" where
  "tx_push w tx =
     (if \<not> tx_is_active tx then (Err TxNotActive, tx)
      else (Ok (), tx \<lparr> tx_writes := tx_writes tx @ [w] \<rparr>))"

definition tx_insert :: "string \<Rightarrow> row \<Rightarrow> transaction \<Rightarrow> (tx_error + unit) \<times> transaction" where
  "tx_insert t r = tx_push (WInsert t r)"

definition tx_update ::
  "string \<Rightarrow> row_id \<Rightarrow> row_values \<Rightarrow> transaction \<Rightarrow> (tx_error + unit) \<times> transaction" where
  "tx_update t i vals = tx_push (WUpdate t i vals)"

definition tx_delete :: "string \<Rightarrow> row_id \<Rightarrow> transaction \<Rightarrow> (tx_error + unit) \<times> transaction" where
  "tx_delete t i = tx_push (WDelete t i)"

definition tx_record_read :: "string \<Rightarrow> row_id \<Rightarrow> u64 \<Rightarrow> transaction \<Rightarrow> transaction" where
  "tx_record_read t i v tx = tx \<lparr> tx_read_set := tx_read_set tx @ [(t, i, v)] \<rparr>"

definition tx_commit :: "transaction \<Rightarrow> (tx_error + unit) \<times> transaction" where
  "tx_commit tx =
     (if \<not> tx_is_active tx then (Err TxNotActive, tx)
      else (Ok (), tx \<lparr> tx_state := Committed \<rparr>))"

definition tx_rollback :: "transaction \<Rightarrow> (tx_error + unit) \<times> transaction" where
  "tx_rollback tx =
     (if \<not> tx_is_active tx then (Err TxNotActive, tx)
      else (Ok (), tx \<lparr> tx_state := RolledBack, tx_writes := [] \<rparr>))"

definition tx_has_writes :: "transaction \<Rightarrow> bool" where
  "tx_has_writes tx \<longleftrightarrow> tx_writes tx \<noteq> []"

section \<open>The manager\<close>

text \<open>The stripe of a row key; \<open>hash\<close> is what \<open>DefaultHasher\<close> computes for it.\<close>

definition STRIPE_COUNT :: nat where
  "STRIPE_COUNT = 1024"

definition stripe_index :: "(string \<Rightarrow> row_id \<Rightarrow> u64) \<Rightarrow> string \<Rightarrow> row_id \<Rightarrow> nat" where
  "stripe_index hash t i = unat (and (hash t i) (of_nat (STRIPE_COUNT - 1)))"

record tx_manager =
  tm_engine :: engine
  tm_next_tx_id :: u64
  tm_commit_seq :: u64
  tm_versions :: "(row_key, u64) hmap"

definition tm_new :: "engine \<Rightarrow> tx_manager" where
  "tm_new e = \<lparr> tm_engine = e, tm_next_tx_id = 1, tm_commit_seq = 0, tm_versions = [] \<rparr>"

definition tm_begin :: "isolation_level \<Rightarrow> tx_manager \<Rightarrow> transaction \<times> tx_manager" where
  "tm_begin lvl m =
     ((tx_new (tm_next_tx_id m) lvl) \<lparr> tx_start_seq := tm_commit_seq m \<rparr>,
      m \<lparr> tm_next_tx_id := tm_next_tx_id m + 1 \<rparr>)"

definition current_version :: "tx_manager \<Rightarrow> string \<Rightarrow> row_id \<Rightarrow> u64" where
  "current_version m t i = (case hm_get (tm_versions m) (t, i) of Some v \<Rightarrow> v | None \<Rightarrow> 0)"

text \<open>The newest buffered update or deletion of a row.\<close>

fun write_key :: "write_op \<Rightarrow> row_key option" where
  "write_key (WInsert t r) = None"
| "write_key (WUpdate t i vals) = Some (t, i)"
| "write_key (WDelete t i) = Some (t, i)"

definition newest_write :: "transaction \<Rightarrow> string \<Rightarrow> row_id \<Rightarrow> write_op option" where
  "newest_write tx t i = find (\<lambda>w. write_key w = Some (t, i)) (rev (tx_writes tx))"

definition tm_get ::
  "tx_manager \<Rightarrow> string \<Rightarrow> row_id \<Rightarrow> transaction \<Rightarrow> (tx_error + row option) \<times> transaction" where
  "tm_get m t i tx =
     (if \<not> tx_is_active tx then (Err TxNotActive, tx)
      else
        (let v = current_version m t i; tx' = tx_record_read t i v tx in
         case newest_write tx t i of
           Some (WDelete _ _) \<Rightarrow> (Ok None, tx')
         | Some (WUpdate _ _ vals) \<Rightarrow>
             (case engine_get t i (tm_engine m) of
                Inl e \<Rightarrow> (Err (TxCoreError e), tx)
              | Inr None \<Rightarrow> (Err (TxCoreError (RowNotFound i)), tx)
              | Inr (Some base) \<Rightarrow>
                  (Ok (Some (base \<lparr> row_values := hm_extend (row_values base) vals \<rparr>)), tx'))
         | _ \<Rightarrow>
             (case engine_get t i (tm_engine m) of
                Inl e \<Rightarrow> (Err (TxCoreError e), tx)
              | Inr r \<Rightarrow> (Ok r, tx'))))"

text \<open>\<open>Serializable\<close> and \<open>RepeatableRead\<close> validate what they read.\<close>

definition validates_reads :: "isolation_level \<Rightarrow> bool" where
  "validates_reads lvl \<longleftrightarrow> lvl = Serializable \<or> lvl = RepeatableRead"

text \<open>The stripes a commit locks, in the order it locks them.\<close>

definition commit_stripes :: "(string \<Rightarrow> row_id \<Rightarrow> u64) \<Rightarrow> transaction \<Rightarrow> nat list" where
  "commit_stripes hash tx =
     (let ws = List.map_filter (\<lambda>w. map_option (\<lambda>(t, i). stripe_index hash t i) (write_key w))
                 (tx_writes tx);
          rs = (if validates_reads (tx_isolation tx)
                then map (\<lambda>(t, i, _). stripe_index hash t i) (tx_read_set tx) else []) in
      remdups_adj (sort (ws @ rs)))"

definition stale_read :: "tx_manager \<Rightarrow> transaction \<Rightarrow> (string \<times> row_id \<times> u64) option" where
  "stale_read m tx = find (\<lambda>(t, i, v). current_version m t i \<noteq> v) (tx_read_set tx)"

definition write_conflict :: "tx_manager \<Rightarrow> transaction \<Rightarrow> write_op \<Rightarrow> bool" where
  "write_conflict m tx w =
     (case write_key w of
        None \<Rightarrow> False
      | Some k \<Rightarrow> (case hm_get (tm_versions m) k of None \<Rightarrow> False | Some v \<Rightarrow> tx_start_seq tx < v))"

definition tm_validate :: "tx_manager \<Rightarrow> transaction \<Rightarrow> conflict option" where
  "tm_validate m tx =
     (case (if validates_reads (tx_isolation tx) then stale_read m tx else None) of
        Some (t, i, _) \<Rightarrow> Some (ReadWriteConflict t i (tx_id tx))
      | None \<Rightarrow>
          if list_ex (write_conflict m tx) (tx_writes tx) then Some (WriteWriteConflict (tx_id tx))
          else None)"

text \<open>One buffered write, applied to the engine.\<close>

fun apply_write :: "write_op \<Rightarrow> engine \<Rightarrow> (core_error + row_key) \<times> engine" where
  "apply_write (WInsert t r) e =
     (case engine_insert t r e of (Inl err, e') \<Rightarrow> (Err err, e') | (Inr i, e') \<Rightarrow> (Ok (t, i), e'))"
| "apply_write (WUpdate t i vals) e =
     (case engine_update t i vals e of (Inl err, e') \<Rightarrow> (Err err, e') | (Inr _, e') \<Rightarrow> (Ok (t, i), e'))"
| "apply_write (WDelete t i) e =
     (case engine_delete t i e of (Inl err, e') \<Rightarrow> (Err err, e') | (Inr _, e') \<Rightarrow> (Ok (t, i), e'))"

fun apply_writes ::
  "write_op list \<Rightarrow> row_key list \<Rightarrow> engine \<Rightarrow> (core_error + row_key list) \<times> engine" where
  "apply_writes [] touched e = (Ok touched, e)"
| "apply_writes (w # ws) touched e =
     (case apply_write w e of
        (Inl err, e') \<Rightarrow> (Err err, e')
      | (Inr k, e') \<Rightarrow> apply_writes ws (touched @ [k]) e')"

definition stamp_versions :: "row_key list \<Rightarrow> u64 \<Rightarrow> (row_key, u64) hmap \<Rightarrow> (row_key, u64) hmap" where
  "stamp_versions touched seq vs = fold (\<lambda>k. hm_insert k seq) touched vs"

definition tm_commit ::
  "transaction \<Rightarrow> tx_manager \<Rightarrow> (tx_error + row_key list) \<times> transaction \<times> tx_manager" where
  "tm_commit tx m =
     (if \<not> tx_is_active tx then (Err TxNotActive, tx, m)
      else if \<not> tx_has_writes tx then (Ok [], snd (tx_commit tx), m)
      else
        (case tm_validate m tx of
           Some c \<Rightarrow> (Err (Conflict c), snd (tx_rollback tx), m)
         | None \<Rightarrow>
             (let seq = tm_commit_seq m + 1;
                  tx1 = tx \<lparr> tx_writes := [] \<rparr>;
                  m1 = m \<lparr> tm_commit_seq := seq \<rparr> in
              case apply_writes (tx_writes tx) [] (tm_engine m) of
                (Inl err, e') \<Rightarrow> (Err (TxCoreError err), tx1, m1 \<lparr> tm_engine := e' \<rparr>)
              | (Inr touched, e') \<Rightarrow>
                  (Ok touched, snd (tx_commit tx1),
                   m1 \<lparr> tm_engine := e', tm_versions := stamp_versions touched seq (tm_versions m) \<rparr>))))"

definition tm_rollback :: "transaction \<Rightarrow> (tx_error + unit) \<times> transaction" where
  "tm_rollback tx = tx_rollback tx"

section \<open>Applying the buffered writes\<close>

fun to_store_write :: "write_op \<Rightarrow> store_write" where
  "to_store_write (WInsert t r) = PutRow t r"
| "to_store_write (WUpdate t i vals) = SetRow t i vals"
| "to_store_write (WDelete t i) = DropRow t i"

lemma apply_write_store: "apply_write w = engine_store.do_write (to_store_write w)"
  by (cases w) (auto simp: fun_eq_iff)

lemma apply_writes_store:
  "apply_writes ws touched e = engine_store.do_writes (map to_store_write ws) touched e"
  by (induction ws arbitrary: touched e) (auto simp: apply_write_store split: prod.split sum.split)

definition tx_writes_ok :: "transaction \<Rightarrow> engine \<Rightarrow> bool" where
  "tx_writes_ok tx e \<longleftrightarrow> engine_store.writes_ok (map to_store_write (tx_writes tx)) e"

lemma apply_writes_touched:
  "apply_writes ws acc e = (Ok touched, e') \<Longrightarrow>
   \<exists>ks. touched = acc @ ks \<and> list_all2 (\<lambda>w k. \<forall>k'. write_key w = Some k' \<longrightarrow> k = k') ws ks"
proof (induction ws arbitrary: acc e)
  case (Cons w ws)
  from Cons.prems obtain k e1 where w: "apply_write w e = (Ok k, e1)"
    and rest: "apply_writes ws (acc @ [k]) e1 = (Ok touched, e')"
    by (auto split: prod.splits sum.splits)
  from Cons.IH [OF rest] obtain ks where
    ks: "touched = acc @ k # ks" "list_all2 (\<lambda>w k. \<forall>k'. write_key w = Some k' \<longrightarrow> k = k') ws ks"
    by auto
  have "\<forall>k'. write_key w = Some k' \<longrightarrow> k = k'"
    using w by (cases w) (auto split: prod.splits sum.splits)
  with ks show ?case by (intro exI [of _ "k # ks"]) simp
qed simp

lemma hm_get_stamp:
  "hm_get (stamp_versions touched seq vs) k = (if k \<in> set touched then Some seq else hm_get vs k)"
  by (induction touched arbitrary: vs) (auto simp: stamp_versions_def hm_simps)

section \<open>Commits\<close>

lemma tm_commit_Ok_cases:
  assumes "tm_commit tx m = (Ok touched, tx', m')" and "tx_has_writes tx"
  obtains e' where "tx_is_active tx" "tm_validate m tx = None"
    "apply_writes (tx_writes tx) [] (tm_engine m) = (Ok touched, e')"
    "tx' = tx \<lparr> tx_writes := [], tx_state := Committed \<rparr>"
    "m' = m \<lparr> tm_commit_seq := tm_commit_seq m + 1, tm_engine := e',
            tm_versions := stamp_versions touched (tm_commit_seq m + 1) (tm_versions m) \<rparr>"
  using assms
  by (auto simp: tm_commit_def tx_commit_def tx_is_active_def Let_def
      split: if_splits option.splits prod.splits sum.splits)

lemma tm_commit_readonly:
  "\<not> tx_has_writes tx \<Longrightarrow> tm_commit tx m = (Ok touched, tx', m') \<Longrightarrow> touched = [] \<and> m' = m"
  by (auto simp: tm_commit_def split: if_splits)

text \<open>
  a conflict is reported before anything is applied: the engine, the versions and the
  sequence are as before, and the transaction is rolled back with its writes discarded.
\<close>

theorem commit_conflict_changes_nothing:
  assumes "tm_commit tx m = (Err (Conflict c), tx', m')"
  shows "m' = m \<and> tx_state tx' = RolledBack \<and> tx_writes tx' = []"
  using assms
  by (auto simp: tm_commit_def tx_rollback_def Let_def split: if_splits option.splits prod.splits sum.splits)

text \<open>
  a commit that fails while it applies its writes leaves the transaction active with no
  writes, so that committing it again reports success without writing anything.
\<close>

theorem commit_retry_after_failed_apply:
  assumes "tm_commit tx m = (Err (TxCoreError err), tx', m')"
  shows "\<exists>tx''. tm_commit tx' m' = (Ok [], tx'', m') \<and> tx_state tx'' = Committed"
  using assms
  by (auto simp: tm_commit_def tx_commit_def tx_has_writes_def tx_is_active_def Let_def
      split: if_splits option.splits prod.splits sum.splits)

section \<open>Histories of a manager\<close>

text \<open>
  What can happen to a manager between two points: transactions begin, commits succeed with
  the keys they touched, are refused for a conflict, or fail while applying; and the rest of
  the server writes to the shared engine directly.
\<close>

datatype tm_event =
    EvBegin
  | EvCommit "row_key list"
  | EvConflict
  | EvApplyFailed
  | EvDirect

fun event_keys :: "tm_event \<Rightarrow> row_key list" where
  "event_keys (EvCommit ks) = ks"
| "event_keys _ = []"

definition committed_keys :: "tm_event list \<Rightarrow> row_key set" where
  "committed_keys evs = set (concat (map event_keys evs))"

inductive tm_trace :: "tx_manager \<Rightarrow> tm_event list \<Rightarrow> tx_manager \<Rightarrow> bool" where
  trace_refl: "tm_trace m [] m"
| trace_begin: "tm_trace m evs m' \<Longrightarrow> tm_trace m (evs @ [EvBegin]) (snd (tm_begin lvl m'))"
| trace_commit: "tm_trace m evs m' \<Longrightarrow> tm_commit_seq m' \<noteq> - 1 \<Longrightarrow> tx_writes_ok tx (tm_engine m') \<Longrightarrow>
    tm_commit tx m' = (Ok touched, tx', m'') \<Longrightarrow> tm_trace m (evs @ [EvCommit touched]) m''"
| trace_conflict: "tm_trace m evs m' \<Longrightarrow> tm_commit tx m' = (Err (Conflict c), tx', m'') \<Longrightarrow>
    tm_trace m (evs @ [EvConflict]) m''"
| trace_failed: "tm_trace m evs m' \<Longrightarrow> tm_commit_seq m' \<noteq> - 1 \<Longrightarrow>
    tm_commit tx m' = (Err (TxCoreError err), tx', m'') \<Longrightarrow> tx_writes_ok tx (tm_engine m') \<Longrightarrow>
    tm_trace m (evs @ [EvApplyFailed]) m''"
| trace_direct: "tm_trace m evs m' \<Longrightarrow> op_ok op (tm_engine m') \<Longrightarrow>
    tm_trace m (evs @ [EvDirect]) (m' \<lparr> tm_engine := apply_op op (tm_engine m') \<rparr>)"

text \<open>No row was written after the last sequence number handed out.\<close>

definition tm_inv :: "tx_manager \<Rightarrow> bool" where
  "tm_inv m \<longleftrightarrow> engine_inv (tm_engine m) \<and>
     (\<forall>k v. hm_get (tm_versions m) k = Some v \<longrightarrow> 0 < v \<and> v \<le> tm_commit_seq m)"

lemma tm_inv_new: "engine_inv e \<Longrightarrow> tm_inv (tm_new e)"
  by (simp add: tm_inv_def tm_new_def)

lemma tm_commit_failed:
  assumes "tm_commit tx m = (Err (TxCoreError err), tx', m')"
  obtains e' where "apply_writes (tx_writes tx) [] (tm_engine m) = (Err err, e')"
    "m' = m \<lparr> tm_commit_seq := tm_commit_seq m + 1, tm_engine := e' \<rparr>"
  using assms
  by (auto simp: tm_commit_def Let_def split: if_splits option.splits prod.splits sum.splits)

lemma engine_inv_apply_writes:
  assumes "engine_inv (tm_engine m)" and "tx_writes_ok tx (tm_engine m)"
    and "apply_writes (tx_writes tx) [] (tm_engine m) = (res, e')"
  shows "engine_inv e'"
  using engine_store.inv_do_writes [OF assms(1), of "map to_store_write (tx_writes tx)" "[]"] assms
  by (simp add: apply_writes_store tx_writes_ok_def)

text \<open>The versions only grow, and a key committed in between has a version from in between.\<close>

lemma tm_commit_step:
  assumes inv: "tm_inv m" and seq: "tm_commit_seq m \<noteq> - 1" and ok: "tx_writes_ok tx (tm_engine m)"
    and c: "tm_commit tx m = (Ok touched, tx', m')"
  shows "tm_inv m' \<and> tm_commit_seq m \<le> tm_commit_seq m' \<and>
    (\<forall>k. hm_get (tm_versions m') k =
       (if k \<in> set touched then Some (tm_commit_seq m') else hm_get (tm_versions m) k)) \<and>
    (touched \<noteq> [] \<longrightarrow> tm_commit_seq m < tm_commit_seq m')"
proof (cases "tx_has_writes tx")
  case True
  from tm_commit_Ok_cases [OF c True] obtain e' where
    app: "apply_writes (tx_writes tx) [] (tm_engine m) = (Ok touched, e')"
    and m': "m' = m \<lparr> tm_commit_seq := tm_commit_seq m + 1, tm_engine := e',
            tm_versions := stamp_versions touched (tm_commit_seq m + 1) (tm_versions m) \<rparr>"
    by blast
  have lt: "tm_commit_seq m < tm_commit_seq m + 1" using seq by (rule word_less_plus_1)
  have "engine_inv e'" using engine_inv_apply_writes [OF _ ok app] inv by (simp add: tm_inv_def)
  moreover have "0 < v \<and> v \<le> tm_commit_seq m + 1"
    if "hm_get (tm_versions m') k = Some v" for k v
  proof (cases "k \<in> set touched")
    case True
    then have "v = tm_commit_seq m + 1" using that by (simp add: m' hm_get_stamp)
    then show ?thesis using le_less_trans [OF word_zero_le lt] by simp
  next
    case False
    then have "hm_get (tm_versions m) k = Some v" using that by (simp add: m' hm_get_stamp)
    then have "0 < v" "v \<le> tm_commit_seq m" using inv unfolding tm_inv_def by blast+
    then show ?thesis using lt by auto
  qed
  ultimately show ?thesis using lt by (auto simp: tm_inv_def m' hm_get_stamp)
next
  case False
  then show ?thesis using tm_commit_readonly [OF False c] inv by simp
qed

lemma tm_trace_inv:
  assumes "tm_trace m evs m'" and "tm_inv m"
  shows "tm_inv m' \<and> tm_commit_seq m \<le> tm_commit_seq m' \<and>
    (\<forall>k \<in> committed_keys evs. \<exists>v. hm_get (tm_versions m') k = Some v \<and> tm_commit_seq m < v) \<and>
    (\<forall>k. k \<notin> committed_keys evs \<longrightarrow> hm_get (tm_versions m') k = hm_get (tm_versions m) k)"
  using assms
proof (induction rule: tm_trace.induct)
  case (trace_begin m evs m' lvl)
  then show ?case by (simp add: tm_begin_def tm_inv_def committed_keys_def)
next
  case (trace_commit m evs m' tx touched tx' m'')
  then have IH: "tm_inv m'" "tm_commit_seq m \<le> tm_commit_seq m'" by auto
  note step = tm_commit_step [OF IH(1) trace_commit.hyps(2,3,4)]
  have le: "tm_commit_seq m \<le> tm_commit_seq m''" using IH(2) step by auto
  have keys: "committed_keys (evs @ [EvCommit touched]) = committed_keys evs \<union> set touched"
    by (auto simp: committed_keys_def)
  have "\<exists>v. hm_get (tm_versions m'') k = Some v \<and> tm_commit_seq m < v"
    if "k \<in> committed_keys evs \<union> set touched" for k
  proof (cases "k \<in> set touched")
    case True
    then have "tm_commit_seq m' < tm_commit_seq m''" using step by (cases touched) auto
    with True show ?thesis using step IH(2) by (metis order_le_less_trans)
  next
    case False
    then show ?thesis using that step trace_commit.IH trace_commit.prems by (metis Un_iff)
  qed
  moreover have "hm_get (tm_versions m'') k = hm_get (tm_versions m) k"
    if "k \<notin> committed_keys evs \<union> set touched" for k
    using that step trace_commit.IH trace_commit.prems by (metis Un_iff)
  ultimately show ?case using step le unfolding keys by blast
next
  case (trace_conflict m evs m' tx c tx' m'')
  then have "m'' = m'"
    by (auto simp: tm_commit_def Let_def split: if_splits option.splits prod.splits sum.splits)
  with trace_conflict show ?case by (simp add: committed_keys_def)
next
  case (trace_failed m evs m' tx err tx' m'')
  from tm_commit_failed [OF trace_failed.hyps(3)] obtain e' where
    app: "apply_writes (tx_writes tx) [] (tm_engine m') = (Err err, e')"
    and m'': "m'' = m' \<lparr> tm_commit_seq := tm_commit_seq m' + 1, tm_engine := e' \<rparr>"
    by blast
  have IH: "tm_inv m'" "tm_commit_seq m \<le> tm_commit_seq m'" using trace_failed by auto
  have lt: "tm_commit_seq m' < tm_commit_seq m' + 1" using trace_failed.hyps(2) by (rule word_less_plus_1)
  have "engine_inv e'"
    using engine_inv_apply_writes [OF _ trace_failed.hyps(4) app] IH(1) by (simp add: tm_inv_def)
  then have "tm_inv m''" using IH(1) lt by (auto simp: tm_inv_def m'') force
  moreover have "tm_commit_seq m \<le> tm_commit_seq m''" using IH(2) lt by (auto simp: m'')
  ultimately show ?case using trace_failed by (simp add: committed_keys_def m'')
next
  case (trace_direct m evs m' op)
  then show ?case using engine_inv_step by (auto simp: tm_inv_def committed_keys_def)
qed (simp add: committed_keys_def)

text \<open>The managers of a running server.\<close>

definition tm_reachable :: "tx_manager \<Rightarrow> bool" where
  "tm_reachable m \<longleftrightarrow> (\<exists>e evs. engine_reachable e \<and> tm_trace (tm_new e) evs m)"

lemma tm_reachable_inv: "tm_reachable m \<Longrightarrow> tm_inv m"
  using tm_trace_inv tm_inv_new engine_reachable_inv unfolding tm_reachable_def by blast

lemma tm_validate_None:
  assumes "tm_validate m tx = None"
  shows "w \<in> set (tx_writes tx) \<Longrightarrow> write_key w = Some k \<Longrightarrow> hm_get (tm_versions m) k = Some v \<Longrightarrow>
      v \<le> tx_start_seq tx"
    and "validates_reads (tx_isolation tx) \<Longrightarrow> (t, i, v') \<in> set (tx_read_set tx) \<Longrightarrow>
      current_version m t i = v'"
proof -
  have w: "\<not> list_ex (write_conflict m tx) (tx_writes tx)"
    and r: "validates_reads (tx_isolation tx) \<Longrightarrow> stale_read m tx = None"
    using assms by (auto simp: tm_validate_def split: option.splits if_splits)
  show "w \<in> set (tx_writes tx) \<Longrightarrow> write_key w = Some k \<Longrightarrow> hm_get (tm_versions m) k = Some v \<Longrightarrow>
      v \<le> tx_start_seq tx"
    using w by (cases k) (auto simp: list_ex_iff write_conflict_def not_less split: option.splits)
  show "validates_reads (tx_isolation tx) \<Longrightarrow> (t, i, v') \<in> set (tx_read_set tx) \<Longrightarrow>
      current_version m t i = v'"
    using r by (auto simp: stale_read_def find_None_iff)
qed

text \<open>
  First committer wins, for commits that run one after the other. When a transaction begins, other transactions begin, commit and
  fail in any order, and then it commits successfully, no commit in between touched a row
  that it updates or deletes.
\<close>

theorem first_committer_wins:
  assumes "tm_reachable m" and "tm_begin lvl m = (tx0, m1)" and "tm_trace m1 evs m2"
    and "tx_start_seq tx = tx_start_seq tx0" and "tm_commit tx m2 = (Ok touched, tx', m3)"
    and "w \<in> set (tx_writes tx)" and "write_key w = Some k"
  shows "k \<notin> committed_keys evs"
proof
  assume k: "k \<in> committed_keys evs"
  have m1: "tm_inv m1" "tx_start_seq tx0 = tm_commit_seq m1"
    using assms(2) tm_reachable_inv [OF assms(1)] by (auto simp: tm_begin_def tm_inv_def)
  obtain v where v: "hm_get (tm_versions m2) k = Some v" "tm_commit_seq m1 < v"
    using tm_trace_inv [OF assms(3) m1(1)] k by blast
  have "tx_has_writes tx" using assms(6) by (auto simp: tx_has_writes_def)
  from tm_commit_Ok_cases [OF assms(5) this] have "tm_validate m2 tx = None" by blast
  then have "v \<le> tx_start_seq tx" using tm_validate_None(1) assms(6,7) v(1) by blast
  with v(2) m1(2) assms(4) show False by simp
qed

text \<open>Histories in which every write goes through a commit that succeeds.\<close>

definition clean :: "tm_event list \<Rightarrow> bool" where
  "clean evs \<longleftrightarrow> EvApplyFailed \<notin> set evs \<and> EvDirect \<notin> set evs"

lemma clean_trace_frame:
  assumes "tm_trace m evs m'" and "tm_inv m" and "clean evs" and "(t, i) \<notin> committed_keys evs"
  shows "engine_get t i (tm_engine m') = engine_get t i (tm_engine m)"
  using assms
proof (induction rule: tm_trace.induct)
  case (trace_begin m evs m' lvl)
  then show ?case by (simp add: tm_begin_def clean_def committed_keys_def)
next
  case (trace_commit m evs m' tx touched tx' m'')
  have IH: "engine_get t i (tm_engine m') = engine_get t i (tm_engine m)"
    and ti: "(t, i) \<notin> set touched"
    using trace_commit by (auto simp: clean_def committed_keys_def)
  show ?case
  proof (cases "tx_has_writes tx")
    case True
    from tm_commit_Ok_cases [OF trace_commit.hyps(4) True] obtain e' where
      app: "apply_writes (tx_writes tx) [] (tm_engine m') = (Ok touched, e')" and "tm_engine m'' = e'"
      by (metis (no_types) tx_manager.select_convs(1) tx_manager.surjective tx_manager.update_convs(1,3,4))
    moreover have "engine_inv (tm_engine m')"
      using tm_trace_inv [OF trace_commit.hyps(1) trace_commit.prems(1)] by (simp add: tm_inv_def)
    ultimately show ?thesis
      using engine_store.do_writes_untouched [of "tm_engine m'" "map to_store_write (tx_writes tx)" "[]"]
        trace_commit.hyps(3) ti IH
      by (auto simp: apply_writes_store tx_writes_ok_def)
  next
    case False
    then show ?thesis using tm_commit_readonly [OF False trace_commit.hyps(4)] IH by simp
  qed
next
  case (trace_conflict m evs m' tx c tx' m'')
  then have "m'' = m'"
    by (auto simp: tm_commit_def Let_def split: if_splits option.splits prod.splits sum.splits)
  with trace_conflict show ?case by (simp add: clean_def committed_keys_def)
qed (auto simp: clean_def committed_keys_def)

lemma tm_get_reads:
  assumes "tm_get m t i tx = (Ok r, tx')"
  shows "(t, i, current_version m t i) \<in> set (tx_read_set tx')"
  using assms
  by (auto simp: tm_get_def tx_record_read_def Let_def
      split: if_splits option.splits write_op.splits sum.splits)

text \<open>
  Reads are stable up to the commit, for commits that run one after the other. When a serializable or repeatable-read transaction
  reads a row, other transactions commit, and it then commits with writes successfully, no
  commit after the read touched that row; and if all writes in between went through
  successful commits, the engine still holds for it what it held at the read.
\<close>

theorem committed_reads_stable:
  assumes "tm_reachable m" and "tm_get m t i tx0 = (Ok r, tx1)" and "tm_trace m evs m2"
    and "set (tx_read_set tx1) \<subseteq> set (tx_read_set tx)" and "validates_reads (tx_isolation tx)"
    and "tx_has_writes tx" and "tm_commit tx m2 = (Ok touched, tx', m3)"
  shows "(t, i) \<notin> committed_keys evs \<and>
    (clean evs \<longrightarrow> engine_get t i (tm_engine m2) = engine_get t i (tm_engine m))"
proof -
  note inv = tm_reachable_inv [OF assms(1)]
  from tm_commit_Ok_cases [OF assms(7,6)] have val: "tm_validate m2 tx = None" by blast
  have "(t, i, current_version m t i) \<in> set (tx_read_set tx)"
    using tm_get_reads [OF assms(2)] assms(4) by auto
  then have same: "current_version m2 t i = current_version m t i"
    using tm_validate_None(2) [OF val assms(5)] by blast
  have "(t, i) \<notin> committed_keys evs"
  proof
    assume "(t, i) \<in> committed_keys evs"
    then obtain v where v: "hm_get (tm_versions m2) (t, i) = Some v" "tm_commit_seq m < v"
      using tm_trace_inv [OF assms(3) inv] by blast
    have "current_version m t i \<le> tm_commit_seq m"
      using inv by (auto simp: current_version_def tm_inv_def split: option.split)
    with v same show False by (simp add: current_version_def)
  qed
  then show ?thesis using clean_trace_frame [OF assms(3) inv] by blast
qed

section \<open>Lock order\<close>

lemma stripe_index_bound: "stripe_index hash t i < STRIPE_COUNT"
proof -
  have mask: "(1023 :: u64) = mask 10" by (simp add: mask_eq_exp_minus_1)
  have "and (hash t i) 1023 = take_bit 10 (hash t i)"
    unfolding mask by (simp add: take_bit_eq_mask)
  then have "unat (and (hash t i) 1023) < 2 ^ 10"
    by (metis take_bit_nat_less_exp unsigned_take_bit_eq)
  then show ?thesis by (simp add: stripe_index_def STRIPE_COUNT_def)
qed

lemma sorted_remdups_adj_strict:
  "sorted xs \<Longrightarrow> sorted_wrt (<) (remdups_adj (xs :: nat list))"
  by (induction xs rule: remdups_adj.induct) (auto simp: order_le_less)

text \<open>
  a commit acquires its stripes in strictly ascending order, all of them below 1024, and
  they cover every row that it updates or deletes and, from repeatable read up, reads.
\<close>

theorem commit_stripes_ordered:
  "sorted_wrt (<) (commit_stripes hash tx) \<and> (\<forall>s \<in> set (commit_stripes hash tx). s < STRIPE_COUNT) \<and>
   (\<forall>w t i. w \<in> set (tx_writes tx) \<and> write_key w = Some (t, i) \<longrightarrow>
      stripe_index hash t i \<in> set (commit_stripes hash tx)) \<and>
   (\<forall>t i v. validates_reads (tx_isolation tx) \<and> (t, i, v) \<in> set (tx_read_set tx) \<longrightarrow>
      stripe_index hash t i \<in> set (commit_stripes hash tx))"
proof -
  have map_filter: "set (List.map_filter f xs) = {y. \<exists>x \<in> set xs. f x = Some y}" for f :: "write_op \<Rightarrow> nat option" and xs
    by (induction xs) (auto simp: map_filter_simps split: option.split)
  show ?thesis
    by (auto simp: commit_stripes_def Let_def map_filter stripe_index_bound intro!: sorted_remdups_adj_strict)
      (force)+
qed

section \<open>Reading one's own writes\<close>

lemma find_unique_write:
  assumes "tx_writes tx = ws1 @ w # ws2" and "write_key w = Some (t, i)"
    and "Some (t, i) \<notin> write_key ` set ws2"
  shows "newest_write tx t i = Some w"
proof -
  have none: "find (\<lambda>w. write_key w = Some (t, i)) (rev ws2) = None"
    using assms(3) by (force simp: find_None_iff)
  have "find P (xs @ y # ys) = Some y" if "find P xs = None" "P y" for P xs y and ys :: "write_op list"
    using that by (induction xs) (auto split: if_splits)
  then show ?thesis
    using none assms(1,2) by (simp add: newest_write_def)
qed

lemma write_target_store: "write_target (to_store_write w) = write_key w"
  by (cases w) auto

text \<open>
  a transaction reads its own update as the commit will write it: when it has buffered
  exactly one write to a row, an update, and its commit succeeds, then the row the engine
  holds afterwards is the row the transaction saw when it read it just before.
\<close>

theorem read_your_update:
  assumes "tm_reachable m" and "tx_writes tx = ws1 @ WUpdate t i vals # ws2"
    and "Some (t, i) \<notin> write_key ` (set ws1 \<union> set ws2)" and "tx_writes_ok tx (tm_engine m)"
    and "fst (tm_get m t i tx) = Ok seen" and "tm_commit tx m = (Ok touched, tx', m')"
  shows "engine_get t i (tm_engine m') = Ok seen"
proof -
  let ?e = "tm_engine m" and ?w1 = "map to_store_write ws1" and ?w2 = "map to_store_write ws2"
  have inv: "engine_inv ?e" using tm_reachable_inv [OF assms(1)] by (simp add: tm_inv_def)
  have "newest_write tx t i = Some (WUpdate t i vals)"
    using assms(2,3) by (intro find_unique_write) auto
  then obtain base where base: "engine_get t i ?e = Ok (Some base)"
    and seen: "seen = Some (base \<lparr> row_values := hm_extend (row_values base) vals \<rparr>)"
    using assms(5) by (auto simp: tm_get_def Let_def split: if_splits sum.splits option.splits)
  have "tx_has_writes tx" using assms(2) by (simp add: tx_has_writes_def)
  from tm_commit_Ok_cases [OF assms(6) this] obtain e' where
    app: "apply_writes (tx_writes tx) [] ?e = (Ok touched, e')" and e': "tm_engine m' = e'"
    by (metis (no_types) tx_manager.select_convs(1) tx_manager.surjective tx_manager.update_convs(1,3,4))
  from app obtain ks1 e1 where one: "engine_store.do_writes ?w1 [] ?e = (Ok ks1, e1)"
    and rest: "engine_store.do_writes (SetRow t i vals # ?w2) ks1 e1 = (Ok touched, e')"
    by (auto simp: assms(2) apply_writes_store engine_store.do_writes_append split: prod.splits sum.splits)
  from rest obtain r2 e2 where two: "engine_update t i vals e1 = (Ok r2, e2)"
    and three: "engine_store.do_writes ?w2 (ks1 @ [(t, i)]) e2 = (Ok touched, e')"
    by (auto split: prod.splits sum.splits)
  have ok: "engine_store.writes_ok ?w1 ?e" "engine_store.writes_ok (SetRow t i vals # ?w2) e1"
    using assms(4) engine_store.writes_ok_append [OF one] by (auto simp: tx_writes_ok_def assms(2))
  have free: "Some (t, i) \<notin> write_target ` set ?w1" "Some (t, i) \<notin> write_target ` set ?w2"
    using assms(3) by (auto simp: image_iff write_target_store)
  have e1: "engine_inv e1" "engine_get t i e1 = Ok (Some base)"
    using engine_store.inv_do_writes [OF inv ok(1), of "[]"]
      engine_store.do_writes_frame [OF inv ok(1) free(1) base, of "[]"] one by auto
  have e2: "engine_inv e2" "engine_get t i e2 = Ok seen"
    using engine_update_Ok [OF e1(1) _ two] ok(2) e1(2) seen by auto
  then show ?thesis
    using engine_store.do_writes_frame [OF e2(1) _ free(2), of _ "ks1 @ [(t, i)]"] ok(2) two three e' seen
    by auto
qed

text \<open>
  of several buffered updates of a row, a read inside the transaction merges only the
  newest: a column set by an earlier one reads as it was before the transaction, although
  the commit then applies both.
\<close>

theorem get_drops_earlier_update:
  "let m = tm_new demo_engine;
       (tx, m1) = tm_begin RepeatableRead m;
       tx1 = snd (tx_update ''users'' 1 [(''score'', VFloat64 5)] tx);
       tx2 = snd (tx_update ''users'' 1 [(''id'', VInt64 9)] tx1);
       (seen, tx3) = tm_get m1 ''users'' 1 tx2;
       (res, tx4, m2) = tm_commit tx3 m1
   in map_option (\<lambda>r. row_get r ''score'') (case seen of Inr r \<Rightarrow> r | Inl _ \<Rightarrow> None) = Some (Some (VFloat64 0)) \<and>
      res = Ok [(''users'', 1), (''users'', 1)] \<and>
      map_option (\<lambda>r. row_get r ''score'')
        (case engine_get ''users'' 1 (tm_engine m2) of Inr r \<Rightarrow> r | Inl _ \<Rightarrow> None) = Some (Some (VFloat64 5))"
  by code_simp

section \<open>A concrete manager\<close>

definition demo_manager :: tx_manager where
  "demo_manager = tm_new demo_engine"

definition demo_tx :: transaction where
  "demo_tx = \<lparr> tx_id = 1, tx_state = Active, tx_isolation = Serializable,
     tx_writes = [WUpdate ''users'' 1 [(''score'', VFloat64 5)]],
     tx_read_set = [(''users'', 1, 0)], tx_start_seq = 0 \<rparr>"

lemma demo_manager_reachable: "tm_reachable demo_manager"
  unfolding tm_reachable_def demo_manager_def using demo_engine_reachable trace_refl by blast

lemma demo_trace: "tm_trace (snd (tm_begin Serializable demo_manager)) [EvBegin]
  (snd (tm_begin ReadCommitted (snd (tm_begin Serializable demo_manager))))"
  using trace_begin [OF trace_refl] by simp

definition demo_commit :: "(tx_error + row_key list) \<times> transaction \<times> tx_manager" where
  "demo_commit = tm_commit demo_tx (snd (tm_begin ReadCommitted (snd (tm_begin Serializable demo_manager))))"

lemma demo_commit_Ok: "demo_commit = (Ok [(''users'', 1)], fst (snd demo_commit), snd (snd demo_commit))"
  by code_simp

theorem first_committer_wins_witness: "(''users'', 1) \<notin> committed_keys [EvBegin]"
  using first_committer_wins [OF demo_manager_reachable, of Serializable
      "fst (tm_begin Serializable demo_manager)" "snd (tm_begin Serializable demo_manager)" "[EvBegin]"
      "snd (tm_begin ReadCommitted (snd (tm_begin Serializable demo_manager)))" demo_tx
      "[(''users'', 1)]" "fst (snd demo_commit)" "snd (snd demo_commit)"
      "WUpdate ''users'' 1 [(''score'', VFloat64 5)]" "(''users'', 1)"]
    demo_trace demo_commit_Ok
  by (simp add: demo_commit_def) (simp add: demo_tx_def tm_begin_def demo_manager_def tm_new_def)

theorem commit_conflict_changes_nothing_witness:
  "\<exists>tx'. tm_commit (demo_tx \<lparr> tx_read_set := [(''users'', 1, 4)] \<rparr>) demo_manager =
     (Err (Conflict (ReadWriteConflict ''users'' 1 1)), tx', demo_manager) \<and> tx_state tx' = RolledBack"
proof -
  have "tm_validate demo_manager (demo_tx \<lparr> tx_read_set := [(''users'', 1, 4)] \<rparr>) =
      Some (ReadWriteConflict ''users'' 1 1)"
    by code_simp
  then have "tm_commit (demo_tx \<lparr> tx_read_set := [(''users'', 1, 4)] \<rparr>) demo_manager =
     (Err (Conflict (ReadWriteConflict ''users'' 1 1)),
      snd (tx_rollback (demo_tx \<lparr> tx_read_set := [(''users'', 1, 4)] \<rparr>)), demo_manager)"
    by (simp add: tm_commit_def) (simp add: demo_tx_def tx_is_active_def tx_has_writes_def)
  with commit_conflict_changes_nothing [OF this] show ?thesis by blast
qed

theorem commit_retry_after_failed_apply_witness:
  "\<exists>tx' m' tx''. tm_commit (demo_tx \<lparr> tx_writes := [WUpdate ''users'' 8 []], tx_read_set := [] \<rparr>) demo_manager =
       (Err (TxCoreError (RowNotFound 8)), tx', m') \<and> tm_commit tx' m' = (Ok [], tx'', m')"
proof -
  have "\<exists>tx' m'. tm_commit (demo_tx \<lparr> tx_writes := [WUpdate ''users'' 8 []], tx_read_set := [] \<rparr>) demo_manager =
       (Err (TxCoreError (RowNotFound 8)), tx', m')"
    by (intro exI) code_simp
  then show ?thesis using commit_retry_after_failed_apply by blast
qed

definition demo_reader :: transaction where
  "demo_reader = demo_tx \<lparr> tx_read_set := [] \<rparr>"

lemma demo_reads:
  "tm_get demo_manager ''users'' 1 demo_reader =
     (Ok (Some \<lparr> row_id = 1, row_values = [(''id'', VInt64 7), (''score'', VFloat64 5)] \<rparr>), demo_tx)"
  by code_simp

definition demo_commit_now :: "(tx_error + row_key list) \<times> transaction \<times> tx_manager" where
  "demo_commit_now = tm_commit demo_tx demo_manager"

lemma demo_commit_now_Ok:
  "demo_commit_now = (Ok [(''users'', 1)], fst (snd demo_commit_now), snd (snd demo_commit_now))"
  by code_simp

theorem committed_reads_stable_witness:
  "(''users'', 1) \<notin> committed_keys [] \<and> clean []"
  using committed_reads_stable [OF demo_manager_reachable demo_reads trace_refl, of demo_tx
      "[(''users'', 1)]" "fst (snd demo_commit_now)" "snd (snd demo_commit_now)"] demo_commit_now_Ok
  by (simp add: demo_commit_now_def [symmetric] clean_def)
    (simp add: demo_tx_def validates_reads_def tx_has_writes_def)

theorem read_your_update_witness:
  "engine_get ''users'' 1 (tm_engine (snd (snd demo_commit_now))) =
     Ok (Some \<lparr> row_id = 1, row_values = [(''id'', VInt64 7), (''score'', VFloat64 5)] \<rparr>)"
proof -
  have "tx_writes demo_tx = [] @ WUpdate ''users'' 1 [(''score'', VFloat64 5)] # []"
    by (simp add: demo_tx_def)
  moreover have "tx_writes_ok demo_tx (tm_engine demo_manager)"
    by (simp add: tx_writes_ok_def demo_tx_def values_ok_def)
  moreover have "fst (tm_get demo_manager ''users'' 1 demo_tx) =
      Ok (Some \<lparr> row_id = 1, row_values = [(''id'', VInt64 7), (''score'', VFloat64 5)] \<rparr>)"
    by code_simp
  moreover have "Some (''users'', 1) \<notin> write_key ` (set [] \<union> set [])" by simp
  ultimately show ?thesis
    using read_your_update [OF demo_manager_reachable _ _ _ _ demo_commit_now_Ok
        [unfolded demo_commit_now_def], folded demo_commit_now_def]
    by blast
qed

theorem commit_stripes_ordered_witness:
  "sorted_wrt (<) (commit_stripes (\<lambda>t i. i) demo_tx) \<and>
   stripe_index (\<lambda>t i. i) ''users'' 1 \<in> set (commit_stripes (\<lambda>t i. i) demo_tx) \<and>
   stripe_index (\<lambda>t i. i) ''users'' 1 < STRIPE_COUNT"
proof -
  have "WUpdate ''users'' 1 [(''score'', VFloat64 5)] \<in> set (tx_writes demo_tx)"
    by (simp add: demo_tx_def)
  moreover have "write_key (WUpdate ''users'' 1 [(''score'', VFloat64 5)]) = Some (''users'', 1)" by simp
  ultimately show ?thesis
    using commit_stripes_ordered [of "\<lambda>t i. i" demo_tx] by blast
qed

end
