(* ===== verification/Tx_Interleaving.thy ===== *)
theory Tx_Interleaving
  imports Transactions
begin

text \<open>
  The manager's commit at the grain at which threads interleave: stripes are locked one by
  one in the order \<open>commit_stripes\<close> gives; then validation, the claim of a sequence number,
  each write, and the version stamps are separate steps, between which other transactions
  begin, read, lock and commit. The engine calls and the version map are atomic under their
  own locks.
\<close>

section \<open>Lock acquisition\<close>

text \<open>
  Threads that each acquire a strictly ascending list of stripes, one at a time, and keep what
  they hold until they have it all. \<open>held\<close> and \<open>wanted\<close> split a thread's list.
\<close>

record lock_thread =
  held :: "nat list"
  wanted :: "nat list"

type_synonym lock_state = "lock_thread list"

definition stripe_free :: "lock_state \<Rightarrow> nat \<Rightarrow> bool" where
  "stripe_free ts s \<longleftrightarrow> (\<forall>t \<in> set ts. s \<notin> set (held t))"

text \<open>A thread acquires its next stripe, or, once it has all of them, runs and releases.\<close>

inductive lock_step :: "lock_state \<Rightarrow> lock_state \<Rightarrow> bool" where
  acquire: "i < length ts \<Longrightarrow> wanted (ts ! i) = s # rest \<Longrightarrow> stripe_free ts s \<Longrightarrow>
    lock_step ts (ts [i := \<lparr> held = held (ts ! i) @ [s], wanted = rest \<rparr>])"
| release: "i < length ts \<Longrightarrow> wanted (ts ! i) = [] \<Longrightarrow> held (ts ! i) \<noteq> [] \<Longrightarrow>
    lock_step ts (ts [i := \<lparr> held = [], wanted = [] \<rparr>])"

definition lock_init :: "(string \<Rightarrow> row_id \<Rightarrow> u64) \<Rightarrow> transaction list \<Rightarrow> lock_state" where
  "lock_init hash txs = map (\<lambda>tx. \<lparr> held = [], wanted = commit_stripes hash tx \<rparr>) txs"

definition lock_inv :: "lock_state \<Rightarrow> bool" where
  "lock_inv ts \<longleftrightarrow>
     (\<forall>t \<in> set ts. sorted_wrt (<) (held t @ wanted t)) \<and>
     (\<forall>i < length ts. \<forall>j < length ts. i \<noteq> j \<longrightarrow> set (held (ts ! i)) \<inter> set (held (ts ! j)) = {})"

definition lock_done :: "lock_state \<Rightarrow> bool" where
  "lock_done ts \<longleftrightarrow> (\<forall>t \<in> set ts. held t = [] \<and> wanted t = [])"

lemma lock_inv_init: "lock_inv (lock_init hash txs)"
proof -
  have "sorted_wrt (<) (commit_stripes hash tx)" for tx
    by (simp add: commit_stripes_def Let_def sorted_remdups_adj_strict)
  then show ?thesis by (auto simp: lock_inv_def lock_init_def)
qed

lemma lock_inv_step: "lock_step ts ts' \<Longrightarrow> lock_inv ts \<Longrightarrow> lock_inv ts'"
proof (induction rule: lock_step.induct)
  case (acquire i ts s rest)
  let ?t = "\<lparr> held = held (ts ! i) @ [s], wanted = rest \<rparr>"
  have "sorted_wrt (<) (held t @ wanted t)" if "t \<in> set (ts [i := ?t])" for t
  proof (cases "t = ?t")
    case True
    have "ts ! i \<in> set ts" using acquire.hyps(1) by simp
    then have "sorted_wrt (<) (held (ts ! i) @ s # rest)"
      using acquire.prems acquire.hyps(2) unfolding lock_inv_def by metis
    then show ?thesis using True by simp
  qed (use that acquire set_update_subset_insert in \<open>fastforce simp: lock_inv_def\<close>)
  moreover have "set (held (ts [i := ?t] ! j)) \<inter> set (held (ts [i := ?t] ! k)) = {}"
    if "j < length ts" "k < length ts" "j \<noteq> k" for j k
    using that acquire by (auto simp: lock_inv_def stripe_free_def nth_list_update)
  ultimately show ?case by (simp add: lock_inv_def)
next
  case (release i ts)
  let ?t = "\<lparr> held = [], wanted = [] \<rparr>"
  have "sorted_wrt (<) (held t @ wanted t)" if "t \<in> set (ts [i := ?t])" for t
    using that release set_update_subset_insert by (fastforce simp: lock_inv_def)
  moreover have "set (held (ts [i := ?t] ! j)) \<inter> set (held (ts [i := ?t] ! k)) = {}"
    if "j < length ts" "k < length ts" "j \<noteq> k" for j k
    using that release by (auto simp: lock_inv_def nth_list_update)
  ultimately show ?case by (simp add: lock_inv_def)
qed

lemma lock_inv_steps: "lock_step\<^sup>*\<^sup>* ts ts' \<Longrightarrow> lock_inv ts \<Longrightarrow> lock_inv ts'"
  by (induction rule: rtranclp_induct) (auto intro: lock_inv_step)

text \<open>
  The thread that holds the highest stripe of all wants only higher ones, which are free.
\<close>

lemma lock_progress:
  assumes inv: "lock_inv ts" and nd: "\<not> lock_done ts"
  shows "\<exists>ts'. lock_step ts ts'"
proof -
  let ?H = "\<Union>t \<in> set ts. set (held t)"
  show ?thesis
  proof (cases "?H = {}")
    case True
    from nd obtain t where t: "t \<in> set ts" "held t \<noteq> [] \<or> wanted t \<noteq> []"
      unfolding lock_done_def by blast
    with True have "wanted t \<noteq> []" by auto
    with t(1) obtain i where i: "i < length ts" "wanted (ts ! i) \<noteq> []"
      unfolding in_set_conv_nth by blast
    then obtain s rest where "wanted (ts ! i) = s # rest" by (cases "wanted (ts ! i)") auto
    moreover have "stripe_free ts s" using True by (auto simp: stripe_free_def)
    ultimately show ?thesis using i acquire by blast
  next
    case False
    define top where "top = Max ?H"
    have fin: "finite ?H" by simp
    have "top \<in> ?H" using Max_in [OF fin False] by (simp add: top_def)
    then obtain t where "t \<in> set ts" "top \<in> set (held t)" by blast
    then obtain i where i: "i < length ts" "top \<in> set (held (ts ! i))"
      by (metis in_set_conv_nth)
    show ?thesis
    proof (cases "wanted (ts ! i)")
      case Nil
      moreover have "held (ts ! i) \<noteq> []" using i(2) by auto
      ultimately show ?thesis using release [OF i(1)] by blast
    next
      case (Cons s rest)
      have "sorted_wrt (<) (held (ts ! i) @ wanted (ts ! i))" using inv i by (simp add: lock_inv_def)
      then have "top < s" using Cons i(2) by (auto simp: sorted_wrt_append)
      then have "s \<notin> ?H" using Max_ge [OF fin] by (metis leD top_def)
      then have "stripe_free ts s" by (auto simp: stripe_free_def)
      then show ?thesis using i Cons acquire by blast
    qed
  qed
qed

text \<open>
  C15: commits never deadlock on the stripes: from the start of any set of commits, whatever
  steps have been taken, as long as some commit has not released its stripes another step is
  possible; and two commits never hold the same stripe.
\<close>

theorem commit_locks_progress:
  assumes "lock_step\<^sup>*\<^sup>* (lock_init hash txs) ts"
  shows "(lock_done ts \<or> (\<exists>ts'. lock_step ts ts')) \<and>
    (\<forall>i < length ts. \<forall>j < length ts. i \<noteq> j \<longrightarrow> set (held (ts ! i)) \<inter> set (held (ts ! j)) = {})"
proof -
  have "lock_inv ts" using lock_inv_steps [OF assms lock_inv_init] .
  then show ?thesis using lock_progress [of ts] by (auto simp: lock_inv_def)
qed

theorem commit_locks_progress_witness:
  "lock_done (lock_init (\<lambda>_ _. 0) [demo_tx]) \<or> (\<exists>ts'. lock_step (lock_init (\<lambda>_ _. 0) [demo_tx]) ts')"
  using commit_locks_progress [of "\<lambda>_ _. 0" "[demo_tx]" "lock_init (\<lambda>_ _. 0) [demo_tx]"] by blast

section \<open>Commits in phases\<close>

text \<open>
  A commit in progress: the writes still to apply, the keys touched so far, the sequence number
  it claimed.
\<close>

record commit_run =
  cr_seq :: u64
  cr_todo :: "write_op list"
  cr_touched :: "row_key list"

text \<open>Validation, then the claim of a sequence number.\<close>

definition commit_start :: "transaction \<Rightarrow> tx_manager \<Rightarrow> (tx_error + commit_run) \<times> tx_manager" where
  "commit_start tx m =
     (case tm_validate m tx of
        Some c \<Rightarrow> (Err (Conflict c), m)
      | None \<Rightarrow>
          (let seq = tm_commit_seq m + 1 in
           (Ok \<lparr> cr_seq = seq, cr_todo = tx_writes tx, cr_touched = [] \<rparr>, m \<lparr> tm_commit_seq := seq \<rparr>)))"

text \<open>The next write.\<close>

definition commit_apply :: "commit_run \<Rightarrow> tx_manager \<Rightarrow> (tx_error + commit_run) \<times> tx_manager" where
  "commit_apply c m =
     (case cr_todo c of
        [] \<Rightarrow> (Ok c, m)
      | w # ws \<Rightarrow>
          (case apply_write w (tm_engine m) of
             (Inl err, e') \<Rightarrow> (Err (TxCoreError err), m \<lparr> tm_engine := e' \<rparr>)
           | (Inr k, e') \<Rightarrow>
               (Ok (c \<lparr> cr_todo := ws, cr_touched := cr_touched c @ [k] \<rparr>), m \<lparr> tm_engine := e' \<rparr>)))"

text \<open>The stamps.\<close>

definition commit_stamp :: "commit_run \<Rightarrow> tx_manager \<Rightarrow> row_key list \<times> tx_manager" where
  "commit_stamp c m =
     (cr_touched c, m \<lparr> tm_versions := stamp_versions (cr_touched c) (cr_seq c) (tm_versions m) \<rparr>)"

text \<open>All phases in a row, with nothing in between.\<close>

fun commit_applies :: "nat \<Rightarrow> commit_run \<Rightarrow> tx_manager \<Rightarrow> (tx_error + commit_run) \<times> tx_manager" where
  "commit_applies 0 c m = (Ok c, m)"
| "commit_applies (Suc n) c m =
     (case commit_apply c m of
        (Inl e, m') \<Rightarrow> (Err e, m')
      | (Inr c', m') \<Rightarrow> commit_applies n c' m')"

definition commit_phases :: "transaction \<Rightarrow> tx_manager \<Rightarrow> (tx_error + row_key list) \<times> tx_manager" where
  "commit_phases tx m =
     (case commit_start tx m of
        (Inl e, m1) \<Rightarrow> (Err e, m1)
      | (Inr c, m1) \<Rightarrow>
          (case commit_applies (length (cr_todo c)) c m1 of
             (Inl e, m2) \<Rightarrow> (Err e, m2)
           | (Inr c', m2) \<Rightarrow> (let (ks, m3) = commit_stamp c' m2 in (Ok ks, m3))))"

lemma commit_applies_all:
  "commit_applies (length (cr_todo c)) c m =
     (case apply_writes (cr_todo c) (cr_touched c) (tm_engine m) of
        (Inl err, e') \<Rightarrow> (Err (TxCoreError err), m \<lparr> tm_engine := e' \<rparr>)
      | (Inr ks, e') \<Rightarrow> (Ok (c \<lparr> cr_todo := [], cr_touched := ks \<rparr>), m \<lparr> tm_engine := e' \<rparr>))"
proof (induction "cr_todo c" arbitrary: c m)
  case Nil
  then show ?case by (simp flip: Nil)
next
  case (Cons w ws)
  show ?case
  proof (cases "apply_write w (tm_engine m)")
    case (Pair res e')
    show ?thesis
    proof (cases res)
      case (Inr k)
      have "cr_todo (c \<lparr> cr_todo := ws, cr_touched := cr_touched c @ [k] \<rparr>) = ws" by simp
      from Cons.hyps(1) [of "c \<lparr> cr_todo := ws, cr_touched := cr_touched c @ [k] \<rparr>"
          "m \<lparr> tm_engine := e' \<rparr>"] this
      show ?thesis using Cons.hyps(2) [symmetric] Pair Inr
        by (auto simp: commit_apply_def split: prod.split sum.split)
    qed (use Cons.hyps(2) [symmetric] Pair in \<open>simp add: commit_apply_def\<close>)
  qed
qed

text \<open>
  The phases, run without interruption, are the atomic commit: same result, same manager.
\<close>

theorem commit_phases_refine_commit:
  assumes "tx_is_active tx" and "tx_has_writes tx"
  shows "commit_phases tx m = (fst (tm_commit tx m), snd (snd (tm_commit tx m)))"
proof (cases "tm_validate m tx")
  case None
  let ?c = "\<lparr> cr_seq = tm_commit_seq m + 1, cr_todo = tx_writes tx, cr_touched = [] \<rparr>"
  have "commit_applies (length (tx_writes tx)) ?c (m \<lparr> tm_commit_seq := tm_commit_seq m + 1 \<rparr>) =
     (case apply_writes (tx_writes tx) [] (tm_engine m) of
        (Inl err, e') \<Rightarrow> (Err (TxCoreError err),
           m \<lparr> tm_commit_seq := tm_commit_seq m + 1, tm_engine := e' \<rparr>)
      | (Inr ks, e') \<Rightarrow> (Ok (?c \<lparr> cr_todo := [], cr_touched := ks \<rparr>),
           m \<lparr> tm_commit_seq := tm_commit_seq m + 1, tm_engine := e' \<rparr>))"
    using commit_applies_all [of ?c "m \<lparr> tm_commit_seq := tm_commit_seq m + 1 \<rparr>"] by simp
  with None assms show ?thesis
    by (auto simp: commit_phases_def commit_start_def tm_commit_def commit_stamp_def Let_def
        split: prod.splits sum.splits)
qed (use assms in \<open>simp add: commit_phases_def commit_start_def tm_commit_def\<close>)

theorem commit_phases_refine_commit_witness:
  "fst (commit_phases demo_tx demo_manager) = Ok [(''users'', 1)]"
proof -
  have "tx_is_active demo_tx" "tx_has_writes demo_tx"
    by (simp_all add: demo_tx_def tx_is_active_def tx_has_writes_def)
  moreover have "fst (tm_commit demo_tx demo_manager) = Ok [(''users'', 1)]" by code_simp
  ultimately show ?thesis using commit_phases_refine_commit [of demo_tx demo_manager] by simp
qed

definition increment_tx :: "row \<Rightarrow> transaction \<Rightarrow> transaction" where
  "increment_tx r tx =
     (case row_get r ''id'' of
        Some (VInt64 x) \<Rightarrow> snd (tx_update ''users'' 1 [(''id'', VInt64 (x + 1))] tx)
      | _ \<Rightarrow> tx)"

definition read_and_increment :: "tx_manager \<Rightarrow> transaction \<Rightarrow> transaction" where
  "read_and_increment m tx =
     (case tm_get m ''users'' 1 tx of
        (Inr (Some r), tx') \<Rightarrow> increment_tx r tx'
      | _ \<Rightarrow> tx)"

text \<open>
  A lost update below repeatable read, on one history. A transaction that begins after another has claimed
  its sequence number, but before that one has applied and stamped its writes, carries that
  number as its snapshot; both read the row with \<open>id\<close> 7 and increment it, both commits
  succeed, and the row ends at 8.
\<close>

theorem read_committed_lost_update:
  "let m0 = tm_new demo_engine;
       (a0, m1) = tm_begin ReadCommitted m0;
       a = read_and_increment m1 a0;
       (ra, m2) = commit_start a m1;
       (b0, m3) = tm_begin ReadCommitted m2;
       b = read_and_increment m3 b0;
       (ra', m4) = (case ra of Inr c \<Rightarrow> commit_apply c m3 | Inl e \<Rightarrow> (Err e, m3));
       (ka, m5) = (case ra' of Inr c \<Rightarrow> commit_stamp c m4 | Inl e \<Rightarrow> ([], m4));
       (rb, b', m6) = tm_commit b m5
   in ka = [(''users'', 1)] \<and> rb = Ok [(''users'', 1)] \<and>
      map_option (\<lambda>r. row_get r ''id'')
        (case engine_get ''users'' 1 (tm_engine m6) of Inr r \<Rightarrow> r | Inl _ \<Rightarrow> None) = Some (Some (VInt64 8))"
  by code_simp

end
