(* ===== verification/Tx_Threads.thy ===== *)
theory Tx_Threads
  imports Tx_Interleaving
begin

text \<open>
  Transactions of many threads over one manager (\<open>blitz-tx/src/manager.rs\<close>), interleaved at the
  grain of the code: a read takes the version and then the row; a commit locks its stripes one by
  one, validates, claims its number, applies each write, and stamps the versions, and between any
  two of these steps every other thread may move. Beginning and reading take no stripe. The rest
  of the server writes to the shared engine whenever it likes.
\<close>

section \<open>Threads\<close>

datatype tx_phase =
    Running
  | ReadingRow string row_id u64
  | Locking "nat list"
  | Validated
  | Applying commit_run
  | Finished u64
  | Ended

text \<open>
  A thread: its transaction and the stripes it holds. For the statements below it also keeps what
  it has read from the engine, with the version that it recorded and the moment of the read, and
  the rows that its commit updated or deleted.
\<close>

record tx_thread =
  th_tx :: transaction
  th_phase :: tx_phase
  th_held :: "nat list"
  th_seen :: "(row_key \<times> u64 \<times> row option \<times> nat) list"
  th_keys :: "row_key set"

text \<open>
  The manager with its threads. For the statements below: the rows that commits have inserted, and
  the log of the writes that left no version, by the rest of the server or by a commit that
  failed on the way, each with the rows that it changed.
\<close>

record tx_world =
  wo_manager :: tx_manager
  wo_threads :: "tx_thread list"
  wo_inserted :: "row_key set"
  wo_unstamped :: "row_key set list"

definition world_new :: "engine \<Rightarrow> tx_world" where
  "world_new e = \<lparr> wo_manager = tm_new e, wo_threads = [], wo_inserted = {}, wo_unstamped = [] \<rparr>"

definition thread_new :: "transaction \<Rightarrow> tx_thread" where
  "thread_new tx = \<lparr> th_tx = tx, th_phase = Running, th_held = [], th_seen = [], th_keys = {} \<rparr>"

definition put_thread :: "nat \<Rightarrow> tx_thread \<Rightarrow> tx_world \<Rightarrow> tx_world" where
  "put_thread n c w = w \<lparr> wo_threads := (wo_threads w)[n := c] \<rparr>"

definition write_keys :: "write_op list \<Rightarrow> row_key set" where
  "write_keys ws = set (List.map_filter write_key ws)"

section \<open>Steps\<close>

datatype tx_action =
    ABegin isolation_level
  | ABuffer nat write_op
  | AReadVersion nat string row_id
  | AReadRow nat
  | ARollback nat
  | ACommit nat
  | AAcquire nat
  | AValidate nat
  | AClaim nat
  | AApply nat
  | AStamp nat

text \<open>Reading: the version first; then the row, unless the transaction itself deleted it.\<close>

definition read_version :: "tx_manager \<Rightarrow> string \<Rightarrow> row_id \<Rightarrow> tx_thread \<Rightarrow> tx_thread option" where
  "read_version m t i c =
     (case th_phase c of
        Running \<Rightarrow>
          if \<not> tx_is_active (th_tx c) then None
          else
            (let v = current_version m t i in
             case newest_write (th_tx c) t i of
               Some (WDelete _ _) \<Rightarrow> Some (c \<lparr> th_tx := tx_record_read t i v (th_tx c) \<rparr>)
             | _ \<Rightarrow> Some (c \<lparr> th_phase := ReadingRow t i v \<rparr>))
      | _ \<Rightarrow> None)"

definition read_row :: "tx_manager \<Rightarrow> nat \<Rightarrow> tx_thread \<Rightarrow> tx_thread option" where
  "read_row m now c =
     (case th_phase c of
        ReadingRow t i v \<Rightarrow>
          (case engine_get t i (tm_engine m) of
             Inl _ \<Rightarrow> Some (c \<lparr> th_phase := Running \<rparr>)
           | Inr r \<Rightarrow>
               if r = None \<and> newest_write (th_tx c) t i \<noteq> None then Some (c \<lparr> th_phase := Running \<rparr>)
               else Some (c \<lparr> th_phase := Running, th_tx := tx_record_read t i v (th_tx c),
                              th_seen := th_seen c @ [((t, i), v, r, now)] \<rparr>))
      | _ \<Rightarrow> None)"

definition start_commit :: "(string \<Rightarrow> row_id \<Rightarrow> u64) \<Rightarrow> tx_thread \<Rightarrow> tx_thread option" where
  "start_commit hash c =
     (if th_phase c \<noteq> Running \<or> \<not> tx_is_active (th_tx c) then None
      else if \<not> tx_has_writes (th_tx c) then Some (c \<lparr> th_phase := Ended, th_tx := snd (tx_commit (th_tx c)) \<rparr>)
      else Some (c \<lparr> th_phase := Locking (commit_stripes hash (th_tx c)) \<rparr>))"

definition acquire_stripe :: "tx_thread list \<Rightarrow> tx_thread \<Rightarrow> tx_thread option" where
  "acquire_stripe cs c =
     (case th_phase c of
        Locking (s # rest) \<Rightarrow>
          if list_ex (\<lambda>d. s \<in> set (th_held d)) cs then None
          else Some (c \<lparr> th_phase := Locking rest, th_held := th_held c @ [s] \<rparr>)
      | _ \<Rightarrow> None)"

definition validate_thread :: "tx_manager \<Rightarrow> tx_thread \<Rightarrow> tx_thread option" where
  "validate_thread m c =
     (case th_phase c of
        Locking [] \<Rightarrow>
          (case tm_validate m (th_tx c) of
             None \<Rightarrow> Some (c \<lparr> th_phase := Validated \<rparr>)
           | Some _ \<Rightarrow> Some (c \<lparr> th_phase := Ended, th_tx := snd (tx_rollback (th_tx c)), th_held := [] \<rparr>))
      | _ \<Rightarrow> None)"

definition claim_number :: "nat \<Rightarrow> tx_world \<Rightarrow> tx_world option" where
  "claim_number n w =
     (let c = wo_threads w ! n; m = wo_manager w in
      case th_phase c of
        Validated \<Rightarrow>
          (let seq = tm_commit_seq m + 1 in
           Some (put_thread n (c \<lparr> th_phase := Applying \<lparr> cr_seq = seq, cr_todo = tx_writes (th_tx c), cr_touched = [] \<rparr> \<rparr>)
                  (w \<lparr> wo_manager := m \<lparr> tm_commit_seq := seq \<rparr> \<rparr>)))
      | _ \<Rightarrow> None)"

text \<open>
  One write. A failure ends the commit: the stripes are released, the buffered writes are gone and
  the transaction stays active.
\<close>

definition apply_next :: "nat \<Rightarrow> tx_world \<Rightarrow> tx_world option" where
  "apply_next n w =
     (let c = wo_threads w ! n; m = wo_manager w in
      case th_phase c of
        Applying run \<Rightarrow>
          (case cr_todo run of
             [] \<Rightarrow> None
           | op # _ \<Rightarrow>
               (case commit_apply run m of
                  (Inr run', m') \<Rightarrow>
                    Some (put_thread n (c \<lparr> th_phase := Applying run' \<rparr>)
                      (w \<lparr> wo_manager := m',
                          wo_inserted := wo_inserted w \<union> (if write_key op = None then {last (cr_touched run')} else {}) \<rparr>))
                | (Inl _, m') \<Rightarrow>
                    Some (put_thread n (c \<lparr> th_phase := Running, th_held := [], th_tx := (th_tx c) \<lparr> tx_writes := [] \<rparr> \<rparr>)
                      (w \<lparr> wo_manager := m', wo_unstamped := wo_unstamped w @ [set (cr_touched run)] \<rparr>))))
      | _ \<Rightarrow> None)"

definition stamp_rows :: "nat \<Rightarrow> tx_world \<Rightarrow> tx_world option" where
  "stamp_rows n w =
     (let c = wo_threads w ! n in
      case th_phase c of
        Applying run \<Rightarrow>
          if cr_todo run \<noteq> [] then None
          else
            Some (put_thread n (c \<lparr> th_phase := Finished (cr_seq run), th_held := [], th_keys := write_keys (tx_writes (th_tx c)),
                                    th_tx := (th_tx c) \<lparr> tx_writes := [], tx_state := Committed \<rparr> \<rparr>)
                   (w \<lparr> wo_manager := snd (commit_stamp run (wo_manager w)) \<rparr>))
      | _ \<Rightarrow> None)"

fun thread_step :: "(string \<Rightarrow> row_id \<Rightarrow> u64) \<Rightarrow> tx_manager \<Rightarrow> nat \<Rightarrow> tx_thread list \<Rightarrow> tx_action \<Rightarrow> tx_thread \<Rightarrow> tx_thread option" where
  "thread_step hash m now cs (ABuffer _ op) c =
     (if th_phase c = Running \<and> tx_is_active (th_tx c) then Some (c \<lparr> th_tx := snd (tx_push op (th_tx c)) \<rparr>) else None)"
| "thread_step hash m now cs (AReadVersion _ t i) c = read_version m t i c"
| "thread_step hash m now cs (AReadRow _) c = read_row m now c"
| "thread_step hash m now cs (ARollback _) c =
     (if th_phase c = Running then Some (c \<lparr> th_phase := Ended, th_tx := snd (tx_rollback (th_tx c)) \<rparr>) else None)"
| "thread_step hash m now cs (ACommit _) c = start_commit hash c"
| "thread_step hash m now cs (AAcquire _) c = acquire_stripe cs c"
| "thread_step hash m now cs (AValidate _) c = validate_thread m c"
| "thread_step hash m now cs _ c = None"

fun action_thread :: "tx_action \<Rightarrow> nat option" where
  "action_thread (ABegin _) = None"
| "action_thread (ABuffer n _) = Some n"
| "action_thread (AReadVersion n _ _) = Some n"
| "action_thread (AReadRow n) = Some n"
| "action_thread (ARollback n) = Some n"
| "action_thread (ACommit n) = Some n"
| "action_thread (AAcquire n) = Some n"
| "action_thread (AValidate n) = Some n"
| "action_thread (AClaim n) = Some n"
| "action_thread (AApply n) = Some n"
| "action_thread (AStamp n) = Some n"

fun act :: "(string \<Rightarrow> row_id \<Rightarrow> u64) \<Rightarrow> tx_action \<Rightarrow> tx_world \<Rightarrow> tx_world option" where
  "act hash (ABegin lvl) w =
     (let (tx, m) = tm_begin lvl (wo_manager w) in
      Some (w \<lparr> wo_manager := m, wo_threads := wo_threads w @ [thread_new tx] \<rparr>))"
| "act hash (AClaim n) w = (if n < length (wo_threads w) then claim_number n w else None)"
| "act hash (AApply n) w = (if n < length (wo_threads w) then apply_next n w else None)"
| "act hash (AStamp n) w = (if n < length (wo_threads w) then stamp_rows n w else None)"
| "act hash a w =
     (case action_thread a of
        Some n \<Rightarrow>
          if n < length (wo_threads w)
          then map_option (\<lambda>c. put_thread n c w) (thread_step hash (wo_manager w) (length (wo_unstamped w)) (wo_threads w) a (wo_threads w ! n))
          else None
      | None \<Rightarrow> None)"

text \<open>
  What is asked of the environment: the counters are not exhausted, and no write holds a negative
  zero.
\<close>

fun write_fits :: "write_op \<Rightarrow> engine \<Rightarrow> bool" where
  "write_fits (WInsert t r) e = insert_ok t r e"
| "write_fits (WUpdate t i vals) e = values_ok vals"
| "write_fits (WDelete t i) e = True"

lemma write_fits_store: "write_fits op e = engine_store.write_ok (to_store_write op) e"
  by (cases op) simp_all

fun action_ok :: "tx_action \<Rightarrow> tx_world \<Rightarrow> bool" where
  "action_ok (AClaim n) w \<longleftrightarrow> tm_commit_seq (wo_manager w) \<noteq> - 1"
| "action_ok (AApply n) w \<longleftrightarrow>
     (case th_phase (wo_threads w ! n) of
        Applying run \<Rightarrow>
          (case cr_todo run of
             [] \<Rightarrow> True
           | op # _ \<Rightarrow> write_fits op (tm_engine (wo_manager w)))
      | _ \<Rightarrow> True)"
| "action_ok _ w \<longleftrightarrow> True"

definition direct_write :: "engine_op \<Rightarrow> tx_world \<Rightarrow> tx_world" where
  "direct_write op w =
     (let e = tm_engine (wo_manager w); e' = apply_op op e in
      w \<lparr> wo_manager := (wo_manager w) \<lparr> tm_engine := e' \<rparr>,
          wo_unstamped := wo_unstamped w @ [{(t, i). engine_get t i e' \<noteq> engine_get t i e}] \<rparr>)"

inductive world_reachable :: "(string \<Rightarrow> row_id \<Rightarrow> u64) \<Rightarrow> tx_world \<Rightarrow> bool" for hash where
  world_start: "engine_reachable e \<Longrightarrow> world_reachable hash (world_new e)"
| world_act: "world_reachable hash w \<Longrightarrow> action_ok a w \<Longrightarrow> act hash a w = Some w' \<Longrightarrow> world_reachable hash w'"
| world_direct: "world_reachable hash w \<Longrightarrow> op_ok op (tm_engine (wo_manager w)) \<Longrightarrow> world_reachable hash (direct_write op w)"

section \<open>What the stripes protect\<close>

definition thread_seq :: "tx_thread \<Rightarrow> u64 option" where
  "thread_seq c = (case th_phase c of Finished s \<Rightarrow> Some s | Applying run \<Rightarrow> Some (cr_seq run) | _ \<Rightarrow> None)"

definition committing :: "tx_thread \<Rightarrow> bool" where
  "committing c \<longleftrightarrow> th_phase c = Validated \<or> (\<exists>run. th_phase c = Applying run)"

definition holds_stripes :: "(string \<Rightarrow> row_id \<Rightarrow> u64) \<Rightarrow> tx_thread \<Rightarrow> bool" where
  "holds_stripes hash c \<longleftrightarrow>
     (case th_phase c of
        Locking rest \<Rightarrow> set (th_held c) \<union> set rest = set (commit_stripes hash (th_tx c))
      | Validated \<Rightarrow> set (th_held c) = set (commit_stripes hash (th_tx c))
      | Applying _ \<Rightarrow> set (th_held c) = set (commit_stripes hash (th_tx c))
      | _ \<Rightarrow> th_held c = [])"

definition run_ok :: "row_key set \<Rightarrow> tx_thread \<Rightarrow> bool" where
  "run_ok ins c \<longleftrightarrow> (\<forall>run. th_phase c = Applying run \<longrightarrow>
     write_keys (cr_todo run) \<subseteq> write_keys (tx_writes (th_tx c)) \<and>
     set (cr_touched run) \<subseteq> write_keys (tx_writes (th_tx c)) \<union> ins \<and>
     write_keys (tx_writes (th_tx c)) \<subseteq> set (cr_touched run) \<union> write_keys (cr_todo run))"

text \<open>
  A validated commit has seen every version of the rows that it writes, and a finished one has
  left its number on them, or a higher one stands there.
\<close>

definition thread_ok :: "(string \<Rightarrow> row_id \<Rightarrow> u64) \<Rightarrow> tx_manager \<Rightarrow> row_key set \<Rightarrow> tx_thread \<Rightarrow> bool" where
  "thread_ok hash m ins c \<longleftrightarrow>
     tx_start_seq (th_tx c) \<le> tm_commit_seq m \<and> holds_stripes hash c \<and> run_ok ins c \<and>
     (\<forall>s. thread_seq c = Some s \<longrightarrow> tx_start_seq (th_tx c) < s \<and> s \<le> tm_commit_seq m) \<and>
     (committing c \<longrightarrow> (\<forall>k \<in> write_keys (tx_writes (th_tx c)) - ins. \<forall>v. hm_get (tm_versions m) k = Some v \<longrightarrow> v \<le> tx_start_seq (th_tx c))) \<and>
     (\<forall>s. th_phase c = Finished s \<longrightarrow> (\<forall>k \<in> th_keys c - ins. \<exists>v. hm_get (tm_versions m) k = Some v \<and> s \<le> v))"

definition pair_ok :: "row_key set \<Rightarrow> tx_thread \<Rightarrow> tx_thread \<Rightarrow> bool" where
  "pair_ok ins c d \<longleftrightarrow>
     set (th_held c) \<inter> set (th_held d) = {} \<and>
     (\<forall>s. thread_seq c = Some s \<longrightarrow> thread_seq d \<noteq> Some s) \<and>
     (\<forall>a b k. th_phase c = Finished a \<and> th_phase d = Finished b \<and> k \<in> th_keys c \<and> k \<in> th_keys d \<and> k \<notin> ins \<and> a < b \<longrightarrow>
        a \<le> tx_start_seq (th_tx d))"

definition manager_ok :: "tx_manager \<Rightarrow> bool" where
  "manager_ok m \<longleftrightarrow> engine_inv (tm_engine m) \<and> (\<forall>k v. hm_get (tm_versions m) k = Some v \<longrightarrow> 0 < v \<and> v \<le> tm_commit_seq m)"

definition world_inv :: "(string \<Rightarrow> row_id \<Rightarrow> u64) \<Rightarrow> tx_world \<Rightarrow> bool" where
  "world_inv hash w \<longleftrightarrow>
     manager_ok (wo_manager w) \<and>
     (\<forall>i < length (wo_threads w). thread_ok hash (wo_manager w) (wo_inserted w) (wo_threads w ! i)) \<and>
     (\<forall>i < length (wo_threads w). \<forall>j < length (wo_threads w). i \<noteq> j \<longrightarrow>
        pair_ok (wo_inserted w) (wo_threads w ! i) (wo_threads w ! j))"

lemma thread_okD:
  assumes "thread_ok hash m ins c"
  shows "tx_start_seq (th_tx c) \<le> tm_commit_seq m" "holds_stripes hash c" "run_ok ins c"
    "thread_seq c = Some s \<Longrightarrow> tx_start_seq (th_tx c) < s \<and> s \<le> tm_commit_seq m"
    "committing c \<Longrightarrow> k \<in> write_keys (tx_writes (th_tx c)) \<Longrightarrow> k \<notin> ins \<Longrightarrow> hm_get (tm_versions m) k = Some v \<Longrightarrow>
       v \<le> tx_start_seq (th_tx c)"
    "th_phase c = Finished s \<Longrightarrow> k \<in> th_keys c \<Longrightarrow> k \<notin> ins \<Longrightarrow> \<exists>v. hm_get (tm_versions m) k = Some v \<and> s \<le> v"
  using assms by (auto simp: thread_ok_def)

lemma pair_okD:
  assumes "pair_ok ins c d"
  shows "set (th_held c) \<inter> set (th_held d) = {}" "thread_seq c = Some s \<Longrightarrow> thread_seq d \<noteq> Some s"
    "th_phase c = Finished a \<Longrightarrow> th_phase d = Finished b \<Longrightarrow> k \<in> th_keys c \<Longrightarrow> k \<in> th_keys d \<Longrightarrow> k \<notin> ins \<Longrightarrow> a < b \<Longrightarrow>
       a \<le> tx_start_seq (th_tx d)"
  using assms unfolding pair_ok_def by blast+

lemma world_invD:
  assumes "world_inv hash w"
  shows "manager_ok (wo_manager w)"
    "i < length (wo_threads w) \<Longrightarrow> thread_ok hash (wo_manager w) (wo_inserted w) (wo_threads w ! i)"
    "i < length (wo_threads w) \<Longrightarrow> j < length (wo_threads w) \<Longrightarrow> i \<noteq> j \<Longrightarrow>
       pair_ok (wo_inserted w) (wo_threads w ! i) (wo_threads w ! j)"
  using assms by (auto simp: world_inv_def)

lemma pair_ok_mono: "pair_ok ins c d \<Longrightarrow> ins \<subseteq> ins' \<Longrightarrow> pair_ok ins' c d"
  unfolding pair_ok_def by blast

lemma thread_ok_mono:
  assumes "thread_ok hash m ins c" and "ins \<subseteq> ins'" and "tm_commit_seq m \<le> tm_commit_seq m'" and "tm_versions m' = tm_versions m"
  shows "thread_ok hash m' ins' c"
  unfolding thread_ok_def
proof (intro conjI allI impI ballI)
  show "run_ok ins' c"
    using thread_okD(3) [OF assms(1)] assms(2) unfolding run_ok_def by blast
next
  fix k v
  assume "committing c" "k \<in> write_keys (tx_writes (th_tx c)) - ins'" "hm_get (tm_versions m') k = Some v"
  then show "v \<le> tx_start_seq (th_tx c)"
    using thread_okD(5) [OF assms(1)] assms(2,4) by (metis DiffD1 DiffD2 subsetD)
next
  fix s k
  assume "th_phase c = Finished s" "k \<in> th_keys c - ins'"
  then show "\<exists>v. hm_get (tm_versions m') k = Some v \<and> s \<le> v"
    using thread_okD(6) [OF assms(1)] assms(2,4) by (metis DiffD1 DiffD2 subsetD)
qed (use assms thread_okD(1,2,4) [OF assms(1)] in \<open>auto intro: order_trans\<close>)

text \<open>One thread moves: the others keep their guarantees.\<close>

lemma world_inv_put:
  assumes "world_inv hash w" and "manager_ok m" and "wo_inserted w \<subseteq> ins"
    and "n < length (wo_threads w)" and "thread_ok hash m ins c"
    and others: "\<And>j. j < length (wo_threads w) \<Longrightarrow> j \<noteq> n \<Longrightarrow> thread_ok hash m ins (wo_threads w ! j)"
    and pairs: "\<And>j. j < length (wo_threads w) \<Longrightarrow> j \<noteq> n \<Longrightarrow> pair_ok ins c (wo_threads w ! j) \<and> pair_ok ins (wo_threads w ! j) c"
  shows "world_inv hash (put_thread n c (w \<lparr> wo_manager := m, wo_inserted := ins, wo_unstamped := u \<rparr>))"
proof -
  have "pair_ok ins (wo_threads w ! i) (wo_threads w ! j)"
    if "i < length (wo_threads w)" "j < length (wo_threads w)" "i \<noteq> j" for i j
    using pair_ok_mono [OF world_invD(3) [OF assms(1) that] assms(3)] .
  with assms show ?thesis
    by (auto simp: world_inv_def put_thread_def nth_list_update)
qed

text \<open>A step that stamps no row.\<close>

lemma world_inv_put_calm:
  assumes inv: "world_inv hash w" and n: "n < length (wo_threads w)" and ins: "wo_inserted w \<subseteq> ins"
    and m: "engine_inv (tm_engine m)" "tm_commit_seq (wo_manager w) \<le> tm_commit_seq m" "tm_versions m = tm_versions (wo_manager w)"
    and c: "thread_ok hash m ins c"
    and pairs: "\<And>j. j < length (wo_threads w) \<Longrightarrow> j \<noteq> n \<Longrightarrow> pair_ok ins c (wo_threads w ! j) \<and> pair_ok ins (wo_threads w ! j) c"
  shows "world_inv hash (put_thread n c (w \<lparr> wo_manager := m, wo_inserted := ins, wo_unstamped := u \<rparr>))"
proof (rule world_inv_put [OF inv _ ins n c _ pairs])
  show "manager_ok m"
    using world_invD(1) [OF inv] m unfolding manager_ok_def by (metis order_trans)
qed (use thread_ok_mono [OF world_invD(2) [OF inv] ins m(2,3)] in auto)

text \<open>A step that only changes the thread.\<close>

lemma world_inv_put_same:
  assumes inv: "world_inv hash w" and n: "n < length (wo_threads w)"
    and ok: "thread_ok hash (wo_manager w) (wo_inserted w) c"
    and pairs: "\<And>j. j < length (wo_threads w) \<Longrightarrow> j \<noteq> n \<Longrightarrow>
      pair_ok (wo_inserted w) c (wo_threads w ! j) \<and> pair_ok (wo_inserted w) (wo_threads w ! j) c"
  shows "world_inv hash (put_thread n c w)"
  using world_inv_put_calm [OF inv n subset_refl _ order_refl refl ok pairs, of "wo_unstamped w"] world_invD(1) [OF inv]
  by (simp add: manager_ok_def)

text \<open>Steps of a thread before it claims a number.\<close>

lemma pair_ok_quiet:
  assumes "thread_seq c = None" and "set (th_held c) \<inter> set (th_held d) = {}"
  shows "pair_ok ins c d" and "pair_ok ins d c"
  using assms by (auto simp: pair_ok_def thread_seq_def split: tx_phase.splits)

lemma thread_ok_quiet:
  assumes "thread_seq c = None" and "th_phase c \<noteq> Validated"
    and "tx_start_seq (th_tx c) \<le> tm_commit_seq m" and "holds_stripes hash c"
  shows "thread_ok hash m ins c"
  using assms by (auto simp: thread_ok_def run_ok_def committing_def thread_seq_def)

lemma thread_step_quiet:
  assumes "thread_step hash m now cs a c = Some c'"
  shows "thread_seq c' = None" and "tx_start_seq (th_tx c') = tx_start_seq (th_tx c)"
    and "set (th_held c') \<subseteq> set (th_held c) \<union> {s. \<not> list_ex (\<lambda>d. s \<in> set (th_held d)) cs}"
    and "holds_stripes hash c \<Longrightarrow> holds_stripes hash c'"
  using assms
  by (cases a; auto simp: read_version_def read_row_def start_commit_def acquire_stripe_def validate_thread_def thread_seq_def
      tx_push_def tx_record_read_def tx_commit_def tx_rollback_def holds_stripes_def Let_def
      split: if_splits tx_phase.splits option.splits write_op.splits sum.splits list.splits)+

lemma mem_write_keys: "k \<in> write_keys ws \<longleftrightarrow> (\<exists>op \<in> set ws. write_key op = Some k)"
  by (induction ws) (auto simp: write_keys_def map_filter_simps split: option.split)

lemma thread_step_validated:
  assumes "thread_step hash m now cs a c = Some c'" and "th_phase c' = Validated"
  shows "tm_validate m (th_tx c) = None \<and> th_tx c' = th_tx c \<and> th_phase c = Locking [] \<and> th_held c' = th_held c \<and> th_seen c' = th_seen c"
  using assms
  by (cases a) (auto simp: read_version_def read_row_def start_commit_def acquire_stripe_def validate_thread_def Let_def
      split: if_splits tx_phase.splits option.splits write_op.splits sum.splits list.splits)

lemma thread_step_ok:
  assumes "thread_ok hash m ins c" and step: "thread_step hash m now cs a c = Some c'"
  shows "thread_ok hash m ins c'"
proof (cases "th_phase c' = Validated")
  case False
  then show ?thesis
    using thread_step_quiet [OF step] thread_okD(1,2) [OF assms(1)] by (intro thread_ok_quiet) auto
next
  case True
  note v = thread_step_validated [OF step True]
  have "v \<le> tx_start_seq (th_tx c')" if "k \<in> write_keys (tx_writes (th_tx c'))" "hm_get (tm_versions m) k = Some v" for k v
    using that v tm_validate_None(1) [of m "th_tx c" _ k v] unfolding mem_write_keys by metis
  then show ?thesis
    using thread_step_quiet [OF step] thread_okD(1,2) [OF assms(1)] True
    by (auto simp: thread_ok_def run_ok_def)
qed

lemma world_inv_thread_step:
  assumes inv: "world_inv hash w" and n: "n < length (wo_threads w)"
    and step: "thread_step hash (wo_manager w) (length (wo_unstamped w)) (wo_threads w) a (wo_threads w ! n) = Some c"
  shows "world_inv hash (put_thread n c w)"
proof (rule world_inv_put_same [OF inv n thread_step_ok [OF world_invD(2) [OF inv n] step]])
  fix j
  assume j: "j < length (wo_threads w)" "j \<noteq> n"
  have "set (th_held (wo_threads w ! n)) \<inter> set (th_held (wo_threads w ! j)) = {}"
    using pair_okD(1) [OF world_invD(3) [OF inv n j(1)]] j(2) by blast
  moreover have "s \<notin> set (th_held (wo_threads w ! j))" if "\<not> list_ex (\<lambda>d. s \<in> set (th_held d)) (wo_threads w)" for s
    using that j(1) by (auto simp: list_ex_iff)
  ultimately have "set (th_held c) \<inter> set (th_held (wo_threads w ! j)) = {}"
    using thread_step_quiet(3) [OF step] by blast
  then show "pair_ok (wo_inserted w) c (wo_threads w ! j) \<and> pair_ok (wo_inserted w) (wo_threads w ! j) c"
    using pair_ok_quiet [OF thread_step_quiet(1) [OF step]] by blast
qed

text \<open>Two commits in their critical sections write different rows, and neither reads what the other writes.\<close>

lemma commit_stripes_cover:
  shows "k \<in> write_keys (tx_writes tx) \<Longrightarrow> stripe_index hash (fst k) (snd k) \<in> set (commit_stripes hash tx)"
    and "validates_reads (tx_isolation tx) \<Longrightarrow> (t, i, v) \<in> set (tx_read_set tx) \<Longrightarrow> stripe_index hash t i \<in> set (commit_stripes hash tx)"
  using commit_stripes_ordered [of hash tx] by (auto simp: mem_write_keys) (metis prod.collapse)+

lemma committing_held: "committing c \<Longrightarrow> holds_stripes hash c \<Longrightarrow> set (th_held c) = set (commit_stripes hash (th_tx c))"
  by (auto simp: committing_def holds_stripes_def)

lemma committing_disjoint:
  assumes "committing c" "committing d" "holds_stripes hash c" "holds_stripes hash d" "pair_ok ins c d"
  shows "write_keys (tx_writes (th_tx c)) \<inter> write_keys (tx_writes (th_tx d)) = {}"
proof -
  have "set (commit_stripes hash (th_tx c)) \<inter> set (commit_stripes hash (th_tx d)) = {}"
    using pair_okD(1) [OF assms(5)] assms committing_held by metis
  then show ?thesis
    using commit_stripes_cover(1) [where hash = hash] by blast
qed

lemma claim_number_inv:
  assumes inv: "world_inv hash w" and n: "n < length (wo_threads w)" and seq: "tm_commit_seq (wo_manager w) \<noteq> - 1"
    and step: "claim_number n w = Some w'"
  shows "world_inv hash w'"
proof -
  define c m where "c = wo_threads w ! n" and "m = wo_manager w"
  define c' where "c' = c \<lparr> th_phase := Applying \<lparr> cr_seq = tm_commit_seq m + 1, cr_todo = tx_writes (th_tx c), cr_touched = [] \<rparr> \<rparr>"
  have ph: "th_phase c = Validated" and w': "w' = put_thread n c' (w \<lparr> wo_manager := m \<lparr> tm_commit_seq := tm_commit_seq m + 1 \<rparr> \<rparr>)"
    using step by (auto simp: claim_number_def c_def m_def c'_def Let_def split: tx_phase.splits)
  have lt: "tm_commit_seq m < tm_commit_seq m + 1"
    using seq by (auto simp: m_def intro: word_less_plus_1)
  note ok = world_invD(2) [OF inv n, folded c_def m_def]
  have "thread_ok hash (m \<lparr> tm_commit_seq := tm_commit_seq m + 1 \<rparr>) (wo_inserted w) c'"
    using ok ph lt thread_okD(1) [OF ok]
    by (auto simp: thread_ok_def c'_def committing_def holds_stripes_def run_ok_def thread_seq_def)
  moreover have "pair_ok (wo_inserted w) c' (wo_threads w ! j) \<and> pair_ok (wo_inserted w) (wo_threads w ! j) c'"
    if "j < length (wo_threads w)" "j \<noteq> n" for j
  proof -
    have "thread_seq (wo_threads w ! j) \<noteq> Some (tm_commit_seq m + 1)"
      using thread_okD(4) [OF world_invD(2) [OF inv that(1)]] lt by (force simp: m_def)
    then show ?thesis
      using pair_okD(1) [OF world_invD(3) [OF inv n that(1)]] that(2)
      by (auto simp: pair_ok_def c'_def c_def thread_seq_def)
  qed
  ultimately show ?thesis
    using world_inv_put_calm [OF inv n subset_refl, of "m \<lparr> tm_commit_seq := tm_commit_seq m + 1 \<rparr>" c' "wo_unstamped w"]
      world_invD(1) [OF inv] lt
    by (simp add: w' m_def manager_ok_def)
qed

lemma commit_apply_Ok:
  assumes "commit_apply run m = (Ok run', m')" and "cr_todo run = op # ops"
  obtains k e where "apply_write op (tm_engine m) = (Ok k, e)" "m' = m \<lparr> tm_engine := e \<rparr>"
    "run' = run \<lparr> cr_todo := ops, cr_touched := cr_touched run @ [k] \<rparr>"
  using assms by (auto simp: commit_apply_def split: prod.splits sum.splits)

lemma commit_apply_Err:
  assumes "commit_apply run m = (Err err, m')"
  shows "m' = m"
  using assms engine_store.do_write_Err
  by (auto simp: commit_apply_def apply_write_store split: list.splits prod.splits sum.splits)

lemma apply_write_Ok:
  assumes "engine_inv e" and "write_fits op e" and "apply_write op e = (Ok k, e')"
  shows "engine_inv e'" "write_key op = Some k' \<Longrightarrow> k = k'" "(t, i) \<noteq> k \<Longrightarrow> engine_get t i e' = engine_get t i e"
    "write_key op \<noteq> Some (t, i) \<Longrightarrow> engine_get t i e = Ok (Some r) \<Longrightarrow> engine_get t i e' = Ok (Some r)"
  using engine_store.do_write_Ok [OF assms(1,2) [unfolded write_fits_store]]
    engine_store.do_write_present [OF assms(1,2) [unfolded write_fits_store], of t i r] assms(3)
  by (auto simp: apply_write_store write_target_store)

lemma write_keys_Nil [simp]: "write_keys [] = {}"
  by (simp add: write_keys_def map_filter_simps)

lemma write_keys_Cons: "write_keys (op # ops) = (case write_key op of None \<Rightarrow> {} | Some k \<Rightarrow> {k}) \<union> write_keys ops"
  by (auto simp: write_keys_def map_filter_simps split: option.split)

lemma apply_failed_inv:
  assumes inv: "world_inv hash w" and n: "n < length (wo_threads w)"
    and c': "c' = (wo_threads w ! n) \<lparr> th_phase := Running, th_held := [], th_tx := (th_tx (wo_threads w ! n)) \<lparr> tx_writes := [] \<rparr> \<rparr>"
  shows "world_inv hash (put_thread n c' (w \<lparr> wo_manager := wo_manager w, wo_inserted := wo_inserted w, wo_unstamped := u \<rparr>))"
proof -
  have quiet: "thread_seq c' = None" "th_held c' = []"
    by (simp_all add: c' thread_seq_def)
  have "thread_ok hash (wo_manager w) (wo_inserted w) c'"
    using thread_okD(1) [OF world_invD(2) [OF inv n]]
    by (intro thread_ok_quiet) (auto simp: c' thread_seq_def holds_stripes_def)
  then show ?thesis
    using world_inv_put_calm [OF inv n subset_refl _ order_refl refl] pair_ok_quiet [OF quiet(1)] quiet(2) world_invD(1) [OF inv]
    by (simp add: manager_ok_def)
qed

lemma apply_done_inv:
  assumes inv: "world_inv hash w" and n: "n < length (wo_threads w)"
    and ph: "th_phase (wo_threads w ! n) = Applying run" and todo: "cr_todo run = op # ops"
    and wok: "write_fits op (tm_engine (wo_manager w))"
    and app: "apply_write op (tm_engine (wo_manager w)) = (Ok k, e)"
    and ins: "ins = wo_inserted w \<union> (if write_key op = None then {k} else {})"
    and c': "c' = (wo_threads w ! n) \<lparr> th_phase := Applying (run \<lparr> cr_todo := ops, cr_touched := cr_touched run @ [k] \<rparr>) \<rparr>"
  shows "world_inv hash (put_thread n c' (w \<lparr> wo_manager := (wo_manager w) \<lparr> tm_engine := e \<rparr>, wo_inserted := ins, wo_unstamped := u \<rparr>))"
proof -
  define c m where "c = wo_threads w ! n" and "m = (wo_manager w) \<lparr> tm_engine := e \<rparr>"
  have einv: "engine_inv (tm_engine (wo_manager w))"
    using world_invD(1) [OF inv] by (simp add: manager_ok_def)
  note c_ok = world_invD(2) [OF inv n, folded c_def]
  have sub: "wo_inserted w \<subseteq> ins"
    by (auto simp: ins)
  have key: "k \<in> write_keys [op] \<union> ins" "write_keys [op] \<subseteq> {k}"
    using apply_write_Ok(2) [OF einv wok app] by (auto simp: ins write_keys_def map_filter_simps split: option.splits)
  have "run_ok ins c'"
    using thread_okD(3) [OF c_ok] ph todo key sub write_keys_Cons [of op ops] write_keys_Cons [of op "[]"]
    unfolding run_ok_def c' c_def by auto
  then have "thread_ok hash m ins c'"
    using thread_ok_mono [OF c_ok sub, of m] ph unfolding thread_ok_def
    by (simp add: c' c_def m_def thread_seq_def committing_def holds_stripes_def)
  moreover have "pair_ok ins c' d \<and> pair_ok ins d c'" if "pair_ok (wo_inserted w) c d" "pair_ok (wo_inserted w) d c" for d
    using that ph by (auto simp: c' c_def pair_ok_def thread_seq_def)
  ultimately show ?thesis
    using world_inv_put_calm [OF inv n sub, of m c' u] apply_write_Ok(1) [OF einv wok app] world_invD(3) [OF inv] n
    by (simp add: m_def c_def)
qed

lemma apply_next_inv:
  assumes inv: "world_inv hash w" and n: "n < length (wo_threads w)" and ok: "action_ok (AApply n) w"
    and step: "apply_next n w = Some w'"
  shows "world_inv hash w'"
proof -
  obtain run op ops where ph: "th_phase (wo_threads w ! n) = Applying run" and todo: "cr_todo run = op # ops"
    using step by (auto simp: apply_next_def Let_def split: tx_phase.splits list.splits)
  obtain res m' where app: "commit_apply run (wo_manager w) = (res, m')"
    by (cases "commit_apply run (wo_manager w)")
  show ?thesis
  proof (cases res)
    case (Inl err)
    then have "m' = wo_manager w"
      using app commit_apply_Err by blast
    then show ?thesis
      using step ph todo app Inl apply_failed_inv [OF inv n refl, of "wo_unstamped w @ [set (cr_touched run)]"]
      by (auto simp: apply_next_def Let_def)
  next
    case (Inr run')
    from commit_apply_Ok [OF app [unfolded Inr] todo] obtain k e where
      "apply_write op (tm_engine (wo_manager w)) = (Ok k, e)" "m' = (wo_manager w) \<lparr> tm_engine := e \<rparr>"
      "run' = run \<lparr> cr_todo := ops, cr_touched := cr_touched run @ [k] \<rparr>"
      by blast
    then show ?thesis
      using step ph todo app Inr ok apply_done_inv [OF inv n ph todo, of k e _ _ "wo_unstamped w"]
      by (auto simp: apply_next_def Let_def)
  qed
qed

text \<open>The stamp of a commit: what it finds on its rows is older than its beginning.\<close>

definition finished_thread :: "commit_run \<Rightarrow> tx_thread \<Rightarrow> tx_thread" where
  "finished_thread run c =
     c \<lparr> th_phase := Finished (cr_seq run), th_held := [], th_keys := write_keys (tx_writes (th_tx c)),
         th_tx := (th_tx c) \<lparr> tx_writes := [], tx_state := Committed \<rparr> \<rparr>"

lemma stamped_version:
  "hm_get (tm_versions (snd (commit_stamp run m))) k = (if k \<in> set (cr_touched run) then Some (cr_seq run) else hm_get (tm_versions m) k)"
  by (simp add: commit_stamp_def hm_get_stamp)

lemma stamp_manager [simp]:
  "tm_commit_seq (snd (commit_stamp run m)) = tm_commit_seq m" "tm_engine (snd (commit_stamp run m)) = tm_engine m"
  by (simp_all add: commit_stamp_def)

lemma stamping_thread:
  assumes "thread_ok hash m ins c" and "th_phase c = Applying run" and "cr_todo run = []"
  shows "committing c" "tx_start_seq (th_tx c) < cr_seq run" "cr_seq run \<le> tm_commit_seq m"
    "set (cr_touched run) \<subseteq> write_keys (tx_writes (th_tx c)) \<union> ins" "write_keys (tx_writes (th_tx c)) \<subseteq> set (cr_touched run)"
  using thread_okD(3) [OF assms(1)] thread_okD(4) [OF assms(1), of "cr_seq run"] assms(2,3)
  by (auto simp: committing_def thread_seq_def run_ok_def)

text \<open>A finished commit that shares a row with one about to stamp had claimed its number before that one began.\<close>

lemma finished_before:
  assumes c: "thread_ok hash m ins c" "committing c" and d: "thread_ok hash m ins d" "th_phase d = Finished s"
    and k: "k \<in> th_keys d" "k \<in> write_keys (tx_writes (th_tx c))" "k \<notin> ins"
  shows "s \<le> tx_start_seq (th_tx c)"
  using thread_okD(6) [OF d k(1,3)] thread_okD(5) [OF c k(2,3)] by (meson order_trans)

lemma stamp_other_ok:
  assumes c: "thread_ok hash m ins c" "th_phase c = Applying run" "cr_todo run = []"
    and d: "thread_ok hash m ins d" and pair: "pair_ok ins c d"
  shows "thread_ok hash (snd (commit_stamp run m)) ins d"
  unfolding thread_ok_def
proof (intro conjI allI impI ballI)
  note st = stamping_thread [OF c]
  fix k v
  assume com: "committing d" and k: "k \<in> write_keys (tx_writes (th_tx d)) - ins"
    and v: "hm_get (tm_versions (snd (commit_stamp run m))) k = Some v"
  have "k \<notin> set (cr_touched run)"
    using committing_disjoint [OF st(1) com thread_okD(2) [OF c(1)] thread_okD(2) [OF d] pair] k st(4) by blast
  then show "v \<le> tx_start_seq (th_tx d)"
    using v thread_okD(5) [OF d com, of k v] k by (simp add: stamped_version)
next
  note st = stamping_thread [OF c]
  fix s k
  assume fin: "th_phase d = Finished s" and k: "k \<in> th_keys d - ins"
  show "\<exists>v. hm_get (tm_versions (snd (commit_stamp run m))) k = Some v \<and> s \<le> v"
  proof (cases "k \<in> set (cr_touched run)")
    case True
    then have "s \<le> tx_start_seq (th_tx c)"
      using finished_before [OF c(1) st(1) d fin, of k] k st(4) by blast
    with st(2) True show ?thesis
      by (auto simp: stamped_version)
  next
    case False
    then show ?thesis
      using thread_okD(6) [OF d fin, of k] k by (auto simp: stamped_version)
  qed
qed (use thread_okD(1-4) [OF d] in auto)

lemma stamp_own_ok:
  assumes c: "thread_ok hash m ins c" "th_phase c = Applying run" "cr_todo run = []"
  shows "thread_ok hash (snd (commit_stamp run m)) ins (finished_thread run c)"
  using stamping_thread [OF c] thread_okD(1) [OF c(1)]
  by (auto simp: thread_ok_def finished_thread_def holds_stripes_def run_ok_def thread_seq_def committing_def stamped_version)

lemma stamp_pair_ok:
  assumes c: "thread_ok hash m ins c" "th_phase c = Applying run" "cr_todo run = []"
    and d: "thread_ok hash m ins d" and pair: "pair_ok ins c d"
  shows "pair_ok ins (finished_thread run c) d \<and> pair_ok ins d (finished_thread run c)"
proof -
  note st = stamping_thread [OF c]
  have before: "s < cr_seq run \<and> s \<le> tx_start_seq (th_tx c)"
    if "th_phase d = Finished s" "k \<in> th_keys d" "k \<in> write_keys (tx_writes (th_tx c))" "k \<notin> ins" for s k
    using finished_before [OF c(1) st(1) d that] st(2) by auto
  have "thread_seq d \<noteq> Some (cr_seq run)"
    using pair_okD(2) [OF pair, of "cr_seq run"] c(2) by (simp add: thread_seq_def)
  then show ?thesis
    unfolding pair_ok_def finished_thread_def using before by (fastforce simp: thread_seq_def)
qed

lemma stamp_rows_inv:
  assumes inv: "world_inv hash w" and n: "n < length (wo_threads w)" and step: "stamp_rows n w = Some w'"
  shows "world_inv hash w'"
proof -
  obtain run where c: "th_phase (wo_threads w ! n) = Applying run" "cr_todo run = []"
    and w': "w' = put_thread n (finished_thread run (wo_threads w ! n)) (w \<lparr> wo_manager := snd (commit_stamp run (wo_manager w)) \<rparr>)"
    using step by (auto simp: stamp_rows_def finished_thread_def Let_def split: tx_phase.splits if_splits)
  note ok = world_invD(2) [OF inv n]
  have "manager_ok (snd (commit_stamp run (wo_manager w)))"
    using world_invD(1) [OF inv] stamping_thread(2,3) [OF ok c]
    by (auto simp: manager_ok_def stamped_version word_gt_0)
  from world_inv_put [OF inv this subset_refl n stamp_own_ok [OF ok c], of "wo_unstamped w"] show ?thesis
    using stamp_other_ok [OF ok c world_invD(2) [OF inv] world_invD(3) [OF inv n]]
      stamp_pair_ok [OF ok c world_invD(2) [OF inv] world_invD(3) [OF inv n]]
    by (simp add: w')
qed

section \<open>First committer wins\<close>

lemma begin_inv:
  assumes inv: "world_inv hash w" and step: "act hash (ABegin lvl) w = Some w'"
  shows "world_inv hash w'"
proof -
  define c m where "c = thread_new (fst (tm_begin lvl (wo_manager w)))" and "m = snd (tm_begin lvl (wo_manager w))"
  have w': "w' = w \<lparr> wo_manager := m, wo_threads := wo_threads w @ [c] \<rparr>"
    using step by (auto simp: c_def m_def case_prod_beta)
  have m: "tm_engine m = tm_engine (wo_manager w)" "tm_versions m = tm_versions (wo_manager w)" "tm_commit_seq m = tm_commit_seq (wo_manager w)"
    by (simp_all add: m_def tm_begin_def)
  have c: "thread_seq c = None" "th_held c = []" "thread_ok hash m (wo_inserted w) c"
    by (auto simp: c_def m thread_new_def tm_begin_def thread_seq_def holds_stripes_def intro!: thread_ok_quiet)
  have "thread_ok hash m (wo_inserted w) (wo_threads w ! i)" if "i < length (wo_threads w)" for i
    using thread_ok_mono [OF world_invD(2) [OF inv that] subset_refl] m by simp
  then show ?thesis
    using inv c m pair_ok_quiet [OF c(1)]
    by (auto simp: world_inv_def w' manager_ok_def nth_append less_Suc_eq)
qed

lemma direct_inv:
  assumes inv: "world_inv hash w" and "op_ok op (tm_engine (wo_manager w))"
  shows "world_inv hash (direct_write op w)"
proof -
  have "engine_inv (apply_op op (tm_engine (wo_manager w)))"
    using world_invD(1) [OF inv] assms(2) engine_inv_step by (auto simp: manager_ok_def)
  moreover have "thread_ok hash ((wo_manager w) \<lparr> tm_engine := e \<rparr>) (wo_inserted w) c = thread_ok hash (wo_manager w) (wo_inserted w) c" for e c
    by (simp add: thread_ok_def)
  ultimately show ?thesis
    using inv by (simp add: world_inv_def direct_write_def manager_ok_def Let_def)
qed

lemma act_inv:
  assumes inv: "world_inv hash w" and "action_ok a w" and step: "act hash a w = Some w'"
  shows "world_inv hash w'"
proof (cases a)
  case (ABegin lvl)
  then show ?thesis using begin_inv [OF inv] step by simp
next
  case (AClaim n)
  then show ?thesis using claim_number_inv [OF inv] assms by (auto split: if_splits)
next
  case (AApply n)
  then show ?thesis using apply_next_inv [OF inv] assms by (auto simp del: action_ok.simps split: if_splits)
next
  case (AStamp n)
  then show ?thesis using stamp_rows_inv [OF inv] step by (auto split: if_splits)
qed (use step world_inv_thread_step [OF inv] in \<open>auto simp del: thread_step.simps split: if_splits\<close>)

lemma world_reachable_inv: "world_reachable hash w \<Longrightarrow> world_inv hash w"
proof (induction rule: world_reachable.induct)
  case (world_start e)
  then show ?case
    using engine_reachable_inv by (auto simp: world_inv_def world_new_def manager_ok_def tm_new_def)
qed (auto intro: act_inv direct_inv)

text \<open>A sequence of steps, each in order.\<close>

fun run_actions :: "(string \<Rightarrow> row_id \<Rightarrow> u64) \<Rightarrow> tx_action list \<Rightarrow> tx_world \<Rightarrow> tx_world option" where
  "run_actions hash [] w = Some w"
| "run_actions hash (a # acts) w =
     (if action_ok a w then (case act hash a w of None \<Rightarrow> None | Some w' \<Rightarrow> run_actions hash acts w') else None)"

lemma run_actions_reachable:
  "world_reachable hash w \<Longrightarrow> run_actions hash acts w = Some w' \<Longrightarrow> world_reachable hash w'"
  by (induction acts arbitrary: w) (auto split: if_splits option.splits dest: world_act)

text \<open>
  C13: first committer wins, whatever the interleaving. When two transactions have both committed
  an update or a deletion of the same row, a row that no transaction inserted, then the numbers
  of their commits differ, and the one with the higher number began after the other had claimed
  its number: a transaction that began before a commit to its row was numbered is never
  committed behind it. Every step of the threads may interleave with every other: beginning,
  reading, each lock, validation, claiming the number, each write, stamping, and the writes of
  the rest of the server. The counter is assumed not to overflow, and the writes to be ones the
  engine's invariant covers (no negative zero). The rows inserted by transactions are left out:
  their insert takes no lock.
\<close>

theorem first_committer_wins_interleaved:
  assumes "world_reachable hash w" and "i < length (wo_threads w)" and "j < length (wo_threads w)" and "i \<noteq> j"
    and "th_phase (wo_threads w ! i) = Finished a" and "th_phase (wo_threads w ! j) = Finished b"
    and "k \<in> th_keys (wo_threads w ! i)" and "k \<in> th_keys (wo_threads w ! j)" and "k \<notin> wo_inserted w"
  shows "a < b \<and> a \<le> tx_start_seq (th_tx (wo_threads w ! j)) \<or> b < a \<and> b \<le> tx_start_seq (th_tx (wo_threads w ! i))"
proof -
  note inv = world_reachable_inv [OF assms(1)]
  note ij = world_invD(3) [OF inv assms(2,3,4)] and ji = world_invD(3) [OF inv assms(3,2) assms(4) [symmetric]]
  have "a \<noteq> b"
    using pair_okD(2) [OF ij, of a] assms(5,6) by (auto simp: thread_seq_def)
  then show ?thesis
    using pair_okD(3) [OF ij assms(5,6,7,8,9)] pair_okD(3) [OF ji assms(6,5,8,7,9)] by (meson linorder_cases)
qed

definition demo_write :: "f64 \<Rightarrow> write_op" where
  "demo_write x = WUpdate ''users'' 1 [(''score'', VFloat64 x)]"

text \<open>The second transaction begins between the number and the writes of the first.\<close>

definition demo_actions :: "tx_action list" where
  "demo_actions =
    [ABegin ReadCommitted, ABuffer 0 (demo_write 5), ACommit 0, AAcquire 0, AValidate 0, AClaim 0, ABegin Serializable,
     AApply 0, AStamp 0, ABuffer 1 (demo_write 6), ACommit 1, AAcquire 1, AValidate 1, AClaim 1, AApply 1, AStamp 1]"

definition demo_world :: tx_world where
  "demo_world = the (run_actions (\<lambda>t i. 0) demo_actions (world_new demo_engine))"

lemma demo_world_threads:
  "map th_phase (wo_threads demo_world) = [Finished 1, Finished 2]"
  "map th_keys (wo_threads demo_world) = [{(''users'', 1)}, {(''users'', 1)}]"
  "wo_inserted demo_world = {}"
  by code_simp+

lemma demo_world_reachable: "world_reachable (\<lambda>t i. 0) demo_world"
proof -
  have "run_actions (\<lambda>t i. 0) demo_actions (world_new demo_engine) \<noteq> None" by code_simp
  then show ?thesis
    using run_actions_reachable [OF world_start [OF demo_engine_reachable]] by (auto simp: demo_world_def)
qed

theorem first_committer_wins_interleaved_witness: "1 \<le> tx_start_seq (th_tx (wo_threads demo_world ! 1))"
proof -
  have len: "length (wo_threads demo_world) = 2"
    using arg_cong [OF demo_world_threads(1), of length] by simp
  then have "th_phase (wo_threads demo_world ! 0) = Finished 1" "th_phase (wo_threads demo_world ! 1) = Finished 2"
    "th_keys (wo_threads demo_world ! 0) = {(''users'', 1)}" "th_keys (wo_threads demo_world ! 1) = {(''users'', 1)}"
    using arg_cong [OF demo_world_threads(1), of "\<lambda>xs. xs ! 0"] arg_cong [OF demo_world_threads(1), of "\<lambda>xs. xs ! 1"]
      arg_cong [OF demo_world_threads(2), of "\<lambda>xs. xs ! 0"] arg_cong [OF demo_world_threads(2), of "\<lambda>xs. xs ! 1"] by simp_all
  then show ?thesis
    using first_committer_wins_interleaved [OF demo_world_reachable, of 0 1 1 2 "(''users'', 1)"] len demo_world_threads(3)
    by simp
qed

end
