(* ===== verification/Tx_Reads.thy ===== *)
theory Tx_Reads
  imports Tx_Threads
begin

text \<open>
  What a repeatable-read or serializable commit has read (\<open>blitz-tx/src/manager.rs\<close>), when the
  threads of the manager interleave: the rows it saw are still in the engine while it applies its
  own writes.
\<close>

section \<open>What a commit has read\<close>

text \<open>The numbers that versions may hold, the rows written without a version since a moment, and the rows that a commit has written and not yet stamped.\<close>

definition numbers :: "tx_world \<Rightarrow> u64 set" where
  "numbers w = insert 0 {s. \<exists>c \<in> set (wo_threads w). th_phase c = Finished s}"

definition dirty :: "tx_world \<Rightarrow> nat \<Rightarrow> row_key set" where
  "dirty w n = \<Union> (set (drop n (wo_unstamped w)))"

definition applied_keys :: "tx_thread \<Rightarrow> row_key set" where
  "applied_keys c = (case th_phase c of Applying run \<Rightarrow> set (cr_touched run) | _ \<Rightarrow> {})"

definition unstamped_keys :: "tx_thread \<Rightarrow> row_key set" where
  "unstamped_keys c = applied_keys c \<inter> write_keys (tx_writes (th_tx c))"

definition writing :: "tx_world \<Rightarrow> row_key \<Rightarrow> bool" where
  "writing w k \<longleftrightarrow> (\<exists>d \<in> set (wo_threads w). k \<in> unstamped_keys d)"

definition version_of :: "tx_world \<Rightarrow> row_key \<Rightarrow> u64" where
  "version_of w k = current_version (wo_manager w) (fst k) (snd k)"

definition row_of :: "tx_world \<Rightarrow> row_key \<Rightarrow> core_error + row option" where
  "row_of w k = engine_get (fst k) (snd k) (tm_engine (wo_manager w))"

definition reads_recorded :: "tx_world \<Rightarrow> tx_thread \<Rightarrow> bool" where
  "reads_recorded w c \<longleftrightarrow>
     (\<forall>t i v. th_phase c = ReadingRow t i v \<longrightarrow> v \<in> numbers w) \<and>
     (\<forall>k v r n. (k, v, r, n) \<in> set (th_seen c) \<longrightarrow>
        v \<in> numbers w \<and> n \<le> length (wo_unstamped w) \<and> (fst k, snd k, v) \<in> set (tx_read_set (th_tx c)))"

definition reads_fresh :: "tx_world \<Rightarrow> tx_thread \<Rightarrow> bool" where
  "reads_fresh w c \<longleftrightarrow>
     (\<forall>k v r n. (k, v, Some r, n) \<in> set (th_seen c) \<and> version_of w k = v \<longrightarrow>
        row_of w k = Ok (Some r) \<or> k \<in> dirty w n \<or> writing w k)"

definition reads_kept :: "tx_world \<Rightarrow> tx_thread \<Rightarrow> bool" where
  "reads_kept w c \<longleftrightarrow>
     (committing c \<and> validates_reads (tx_isolation (th_tx c)) \<longrightarrow>
        (\<forall>k v r n. (k, v, Some r, n) \<in> set (th_seen c) \<and> k \<notin> applied_keys c \<longrightarrow> row_of w k = Ok (Some r) \<or> k \<in> dirty w n))"

definition reads_inv :: "tx_world \<Rightarrow> bool" where
  "reads_inv w \<longleftrightarrow>
     (\<forall>k. version_of w k \<in> numbers w) \<and>
     (\<forall>c \<in> set (wo_threads w). reads_recorded w c \<and> reads_fresh w c \<and> reads_kept w c)"

lemma reads_invD:
  assumes "reads_inv w"
  shows "version_of w k \<in> numbers w"
    and "n < length (wo_threads w) \<Longrightarrow> reads_recorded w (wo_threads w ! n)"
    and "n < length (wo_threads w) \<Longrightarrow> reads_fresh w (wo_threads w ! n)"
    and "n < length (wo_threads w) \<Longrightarrow> reads_kept w (wo_threads w ! n)"
  using assms unfolding reads_inv_def by (blast, simp_all)

text \<open>What a step of any thread may do to the reads of the others.\<close>

definition harmless :: "tx_world \<Rightarrow> tx_world \<Rightarrow> bool" where
  "harmless w w' \<longleftrightarrow>
     numbers w \<subseteq> numbers w' \<and>
     wo_unstamped w = take (length (wo_unstamped w)) (wo_unstamped w') \<and>
     (\<forall>k. version_of w' k \<in> numbers w \<longrightarrow>
        version_of w k = version_of w' k \<and> (writing w k \<longrightarrow> writing w' k \<or> k \<in> dirty w' (length (wo_unstamped w)))) \<and>
     (\<forall>k r. row_of w k = Ok (Some r) \<longrightarrow> row_of w' k = Ok (Some r) \<or> k \<in> dirty w' (length (wo_unstamped w)) \<or> writing w' k)"

lemma dirty_mono:
  assumes "wo_unstamped w = take (length (wo_unstamped w)) (wo_unstamped w')"
  shows "dirty w n \<subseteq> dirty w' n"
proof -
  obtain ls where "wo_unstamped w' = wo_unstamped w @ ls"
    using assms append_take_drop_id by metis
  then show ?thesis by (auto simp: dirty_def)
qed

lemma dirty_since: "n \<le> l \<Longrightarrow> dirty w l \<subseteq> dirty w n"
  unfolding dirty_def by (metis Union_mono set_drop_subset_set_drop)

lemma harmless_log:
  assumes "harmless w w'"
  shows "length (wo_unstamped w) \<le> length (wo_unstamped w')" "dirty w n \<subseteq> dirty w' n"
proof -
  have "wo_unstamped w = take (length (wo_unstamped w)) (wo_unstamped w')"
    using assms by (simp add: harmless_def)
  from arg_cong [OF this, of length] dirty_mono [OF this]
  show "length (wo_unstamped w) \<le> length (wo_unstamped w')" "dirty w n \<subseteq> dirty w' n"
    by simp_all
qed

lemma harmless_recorded: "reads_recorded w c \<Longrightarrow> harmless w w' \<Longrightarrow> reads_recorded w' c"
  using harmless_log [of w w'] unfolding reads_recorded_def harmless_def by (meson order_trans subsetD)

lemma harmless_fresh:
  assumes "reads_fresh w c" and "reads_recorded w c" and "harmless w w'"
  shows "reads_fresh w' c"
  unfolding reads_fresh_def
proof (intro allI impI)
  fix k v r n
  assume seen: "(k, v, Some r, n) \<in> set (th_seen c) \<and> version_of w' k = v"
  have rec: "v \<in> numbers w" "n \<le> length (wo_unstamped w)"
    using assms(2) seen unfolding reads_recorded_def by blast+
  have log: "dirty w n \<subseteq> dirty w' n" "dirty w' (length (wo_unstamped w)) \<subseteq> dirty w' n"
    using harmless_log(2) [OF assms(3)] dirty_since [OF rec(2)] by blast+
  have same: "version_of w k = v"
    and wr: "writing w k \<longrightarrow> writing w' k \<or> k \<in> dirty w' (length (wo_unstamped w))"
    using assms(3) seen rec(1) unfolding harmless_def by metis+
  from same seen assms(1) have "row_of w k = Ok (Some r) \<or> k \<in> dirty w n \<or> writing w k"
    unfolding reads_fresh_def by blast
  then show "row_of w' k = Ok (Some r) \<or> k \<in> dirty w' n \<or> writing w' k"
    using wr log assms(3) unfolding harmless_def by blast
qed

lemma harmless_kept:
  assumes "reads_kept w c" and "reads_recorded w c" and "harmless w w'"
    and stay: "\<And>k v r n. committing c \<Longrightarrow> validates_reads (tx_isolation (th_tx c)) \<Longrightarrow> (k, v, Some r, n) \<in> set (th_seen c) \<Longrightarrow>
      k \<notin> applied_keys c \<Longrightarrow> row_of w k = Ok (Some r) \<Longrightarrow> row_of w' k = Ok (Some r) \<or> k \<in> dirty w' (length (wo_unstamped w))"
  shows "reads_kept w' c"
  unfolding reads_kept_def
proof (intro impI allI, elim conjE)
  fix k v r n
  assume a: "committing c" "validates_reads (tx_isolation (th_tx c))" and seen: "(k, v, Some r, n) \<in> set (th_seen c)" "k \<notin> applied_keys c"
  have "n \<le> length (wo_unstamped w)"
    using assms(2) seen unfolding reads_recorded_def by blast
  then have "dirty w' (length (wo_unstamped w)) \<subseteq> dirty w' n"
    by (rule dirty_since)
  moreover have "row_of w k = Ok (Some r) \<or> k \<in> dirty w n"
    using assms(1) a seen unfolding reads_kept_def by blast
  ultimately show "row_of w' k = Ok (Some r) \<or> k \<in> dirty w' n"
    using stay [OF a seen] harmless_log(2) [OF assms(3)] by blast
qed

lemma ex_set_nth: "(\<exists>d \<in> set xs. P d) \<longleftrightarrow> (\<exists>j < length xs. P (xs ! j))"
  by (metis in_set_conv_nth)

lemma ex_set_update:
  "n < length xs \<Longrightarrow> (\<exists>d \<in> set (xs[n := c]). P d) \<longleftrightarrow> P c \<or> (\<exists>j < length xs. j \<noteq> n \<and> P (xs ! j))"
  by (auto simp: ex_set_nth nth_list_update)

lemma ex_set_split: "n < length xs \<Longrightarrow> (\<exists>d \<in> set xs. P d) \<longleftrightarrow> P (xs ! n) \<or> (\<exists>j < length xs. j \<noteq> n \<and> P (xs ! j))"
  by (auto simp: ex_set_nth)

lemma numbers_put:
  assumes "n < length (wo_threads w)" and "\<And>s. th_phase (wo_threads w ! n) \<noteq> Finished s" and "wo_threads w' = (wo_threads w)[n := c]"
  shows "numbers w' = numbers w \<union> {s. th_phase c = Finished s}"
  using assms(2) by (auto simp: numbers_def assms(3) ex_set_update [OF assms(1)] ex_set_split [OF assms(1)])

lemma writing_put:
  assumes "n < length (wo_threads w)" and "wo_threads w' = (wo_threads w)[n := c]"
  shows "writing w k \<Longrightarrow> writing w' k \<or> k \<in> unstamped_keys (wo_threads w ! n)" "k \<in> unstamped_keys c \<Longrightarrow> writing w' k"
  unfolding writing_def assms(2) ex_set_update [OF assms(1)] ex_set_split [OF assms(1)] by blast+

text \<open>One thread moves: its own reads, and the rows that the others have read.\<close>

lemma reads_inv_put:
  assumes inv: "reads_inv w" and "harmless w w'" and n: "n < length (wo_threads w)" and ts: "wo_threads w' = (wo_threads w)[n := c]"
    and "\<And>k. version_of w' k \<in> numbers w'"
    and c: "reads_recorded w' c" "reads_fresh w' c" "reads_kept w' c"
    and stay: "\<And>j k v r l. j < length (wo_threads w) \<Longrightarrow> j \<noteq> n \<Longrightarrow> committing (wo_threads w ! j) \<Longrightarrow>
      validates_reads (tx_isolation (th_tx (wo_threads w ! j))) \<Longrightarrow> (k, v, Some r, l) \<in> set (th_seen (wo_threads w ! j)) \<Longrightarrow>
      row_of w k = Ok (Some r) \<Longrightarrow> row_of w' k = Ok (Some r) \<or> k \<in> dirty w' (length (wo_unstamped w))"
  shows "reads_inv w'"
proof -
  have "reads_recorded w' d \<and> reads_fresh w' d \<and> reads_kept w' d" if j: "j < length (wo_threads w)" "j \<noteq> n" "d = wo_threads w ! j" for j d
  proof -
    note d = reads_invD(2-4) [OF inv j(1), folded j(3)]
    show ?thesis
      using harmless_recorded [OF d(1) assms(2)] harmless_fresh [OF d(2,1) assms(2)] harmless_kept [OF d(3,1) assms(2)] stay j by blast
  qed
  moreover have "d = c \<or> (\<exists>j < length (wo_threads w). j \<noteq> n \<and> d = wo_threads w ! j)" if "d \<in> set (wo_threads w')" for d
    using that ex_set_update [OF n, of c "\<lambda>x. x = d"] by (auto simp: ts)
  ultimately show ?thesis
    using assms(5) c unfolding reads_inv_def by blast
qed

lemma harmless_quiet:
  assumes "tm_engine (wo_manager w') = tm_engine (wo_manager w)" and "tm_versions (wo_manager w') = tm_versions (wo_manager w)"
    and "wo_unstamped w' = wo_unstamped w" and "numbers w' = numbers w" and "\<And>k. writing w k \<Longrightarrow> writing w' k"
  shows "harmless w w'"
  using assms by (auto simp: harmless_def row_of_def version_of_def current_version_def)

section \<open>Steps before the number is claimed\<close>

lemma thread_step_reads:
  assumes "thread_step hash m now cs a c = Some c'"
  shows "thread_seq c = None"
    and "set (tx_read_set (th_tx c)) \<subseteq> set (tx_read_set (th_tx c'))"
    and "th_phase c' = ReadingRow t i v \<Longrightarrow> v = current_version m t i"
    and "th_seen c' = th_seen c \<or>
      (\<exists>t i v r. th_phase c = ReadingRow t i v \<and> engine_get t i (tm_engine m) = Ok r \<and> th_seen c' = th_seen c @ [((t, i), v, r, now)] \<and>
         (t, i, v) \<in> set (tx_read_set (th_tx c')))"
  using assms
  by (cases a; auto simp: read_version_def read_row_def start_commit_def acquire_stripe_def validate_thread_def thread_seq_def
      tx_push_def tx_record_read_def tx_commit_def tx_rollback_def Let_def
      split: if_splits tx_phase.splits option.splits write_op.splits sum.splits list.splits)+

lemma no_seq:
  assumes "thread_seq c = None"
  shows "th_phase c \<noteq> Finished s" "unstamped_keys c = {}" "applied_keys c = {}" "committing c \<Longrightarrow> th_phase c = Validated"
  using assms by (auto simp: thread_seq_def unstamped_keys_def applied_keys_def committing_def split: tx_phase.splits)

text \<open>A commit that holds the stripe of a row that it read: nobody else is writing the row.\<close>

lemma read_stripe_held:
  assumes inv: "world_inv hash w" and n: "n < length (wo_threads w)" and j: "j < length (wo_threads w)" "j \<noteq> n"
    and c: "set (commit_stripes hash (th_tx (wo_threads w ! n))) \<subseteq> set (th_held (wo_threads w ! n))"
      "validates_reads (tx_isolation (th_tx (wo_threads w ! n)))" "(fst k, snd k, v) \<in> set (tx_read_set (th_tx (wo_threads w ! n)))"
    and d: "committing (wo_threads w ! j)"
  shows "k \<notin> write_keys (tx_writes (th_tx (wo_threads w ! j)))"
proof
  assume "k \<in> write_keys (tx_writes (th_tx (wo_threads w ! j)))"
  then have "stripe_index hash (fst k) (snd k) \<in> set (th_held (wo_threads w ! j))"
    using committing_held [OF d thread_okD(2) [OF world_invD(2) [OF inv j(1)]]] commit_stripes_cover(1) by metis
  moreover have "stripe_index hash (fst k) (snd k) \<in> set (th_held (wo_threads w ! n))"
    using commit_stripes_cover(2) [OF c(2,3)] c(1) by blast
  ultimately show False
    using pair_okD(1) [OF world_invD(3) [OF inv n j(1)]] j(2) by blast
qed

lemma validated_reads:
  assumes inv: "world_inv hash w" and reads: "reads_inv w" and n: "n < length (wo_threads w)"
    and step: "thread_step hash (wo_manager w) now cs a (wo_threads w ! n) = Some c" and ph: "th_phase c = Validated"
    and iso: "validates_reads (tx_isolation (th_tx c))" and seen: "(k, v, Some r, l) \<in> set (th_seen c)"
  shows "row_of w k = Ok (Some r) \<or> k \<in> dirty w l"
proof -
  define b where "b = wo_threads w ! n"
  note v = thread_step_validated [OF step [folded b_def] ph]
  note b = reads_invD(2,3) [OF reads n, folded b_def]
  have rec: "(fst k, snd k, v) \<in> set (tx_read_set (th_tx b))"
    using b(1) seen v unfolding reads_recorded_def by metis
  have "version_of w k = v"
    using tm_validate_None(2) [of "wo_manager w" "th_tx b"] v iso rec unfolding version_of_def by metis
  then have "row_of w k = Ok (Some r) \<or> k \<in> dirty w l \<or> writing w k"
    using b(2) seen v unfolding reads_fresh_def by metis
  moreover have "\<not> writing w k"
  proof
    assume "writing w k"
    then obtain j where j: "j < length (wo_threads w)" "k \<in> unstamped_keys (wo_threads w ! j)"
      unfolding writing_def ex_set_nth by blast
    moreover have "unstamped_keys b = {}"
      using no_seq(2) thread_step_reads(1) [OF step] by (simp add: b_def)
    ultimately have "j \<noteq> n" by (auto simp: b_def)
    have "committing (wo_threads w ! j)"
      using j(2) by (auto simp: unstamped_keys_def applied_keys_def committing_def split: tx_phase.splits)
    moreover have "set (commit_stripes hash (th_tx b)) \<subseteq> set (th_held b)"
      using thread_okD(2) [OF world_invD(2) [OF inv n]] v by (simp add: holds_stripes_def b_def)
    ultimately show False
      using read_stripe_held [OF inv n j(1) \<open>j \<noteq> n\<close>] rec iso v j(2) unfolding b_def unstamped_keys_def by auto
  qed
  ultimately show ?thesis by blast
qed

lemma row_of_put [simp]: "row_of (put_thread n c w) k = row_of w k"
  by (simp add: row_of_def put_thread_def)

lemma version_of_put [simp]: "version_of (put_thread n c w) k = version_of w k"
  by (simp add: version_of_def put_thread_def)

lemma dirty_put [simp]: "dirty (put_thread n c w) l = dirty w l"
  by (simp add: dirty_def put_thread_def)

lemma put_thread_fields [simp]:
  "wo_threads (put_thread n c w) = (wo_threads w)[n := c]" "wo_manager (put_thread n c w) = wo_manager w"
  "wo_unstamped (put_thread n c w) = wo_unstamped w"
  by (simp_all add: put_thread_def)

lemma harmless_thread_step:
  assumes n: "n < length (wo_threads w)" and step: "thread_step hash m now cs a (wo_threads w ! n) = Some c"
  shows "harmless w (put_thread n c w)" "numbers (put_thread n c w) = numbers w"
proof -
  note old = no_seq [OF thread_step_reads(1) [OF step]] and new = no_seq [OF thread_step_quiet(1) [OF step]]
  show nums: "numbers (put_thread n c w) = numbers w"
    using numbers_put [OF n old(1)] new(1) by simp
  show "harmless w (put_thread n c w)"
    using nums writing_put(1) [OF n, of "put_thread n c w" c] old(2) by (intro harmless_quiet) auto
qed

lemma thread_step_reads_inv:
  assumes inv: "world_inv hash w" and reads: "reads_inv w" and n: "n < length (wo_threads w)"
    and step: "thread_step hash (wo_manager w) (length (wo_unstamped w)) cs a (wo_threads w ! n) = Some c"
  shows "reads_inv (put_thread n c w)"
proof (rule reads_inv_put [OF reads harmless_thread_step(1) [OF n step] n])
  define b where "b = wo_threads w ! n"
  note nums = harmless_thread_step(2) [OF n step] and st = thread_step_reads [OF step [folded b_def]]
  note b = reads_invD(2,3) [OF reads n, folded b_def] and ver = reads_invD(1) [OF reads]
  show "reads_recorded (put_thread n c w) c"
    using st b(1) ver unfolding reads_recorded_def nums put_thread_fields version_of_def by fastforce
  show "reads_fresh (put_thread n c w) c"
    using st(4) harmless_fresh [OF b(2,1) harmless_thread_step(1) [OF n step]]
    unfolding reads_fresh_def row_of_def by fastforce
  show "reads_kept (put_thread n c w) c"
    using validated_reads [OF inv reads n step] no_seq(4) [OF thread_step_quiet(1) [OF step]]
    unfolding reads_kept_def by simp blast
  show "version_of (put_thread n c w) k \<in> numbers (put_thread n c w)" for k
    using ver by (simp add: nums)
qed simp_all

section \<open>Steps of the critical section\<close>

lemma row_of_same: "tm_engine (wo_manager w') = tm_engine (wo_manager w) \<Longrightarrow> row_of w' k = row_of w k"
  by (simp add: row_of_def)

lemma version_of_same: "tm_versions (wo_manager w') = tm_versions (wo_manager w) \<Longrightarrow> version_of w' k = version_of w k"
  by (simp add: version_of_def current_version_def)

lemma committed_reads_same:
  assumes "th_seen c = th_seen b" and "tx_read_set (th_tx c) = tx_read_set (th_tx b)" and "\<And>t i v. th_phase c \<noteq> ReadingRow t i v"
  shows "reads_recorded w b \<Longrightarrow> reads_recorded w c" "reads_fresh w b \<Longrightarrow> reads_fresh w c"
  using assms unfolding reads_recorded_def reads_fresh_def by auto

lemma claim_reads_inv:
  assumes reads: "reads_inv w" and n: "n < length (wo_threads w)" and step: "claim_number n w = Some w'"
  shows "reads_inv w'"
proof -
  define b where "b = wo_threads w ! n"
  define run where "run = \<lparr> cr_seq = tm_commit_seq (wo_manager w) + 1, cr_todo = tx_writes (th_tx b), cr_touched = [] \<rparr>"
  have run: "cr_touched run = []" and ph: "th_phase b = Validated"
    and w': "w' = put_thread n (b \<lparr> th_phase := Applying run \<rparr>) (w \<lparr> wo_manager := (wo_manager w) \<lparr> tm_commit_seq := cr_seq run \<rparr> \<rparr>)"
    using step by (auto simp: claim_number_def b_def run_def Let_def split: tx_phase.splits)
  have nums: "numbers w' = numbers w"
    using numbers_put [OF n, of w'] ph by (simp add: w' b_def)
  have "unstamped_keys b = {}"
    using ph by (simp add: unstamped_keys_def applied_keys_def)
  then have harm: "harmless w w'"
    using writing_put(1) [OF n, of w'] nums by (intro harmless_quiet) (auto simp: w' b_def)
  have "reads_kept w' b"
    using harmless_kept [OF reads_invD(4,2) [OF reads n, folded b_def] harm] row_of_same [of w' w] by (simp add: w')
  then have "reads_kept w' (b \<lparr> th_phase := Applying run \<rparr>)"
    using ph run by (simp add: reads_kept_def applied_keys_def committing_def)
  moreover have "reads_recorded w' (b \<lparr> th_phase := Applying run \<rparr>)" "reads_fresh w' (b \<lparr> th_phase := Applying run \<rparr>)"
    using committed_reads_same [of "b \<lparr> th_phase := Applying run \<rparr>" b] harmless_recorded [OF _ harm] harmless_fresh [OF _ _ harm]
      reads_invD(2,3) [OF reads n, folded b_def] by simp_all
  ultimately show ?thesis
    using reads_invD(1) [OF reads] row_of_same [of w' w] version_of_same [of w' w] nums
    by (intro reads_inv_put [OF reads harm n]) (simp_all add: w')
qed

lemma applied_reads_inv:
  assumes inv: "world_inv hash w" and reads: "reads_inv w" and n: "n < length (wo_threads w)"
    and ph: "th_phase (wo_threads w ! n) = Applying run" and todo: "cr_todo run = op # ops"
    and wok: "write_fits op (tm_engine (wo_manager w))"
    and app: "apply_write op (tm_engine (wo_manager w)) = (Ok k, e)"
    and c: "c = (wo_threads w ! n) \<lparr> th_phase := Applying (run \<lparr> cr_todo := ops, cr_touched := cr_touched run @ [k] \<rparr>) \<rparr>"
    and w': "w' = put_thread n c (w \<lparr> wo_manager := (wo_manager w) \<lparr> tm_engine := e \<rparr>, wo_inserted := ins \<rparr>)"
  shows "reads_inv w'"
proof -
  have einv: "engine_inv (tm_engine (wo_manager w))"
    using world_invD(1) [OF inv] by (simp add: manager_ok_def)
  note wr = apply_write_Ok [OF einv wok app]
  have op_keys: "write_keys (op # ops) \<subseteq> write_keys (tx_writes (th_tx (wo_threads w ! n)))"
    using thread_okD(3) [OF world_invD(2) [OF inv n]] ph todo by (auto simp: run_ok_def)
  have nums: "numbers w' = numbers w"
    using numbers_put [OF n, of w'] ph by (simp add: w' c)
  have grows: "writing w x \<Longrightarrow> writing w' x" for x
    using writing_put [OF n, of w' c x] ph by (auto simp: w' c unstamped_keys_def applied_keys_def)
  have kept: "row_of w x = Ok (Some r) \<Longrightarrow> write_key op \<noteq> Some x \<Longrightarrow> row_of w' x = Ok (Some r)" for x r
    using wr(4) [of "fst x" "snd x" r] by (simp add: row_of_def w')
  have own: "write_key op = Some x \<Longrightarrow> x = k \<and> x \<in> write_keys (tx_writes (th_tx (wo_threads w ! n)))" for x
    using wr(2) op_keys by (auto simp: write_keys_Cons)
  have now: "writing w' x" if "write_key op = Some x" for x
    using writing_put(2) [OF n, of w' c x] own [OF that] by (auto simp: w' c unstamped_keys_def applied_keys_def)
  have harm: "harmless w w'"
  proof -
    have "wo_unstamped w' = wo_unstamped w" "version_of w' x = version_of w x" for x
      using version_of_same [of w' w] by (simp_all add: w')
    then show ?thesis
      unfolding harmless_def using nums grows kept now by (metis order_refl take_all)
  qed
  have other: "row_of w' x = row_of w x" if "x \<noteq> k" for x
    using wr(3) [of "fst x" "snd x"] that by (simp add: row_of_def w')
  show ?thesis
  proof (rule reads_inv_put [OF reads harm n])
    show "reads_recorded w' c" "reads_fresh w' c"
      using committed_reads_same [of c "wo_threads w ! n"] harmless_recorded [OF _ harm] harmless_fresh [OF _ _ harm]
        reads_invD(2,3) [OF reads n] by (simp_all add: c)
    show "reads_kept w' c"
      using reads_invD(4) [OF reads n] ph other harmless_log(2) [OF harm]
      unfolding reads_kept_def by (fastforce simp: c applied_keys_def committing_def)
    show "version_of w' x \<in> numbers w'" for x
      using reads_invD(1) [OF reads] nums version_of_same [of w' w] by (simp add: w')
  next
    fix j x v r l
    assume j: "j < length (wo_threads w)" "j \<noteq> n" "committing (wo_threads w ! j)"
      "validates_reads (tx_isolation (th_tx (wo_threads w ! j)))" "(x, v, Some r, l) \<in> set (th_seen (wo_threads w ! j))"
      and row: "row_of w x = Ok (Some r)"
    have "set (commit_stripes hash (th_tx (wo_threads w ! j))) \<subseteq> set (th_held (wo_threads w ! j))"
      using committing_held [OF j(3) thread_okD(2) [OF world_invD(2) [OF inv j(1)]]] by simp
    moreover have "(fst x, snd x, v) \<in> set (tx_read_set (th_tx (wo_threads w ! j)))"
      using reads_invD(2) [OF reads j(1)] j(5) unfolding reads_recorded_def by blast
    ultimately have "x \<notin> write_keys (tx_writes (th_tx (wo_threads w ! n)))"
      using read_stripe_held [OF inv j(1) n j(2) [symmetric] _ j(4)] ph unfolding committing_def by blast
    then show "row_of w' x = Ok (Some r) \<or> x \<in> dirty w' (length (wo_unstamped w))"
      using kept [OF row] own by blast
  qed (simp add: w')
qed

lemma failed_reads_inv:
  assumes reads: "reads_inv w" and n: "n < length (wo_threads w)" and ph: "th_phase (wo_threads w ! n) = Applying run"
    and c: "c = (wo_threads w ! n) \<lparr> th_phase := Running, th_held := [], th_tx := (th_tx (wo_threads w ! n)) \<lparr> tx_writes := [] \<rparr> \<rparr>"
    and w': "w' = put_thread n c (w \<lparr> wo_unstamped := wo_unstamped w @ [set (cr_touched run)] \<rparr>)"
  shows "reads_inv w'"
proof -
  have nums: "numbers w' = numbers w"
    using numbers_put [OF n, of w'] ph by (simp add: w' c)
  have "writing w x \<Longrightarrow> writing w' x \<or> x \<in> dirty w' (length (wo_unstamped w))" for x
    using writing_put(1) [OF n, of w' c x] ph by (auto simp: w' unstamped_keys_def applied_keys_def dirty_def)
  then have harm: "harmless w w'"
    unfolding harmless_def using nums version_of_same [of w' w] row_of_same [of w' w] by (auto simp: w')
  have "reads_recorded w' c" "reads_fresh w' c"
    using committed_reads_same [of c "wo_threads w ! n"] harmless_recorded [OF _ harm] harmless_fresh [OF _ _ harm]
      reads_invD(2,3) [OF reads n] by (simp_all add: c)
  moreover have "reads_kept w' c"
    by (simp add: reads_kept_def committing_def c)
  ultimately show ?thesis
    using reads_invD(1) [OF reads] row_of_same [of w' w] version_of_same [of w' w] nums
    by (intro reads_inv_put [OF reads harm n]) (simp_all add: w')
qed

lemma apply_next_reads_inv:
  assumes inv: "world_inv hash w" and reads: "reads_inv w" and n: "n < length (wo_threads w)" and ok: "action_ok (AApply n) w"
    and step: "apply_next n w = Some w'"
  shows "reads_inv w'"
proof -
  obtain run op ops where ph: "th_phase (wo_threads w ! n) = Applying run" and todo: "cr_todo run = op # ops"
    using step by (auto simp: apply_next_def Let_def split: tx_phase.splits list.splits)
  obtain res m' where app: "commit_apply run (wo_manager w) = (res, m')"
    by (cases "commit_apply run (wo_manager w)")
  show ?thesis
  proof (cases res)
    case (Inl err)
    then have "m' = wo_manager w"
      using app commit_apply_Err by blast
    then show ?thesis
      using step ph todo app Inl failed_reads_inv [OF reads n ph refl refl] by (auto simp: apply_next_def Let_def)
  next
    case (Inr run')
    from commit_apply_Ok [OF app [unfolded Inr] todo] obtain k e where
      "apply_write op (tm_engine (wo_manager w)) = (Ok k, e)" "m' = (wo_manager w) \<lparr> tm_engine := e \<rparr>"
      "run' = run \<lparr> cr_todo := ops, cr_touched := cr_touched run @ [k] \<rparr>"
      by blast
    then show ?thesis
      using step ph todo app Inr ok applied_reads_inv [OF inv reads n ph todo, of k e _ w']
      by (auto simp: apply_next_def Let_def)
  qed
qed

lemma stamp_reads_inv:
  assumes inv: "world_inv hash w" and reads: "reads_inv w" and n: "n < length (wo_threads w)" and step: "stamp_rows n w = Some w'"
  shows "reads_inv w'"
proof -
  define b where "b = wo_threads w ! n"
  obtain run where ph: "th_phase b = Applying run" "cr_todo run = []"
    and w': "w' = put_thread n (finished_thread run b) (w \<lparr> wo_manager := snd (commit_stamp run (wo_manager w)) \<rparr>)"
    using step by (auto simp: stamp_rows_def finished_thread_def Let_def b_def split: tx_phase.splits if_splits)
  have nums: "numbers w' = insert (cr_seq run) (numbers w)"
    using numbers_put [OF n, of w'] ph by (auto simp: w' b_def finished_thread_def)
  have "0 < cr_seq run"
    using stamping_thread(2) [OF world_invD(2) [OF inv n, folded b_def] ph] by (metis word_gt_0 word_not_simps(1))
  moreover have "th_phase (wo_threads w ! j) \<noteq> Finished (cr_seq run)" if "j < length (wo_threads w)" for j
    using pair_okD(2) [OF world_invD(3) [OF inv n that], of "cr_seq run"] ph(1) that by (cases "j = n") (auto simp: thread_seq_def b_def)
  ultimately have fresh: "cr_seq run \<notin> numbers w"
    by (auto simp: numbers_def in_set_conv_nth)
  have ver: "version_of w' k = (if k \<in> set (cr_touched run) then cr_seq run else version_of w k)" for k
    using stamped_version [of run "wo_manager w" k] by (simp add: version_of_def current_version_def w')
  have "writing w k \<Longrightarrow> version_of w' k \<in> numbers w \<Longrightarrow> writing w' k" for k
    using writing_put(1) [OF n, of w' "finished_thread run b" k] ph fresh ver
    by (auto simp: w' b_def unstamped_keys_def applied_keys_def split: if_splits)
  then have harm: "harmless w w'"
    unfolding harmless_def using nums fresh ver row_of_same [of w' w] by (auto simp: w')
  have "reads_recorded w' (finished_thread run b)" "reads_fresh w' (finished_thread run b)"
    using committed_reads_same [of "finished_thread run b" b] harmless_recorded [OF _ harm] harmless_fresh [OF _ _ harm]
      reads_invD(2,3) [OF reads n, folded b_def] by (simp_all add: finished_thread_def)
  moreover have "reads_kept w' (finished_thread run b)"
    by (simp add: reads_kept_def committing_def finished_thread_def)
  ultimately show ?thesis
    using reads_invD(1) [OF reads] row_of_same [of w' w] ver nums
    by (intro reads_inv_put [OF reads harm n]) (simp_all add: w')
qed

section \<open>The other steps\<close>

lemma begin_reads_inv:
  assumes reads: "reads_inv w" and step: "act hash (ABegin lvl) w = Some w'"
  shows "reads_inv w'"
proof -
  define c m where "c = thread_new (fst (tm_begin lvl (wo_manager w)))" and "m = snd (tm_begin lvl (wo_manager w))"
  have w': "w' = w \<lparr> wo_manager := m, wo_threads := wo_threads w @ [c] \<rparr>"
    using step by (auto simp: c_def m_def case_prod_beta)
  have m: "tm_engine m = tm_engine (wo_manager w)" "tm_versions m = tm_versions (wo_manager w)"
    by (simp_all add: m_def tm_begin_def)
  have c: "th_seen c = []" "th_phase c = Running"
    by (simp_all add: c_def thread_new_def)
  have "harmless w w'"
    using m c by (intro harmless_quiet) (auto simp: w' numbers_def writing_def)
  then have "reads_recorded w' d \<and> reads_fresh w' d \<and> reads_kept w' d" if "d \<in> set (wo_threads w)" for d
    using that reads harmless_recorded harmless_fresh harmless_kept [of w d w'] m row_of_same [of w' w]
    by (auto simp: reads_inv_def w')
  moreover have "reads_recorded w' c \<and> reads_fresh w' c \<and> reads_kept w' c"
    using c by (simp add: reads_recorded_def reads_fresh_def reads_kept_def committing_def)
  moreover have "version_of w' k \<in> numbers w'" for k
    using reads_invD(1) [OF reads, of k] m version_of_same [of w' w k] by (auto simp: w' numbers_def)
  ultimately show ?thesis
    by (auto simp: reads_inv_def w')
qed

lemma direct_reads_inv:
  assumes reads: "reads_inv w"
  shows "reads_inv (direct_write op w)"
proof -
  define w' where "w' = direct_write op w"
  have same: "wo_threads w' = wo_threads w" "tm_versions (wo_manager w') = tm_versions (wo_manager w)"
    by (simp_all add: w'_def direct_write_def Let_def)
  have log: "wo_unstamped w' = wo_unstamped w @ [{k. row_of w' k \<noteq> row_of w k}]"
    by (auto simp: w'_def direct_write_def Let_def row_of_def)
  then have "row_of w' k = row_of w k \<or> k \<in> dirty w' (length (wo_unstamped w))" for k
    by (simp add: dirty_def)
  moreover from this have harm: "harmless w w'"
    using same log version_of_same [of w' w] unfolding harmless_def numbers_def writing_def by auto metis
  ultimately have "reads_recorded w' d \<and> reads_fresh w' d \<and> reads_kept w' d" if "d \<in> set (wo_threads w)" for d
    using that reads harmless_recorded [OF _ harm] harmless_fresh [OF _ _ harm] harmless_kept [OF _ _ harm]
    unfolding reads_inv_def by metis
  then show ?thesis
    using reads_invD(1) [OF reads] same version_of_same [of w' w] unfolding w'_def [symmetric]
    by (simp add: reads_inv_def numbers_def)
qed

lemma act_reads_inv:
  assumes inv: "world_inv hash w" and reads: "reads_inv w" and "action_ok a w" and step: "act hash a w = Some w'"
  shows "reads_inv w'"
proof (cases a)
  case (ABegin lvl)
  then show ?thesis using begin_reads_inv [OF reads] step by simp
next
  case (AClaim n)
  then show ?thesis using claim_reads_inv [OF reads] step by (auto split: if_splits)
next
  case (AApply n)
  then show ?thesis using apply_next_reads_inv [OF inv reads] assms by (auto simp del: action_ok.simps split: if_splits)
next
  case (AStamp n)
  then show ?thesis using stamp_reads_inv [OF inv reads] step by (auto split: if_splits)
qed (use step thread_step_reads_inv [OF inv reads] in \<open>auto simp del: thread_step.simps split: if_splits\<close>)

lemma world_reachable_reads: "world_reachable hash w \<Longrightarrow> reads_inv w"
proof (induction rule: world_reachable.induct)
  case (world_start e)
  then show ?case
    by (auto simp: reads_inv_def world_new_def tm_new_def version_of_def current_version_def numbers_def)
qed (auto intro: act_reads_inv direct_reads_inv dest: world_reachable_inv)

section \<open>Repeatable reads\<close>

text \<open>
  C14: the reads of a commit are repeatable, whatever the interleaving. From the moment a
  repeatable-read or serializable transaction with writes has passed validation until its versions
  are stamped, each row that it read from the engine and found is still there, exactly as it was
  read, unless the commit has itself written that row. This holds for the rows that since the
  read were not changed by a write that leaves no version: a write of the rest of the server past
  the transaction manager, or a commit that failed on the way. Every step of the threads may
  interleave with every other; the counter is assumed not to overflow and the writes to be ones
  the engine's invariant covers (no negative zero). A read that found no row is not covered: an
  insert takes no lock.
\<close>

theorem committing_reads_stable:
  assumes "world_reachable hash w" and "n < length (wo_threads w)" and "committing (wo_threads w ! n)"
    and "validates_reads (tx_isolation (th_tx (wo_threads w ! n)))"
    and "((t, i), v, Some r, l) \<in> set (th_seen (wo_threads w ! n))"
    and "(t, i) \<notin> applied_keys (wo_threads w ! n)" and "(t, i) \<notin> dirty w l"
  shows "engine_get t i (tm_engine (wo_manager w)) = Ok (Some r)"
proof -
  have "row_of w (t, i) = Ok (Some r) \<or> (t, i) \<in> dirty w l"
    using reads_invD(4) [OF world_reachable_reads [OF assms(1)] assms(2)] assms(3-6) unfolding reads_kept_def by blast
  with assms(7) show ?thesis by (simp add: row_of_def)
qed

text \<open>A serializable read and update, with an insert of another transaction in between.\<close>

definition demo_read_actions :: "tx_action list" where
  "demo_read_actions =
    [ABegin Serializable, AReadVersion 0 ''users'' 1, ABegin ReadCommitted, ABuffer 1 (WInsert ''users'' (demo_row 8 1)),
     AReadRow 0, ABuffer 0 (demo_write 5), ACommit 0, AAcquire 0, ACommit 1, AValidate 1, AValidate 0, AClaim 1, AApply 1,
     AClaim 0, AStamp 1]"

definition demo_read_world :: tx_world where
  "demo_read_world = the (run_actions (\<lambda>t i. 0) demo_read_actions (world_new demo_engine))"

lemma demo_read_world_reachable: "world_reachable (\<lambda>t i. 0) demo_read_world"
proof -
  have "run_actions (\<lambda>t i. 0) demo_read_actions (world_new demo_engine) \<noteq> None" by code_simp
  then show ?thesis
    using run_actions_reachable [OF world_start [OF demo_engine_reachable]] by (auto simp: demo_read_world_def)
qed

lemma demo_read_world_thread:
  "length (wo_threads demo_read_world) = 2"
  "th_phase (wo_threads demo_read_world ! 0) = Applying \<lparr> cr_seq = 2, cr_todo = [demo_write 5], cr_touched = [] \<rparr>"
  "th_seen (wo_threads demo_read_world ! 0) = [((''users'', 1), 0, Some ((demo_row 7 0) \<lparr> row_id := 1 \<rparr>), 0)]"
  "tx_isolation (th_tx (wo_threads demo_read_world ! 0)) = Serializable"
  "wo_unstamped demo_read_world = []"
  by code_simp+

theorem committing_reads_stable_witness:
  "engine_get ''users'' 1 (tm_engine (wo_manager demo_read_world)) = Ok (Some ((demo_row 7 0) \<lparr> row_id := 1 \<rparr>))"
  using committing_reads_stable [OF demo_read_world_reachable, of 0 "''users''" 1 0 "(demo_row 7 0) \<lparr> row_id := 1 \<rparr>" 0]
  by (simp add: demo_read_world_thread committing_def validates_reads_def applied_keys_def dirty_def)

end
