(* ===== verification/Display.thy ===== *)
theory Display
  imports Types_Value
begin

text \<open>
  The textual form of values (\<open>Display for Value\<close>): decimal integers, arrays in brackets; the
  texts of floats, UUIDs, dates, times and JSON are those of their own types and a parameter.
\<close>

definition digit :: "nat \<Rightarrow> char" where
  "digit d = char_of (48 + d)"

fun nat_text :: "nat \<Rightarrow> string" where
  "nat_text n = (if n < 10 then [digit n] else nat_text (n div 10) @ [digit (n mod 10)])"

declare nat_text.simps [simp del]

definition int_text :: "int \<Rightarrow> string" where
  "int_text i = (if i < 0 then CHR ''-'' # nat_text (nat (- i)) else nat_text (nat i))"

lemma digit_inject: "a < 10 \<Longrightarrow> b < 10 \<Longrightarrow> digit a = digit b \<longleftrightarrow> a = b"
proof -
  assume "a < 10" "b < 10"
  then have "(of_char (digit a) :: nat) = 48 + a" "(of_char (digit b) :: nat) = 48 + b"
    by (simp_all add: digit_def)
  then show ?thesis by (metis add_left_cancel)
qed

lemma nat_text_nonempty [simp]: "nat_text n \<noteq> []" "[] \<noteq> nat_text n"
  by (subst nat_text.simps, simp)+

lemma nat_text_inject [simp]: "nat_text m = nat_text n \<longleftrightarrow> m = n"
proof
  show "nat_text m = nat_text n \<Longrightarrow> m = n"
  proof (induction m arbitrary: n rule: nat_text.induct)
    case (1 m)
    have small: "nat_text k = [digit k]" if "k < 10" for k
      using that by (subst nat_text.simps) simp
    have large: "nat_text k = nat_text (k div 10) @ [digit (k mod 10)]" if "\<not> k < 10" for k
      using that by (subst nat_text.simps) simp
    show ?case
    proof (cases "m < 10"; cases "n < 10")
      assume "m < 10" "n < 10"
      with 1(2) show ?thesis by (simp add: small digit_inject)
    next
      assume m: "\<not> m < 10" and n: "\<not> n < 10"
      then have "nat_text (m div 10) = nat_text (n div 10)" "m mod 10 = n mod 10"
        using 1(2) by (simp_all add: large digit_inject)
      then show ?thesis using 1(1) [OF m] by (metis div_mult_mod_eq)
    qed (use 1(2) in \<open>auto simp: small large\<close>)
  qed
qed simp

record displays =
  f32_disp :: "f32 \<Rightarrow> string"
  f64_disp :: "f64 \<Rightarrow> string"
  uuid_disp :: "128 word \<Rightarrow> string"
  time_disp :: "int \<Rightarrow> string"
  date_disp :: "int \<Rightarrow> string"
  json_disp :: "json \<Rightarrow> string"

fun join :: "string \<Rightarrow> string list \<Rightarrow> string" where
  "join sep [] = []"
| "join sep [x] = x"
| "join sep (x # y # zs) = x @ sep @ join sep (y # zs)"

fun display :: "displays \<Rightarrow> val \<Rightarrow> string" where
  "display d (VBoolean b) = (if b then ''true'' else ''false'')"
| "display d (VInt8 n) = int_text (sint n)"
| "display d (VInt16 n) = int_text (sint n)"
| "display d (VInt32 n) = int_text (sint n)"
| "display d (VInt64 n) = int_text (sint n)"
| "display d (VUInt8 n) = nat_text (unat n)"
| "display d (VUInt16 n) = nat_text (unat n)"
| "display d (VUInt32 n) = nat_text (unat n)"
| "display d (VUInt64 n) = nat_text (unat n)"
| "display d (VFloat32 n) = f32_disp d n"
| "display d (VFloat64 n) = f64_disp d n"
| "display d (VDecimal s) = s"
| "display d (VString s) = s"
| "display d (VBytes b) = ''<'' @ nat_text (length b) @ '' bytes>''"
| "display d (VUuid u) = uuid_disp d u"
| "display d (VTimestamp t) = time_disp d t"
| "display d (VDate t) = date_disp d t"
| "display d (VJson j) = json_disp d j"
| "display d (VArray vs) = ''['' @ join '', '' (map (display d) vs) @ '']''"
| "display d VNull = ''NULL''"

end
