(* ===== verification/Procedures.thy ===== *)
theory Procedures
  imports Types_Schema Display
begin

text \<open>
  Stored procedures (\<open>blitz-runtime\<close>): functions and their registry with the built-in functions,
  procedures and conditions, the transactional runner over a storage backend, the pure executor,
  and the validation of a deployed procedure. The backend is the record of the operations the
  trait \<open>ProcedureBackend\<close> asks for, over a state of its own. The clock, case mappings and the
  texts of values are parameters.
\<close>

section \<open>Functions\<close>

datatype runtime_error =
    FunctionNotFound string
  | RowNotFound string u64
  | NeedsTransaction string string
  | ExecutionError string
  | ExpectedValueArgument
  | ExpectedString
  | ExpectedStringOrArray
  | ExpectedNumeric
  | BadRowId val
  | Abort string
  | FuelExhausted u64

type_synonym app_function = "row_values \<Rightarrow> runtime_error + val"
type_synonym function_registry = "(string, app_function) hmap"

definition registry_register :: "string \<Rightarrow> app_function \<Rightarrow> function_registry \<Rightarrow> function_registry" where
  "registry_register name f r = hm_insert name f r"

definition registry_execute :: "function_registry \<Rightarrow> string \<Rightarrow> row_values \<Rightarrow> runtime_error + val" where
  "registry_execute r name args =
     (case hm_get r name of None \<Rightarrow> Err (FunctionNotFound name) | Some f \<Rightarrow> f args)"

definition registry_has :: "function_registry \<Rightarrow> string \<Rightarrow> bool" where
  "registry_has r name \<longleftrightarrow> hm_contains r name"

definition now_fn :: "int \<Rightarrow> app_function" where
  "now_fn now args = Ok (VTimestamp now)"

text \<open>
  The loops over the arguments \<open>0\<close>, \<open>1\<close>, \<open>2\<close>, \<open>\<dots>\<close> end at the first one that is missing; their fuel
  is one more than the number of arguments.
\<close>

fun concat_loop :: "displays \<Rightarrow> nat \<Rightarrow> nat \<Rightarrow> row_values \<Rightarrow> string \<Rightarrow> string option" where
  "concat_loop d 0 i args res = None"
| "concat_loop d (Suc n) i args res =
     (case hm_get args (nat_text i) of
        Some (VString s) \<Rightarrow> concat_loop d n (Suc i) args (res @ s)
      | Some v \<Rightarrow> concat_loop d n (Suc i) args (res @ display d v)
      | None \<Rightarrow> Some res)"

definition concat_fn :: "displays \<Rightarrow> app_function" where
  "concat_fn d args =
     (case concat_loop d (Suc (length args)) 0 args [] of
        Some s \<Rightarrow> Ok (VString s)
      | None \<Rightarrow> Err (ExecutionError []))"

definition value_argument :: "row_values \<Rightarrow> runtime_error + val" where
  "value_argument args =
     (case hm_get args ''0'' of
        Some v \<Rightarrow> Ok v
      | None \<Rightarrow> ok_or ExpectedValueArgument (hm_get args ''value''))"

definition string_fn :: "(string \<Rightarrow> string) \<Rightarrow> app_function" where
  "string_fn f args =
     (case value_argument args of
        Inl e \<Rightarrow> Err e
      | Inr (VString s) \<Rightarrow> Ok (VString (f s))
      | Inr _ \<Rightarrow> Err ExpectedString)"

definition upper_fn :: "(string \<Rightarrow> string) \<Rightarrow> app_function" where
  "upper_fn to_uppercase = string_fn to_uppercase"

definition lower_fn :: "(string \<Rightarrow> string) \<Rightarrow> app_function" where
  "lower_fn to_lowercase = string_fn to_lowercase"

definition len_fn :: app_function where
  "len_fn args =
     (case value_argument args of
        Inl e \<Rightarrow> Err e
      | Inr (VString s) \<Rightarrow> Ok (VInt64 (of_nat (length s)))
      | Inr (VArray a) \<Rightarrow> Ok (VInt64 (of_nat (length a)))
      | Inr _ \<Rightarrow> Err ExpectedStringOrArray)"

text \<open>Integer \<open>abs\<close> wraps at the least integer, as release builds do; on a float it clears the sign.\<close>

definition word_abs :: "'a::len word \<Rightarrow> 'a word" where
  "word_abs n = (if sint n < 0 then - n else n)"

definition abs_fn :: app_function where
  "abs_fn args =
     (case value_argument args of
        Inl e \<Rightarrow> Err e
      | Inr (VInt64 n) \<Rightarrow> Ok (VInt64 (word_abs n))
      | Inr (VFloat64 n) \<Rightarrow> Ok (VFloat64 (and n 0x7FFFFFFFFFFFFFFF))
      | Inr (VInt32 n) \<Rightarrow> Ok (VInt32 (word_abs n))
      | Inr (VFloat32 n) \<Rightarrow> Ok (VFloat32 (and n 0x7FFFFFFF))
      | Inr _ \<Rightarrow> Err ExpectedNumeric)"

fun coalesce_loop :: "nat \<Rightarrow> nat \<Rightarrow> row_values \<Rightarrow> val option" where
  "coalesce_loop 0 i args = None"
| "coalesce_loop (Suc n) i args =
     (case hm_get args (nat_text i) of
        Some v \<Rightarrow> if \<not> is_null v then Some v else coalesce_loop n (Suc i) args
      | None \<Rightarrow> Some VNull)"

definition coalesce_fn :: app_function where
  "coalesce_fn args =
     (case coalesce_loop (Suc (length args)) 0 args of Some v \<Rightarrow> Ok v | None \<Rightarrow> Err (ExecutionError []))"

definition register_builtins ::
  "displays \<Rightarrow> int \<Rightarrow> (string \<Rightarrow> string) \<Rightarrow> (string \<Rightarrow> string) \<Rightarrow> function_registry \<Rightarrow> function_registry" where
  "register_builtins d now to_uppercase to_lowercase r =
     fold (\<lambda>(name, f). registry_register name f)
       [(''now'', now_fn now), (''concat'', concat_fn d), (''upper'', upper_fn to_uppercase),
        (''lower'', lower_fn to_lowercase), (''len'', len_fn), (''abs'', abs_fn), (''coalesce'', coalesce_fn)] r"

section \<open>Procedures\<close>

datatype condition =
    CEquals string val
  | CNotEquals string val
  | CIsNotNull string
  | CGreaterOrEqual string val
  | CLessThan string val
  | CAll "condition list"
  | CAny "condition list"

datatype proc_step =
    CallFunction string row_values
  | SetVariable string val
  | IfStep condition "proc_step list" "proc_step list"
  | ReadRow string val string
  | InsertRow string row_values string
  | UpdateRow string val row_values
  | DeleteRow string val
  | ReturnValue val
  | FailWith string

record procedure =
  pc_name :: string
  pc_description :: string
  pc_steps :: "proc_step list"

definition procedure_new :: "string \<Rightarrow> procedure" where
  "procedure_new name = \<lparr> pc_name = name, pc_description = [], pc_steps = [] \<rparr>"

definition with_description :: "string \<Rightarrow> procedure \<Rightarrow> procedure" where
  "with_description desc p = p \<lparr> pc_description := desc \<rparr>"

definition with_step :: "proc_step \<Rightarrow> procedure \<Rightarrow> procedure" where
  "with_step s p = p \<lparr> pc_steps := pc_steps p @ [s] \<rparr>"

section \<open>The transactional runner\<close>

record 'b backend =
  bk_read :: "string \<Rightarrow> u64 \<Rightarrow> 'b \<Rightarrow> (runtime_error + row_values option) \<times> 'b"
  bk_insert :: "string \<Rightarrow> row_values \<Rightarrow> 'b \<Rightarrow> (runtime_error + unit) \<times> 'b"
  bk_update :: "string \<Rightarrow> u64 \<Rightarrow> row_values \<Rightarrow> 'b \<Rightarrow> (runtime_error + unit) \<times> 'b"
  bk_delete :: "string \<Rightarrow> u64 \<Rightarrow> 'b \<Rightarrow> (runtime_error + unit) \<times> 'b"
  bk_call :: "string \<Rightarrow> row_values \<Rightarrow> 'b \<Rightarrow> runtime_error + val"

text \<open>The order of values and the texts of values, as the program computes them.\<close>

record proc_env =
  pv_js :: "json \<Rightarrow> string"
  pv_displays :: displays

record 'b runner =
  rn_backend :: 'b
  rn_variables :: row_values
  rn_fuel :: u64
  rn_burned :: u64

datatype flow = Next val | Return val

definition PROC_FUEL :: u64 where "PROC_FUEL = 10000"

definition charge :: "'b runner \<Rightarrow> (runtime_error + unit) \<times> 'b runner" where
  "charge r =
     (let r = r \<lparr> rn_burned := rn_burned r + 1 \<rparr> in
      if rn_fuel r < rn_burned r then (Err (FuelExhausted (rn_burned r)), r) else (Ok (), r))"

fun resolve :: "row_values \<Rightarrow> val \<Rightarrow> val" where
  "resolve vars (VString (c # s)) =
     (if c = CHR ''$'' then (case hm_get vars s of Some v \<Rightarrow> v | None \<Rightarrow> VNull) else VString (c # s))"
| "resolve vars v = v"

definition resolve_id :: "row_values \<Rightarrow> val \<Rightarrow> runtime_error + u64" where
  "resolve_id vars v =
     (case resolve vars v of
        VUInt64 n \<Rightarrow> Ok n
      | VInt64 n \<Rightarrow> if 0 \<le> sint n then Ok n else Err (BadRowId (VInt64 n))
      | VUInt32 n \<Rightarrow> Ok (ucast n)
      | VInt32 n \<Rightarrow> if 0 \<le> sint n then Ok (ucast n) else Err (BadRowId (VInt32 n))
      | other \<Rightarrow> Err (BadRowId other))"

definition resolve_all :: "row_values \<Rightarrow> row_values \<Rightarrow> row_values" where
  "resolve_all vars m = map (\<lambda>(k, v). (k, resolve vars v)) m"

fun evaluate :: "proc_env \<Rightarrow> row_values \<Rightarrow> condition \<Rightarrow> bool" where
  "evaluate env vars (CEquals var e) =
     (case hm_get vars var of Some v \<Rightarrow> value_eq v (resolve vars e) | None \<Rightarrow> False)"
| "evaluate env vars (CNotEquals var e) =
     (case hm_get vars var of Some v \<Rightarrow> \<not> value_eq v (resolve vars e) | None \<Rightarrow> False)"
| "evaluate env vars (CIsNotNull var) = (case hm_get vars var of Some v \<Rightarrow> \<not> is_null v | None \<Rightarrow> False)"
| "evaluate env vars (CGreaterOrEqual var e) =
     (case hm_get vars var of Some v \<Rightarrow> value_cmp (pv_js env) v (resolve vars e) \<noteq> Less | None \<Rightarrow> False)"
| "evaluate env vars (CLessThan var e) =
     (case hm_get vars var of Some v \<Rightarrow> value_cmp (pv_js env) v (resolve vars e) = Less | None \<Rightarrow> False)"
| "evaluate env vars (CAll cs) = (\<forall>c \<in> set cs. evaluate env vars c)"
| "evaluate env vars (CAny cs) = (\<exists>c \<in> set cs. evaluate env vars c)"

definition fail_message :: "proc_env \<Rightarrow> row_values \<Rightarrow> string \<Rightarrow> string" where
  "fail_message env vars message =
     (case message of
        c # var \<Rightarrow>
          if c = CHR ''$''
          then (case hm_get vars var of Some v \<Rightarrow> display (pv_displays env) v | None \<Rightarrow> message)
          else message
      | [] \<Rightarrow> message)"

definition read_into :: "string \<Rightarrow> u64 \<Rightarrow> row_values \<Rightarrow> row_values \<Rightarrow> row_values" where
  "read_into into rid vals vars =
     hm_extend (hm_insert (into @ ''.#id'') (VUInt64 rid) vars) (map (\<lambda>(k, v). (into @ ''.'' @ k, v)) vals)"

fun run_steps :: "'b backend \<Rightarrow> proc_env \<Rightarrow> proc_step list \<Rightarrow> val \<Rightarrow> 'b runner \<Rightarrow> (runtime_error + val) \<times> 'b runner"
  and run_step :: "'b backend \<Rightarrow> proc_env \<Rightarrow> proc_step \<Rightarrow> 'b runner \<Rightarrow> (runtime_error + flow) \<times> 'b runner" where
  "run_steps bk env [] last_v r = (Ok last_v, r)"
| "run_steps bk env (s # ss) last_v r =
     (case charge r of
        (Inl e, r) \<Rightarrow> (Err e, r)
      | (Inr _, r) \<Rightarrow>
          (case run_step bk env s r of
             (Inl e, r) \<Rightarrow> (Err e, r)
           | (Inr (Next v), r) \<Rightarrow> run_steps bk env ss v r
           | (Inr (Return v), r) \<Rightarrow> (Ok v, r)))"
| "run_step bk env (SetVariable name v) r =
     (let v = resolve (rn_variables r) v in
      (Ok (Next v), r \<lparr> rn_variables := hm_insert name v (rn_variables r) \<rparr>))"
| "run_step bk env (CallFunction f args) r =
     (case bk_call bk f (resolve_all (rn_variables r) args) (rn_backend r) of
        Inl e \<Rightarrow> (Err e, r)
      | Inr v \<Rightarrow> (Ok (Next v), r))"
| "run_step bk env (IfStep c then_steps else_steps) r =
     (case (if evaluate env (rn_variables r) c then run_steps bk env then_steps VNull r
            else run_steps bk env else_steps VNull r) of
        (Inl e, r) \<Rightarrow> (Err e, r)
      | (Inr v, r) \<Rightarrow> (Ok (Next v), r))"
| "run_step bk env (ReadRow table i into) r =
     (case resolve_id (rn_variables r) i of
        Inl e \<Rightarrow> (Err e, r)
      | Inr rid \<Rightarrow>
          (case bk_read bk table rid (rn_backend r) of
             (Inl e, b) \<Rightarrow> (Err e, r \<lparr> rn_backend := b \<rparr>)
           | (Inr None, b) \<Rightarrow> (Err (RowNotFound table rid), r \<lparr> rn_backend := b \<rparr>)
           | (Inr (Some vals), b) \<Rightarrow>
               (Ok (Next (VUInt64 rid)),
                r \<lparr> rn_backend := b, rn_variables := read_into into rid vals (rn_variables r) \<rparr>)))"
| "run_step bk env (InsertRow table vals into) r =
     (case bk_insert bk table (resolve_all (rn_variables r) vals) (rn_backend r) of
        (Inl e, b) \<Rightarrow> (Err e, r \<lparr> rn_backend := b \<rparr>)
      | (Inr _, b) \<Rightarrow>
          (Ok (Next (VUInt64 0)),
           r \<lparr> rn_backend := b, rn_variables := hm_insert into (VUInt64 0) (rn_variables r) \<rparr>))"
| "run_step bk env (UpdateRow table i vals) r =
     (case resolve_id (rn_variables r) i of
        Inl e \<Rightarrow> (Err e, r)
      | Inr rid \<Rightarrow>
          (case bk_update bk table rid (resolve_all (rn_variables r) vals) (rn_backend r) of
             (Inl e, b) \<Rightarrow> (Err e, r \<lparr> rn_backend := b \<rparr>)
           | (Inr _, b) \<Rightarrow> (Ok (Next (VUInt64 rid)), r \<lparr> rn_backend := b \<rparr>)))"
| "run_step bk env (DeleteRow table i) r =
     (case resolve_id (rn_variables r) i of
        Inl e \<Rightarrow> (Err e, r)
      | Inr rid \<Rightarrow>
          (case bk_delete bk table rid (rn_backend r) of
             (Inl e, b) \<Rightarrow> (Err e, r \<lparr> rn_backend := b \<rparr>)
           | (Inr _, b) \<Rightarrow> (Ok (Next (VUInt64 rid)), r \<lparr> rn_backend := b \<rparr>)))"
| "run_step bk env (ReturnValue v) r = (Ok (Return (resolve (rn_variables r) v)), r)"
| "run_step bk env (FailWith message) r = (Err (Abort (fail_message env (rn_variables r) message)), r)"

record procedure_output =
  po_value :: val
  po_variables :: row_values

definition run_procedure ::
  "'b backend \<Rightarrow> proc_env \<Rightarrow> procedure \<Rightarrow> row_values \<Rightarrow> u64 \<Rightarrow> 'b \<Rightarrow> (runtime_error + procedure_output) \<times> 'b" where
  "run_procedure bk env p args fuel b =
     (case run_steps bk env (pc_steps p) VNull
             \<lparr> rn_backend = b, rn_variables = args, rn_fuel = fuel, rn_burned = 0 \<rparr> of
        (Inl e, r) \<Rightarrow> (Err e, rn_backend r)
      | (Inr v, r) \<Rightarrow> (Ok \<lparr> po_value = v, po_variables = rn_variables r \<rparr>, rn_backend r))"

section \<open>The pure executor\<close>

record runtime_executor =
  re_functions :: function_registry
  re_procedures :: "(string, procedure) hmap"
  re_variables :: row_values

definition executor_empty :: runtime_executor where
  "executor_empty = \<lparr> re_functions = [], re_procedures = [], re_variables = [] \<rparr>"

definition register_procedure :: "procedure \<Rightarrow> runtime_executor \<Rightarrow> runtime_executor" where
  "register_procedure p x = x \<lparr> re_procedures := hm_insert (pc_name p) p (re_procedures x) \<rparr>"

definition get_procedure :: "runtime_executor \<Rightarrow> string \<Rightarrow> procedure option" where
  "get_procedure x name = hm_get (re_procedures x) name"

definition set_variable :: "string \<Rightarrow> val \<Rightarrow> runtime_executor \<Rightarrow> runtime_executor" where
  "set_variable name v x = x \<lparr> re_variables := hm_insert name v (re_variables x) \<rparr>"

definition get_variable :: "runtime_executor \<Rightarrow> string \<Rightarrow> val option" where
  "get_variable x name = hm_get (re_variables x) name"

definition execute_function :: "runtime_executor \<Rightarrow> string \<Rightarrow> row_values \<Rightarrow> runtime_error + val" where
  "execute_function x name args = registry_execute (re_functions x) name args"

definition resolve_value :: "runtime_executor \<Rightarrow> val \<Rightarrow> val" where
  "resolve_value x v = (case v of
      VString s \<Rightarrow> (if s \<noteq> [] \<and> hd s = CHR ''$''
        then case hm_get (re_variables x) (tl s) of Some w \<Rightarrow> w | None \<Rightarrow> VNull
        else v)
    | _ \<Rightarrow> v)"

fun evaluate_condition :: "proc_env \<Rightarrow> runtime_executor \<Rightarrow> condition \<Rightarrow> bool" where
  "evaluate_condition env x (CEquals var e) =
     (case hm_get (re_variables x) var of Some v \<Rightarrow> value_eq v (resolve_value x e) | None \<Rightarrow> False)"
| "evaluate_condition env x (CNotEquals var e) =
     (case hm_get (re_variables x) var of Some v \<Rightarrow> \<not> value_eq v (resolve_value x e) | None \<Rightarrow> False)"
| "evaluate_condition env x (CIsNotNull var) = (case hm_get (re_variables x) var of Some v \<Rightarrow> \<not> is_null v | None \<Rightarrow> False)"
| "evaluate_condition env x (CGreaterOrEqual var e) =
     (case hm_get (re_variables x) var of Some v \<Rightarrow> value_cmp (pv_js env) v (resolve_value x e) \<noteq> Less | None \<Rightarrow> False)"
| "evaluate_condition env x (CLessThan var e) =
     (case hm_get (re_variables x) var of Some v \<Rightarrow> value_cmp (pv_js env) v (resolve_value x e) = Less | None \<Rightarrow> False)"
| "evaluate_condition env x (CAll cs) = (\<forall>c \<in> set cs. evaluate_condition env x c)"
| "evaluate_condition env x (CAny cs) = (\<exists>c \<in> set cs. evaluate_condition env x c)"

text \<open>The executor's copy of the interpreter's value and condition evaluation computes the same.\<close>

lemma resolve_value_eq [simp]: "resolve_value x v = resolve (re_variables x) v"
proof (cases v)
  case (VString s)
  then show ?thesis by (cases s) (simp_all add: resolve_value_def)
qed (simp_all add: resolve_value_def)

lemma resolve_all_fold [simp]: "map (\<lambda>(k, v). (k, resolve vars v)) args = resolve_all vars args"
  by (simp add: resolve_all_def)

lemma evaluate_condition_eq [simp]: "evaluate_condition env x c = evaluate env (re_variables x) c"
  by (induction c) (auto split: option.splits)

fun execute_steps :: "proc_env \<Rightarrow> proc_step list \<Rightarrow> val \<Rightarrow> runtime_executor \<Rightarrow> (runtime_error + val) \<times> runtime_executor"
  and execute_step :: "proc_env \<Rightarrow> proc_step \<Rightarrow> runtime_executor \<Rightarrow> (runtime_error + val) \<times> runtime_executor" where
  "execute_steps env [] last_v x = (Ok last_v, x)"
| "execute_steps env (s # ss) last_v x =
     (case execute_step env s x of
        (Inl e, x) \<Rightarrow> (Err e, x)
      | (Inr v, x) \<Rightarrow> execute_steps env ss v x)"
| "execute_step env (SetVariable name v) x = (Ok v, x \<lparr> re_variables := hm_insert name v (re_variables x) \<rparr>)"
| "execute_step env (CallFunction f args) x = (execute_function x f (map (\<lambda>(k, v). (k, resolve_value x v)) args), x)"
| "execute_step env (IfStep c then_steps else_steps) x =
     (if evaluate_condition env x c then execute_steps env then_steps VNull x
      else execute_steps env else_steps VNull x)"
| "execute_step env (ReadRow table i into) x = (Err (NeedsTransaction ''Read'' table), x)"
| "execute_step env (InsertRow table vals into) x = (Err (NeedsTransaction ''Insert'' table), x)"
| "execute_step env (UpdateRow table i vals) x = (Err (NeedsTransaction ''Update'' table), x)"
| "execute_step env (DeleteRow table i) x = (Err (NeedsTransaction ''Delete'' table), x)"
| "execute_step env (ReturnValue v) x = (Ok (resolve_value x v), x)"
| "execute_step env (FailWith message) x = (Err (Abort message), x)"

definition execute_procedure :: "proc_env \<Rightarrow> string \<Rightarrow> runtime_executor \<Rightarrow> (runtime_error + val) \<times> runtime_executor" where
  "execute_procedure env name x =
     (case hm_get (re_procedures x) name of
        None \<Rightarrow> (Err (FunctionNotFound name), x)
      | Some p \<Rightarrow> execute_steps env (pc_steps p) VNull x)"

section \<open>Deployment\<close>

datatype deploy_fault =
    BadName string
  | IllegalName string string
  | DescriptionTooLong
  | NoSteps
  | TooManySteps
  | BadTableName
  | NestingTooDeep
  | UnknownFunction string
  | ArgsTooLarge
  | BranchTooLarge
  | MessageTooLong
  | ConditionListTooLarge
  | ValuesTooLarge
  | StringTooLarge
  | BytesTooLarge
  | ArrayLiteralTooLarge

definition MAX_DEPLOY_STEPS :: nat where "MAX_DEPLOY_STEPS = 256"
definition MAX_DEPLOY_DEPTH :: nat where "MAX_DEPLOY_DEPTH = 16"
definition MAX_NAME_LEN :: nat where "MAX_NAME_LEN = 128"
definition MAX_TEXT_LEN :: nat where "MAX_TEXT_LEN = 1024"

definition ascii_alphanumeric :: "char \<Rightarrow> bool" where
  "ascii_alphanumeric c \<longleftrightarrow>
     (CHR ''0'' \<le> c \<and> c \<le> CHR ''9'') \<or> (CHR ''A'' \<le> c \<and> c \<le> CHR ''Z'') \<or> (CHR ''a'' \<le> c \<and> c \<le> CHR ''z'')"

definition check_name :: "string \<Rightarrow> string \<Rightarrow> deploy_fault + unit" where
  "check_name kind name =
     (if name = [] \<or> MAX_NAME_LEN < length name then Err (BadName kind)
      else if \<not> list_all (\<lambda>c. ascii_alphanumeric c \<or> c \<in> set ''_:.-/'') name then Err (IllegalName kind name)
      else Ok ())"

definition check_table :: "string \<Rightarrow> deploy_fault + unit" where
  "check_table table = (if table = [] \<or> MAX_NAME_LEN < length table then Err BadTableName else Ok ())"

definition check_value_size :: "val \<Rightarrow> deploy_fault + unit" where
  "check_value_size v =
     (case v of
        VString s \<Rightarrow> if 65536 < length s then Err StringTooLarge else Ok ()
      | VBytes b \<Rightarrow> if 262144 < length b then Err BytesTooLarge else Ok ()
      | VArray items \<Rightarrow> if 1024 < length items then Err ArrayLiteralTooLarge else Ok ()
      | _ \<Rightarrow> Ok ())"

text \<open>\<open>for x in xs { check(x)?; }\<close> and \<open>a?; b\<close>.\<close>

fun check_all :: "('a \<Rightarrow> deploy_fault + unit) \<Rightarrow> 'a list \<Rightarrow> deploy_fault + unit" where
  "check_all f [] = Ok ()"
| "check_all f (x # xs) = (case f x of Inl e \<Rightarrow> Err e | Inr _ \<Rightarrow> check_all f xs)"

definition and_then :: "deploy_fault + unit \<Rightarrow> deploy_fault + unit \<Rightarrow> deploy_fault + unit" where
  "and_then a b = (case a of Inl e \<Rightarrow> Err e | Inr _ \<Rightarrow> b)"

definition check_raw_values :: "row_values \<Rightarrow> deploy_fault + unit" where
  "check_raw_values vals =
     (if 256 < length vals then Err ValuesTooLarge else check_all check_value_size (hm_values vals))"

lemma check_all_cong [fundef_cong]:
  "xs = ys \<Longrightarrow> (\<And>x. x \<in> set ys \<Longrightarrow> f x = g x) \<Longrightarrow> check_all f xs = check_all g ys"
  by (induction ys arbitrary: xs) (auto split: sum.split)

fun check_condition :: "condition \<Rightarrow> deploy_fault + unit" where
  "check_condition (CEquals v e) = and_then (check_name ''variable'' v) (check_value_size e)"
| "check_condition (CNotEquals v e) = and_then (check_name ''variable'' v) (check_value_size e)"
| "check_condition (CIsNotNull v) = check_name ''variable'' v"
| "check_condition (CGreaterOrEqual v e) = and_then (check_name ''variable'' v) (check_value_size e)"
| "check_condition (CLessThan v e) = and_then (check_name ''variable'' v) (check_value_size e)"
| "check_condition (CAll cs) = (if 64 < length cs then Err ConditionListTooLarge else check_all check_condition cs)"
| "check_condition (CAny cs) = (if 64 < length cs then Err ConditionListTooLarge else check_all check_condition cs)"

lemma member_size: "x \<in> set xs \<Longrightarrow> size (x :: proc_step) \<le> size_list size xs"
  by (induction xs) auto

function (sequential) check_step :: "function_registry \<Rightarrow> nat \<Rightarrow> proc_step \<Rightarrow> deploy_fault + unit" where
  "check_step fns depth step =
     (if MAX_DEPLOY_DEPTH + 1 < depth then Err NestingTooDeep
      else case step of
        CallFunction f args \<Rightarrow>
          if \<not> registry_has fns f then Err (UnknownFunction f)
          else if 256 < length args then Err ArgsTooLarge
          else Ok ()
      | SetVariable name v \<Rightarrow> and_then (check_name ''variable'' name) (check_value_size v)
      | IfStep c then_steps else_steps \<Rightarrow>
          and_then (check_condition c)
            (if MAX_DEPLOY_STEPS < length then_steps + length else_steps then Err BranchTooLarge
             else check_all (check_step fns (Suc depth)) (then_steps @ else_steps))
      | ReadRow table i into \<Rightarrow> and_then (check_table table) (check_name ''variable'' into)
      | InsertRow table vals into \<Rightarrow>
          and_then (check_table table) (and_then (check_name ''variable'' into) (check_raw_values vals))
      | UpdateRow table i vals \<Rightarrow> and_then (check_table table) (check_raw_values vals)
      | DeleteRow table i \<Rightarrow> check_table table
      | ReturnValue v \<Rightarrow> check_value_size v
      | FailWith message \<Rightarrow> if MAX_TEXT_LEN < length message then Err MessageTooLong else Ok ())"
  by pat_completeness auto
termination
  by (relation "measure (\<lambda>(fns, depth, step). size step)")
    (auto simp: less_Suc_eq_le trans_le_add1 trans_le_add2 member_size)

declare check_step.simps [simp del]

definition validate_procedure :: "procedure \<Rightarrow> function_registry \<Rightarrow> deploy_fault + unit" where
  "validate_procedure p fns =
     and_then (check_name ''procedure'' (pc_name p))
       (if MAX_TEXT_LEN < length (pc_description p) then Err DescriptionTooLong
        else if pc_steps p = [] then Err NoSteps
        else if MAX_DEPLOY_STEPS < length (pc_steps p) then Err TooManySteps
        else check_all (check_step fns 1) (pc_steps p))"

section \<open>The loops of the built-in functions end\<close>

lemma missing_argument: "\<exists>i \<le> length args. hm_get args (nat_text i) = None"
proof (rule ccontr)
  assume "\<not> ?thesis"
  then have "nat_text ` {..length args} \<subseteq> fst ` set args"
    by (auto simp: map_of_eq_None_iff)
  then have "card (nat_text ` {..length args}) \<le> card (fst ` set args)"
    by (intro card_mono) auto
  moreover have "card (nat_text ` {..length args}) = Suc (length args)"
    by (subst card_image) (auto intro: inj_onI)
  moreover have "card (fst ` set args) \<le> length args"
    by (metis card_image_le card_length le_trans List.finite_set)
  ultimately show False by simp
qed

lemma concat_loop_ends:
  "k < n \<Longrightarrow> hm_get args (nat_text (i + k)) = None \<Longrightarrow> concat_loop d n i args res \<noteq> None"
proof (induction n arbitrary: i k res)
  case (Suc n)
  show ?case
  proof (cases "hm_get args (nat_text i)")
    case (Some v)
    with Suc.prems obtain k' where "k = Suc k'" by (cases k) auto
    with Suc Some show ?thesis by (cases v) auto
  qed simp
qed simp

lemma coalesce_loop_ends:
  "k < n \<Longrightarrow> hm_get args (nat_text (i + k)) = None \<Longrightarrow> coalesce_loop n i args \<noteq> None"
proof (induction n arbitrary: i k)
  case (Suc n)
  show ?case
  proof (cases "hm_get args (nat_text i)")
    case (Some v)
    with Suc.prems obtain k' where "k = Suc k'" by (cases k) auto
    with Suc Some show ?thesis by auto
  qed simp
qed simp

lemma concat_total: "\<exists>s. concat_fn d args = Ok (VString s)"
proof -
  obtain k where k: "k \<le> length args" "hm_get args (nat_text k) = None"
    using missing_argument by blast
  with concat_loop_ends [of k "Suc (length args)" args 0 d "[]"] show ?thesis
    by (auto simp: concat_fn_def simp del: concat_loop.simps)
qed

lemma coalesce_total: "\<exists>v. coalesce_fn args = Ok v"
proof -
  obtain k where k: "k \<le> length args" "hm_get args (nat_text k) = None"
    using missing_argument by blast
  with coalesce_loop_ends [of k "Suc (length args)" args 0] show ?thesis
    by (auto simp: coalesce_fn_def simp del: coalesce_loop.simps)
qed

section \<open>Fuel\<close>

text \<open>The steps a run charges at most: of a conditional, the longer branch.\<close>

fun steps_count :: "proc_step list \<Rightarrow> nat" and step_count :: "proc_step \<Rightarrow> nat" where
  "steps_count [] = 0"
| "steps_count (s # ss) = Suc (step_count s + steps_count ss)"
| "step_count (IfStep c t e) = max (steps_count t) (steps_count e)"
| "step_count _ = 0"

definition no_fuel_errors :: "'b backend \<Rightarrow> bool" where
  "no_fuel_errors bk \<longleftrightarrow>
     (\<forall>t i m f b n. fst (bk_read bk t i b) \<noteq> Inl (FuelExhausted n) \<and> fst (bk_insert bk t m b) \<noteq> Inl (FuelExhausted n) \<and>
        fst (bk_update bk t i m b) \<noteq> Inl (FuelExhausted n) \<and> fst (bk_delete bk t i b) \<noteq> Inl (FuelExhausted n) \<and>
        bk_call bk f m b \<noteq> Inl (FuelExhausted n))"

lemma no_fuel_errorsD:
  assumes "no_fuel_errors bk"
  shows "bk_read bk t i b \<noteq> (Inl (FuelExhausted n), b')" "bk_insert bk t m b \<noteq> (Inl (FuelExhausted n), b')"
    "bk_update bk t i m b \<noteq> (Inl (FuelExhausted n), b')" "bk_delete bk t i b \<noteq> (Inl (FuelExhausted n), b')"
    "bk_call bk f m b \<noteq> Inl (FuelExhausted n)"
  using assms unfolding no_fuel_errors_def by (metis fst_conv)+

text \<open>A run with enough fuel does not depend on how much there is.\<close>

definition with_fuel :: "u64 \<Rightarrow> 'b runner \<Rightarrow> 'b runner" where
  "with_fuel f r = r \<lparr> rn_fuel := f \<rparr>"

lemma with_fuel_simps [simp]:
  "rn_backend (with_fuel f r) = rn_backend r" "rn_variables (with_fuel f r) = rn_variables r"
  "rn_burned (with_fuel f r) = rn_burned r" "rn_fuel (with_fuel f r) = f"
  "with_fuel f (r \<lparr> rn_backend := b \<rparr>) = (with_fuel f r) \<lparr> rn_backend := b \<rparr>"
  "with_fuel f (r \<lparr> rn_variables := m \<rparr>) = (with_fuel f r) \<lparr> rn_variables := m \<rparr>"
  by (simp_all add: with_fuel_def)

lemma charge_enough:
  assumes "unat (rn_burned r) < unat (rn_fuel r)"
  shows "charge r = (Ok (), r \<lparr> rn_burned := rn_burned r + 1 \<rparr>) \<and> unat (rn_burned r + 1) = Suc (unat (rn_burned r))"
proof -
  have "rn_burned r < rn_fuel r" using assms by (simp add: word_less_nat_alt)
  then have u: "unat (rn_burned r + 1) = Suc (unat (rn_burned r))"
    using word_order.extremum [of "rn_fuel r"] by (metis add.commute add_eq_0_iff leD unatSuc)
  then have "\<not> rn_fuel r < rn_burned r + 1" using assms by (simp add: word_less_nat_alt)
  with u show ?thesis by (simp add: charge_def Let_def)
qed

definition fuel_ok_run ::
  "(('b runner \<Rightarrow> (runtime_error + 'a) \<times> 'b runner)) \<Rightarrow> nat \<Rightarrow> 'b runner \<Rightarrow> bool" where
  "fuel_ok_run p m r \<longleftrightarrow>
     (unat (rn_burned r) + m \<le> unat (rn_fuel r) \<longrightarrow>
        (\<forall>n. fst (p r) \<noteq> Inl (FuelExhausted n)) \<and> rn_fuel (snd (p r)) = rn_fuel r \<and>
        unat (rn_burned (snd (p r))) \<le> unat (rn_burned r) + m \<and>
        (\<forall>f. unat (rn_burned r) + m \<le> unat f \<longrightarrow> p (with_fuel f r) = (fst (p r), with_fuel f (snd (p r)))))"

lemma fuel_ok_runD:
  assumes "fuel_ok_run p m r" and "unat (rn_burned r) + m \<le> unat (rn_fuel r)" and "p r = (x, r')"
  shows "x \<noteq> Inl (FuelExhausted n) \<and> rn_fuel r' = rn_fuel r \<and>
     unat (rn_burned r') \<le> unat (rn_burned r) + m \<and>
     (unat (rn_burned r) + m \<le> unat f \<longrightarrow> p (with_fuel f r) = (x, with_fuel f r'))"
  using assms unfolding fuel_ok_run_def by simp

lemma fuel_ok_runI:
  assumes "\<And>x r'. p r = (x, r') \<Longrightarrow> unat (rn_burned r) + m \<le> unat (rn_fuel r) \<Longrightarrow>
     (\<forall>n. x \<noteq> Inl (FuelExhausted n)) \<and> rn_fuel r' = rn_fuel r \<and>
     unat (rn_burned r') \<le> unat (rn_burned r) + m \<and>
     (\<forall>f. unat (rn_burned r) + m \<le> unat f \<longrightarrow> p (with_fuel f r) = (x, with_fuel f r'))"
  shows "fuel_ok_run p m r"
  using assms [of "fst (p r)" "snd (p r)"] unfolding fuel_ok_run_def by simp

lemma resolve_id_fuel: "resolve_id vars v \<noteq> Inl (FuelExhausted n)"
  by (auto simp: resolve_id_def split: val.split)

lemma run_step_simple_fuel:
  assumes "no_fuel_errors bk" and "\<And>c t e. s \<noteq> IfStep c t e"
  shows "fuel_ok_run (run_step bk env s) 0 r"
proof (rule fuel_ok_runI)
  fix x r'
  assume "run_step bk env s r = (x, r')"
  then show "(\<forall>n. x \<noteq> Inl (FuelExhausted n)) \<and> rn_fuel r' = rn_fuel r \<and>
     unat (rn_burned r') \<le> unat (rn_burned r) + 0 \<and>
     (\<forall>f. unat (rn_burned r) + 0 \<le> unat f \<longrightarrow> run_step bk env s (with_fuel f r) = (x, with_fuel f r'))"
    using assms(2) no_fuel_errorsD [OF assms(1)] resolve_id_fuel
    by (cases s) (auto simp: Let_def split: sum.splits prod.splits option.splits)
qed

lemma run_fuel:
  assumes bk: "no_fuel_errors bk"
  shows "fuel_ok_run (run_steps bk env steps last_v) (steps_count steps) r"
    and "fuel_ok_run (run_step bk env step) (step_count step) r"
  using bk
proof (induction bk env steps last_v r and bk env step r rule: run_steps_run_step.induct)
  case (2 bk env s ss last_v r)
  show ?case
  proof (rule fuel_ok_runI)
    fix x r'
    assume run: "run_steps bk env (s # ss) last_v r = (x, r')"
      and enough: "unat (rn_burned r) + steps_count (s # ss) \<le> unat (rn_fuel r)"
    let ?r = "r \<lparr> rn_burned := rn_burned r + 1 \<rparr>"
    have c: "charge r = (Ok (), ?r)" and u: "unat (rn_burned ?r) = Suc (unat (rn_burned r))"
      using charge_enough [of r] enough by auto
    obtain y r1 where s: "run_step bk env s ?r = (y, r1)" by (cases "run_step bk env s ?r")
    have IH1: "fuel_ok_run (run_step bk env s) (step_count s) ?r"
      using 2(1) 2(3) c by simp
    have e1: "unat (rn_burned ?r) + step_count s \<le> unat (rn_fuel ?r)" using enough u by simp
    note D1 = fuel_ok_runD [OF IH1 e1 s]
    have b1: "rn_fuel r1 = rn_fuel r" "unat (rn_burned r1) \<le> Suc (unat (rn_burned r)) + step_count s"
      using D1 [of 0 0] u by simp_all
    have wf: "charge (with_fuel f r) = (Ok (), with_fuel f ?r)"
      if "unat (rn_burned r) + steps_count (s # ss) \<le> unat f" for f
      using charge_enough [of "with_fuel f r"] that by (simp add: with_fuel_def)
    show "(\<forall>n. x \<noteq> Inl (FuelExhausted n)) \<and> rn_fuel r' = rn_fuel r \<and>
      unat (rn_burned r') \<le> unat (rn_burned r) + steps_count (s # ss) \<and>
      (\<forall>f. unat (rn_burned r) + steps_count (s # ss) \<le> unat f \<longrightarrow>
         run_steps bk env (s # ss) last_v (with_fuel f r) = (x, with_fuel f r'))"
    proof (cases "\<exists>v. y = Inr (Next v)")
      case True
      then obtain v where v: "y = Inr (Next v)" by blast
      have IH2: "fuel_ok_run (run_steps bk env ss v) (steps_count ss) r1"
        using 2(2) 2(3) c s v by simp
      have e2: "unat (rn_burned r1) + steps_count ss \<le> unat (rn_fuel r1)"
        using b1 enough by simp
      have run2: "run_steps bk env ss v r1 = (x, r')" using run c s v by simp
      note D2 = fuel_ok_runD [OF IH2 e2 run2]
      have "run_steps bk env (s # ss) last_v (with_fuel f r) = (x, with_fuel f r')"
        if f: "unat (rn_burned r) + steps_count (s # ss) \<le> unat f" for f
      proof -
        have "run_step bk env s (with_fuel f ?r) = (y, with_fuel f r1)" using D1 f u by simp
        moreover have "run_steps bk env ss v (with_fuel f r1) = (x, with_fuel f r')"
          using b1 D2 f by simp
        ultimately show ?thesis using wf [OF f] v by simp
      qed
      with b1 D2 [of _ 0] show ?thesis by fastforce
    next
      case False
      then have fin: "r' = r1" "(\<exists>e. y = Inl e \<and> x = Inl e) \<or> (\<exists>v. y = Inr (Return v) \<and> x = Inr v)"
        using run c s by (auto split: sum.splits flow.splits)
      have "run_steps bk env (s # ss) last_v (with_fuel f r) = (x, with_fuel f r')"
        if f: "unat (rn_burned r) + steps_count (s # ss) \<le> unat f" for f
      proof -
        have "run_step bk env s (with_fuel f ?r) = (y, with_fuel f r1)" using D1 f u by simp
        then show ?thesis using wf [OF f] fin by auto
      qed
      with b1 D1 [of _ 0] fin show ?thesis by fastforce
    qed
  qed
next
  case (5 bk env c t e r)
  let ?b = "if evaluate env (rn_variables r) c then t else e"
  have IH: "fuel_ok_run (run_steps bk env ?b VNull) (steps_count ?b) r" using 5 by simp
  have count: "steps_count ?b \<le> step_count (IfStep c t e)" by simp
  have step: "run_step bk env (IfStep c t e) r' =
      (case run_steps bk env ?b VNull r' of (Inl e, r) \<Rightarrow> (Err e, r) | (Inr v, r) \<Rightarrow> (Ok (Next v), r))"
    if "rn_variables r' = rn_variables r" for r'
    using that by simp
  show ?case
  proof (rule fuel_ok_runI)
    fix x r'
    assume run: "run_step bk env (IfStep c t e) r = (x, r')"
      and enough: "unat (rn_burned r) + step_count (IfStep c t e) \<le> unat (rn_fuel r)"
    obtain y r1 where s: "run_steps bk env ?b VNull r = (y, r1)" by (cases "run_steps bk env ?b VNull r")
    have e1: "unat (rn_burned r) + steps_count ?b \<le> unat (rn_fuel r)" using enough count by linarith
    note D = fuel_ok_runD [OF IH e1 s]
    have fin: "r' = r1" "(\<exists>e. y = Inl e \<and> x = Inl e) \<or> (\<exists>v. y = Inr v \<and> x = Inr (Next v))"
      using run s step [of r] by (auto split: sum.splits)
    have "run_step bk env (IfStep c t e) (with_fuel f r) = (x, with_fuel f r')"
      if f: "unat (rn_burned r) + step_count (IfStep c t e) \<le> unat f" for f
    proof -
      have "run_steps bk env ?b VNull (with_fuel f r) = (y, with_fuel f r1)" using D f count by simp
      then show ?thesis using step [of "with_fuel f r"] fin by auto
    qed
    with D fin count show "(\<forall>n. x \<noteq> Inl (FuelExhausted n)) \<and> rn_fuel r' = rn_fuel r \<and>
      unat (rn_burned r') \<le> unat (rn_burned r) + step_count (IfStep c t e) \<and>
      (\<forall>f. unat (rn_burned r) + step_count (IfStep c t e) \<le> unat f \<longrightarrow>
         run_step bk env (IfStep c t e) (with_fuel f r) = (x, with_fuel f r'))"
      by fastforce
  qed
next
  case (1 bk env last_v r)
  then show ?case by (simp add: fuel_ok_run_def)
qed (simp_all only: step_count.simps, (rule run_step_simple_fuel; simp)+)

section \<open>What a run does to the storage\<close>

text \<open>
  The contract of a backend towards the runner: a relation between storage states that every
  operation respects. Whatever a procedure does, its run respects the relation, too.
\<close>

locale backend_relation =
  fixes bk :: "'b backend"
    and R :: "'b \<Rightarrow> 'b \<Rightarrow> bool"
  assumes R_refl: "R b b"
    and R_trans: "R a b \<Longrightarrow> R b c \<Longrightarrow> R a c"
    and R_read: "R b (snd (bk_read bk t i b))"
    and R_insert: "R b (snd (bk_insert bk t m b))"
    and R_update: "R b (snd (bk_update bk t i m b))"
    and R_delete: "R b (snd (bk_delete bk t i b))"
begin

lemma charge_R: "charge r = (x, r') \<Longrightarrow> rn_backend r' = rn_backend r"
  by (auto simp: charge_def Let_def split: if_splits)

lemma run_step_simple_R:
  assumes "\<And>c t e. s \<noteq> IfStep c t e"
  shows "R (rn_backend r) (rn_backend (snd (run_step bk env s r)))"
  using assms R_refl R_read R_insert R_update R_delete
  by (cases s) (auto simp: Let_def split: sum.split prod.split option.split, (metis snd_conv)+)

lemma run_R:
  fixes r :: "'b runner"
  shows "bk' = bk \<Longrightarrow> R (rn_backend r) (rn_backend (snd (run_steps bk' env steps last_v r)))"
    and "bk' = bk \<Longrightarrow> R (rn_backend r) (rn_backend (snd (run_step bk' env step r)))"
proof (induction bk' env steps last_v r and bk' env step r rule: run_steps_run_step.induct)
  case (1 bk' env last_v r)
  then show ?case by (simp add: R_refl)
next
  case (2 bk' env s ss last_v r)
  obtain y r1 where c: "charge r = (y, r1)" by (cases "charge r")
  have r1: "rn_backend r1 = rn_backend r" using charge_R [OF c] .
  obtain z r2 where s: "run_step bk' env s r1 = (z, r2)" by (cases "run_step bk' env s r1")
  show ?case
  proof (cases y)
    case (Inl e)
    with c r1 show ?thesis by (simp add: R_refl)
  next
    case (Inr u)
    have IH1: "R (rn_backend r) (rn_backend r2)"
      using 2(1) [OF c [symmetric] Inr 2(3)] s r1 by simp
    show ?thesis
    proof (cases z)
      case (Inl e)
      with c Inr s IH1 show ?thesis by simp
    next
      case z: (Inr fl)
      show ?thesis
      proof (cases fl)
        case (Next v)
        have "R (rn_backend r2) (rn_backend (snd (run_steps bk' env ss v r2)))"
          using 2(2) c s Inr z Next 2(3) by simp
        with IH1 c s Inr z Next show ?thesis by (auto intro: R_trans)
      next
        case (Return v)
        with c Inr s z IH1 show ?thesis by simp
      qed
    qed
  qed
next
  case (5 bk' env c t e r)
  then show ?case by (auto split: prod.split sum.split)
qed (hypsubst, rule run_step_simple_R, simp)+

lemma run_procedure_R: "R b (snd (run_procedure bk env p args fuel b))"
proof -
  let ?r = "\<lparr> rn_backend = b, rn_variables = args, rn_fuel = fuel, rn_burned = 0 \<rparr>"
  obtain y r where run: "run_steps bk env (pc_steps p) VNull ?r = (y, r)"
    by (cases "run_steps bk env (pc_steps p) VNull ?r")
  have "R (rn_backend ?r) (rn_backend (snd (run_steps bk env (pc_steps p) VNull ?r)))"
    by (rule run_R(1)) simp
  then show ?thesis using run by (simp add: run_procedure_def split: sum.split)
qed

end

section \<open>The runner and the executor on pure procedures\<close>

text \<open>Values that are not references, and the steps both interpreters give the same meaning.\<close>

fun plain_value :: "val \<Rightarrow> bool" where
  "plain_value (VString (c # s)) = (c \<noteq> CHR ''$'')"
| "plain_value _ = True"

fun pure_steps :: "proc_step list \<Rightarrow> bool" and pure_step :: "proc_step \<Rightarrow> bool" where
  "pure_steps [] = True"
| "pure_steps (s # ss) = (pure_step s \<and> pure_steps ss)"
| "pure_step (CallFunction f args) = True"
| "pure_step (SetVariable name v) = plain_value v"
| "pure_step (IfStep c t e) = (pure_steps t \<and> pure_steps e)"
| "pure_step (FailWith message) = (case message of c # _ \<Rightarrow> c \<noteq> CHR ''$'' | [] \<Rightarrow> True)"
| "pure_step _ = False"

lemma resolve_plain: "plain_value v \<Longrightarrow> resolve vars v = v"
  by (cases v rule: plain_value.cases) auto

lemma fail_message_plain:
  "pure_step (FailWith message) \<Longrightarrow> fail_message env vars message = message"
  by (auto simp: fail_message_def split: list.splits)

definition same_run :: "(runtime_error + 'a) \<times> 'b runner \<Rightarrow> (runtime_error + 'a) \<times> runtime_executor \<Rightarrow> bool" where
  "same_run a b \<longleftrightarrow> fst a = fst b \<and> rn_variables (snd a) = re_variables (snd b)"

definition registry_backend :: "function_registry \<Rightarrow> 'b backend \<Rightarrow> bool" where
  "registry_backend fns bk \<longleftrightarrow> (\<forall>f args b. bk_call bk f args b = registry_execute fns f args)"

definition lift_next :: "(runtime_error + val) \<times> runtime_executor \<Rightarrow> (runtime_error + flow) \<times> runtime_executor" where
  "lift_next a = (case a of (Inl e, x) \<Rightarrow> (Inl e, x) | (Inr v, x) \<Rightarrow> (Inr (Next v), x))"

lemma run_fuel_bounds:
  assumes "no_fuel_errors bk" and "run_step bk env s r = (y, r1)"
    and "unat (rn_burned r) + step_count s \<le> unat (rn_fuel r)"
  shows "rn_fuel r1 = rn_fuel r \<and> unat (rn_burned r1) \<le> unat (rn_burned r) + step_count s"
  using fuel_ok_runD [OF run_fuel(2) [OF assms(1)] assms(3,2), of 0 0] by simp

lemma pure_agree:
  assumes nf: "no_fuel_errors bk"
  shows "pure_steps steps \<Longrightarrow> rn_variables r = re_variables x \<Longrightarrow> re_functions x = fns \<Longrightarrow> registry_backend fns bk \<Longrightarrow>
      unat (rn_burned r) + steps_count steps \<le> unat (rn_fuel r) \<Longrightarrow>
      same_run (run_steps bk env steps last_v r) (execute_steps env steps last_v x) \<and>
      re_functions (snd (execute_steps env steps last_v x)) = fns"
    and "pure_step step \<Longrightarrow> rn_variables r = re_variables x \<Longrightarrow> re_functions x = fns \<Longrightarrow> registry_backend fns bk \<Longrightarrow>
      unat (rn_burned r) + step_count step \<le> unat (rn_fuel r) \<Longrightarrow>
      same_run (run_step bk env step r) (lift_next (execute_step env step x)) \<and>
      re_functions (snd (execute_step env step x)) = fns"
proof (induction env steps last_v x and env step x arbitrary: r and r rule: execute_steps_execute_step.induct)
  case (2 env s ss last_v x)
  let ?r = "r \<lparr> rn_burned := rn_burned r + 1 \<rparr>"
  have c: "charge r = (Ok (), ?r)" and u: "unat (rn_burned r + 1) = Suc (unat (rn_burned r))"
    using charge_enough [of r] 2(7) by auto
  obtain y r1 where s: "run_step bk env s ?r = (y, r1)" by (cases "run_step bk env s ?r")
  obtain z x1 where e: "execute_step env s x = (z, x1)" by (cases "execute_step env s x")
  have b: "unat (rn_burned ?r) + step_count s \<le> unat (rn_fuel ?r)" using 2(7) u by simp
  have IH: "same_run (y, r1) (lift_next (z, x1)) \<and> re_functions x1 = fns"
    using 2(1) [of ?r] 2(3-6) b s e by simp
  have b1: "rn_fuel r1 = rn_fuel r" "unat (rn_burned r1) \<le> Suc (unat (rn_burned r)) + step_count s"
    using run_fuel_bounds [OF nf s b] u by simp_all
  show ?case
  proof (cases z)
    case (Inl e')
    with IH c s e show ?thesis by (auto simp: same_run_def lift_next_def)
  next
    case (Inr v)
    then have y: "y = Inr (Next v)" "rn_variables r1 = re_variables x1"
      using IH by (auto simp: same_run_def lift_next_def)
    have "same_run (run_steps bk env ss v r1) (execute_steps env ss v x1) \<and>
        re_functions (snd (execute_steps env ss v x1)) = fns"
      using 2(2) [OF e [symmetric] Inr, of r1] 2(3-7) e Inr y IH b1 by simp
    with c s e y Inr show ?thesis by simp
  qed
next
  case (5 env c t e x)
  let ?b = "if evaluate env (re_variables x) c then t else e"
  have "same_run (run_steps bk env ?b VNull r) (execute_steps env ?b VNull x) \<and>
      re_functions (snd (execute_steps env ?b VNull x)) = fns"
    using 5 by simp
  then show ?case
    using 5(4) by (auto simp: same_run_def lift_next_def split: prod.split sum.split if_splits)
qed (auto simp: same_run_def lift_next_def resolve_plain fail_message_plain registry_backend_def execute_function_def
      split: sum.split simp del: pure_step.simps(4))

section \<open>Deployed procedures\<close>

text \<open>The functions a procedure calls, in any branch.\<close>

fun steps_functions :: "proc_step list \<Rightarrow> string set" and step_functions :: "proc_step \<Rightarrow> string set" where
  "steps_functions [] = {}"
| "steps_functions (s # ss) = step_functions s \<union> steps_functions ss"
| "step_functions (CallFunction f args) = {f}"
| "step_functions (IfStep c t e) = steps_functions t \<union> steps_functions e"
| "step_functions _ = {}"

lemma steps_functions_Union: "steps_functions ss = (\<Union>s \<in> set ss. step_functions s)"
  by (induction ss) auto

lemma check_all_Ok: "check_all f xs = Ok () \<longleftrightarrow> (\<forall>x \<in> set xs. f x = Ok ())"
  by (induction xs) (auto split: sum.split)

lemma and_then_Ok [simp]: "and_then a b = Ok () \<longleftrightarrow> a = Ok () \<and> b = Ok ()"
  by (cases a) (auto simp: and_then_def)

lemma check_step_functions:
  "check_step fns depth step = Ok () \<Longrightarrow> f \<in> step_functions step \<Longrightarrow> registry_has fns f"
proof (induction fns depth step rule: check_step.induct)
  case (1 fns depth step)
  have depth: "\<not> MAX_DEPLOY_DEPTH + 1 < depth" using 1(2) by (auto simp: check_step.simps [of fns depth] split: if_splits)
  show ?case
  proof (cases step)
    case (CallFunction g args)
    with 1(2,3) depth show ?thesis by (auto simp: check_step.simps [of fns depth] split: if_splits)
  next
    case (IfStep c t e)
    then have ok: "\<not> MAX_DEPLOY_STEPS < length t + length e" "\<forall>s \<in> set (t @ e). check_step fns (Suc depth) s = Ok ()"
      using 1(2) depth by (auto simp: check_step.simps [of fns depth] check_all_Ok split: if_splits)
    obtain s where s: "s \<in> set (t @ e)" "f \<in> step_functions s"
      using 1(3) IfStep by (auto simp: steps_functions_Union)
    with 1(1) [OF depth IfStep ok(1) s(1)] ok(2) show ?thesis by blast
  qed (use 1(3) in auto)
qed

definition unknown_function :: "runtime_error \<Rightarrow> bool" where
  "unknown_function e \<longleftrightarrow> (\<exists>g. e = FunctionNotFound g)"

text \<open>Backends and functions that do not themselves report an unknown function.\<close>

definition reports_no_unknown :: "function_registry \<Rightarrow> 'b backend \<Rightarrow> bool" where
  "reports_no_unknown fns bk \<longleftrightarrow>
     registry_backend fns bk \<and>
     (\<forall>f g args. hm_get fns f = Some g \<longrightarrow> (\<forall>h. g args \<noteq> Inl (FunctionNotFound h))) \<and>
     (\<forall>t i m b h. fst (bk_read bk t i b) \<noteq> Inl (FunctionNotFound h) \<and> fst (bk_insert bk t m b) \<noteq> Inl (FunctionNotFound h) \<and>
        fst (bk_update bk t i m b) \<noteq> Inl (FunctionNotFound h) \<and> fst (bk_delete bk t i b) \<noteq> Inl (FunctionNotFound h))"

lemma reports_no_unknownD:
  assumes "reports_no_unknown fns bk"
  shows "bk_read bk t i b \<noteq> (Inl (FunctionNotFound h), b')" "bk_insert bk t m b \<noteq> (Inl (FunctionNotFound h), b')"
    "bk_update bk t i m b \<noteq> (Inl (FunctionNotFound h), b')" "bk_delete bk t i b \<noteq> (Inl (FunctionNotFound h), b')"
    "registry_has fns f \<Longrightarrow> bk_call bk f m b \<noteq> Inl (FunctionNotFound h)"
proof -
  show "registry_has fns f \<Longrightarrow> bk_call bk f m b \<noteq> Inl (FunctionNotFound h)"
    using assms by (auto simp: reports_no_unknown_def registry_backend_def registry_execute_def registry_has_def)
qed (use assms in \<open>unfold reports_no_unknown_def, metis fst_conv\<close>)+

lemma resolve_id_known: "resolve_id vars v \<noteq> Inl (FunctionNotFound h)"
  by (auto simp: resolve_id_def split: val.split)

lemma charge_known: "charge r \<noteq> (Inl (FunctionNotFound h), r')"
  by (auto simp: charge_def Let_def)

lemma run_step_simple_known:
  assumes "reports_no_unknown fns bk" and "\<forall>f \<in> step_functions s. registry_has fns f" and "\<And>c t e. s \<noteq> IfStep c t e"
  shows "run_step bk env s r \<noteq> (Inl (FunctionNotFound h), r')"
  using assms(2,3) reports_no_unknownD [OF assms(1)] resolve_id_known
  by (cases s) (auto simp: Let_def split: sum.splits prod.splits option.splits)

lemma run_known:
  fixes r :: "'b runner"
  shows "reports_no_unknown fns bk \<Longrightarrow> \<forall>f \<in> steps_functions steps. registry_has fns f \<Longrightarrow>
      fst (run_steps bk env steps last_v r) \<noteq> Inl (FunctionNotFound h)"
    and "reports_no_unknown fns bk \<Longrightarrow> \<forall>f \<in> step_functions step. registry_has fns f \<Longrightarrow>
      fst (run_step bk env step r) \<noteq> Inl (FunctionNotFound h)"
proof (induction bk env steps last_v r and bk env step r rule: run_steps_run_step.induct)
  case (2 bk env s ss last_v r)
  obtain y r1 where c: "charge r = (y, r1)" by (cases "charge r")
  obtain z r2 where s: "run_step bk env s r1 = (z, r2)" by (cases "run_step bk env s r1")
  show ?case
  proof (cases y)
    case (Inl e)
    with c charge_known show ?thesis by auto
  next
    case (Inr u)
    have z: "z \<noteq> Inl (FunctionNotFound h)" using 2(1) [OF c [symmetric] Inr] 2(3,4) s by simp
    show ?thesis
    proof (cases "\<exists>v. z = Inr (Next v)")
      case True
      then obtain v where v: "z = Inr (Next v)" by blast
      have "fst (run_steps bk env ss v r2) \<noteq> Inl (FunctionNotFound h)" using 2(2) 2(3,4) c s Inr v by simp
      with c s Inr v show ?thesis by simp
    next
      case False
      with c s Inr z show ?thesis by (auto split: sum.split flow.split)
    qed
  qed
next
  case (5 bk env c t e r)
  then show ?case by (auto split: prod.split sum.split)
next
  case (1 bk env last_v r)
  then show ?case by simp
qed (metis prod.collapse run_step_simple_known proc_step.distinct)+

section \<open>Properties\<close>

text \<open>
  C24: Fuel is only a limit: when it covers the steps on the longest path through the procedure,
  the run does not exhaust it, and any larger budget gives the same result and the same effect on
  the storage.
\<close>

theorem enough_fuel:
  assumes "no_fuel_errors bk" and "steps_count (pc_steps p) \<le> unat fuel" and "fuel \<le> fuel'"
  shows "fst (run_procedure bk env p args fuel b) \<noteq> Err (FuelExhausted n) \<and>
     run_procedure bk env p args fuel' b = run_procedure bk env p args fuel b"
proof -
  let ?r = "\<lparr> rn_backend = b, rn_variables = args, rn_fuel = fuel, rn_burned = 0 \<rparr>"
  obtain y r where run: "run_steps bk env (pc_steps p) VNull ?r = (y, r)"
    by (cases "run_steps bk env (pc_steps p) VNull ?r")
  have "unat (rn_burned ?r) + steps_count (pc_steps p) \<le> unat (rn_fuel ?r)" using assms(2) by simp
  note D = fuel_ok_runD [OF run_fuel(1) [OF assms(1)] this run, of n fuel']
  have "steps_count (pc_steps p) \<le> unat fuel'" using assms(2,3) by (simp add: word_le_nat_alt)
  with D have "run_steps bk env (pc_steps p) VNull (with_fuel fuel' ?r) = (y, with_fuel fuel' r)" by simp
  moreover have "with_fuel fuel' ?r = \<lparr> rn_backend = b, rn_variables = args, rn_fuel = fuel', rn_burned = 0 \<rparr>"
    by (simp add: with_fuel_def)
  ultimately show ?thesis using run D by (auto simp: run_procedure_def split: sum.split)
qed

text \<open>A backend without rows, for concrete runs.\<close>

definition demo_backend :: "function_registry \<Rightarrow> unit backend" where
  "demo_backend fns =
     \<lparr> bk_read = (\<lambda>t i b. (Ok None, b)), bk_insert = (\<lambda>t m b. (Ok (), b)), bk_update = (\<lambda>t i m b. (Ok (), b)),
       bk_delete = (\<lambda>t i b. (Ok (), b)), bk_call = (\<lambda>f args b. registry_execute fns f args) \<rparr>"

definition demo_env :: proc_env where
  "demo_env = \<lparr> pv_js = (\<lambda>_. []), pv_displays = \<lparr> f32_disp = (\<lambda>_. []), f64_disp = (\<lambda>_. []), uuid_disp = (\<lambda>_. []),
     time_disp = (\<lambda>_. []), date_disp = (\<lambda>_. []), json_disp = (\<lambda>_. []) \<rparr> \<rparr>"

definition demo_fns :: function_registry where
  "demo_fns = [(''len'', len_fn)]"

definition demo_proc :: procedure where
  "demo_proc = \<lparr> pc_name = ''p'', pc_description = [], pc_steps =
     [SetVariable ''x'' (VInt64 1), IfStep (CEquals ''x'' (VInt64 1)) [CallFunction ''len'' [(''0'', VString ''ab'')]] []] \<rparr>"

lemma demo_backend_no_fuel: "no_fuel_errors (demo_backend demo_fns)"
  by (auto simp: no_fuel_errors_def demo_backend_def demo_fns_def registry_execute_def len_fn_def
      value_argument_def split: option.split val.split sum.split)

theorem enough_fuel_witness:
  "fst (run_procedure (demo_backend demo_fns) demo_env demo_proc [] 3 ()) \<noteq> Err (FuelExhausted 4) \<and>
   run_procedure (demo_backend demo_fns) demo_env demo_proc [] 10000 () =
     run_procedure (demo_backend demo_fns) demo_env demo_proc [] 3 ()"
  using enough_fuel [OF demo_backend_no_fuel, of demo_proc 3 10000] by (simp add: demo_proc_def)

text \<open>
  On procedures without storage steps, references in assignments and early returns, the
  transactional runner with enough fuel and the pure executor compute the same result and leave
  the same variables, errors included.
\<close>

theorem runner_agrees_with_executor:
  assumes "pure_steps (pc_steps p)" and "get_procedure x name = Some p"
    and "registry_backend (re_functions x) bk" and "no_fuel_errors bk"
    and "steps_count (pc_steps p) \<le> unat fuel"
  shows "(case execute_procedure env name x of
       (Inr v, x') \<Rightarrow> fst (run_procedure bk env p (re_variables x) fuel b) = Ok \<lparr> po_value = v, po_variables = re_variables x' \<rparr>
     | (Inl e, x') \<Rightarrow> fst (run_procedure bk env p (re_variables x) fuel b) = Err e)"
proof -
  let ?r = "\<lparr> rn_backend = b, rn_variables = re_variables x, rn_fuel = fuel, rn_burned = 0 \<rparr>"
  have "same_run (run_steps bk env (pc_steps p) VNull ?r) (execute_steps env (pc_steps p) VNull x)"
    using pure_agree(1) [OF assms(4,1), of ?r x "re_functions x" env VNull] assms(3,5) by simp
  then show ?thesis
    using assms(2)
    by (auto simp: execute_procedure_def get_procedure_def run_procedure_def same_run_def split: prod.split sum.split)
qed

theorem runner_agrees_with_executor_witness:
  "fst (run_procedure (demo_backend demo_fns) demo_env demo_proc [] 3 ()) =
     Ok \<lparr> po_value = VInt64 2, po_variables = [(''x'', VInt64 1)] \<rparr>"
proof -
  let ?x = "register_procedure demo_proc (executor_empty \<lparr> re_functions := demo_fns \<rparr>)"
  have "execute_procedure demo_env ''p'' ?x = (Ok (VInt64 2), ?x \<lparr> re_variables := [(''x'', VInt64 1)] \<rparr>)"
    by (simp add: execute_procedure_def register_procedure_def executor_empty_def demo_proc_def execute_function_def
        registry_execute_def demo_fns_def len_fn_def value_argument_def resolve_all_def)
  moreover have "registry_backend (re_functions ?x) (demo_backend demo_fns)"
    by (simp add: registry_backend_def demo_backend_def register_procedure_def executor_empty_def)
  moreover have "get_procedure ?x ''p'' = Some demo_proc"
    by (simp add: get_procedure_def register_procedure_def demo_proc_def executor_empty_def)
  moreover have "re_variables ?x = []" by (simp add: register_procedure_def executor_empty_def)
  ultimately show ?thesis
    using runner_agrees_with_executor [of demo_proc ?x "''p''" "demo_backend demo_fns" 3 demo_env "()"] demo_backend_no_fuel
    by (simp add: demo_proc_def)
qed

text \<open>
  A procedure that passes deployment never fails at run time because a function is unknown,
  in whichever branch it is called, as long as the registry of the deployment is the one it
  runs with.
\<close>

theorem validated_procedure_functions_known:
  assumes "validate_procedure p fns = Ok ()" and "reports_no_unknown fns bk"
  shows "fst (run_procedure bk env p args fuel b) \<noteq> Err (FunctionNotFound g)"
proof -
  have "\<forall>s \<in> set (pc_steps p). check_step fns 1 s = Ok ()"
    using assms(1) by (auto simp: validate_procedure_def check_all_Ok split: if_splits)
  then have "\<forall>f \<in> steps_functions (pc_steps p). registry_has fns f"
    using check_step_functions by (auto simp: steps_functions_Union)
  from run_known(1) [OF assms(2) this, of env VNull] show ?thesis
    by (auto simp: run_procedure_def split: prod.split sum.split) (metis fst_conv)
qed

theorem validated_procedure_functions_known_witness:
  "validate_procedure demo_proc demo_fns = Ok () \<and>
   fst (run_procedure (demo_backend demo_fns) demo_env demo_proc [] 3 ()) \<noteq> Err (FunctionNotFound ''len'')"
proof -
  have "validate_procedure demo_proc demo_fns = Ok ()" by code_simp
  moreover have "reports_no_unknown demo_fns (demo_backend demo_fns)"
    by (auto simp: reports_no_unknown_def registry_backend_def demo_backend_def demo_fns_def len_fn_def value_argument_def
        split: option.split val.split sum.split if_splits)
  ultimately show ?thesis
    using validated_procedure_functions_known [of demo_proc demo_fns "demo_backend demo_fns" demo_env "[]" 3 "()" "''len''"]
    by blast
qed

text \<open>
  A return inside a branch does not end the procedure: the branch ends with the value, and
  the steps behind the conditional still run. Here the step after the branch changes what is
  returned, and a storage step there would take effect.
\<close>

theorem return_in_branch_continues:
  "fst (run_procedure (demo_backend []) demo_env
     \<lparr> pc_name = ''p'', pc_description = [], pc_steps =
        [SetVariable ''x'' (VInt64 1), IfStep (CIsNotNull ''x'') [ReturnValue (VInt64 7)] [], ReturnValue (VInt64 8)] \<rparr>
     [] PROC_FUEL ()) =
   Ok \<lparr> po_value = VInt64 8, po_variables = [(''x'', VInt64 1)] \<rparr>"
  by (simp add: run_procedure_def charge_def PROC_FUEL_def is_null_def Let_def)

end
