(* ===== verification/Texts.thy ===== *)
theory Texts
  imports Blitz_Prelude
begin

text \<open>
  The searches in texts that several components use: splitting at a character and finding a
  substring, as \<open>str::split\<close> and \<open>str::find\<close> do on the bytes of a string.
\<close>

text \<open>\<open>str::split\<close> on a character and \<open>str::find\<close>: the pieces, and the first position.\<close>

fun split_on :: "char \<Rightarrow> string \<Rightarrow> string list" where
  "split_on c [] = [[]]"
| "split_on c (x # xs) =
     (case split_on c xs of
        p # ps \<Rightarrow> if x = c then [] # p # ps else (x # p) # ps
      | [] \<Rightarrow> [[x]])"

fun find_sub :: "string \<Rightarrow> string \<Rightarrow> nat option" where
  "find_sub p [] = (if p = [] then Some 0 else None)"
| "find_sub p (x # xs) = (if prefix p (x # xs) then Some 0 else map_option Suc (find_sub p xs))"

text \<open>\<open>str::contains\<close>.\<close>

definition contains_sub :: "string \<Rightarrow> string \<Rightarrow> bool" where
  "contains_sub s p \<longleftrightarrow> find_sub p s \<noteq> None"

lemma find_sub_Some: "find_sub p s = Some i \<Longrightarrow> \<exists>v. s = take i s @ p @ v \<and> drop (i + length p) s = v"
proof (induction p s arbitrary: i rule: find_sub.induct)
  case (2 p x xs)
  show ?case
  proof (cases "prefix p (x # xs)")
    case True
    with 2 show ?thesis by (auto elim!: prefixE)
  next
    case False
    with 2 obtain j where "find_sub p xs = Some j" "i = Suc j" by auto
    with 2(1) [OF False] show ?thesis by auto
  qed
qed (auto split: if_splits)

lemma find_sub_least: "s = u @ p @ v \<Longrightarrow> \<exists>i \<le> length u. find_sub p s = Some i"
proof (induction u arbitrary: s)
  case Nil
  then have "prefix p s" by simp
  then show ?case by (cases s) auto
next
  case (Cons a u)
  then show ?case by (force split: if_splits)
qed

lemma split_on_nonempty: "split_on c s \<noteq> []"
  by (induction s) (auto split: list.split)

lemma contains_sub_iff: "contains_sub s p \<longleftrightarrow> (\<exists>u v. s = u @ p @ v)"
  unfolding contains_sub_def by (metis find_sub_Some find_sub_least not_None_eq)

end
