(* ===== verification/Messages.thy ===== *)
theory Messages
  imports Transactions Procedures Texts
begin

text \<open>
  The texts of errors, as their \<open>Display\<close> implementations and the formats at the place of the
  error give them. A client sees these texts, and the server searches one of them. The debug
  text of a value is a parameter.
\<close>

definition quoted :: "string \<Rightarrow> string" where
  "quoted s = CHR 0x27 # s @ [CHR 0x27]"

definition u64_text :: "u64 \<Rightarrow> string" where
  "u64_text n = nat_text (unat n)"

lemma u64_text_code [code]:
  "u64_text n = (if n < 10 then [digit (unat n)] else u64_text (n div 10) @ [digit (unat (n mod 10))])"
proof -
  have "n < 10 \<longleftrightarrow> unat n < 10" by (simp add: word_less_nat_alt)
  then show ?thesis
    unfolding u64_text_def by (subst nat_text.simps) (simp add: unat_div unat_mod)
qed

fun schema_fault_text :: "schema_fault \<Rightarrow> string" where
  "schema_fault_text (ColumnExpects c e a) = ''column '' @ quoted c @ '' expects '' @ e @ '', got '' @ a"
| "schema_fault_text (PrimaryKeyRequired c) = ''primary key column '' @ quoted c @ '' is required''"
| "schema_fault_text (ColumnRequired c) = ''column '' @ quoted c @ '' is required''"
| "schema_fault_text (ColumnNotFound c) = ''column '' @ quoted c @ '' not found''"
| "schema_fault_text (TableExists t) = ''table '' @ quoted t @ '' already exists''"
| "schema_fault_text (TableMissing t) = ''table '' @ quoted t @ '' not found''"

fun type_error_text :: "type_error \<Rightarrow> string" where
  "type_error_text (TypeMismatch e a) = ''type mismatch: expected '' @ e @ '', got '' @ a"
| "type_error_text NullValue = ''null value encountered where non-null required''"
| "type_error_text (InvalidValue s) = ''invalid value: '' @ s"
| "type_error_text (InvalidId s) = ''invalid id: '' @ s"
| "type_error_text (SchemaError f) = ''schema error: '' @ schema_fault_text f"
| "type_error_text (Overflow s) = ''overflow: '' @ s"
| "type_error_text (OutOfRange s) = ''out of range: '' @ s"

fun duplicate_text :: "(val \<Rightarrow> string) \<Rightarrow> duplicate \<Rightarrow> string" where
  "duplicate_text dbg (DupColumn c v) = c @ ''='' @ dbg v"
| "duplicate_text dbg (DupRow i) = ''row '' @ u64_text i"

fun core_error_text :: "(val \<Rightarrow> string) \<Rightarrow> core_error \<Rightarrow> string" where
  "core_error_text dbg (TableNotFound t) = ''table not found: '' @ t"
| "core_error_text dbg (TableAlreadyExists t) = ''table already exists: '' @ t"
| "core_error_text dbg (core_error.RowNotFound i) = ''row not found: '' @ u64_text i"
| "core_error_text dbg (DuplicateKey d) = ''duplicate key: '' @ duplicate_text dbg d"
| "core_error_text dbg (ConstraintViolation c) =
     ''constraint violation: lookup_by_unique: '' @ quoted c @
     '' is not unique-indexed (no full scans on hot path)''"
| "core_error_text dbg (CoreTypeError e) = ''type error: '' @ type_error_text e"
| "core_error_text dbg (Internal s) = ''internal error: '' @ s"

fun conflict_text :: "conflict \<Rightarrow> string" where
  "conflict_text (ReadWriteConflict t i x) =
     ''read-write conflict on '' @ t @ '':'' @ u64_text i @ '' in transaction tx-'' @ u64_text x"
| "conflict_text (WriteWriteConflict x) = ''write-write conflict in transaction tx-'' @ u64_text x"

fun tx_error_text :: "(val \<Rightarrow> string) \<Rightarrow> tx_error \<Rightarrow> string" where
  "tx_error_text dbg TxNotActive = ''internal error: transaction is not active''"
| "tx_error_text dbg (Conflict c) = ''conflict detected: '' @ conflict_text c"
| "tx_error_text dbg (TxCoreError e) = ''core error: '' @ core_error_text dbg e"

fun runtime_error_text :: "(val \<Rightarrow> string) \<Rightarrow> runtime_error \<Rightarrow> string" where
  "runtime_error_text dbg (FunctionNotFound f) = ''function not found: '' @ f"
| "runtime_error_text dbg (runtime_error.RowNotFound t i) =
     ''execution error: row not found: '' @ t @ '':'' @ u64_text i"
| "runtime_error_text dbg (NeedsTransaction s t) =
     ''execution error: '' @ s @ ''('' @ t @ '') needs a transaction: use the server Call path''"
| "runtime_error_text dbg (ExecutionError s) = ''execution error: '' @ s"
| "runtime_error_text dbg ExpectedValueArgument = ''argument error: expected '' @ quoted ''value'' @ '' argument''"
| "runtime_error_text dbg ExpectedString = ''argument error: expected string''"
| "runtime_error_text dbg ExpectedStringOrArray = ''argument error: expected string or array''"
| "runtime_error_text dbg ExpectedNumeric = ''argument error: expected numeric''"
| "runtime_error_text dbg (BadRowId v) = ''argument error: row id must be a non-negative integer, got '' @ dbg v"
| "runtime_error_text dbg (Abort s) = ''aborted: '' @ s"
| "runtime_error_text dbg (FuelExhausted n) = ''fuel exhausted after '' @ u64_text n @ '' steps''"

text \<open>Texts of the schema constructor; the debug text of a string is a parameter.\<close>

fun json_fault_text :: "(string \<Rightarrow> string) \<Rightarrow> json_fault \<Rightarrow> string" where
  "json_fault_text dbg SchemaNotObject = ''schema must be a JSON object''"
| "json_fault_text dbg MissingTable = ''schema missing string '' @ quoted ''table''"
| "json_fault_text dbg TableNameLength = ''table name must be 1..=128 chars''"
| "json_fault_text dbg MissingColumns = ''schema missing array '' @ quoted ''columns''"
| "json_fault_text dbg ColumnsLength = ''columns must list 1..=256 entries''"
| "json_fault_text dbg (ColumnNotObject i) = ''columns['' @ nat_text i @ ''] must be an object''"
| "json_fault_text dbg (ColumnMissingName i) = ''columns['' @ nat_text i @ ''] missing string '' @ quoted ''name''"
| "json_fault_text dbg (ColumnNameLength i) = ''columns['' @ nat_text i @ ''].name must be 1..=128 chars''"
| "json_fault_text dbg (ColumnUnknownType i t) = ''columns['' @ nat_text i @ ''] unknown type '' @ dbg t"

fun deploy_fault_text :: "deploy_fault \<Rightarrow> string" where
  "deploy_fault_text (BadName kind) = kind @ '' name must be 1..=128 chars''"
| "deploy_fault_text (IllegalName kind n) = kind @ '' name has illegal characters: '' @ n"
| "deploy_fault_text DescriptionTooLong = ''description too long (max 1KiB)''"
| "deploy_fault_text NoSteps = ''procedure needs at least one step''"
| "deploy_fault_text TooManySteps = ''too many steps (max 256)''"
| "deploy_fault_text BadTableName = ''table name must be 1..=128 chars''"
| "deploy_fault_text NestingTooDeep = ''nesting too deep (max 16)''"
| "deploy_fault_text (UnknownFunction f) = ''unknown function: '' @ f"
| "deploy_fault_text ArgsTooLarge = ''call args too large (max 256 entries)''"
| "deploy_fault_text BranchTooLarge = ''branch too large''"
| "deploy_fault_text MessageTooLong = ''fail message too long (max 1KiB)''"
| "deploy_fault_text ConditionListTooLarge = ''condition list too large''"
| "deploy_fault_text ValuesTooLarge = ''values map too large (max 256 entries)''"
| "deploy_fault_text StringTooLarge = ''string literal too large (max 64KiB)''"
| "deploy_fault_text BytesTooLarge = ''bytes literal too large (max 256KiB)''"
| "deploy_fault_text ArrayLiteralTooLarge = ''array literal too large''"

end
