(* ===== verification/Access.thy ===== *)
theory Access
  imports Types_Schema
begin

text \<open>
  Identities, sessions and tokens (\<open>blitz-auth\<close>) and the policy engine (\<open>blitz-policy\<close>). Fresh
  UUIDs and the clock are arguments; a point in time is an integer.
\<close>

section \<open>Identities\<close>

datatype permission = PRead | PWrite | PDelete | PAdmin | PCustom string

fun permission_str :: "permission \<Rightarrow> string" where
  "permission_str PRead = ''read''"
| "permission_str PWrite = ''write''"
| "permission_str PDelete = ''delete''"
| "permission_str PAdmin = ''admin''"
| "permission_str (PCustom s) = s"

record identity =
  id_uuid :: "128 word"
  id_subject :: string
  id_roles :: "string list"
  id_permissions :: "permission list"
  id_claims :: "(string, string) hmap"

definition identity_new :: "128 word \<Rightarrow> string \<Rightarrow> identity" where
  "identity_new uuid subject =
     \<lparr> id_uuid = uuid, id_subject = subject, id_roles = [], id_permissions = [], id_claims = [] \<rparr>"

definition has_role :: "identity \<Rightarrow> string \<Rightarrow> bool" where
  "has_role i role \<longleftrightarrow> role \<in> set (id_roles i)"

definition with_role :: "string \<Rightarrow> identity \<Rightarrow> identity" where
  "with_role role i = i \<lparr> id_roles := id_roles i @ [role] \<rparr>"

definition with_permission :: "permission \<Rightarrow> identity \<Rightarrow> identity" where
  "with_permission p i = i \<lparr> id_permissions := id_permissions i @ [p] \<rparr>"

definition has_permission :: "identity \<Rightarrow> permission \<Rightarrow> bool" where
  "has_permission i p =
     (if p \<in> set (id_permissions i) then True else if has_role i ''admin'' then True else False)"

definition with_claim :: "string \<Rightarrow> string \<Rightarrow> identity \<Rightarrow> identity" where
  "with_claim k v i = i \<lparr> id_claims := hm_insert k v (id_claims i) \<rparr>"

definition get_claim :: "identity \<Rightarrow> string \<Rightarrow> string option" where
  "get_claim i k = hm_get (id_claims i) k"

record session =
  ss_id :: "128 word"
  ss_identity :: identity
  ss_created_at :: int
  ss_expires_at :: int

definition session_new :: "128 word \<Rightarrow> int \<Rightarrow> identity \<Rightarrow> int \<Rightarrow> session" where
  "session_new uuid now i expires_at =
     \<lparr> ss_id = uuid, ss_identity = i, ss_created_at = now, ss_expires_at = expires_at \<rparr>"

definition session_is_expired :: "int \<Rightarrow> session \<Rightarrow> bool" where
  "session_is_expired now s \<longleftrightarrow> now > ss_expires_at s"

record access_token =
  at_token :: string
  at_expires_at :: int

record refresh_token =
  rt_token :: string
  rt_expires_at :: int

definition access_token_new :: "string \<Rightarrow> int \<Rightarrow> access_token" where
  "access_token_new t e = \<lparr> at_token = t, at_expires_at = e \<rparr>"

definition access_token_is_expired :: "int \<Rightarrow> access_token \<Rightarrow> bool" where
  "access_token_is_expired now t \<longleftrightarrow> now > at_expires_at t"

definition refresh_token_new :: "string \<Rightarrow> int \<Rightarrow> refresh_token" where
  "refresh_token_new t e = \<lparr> rt_token = t, rt_expires_at = e \<rparr>"

definition refresh_token_is_expired :: "int \<Rightarrow> refresh_token \<Rightarrow> bool" where
  "refresh_token_is_expired now t \<longleftrightarrow> now > rt_expires_at t"

section \<open>Policies\<close>

datatype policy_effect = Allow | Deny

record policy_rule =
  pr_roles :: "string list"
  pr_resource :: string
  pr_permission :: permission
  pr_effect :: policy_effect

definition rule_allow :: "string list \<Rightarrow> string \<Rightarrow> permission \<Rightarrow> policy_rule" where
  "rule_allow roles res p = \<lparr> pr_roles = roles, pr_resource = res, pr_permission = p, pr_effect = Allow \<rparr>"

definition rule_deny :: "string list \<Rightarrow> string \<Rightarrow> permission \<Rightarrow> policy_rule" where
  "rule_deny roles res p = \<lparr> pr_roles = roles, pr_resource = res, pr_permission = p, pr_effect = Deny \<rparr>"

record policy_engine =
  pe_rules :: "policy_rule list"

definition policy_new :: policy_engine where
  "policy_new = \<lparr> pe_rules = [] \<rparr>"

definition add_rule :: "policy_rule \<Rightarrow> policy_engine \<Rightarrow> policy_engine" where
  "add_rule r e = e \<lparr> pe_rules := pe_rules e @ [r] \<rparr>"

abbreviation resource_matches :: "policy_rule \<Rightarrow> string \<Rightarrow> bool" where
  "resource_matches r res \<equiv> pr_resource r = ''*'' \<or> pr_resource r = res"

abbreviation role_matches :: "policy_rule \<Rightarrow> identity \<Rightarrow> bool" where
  "role_matches r i \<equiv> \<exists>role \<in> set (pr_roles r). has_role i role"

text \<open>The loop over the rules: the flags \<open>matched_deny\<close> and \<open>matched_allow\<close> when it ends.\<close>

fun check_rules :: "policy_rule list \<Rightarrow> identity \<Rightarrow> string \<Rightarrow> permission \<Rightarrow> bool \<Rightarrow> bool \<times> bool" where
  "check_rules [] i res p allowed = (False, allowed)"
| "check_rules (r # rs) i res p allowed =
     (if \<not> resource_matches r res then check_rules rs i res p allowed
      else if pr_permission r \<noteq> p then check_rules rs i res p allowed
      else if \<not> role_matches r i then check_rules rs i res p allowed
      else case pr_effect r of
             Deny \<Rightarrow> (True, allowed)
           | Allow \<Rightarrow> check_rules rs i res p True)"

definition policy_check :: "policy_engine \<Rightarrow> identity \<Rightarrow> string \<Rightarrow> permission \<Rightarrow> bool" where
  "policy_check e i res p =
     (let (matched_deny, matched_allow) = check_rules (pe_rules e) i res p False in
      if matched_deny then False else if matched_allow then True else False)"

fun collect_resources :: "policy_rule list \<Rightarrow> identity \<Rightarrow> permission \<Rightarrow> string list \<Rightarrow> string list" where
  "collect_resources [] i p acc = acc"
| "collect_resources (r # rs) i p acc =
     (if pr_effect r \<noteq> Allow then collect_resources rs i p acc
      else if pr_permission r \<noteq> p then collect_resources rs i p acc
      else if \<not> role_matches r i then collect_resources rs i p acc
      else if pr_resource r = ''*'' then collect_resources rs i p (List.insert ''*'' acc)
      else collect_resources rs i p (List.insert (pr_resource r) acc))"

definition allowed_resources :: "policy_engine \<Rightarrow> identity \<Rightarrow> permission \<Rightarrow> string list" where
  "allowed_resources e i p = collect_resources (pe_rules e) i p []"

fun collect_permissions :: "policy_rule list \<Rightarrow> identity \<Rightarrow> string \<Rightarrow> permission list \<Rightarrow> permission list" where
  "collect_permissions [] i res acc = acc"
| "collect_permissions (r # rs) i res acc =
     (if pr_effect r \<noteq> Allow then collect_permissions rs i res acc
      else if \<not> resource_matches r res then collect_permissions rs i res acc
      else if \<not> role_matches r i then collect_permissions rs i res acc
      else collect_permissions rs i res (List.insert (pr_permission r) acc))"

definition permissions_for_resource :: "policy_engine \<Rightarrow> identity \<Rightarrow> string \<Rightarrow> permission list" where
  "permissions_for_resource e i res = collect_permissions (pe_rules e) i res []"

section \<open>What the policy decides\<close>

text \<open>A rule speaks about a request.\<close>

definition applies :: "identity \<Rightarrow> string \<Rightarrow> permission \<Rightarrow> policy_rule \<Rightarrow> bool" where
  "applies i res p r \<longleftrightarrow> resource_matches r res \<and> pr_permission r = p \<and> role_matches r i"

lemma check_rules_Cons:
  "check_rules (r # rs) i res p a =
     (if \<not> applies i res p r then check_rules rs i res p a
      else if pr_effect r = Deny then (True, a) else check_rules rs i res p True)"
  by (cases "pr_effect r") (auto simp: applies_def)

lemma check_rules_deny:
  "fst (check_rules rs i res p a) \<longleftrightarrow> (\<exists>r \<in> set rs. applies i res p r \<and> pr_effect r = Deny)"
  by (induction rs arbitrary: a) (auto simp: check_rules_Cons simp del: check_rules.simps(2))

lemma check_rules_allow:
  "\<not> fst (check_rules rs i res p a) \<Longrightarrow>
   snd (check_rules rs i res p a) \<longleftrightarrow> a \<or> (\<exists>r \<in> set rs. applies i res p r \<and> pr_effect r = Allow)"
proof (induction rs arbitrary: a)
  case (Cons r rs)
  then show ?case
    by (cases "applies i res p r"; cases "pr_effect r")
      (simp_all add: check_rules_Cons del: check_rules.simps(2))
qed simp

lemma set_fold_insert: "set (fold (\<lambda>r. List.insert (f r)) xs acc) = set acc \<union> f ` set xs"
  by (induction xs arbitrary: acc) auto

lemma collect_resources_fold:
  "collect_resources rs i p acc =
   fold (\<lambda>r. List.insert (pr_resource r))
     (filter (\<lambda>r. pr_effect r = Allow \<and> pr_permission r = p \<and> role_matches r i) rs) acc"
  by (induction rs arbitrary: acc) simp_all

lemma collect_permissions_fold:
  "collect_permissions rs i res acc =
   fold (\<lambda>r. List.insert (pr_permission r))
     (filter (\<lambda>r. pr_effect r = Allow \<and> resource_matches r res \<and> role_matches r i) rs) acc"
  by (induction rs arbitrary: acc) simp_all

lemma policy_check_iff:
  "policy_check e i res p \<longleftrightarrow>
     (\<exists>r \<in> set (pe_rules e). applies i res p r \<and> pr_effect r = Allow) \<and>
     (\<forall>r \<in> set (pe_rules e). applies i res p r \<longrightarrow> pr_effect r \<noteq> Deny)"
  using check_rules_deny [of "pe_rules e" i res p False] check_rules_allow [of "pe_rules e" i res p False]
  by (auto simp: policy_check_def Let_def split: prod.split)

text \<open>
  C22: A request is granted exactly when some applicable rule allows it and no applicable rule
  denies it, wherever the rules stand: without a rule it is denied, a denial overrides, and
  appending an allow rule never revokes while appending a deny rule never grants. The order of
  the rules does not matter.
\<close>

theorem policy_check_spec:
  "(policy_check e i res p \<longleftrightarrow>
      (\<exists>r \<in> set (pe_rules e). applies i res p r \<and> pr_effect r = Allow) \<and>
      \<not> (\<exists>r \<in> set (pe_rules e). applies i res p r \<and> pr_effect r = Deny)) \<and>
   (pr_effect r = Allow \<and> policy_check e i res p \<longrightarrow> policy_check (add_rule r e) i res p) \<and>
   (pr_effect r = Deny \<and> policy_check (add_rule r e) i res p \<longrightarrow> policy_check e i res p) \<and>
   (set (pe_rules e') = set (pe_rules e) \<longrightarrow> policy_check e' i res p = policy_check e i res p)"
  by (auto simp: policy_check_iff add_rule_def)

definition demo_identity :: identity where
  "demo_identity = with_role ''user'' (identity_new 1 ''ann'')"

definition demo_policy :: policy_engine where
  "demo_policy = add_rule (rule_deny [''user''] ''secret'' PRead) (add_rule (rule_allow [''user''] ''*'' PRead) policy_new)"

theorem policy_check_spec_witness:
  "policy_check (add_rule (rule_allow [''x''] ''t'' PWrite) demo_policy) demo_identity ''t'' PRead \<and>
   \<not> policy_check demo_policy demo_identity ''secret'' PRead"
proof -
  have "policy_check demo_policy demo_identity ''t'' PRead" by code_simp
  moreover have "\<not> policy_check demo_policy demo_identity ''secret'' PRead" by code_simp
  moreover have "pr_effect (rule_allow [''x''] ''t'' PWrite) = Allow" by code_simp
  ultimately show ?thesis
    using policy_check_spec [of demo_policy demo_identity "''t''" PRead "rule_allow [''x''] ''t'' PWrite"]
    by blast
qed

text \<open>
  What the listings report is an upper bound: everything the policy grants is listed, as
  the resource or as the wildcard, and as a permission of the resource. They ignore the deny
  rules, so a resource and a permission can be listed that the policy denies.
\<close>

theorem listings_cover_grants:
  "policy_check e i res p \<Longrightarrow>
     (res \<in> set (allowed_resources e i p) \<or> ''*'' \<in> set (allowed_resources e i p)) \<and>
     p \<in> set (permissions_for_resource e i res)"
proof -
  assume "policy_check e i res p"
  then obtain r where r: "r \<in> set (pe_rules e)" "applies i res p r" "pr_effect r = Allow"
    by (auto simp: policy_check_iff)
  then have "pr_resource r \<in> set (allowed_resources e i p)"
    by (auto simp: allowed_resources_def collect_resources_fold set_fold_insert applies_def)
  moreover have "p \<in> set (permissions_for_resource e i res)"
    using r by (auto simp: permissions_for_resource_def collect_permissions_fold set_fold_insert applies_def)
  ultimately show ?thesis using r(2) by (auto simp: applies_def)
qed

theorem listings_cover_grants_witness:
  "policy_check demo_policy demo_identity ''t'' PRead \<and>
   PRead \<in> set (permissions_for_resource demo_policy demo_identity ''t'')"
proof -
  have "policy_check demo_policy demo_identity ''t'' PRead" by code_simp
  then show ?thesis using listings_cover_grants [of demo_policy demo_identity "''t''" PRead] by blast
qed

lemma denied_but_listed:
  "\<not> policy_check demo_policy demo_identity ''secret'' PRead \<and>
   permissions_for_resource demo_policy demo_identity ''secret'' = [PRead]"
  by code_simp

end
