(* ===== verification/Protocol.thy ===== *)
theory Protocol
  imports Types_Schema
begin

text \<open>
  The wire protocol (\<open>blitz-protocol\<close>): messages, the tag-length encoding of values and JSON,
  the bodies of requests and responses, frames, and the incremental decoder of a stream. The
  calendar functions of the \<open>chrono\<close> crate are a parameter. The decoder of values recurses
  into arrays; its fuel bounds the nesting, and one more than the number of bytes is enough. The
  stack of the thread, which the recursion of the code uses up, is not modelled.
\<close>

unbundle bit_operations_syntax

section \<open>Messages\<close>

datatype op =
    OpPing
  | OpInsert
  | OpGet
  | OpUpdate
  | OpDelete
  | OpScan
  | OpSubscribe
  | OpFind
  | OpSearch
  | OpCall
  | OpJobSubmit
  | OpJobPoll
  | OpProcDeploy
  | OpProcList
  | OpProcDrop
  | OpVersion
  | OpTableCreate

fun op_tag :: "op \<Rightarrow> u8" where
  "op_tag OpPing = 0"
| "op_tag OpInsert = 1"
| "op_tag OpGet = 2"
| "op_tag OpUpdate = 3"
| "op_tag OpDelete = 4"
| "op_tag OpScan = 5"
| "op_tag OpSubscribe = 6"
| "op_tag OpFind = 7"
| "op_tag OpSearch = 8"
| "op_tag OpCall = 9"
| "op_tag OpJobSubmit = 10"
| "op_tag OpJobPoll = 11"
| "op_tag OpProcDeploy = 12"
| "op_tag OpProcList = 13"
| "op_tag OpProcDrop = 14"
| "op_tag OpVersion = 15"
| "op_tag OpTableCreate = 16"

definition op_from_tag :: "u8 \<Rightarrow> op option" where
  "op_from_tag tag =
     (if tag = 0 then Some OpPing
      else if tag = 1 then Some OpInsert
      else if tag = 2 then Some OpGet
      else if tag = 3 then Some OpUpdate
      else if tag = 4 then Some OpDelete
      else if tag = 5 then Some OpScan
      else if tag = 6 then Some OpSubscribe
      else if tag = 7 then Some OpFind
      else if tag = 8 then Some OpSearch
      else if tag = 9 then Some OpCall
      else if tag = 10 then Some OpJobSubmit
      else if tag = 11 then Some OpJobPoll
      else if tag = 12 then Some OpProcDeploy
      else if tag = 13 then Some OpProcList
      else if tag = 14 then Some OpProcDrop
      else if tag = 15 then Some OpVersion
      else if tag = 16 then Some OpTableCreate
      else None)"

record request =
  rq_id :: u64
  rq_op :: op
  rq_table :: string
  rq_row_id :: "u64 option"
  rq_values :: "row_values option"

definition request_ping :: "u64 \<Rightarrow> request" where
  "request_ping i = \<lparr> rq_id = i, rq_op = OpPing, rq_table = [], rq_row_id = None, rq_values = None \<rparr>"

record row_view =
  rv_id :: u64
  rv_values :: row_values

record response =
  rs_id :: u64
  rs_ok :: bool
  rs_rows :: "row_view list"
  rs_error :: "string option"

definition response_ok :: "u64 \<Rightarrow> row_view list \<Rightarrow> response" where
  "response_ok i rows = \<lparr> rs_id = i, rs_ok = True, rs_rows = rows, rs_error = None \<rparr>"

definition response_err :: "u64 \<Rightarrow> string \<Rightarrow> response" where
  "response_err i msg = \<lparr> rs_id = i, rs_ok = False, rs_rows = [], rs_error = Some msg \<rparr>"

record batch_request =
  bq_id :: u64
  bq_ops :: "request list"

record batch_response =
  bs_id :: u64
  bs_results :: "response list"

datatype incoming = Single request | Batch batch_request | AtomicBatch batch_request

datatype protocol_error =
    Truncated
  | InvalidUtf8
  | BadTimestamp i64
  | BadDate
  | ArrayTooLarge nat
  | UnknownValueTag u8
  | BadJsonTag u8
  | JsonObjectTooLarge nat
  | JsonArrayTooLarge nat
  | MapTooLarge nat
  | UnknownOpTag
  | BadOptionTag u8
  | RowCountTooLarge nat
  | Trailing nat
  | WrongKind u8 u8
  | UnknownIncomingKind u8
  | BatchTooLarge nat
  | BatchResponseTooLarge nat
  | EncodeFrameTooLarge nat nat
  | DecodeFrameTooLarge nat nat
  | UnsupportedVersion u8
  | OutOfFuel

definition PROTOCOL_VERSION :: u8 where "PROTOCOL_VERSION = 2"
definition KIND_REQUEST :: u8 where "KIND_REQUEST = 0x01"
definition KIND_BATCH_REQUEST :: u8 where "KIND_BATCH_REQUEST = 0x02"
definition KIND_ATOMIC_BATCH_REQUEST :: u8 where "KIND_ATOMIC_BATCH_REQUEST = 0x03"
definition KIND_RESPONSE :: u8 where "KIND_RESPONSE = 0x11"
definition KIND_BATCH_RESPONSE :: u8 where "KIND_BATCH_RESPONSE = 0x12"
definition HEADER_LEN :: nat where "HEADER_LEN = 5"
definition DEFAULT_MAX_FRAME :: nat where "DEFAULT_MAX_FRAME = 8 * 1024 * 1024"

section \<open>The writer\<close>

text \<open>What the codec uses of \<open>chrono\<close>.\<close>

record chrono =
  timestamp_micros :: "int \<Rightarrow> i64"
  from_timestamp_micros :: "i64 \<Rightarrow> int option"
  num_days_from_ce :: "int \<Rightarrow> i32"
  date_month :: "int \<Rightarrow> u32"
  date_day :: "int \<Rightarrow> u32"
  from_num_days_from_ce :: "i32 \<Rightarrow> int option"

definition w_len :: "nat \<Rightarrow> u8 list" where
  "w_len n = u32_bytes (of_nat n)"

definition w_str :: "string \<Rightarrow> u8 list" where
  "w_str s = w_len (length s) @ as_bytes s"

definition w_bool :: "bool \<Rightarrow> u8" where
  "w_bool b = (if b then 1 else 0)"

text \<open>The sixteen bytes of a UUID, most significant first.\<close>

definition uuid_bytes :: "128 word \<Rightarrow> u8 list" where
  "uuid_bytes u = rev (le_bytes 16 u)"

definition w_number :: "json_number \<Rightarrow> u8 list" where
  "w_number n =
     (case number_as_i64 n of
        Some i \<Rightarrow> 0x05 # u64_bytes i
      | None \<Rightarrow>
          (case number_as_u64 n of
             Some u \<Rightarrow> 0x09 # u64_bytes u
           | None \<Rightarrow>
               (case number_as_f64 n of Some f \<Rightarrow> 0x0B # u64_bytes f | None \<Rightarrow> [])))"

fun w_json :: "json \<Rightarrow> u8 list" where
  "w_json JNull = [0x00]"
| "w_json (JBool b) = [0x01, w_bool b]"
| "w_json (JNumber n) = w_number n"
| "w_json (JString s) = 0x0D # w_str s"
| "w_json (JArray items) = 0x13 # w_len (length items) @ concat (map w_json items)"
| "w_json (JObject kvs) =
     0x12 # w_len (length kvs) @ concat (map (\<lambda>(k, v). w_str k @ w_json v) kvs)"

fun w_value :: "chrono \<Rightarrow> val \<Rightarrow> u8 list" where
  "w_value chr VNull = [0x00]"
| "w_value chr (VBoolean b) = [0x01, w_bool b]"
| "w_value chr (VInt8 n) = [0x02, n]"
| "w_value chr (VInt16 n) = 0x03 # u16_bytes n"
| "w_value chr (VInt32 n) = 0x04 # u32_bytes n"
| "w_value chr (VInt64 n) = 0x05 # u64_bytes n"
| "w_value chr (VUInt8 n) = [0x06, n]"
| "w_value chr (VUInt16 n) = 0x07 # u16_bytes n"
| "w_value chr (VUInt32 n) = 0x08 # u32_bytes n"
| "w_value chr (VUInt64 n) = 0x09 # u64_bytes n"
| "w_value chr (VFloat32 n) = 0x0A # u32_bytes n"
| "w_value chr (VFloat64 n) = 0x0B # u64_bytes n"
| "w_value chr (VDecimal s) = 0x0C # w_str s"
| "w_value chr (VString s) = 0x0D # w_str s"
| "w_value chr (VBytes b) = 0x0E # w_len (length b) @ b"
| "w_value chr (VUuid u) = 0x0F # uuid_bytes u"
| "w_value chr (VTimestamp t) = 0x10 # u64_bytes (timestamp_micros chr t)"
| "w_value chr (VDate d) =
     0x11 # u32_bytes (num_days_from_ce chr d) @ u32_bytes (date_month chr d) @ u32_bytes (date_day chr d)"
| "w_value chr (VJson j) = 0x12 # w_json j"
| "w_value chr (VArray items) = 0x13 # w_len (length items) @ concat (map (w_value chr) items)"

definition w_map :: "chrono \<Rightarrow> row_values \<Rightarrow> u8 list" where
  "w_map chr m = w_len (length m) @ concat (map (\<lambda>(k, v). w_str k @ w_value chr v) m)"

definition w_request :: "chrono \<Rightarrow> request \<Rightarrow> u8 list" where
  "w_request chr r =
     u64_bytes (rq_id r) @ [op_tag (rq_op r)] @ w_str (rq_table r) @
     (case rq_row_id r of Some i \<Rightarrow> 1 # u64_bytes i | None \<Rightarrow> [0]) @
     (case rq_values r of Some m \<Rightarrow> 1 # w_map chr m | None \<Rightarrow> [0])"

definition w_row_view :: "chrono \<Rightarrow> row_view \<Rightarrow> u8 list" where
  "w_row_view chr v = u64_bytes (rv_id v) @ w_map chr (rv_values v)"

definition w_error :: "string option \<Rightarrow> u8 list" where
  "w_error e = (case e of Some msg \<Rightarrow> 1 # w_str msg | None \<Rightarrow> [0])"

definition w_response :: "chrono \<Rightarrow> response \<Rightarrow> u8 list" where
  "w_response chr r =
     u64_bytes (rs_id r) @ [w_bool (rs_ok r)] @ w_len (length (rs_rows r)) @
     concat (map (w_row_view chr) (rs_rows r)) @ w_error (rs_error r)"

definition w_response_borrowed ::
  "chrono \<Rightarrow> u64 \<Rightarrow> (u64 \<times> row_values) list \<Rightarrow> string option \<Rightarrow> u8 list" where
  "w_response_borrowed chr i rows e =
     u64_bytes i @ [w_bool (e = None)] @ w_len (length rows) @
     concat (map (\<lambda>(rid, m). u64_bytes rid @ w_map chr m) rows) @ w_error e"

section \<open>The reader\<close>

definition rd_u8 :: "(protocol_error, u8) reader" where "rd_u8 = rd_le Truncated 1"
definition rd_u16 :: "(protocol_error, u16) reader" where "rd_u16 = rd_le Truncated 2"
definition rd_u32 :: "(protocol_error, u32) reader" where "rd_u32 = rd_le Truncated 4"
definition rd_u64 :: "(protocol_error, u64) reader" where "rd_u64 = rd_le Truncated 8"

definition rd_count :: "(protocol_error, nat) reader" where
  "rd_count = rd_map unat rd_u32"

definition rd_str :: "(protocol_error, string) reader" where
  "rd_str =
     rd_bind rd_count (\<lambda>len.
     rd_bind (rd_take Truncated len) (\<lambda>bs.
     case from_utf8 bs of Some s \<Rightarrow> rd_return s | None \<Rightarrow> rd_fail InvalidUtf8))"

text \<open>\<open>serde_json::Map::insert\<close>: keys in order, an equal key replaced.\<close>

fun obj_insert :: "string \<Rightarrow> json \<Rightarrow> (string \<times> json) list \<Rightarrow> (string \<times> json) list" where
  "obj_insert k v [] = [(k, v)]"
| "obj_insert k v ((k', v') # m) =
     (if k < k' then (k, v) # (k', v') # m
      else if k = k' then (k, v) # m
      else (k', v') # obj_insert k v m)"

definition obj_of_list :: "(string \<times> json) list \<Rightarrow> (string \<times> json) list" where
  "obj_of_list kvs = foldl (\<lambda>m (k, v). obj_insert k v m) [] kvs"

definition rd_pair :: "('e, 'a) reader \<Rightarrow> ('e, 'b) reader \<Rightarrow> ('e, 'a \<times> 'b) reader" where
  "rd_pair p q = rd_bind p (\<lambda>x. rd_bind q (\<lambda>y. rd_return (x, y)))"

fun rd_json :: "nat \<Rightarrow> (protocol_error, json) reader" where
  "rd_json 0 = rd_fail OutOfFuel"
| "rd_json (Suc n) =
     rd_bind rd_u8 (\<lambda>tag.
       if tag = 0x00 then rd_return JNull
       else if tag = 0x01 then rd_map (\<lambda>b. JBool (b \<noteq> 0)) rd_u8
       else if tag = 0x05 then rd_map json_of_i64 rd_u64
       else if tag = 0x09 then rd_map json_of_u64 rd_u64
       else if tag = 0x0B then rd_map json_of_f64 rd_u64
       else if tag = 0x0D then rd_map JString rd_str
       else if tag = 0x12 then
         rd_bind rd_count (\<lambda>count.
           if 4096 < count then rd_fail (JsonObjectTooLarge count)
           else rd_map (\<lambda>kvs. JObject (obj_of_list kvs)) (rd_list count (rd_pair rd_str (rd_json n))))
       else if tag = 0x13 then
         rd_bind rd_count (\<lambda>count.
           if 65536 < count then rd_fail (JsonArrayTooLarge count)
           else rd_map JArray (rd_list count (rd_json n)))
       else rd_fail (BadJsonTag tag))"

fun rd_value :: "nat \<Rightarrow> chrono \<Rightarrow> (protocol_error, val) reader" where
  "rd_value 0 chr = rd_fail OutOfFuel"
| "rd_value (Suc n) chr =
     rd_bind rd_u8 (\<lambda>tag.
       if tag = 0x00 then rd_return VNull
       else if tag = 0x01 then rd_map (\<lambda>b. VBoolean (b \<noteq> 0)) rd_u8
       else if tag = 0x02 then rd_map VInt8 rd_u8
       else if tag = 0x03 then rd_map VInt16 rd_u16
       else if tag = 0x04 then rd_map VInt32 rd_u32
       else if tag = 0x05 then rd_map VInt64 rd_u64
       else if tag = 0x06 then rd_map VUInt8 rd_u8
       else if tag = 0x07 then rd_map VUInt16 rd_u16
       else if tag = 0x08 then rd_map VUInt32 rd_u32
       else if tag = 0x09 then rd_map VUInt64 rd_u64
       else if tag = 0x0A then rd_map VFloat32 rd_u32
       else if tag = 0x0B then rd_map VFloat64 rd_u64
       else if tag = 0x0C then rd_map VDecimal rd_str
       else if tag = 0x0D then rd_map VString rd_str
       else if tag = 0x0E then rd_bind rd_count (\<lambda>len. rd_map VBytes (rd_take Truncated len))
       else if tag = 0x0F then
         rd_map (\<lambda>raw. VUuid (from_le_bytes (rev raw))) (rd_take Truncated 16)
       else if tag = 0x10 then
         rd_bind rd_u64 (\<lambda>micros.
           case from_timestamp_micros chr micros of
             Some t \<Rightarrow> rd_return (VTimestamp t) | None \<Rightarrow> rd_fail (BadTimestamp micros))
       else if tag = 0x11 then
         rd_bind rd_u32 (\<lambda>days.
         rd_bind rd_u32 (\<lambda>month.
         rd_bind rd_u32 (\<lambda>day.
           case from_num_days_from_ce chr days of
             Some d \<Rightarrow>
               if date_month chr d = month \<and> date_day chr d = day then rd_return (VDate d)
               else rd_fail BadDate
           | None \<Rightarrow> rd_fail BadDate)))
       else if tag = 0x12 then rd_map VJson (rd_json n)
       else if tag = 0x13 then
         rd_bind rd_count (\<lambda>count.
           if 65536 < count then rd_fail (ArrayTooLarge count)
           else rd_map VArray (rd_list count (rd_value n chr)))
       else rd_fail (UnknownValueTag tag))"

text \<open>A value, with the fuel the input can need at most.\<close>

definition rd_val :: "chrono \<Rightarrow> (protocol_error, val) reader" where
  "rd_val chr bs = rd_value (Suc (length bs)) chr bs"

definition rd_values_map :: "chrono \<Rightarrow> (protocol_error, row_values) reader" where
  "rd_values_map chr =
     rd_bind rd_count (\<lambda>count.
       if 4096 < count then rd_fail (MapTooLarge count)
       else rd_map (hm_extend []) (rd_list count (rd_pair rd_str (rd_val chr))))"

definition rd_option :: "(protocol_error, 'a) reader \<Rightarrow> (protocol_error, 'a option) reader" where
  "rd_option p =
     rd_bind rd_u8 (\<lambda>tag.
       if tag = 0 then rd_return None
       else if tag = 1 then rd_map Some p
       else rd_fail (BadOptionTag tag))"

definition rd_request :: "chrono \<Rightarrow> (protocol_error, request) reader" where
  "rd_request chr =
     rd_bind rd_u64 (\<lambda>i.
     rd_bind rd_u8 (\<lambda>tag.
     case op_from_tag tag of
       None \<Rightarrow> rd_fail UnknownOpTag
     | Some opr \<Rightarrow>
     rd_bind rd_str (\<lambda>table.
     rd_bind (rd_option rd_u64) (\<lambda>rid.
     rd_bind (rd_option (rd_values_map chr)) (\<lambda>vals.
     rd_return \<lparr> rq_id = i, rq_op = opr, rq_table = table, rq_row_id = rid, rq_values = vals \<rparr>)))))"

definition rd_row_view :: "chrono \<Rightarrow> (protocol_error, row_view) reader" where
  "rd_row_view chr =
     rd_bind rd_u64 (\<lambda>i. rd_bind (rd_values_map chr) (\<lambda>vals. rd_return \<lparr> rv_id = i, rv_values = vals \<rparr>))"

definition rd_response :: "chrono \<Rightarrow> (protocol_error, response) reader" where
  "rd_response chr =
     rd_bind rd_u64 (\<lambda>i.
     rd_bind rd_u8 (\<lambda>k.
     rd_bind rd_count (\<lambda>row_count.
     if 1000000 < row_count then rd_fail (RowCountTooLarge row_count)
     else
     rd_bind (rd_list row_count (rd_row_view chr)) (\<lambda>rows.
     rd_bind (rd_option rd_str) (\<lambda>err.
     rd_return \<lparr> rs_id = i, rs_ok = (k \<noteq> 0), rs_rows = rows, rs_error = err \<rparr>)))))"

definition rd_end :: "(protocol_error, unit) reader" where
  "rd_end bs = (if bs \<noteq> [] then Err (Trailing (length bs)) else Ok ((), bs))"

text \<open>Run a reader on a whole payload.\<close>

definition decode_all :: "(protocol_error, 'a) reader \<Rightarrow> u8 list \<Rightarrow> protocol_error + 'a" where
  "decode_all p bs =
     (case rd_bind p (\<lambda>x. rd_bind rd_end (\<lambda>_. rd_return x)) bs of
        Inl e \<Rightarrow> Err e | Inr (x, _) \<Rightarrow> Ok x)"

definition expect_kind :: "u8 \<Rightarrow> (protocol_error, unit) reader" where
  "expect_kind want =
     rd_bind rd_u8 (\<lambda>got. if got \<noteq> want then rd_fail (WrongKind got want) else rd_return ())"

section \<open>Frames\<close>

record frame_codec =
  max_frame :: nat

definition with_default_limit :: frame_codec where
  "with_default_limit = \<lparr> max_frame = DEFAULT_MAX_FRAME \<rparr>"

definition frame :: "frame_codec \<Rightarrow> u8 list \<Rightarrow> protocol_error + u8 list" where
  "frame c payload =
     (if max_frame c < length payload then Err (EncodeFrameTooLarge (length payload) (max_frame c))
      else Ok (PROTOCOL_VERSION # u32_bytes (of_nat (length payload)) @ payload))"

definition encode_request :: "chrono \<Rightarrow> frame_codec \<Rightarrow> request \<Rightarrow> protocol_error + u8 list" where
  "encode_request chr c r = frame c (KIND_REQUEST # w_request chr r)"

definition batch_payload :: "chrono \<Rightarrow> u8 \<Rightarrow> batch_request \<Rightarrow> u8 list" where
  "batch_payload chr kind b =
     kind # u64_bytes (bq_id b) @ w_len (length (bq_ops b)) @ concat (map (w_request chr) (bq_ops b))"

definition encode_batch_request :: "chrono \<Rightarrow> frame_codec \<Rightarrow> batch_request \<Rightarrow> protocol_error + u8 list" where
  "encode_batch_request chr c b = frame c (batch_payload chr KIND_BATCH_REQUEST b)"

definition encode_atomic_batch_request ::
  "chrono \<Rightarrow> frame_codec \<Rightarrow> batch_request \<Rightarrow> protocol_error + u8 list" where
  "encode_atomic_batch_request chr c b = frame c (batch_payload chr KIND_ATOMIC_BATCH_REQUEST b)"

definition encode_response :: "chrono \<Rightarrow> frame_codec \<Rightarrow> response \<Rightarrow> protocol_error + u8 list" where
  "encode_response chr c r = frame c (KIND_RESPONSE # w_response chr r)"

definition encode_ok_borrowed ::
  "chrono \<Rightarrow> frame_codec \<Rightarrow> u64 \<Rightarrow> (u64 \<times> row_values) list \<Rightarrow> protocol_error + u8 list" where
  "encode_ok_borrowed chr c i rows = frame c (KIND_RESPONSE # w_response_borrowed chr i rows None)"

definition encode_ok_single ::
  "chrono \<Rightarrow> frame_codec \<Rightarrow> u64 \<Rightarrow> u64 \<Rightarrow> row_values \<Rightarrow> protocol_error + u8 list" where
  "encode_ok_single chr c i rid vals =
     frame c (KIND_RESPONSE # w_response_borrowed chr i [(rid, vals)] None)"

definition encode_batch_response :: "chrono \<Rightarrow> frame_codec \<Rightarrow> batch_response \<Rightarrow> protocol_error + u8 list" where
  "encode_batch_response chr c b =
     frame c (KIND_BATCH_RESPONSE # u64_bytes (bs_id b) @ w_len (length (bs_results b)) @
              concat (map (w_response chr) (bs_results b)))"

text \<open>Pop one frame from the front of the buffer: the payload and the rest of the buffer.\<close>

definition feed :: "frame_codec \<Rightarrow> u8 list \<Rightarrow> (protocol_error + u8 list option) \<times> u8 list" where
  "feed c buf =
     (if length buf < HEADER_LEN then (Ok None, buf)
      else if hd buf \<noteq> PROTOCOL_VERSION then (Err (UnsupportedVersion (hd buf)), buf)
      else
        (let len = unat (from_le_bytes (take 4 (tl buf)) :: u32) in
         if max_frame c < len then (Err (DecodeFrameTooLarge len (max_frame c)), buf)
         else if length buf < HEADER_LEN + len then (Ok None, buf)
         else (Ok (Some (take len (drop HEADER_LEN buf))), drop (HEADER_LEN + len) buf)))"

definition decode_request :: "chrono \<Rightarrow> u8 list \<Rightarrow> protocol_error + request" where
  "decode_request chr = decode_all (rd_bind (expect_kind KIND_REQUEST) (\<lambda>_. rd_request chr))"

definition rd_batch :: "chrono \<Rightarrow> (protocol_error, batch_request) reader" where
  "rd_batch chr =
     rd_bind rd_u64 (\<lambda>i.
     rd_bind rd_count (\<lambda>count.
     if 4096 < count then rd_fail (BatchTooLarge count)
     else rd_map (\<lambda>ops. \<lparr> bq_id = i, bq_ops = ops \<rparr>) (rd_list count (rd_request chr))))"

definition rd_incoming :: "chrono \<Rightarrow> (protocol_error, incoming) reader" where
  "rd_incoming chr =
     rd_bind rd_u8 (\<lambda>kind.
       if kind = KIND_REQUEST then rd_map Single (rd_request chr)
       else if kind = KIND_BATCH_REQUEST then rd_map Batch (rd_batch chr)
       else if kind = KIND_ATOMIC_BATCH_REQUEST then rd_map AtomicBatch (rd_batch chr)
       else rd_fail (UnknownIncomingKind kind))"

definition decode_incoming :: "chrono \<Rightarrow> u8 list \<Rightarrow> protocol_error + incoming" where
  "decode_incoming chr = decode_all (rd_incoming chr)"

definition decode_response :: "chrono \<Rightarrow> u8 list \<Rightarrow> protocol_error + response" where
  "decode_response chr = decode_all (rd_bind (expect_kind KIND_RESPONSE) (\<lambda>_. rd_response chr))"

definition decode_batch_response :: "chrono \<Rightarrow> u8 list \<Rightarrow> protocol_error + batch_response" where
  "decode_batch_response chr =
     decode_all
       (rd_bind (expect_kind KIND_BATCH_RESPONSE) (\<lambda>_.
        rd_bind rd_u64 (\<lambda>i.
        rd_bind rd_count (\<lambda>count.
        if 4096 < count then rd_fail (BatchResponseTooLarge count)
        else rd_map (\<lambda>rs. \<lparr> bs_id = i, bs_results = rs \<rparr>) (rd_list count (rd_response chr))))))"

section \<open>What the codec can carry\<close>

text \<open>
  The limits of the decoder: strings are UTF-8 with a length that fits 32 bits, arrays have
  at most 65536 elements, objects and maps at most 4096 keys. JSON objects have their keys in
  order (\<open>serde_json::Map\<close>), JSON numbers are normalised as \<open>serde_json\<close> does, and
  timestamps and dates are those the calendar reads back.
\<close>

definition str_wire :: "string \<Rightarrow> bool" where
  "str_wire s \<longleftrightarrow> str_ok s \<and> length s < 2 ^ 32"

fun number_wire :: "json_number \<Rightarrow> bool" where
  "number_wire (PosInt n) = True"
| "number_wire (NegInt n) = (sint n < 0)"
| "number_wire (JFloat b) = f64_finite b"

fun json_wire :: "json \<Rightarrow> bool" where
  "json_wire JNull = True"
| "json_wire (JBool b) = True"
| "json_wire (JNumber n) = number_wire n"
| "json_wire (JString s) = str_wire s"
| "json_wire (JArray items) = (length items \<le> 65536 \<and> (\<forall>x \<in> set items. json_wire x))"
| "json_wire (JObject kvs) =
     (length kvs \<le> 4096 \<and> sorted_wrt (<) (map fst kvs) \<and>
      (\<forall>(k, v) \<in> set kvs. str_wire k \<and> json_wire v))"

fun val_wire :: "chrono \<Rightarrow> val \<Rightarrow> bool" where
  "val_wire chr (VDecimal s) = str_wire s"
| "val_wire chr (VString s) = str_wire s"
| "val_wire chr (VBytes b) = (length b < 2 ^ 32)"
| "val_wire chr (VTimestamp t) = (from_timestamp_micros chr (timestamp_micros chr t) = Some t)"
| "val_wire chr (VDate d) = (from_num_days_from_ce chr (num_days_from_ce chr d) = Some d)"
| "val_wire chr (VJson j) = json_wire j"
| "val_wire chr (VArray items) = (length items \<le> 65536 \<and> (\<forall>x \<in> set items. val_wire chr x))"
| "val_wire chr _ = True"

definition map_wire :: "chrono \<Rightarrow> row_values \<Rightarrow> bool" where
  "map_wire chr m \<longleftrightarrow>
     length m \<le> 4096 \<and> hm_wf m \<and> (\<forall>(k, v) \<in> set m. str_wire k \<and> val_wire chr v)"

definition request_wire :: "chrono \<Rightarrow> request \<Rightarrow> bool" where
  "request_wire chr r \<longleftrightarrow>
     str_wire (rq_table r) \<and> (case rq_values r of Some m \<Rightarrow> map_wire chr m | None \<Rightarrow> True)"

definition response_wire :: "chrono \<Rightarrow> response \<Rightarrow> bool" where
  "response_wire chr r \<longleftrightarrow>
     length (rs_rows r) \<le> 1000000 \<and> (\<forall>v \<in> set (rs_rows r). map_wire chr (rv_values v)) \<and>
     (case rs_error r of Some msg \<Rightarrow> str_wire msg | None \<Rightarrow> True)"

fun incoming_wire :: "chrono \<Rightarrow> incoming \<Rightarrow> bool" where
  "incoming_wire chr (Single r) = request_wire chr r"
| "incoming_wire chr (Batch b) =
     (length (bq_ops b) \<le> 4096 \<and> (\<forall>r \<in> set (bq_ops b). request_wire chr r))"
| "incoming_wire chr (AtomicBatch b) =
     (length (bq_ops b) \<le> 4096 \<and> (\<forall>r \<in> set (bq_ops b). request_wire chr r))"

section \<open>Reading back what was written\<close>

named_theorems wire_simps \<open>what the readers return on the writers' output\<close>

lemmas rd_simps = rd_bind_def rd_map_def rd_return_def rd_fail_def

lemma rd_u8_Cons [wire_simps]: "rd_u8 (b # rest) = Inr (b, rest)"
  by (simp add: rd_u8_def rd_le_def rd_simps rd_take_def)

lemma rd_u16_wire [wire_simps]: "rd_u16 (u16_bytes w @ rest) = Inr (w, rest)"
  by (simp add: rd_u16_def)

lemma rd_u32_wire [wire_simps]: "rd_u32 (u32_bytes w @ rest) = Inr (w, rest)"
  by (simp add: rd_u32_def)

lemma rd_u64_wire [wire_simps]: "rd_u64 (u64_bytes w @ rest) = Inr (w, rest)"
  by (simp add: rd_u64_def)

lemma rd_count_wire [wire_simps]: "n < 2 ^ 32 \<Longrightarrow> rd_count (w_len n @ rest) = Inr (n, rest)"
  by (simp add: rd_count_def w_len_def rd_simps wire_simps unsigned_of_nat take_bit_eq_mod)

lemma w_bool_nonzero [wire_simps]: "w_bool b \<noteq> 0 \<longleftrightarrow> b"
  by (simp add: w_bool_def)

lemma rd_str_wire [wire_simps]: "str_wire s \<Longrightarrow> rd_str (w_str s @ rest) = Inr (s, rest)"
  by (simp add: rd_str_def w_str_def str_wire_def rd_simps wire_simps from_utf8_as_bytes)

interpretation str_codec: codec w_str rd_str str_wire
  by unfold_locales (rule rd_str_wire)

lemma op_from_tag_op_tag [wire_simps]: "op_from_tag (op_tag p) = Some p"
  by (cases p) (simp_all add: op_from_tag_def)

lemma codec_pair:
  assumes "codec e1 d1 ok1" and "codec e2 d2 ok2"
  shows "codec (\<lambda>(x, y). e1 x @ e2 y) (rd_pair d1 d2) (\<lambda>(x, y). ok1 x \<and> ok2 y)"
  using assms by (auto simp: codec_def rd_pair_def rd_simps)

lemma obj_insert_last:
  "\<forall>k' \<in> set (map fst m). k' < k \<Longrightarrow> obj_insert k v m = m @ [(k, v)]"
  by (induction m) auto

lemma obj_of_sorted: "sorted_wrt (<) (map fst kvs) \<Longrightarrow> obj_of_list kvs = kvs"
proof -
  have "sorted_wrt (<) (map fst (m @ kvs)) \<Longrightarrow>
        foldl (\<lambda>m (k, v). obj_insert k v m) m kvs = m @ kvs" for m
  proof (induction kvs arbitrary: m)
    case (Cons p kvs)
    have "foldl (\<lambda>m (k, v). obj_insert k v m) m (p # kvs) =
          foldl (\<lambda>m (k, v). obj_insert k v m) (m @ [p]) kvs"
      using Cons.prems by (auto simp: obj_insert_last sorted_wrt_append split: prod.split)
    with Cons.IH [of "m @ [p]"] Cons.prems show ?case by simp
  qed simp
  from this [of "[]"] show "sorted_wrt (<) (map fst kvs) \<Longrightarrow> obj_of_list kvs = kvs"
    by (simp add: obj_of_list_def)
qed

lemma hm_insert_fresh: "k \<notin> set (map fst m) \<Longrightarrow> hm_insert k v m = m @ [(k, v)]"
  by (induction m) auto

lemma hm_extend_append: "hm_wf (m @ new) \<Longrightarrow> hm_extend m new = m @ new"
proof (induction new arbitrary: m)
  case (Cons p new)
  then have "hm_insert (fst p) (snd p) m = m @ [p]"
    by (simp add: hm_insert_fresh)
  with Cons show ?case by (simp add: hm_extend_Cons)
qed simp

text \<open>
  The recursive readers: enough fuel is as many units as the encoding has bytes, because
  each nested value is shorter than the one that holds it.
\<close>

lemma w_json_nonempty: "w_json j \<noteq> []"
proof (cases j)
  case (JNumber m)
  then show ?thesis by (cases m) (auto simp: w_number_def)
qed auto

lemma number_wire_json:
  "number_wire m \<Longrightarrow> rd_json (Suc n) (w_number m @ rest) = Inr (JNumber m, rest)"
  by (cases m) (auto simp: w_number_def rd_simps wire_simps json_of_i64_def json_of_u64_def json_of_f64_def)

lemma rd_json_wire: "json_wire j \<Longrightarrow> length (w_json j) \<le> n \<Longrightarrow> rd_json n (w_json j @ rest) = Inr (j, rest)"
proof (induction n arbitrary: j rest)
  case 0
  then show ?case using w_json_nonempty [of j] by simp
next
  case (Suc n)
  let ?small = "\<lambda>j. json_wire j \<and> length (w_json j) \<le> n"
  have c: "codec w_json (rd_json n) ?small"
    by unfold_locales (use Suc.IH in blast)
  show ?case
  proof (cases j)
    case (JArray items)
    have "\<forall>x \<in> set items. ?small x"
    proof
      fix x assume x: "x \<in> set items"
      then have "length (w_json x) \<le> length (concat (map w_json items))"
        by (auto simp: length_concat intro: member_le_sum_list)
      with x Suc.prems JArray show "?small x" by (auto simp: w_len_def)
    qed
    then show ?thesis
      using Suc.prems JArray codec.dec_list_enc [OF c] by (simp add: rd_simps wire_simps)
  next
    case (JObject kvs)
    let ?enc = "\<lambda>(k, v). w_str k @ w_json v"
    have small: "\<forall>p \<in> set kvs. (case p of (k, v) \<Rightarrow> str_wire k \<and> ?small v)"
    proof
      fix p assume p: "p \<in> set kvs"
      then have "length (?enc p) \<le> length (concat (map ?enc kvs))"
        by (auto simp: length_concat intro: member_le_sum_list)
      with p Suc.prems JObject show "case p of (k, v) \<Rightarrow> str_wire k \<and> ?small v"
        by (auto simp: w_len_def)
    qed
    from codec.dec_list_enc [OF codec_pair [OF str_codec.codec_axioms c] this] show ?thesis
      using Suc.prems JObject by (simp add: rd_simps wire_simps obj_of_sorted)
  next
    case (JNumber m)
    with Suc.prems show ?thesis using number_wire_json [of m n rest] by (simp del: rd_json.simps)
  qed (use Suc.prems in \<open>auto simp: rd_simps wire_simps\<close>)
qed

lemma rd_take_wire [wire_simps]: "rd_take e (length b) (b @ rest) = Inr (b, rest)"
  by simp

lemma uuid_wire [wire_simps]:
  "rd_take e 16 (uuid_bytes u @ rest) = Inr (uuid_bytes u, rest)"
  "from_le_bytes (rev (uuid_bytes u)) = u"
  by (simp_all add: uuid_bytes_def)

lemma rd_value_wire:
  "val_wire chr v \<Longrightarrow> length (w_value chr v) \<le> n \<Longrightarrow> rd_value n chr (w_value chr v @ rest) = Inr (v, rest)"
proof (induction n arbitrary: v rest)
  case 0
  then show ?case by (cases v) auto
next
  case (Suc n)
  let ?small = "\<lambda>v. val_wire chr v \<and> length (w_value chr v) \<le> n"
  have c: "codec (w_value chr) (rd_value n chr) ?small"
    by unfold_locales (use Suc.IH in blast)
  show ?case
  proof (cases v)
    case (VArray items)
    have "\<forall>x \<in> set items. ?small x"
    proof
      fix x assume x: "x \<in> set items"
      then have "length (w_value chr x) \<le> length (concat (map (w_value chr) items))"
        by (auto simp: length_concat intro: member_le_sum_list)
      with x Suc.prems VArray show "?small x" by (auto simp: w_len_def)
    qed
    then show ?thesis
      using Suc.prems VArray codec.dec_list_enc [OF c] by (simp add: rd_simps wire_simps)
  qed (use Suc.prems in \<open>simp_all add: rd_simps wire_simps rd_json_wire\<close>)
qed

interpretation value_codec: codec "w_value chr" "rd_val chr" "val_wire chr" for chr
  by unfold_locales (unfold rd_val_def, rule rd_value_wire, simp_all)

lemmas field_codec = codec_pair [OF str_codec.codec_axioms value_codec.codec_axioms]

interpretation map_codec: codec "w_map chr" "rd_values_map chr" "map_wire chr" for chr
proof
  fix m rest
  assume m: "map_wire chr m"
  then have "rd_list (length m) (rd_pair rd_str (rd_val chr))
               (concat (map (\<lambda>(k, v). w_str k @ w_value chr v) m) @ rest) = Inr (m, rest)"
    using codec.dec_list_enc [OF field_codec] by (simp add: map_wire_def)
  with m show "rd_values_map chr (w_map chr m @ rest) = Inr (m, rest)"
    using hm_extend_append [of "[]" m]
    by (simp add: rd_values_map_def w_map_def map_wire_def rd_simps wire_simps)
qed

lemma codec_option:
  assumes "codec e d ok"
  shows "codec (\<lambda>x. case x of Some y \<Rightarrow> 1 # e y | None \<Rightarrow> [0]) (rd_option d)
           (\<lambda>x. case x of Some y \<Rightarrow> ok y | None \<Rightarrow> True)"
proof
  fix x rest
  assume "case x of Some y \<Rightarrow> ok y | None \<Rightarrow> True"
  then show "rd_option d ((case x of Some y \<Rightarrow> 1 # e y | None \<Rightarrow> [0]) @ rest) = Inr (x, rest)"
    using codec.dec_enc [OF assms] by (cases x) (simp_all add: rd_option_def rd_simps wire_simps)
qed

interpretation u64_codec: codec u64_bytes rd_u64 "\<lambda>_. True"
  by unfold_locales (rule rd_u64_wire)

lemma option_u64_wire [wire_simps]:
  "rd_option rd_u64 ((case x of Some i \<Rightarrow> 1 # u64_bytes i | None \<Rightarrow> [0]) @ rest) = Inr (x, rest)"
  by (rule codec.dec_enc [OF codec_option [OF u64_codec.codec_axioms]]) (simp split: option.split)

lemmas option_wire [wire_simps] =
  codec.dec_enc [OF codec_option [OF map_codec.codec_axioms]]
  codec.dec_enc [OF codec_option [OF str_codec.codec_axioms]]

interpretation request_codec: codec "w_request chr" "rd_request chr" "request_wire chr" for chr
proof
  fix r rest
  assume "request_wire chr r"
  then show "rd_request chr (w_request chr r @ rest) = Inr (r, rest)"
    by (cases r) (simp add: request_wire_def rd_request_def w_request_def rd_simps wire_simps)
qed

interpretation row_view_codec: codec "w_row_view chr" "rd_row_view chr" "\<lambda>v. map_wire chr (rv_values v)" for chr
  by unfold_locales (simp add: rd_row_view_def w_row_view_def rd_simps wire_simps map_codec.dec_enc)

interpretation response_codec: codec "w_response chr" "rd_response chr" "response_wire chr" for chr
proof
  fix r rest
  assume "response_wire chr r"
  then show "rd_response chr (w_response chr r @ rest) = Inr (r, rest)"
    using row_view_codec.dec_list_enc [of "rs_rows r" chr]
    by (cases r) (simp add: response_wire_def rd_response_def w_response_def w_error_def rd_simps wire_simps)
qed

section \<open>The fuel of the reader\<close>

text \<open>
  Two readers agree on inputs of at most \<open>m\<close> bytes, do not run out of fuel there, and return a
  rest no longer than the input.
\<close>

definition fuel_ok :: "nat \<Rightarrow> (protocol_error, 'a) reader \<Rightarrow> (protocol_error, 'a) reader \<Rightarrow> bool" where
  "fuel_ok m p q \<longleftrightarrow>
     (\<forall>bs. length bs \<le> m \<longrightarrow>
        p bs = q bs \<and> p bs \<noteq> Inl OutOfFuel \<and>
        (\<forall>x rest. p bs = Inr (x, rest) \<longrightarrow> length rest \<le> length bs))"

lemma fuel_okD:
  "fuel_ok m p q \<Longrightarrow> length bs \<le> m \<Longrightarrow>
   p bs = q bs \<and> p bs \<noteq> Inl OutOfFuel \<and> (\<forall>x rest. p bs = Inr (x, rest) \<longrightarrow> length rest \<le> length bs)"
  unfolding fuel_ok_def by blast

lemma fuel_ok_return: "fuel_ok m (rd_return x) (rd_return x)"
  by (simp add: fuel_ok_def rd_return_def)

lemma fuel_ok_fail: "e \<noteq> OutOfFuel \<Longrightarrow> fuel_ok m (rd_fail e) (rd_fail e)"
  by (simp add: fuel_ok_def rd_fail_def)

lemma fuel_ok_take: "fuel_ok m (rd_take Truncated n) (rd_take Truncated n)"
  by (auto simp: fuel_ok_def rd_take_def)

lemma fuel_ok_bind:
  assumes p: "fuel_ok m p q" and f: "\<And>x. fuel_ok m (f x) (g x)"
  shows "fuel_ok m (rd_bind p f) (rd_bind q g)"
  unfolding fuel_ok_def
proof (intro allI impI)
  fix bs :: "u8 list"
  assume bs: "length bs \<le> m"
  show "rd_bind p f bs = rd_bind q g bs \<and> rd_bind p f bs \<noteq> Inl OutOfFuel \<and>
        (\<forall>x rest. rd_bind p f bs = Inr (x, rest) \<longrightarrow> length rest \<le> length bs)"
  proof (cases "p bs")
    case (Inl e)
    with p bs show ?thesis by (auto simp: fuel_ok_def rd_bind_def)
  next
    case (Inr r)
    obtain x rest where r: "r = (x, rest)" by (cases r)
    have *: "q bs = Inr (x, rest)" "length rest \<le> length bs"
      using p bs Inr r by (auto simp: fuel_ok_def)
    then have "f x rest = g x rest \<and> f x rest \<noteq> Inl OutOfFuel \<and>
               (\<forall>y r. f x rest = Inr (y, r) \<longrightarrow> length r \<le> length rest)"
      using bs by (intro fuel_okD [OF f]) simp
    moreover have "rd_bind p f bs = f x rest" "rd_bind q g bs = g x rest"
      using * Inr r by (simp_all add: rd_bind_def)
    ultimately show ?thesis using *(2) by (metis le_trans)
  qed
qed

lemma fuel_ok_map: "fuel_ok m p q \<Longrightarrow> fuel_ok m (rd_map h p) (rd_map h q)"
  unfolding rd_map_def by (intro fuel_ok_bind fuel_ok_return)

lemma fuel_ok_pair: "fuel_ok m p q \<Longrightarrow> fuel_ok m p' q' \<Longrightarrow> fuel_ok m (rd_pair p p') (rd_pair q q')"
  unfolding rd_pair_def by (intro fuel_ok_bind fuel_ok_return)

lemma fuel_ok_if:
  "(b \<Longrightarrow> fuel_ok m p q) \<Longrightarrow> (\<not> b \<Longrightarrow> fuel_ok m p' q') \<Longrightarrow>
   fuel_ok m (if b then p else p') (if b then q else q')"
  by simp

lemma rd_list_Suc_bind:
  "rd_list (Suc n) p = rd_bind p (\<lambda>x. rd_map (\<lambda>xs. x # xs) (rd_list n p))"
  by (rule ext) (simp add: rd_simps split: sum.split prod.split)

lemma fuel_ok_list: "fuel_ok m p q \<Longrightarrow> fuel_ok m (rd_list n p) (rd_list n q)"
proof (induction n)
  case 0
  then show ?case by (simp add: fuel_ok_def)
next
  case (Suc n)
  then show ?case unfolding rd_list_Suc_bind by (intro fuel_ok_bind fuel_ok_map)
qed

lemma fuel_ok_le: "fuel_ok m (rd_le Truncated n) (rd_le Truncated n)"
  unfolding rd_le_def by (intro fuel_ok_map fuel_ok_take)

lemma fuel_ok_ints:
  "fuel_ok m rd_u8 rd_u8" "fuel_ok m rd_u16 rd_u16" "fuel_ok m rd_u32 rd_u32" "fuel_ok m rd_u64 rd_u64"
  "fuel_ok m rd_count rd_count"
  unfolding rd_count_def rd_u8_def rd_u16_def rd_u32_def rd_u64_def by (intro fuel_ok_le fuel_ok_map)+

lemma fuel_ok_str: "fuel_ok m rd_str rd_str"
  unfolding rd_str_def
  by (intro fuel_ok_bind fuel_ok_ints fuel_ok_take)
    (auto intro: fuel_ok_return fuel_ok_fail split: option.split)

lemmas fuel_ok_intros =
  fuel_ok_bind fuel_ok_map fuel_ok_pair fuel_ok_list fuel_ok_ints fuel_ok_str fuel_ok_take
  fuel_ok_return fuel_ok_if

text \<open>The tag byte is consumed before a nested value is read.\<close>

lemma fuel_ok_tag:
  assumes "\<And>x. fuel_ok m (f x) (g x)"
  shows "fuel_ok (Suc m) (rd_bind rd_u8 f) (rd_bind rd_u8 g)"
  unfolding fuel_ok_def
proof (intro allI impI)
  fix bs :: "u8 list"
  assume "length bs \<le> Suc m"
  then show "rd_bind rd_u8 f bs = rd_bind rd_u8 g bs \<and> rd_bind rd_u8 f bs \<noteq> Inl OutOfFuel \<and>
        (\<forall>x rest. rd_bind rd_u8 f bs = Inr (x, rest) \<longrightarrow> length rest \<le> length bs)"
  proof (cases bs)
    case Nil
    then show ?thesis by (simp add: rd_u8_def rd_le_def rd_simps rd_take_def)
  next
    case (Cons b r)
    with assms [of b] \<open>length bs \<le> Suc m\<close> show ?thesis
      by (fastforce simp: rd_bind_def rd_u8_Cons fuel_ok_def)
  qed
qed

lemma fuel_ok_empty: "fuel_ok 0 (rd_bind rd_u8 f) (rd_bind rd_u8 g)"
  by (simp add: fuel_ok_def rd_u8_def rd_le_def rd_simps rd_take_def)

lemma rd_json_fuel: "m < n \<Longrightarrow> m < n' \<Longrightarrow> fuel_ok m (rd_json n) (rd_json n')"
proof (induction m arbitrary: n n')
  case 0
  then show ?case by (cases n; cases n') (simp_all only: rd_json.simps fuel_ok_empty)
next
  case (Suc m)
  then obtain k k' where k: "n = Suc k" "n' = Suc k'" "m < k" "m < k'"
    by (metis Suc_lessE)
  show ?case
    unfolding k rd_json.simps
    by (rule fuel_ok_tag) (intro fuel_ok_intros Suc.IH k fuel_ok_fail; simp)
qed

lemma rd_value_fuel: "m < n \<Longrightarrow> m < n' \<Longrightarrow> fuel_ok m (rd_value n chr) (rd_value n' chr)"
proof (induction m arbitrary: n n')
  case 0
  then show ?case by (cases n; cases n') (simp_all only: rd_value.simps fuel_ok_empty)
next
  case (Suc m)
  then obtain k k' where k: "n = Suc k" "n' = Suc k'" "m < k" "m < k'"
    by (metis Suc_lessE)
  show ?case
    unfolding k rd_value.simps option.case_distrib
    by (rule fuel_ok_tag)
      (intro fuel_ok_intros Suc.IH rd_json_fuel k fuel_ok_fail;
       auto intro: fuel_ok_intros fuel_ok_fail split: option.split)
qed

lemma rd_val_fuel: "length bs < n \<Longrightarrow> rd_value n chr bs = rd_val chr bs"
  using fuel_okD [OF rd_value_fuel [of "length bs" n "Suc (length bs)"], of bs] by (simp add: rd_val_def)

lemma fuel_ok_val: "fuel_ok m (rd_val chr) (rd_val chr)"
proof -
  have "rd_val chr bs \<noteq> Inl OutOfFuel \<and>
        (\<forall>x rest. rd_val chr bs = Inr (x, rest) \<longrightarrow> length rest \<le> length bs)" for bs
    using fuel_okD [OF rd_value_fuel [of "length bs" "Suc (length bs)" "Suc (length bs)" chr], of bs]
    by (simp add: rd_val_def del: rd_value.simps)
  then show ?thesis by (simp add: fuel_ok_def)
qed

lemma fuel_ok_option: "fuel_ok m p q \<Longrightarrow> fuel_ok m (rd_option p) (rd_option q)"
  unfolding rd_option_def by (intro fuel_ok_intros fuel_ok_fail; simp)

lemma fuel_ok_map_values: "fuel_ok m (rd_values_map chr) (rd_values_map chr)"
  unfolding rd_values_map_def by (intro fuel_ok_intros fuel_ok_val fuel_ok_fail; simp)

lemma fuel_ok_request: "fuel_ok m (rd_request chr) (rd_request chr)"
  unfolding rd_request_def
  by (intro fuel_ok_bind fuel_ok_ints)
    (auto intro!: fuel_ok_intros fuel_ok_option fuel_ok_map_values fuel_ok_fail split: option.split)

lemma fuel_ok_incoming: "fuel_ok m (rd_incoming chr) (rd_incoming chr)"
  unfolding rd_incoming_def rd_batch_def by (intro fuel_ok_intros fuel_ok_request fuel_ok_fail; simp)

lemma fuel_ok_response: "fuel_ok m (rd_response chr) (rd_response chr)"
  unfolding rd_response_def rd_row_view_def
  by (intro fuel_ok_intros fuel_ok_option fuel_ok_map_values fuel_ok_fail; simp)

lemma decode_all_fuel: "fuel_ok (length bs) p p \<Longrightarrow> decode_all p bs \<noteq> Inl OutOfFuel"
  using fuel_okD [of "length bs" p p bs]
  by (auto simp: decode_all_def rd_bind_def rd_end_def rd_return_def split: sum.splits)

section \<open>Whole messages\<close>

lemma decode_all_wire: "codec e d ok \<Longrightarrow> ok x \<Longrightarrow> decode_all d (e x) = Ok x"
  using codec.dec_enc [of e d ok x "[]"] by (simp add: decode_all_def rd_end_def rd_simps)

fun w_incoming :: "chrono \<Rightarrow> incoming \<Rightarrow> u8 list" where
  "w_incoming chr (Single r) = KIND_REQUEST # w_request chr r"
| "w_incoming chr (Batch b) = batch_payload chr KIND_BATCH_REQUEST b"
| "w_incoming chr (AtomicBatch b) = batch_payload chr KIND_ATOMIC_BATCH_REQUEST b"

fun encode_incoming :: "chrono \<Rightarrow> frame_codec \<Rightarrow> incoming \<Rightarrow> protocol_error + u8 list" where
  "encode_incoming chr c (Single r) = encode_request chr c r"
| "encode_incoming chr c (Batch b) = encode_batch_request chr c b"
| "encode_incoming chr c (AtomicBatch b) = encode_atomic_batch_request chr c b"

lemma encode_incoming_frame: "encode_incoming chr c m = frame c (w_incoming chr m)"
  by (cases m) (simp_all add: encode_request_def encode_batch_request_def encode_atomic_batch_request_def)

lemma rd_batch_wire:
  assumes "length (bq_ops b) \<le> 4096" and "\<forall>r \<in> set (bq_ops b). request_wire chr r"
  shows "rd_batch chr (u64_bytes (bq_id b) @ w_len (length (bq_ops b)) @
           concat (map (w_request chr) (bq_ops b)) @ rest) = Inr (b, rest)"
  using assms request_codec.dec_list_enc [of "bq_ops b" chr rest]
  by (cases b) (simp add: rd_batch_def rd_simps wire_simps)

lemmas kinds = KIND_REQUEST_def KIND_BATCH_REQUEST_def KIND_ATOMIC_BATCH_REQUEST_def
  KIND_RESPONSE_def KIND_BATCH_RESPONSE_def

interpretation incoming_codec: codec "w_incoming chr" "rd_incoming chr" "incoming_wire chr" for chr
proof
  fix m rest
  assume "incoming_wire chr m"
  then show "rd_incoming chr (w_incoming chr m @ rest) = Inr (m, rest)"
    by (cases m)
      (simp_all add: rd_incoming_def kinds batch_payload_def rd_simps wire_simps
        request_codec.dec_enc rd_batch_wire)
qed

interpretation response_payload: codec "\<lambda>r. KIND_RESPONSE # w_response chr r"
  "rd_bind (expect_kind KIND_RESPONSE) (\<lambda>_. rd_response chr)" "response_wire chr" for chr
  by unfold_locales (simp add: expect_kind_def rd_simps wire_simps response_codec.dec_enc)

section \<open>Frames in a stream\<close>

lemma frame_Ok:
  "frame c payload = Ok f \<Longrightarrow> max_frame c < 2 ^ 32 \<Longrightarrow>
   length payload \<le> max_frame c \<and> f = PROTOCOL_VERSION # u32_bytes (of_nat (length payload)) @ payload \<and>
   unat (of_nat (length payload) :: u32) = length payload"
  by (auto simp: frame_def unsigned_of_nat take_bit_eq_mod split: if_splits)

lemma is_ok_frame: "is_ok (frame c payload) \<longleftrightarrow> length payload \<le> max_frame c"
  by (simp add: frame_def)

lemma feed_frame:
  assumes "frame c payload = Ok f" and "max_frame c < 2 ^ 32"
  shows "feed c (f @ rest) = (Ok (Some payload), rest)"
  using frame_Ok [OF assms] by (auto simp: feed_def HEADER_LEN_def Let_def drop_Cons')

lemma feed_partial:
  assumes "frame c payload = Ok f" and "max_frame c < 2 ^ 32" and "k < length f"
  shows "feed c (take k f) = (Ok None, take k f)"
proof -
  note f = frame_Ok [OF assms(1,2)]
  show ?thesis
  proof (cases "k < 5")
    case True
    then show ?thesis using assms(3) by (simp add: feed_def HEADER_LEN_def)
  next
    case False
    define j where "j = k - 5"
    with False have k: "k = Suc (4 + j)" by simp
    with f assms(3) show ?thesis
      by (auto simp: feed_def HEADER_LEN_def Let_def take_Cons')
  qed
qed

text \<open>
  The receive loop of a connection: bytes are appended to a staging buffer, an oversized buffer
  closes the connection, and complete frames are popped until none is left. The first component
  of the result are the payloads handed on, the second the reason to close, if any.
\<close>

datatype recv_error = StagingOverflow nat | Framing protocol_error

lemma feed_Some:
  "feed c buf = (Ok (Some p), b) \<Longrightarrow>
   \<exists>h. length h = HEADER_LEN \<and> buf = h @ p @ b \<and>
       hd h = PROTOCOL_VERSION \<and> unat (from_le_bytes (take 4 (tl h)) :: u32) = length p \<and> length p \<le> max_frame c"
proof -
  assume a: "feed c buf = (Ok (Some p), b)"
  let ?len = "unat (from_le_bytes (take 4 (tl buf)) :: u32)"
  have b: "5 + ?len \<le> length buf" "hd buf = PROTOCOL_VERSION" "?len \<le> max_frame c"
    "p = take ?len (drop 5 buf)" "b = drop (5 + ?len) buf"
    using a by (auto simp: feed_def HEADER_LEN_def Let_def split: if_splits)
  have "take 4 (tl (take 5 buf)) = take 4 (tl buf)" by (simp add: tl_take)
  moreover have "hd (take 5 buf) = hd buf" by simp
  moreover have "buf = take 5 buf @ p @ b"
    unfolding b(4,5) by (metis add.commute append_take_drop_id drop_drop)
  ultimately show ?thesis
    using b by (intro exI [of _ "take 5 buf"]) (simp add: HEADER_LEN_def)
qed

function drain :: "frame_codec \<Rightarrow> u8 list \<Rightarrow> u8 list list \<times> protocol_error option \<times> u8 list" where
  "drain c buf =
     (case feed c buf of
        (Inl e, b) \<Rightarrow> ([], Some e, b)
      | (Inr None, b) \<Rightarrow> ([], None, b)
      | (Inr (Some p), b) \<Rightarrow> (let (ps, e, b') = drain c b in (p # ps, e, b')))"
  by pat_completeness auto
termination
  by (relation "measure (\<lambda>(c, buf). length buf)") (auto simp: HEADER_LEN_def dest!: feed_Some [OF sym])

declare drain.simps [simp del]

definition receive :: "frame_codec \<Rightarrow> u8 list \<Rightarrow> u8 list \<Rightarrow> u8 list list \<times> recv_error option \<times> u8 list" where
  "receive c staging chunk =
     (let staging = staging @ chunk in
      if max_frame c + HEADER_LEN < length staging then ([], Some (StagingOverflow (length staging)), staging)
      else (let (ps, e, b) = drain c staging in (ps, map_option Framing e, b)))"

lemma feed_append:
  assumes "feed c buf = (Ok (Some p), b)"
  shows "feed c (buf @ chunk) = (Ok (Some p), b @ chunk)"
proof -
  obtain h where h: "length h = HEADER_LEN" "buf = h @ p @ b" "hd h = PROTOCOL_VERSION"
    "unat (from_le_bytes (take 4 (tl h)) :: u32) = length p" "length p \<le> max_frame c"
    using feed_Some [OF assms] by blast
  moreover have "take 4 (tl (h @ xs)) = take 4 (tl h)" for xs
    using h(1) by (cases h) (auto simp: HEADER_LEN_def)
  moreover have "hd (h @ xs) = hd h" for xs
    using h(1) by (cases h) (auto simp: HEADER_LEN_def)
  ultimately show ?thesis by (simp add: feed_def Let_def)
qed

lemma feed_None: "feed c buf = (Ok None, b) \<Longrightarrow> b = buf"
  by (auto simp: feed_def Let_def split: if_splits)

lemma drain_append_aux:
  assumes "drain c buf = (ps, None, b)"
  shows "drain c (buf @ chunk) = (let (qs, e, r) = drain c (b @ chunk) in (ps @ qs, e, r))"
  using assms
proof (induction c buf arbitrary: ps b rule: drain.induct)
  case (1 c buf)
  show ?case
  proof (cases "feed c buf")
    case (Pair r b')
    show ?thesis
    proof (cases r)
      case (Inl e)
      with 1 Pair show ?thesis by (simp add: drain.simps [of c buf])
    next
      case r: (Inr opt)
      show ?thesis
      proof (cases opt)
        case None
        with 1(2) Pair r feed_None [of c buf b'] show ?thesis
          by (auto simp: drain.simps [of c buf] split: prod.split)
      next
        case (Some p)
        obtain qs where d: "drain c b' = (qs, None, b)" and "ps = p # qs"
          using 1(2) Pair r Some by (auto simp: drain.simps [of c buf] split: prod.splits)
        moreover have "drain c (b' @ chunk) = (let (qs', e, r) = drain c (b @ chunk) in (qs @ qs', e, r))"
          by (rule 1(1) [OF _ _ _ d]) (use Pair r Some in auto)
        ultimately show ?thesis
          using Pair r Some feed_append [of c buf p b' chunk]
          by (auto simp: drain.simps [of c "buf @ chunk"] split: prod.split)
      qed
    qed
  qed
qed

lemma drain_frame:
  assumes "frame c q = Ok f" and "max_frame c < 2 ^ 32"
  shows "drain c (f @ rest) = (let (ps, e, b) = drain c rest in (q # ps, e, b))"
  using feed_frame [OF assms, of rest] by (subst drain.simps) simp

lemma drain_frames:
  assumes "max_frame c < 2 ^ 32" and "\<forall>q \<in> set (p # ps). frame c q = Ok (fr q)" and "k < length (fr p)"
  shows "drain c (concat (map fr ps) @ take k (fr p)) = (ps, None, take k (fr p))"
  using assms(2)
proof (induction ps)
  case Nil
  then show ?case
    using feed_partial [of c p "fr p", OF _ assms(1,3)] by (subst drain.simps) simp
next
  case (Cons q ps)
  then show ?case
    using drain_frame [of c q "fr q", OF _ assms(1)] by simp
qed

lemma prefix_of_frames:
  assumes "concat (map f ps) @ take k (f p) = buf @ chunk" and "k < length (f p)"
    and "\<forall>q \<in> set ps. f q \<noteq> []"
  shows "\<exists>j q k'. buf = concat (map f (take j ps)) @ take k' (f q) \<and> k' < length (f q) \<and> q \<in> set (p # ps)"
  using assms
proof (induction ps arbitrary: buf)
  case Nil
  then have eq: "take k (f p) = buf @ chunk" by simp
  then have "length buf \<le> k"
    by (metis le_add1 length_append length_take min.boundedE)
  moreover from eq have "buf = take (length buf) (take k (f p))" by simp
  ultimately have "buf = take (length buf) (f p)" "length buf < length (f p)"
    using Nil.prems(2) by (simp_all add: min_absorb1)
  then show ?case by (intro exI [of _ 0] exI [of _ p] exI [of _ "length buf"]) simp
next
  case (Cons q ps)
  show ?case
  proof (cases "length buf < length (f q)")
    case True
    with arg_cong [OF Cons.prems(1), of "take (length buf)"] have "buf = take (length buf) (f q)"
      by simp
    with True show ?thesis by (intro exI [of _ 0] exI [of _ q] exI [of _ "length buf"]) simp
  next
    case False
    with Cons.prems(1) obtain buf' where b: "buf = f q @ buf'"
      by (auto simp: append_eq_append_conv2)
    with Cons.prems Cons.IH [of buf'] obtain j q' k' where
      "buf' = concat (map f (take j ps)) @ take k' (f q')" "k' < length (f q')" "q' \<in> set (p # ps)"
      by auto
    with b show ?thesis by (intro exI [of _ "Suc j"] exI [of _ q'] exI [of _ k']) auto
  qed
qed

section \<open>Properties\<close>

text \<open>A calendar of days and microseconds for concrete runs.\<close>

definition demo_chrono :: chrono where
  "demo_chrono = \<lparr> timestamp_micros = (\<lambda>t. word_of_int (t div 1000)),
     from_timestamp_micros = (\<lambda>w. Some (sint w * 1000)),
     num_days_from_ce = word_of_int, date_month = (\<lambda>d. 1), date_day = (\<lambda>d. 1),
     from_num_days_from_ce = (\<lambda>w. Some (sint w)) \<rparr>"

definition demo_request :: request where
  "demo_request = \<lparr> rq_id = 7, rq_op = OpInsert, rq_table = ''t'', rq_row_id = None,
     rq_values = Some [(''a'', VInt64 5), (''b'', VArray [VString ''x'', VTimestamp 3000])] \<rparr>"

definition demo_response :: response where
  "demo_response = response_ok 7 [\<lparr> rv_id = 1, rv_values = [(''a'', VJson (JArray [JNull]))] \<rparr>]"

text \<open>
  C19: Every request, batch and atomic batch within the decoder's limits survives the wire: if
  it encodes, then feeding the frame, with anything behind it, pops exactly that frame and leaves
  the rest, and decoding the payload returns the message with its kind.
\<close>

theorem incoming_roundtrip:
  assumes "incoming_wire chr m" and "max_frame c < 2 ^ 32" and "encode_incoming chr c m = Ok f"
  shows "\<exists>payload. feed c (f @ rest) = (Ok (Some payload), rest) \<and> decode_incoming chr payload = Ok m"
  using assms feed_frame [of c "w_incoming chr m" f rest]
    decode_all_wire [OF incoming_codec.codec_axioms, of chr m]
  by (auto simp: encode_incoming_frame decode_incoming_def)

lemma demo_request_wire: "request_wire demo_chrono demo_request"
  by (simp add: request_wire_def demo_request_def map_wire_def str_wire_def str_ok_def as_bytes_def
      byte_of_char_def demo_chrono_def)

definition demo_codec :: frame_codec where
  "demo_codec = \<lparr> max_frame = 100 \<rparr>"

theorem incoming_roundtrip_witness:
  "\<exists>f. encode_incoming demo_chrono demo_codec (Single demo_request) = Ok f \<and>
     (\<exists>payload. feed demo_codec (f @ [2, 0]) = (Ok (Some payload), [2, 0]) \<and>
        decode_incoming demo_chrono payload = Ok (Single demo_request))"
proof -
  have "is_ok (encode_incoming demo_chrono demo_codec (Single demo_request))"
    by (simp add: encode_incoming_frame is_ok_frame demo_codec_def demo_request_def w_request_def
        w_map_def w_str_def w_len_def)
  then obtain f where f: "encode_incoming demo_chrono demo_codec (Single demo_request) = Ok f"
    by (auto simp: is_ok_iff)
  with incoming_roundtrip [OF _ _ f, of "[2, 0]"] demo_request_wire show ?thesis
    by (auto simp: demo_codec_def)
qed

definition row_views :: "(u64 \<times> row_values) list \<Rightarrow> row_view list" where
  "row_views rows = map (\<lambda>(rid, m). \<lparr> rv_id = rid, rv_values = m \<rparr>) rows"

lemma w_response_borrowed_eq:
  "w_response_borrowed chr i rows None = w_response chr (response_ok i (row_views rows))"
  by (simp add: w_response_def w_response_borrowed_def response_ok_def row_views_def o_def
      w_row_view_def split_def)

text \<open>
  C36: A response within the decoder's limits survives the wire: the frame is popped whole and
  decodes to the response. The encoder that borrows its rows from the table produces the same
  bytes as building the response first, so it has the same guarantee.
\<close>

theorem response_roundtrip:
  assumes "response_wire chr r" and "max_frame c < 2 ^ 32" and "encode_response chr c r = Ok f"
  shows "(\<exists>payload. feed c (f @ rest) = (Ok (Some payload), rest) \<and> decode_response chr payload = Ok r) \<and>
         (r = response_ok i (row_views rows) \<longrightarrow> encode_ok_borrowed chr c i rows = Ok f)"
  using assms feed_frame [of c "KIND_RESPONSE # w_response chr r" f rest]
    decode_all_wire [OF response_payload.codec_axioms, of chr r]
  by (auto simp: encode_response_def decode_response_def encode_ok_borrowed_def w_response_borrowed_eq)

lemma demo_response_wire: "response_wire demo_chrono demo_response"
  by (simp add: response_wire_def demo_response_def response_ok_def map_wire_def str_wire_def str_ok_def
      as_bytes_def byte_of_char_def)

theorem response_roundtrip_witness:
  "\<exists>f. encode_response demo_chrono demo_codec demo_response = Ok f \<and>
     (\<exists>payload. feed demo_codec (f @ [2]) = (Ok (Some payload), [2]) \<and>
        decode_response demo_chrono payload = Ok demo_response) \<and>
     encode_ok_borrowed demo_chrono demo_codec 7 [(1, [(''a'', VJson (JArray [JNull]))])] = Ok f"
proof -
  have "is_ok (encode_response demo_chrono demo_codec demo_response)"
    by (simp add: encode_response_def is_ok_frame demo_codec_def demo_response_def response_ok_def
        w_response_def w_row_view_def w_error_def w_map_def w_str_def w_len_def)
  then obtain f where f: "encode_response demo_chrono demo_codec demo_response = Ok f"
    by (auto simp: is_ok_iff)
  have "max_frame demo_codec < 2 ^ 32" by (simp add: demo_codec_def)
  with response_roundtrip [OF demo_response_wire _ f, of "[2]" 7 "[(1, [(''a'', VJson (JArray [JNull]))])]"] f
  show ?thesis by (auto simp: demo_response_def row_views_def)
qed

text \<open>
  The fuel of the decoders is enough: whatever the bytes, more fuel gives the same value, and
  neither decoder of a payload ever reports that it ran out. The model has no stack: in the code
  \<open>value()\<close> and \<open>json()\<close> call themselves once per level of nesting without a limit on the depth, so a
  payload nested deeply enough exhausts the stack of the thread and aborts the process.
\<close>

theorem decoder_total:
  "decode_incoming chr bs \<noteq> Err OutOfFuel \<and> decode_response chr bs \<noteq> Err OutOfFuel \<and>
   rd_value (Suc (length bs) + k) chr bs = rd_val chr bs"
proof -
  have "fuel_ok (length bs) (rd_bind (expect_kind KIND_RESPONSE) (\<lambda>_. rd_response chr))
          (rd_bind (expect_kind KIND_RESPONSE) (\<lambda>_. rd_response chr))"
    unfolding expect_kind_def by (intro fuel_ok_intros fuel_ok_response fuel_ok_fail; simp)
  then have "decode_response chr bs \<noteq> Err OutOfFuel"
    unfolding decode_response_def by (rule decode_all_fuel)
  moreover have "decode_incoming chr bs \<noteq> Err OutOfFuel"
    unfolding decode_incoming_def by (rule decode_all_fuel [OF fuel_ok_incoming])
  moreover have "rd_value (Suc (length bs) + k) chr bs = rd_val chr bs"
    by (rule rd_val_fuel) simp
  ultimately show ?thesis by blast
qed

text \<open>
  How the network cuts the stream does not matter: when the frames of a first part of the
  stream have been popped and a rest is kept, popping the frames of the rest with the next bytes
  gives together what one pass over all the bytes gives. For a sequence of whole frames and a
  proper prefix of another, the pass returns the payloads in order and keeps the prefix.
\<close>

theorem stream_reassembly:
  assumes "max_frame c < 2 ^ 32" and "\<forall>q \<in> set (p # ps). frame c q = Ok (fr q)" and "k < length (fr p)"
    and "concat (map fr ps) @ take k (fr p) = buf @ chunk"
  shows "\<exists>ps1 ps2 b. drain c buf = (ps1, None, b) \<and>
           drain c (b @ chunk) = (ps2, None, take k (fr p)) \<and> ps = ps1 @ ps2"
proof -
  have "\<forall>q \<in> set ps. fr q \<noteq> []" using assms(2) by (auto simp: frame_def split: if_splits)
  from prefix_of_frames [OF assms(4,3) this] obtain j q k' where
    b: "buf = concat (map fr (take j ps)) @ take k' (fr q)" "k' < length (fr q)" "q \<in> set (p # ps)"
    by blast
  have "drain c buf = (take j ps, None, take k' (fr q))"
    unfolding b(1) using assms(2) b(2,3) by (intro drain_frames assms(1)) (auto dest: in_set_takeD)
  moreover from drain_append_aux [OF this, of chunk] drain_frames [OF assms(1,2,3)]
  have "drain c (take k' (fr q) @ chunk) = (drop j ps, None, take k (fr p))"
    unfolding assms(4) by (auto simp: Let_def split: prod.splits) (metis append_eq_conv_conj append_take_drop_id same_append_eq)
  ultimately show ?thesis by (metis append_take_drop_id)
qed

theorem stream_reassembly_witness:
  "\<exists>ps1 ps2 b.
     drain demo_codec [2, 1, 0, 0, 0, 9, 2, 2] = (ps1, None, b) \<and>
     drain demo_codec (b @ [0, 0, 0, 7, 8, 2, 1]) = (ps2, None, [2, 1]) \<and> [[9], [7, 8]] = ps1 @ ps2"
proof -
  define fr :: "u8 list \<Rightarrow> u8 list" where
    "fr q = (case frame demo_codec q of Inr f \<Rightarrow> f | Inl _ \<Rightarrow> [])" for q
  have f: "frame demo_codec [9] = Ok [2, 1, 0, 0, 0, 9]" "frame demo_codec [7, 8] = Ok [2, 2, 0, 0, 0, 7, 8]"
    "frame demo_codec [4] = Ok [2, 1, 0, 0, 0, 4]"
    by code_simp+
  then have fr: "fr [9] = [2, 1, 0, 0, 0, 9]" "fr [7, 8] = [2, 2, 0, 0, 0, 7, 8]" "fr [4] = [2, 1, 0, 0, 0, 4]"
    by (simp_all add: fr_def)
  show ?thesis
    using f stream_reassembly [of demo_codec "[4]" "[[9], [7, 8]]" fr 2
        "[2, 1, 0, 0, 0, 9, 2, 2]" "[0, 0, 0, 7, 8, 2, 1]"]
    by (simp add: fr demo_codec_def)
qed

text \<open>
  The bound on the staging buffer counts every byte that was read, complete frames included:
  two valid frames that arrive in one read can close the connection.
\<close>

lemma pipelined_frames_overflow:
  assumes "frame c p = Ok f" and "length p = max_frame c" and "g \<noteq> []"
  shows "receive c [] (f @ g) = ([], Some (StagingOverflow (length f + length g)), f @ g)"
  using assms by (auto simp: receive_def frame_def HEADER_LEN_def split: if_splits)

text \<open>What encodes but does not decode: an array beyond the decoder's limit.\<close>

lemma long_array_rejected:
  "65536 < length items \<Longrightarrow> length items < 2 ^ 32 \<Longrightarrow>
   rd_val chr (w_value chr (VArray items) @ rest) = Err (ArrayTooLarge (length items))"
  by (simp add: rd_val_def rd_simps wire_simps)

end
