(* ===== verification/Sharding.thy ===== *)
theory Sharding
  imports Protocol Display
begin

text \<open>
  Server-side routing (\<open>blitz-server/src/server.rs\<close>): a base table may be split over several
  physical tables. An insert goes to the shard its key column hashes to; the row identifier the
  client receives carries the shard in its high byte, so that later operations find the row
  again. The texts of dates and JSON and the microseconds of a timestamp are parameters.
\<close>

section \<open>The hash of a value\<close>

record hash_env =
  he_chrono :: chrono
  he_displays :: displays

definition FNV_OFF :: u64 where "FNV_OFF = 0xcbf29ce484222325"
definition FNV_PRIME :: u64 where "FNV_PRIME = 0x100000001b3"

fun fnv_mix :: "u64 \<Rightarrow> u8 list \<Rightarrow> u64" where
  "fnv_mix h [] = h"
| "fnv_mix h (b # bs) = fnv_mix ((h XOR ucast b) * FNV_PRIME) bs"

definition IDEM_SHARDS :: nat where "IDEM_SHARDS = 16"

definition idem_shard :: "string \<Rightarrow> nat" where
  "idem_shard key = unat (fnv_mix FNV_OFF (as_bytes key) AND of_nat (IDEM_SHARDS - 1))"

fun shard_hash :: "hash_env \<Rightarrow> val \<Rightarrow> u64" where
  "shard_hash e (VBoolean b) = fnv_mix FNV_OFF [if b then 1 else 0]"
| "shard_hash e (VInt8 n) = fnv_mix FNV_OFF [n]"
| "shard_hash e (VInt16 n) = fnv_mix FNV_OFF (u16_bytes n)"
| "shard_hash e (VInt32 n) = fnv_mix FNV_OFF (u32_bytes n)"
| "shard_hash e (VInt64 n) = fnv_mix FNV_OFF (u64_bytes n)"
| "shard_hash e (VUInt8 n) = fnv_mix FNV_OFF [n]"
| "shard_hash e (VUInt16 n) = fnv_mix FNV_OFF (u16_bytes n)"
| "shard_hash e (VUInt32 n) = fnv_mix FNV_OFF (u32_bytes n)"
| "shard_hash e (VUInt64 n) = fnv_mix FNV_OFF (u64_bytes n)"
| "shard_hash e (VFloat32 n) = fnv_mix FNV_OFF (u32_bytes n)"
| "shard_hash e (VFloat64 n) = fnv_mix FNV_OFF (u64_bytes n)"
| "shard_hash e (VDecimal s) = fnv_mix FNV_OFF (as_bytes s)"
| "shard_hash e (VString s) = fnv_mix FNV_OFF (as_bytes s)"
| "shard_hash e (VBytes b) = fnv_mix FNV_OFF b"
| "shard_hash e (VUuid u) = fnv_mix FNV_OFF (uuid_bytes u)"
| "shard_hash e (VTimestamp t) = fnv_mix FNV_OFF (u64_bytes (timestamp_micros (he_chrono e) t))"
| "shard_hash e (VDate d) = fnv_mix FNV_OFF (as_bytes (date_disp (he_displays e) d))"
| "shard_hash e (VJson j) = fnv_mix FNV_OFF (as_bytes (json_disp (he_displays e) j))"
| "shard_hash e (VArray a) = fnv_mix FNV_OFF (concat (map (\<lambda>v. u64_bytes (shard_hash e v)) a))"
| "shard_hash e VNull = fnv_mix FNV_OFF (as_bytes ''null'')"

section \<open>Tables and identifiers\<close>

record shard_spec =
  ss_shards :: nat
  ss_column :: string

type_synonym table_shards = "(string, shard_spec) hmap"

definition shard_spec_new :: "nat \<Rightarrow> string \<Rightarrow> shard_spec" where
  "shard_spec_new n c = \<lparr> ss_shards = max n 1, ss_column = c \<rparr>"

definition SHARD_SHIFT :: nat where "SHARD_SHIFT = 56"
definition LOCAL_MASK :: u64 where "LOCAL_MASK = 0x00FFFFFFFFFFFFFF"

definition shard_count :: "table_shards \<Rightarrow> string \<Rightarrow> nat" where
  "shard_count ts base = max (case hm_get ts base of Some s \<Rightarrow> ss_shards s | None \<Rightarrow> 1) 1"

definition pad2 :: "nat \<Rightarrow> string" where
  "pad2 n = (if n < 10 then CHR ''0'' # nat_text n else nat_text n)"

definition physical_table :: "table_shards \<Rightarrow> string \<Rightarrow> nat \<Rightarrow> string" where
  "physical_table ts base shard =
     (if shard_count ts base \<le> 1 then base else base @ ''_'' @ pad2 shard)"

definition shard_tables :: "table_shards \<Rightarrow> string \<Rightarrow> (nat \<times> string) list" where
  "shard_tables ts base =
     (let n = shard_count ts base in
      if n \<le> 1 then [(0, base)] else map (\<lambda>s. (s, physical_table ts base s)) [0..<n])"

fun rsplit_once :: "char \<Rightarrow> string \<Rightarrow> (string \<times> string) option" where
  "rsplit_once c [] = None"
| "rsplit_once c (x # xs) =
     (case rsplit_once c xs of
        Some (u, v) \<Rightarrow> Some (x # u, v)
      | None \<Rightarrow> if x = c then Some ([], xs) else None)"

definition ascii_digit :: "char \<Rightarrow> bool" where
  "ascii_digit c \<longleftrightarrow> 48 \<le> (of_char c :: nat) \<and> (of_char c :: nat) \<le> 57"

definition base_of_physical :: "table_shards \<Rightarrow> string \<Rightarrow> string" where
  "base_of_physical ts physical =
     (case rsplit_once CHR ''_'' physical of
        None \<Rightarrow> physical
      | Some (base, _) \<Rightarrow>
          (case hm_get ts base of
             None \<Rightarrow> physical
           | Some spec \<Rightarrow>
               if 1 < ss_shards spec \<and> length base + 1 < length physical \<and>
                  list_all ascii_digit (drop (length base + 1) physical)
               then base else physical))"

text \<open>\<open>str::parse::<usize>\<close>: an optional plus sign and decimal digits, below \<open>2 ^ 64\<close>.\<close>

fun digits_value :: "string \<Rightarrow> nat \<Rightarrow> nat option" where
  "digits_value [] acc = Some acc"
| "digits_value (c # cs) acc =
     (if ascii_digit c
      then (let n = acc * 10 + (of_char c - 48) in if n < 2 ^ 64 then digits_value cs n else None)
      else None)"

definition parse_usize :: "string \<Rightarrow> nat option" where
  "parse_usize s =
     (case s of
        [] \<Rightarrow> None
      | c # cs \<Rightarrow> if c = CHR ''+'' then (if cs = [] then None else digits_value cs 0) else digits_value s 0)"

definition shard_of_physical :: "table_shards \<Rightarrow> string \<Rightarrow> string \<Rightarrow> nat" where
  "shard_of_physical ts base physical =
     (if shard_count ts base \<le> 1 \<or> physical = base then 0
      else (case rsplit_once CHR ''_'' physical of
              None \<Rightarrow> 0
            | Some (_, s) \<Rightarrow> (case parse_usize s of Some n \<Rightarrow> n | None \<Rightarrow> 0)))"

definition compose_id :: "nat \<Rightarrow> u64 \<Rightarrow> u64" where
  "compose_id shard local = push_bit SHARD_SHIFT ((of_nat shard :: u64) AND 0xFF) OR (local AND LOCAL_MASK)"

definition split_id :: "u64 \<Rightarrow> nat \<times> u64" where
  "split_id i = (unat (drop_bit SHARD_SHIFT i), i AND LOCAL_MASK)"

definition route_insert :: "hash_env \<Rightarrow> table_shards \<Rightarrow> string \<Rightarrow> row_values \<Rightarrow> string \<times> nat" where
  "route_insert e ts base vals =
     (let n = shard_count ts base in
      if n \<le> 1 then (base, 0)
      else (let shard = (case hm_get ts base of
                           Some spec \<Rightarrow>
                             unat (shard_hash e (case hm_get vals (ss_column spec) of Some v \<Rightarrow> v | None \<Rightarrow> VNull)
                                   mod of_nat n)
                         | None \<Rightarrow> 0) in
            (physical_table ts base shard, shard)))"

definition route_id :: "table_shards \<Rightarrow> string \<Rightarrow> u64 \<Rightarrow> string \<times> u64" where
  "route_id ts base i =
     (let n = shard_count ts base in
      if n \<le> 1 then (base, i)
      else (let (shard, local) = split_id i in (physical_table ts base (shard mod n), local)))"

section \<open>Identifiers carry their shard\<close>

lemma local_mask: "(w :: u64) AND LOCAL_MASK = take_bit 56 w"
  by (simp add: LOCAL_MASK_def take_bit_eq_mask mask_numeral)

lemma byte_mask: "(w :: u64) AND 0xFF = take_bit 8 w"
  by (simp add: take_bit_eq_mask mask_numeral)

lemma split_compose: "split_id (compose_id shard local) = (shard mod 256, take_bit 56 local)"
proof -
  have "drop_bit 56 (compose_id shard local) = (take_bit 8 (of_nat shard) :: u64)"
    unfolding compose_id_def SHARD_SHIFT_def local_mask byte_mask
    by (rule bit_eqI) (auto simp: bit_simps dest: bit_imp_le_length)
  moreover have "take_bit 56 (compose_id shard local) = take_bit 56 local"
    unfolding compose_id_def SHARD_SHIFT_def local_mask byte_mask
    by (rule bit_eqI) (auto simp: bit_simps)
  moreover have "unat (take_bit 8 (of_nat shard) :: u64) = shard mod 256"
    unfolding unsigned_take_bit_eq unat_of_nat by (simp add: take_bit_eq_mod mod_mod_cancel)
  ultimately show ?thesis by (simp add: split_id_def SHARD_SHIFT_def local_mask)
qed

lemma take_bit_local: "unat (local :: u64) < 2 ^ 56 \<Longrightarrow> take_bit 56 local = local"
  by (metis take_bit_nat_eq_self_iff unsigned_take_bit_eq word_eq_iff_unsigned)

lemma compose_split: "compose_id (fst (split_id i)) (snd (split_id i)) = i"
  unfolding compose_id_def split_id_def SHARD_SHIFT_def local_mask byte_mask
  by (rule bit_eqI) (auto simp: bit_simps dest: bit_imp_le_length)

lemma compose_unsharded: "unat local < 2 ^ 56 \<Longrightarrow> compose_id 0 local = local"
  by (simp add: compose_id_def local_mask take_bit_local)

lemma unat_mod_of_nat: "0 < n \<Longrightarrow> n < 2 ^ 64 \<Longrightarrow> unat (w mod of_nat n :: u64) < n"
  by (simp add: unat_mod unat_of_nat)

lemma route_insert_shard:
  assumes "route_insert e ts base vals = (physical, shard)" and "shard_count ts base < 2 ^ 64"
  shows "shard < shard_count ts base \<and> physical = physical_table ts base shard"
proof -
  have "1 \<le> shard_count ts base" by (simp add: shard_count_def)
  then show ?thesis
    using assms by (auto simp: route_insert_def Let_def physical_table_def unat_mod_of_nat split: if_splits option.splits)
qed

text \<open>Names of physical tables give back the base and the shard.\<close>

lemma rsplit_once_append: "c \<notin> set v \<Longrightarrow> rsplit_once c (u @ c # v) = Some (u, v)"
proof -
  have "c \<notin> set v \<Longrightarrow> rsplit_once c v = None" for v by (induction v) auto
  then show "c \<notin> set v \<Longrightarrow> rsplit_once c (u @ c # v) = Some (u, v)" by (induction u) auto
qed

lemma ascii_digit_digit [simp]: "d < 10 \<Longrightarrow> ascii_digit (digit d)"
  by (simp add: ascii_digit_def digit_def)

lemma nat_text_digits: "list_all ascii_digit (nat_text n)"
proof (induction n rule: nat_text.induct)
  case (1 n)
  then show ?case by (subst nat_text.simps) simp
qed

lemma digits_value_append:
  "digits_value (u @ v) acc = (case digits_value u acc of None \<Rightarrow> None | Some n \<Rightarrow> digits_value v n)"
  by (induction u arbitrary: acc) (auto simp: Let_def)

lemma digits_value_nat_text: "n < 2 ^ 64 \<Longrightarrow> digits_value (nat_text n) 0 = Some n"
proof (induction n rule: nat_text.induct)
  case (1 n)
  show ?case
  proof (cases "n < 10")
    case True
    then show ?thesis by (subst nat_text.simps) (simp add: ascii_digit_def digit_def)
  next
    case False
    have "n div 10 * 10 + n mod 10 = n" by simp
    with 1 False show ?thesis
      by (subst nat_text.simps) (simp add: digits_value_append ascii_digit_def digit_def del: mult_div_mod_eq div_mult_mod_eq)
  qed
qed

lemma pad2_digits: "list_all ascii_digit (pad2 n)"
  using nat_text_digits [of n] by (simp add: pad2_def ascii_digit_def)

lemma pad2_nonempty [simp]: "pad2 n \<noteq> []"
  by (simp add: pad2_def)

lemma digits_no_mark: "list_all ascii_digit s \<Longrightarrow> CHR ''_'' \<notin> set s \<and> CHR ''+'' \<notin> set s"
  by (induction s) (auto simp: ascii_digit_def)

lemma parse_usize_pad2: "n < 2 ^ 64 \<Longrightarrow> parse_usize (pad2 n) = Some n"
proof -
  assume n: "n < 2 ^ 64"
  have "digits_value (pad2 n) 0 = Some n"
    using digits_value_nat_text [OF n] by (simp add: pad2_def ascii_digit_def)
  then show ?thesis
    using digits_no_mark [OF pad2_digits [of n]] by (cases "pad2 n") (auto simp: parse_usize_def)
qed

lemma base_of_physical_table:
  assumes "hm_get ts base = Some spec" and "1 < ss_shards spec"
  shows "base_of_physical ts (physical_table ts base shard) = base"
proof -
  have "rsplit_once CHR ''_'' (base @ CHR ''_'' # pad2 shard) = Some (base, pad2 shard)"
    using digits_no_mark [OF pad2_digits [of shard]] by (simp add: rsplit_once_append)
  then show ?thesis
    using assms pad2_digits [of shard] by (simp add: base_of_physical_def physical_table_def shard_count_def)
qed

lemma shard_of_physical_table:
  assumes "1 < shard_count ts base" and "shard < 2 ^ 64"
  shows "shard_of_physical ts base (physical_table ts base shard) = shard"
proof -
  have "rsplit_once CHR ''_'' (base @ CHR ''_'' # pad2 shard) = Some (base, pad2 shard)"
    using digits_no_mark [OF pad2_digits [of shard]] by (simp add: rsplit_once_append)
  then show ?thesis
    using assms parse_usize_pad2 [of shard] by (simp add: shard_of_physical_def physical_table_def)
qed

lemma physical_table_inject:
  "1 < shard_count ts base \<Longrightarrow> a < 2 ^ 64 \<Longrightarrow> b < 2 ^ 64 \<Longrightarrow>
   physical_table ts base a = physical_table ts base b \<longleftrightarrow> a = b"
  using shard_of_physical_table by metis

lemma compose_id_inject:
  assumes "compose_id s i = compose_id s' i'" and "s < 256" "s' < 256" "unat i < 2 ^ 56" "unat i' < 2 ^ 56"
  shows "s = s' \<and> i = i'"
proof -
  have "(s mod 256, take_bit 56 i) = (s' mod 256, take_bit 56 i')"
    unfolding split_compose [symmetric] by (simp only: assms(1))
  with assms(2-) show ?thesis by (simp add: take_bit_local)
qed

text \<open>
  A routed row is found again: with at most 256 shards and engine identifiers below
  \<open>2 ^ 56\<close>, the identifier composed for an inserted row routes every later operation to the
  physical table and the local identifier of the insert, and the reads that fan out visit that
  table under its shard.
\<close>

lemma routed_row_found:
  assumes "route_insert e ts base vals = (physical, shard)" and "shard_count ts base \<le> 256"
    and "unat local < 2 ^ 56"
  shows "route_id ts base (compose_id shard local) = (physical, local) \<and>
         (shard, physical) \<in> set (shard_tables ts base)"
proof -
  have shard: "shard < shard_count ts base" "physical = physical_table ts base shard"
    using route_insert_shard assms by auto
  show ?thesis
  proof (cases "shard_count ts base \<le> 1")
    case True
    with shard have zero: "shard = 0" by linarith
    show ?thesis using True shard(2) assms(3)
      by (simp add: zero route_id_def shard_tables_def physical_table_def compose_unsharded)
  next
    case False
    then show ?thesis using shard assms
      by (auto simp: route_id_def shard_tables_def split_compose take_bit_local Let_def)
  qed
qed

definition demo_hash_env :: hash_env where
  "demo_hash_env = \<lparr> he_chrono = demo_chrono,
     he_displays = \<lparr> f32_disp = (\<lambda>_. ''f''), f64_disp = (\<lambda>_. ''f''), uuid_disp = (\<lambda>_. ''u''),
       time_disp = int_text, date_disp = int_text, json_disp = (\<lambda>_. ''j'') \<rparr> \<rparr>"

definition demo_shards :: "nat \<Rightarrow> table_shards" where
  "demo_shards n = [(''t'', shard_spec_new n ''k'')]"

lemma shard_count_demo [simp]: "1 \<le> n \<Longrightarrow> shard_count (demo_shards n) ''t'' = n"
  by (simp add: shard_count_def demo_shards_def shard_spec_new_def)

lemma route_demo_257:
  "route_insert demo_hash_env (demo_shards 257) ''t'' [(''k'', VUInt8 46)] =
     (physical_table (demo_shards 257) ''t'' 256, 256)"
  by (simp add: route_insert_def demo_shards_def shard_count_def shard_spec_new_def
      FNV_OFF_def FNV_PRIME_def)

text \<open>
  More than 256 shards lose rows: the shard is cut to one byte in the identifier, so with 257
  shards a row that was inserted into the last shard is looked for in the first one.
\<close>

theorem more_than_256_shards_lose_rows:
  "\<exists>physical shard. route_insert demo_hash_env (demo_shards 257) ''t'' [(''k'', VUInt8 46)] = (physical, shard) \<and>
     fst (route_id (demo_shards 257) ''t'' (compose_id shard 1)) \<noteq> physical"
proof -
  have "physical_table (demo_shards 257) ''t'' 0 \<noteq> physical_table (demo_shards 257) ''t'' 256"
    by (simp add: physical_table_inject)
  then show ?thesis
    using route_demo_257 by (simp add: route_id_def split_compose Let_def)
qed

end
