(* ===== verification/Durable_Values.thy ===== *)
theory Durable_Values
  imports Display Types_Schema
begin

text \<open>
  The JSON form in which the server writes rows to its log and snapshots
  (\<open>blitz-server/src/durability.rs\<close>): from values to JSON and back, and the schema that recovery
  infers for a table it only knows from its rows. The texts of UUIDs, times and dates and the
  JSON serializer are parameters.
\<close>

section \<open>Values as JSON\<close>

record json_env =
  je_uuid_text :: "128 word \<Rightarrow> string"
  je_rfc3339 :: "int \<Rightarrow> string"
  je_date_text :: "int \<Rightarrow> string"
  je_to_vec :: "json \<Rightarrow> u8 list"

fun value_to_json :: "json_env \<Rightarrow> val \<Rightarrow> json" where
  "value_to_json e VNull = JNull"
| "value_to_json e (VBoolean b) = JBool b"
| "value_to_json e (VInt8 n) = json_of_i64 (scast n)"
| "value_to_json e (VInt16 n) = json_of_i64 (scast n)"
| "value_to_json e (VInt32 n) = json_of_i64 (scast n)"
| "value_to_json e (VInt64 n) = json_of_i64 n"
| "value_to_json e (VUInt8 n) = json_of_u64 (ucast n)"
| "value_to_json e (VUInt16 n) = json_of_u64 (ucast n)"
| "value_to_json e (VUInt32 n) = json_of_u64 (ucast n)"
| "value_to_json e (VUInt64 n) = json_of_u64 n"
| "value_to_json e (VFloat32 n) = json_of_f64 (f32_to_f64 n)"
| "value_to_json e (VFloat64 n) = json_of_f64 n"
| "value_to_json e (VDecimal s) = JString s"
| "value_to_json e (VString s) = JString s"
| "value_to_json e (VBytes b) = JArray (map (\<lambda>x. json_of_u64 (ucast x)) b)"
| "value_to_json e (VUuid u) = JString (je_uuid_text e u)"
| "value_to_json e (VTimestamp t) = JString (je_rfc3339 e t)"
| "value_to_json e (VDate d) = JString (je_date_text e d)"
| "value_to_json e (VJson j) = j"
| "value_to_json e (VArray items) = JArray (map (value_to_json e) items)"

fun json_to_value :: "json \<Rightarrow> val" where
  "json_to_value JNull = VNull"
| "json_to_value (JBool b) = VBoolean b"
| "json_to_value (JNumber n) =
     (case number_as_i64 n of
        Some i \<Rightarrow> VInt64 i
      | None \<Rightarrow>
          (case number_as_u64 n of
             Some u \<Rightarrow> VUInt64 u
           | None \<Rightarrow> (case number_as_f64 n of Some f \<Rightarrow> VFloat64 f | None \<Rightarrow> VNull)))"
| "json_to_value (JString s) = VString s"
| "json_to_value (JArray items) = VJson (JArray items)"
| "json_to_value (JObject kvs) = VJson (JObject kvs)"

text \<open>A JSON object is kept by ascending key, as \<open>serde_json::Map\<close> iterates.\<close>

definition json_object :: "(string \<times> json) list \<Rightarrow> json" where
  "json_object kvs = JObject (sort_key fst kvs)"

definition values_to_json :: "json_env \<Rightarrow> row_values \<Rightarrow> json" where
  "values_to_json e vals = json_object (map (\<lambda>(k, v). (k, value_to_json e v)) vals)"

definition values_to_json_bytes :: "json_env \<Rightarrow> row_values \<Rightarrow> u8 list" where
  "values_to_json_bytes e vals = je_to_vec e (values_to_json e vals)"

definition json_to_values :: "(string \<times> json) list \<Rightarrow> row_values" where
  "json_to_values kvs = map (\<lambda>(k, j). (k, json_to_value j)) kvs"

section \<open>Inferred schemas\<close>

fun infer_column_type :: "val \<Rightarrow> column_type" where
  "infer_column_type (VBoolean _) = TBoolean"
| "infer_column_type (VInt8 _) = TInt8"
| "infer_column_type (VInt16 _) = TInt16"
| "infer_column_type (VInt32 _) = TInt32"
| "infer_column_type (VInt64 _) = TInt64"
| "infer_column_type (VUInt8 _) = TUInt8"
| "infer_column_type (VUInt16 _) = TUInt16"
| "infer_column_type (VUInt32 _) = TUInt32"
| "infer_column_type (VUInt64 _) = TUInt64"
| "infer_column_type (VFloat32 _) = TFloat32"
| "infer_column_type (VFloat64 _) = TFloat64"
| "infer_column_type _ = TString"

definition infer_schema :: "table_id \<Rightarrow> string \<Rightarrow> row_values \<Rightarrow> table_schema" where
  "infer_schema tid name sample =
     fold (\<lambda>k s. with_column s (column_nullable (column_new k
             (infer_column_type (case hm_get sample k of Some v \<Rightarrow> v | None \<Rightarrow> VNull)))))
       (sort (filter (\<lambda>k. k \<noteq> ''id'') (hm_keys sample)))
       (with_column (schema_new tid name) (column_nullable (column_new ''id'' TInt64)))"

section \<open>What survives\<close>

text \<open>The values whose JSON form reads back as the value itself.\<close>

fun durable :: "val \<Rightarrow> bool" where
  "durable VNull = True"
| "durable (VBoolean b) = True"
| "durable (VInt64 n) = True"
| "durable (VUInt64 n) = (sint n < 0)"
| "durable (VFloat64 n) = f64_finite n"
| "durable (VString s) = True"
| "durable (VJson j) = (case j of JArray _ \<Rightarrow> True | JObject _ \<Rightarrow> True | _ \<Rightarrow> False)"
| "durable _ = False"

text \<open>
  The durable form keeps exactly some values: a value read back from the log or a snapshot
  is the one written if and only if it is null, a boolean, a 64-bit signed integer, an unsigned
  one beyond their range, a finite double, a string, or a JSON array or object. Every other value
  comes back as a different one.
\<close>

theorem durable_iff_roundtrip: "json_to_value (value_to_json e v) = v \<longleftrightarrow> durable v"
proof (cases v)
  case (VJson j)
  then show ?thesis by (cases j) (auto split: option.splits)
qed (auto simp: json_of_i64_def json_of_u64_def json_of_f64_def split: option.splits)

lemma with_column_columns [simp]: "ts_columns (with_column s c) = ts_columns s @ [c]"
  by (simp add: with_column_def)

lemma fold_with_column:
  "ts_columns (fold (\<lambda>k s. with_column s (f k)) ks s) = ts_columns s @ map f ks"
  by (induction ks arbitrary: s) auto

lemma infer_schema_columns:
  assumes "c \<in> set (ts_columns (infer_schema tid name sample))"
  shows "\<not> primary_key c \<and> \<not> col_unique c \<and> nullable c"
  using assms unfolding infer_schema_def fold_with_column
  by (auto simp: schema_new_def column_nullable_def column_new_def)

end
