(* ===== verification/Wal_Log.thy ===== *)
theory Wal_Log
  imports Types_Schema
begin

text \<open>
  The write-ahead log (\<open>blitz-wal/src/log.rs\<close>): the byte format of its header and entries, the
  writer with its 64 KiB buffer in front of the file, and reading the log back. The CRC-32 of
  the \<open>crc32fast\<close> crate is a parameter \<open>crc\<close> of what uses it. The file system is the content
  of the one file: what the buffer has passed on is in the file, and a crash may cut the file
  at any byte.
\<close>

unbundle bit_operations_syntax

section \<open>Format\<close>

definition WAL_MAGIC :: u32 where "WAL_MAGIC = 0x424C4954"
definition WAL_VERSION :: u32 where "WAL_VERSION = 1"
definition WAL_HEADER_SIZE :: nat where "WAL_HEADER_SIZE = 16"
definition ENTRY_HEADER_SIZE :: nat where "ENTRY_HEADER_SIZE = 4 + 8 + 1 + 4 + 8 + 4 + 4"
definition MAX_WAL_SIZE :: nat where "MAX_WAL_SIZE = 64 * 1024 * 1024"

datatype entry_type = EInsert | EUpdate | EDelete | ECommit | ERollback

fun entry_type_u8 :: "entry_type \<Rightarrow> u8" where
  "entry_type_u8 EInsert = 1"
| "entry_type_u8 EUpdate = 2"
| "entry_type_u8 EDelete = 3"
| "entry_type_u8 ECommit = 4"
| "entry_type_u8 ERollback = 5"

definition entry_type_from_u8 :: "u8 \<Rightarrow> entry_type option" where
  "entry_type_from_u8 v =
     (if v = 1 then Some EInsert else if v = 2 then Some EUpdate else if v = 3 then Some EDelete
      else if v = 4 then Some ECommit else if v = 5 then Some ERollback else None)"

record wal_entry =
  we_sequence :: u64
  we_type :: entry_type
  we_table :: string
  we_row_id :: u64
  we_data :: "u8 list"

datatype wal_error =
    UnexpectedEof
  | BadMagic
  | BadTableName
  | ChecksumMismatch u32 u32
  | BadEntryType u8

record wal_header =
  wh_magic :: u32
  wh_version :: u32
  wh_sequence :: u64

definition header_bytes :: "wal_header \<Rightarrow> u8 list" where
  "header_bytes h = u32_bytes (wh_magic h) @ u32_bytes (wh_version h) @ u64_bytes (wh_sequence h)"

definition read_header :: "(wal_error, wal_header) reader" where
  "read_header =
     rd_bind (rd_le UnexpectedEof 4) (\<lambda>magic.
     rd_bind (rd_le UnexpectedEof 4) (\<lambda>version.
     rd_bind (rd_le UnexpectedEof 8) (\<lambda>sequence.
     rd_return \<lparr> wh_magic = magic, wh_version = version, wh_sequence = sequence \<rparr>)))"

record wal_raw =
  wr_magic :: u32
  wr_sequence :: u64
  wr_type :: u8
  wr_table :: string
  wr_row_id :: u64
  wr_data :: "u8 list"
  wr_checksum :: u32

definition compute_checksum :: "(u8 list \<Rightarrow> u32) \<Rightarrow> wal_raw \<Rightarrow> u32" where
  "compute_checksum crc r =
     crc (u64_bytes (wr_sequence r) @ [wr_type r] @ as_bytes (wr_table r) @
          u64_bytes (wr_row_id r) @ wr_data r)"

definition raw_from_entry :: "(u8 list \<Rightarrow> u32) \<Rightarrow> wal_entry \<Rightarrow> wal_raw" where
  "raw_from_entry crc e =
     (let raw = \<lparr> wr_magic = WAL_MAGIC, wr_sequence = we_sequence e, wr_type = entry_type_u8 (we_type e),
                  wr_table = we_table e, wr_row_id = we_row_id e, wr_data = we_data e, wr_checksum = 0 \<rparr> in
      raw \<lparr> wr_checksum := compute_checksum crc raw \<rparr>)"

definition serialized_size :: "wal_raw \<Rightarrow> nat" where
  "serialized_size r = ENTRY_HEADER_SIZE + length (wr_table r) + length (wr_data r)"

text \<open>The pieces that \<open>write_to\<close> hands to the writer, in order.\<close>

definition raw_pieces :: "wal_raw \<Rightarrow> u8 list list" where
  "raw_pieces r =
     [u32_bytes (wr_magic r), u64_bytes (wr_sequence r), [wr_type r],
      u32_bytes (of_nat (length (wr_table r))), as_bytes (wr_table r), u64_bytes (wr_row_id r),
      u32_bytes (of_nat (length (wr_data r))), wr_data r, u32_bytes (wr_checksum r)]"

definition raw_bytes :: "wal_raw \<Rightarrow> u8 list" where
  "raw_bytes r = concat (raw_pieces r)"

definition read_raw :: "(u8 list \<Rightarrow> u32) \<Rightarrow> (wal_error, wal_raw) reader" where
  "read_raw crc =
     rd_bind (rd_le UnexpectedEof 4) (\<lambda>magic.
     rd_bind (rd_le UnexpectedEof 8) (\<lambda>sequence.
     rd_bind (rd_le UnexpectedEof 1) (\<lambda>ty.
     rd_bind (rd_le UnexpectedEof 4) (\<lambda>table_len :: u32.
     rd_bind (rd_take UnexpectedEof (unat table_len)) (\<lambda>tb.
     (case from_utf8 tb of
        None \<Rightarrow> rd_fail BadTableName
      | Some table \<Rightarrow>
     rd_bind (rd_le UnexpectedEof 8) (\<lambda>rid.
     rd_bind (rd_le UnexpectedEof 4) (\<lambda>data_len :: u32.
     rd_bind (rd_take UnexpectedEof (unat data_len)) (\<lambda>data.
     rd_bind (rd_le UnexpectedEof 4) (\<lambda>checksum.
     (let raw = \<lparr> wr_magic = magic, wr_sequence = sequence, wr_type = ty, wr_table = table,
                  wr_row_id = rid, wr_data = data, wr_checksum = checksum \<rparr>;
          expected = compute_checksum crc raw in
      if checksum \<noteq> expected then rd_fail (ChecksumMismatch expected checksum)
      else rd_return raw)))))))))))"

definition raw_to_entry :: "wal_raw \<Rightarrow> wal_error + wal_entry" where
  "raw_to_entry r =
     (case entry_type_from_u8 (wr_type r) of
        None \<Rightarrow> Err (BadEntryType (wr_type r))
      | Some ty \<Rightarrow>
          Ok \<lparr> we_sequence = wr_sequence r, we_type = ty, we_table = wr_table r,
               we_row_id = wr_row_id r, we_data = wr_data r \<rparr>)"

section \<open>Reading a log\<close>

text \<open>
  The reading loops consume at least the 33 fixed bytes of an entry in every turn; the fuel
  is one more than the length of the input, which is always enough (see below).
\<close>

fun read_entries :: "(u8 list \<Rightarrow> u32) \<Rightarrow> nat \<Rightarrow> u8 list \<Rightarrow> wal_entry list \<Rightarrow> wal_error + wal_entry list" where
  "read_entries crc 0 bs acc = Ok acc"
| "read_entries crc (Suc n) bs acc =
     (case read_raw crc bs of
        Inl UnexpectedEof \<Rightarrow> Ok acc
      | Inl e \<Rightarrow> Err e
      | Inr (raw, rest) \<Rightarrow>
          (case raw_to_entry raw of
             Inl e \<Rightarrow> Err e
           | Inr en \<Rightarrow> read_entries crc n rest (acc @ [en])))"

definition read_all_bytes :: "(u8 list \<Rightarrow> u32) \<Rightarrow> u8 list \<Rightarrow> wal_error + wal_entry list" where
  "read_all_bytes crc bs =
     (case read_header bs of
        Inl e \<Rightarrow> Err e
      | Inr (h, rest) \<Rightarrow>
          if wh_magic h \<noteq> WAL_MAGIC then Err BadMagic
          else read_entries crc (Suc (length rest)) rest [])"

fun scan_sequence :: "(u8 list \<Rightarrow> u32) \<Rightarrow> nat \<Rightarrow> u8 list \<Rightarrow> u64 \<Rightarrow> wal_error + u64" where
  "scan_sequence crc 0 bs m = Ok m"
| "scan_sequence crc (Suc n) bs m =
     (case read_raw crc bs of
        Inl UnexpectedEof \<Rightarrow> Ok m
      | Inl e \<Rightarrow> Err e
      | Inr (raw, rest) \<Rightarrow>
          scan_sequence crc n rest (if m < wr_sequence raw then wr_sequence raw else m))"

definition recover_sequence :: "(u8 list \<Rightarrow> u32) \<Rightarrow> u8 list \<Rightarrow> wal_error + u64" where
  "recover_sequence crc bs =
     (case read_header bs of
        Inl e \<Rightarrow> Err e
      | Inr (h, rest) \<Rightarrow>
          if wh_magic h \<noteq> WAL_MAGIC then Err BadMagic
          else (case scan_sequence crc (Suc (length rest)) rest 0 of
                  Inl e \<Rightarrow> Err e | Inr m \<Rightarrow> Ok (m + 1)))"

section \<open>Writing\<close>

record wal =
  wal_file :: "u8 list"
  wal_buf :: "u8 list"
  wal_next_sequence :: u64
  wal_current_size :: nat

text \<open>\<open>BufWriter::write_all\<close> with a capacity of 64 KiB.\<close>

definition BUF_CAP :: nat where "BUF_CAP = 64 * 1024"

definition bw_write :: "u8 list \<Rightarrow> wal \<Rightarrow> wal" where
  "bw_write d w =
     (let w1 = (if BUF_CAP < length (wal_buf w) + length d
                then w \<lparr> wal_file := wal_file w @ wal_buf w, wal_buf := [] \<rparr> else w) in
      if BUF_CAP \<le> length d then w1 \<lparr> wal_file := wal_file w1 @ d \<rparr>
      else w1 \<lparr> wal_buf := wal_buf w1 @ d \<rparr>)"

definition bw_flush :: "wal \<Rightarrow> wal" where
  "bw_flush w = w \<lparr> wal_file := wal_file w @ wal_buf w, wal_buf := [] \<rparr>"

definition write_header :: "wal \<Rightarrow> wal" where
  "write_header w =
     (let h = \<lparr> wh_magic = WAL_MAGIC, wh_version = WAL_VERSION, wh_sequence = 0 \<rparr>;
          w1 = fold bw_write [u32_bytes (wh_magic h), u32_bytes (wh_version h), u64_bytes (wh_sequence h)] w;
          w2 = bw_flush w1 in
      w2 \<lparr> wal_current_size := wal_current_size w2 + WAL_HEADER_SIZE \<rparr>)"

definition wal_open :: "(u8 list \<Rightarrow> u32) \<Rightarrow> u8 list \<Rightarrow> wal_error + wal" where
  "wal_open crc file =
     (let w = \<lparr> wal_file = file, wal_buf = [], wal_next_sequence = 1, wal_current_size = length file \<rparr> in
      if file = [] then Ok (write_header w)
      else (case recover_sequence crc file of
              Inl e \<Rightarrow> Err e
            | Inr n \<Rightarrow> Ok (w \<lparr> wal_next_sequence := n \<rparr>)))"

definition write_raw :: "wal_raw \<Rightarrow> wal \<Rightarrow> wal" where
  "write_raw r w = fold bw_write (raw_pieces r) w"

definition append_entry :: "(u8 list \<Rightarrow> u32) \<Rightarrow> wal_entry \<Rightarrow> wal \<Rightarrow> wal" where
  "append_entry crc e w =
     (let raw = raw_from_entry crc e;
          w1 = bw_flush (write_raw raw w) in
      w1 \<lparr> wal_current_size := wal_current_size w1 + serialized_size raw \<rparr>)"

definition append_typed ::
  "(u8 list \<Rightarrow> u32) \<Rightarrow> entry_type \<Rightarrow> string \<Rightarrow> u64 \<Rightarrow> u8 list \<Rightarrow> wal \<Rightarrow> u64 \<times> wal" where
  "append_typed crc ty table rid data w =
     (let s = wal_next_sequence w;
          w1 = append_entry crc \<lparr> we_sequence = s, we_type = ty, we_table = table, we_row_id = rid,
                                  we_data = data \<rparr> w in
      (s, w1 \<lparr> wal_next_sequence := wal_next_sequence w1 + 1 \<rparr>))"

definition append_insert :: "(u8 list \<Rightarrow> u32) \<Rightarrow> string \<Rightarrow> u64 \<Rightarrow> u8 list \<Rightarrow> wal \<Rightarrow> u64 \<times> wal" where
  "append_insert crc table rid data = append_typed crc EInsert table rid data"

definition append_update :: "(u8 list \<Rightarrow> u32) \<Rightarrow> string \<Rightarrow> u64 \<Rightarrow> u8 list \<Rightarrow> wal \<Rightarrow> u64 \<times> wal" where
  "append_update crc table rid data = append_typed crc EUpdate table rid data"

definition append_delete :: "(u8 list \<Rightarrow> u32) \<Rightarrow> string \<Rightarrow> u64 \<Rightarrow> wal \<Rightarrow> u64 \<times> wal" where
  "append_delete crc table rid = append_typed crc EDelete table rid []"

definition append_commit :: "(u8 list \<Rightarrow> u32) \<Rightarrow> u64 \<Rightarrow> wal \<Rightarrow> u64 \<times> wal" where
  "append_commit crc txid = append_typed crc ECommit [] txid []"

definition append_rollback :: "(u8 list \<Rightarrow> u32) \<Rightarrow> u64 \<Rightarrow> wal \<Rightarrow> u64 \<times> wal" where
  "append_rollback crc txid = append_typed crc ERollback [] txid []"

definition append_buffered ::
  "(u8 list \<Rightarrow> u32) \<Rightarrow> entry_type \<Rightarrow> string \<Rightarrow> u64 \<Rightarrow> u8 list \<Rightarrow> wal \<Rightarrow> u64 \<times> wal" where
  "append_buffered crc ty table rid data w =
     (let s = wal_next_sequence w;
          raw = raw_from_entry crc \<lparr> we_sequence = s, we_type = ty, we_table = table, we_row_id = rid,
                                     we_data = data \<rparr>;
          w1 = write_raw raw w in
      (s, w1 \<lparr> wal_current_size := wal_current_size w1 + serialized_size raw,
               wal_next_sequence := wal_next_sequence w1 + 1 \<rparr>))"

definition wal_sync :: "wal \<Rightarrow> wal" where
  "wal_sync w = bw_flush w"

definition read_all :: "(u8 list \<Rightarrow> u32) \<Rightarrow> wal \<Rightarrow> wal_error + wal_entry list" where
  "read_all crc w = read_all_bytes crc (wal_file w)"

definition wal_truncate :: "wal \<Rightarrow> wal" where
  "wal_truncate w =
     write_header ((wal_sync w) \<lparr> wal_file := [], wal_buf := [], wal_current_size := 0 \<rparr>)"

definition needs_rotation :: "wal \<Rightarrow> bool" where
  "needs_rotation w \<longleftrightarrow> MAX_WAL_SIZE \<le> wal_current_size w"

section \<open>Entries decode to what was encoded\<close>

definition entry_ok :: "wal_entry \<Rightarrow> bool" where
  "entry_ok e \<longleftrightarrow> str_ok (we_table e) \<and> length (we_table e) < 2 ^ 32 \<and> length (we_data e) < 2 ^ 32"

definition entry_bytes :: "(u8 list \<Rightarrow> u32) \<Rightarrow> wal_entry \<Rightarrow> u8 list" where
  "entry_bytes crc e = raw_bytes (raw_from_entry crc e)"

lemma unat_of_nat_u32: "n < 2 ^ 32 \<Longrightarrow> unat (of_nat n :: u32) = n"
  by (simp add: unsigned_of_nat take_bit_nat_eq_self)

lemma entry_type_from_to [simp]: "entry_type_from_u8 (entry_type_u8 ty) = Some ty"
  by (cases ty) (simp_all add: entry_type_from_u8_def)

lemma raw_to_from_entry [simp]: "raw_to_entry (raw_from_entry crc e) = Ok e"
  by (cases e) (simp add: raw_to_entry_def raw_from_entry_def Let_def)

lemma raw_from_entry_simps [simp]:
  "wr_table (raw_from_entry crc e) = we_table e" "wr_data (raw_from_entry crc e) = we_data e"
  "wr_sequence (raw_from_entry crc e) = we_sequence e"
  by (simp_all add: raw_from_entry_def Let_def)

lemma rd_byte_append [simp]: "rd_le e (Suc 0) (b # rest) = Inr (b :: u8, rest)"
  using rd_le_append [of 1 e b rest] by simp

lemma raw_checksum:
  "wr_checksum (raw_from_entry crc e) = compute_checksum crc (raw_from_entry crc e)"
  by (simp add: raw_from_entry_def compute_checksum_def Let_def)

lemma length_entry_bytes:
  "length (entry_bytes crc e) = ENTRY_HEADER_SIZE + length (we_table e) + length (we_data e)"
  by (simp add: entry_bytes_def raw_bytes_def raw_pieces_def ENTRY_HEADER_SIZE_def)

lemma read_raw_entry:
  assumes "entry_ok e"
  shows "read_raw crc (entry_bytes crc e @ rest) = Inr (raw_from_entry crc e, rest)"
proof -
  let ?r = "raw_from_entry crc e"
  have r: "\<lparr> wr_magic = wr_magic ?r, wr_sequence = we_sequence e, wr_type = wr_type ?r,
      wr_table = we_table e, wr_row_id = wr_row_id ?r, wr_data = we_data e,
      wr_checksum = compute_checksum crc ?r \<rparr> = ?r"
    by (simp add: raw_from_entry_def compute_checksum_def Let_def)
  show ?thesis
    using assms
    by (simp add: r raw_checksum read_raw_def entry_bytes_def raw_bytes_def raw_pieces_def entry_ok_def
        rd_bind_def unat_of_nat_u32 from_utf8_as_bytes Let_def rd_return_def)
qed

lemma torn_byte: "torn e (rd_le e 1) [b :: u8]"
  using torn_le [of e 1 b] by simp

lemma torn_raw:
  assumes "entry_ok e"
  shows "torn UnexpectedEof (read_raw crc) (entry_bytes crc e)"
proof -
  have bytes: "entry_bytes crc e =
      u32_bytes (wr_magic (raw_from_entry crc e)) @ u64_bytes (we_sequence e) @
      [wr_type (raw_from_entry crc e)] @ u32_bytes (of_nat (length (we_table e))) @
      as_bytes (we_table e) @ u64_bytes (wr_row_id (raw_from_entry crc e)) @
      u32_bytes (of_nat (length (we_data e))) @ we_data e @
      u32_bytes (wr_checksum (raw_from_entry crc e)) @ []"
    by (simp add: entry_bytes_def raw_bytes_def raw_pieces_def)
  have len: "unat (of_nat (length (we_table e)) :: u32) = length (we_table e)"
    "unat (of_nat (length (we_data e)) :: u32) = length (we_data e)"
    and utf8: "from_utf8 (as_bytes (we_table e)) = Some (we_table e)"
    using assms by (simp_all add: entry_ok_def unat_of_nat_u32 from_utf8_as_bytes)
  show ?thesis
    unfolding bytes read_raw_def
    apply (rule torn_bind, rule torn_le, simp)+
    apply (rule torn_bind, rule torn_byte, simp)
    apply (rule torn_bind, rule torn_le, simp)
    apply (rule torn_bind, rule torn_take, simp add: len, simp add: len)
    apply (simp only: utf8 option.case)
    apply (rule torn_bind, rule torn_le, simp)+
    apply (rule torn_bind, rule torn_take, simp add: len, simp add: len)
    apply (rule torn_bind, rule torn_le, simp, simp)
    done
qed

text \<open>The entry format as an instance of the codec interface.\<close>

definition read_entry :: "(u8 list \<Rightarrow> u32) \<Rightarrow> (wal_error, wal_entry) reader" where
  "read_entry crc =
     rd_bind (read_raw crc) (\<lambda>raw.
       case raw_to_entry raw of Inl e \<Rightarrow> rd_fail e | Inr en \<Rightarrow> rd_return en)"

interpretation wal_codec: codec "entry_bytes crc" "read_entry crc" entry_ok for crc
  by unfold_locales (simp add: read_entry_def rd_bind_def read_raw_entry rd_return_def)

text \<open>
  entries are framed unambiguously: a byte sequence that starts with the encodings of two
  entries starts with the same entry and continues with the same rest.
\<close>

theorem wal_entry_prefix_free:
  assumes "entry_ok a" and "entry_ok b" and "entry_bytes crc a @ r = entry_bytes crc b @ r'"
  shows "a = b \<and> r = r'"
  using wal_codec.enc_prefix_free [OF assms] .

section \<open>The reading loop\<close>

lemma read_raw_consumes: "read_raw crc bs = Inr (raw, rest) \<Longrightarrow> length rest < length bs"
  by (auto simp: read_raw_def rd_bind_Inr_iff rd_take_Inr rd_return_def rd_fail_def Let_def
      dest!: rd_le_Inr split: option.splits if_splits)

lemma read_entries_fuel:
  "length bs < n \<Longrightarrow> length bs < n' \<Longrightarrow> read_entries crc n bs acc = read_entries crc n' bs acc"
proof (induction n arbitrary: n' bs acc)
  case (Suc n)
  then obtain k where k: "n' = Suc k" by (cases n') auto
  show ?case
  proof (cases "read_raw crc bs")
    case (Inr p)
    obtain raw rest where p: "p = (raw, rest)" by (cases p)
    with Inr have "length rest < length bs" using read_raw_consumes by blast
    then have "read_entries crc n rest acc' = read_entries crc k rest acc'" for acc'
      using Suc.prems k by (intro Suc.IH) auto
    with Inr p k show ?thesis by (auto split: sum.split)
  qed (use k in simp)
qed simp

lemma read_entries_concat:
  assumes "\<forall>e \<in> set es. entry_ok e" and "read_raw crc tail = Inl UnexpectedEof" and "length es < n"
  shows "read_entries crc n (concat (map (entry_bytes crc) es) @ tail) acc = Ok (acc @ es)"
  using assms
proof (induction es arbitrary: n acc)
  case Nil
  then show ?case by (cases n) auto
next
  case (Cons e es)
  then obtain k where "n = Suc k" "length es < k" by (cases n) auto
  with Cons show ?case by (simp add: read_raw_entry)
qed

definition fresh_header :: wal_header where
  "fresh_header = \<lparr> wh_magic = WAL_MAGIC, wh_version = WAL_VERSION, wh_sequence = 0 \<rparr>"

definition log_bytes :: "(u8 list \<Rightarrow> u32) \<Rightarrow> wal_entry list \<Rightarrow> u8 list" where
  "log_bytes crc es = header_bytes fresh_header @ concat (map (entry_bytes crc) es)"

lemma read_header_bytes [simp]: "read_header (header_bytes h @ rest) = Inr (h, rest)"
  by (simp add: read_header_def header_bytes_def rd_bind_def rd_return_def)

lemma length_concat_entries: "length es \<le> length (concat (map (entry_bytes crc) es))"
  by (induction es) (auto simp: length_entry_bytes ENTRY_HEADER_SIZE_def)

lemma read_all_log:
  assumes "\<forall>e \<in> set es. entry_ok e" and "read_raw crc tail = Inl UnexpectedEof"
  shows "read_all_bytes crc (log_bytes crc es @ tail) = Ok es"
proof -
  have "length es < Suc (length (concat (map (entry_bytes crc) es) @ tail))"
    using length_concat_entries [of es crc] by simp
  from read_entries_concat [OF assms this, of "[]"] show ?thesis
    by (simp add: read_all_bytes_def log_bytes_def fresh_header_def del: read_entries.simps length_append)
qed

lemma read_raw_Nil: "read_raw crc [] = Inl UnexpectedEof"
  by (simp add: read_raw_def rd_bind_def rd_le_def rd_map_def rd_take_def)

text \<open>
  a log whose last entry was cut at any byte by a crash reads back as exactly the entries
  before it.
\<close>

theorem torn_tail_is_dropped:
  assumes "\<forall>e \<in> set es. entry_ok e" and "entry_ok e" and "k < length (entry_bytes crc e)"
  shows "read_all_bytes crc (log_bytes crc es @ take k (entry_bytes crc e)) = Ok es"
  using read_all_log [OF assms(1)] torn_raw [OF assms(2)] assms(3) by (simp add: torn_def)

section \<open>The writer\<close>

text \<open>What has been handed to the writer: the file followed by the buffer.\<close>

definition wal_content :: "wal \<Rightarrow> u8 list" where
  "wal_content w = wal_file w @ wal_buf w"

lemma bw_write_content [simp]: "wal_content (bw_write d w) = wal_content w @ d"
proof (cases "BUF_CAP < length (wal_buf w) + length d \<or> length d < BUF_CAP")
  case False
  then have "length (wal_buf w) = 0" by linarith
  then show ?thesis by (simp add: wal_content_def bw_write_def Let_def)
qed (auto simp: wal_content_def bw_write_def Let_def)

lemma bw_write_simps [simp]:
  "wal_next_sequence (bw_write d w) = wal_next_sequence w"
  "wal_current_size (bw_write d w) = wal_current_size w"
  by (simp_all add: bw_write_def Let_def)

lemma bw_write_prefix: "prefix (wal_file w) (wal_file (bw_write d w))"
  by (simp add: bw_write_def Let_def)

lemma fold_bw_write_content: "wal_content (fold bw_write ds w) = wal_content w @ concat ds"
  by (induction ds arbitrary: w) auto

lemma fold_bw_write_simps [simp]:
  "wal_next_sequence (fold bw_write ds w) = wal_next_sequence w"
  "wal_current_size (fold bw_write ds w) = wal_current_size w"
  by (induction ds arbitrary: w) auto

lemma bw_flush_simps [simp]:
  "wal_content (bw_flush w) = wal_content w" "wal_file (bw_flush w) = wal_content w"
  "wal_next_sequence (bw_flush w) = wal_next_sequence w"
  "wal_current_size (bw_flush w) = wal_current_size w"
  by (simp_all add: wal_content_def bw_flush_def)

datatype wal_op =
    WalAppend entry_type string u64 "u8 list"
  | WalAppendBuffered entry_type string u64 "u8 list"
  | WalSync

fun wal_apply :: "(u8 list \<Rightarrow> u32) \<Rightarrow> wal_op \<Rightarrow> wal \<Rightarrow> wal" where
  "wal_apply crc (WalAppend ty t r d) w = snd (append_typed crc ty t r d w)"
| "wal_apply crc (WalAppendBuffered ty t r d) w = snd (append_buffered crc ty t r d w)"
| "wal_apply crc WalSync w = wal_sync w"

text \<open>The entries a sequence of operations logs, numbered from \<open>n\<close>.\<close>

fun op_entries :: "u64 \<Rightarrow> wal_op list \<Rightarrow> wal_entry list" where
  "op_entries n [] = []"
| "op_entries n (WalAppend ty t r d # ops) =
     \<lparr> we_sequence = n, we_type = ty, we_table = t, we_row_id = r, we_data = d \<rparr> # op_entries (n + 1) ops"
| "op_entries n (WalAppendBuffered ty t r d # ops) =
     \<lparr> we_sequence = n, we_type = ty, we_table = t, we_row_id = r, we_data = d \<rparr> # op_entries (n + 1) ops"
| "op_entries n (WalSync # ops) = op_entries n ops"

fun op_ok_wal :: "wal_op \<Rightarrow> bool" where
  "op_ok_wal (WalAppend ty t r d) \<longleftrightarrow> str_ok t \<and> length t < 2 ^ 32 \<and> length d < 2 ^ 32"
| "op_ok_wal (WalAppendBuffered ty t r d) \<longleftrightarrow> str_ok t \<and> length t < 2 ^ 32 \<and> length d < 2 ^ 32"
| "op_ok_wal WalSync = True"

lemma op_entries_ok: "\<forall>op \<in> set ops. op_ok_wal op \<Longrightarrow> \<forall>e \<in> set (op_entries n ops). entry_ok e"
  by (induction n ops rule: op_entries.induct) (auto simp: entry_ok_def)

lemma op_entries_append:
  "op_entries n (ops @ ops') =
     op_entries n ops @ op_entries (n + of_nat (length (op_entries n ops))) ops'"
  by (induction n ops rule: op_entries.induct) (auto simp: add.assoc)

lemma wal_content_update [simp]:
  "wal_content (w \<lparr> wal_next_sequence := n \<rparr>) = wal_content w"
  "wal_content (w \<lparr> wal_current_size := k \<rparr>) = wal_content w"
  by (simp_all add: wal_content_def)

lemma write_raw_simps [simp]:
  "wal_content (write_raw r w) = wal_content w @ raw_bytes r"
  "wal_next_sequence (write_raw r w) = wal_next_sequence w"
  by (simp_all add: write_raw_def fold_bw_write_content raw_bytes_def)

lemma wal_apply_content:
  "wal_content (wal_apply crc op w) =
     wal_content w @ concat (map (entry_bytes crc) (op_entries (wal_next_sequence w) [op]))"
  by (cases op) (simp_all add: append_typed_def append_entry_def append_buffered_def wal_sync_def
      Let_def entry_bytes_def)

lemma wal_apply_sequence:
  "wal_next_sequence (wal_apply crc op w) =
     wal_next_sequence w + of_nat (length (op_entries (wal_next_sequence w) [op]))"
  by (cases op) (simp_all add: append_typed_def append_entry_def append_buffered_def wal_sync_def Let_def)

lemma wal_run_content:
  "wal_content (fold (wal_apply crc) ops w) =
     wal_content w @ concat (map (entry_bytes crc) (op_entries (wal_next_sequence w) ops)) \<and>
   wal_next_sequence (fold (wal_apply crc) ops w) =
     wal_next_sequence w + of_nat (length (op_entries (wal_next_sequence w) ops))"
proof (induction ops arbitrary: w)
  case (Cons op ops)
  then show ?case
    using op_entries_append [of "wal_next_sequence w" "[op]" ops]
    by (simp add: wal_apply_content wal_apply_sequence add.assoc)
qed simp

lemma bw_write_file_prefix: "prefix (wal_file w) (wal_file (fold bw_write ds w))"
proof (induction ds arbitrary: w)
  case (Cons d ds)
  then show ?case using bw_write_prefix [of w d] prefix_order.trans by fastforce
qed simp

lemma wal_apply_file_prefix: "prefix (wal_file w) (wal_file (wal_apply crc op w))"
proof -
  have "prefix (wal_file w) (wal_content (write_raw r w))" for r
    unfolding write_raw_simps by (simp add: wal_content_def)
  then show ?thesis
    by (cases op) (auto simp: append_typed_def append_entry_def append_buffered_def wal_sync_def Let_def
        bw_write_file_prefix write_raw_def, simp add: wal_content_def)
qed

lemma wal_run_file_prefix: "prefix (wal_file w) (wal_file (fold (wal_apply crc) ops w))"
proof (induction ops arbitrary: w)
  case (Cons op ops)
  then show ?case using wal_apply_file_prefix [of w crc op] prefix_order.trans by fastforce
qed simp

section \<open>Durability\<close>

definition fresh_wal :: wal where
  "fresh_wal = \<lparr> wal_file = header_bytes fresh_header, wal_buf = [], wal_next_sequence = 1,
     wal_current_size = WAL_HEADER_SIZE \<rparr>"

lemma wal_open_empty: "wal_open crc [] = Ok fresh_wal"
proof -
  have "wal_content (write_header w) = wal_content w @ header_bytes fresh_header"
    "wal_buf (write_header w) = []" "wal_next_sequence (write_header w) = wal_next_sequence w"
    "wal_current_size (write_header w) = wal_current_size w + WAL_HEADER_SIZE" for w
    by (simp_all add: write_header_def Let_def fresh_header_def header_bytes_def)
      (simp add: bw_flush_def)
  from this [of "\<lparr> wal_file = [], wal_buf = [], wal_next_sequence = 1, wal_current_size = 0 \<rparr>"]
  show ?thesis by (simp add: wal_open_def fresh_wal_def Let_def wal_content_def)
qed

lemma rd_take_short: "length bs < n \<Longrightarrow> rd_take e n bs = Inl e"
  by (simp add: rd_take_def)

lemma rd_take_enough: "n \<le> length bs \<Longrightarrow> rd_take e n bs = Inr (take n bs, drop n bs)"
  by (simp add: rd_take_def)

lemma rd_le_short: "length bs < n \<Longrightarrow> rd_le e n bs = Inl e"
  by (simp add: rd_le_def rd_map_def rd_bind_def rd_take_def)

text \<open>
  A prefix of a log consists of the entries it holds completely, as many as fit, and a cut one.
\<close>

lemma prefix_log_cases:
  assumes "prefix p (concat (map (entry_bytes crc) es))"
  shows "\<exists>n k e. n \<le> length es \<and> p = concat (map (entry_bytes crc) (take n es)) @ take k (entry_bytes crc e) \<and>
    (k = 0 \<or> e \<in> set es \<and> k < length (entry_bytes crc e)) \<and>
    (\<forall>m \<le> length es. length (concat (map (entry_bytes crc) (take m es))) \<le> length p \<longrightarrow> m \<le> n)"
  using assms
proof (induction es arbitrary: p)
  case Nil
  then show ?case by (auto intro: exI [of _ 0])
next
  case (Cons e es)
  from Cons.prems obtain zs where zs: "entry_bytes crc e @ concat (map (entry_bytes crc) es) = p @ zs"
    by (auto simp: prefix_def)
  show ?case
  proof (cases "length p < length (entry_bytes crc e)")
    case True
    have "take (length p) (entry_bytes crc e @ concat (map (entry_bytes crc) es)) = p"
      using zs by (metis append_eq_conv_conj)
    then have "p = take (length p) (entry_bytes crc e)" using True by simp
    moreover have "m \<le> 0" if "length (concat (map (entry_bytes crc) (take m (e # es)))) \<le> length p" for m
      using that True by (cases m) auto
    ultimately show ?thesis
      using True by (intro exI [of _ 0] exI [of _ "length p"] exI [of _ e]) auto
  next
    case False
    then have "take (length (entry_bytes crc e)) p = entry_bytes crc e"
      using zs by (metis append_eq_conv_conj leI take_append diff_is_0_eq take_0 append_Nil2)
    then obtain q where q: "p = entry_bytes crc e @ q" by (metis append_take_drop_id)
    then have "prefix q (concat (map (entry_bytes crc) es))" using Cons.prems by simp
    from Cons.IH [OF this] obtain n k e' where
      n: "n \<le> length es" "q = concat (map (entry_bytes crc) (take n es)) @ take k (entry_bytes crc e')"
        "k = 0 \<or> e' \<in> set es \<and> k < length (entry_bytes crc e')"
      and max: "\<forall>m \<le> length es. length (concat (map (entry_bytes crc) (take m es))) \<le> length q \<longrightarrow> m \<le> n"
      by blast
    have "m \<le> Suc n"
      if "m \<le> length (e # es)" "length (concat (map (entry_bytes crc) (take m (e # es)))) \<le> length p" for m
      using that max q by (cases m) auto
    then show ?thesis using q n
      by (intro exI [of _ "Suc n"] exI [of _ k] exI [of _ e']) auto
  qed
qed

text \<open>
  C16: crash recovery. Whatever was appended before a \<open>sync\<close> survives a crash that cuts the
  file at any later byte: the log reads back without error as a prefix of everything
  appended, which includes everything appended before the \<open>sync\<close>.
\<close>

theorem crash_recovery:
  assumes "\<forall>op \<in> set (ops1 @ ops2). op_ok_wal op"
    and "w1 = fold (wal_apply crc) (ops1 @ [WalSync]) fresh_wal" and "w2 = fold (wal_apply crc) ops2 w1"
    and "prefix p (wal_content w2)" and "prefix (wal_file w1) p"
  shows "\<exists>es. read_all_bytes crc p = Ok es \<and> prefix (op_entries 1 ops1) es \<and>
    prefix es (op_entries 1 (ops1 @ ops2))"
proof -
  let ?es1 = "op_entries 1 ops1" and ?es = "op_entries 1 (ops1 @ ops2)"
  let ?enc = "\<lambda>es. concat (map (entry_bytes crc) es)"
  have fresh: "wal_content fresh_wal = header_bytes fresh_header" "wal_next_sequence fresh_wal = 1"
    by (simp_all add: fresh_wal_def wal_content_def)
  have w1: "wal_content w1 = header_bytes fresh_header @ ?enc ?es1" "wal_file w1 = wal_content w1"
    "wal_next_sequence w1 = 1 + of_nat (length ?es1)"
    using wal_run_content [of crc ops1 fresh_wal] fresh assms(2) by (simp_all add: wal_sync_def)
  have es: "?es = ?es1 @ op_entries (wal_next_sequence w1) ops2" by (simp add: op_entries_append w1)
  have w2: "wal_content w2 = header_bytes fresh_header @ ?enc ?es"
    using wal_run_content [of crc ops2 w1] assms(3) w1 es by simp
  from assms(5) w1 obtain q where p: "p = header_bytes fresh_header @ q" by (auto simp: prefix_def)
  have q: "prefix q (?enc ?es)" using assms(4) w2 p by simp
  have len: "length (?enc ?es1) \<le> length q" using assms(5) w1 p by (auto simp: prefix_def)
  from prefix_log_cases [OF q] obtain n k e where
    n: "n \<le> length ?es" "q = ?enc (take n ?es) @ take k (entry_bytes crc e)"
      "k = 0 \<or> e \<in> set ?es \<and> k < length (entry_bytes crc e)"
    and max: "\<forall>m \<le> length ?es. length (?enc (take m ?es)) \<le> length q \<longrightarrow> m \<le> n"
    by blast
  have ok: "\<forall>e \<in> set ?es. entry_ok e" using op_entries_ok [OF assms(1)] .
  have tail: "read_raw crc (take k (entry_bytes crc e)) = Inl UnexpectedEof"
    using n(3) ok torn_raw [of e crc] read_raw_Nil by (auto simp: torn_def)
  have "read_all_bytes crc p = Ok (take n ?es)"
    using read_all_log [of "take n ?es" crc, OF _ tail] ok n(2) p
    by (auto simp: log_bytes_def dest: in_set_takeD)
  moreover have "length ?es1 \<le> n" using max [rule_format, of "length ?es1"] len es by simp
  ultimately show ?thesis
    using es by (intro exI [of _ "take n ?es"]) (auto simp: take_is_prefix)
qed

text \<open>
  what happens after a crash is less benign. \<open>open\<close> keeps the torn bytes and later entries
  are appended behind them; when the cut fell inside the data of an entry and the missing part
  is longer than what follows, the reader takes the later entries for that data and reports
  none of them, although they were written and synced.
\<close>

theorem append_after_torn_tail_lost:
  assumes "\<forall>e \<in> set es. entry_ok e" and "entry_ok e" and "entry_ok later"
    and "k < length (we_data e)" and "k + length (entry_bytes crc later) < length (we_data e) + 4"
    and "c0 = ENTRY_HEADER_SIZE - 4 + length (we_table e) + k"
  shows "read_all_bytes crc (log_bytes crc es @ take c0 (entry_bytes crc e) @ entry_bytes crc later) = Ok es"
proof -
  let ?r = "raw_from_entry crc e"
  let ?fix = "u32_bytes (wr_magic ?r) @ u64_bytes (we_sequence e) @ [wr_type ?r] @
      u32_bytes (of_nat (length (we_table e))) @ as_bytes (we_table e) @ u64_bytes (wr_row_id ?r) @
      u32_bytes (of_nat (length (we_data e)))"
  have bytes: "entry_bytes crc e = ?fix @ we_data e @ u32_bytes (wr_checksum ?r)"
    by (simp add: entry_bytes_def raw_bytes_def raw_pieces_def)
  have "take c0 (entry_bytes crc e) = ?fix @ take k (we_data e)"
    using assms(4,6) by (simp add: bytes ENTRY_HEADER_SIZE_def take_Cons')
  then have "read_raw crc (take c0 (entry_bytes crc e) @ entry_bytes crc later) = Inl UnexpectedEof"
    using assms(2,4,5)
    by (cases "k + length (entry_bytes crc later) < length (we_data e)")
      (auto simp: read_raw_def rd_bind_def entry_ok_def unat_of_nat_u32 from_utf8_as_bytes
        rd_take_short rd_take_enough rd_le_short)
  from read_all_log [OF assms(1) this] show ?thesis by simp
qed

text \<open>
  truncating the log keeps the sequence in memory, but the file no longer carries it: a
  log that is truncated, closed and opened again numbers its entries from 1.
\<close>

theorem truncate_reopen_restarts_sequence:
  "\<exists>w'. wal_open crc (wal_file (wal_truncate w)) = Ok w' \<and> wal_next_sequence w' = 1 \<and>
     wal_next_sequence (wal_truncate w) = wal_next_sequence w"
proof -
  have fl: "wal_file (wal_truncate w) = header_bytes fresh_header"
    "wal_next_sequence (wal_truncate w) = wal_next_sequence w"
    by (simp_all add: wal_truncate_def write_header_def Let_def wal_sync_def fresh_header_def header_bytes_def)
      (simp add: wal_content_def)
  have "header_bytes fresh_header \<noteq> []"
    by (metis length_le_bytes header_bytes_def append_is_Nil_conv list.size(3) zero_neq_numeral)
  moreover have "recover_sequence crc (header_bytes fresh_header) = Ok 1"
    using read_header_bytes [of fresh_header "[]"] read_raw_Nil [of crc]
    by (simp add: recover_sequence_def fresh_header_def)
  ultimately show ?thesis using fl by (simp add: wal_open_def Let_def)
qed

section \<open>A concrete log\<close>

definition demo_entry :: "u8 list \<Rightarrow> wal_entry" where
  "demo_entry d = \<lparr> we_sequence = 1, we_type = EInsert, we_table = ''t'', we_row_id = 5, we_data = d \<rparr>"

lemma demo_entry_ok: "length d < 2 ^ 32 \<Longrightarrow> entry_ok (demo_entry d)"
proof -
  have "str_ok ''t''" by code_simp
  then show "length d < 2 ^ 32 \<Longrightarrow> ?thesis" by (simp add: entry_ok_def demo_entry_def)
qed

theorem wal_entry_prefix_free_witness:
  "demo_entry [7] = demo_entry [7] \<and> [0 :: u8] = [0]"
  by (rule wal_entry_prefix_free [of _ _ "\<lambda>_. 0"]) (simp_all add: demo_entry_ok)

theorem torn_tail_is_dropped_witness:
  "read_all_bytes (\<lambda>_. 0) (log_bytes (\<lambda>_. 0) [demo_entry [7]] @ take 20 (entry_bytes (\<lambda>_. 0) (demo_entry [8]))) =
     Ok [demo_entry [7]]"
  by (rule torn_tail_is_dropped)
    (simp_all add: demo_entry_ok length_entry_bytes ENTRY_HEADER_SIZE_def)

theorem append_after_torn_tail_lost_witness:
  "read_all_bytes (\<lambda>_. 0)
     (log_bytes (\<lambda>_. 0) [] @ take 30 (entry_bytes (\<lambda>_. 0) (demo_entry (replicate 64 1))) @
      entry_bytes (\<lambda>_. 0) (demo_entry [9])) = Ok []"
  by (rule append_after_torn_tail_lost [where k = 0])
    (simp_all add: demo_entry_ok length_entry_bytes ENTRY_HEADER_SIZE_def, simp_all add: demo_entry_def)

theorem crash_recovery_witness:
  "\<exists>es. read_all_bytes (\<lambda>_. 0) (wal_content (wal_apply (\<lambda>_. 0) (WalAppendBuffered EDelete ''t'' 5 [])
       (fold (wal_apply (\<lambda>_. 0)) [WalAppendBuffered EInsert ''t'' 5 [7], WalSync] fresh_wal))) = Ok es \<and>
     prefix [demo_entry [7]] es"
proof -
  have ok: "str_ok ''t''" by code_simp
  let ?w1 = "fold (wal_apply (\<lambda>_. 0)) [WalAppendBuffered EInsert ''t'' 5 [7], WalSync] fresh_wal"
  let ?w2 = "wal_apply (\<lambda>_. 0) (WalAppendBuffered EDelete ''t'' 5 []) ?w1"
  have "prefix (wal_file ?w1) (wal_content ?w2)"
    using wal_apply_file_prefix [of ?w1 "\<lambda>_. 0" "WalAppendBuffered EDelete ''t'' 5 []"]
    unfolding wal_content_def by (rule prefix_order.trans) simp
  then show ?thesis
    using crash_recovery [of "[WalAppendBuffered EInsert ''t'' 5 [7]]" "[WalAppendBuffered EDelete ''t'' 5 []]"
        ?w1 "\<lambda>_. 0" ?w2 "wal_content ?w2"] ok
    by (auto simp: demo_entry_def simp del: wal_apply.simps)
qed

end
