(* ===== verification/Jobs.thy ===== *)
theory Jobs
  imports Byte_Codec Texts
begin

text \<open>
  Background jobs (\<open>blitz-jobs\<close>): the life cycle of a job, the scheduler with its handlers, and
  the host side of the WebAssembly executor. The clock and fresh UUIDs are arguments; a handler
  is the function it computes on the job. Of the WebAssembly runtime the model takes the memory
  of an instance, the operations on it and the exported function as parameters; compilation is not
  modelled.
\<close>

section \<open>Jobs\<close>

datatype job_status = Pending | Running | Completed | Failed | Cancelled

datatype job_priority = Low | Normal | High | Critical

fun priority_order :: "job_priority \<Rightarrow> nat" where
  "priority_order Low = 0"
| "priority_order Normal = 1"
| "priority_order High = 2"
| "priority_order Critical = 3"

record job =
  j_id :: "128 word"
  j_type :: string
  j_status :: job_status
  j_priority :: job_priority
  j_payload :: "(string, string) hmap"
  j_result :: "string option"
  j_error :: "string option"
  j_created_at :: int
  j_started_at :: "int option"
  j_completed_at :: "int option"
  j_retry_count :: u32
  j_max_retries :: u32

definition job_new :: "128 word \<Rightarrow> int \<Rightarrow> string \<Rightarrow> job" where
  "job_new uuid now ty =
     \<lparr> j_id = uuid, j_type = ty, j_status = Pending, j_priority = Normal, j_payload = [],
       j_result = None, j_error = None, j_created_at = now, j_started_at = None, j_completed_at = None,
       j_retry_count = 0, j_max_retries = 3 \<rparr>"

definition job_with_priority :: "job_priority \<Rightarrow> job \<Rightarrow> job" where
  "job_with_priority p j = j \<lparr> j_priority := p \<rparr>"

definition job_with_payload :: "string \<Rightarrow> string \<Rightarrow> job \<Rightarrow> job" where
  "job_with_payload k v j = j \<lparr> j_payload := hm_insert k v (j_payload j) \<rparr>"

definition job_with_max_retries :: "u32 \<Rightarrow> job \<Rightarrow> job" where
  "job_with_max_retries n j = j \<lparr> j_max_retries := n \<rparr>"

definition mark_running :: "int \<Rightarrow> job \<Rightarrow> job" where
  "mark_running now j = j \<lparr> j_status := Running, j_started_at := Some now \<rparr>"

definition mark_completed :: "int \<Rightarrow> string \<Rightarrow> job \<Rightarrow> job" where
  "mark_completed now res j = j \<lparr> j_status := Completed, j_result := Some res, j_completed_at := Some now \<rparr>"

definition mark_failed :: "int \<Rightarrow> string \<Rightarrow> job \<Rightarrow> job" where
  "mark_failed now err j =
     (let j = j \<lparr> j_error := Some err \<rparr> in
      if j_retry_count j < j_max_retries j
      then j \<lparr> j_retry_count := j_retry_count j + 1, j_status := Pending \<rparr>
      else j \<lparr> j_status := Failed, j_completed_at := Some now \<rparr>)"

definition mark_cancelled :: "int \<Rightarrow> job \<Rightarrow> job" where
  "mark_cancelled now j = j \<lparr> j_status := Cancelled, j_completed_at := Some now \<rparr>"

definition can_retry :: "job \<Rightarrow> bool" where
  "can_retry j \<longleftrightarrow> j_status j = Pending \<and> j_retry_count j < j_max_retries j"

text \<open>Points in time are milliseconds here; the result is the integer that is cast to a float.\<close>

definition duration_ms :: "job \<Rightarrow> int option" where
  "duration_ms j =
     (case (j_started_at j, j_completed_at j) of
        (Some s, Some e) \<Rightarrow> Some (e - s)
      | _ \<Rightarrow> None)"

section \<open>The scheduler\<close>

type_synonym job_handler = "job \<Rightarrow> job"

record scheduler =
  sc_jobs :: "(128 word, job) hmap"
  sc_handlers :: "(string, job_handler) hmap"

definition scheduler_new :: scheduler where
  "scheduler_new = \<lparr> sc_jobs = [], sc_handlers = [] \<rparr>"

definition register_handler :: "string \<Rightarrow> job_handler \<Rightarrow> scheduler \<Rightarrow> scheduler" where
  "register_handler ty h s = s \<lparr> sc_handlers := hm_insert ty h (sc_handlers s) \<rparr>"

definition submit :: "job \<Rightarrow> scheduler \<Rightarrow> 128 word \<times> scheduler" where
  "submit j s = (j_id j, s \<lparr> sc_jobs := hm_insert (j_id j) j (sc_jobs s) \<rparr>)"

definition get_job :: "scheduler \<Rightarrow> 128 word \<Rightarrow> job option" where
  "get_job s i = hm_get (sc_jobs s) i"

definition pending_jobs :: "scheduler \<Rightarrow> job list" where
  "pending_jobs s =
     sort_by (\<lambda>a b. cmp_of (priority_order (j_priority b)) (priority_order (j_priority a)))
       (filter (\<lambda>j. j_status j = Pending) (hm_values (sc_jobs s)))"

definition all_jobs :: "scheduler \<Rightarrow> job list" where
  "all_jobs s = hm_values (sc_jobs s)"

definition jobs_by_status :: "scheduler \<Rightarrow> job_status \<Rightarrow> job list" where
  "jobs_by_status s st = filter (\<lambda>j. j_status j = st) (hm_values (sc_jobs s))"

definition jobs_by_type :: "scheduler \<Rightarrow> string \<Rightarrow> job list" where
  "jobs_by_type s ty = filter (\<lambda>j. j_type j = ty) (hm_values (sc_jobs s))"

definition execute_job :: "int \<Rightarrow> 128 word \<Rightarrow> scheduler \<Rightarrow> job option \<times> scheduler" where
  "execute_job now i s =
     (case hm_get (sc_jobs s) i of
        None \<Rightarrow> (None, s)
      | Some j \<Rightarrow>
          if j_status j \<noteq> Pending then (None, s)
          else
            (let j = mark_running now j;
                 j = (case hm_get (sc_handlers s) (j_type j) of
                        Some handler \<Rightarrow> handler j
                      | None \<Rightarrow> mark_completed now ''no handler registered'' j) in
             (Some j, s \<lparr> sc_jobs := hm_insert i j (sc_jobs s) \<rparr>)))"

definition execute_next :: "int \<Rightarrow> scheduler \<Rightarrow> job option \<times> scheduler" where
  "execute_next now s =
     (case pending_jobs s of
        [] \<Rightarrow> (None, s)
      | j # _ \<Rightarrow> execute_job now (j_id j) s)"

definition cancel_job :: "int \<Rightarrow> 128 word \<Rightarrow> scheduler \<Rightarrow> bool \<times> scheduler" where
  "cancel_job now i s =
     (case hm_get (sc_jobs s) i of
        Some j \<Rightarrow>
          if j_status j = Pending \<or> j_status j = Running
          then (True, s \<lparr> sc_jobs := hm_insert i (mark_cancelled now j) (sc_jobs s) \<rparr>)
          else (False, s)
      | None \<Rightarrow> (False, s))"

definition job_count :: "scheduler \<Rightarrow> nat" where
  "job_count s = length (sc_jobs s)"

definition pending_count :: "scheduler \<Rightarrow> nat" where
  "pending_count s = length (filter (\<lambda>j. j_status j = Pending) (hm_values (sc_jobs s)))"

section \<open>The host side of the executor\<close>

datatype job_error =
    BadModule string
  | BadSignature string
  | InputWriteTrap
  | OutputTooLarge nat
  | MemoryGrowTrap
  | OutputReadTrap
  | OutputNotUtf8
  | GuestTrap string
  | FuelExhausted u64

record wasm_executor =
  we_fuel :: u64
  we_memory_max :: u64

definition DEFAULT_FUEL :: u64 where "DEFAULT_FUEL = 10000000"
definition DEFAULT_MEMORY_MAX :: u64 where "DEFAULT_MEMORY_MAX = 4 * 1024 * 1024"
definition INPUT_BASE :: nat where "INPUT_BASE = 0"

definition executor_new :: wasm_executor where
  "executor_new = \<lparr> we_fuel = DEFAULT_FUEL, we_memory_max = DEFAULT_MEMORY_MAX \<rparr>"

text \<open>
  An instance of a module in its store, as the runtime gives it to the host: its linear memory, the
  operations \<open>Memory::grow\<close>, \<open>Memory::write\<close> and \<open>Memory::read\<close> on it, which may refuse, and the
  exported function, which traps with the texts of its error or returns a word and the memory
  it leaves. All of them are parameters.
\<close>

record wasm_instance =
  wi_memory :: "u8 list"
  wi_grow :: "u8 list \<Rightarrow> nat \<Rightarrow> u8 list option"
  wi_write :: "u8 list \<Rightarrow> nat \<Rightarrow> u8 list \<Rightarrow> u8 list option"
  wi_read :: "u8 list \<Rightarrow> nat \<Rightarrow> nat \<Rightarrow> u8 list option"
  wi_run :: "u8 list \<Rightarrow> u32 \<Rightarrow> u32 \<Rightarrow> (string \<times> string) + (i64 \<times> u8 list)"

definition PAGE :: nat where "PAGE = 65536"

abbreviation div_ceil :: "nat \<Rightarrow> nat \<Rightarrow> nat" where
  "div_ceil a b \<equiv> (a + b - 1) div b"

definition ensure :: "wasm_instance \<Rightarrow> nat \<Rightarrow> u8 list \<Rightarrow> job_error + u8 list" where
  "ensure inst stop mem =
     (if stop \<le> length mem then Ok mem
      else ok_or MemoryGrowTrap (wi_grow inst mem (div_ceil stop PAGE - div_ceil (length mem) PAGE)))"

definition write_input :: "wasm_instance \<Rightarrow> u8 list \<Rightarrow> u8 list \<Rightarrow> job_error + u8 list" where
  "write_input inst inp mem =
     (case ensure inst (INPUT_BASE + length inp) mem of
        Inl err \<Rightarrow> Err err
      | Inr mem \<Rightarrow> ok_or InputWriteTrap (wi_write inst mem INPUT_BASE inp))"

definition saturating_add_usize :: "nat \<Rightarrow> nat \<Rightarrow> nat" where
  "saturating_add_usize a b = min (2 ^ 64 - 1) (a + b)"

definition read_output :: "wasm_executor \<Rightarrow> wasm_instance \<Rightarrow> nat \<Rightarrow> nat \<Rightarrow> u8 list \<Rightarrow> job_error + string" where
  "read_output e inst ptr len mem =
     (if unat (we_memory_max e) < len then Err (OutputTooLarge len)
      else
        case ensure inst (saturating_add_usize ptr len) mem of
          Inl err \<Rightarrow> Err err
        | Inr mem \<Rightarrow>
            (case wi_read inst mem ptr len of
               None \<Rightarrow> Err OutputReadTrap
             | Some buf \<Rightarrow> ok_or OutputNotUtf8 (from_utf8 buf)))"

definition trap :: "(string \<Rightarrow> string) \<Rightarrow> wasm_executor \<Rightarrow> string \<times> string \<Rightarrow> job_error" where
  "trap lower e err =
     (let chain = lower (fst err) @ lower (snd err) in
      if contains_sub chain ''fuel'' \<or> contains_sub chain ''out of gas''
      then FuelExhausted (we_fuel e) else GuestTrap (fst err))"

definition unpack_ptr :: "i64 \<Rightarrow> nat" where
  "unpack_ptr packed = unat (signed_drop_bit 32 packed)"

definition unpack_len :: "i64 \<Rightarrow> nat" where
  "unpack_len packed = unat (and packed 0xFFFFFFFF)"

definition wasm_run :: "(string \<Rightarrow> string) \<Rightarrow> wasm_executor \<Rightarrow> wasm_instance \<Rightarrow> string \<Rightarrow> job_error + string" where
  "wasm_run lower e inst inp =
     (let input_bytes = as_bytes inp in
      case write_input inst input_bytes (wi_memory inst) of
        Inl err \<Rightarrow> Err err
      | Inr mem \<Rightarrow>
          (case wi_run inst mem (of_nat INPUT_BASE) (of_nat (length input_bytes)) of
             Inl err \<Rightarrow> Err (trap lower e err)
           | Inr (packed, mem) \<Rightarrow>
               read_output e inst (unpack_ptr packed) (unpack_len packed) mem))"

text \<open>\<open>run_job\<close>; the error text is what the job records.\<close>

definition run_job ::
  "(job_error \<Rightarrow> string) \<Rightarrow> int \<Rightarrow> int \<Rightarrow> job \<Rightarrow> job_error + string \<Rightarrow> (job_error + unit) \<times> job" where
  "run_job err_text start finish j outcome =
     (let j = mark_running start j in
      case outcome of
        Inr out \<Rightarrow> (Ok (), mark_completed finish out j)
      | Inl e \<Rightarrow> (Err e, mark_failed finish (err_text e) j))"

section \<open>The life cycle\<close>

definition terminal :: "job_status \<Rightarrow> bool" where
  "terminal st \<longleftrightarrow> st \<in> {Completed, Failed, Cancelled}"

definition job_inv :: "job \<Rightarrow> bool" where
  "job_inv j \<longleftrightarrow>
     j_retry_count j \<le> j_max_retries j \<and>
     (j_status j = Running \<longrightarrow> j_started_at j \<noteq> None) \<and>
     (terminal (j_status j) \<longrightarrow> j_completed_at j \<noteq> None)"

lemmas job_defs = job_inv_def terminal_def mark_running_def mark_completed_def mark_failed_def
  mark_cancelled_def Let_def

lemma job_inv_new [simp]: "job_inv (job_new u now ty)"
  by (simp add: job_inv_def job_new_def terminal_def)

lemma job_inv_running [simp]: "job_inv j \<Longrightarrow> job_inv (mark_running now j)"
  by (simp add: job_defs)

lemma job_inv_completed [simp]: "job_inv j \<Longrightarrow> job_inv (mark_completed now res j)"
  by (simp add: job_defs)

lemma job_inv_cancelled [simp]: "job_inv j \<Longrightarrow> job_inv (mark_cancelled now j)"
  by (simp add: job_defs)

lemma job_inv_failed [simp]: "job_inv j \<Longrightarrow> job_inv (mark_failed now err j)"
  by (auto simp: job_defs inc_le)

lemma mark_id [simp]:
  "j_id (mark_running now j) = j_id j" "j_id (mark_completed now res j) = j_id j"
  "j_id (mark_cancelled now j) = j_id j" "j_id (mark_failed now err j) = j_id j"
  by (simp_all add: job_defs)

lemma mark_type [simp]:
  "j_type (mark_running now j) = j_type j" "j_type (mark_failed now err j) = j_type j"
  by (simp_all add: job_defs)

definition sched_inv :: "scheduler \<Rightarrow> bool" where
  "sched_inv s \<longleftrightarrow>
     hm_wf (sc_jobs s) \<and> (\<forall>i j. hm_get (sc_jobs s) i = Some j \<longrightarrow> j_id j = i \<and> job_inv j)"

text \<open>What a handler has to respect: it keeps the identifier and the invariant of the job.\<close>

definition handler_ok :: "job_handler \<Rightarrow> bool" where
  "handler_ok h \<longleftrightarrow> (\<forall>j. job_inv j \<longrightarrow> job_inv (h j) \<and> j_id (h j) = j_id j)"

inductive sched_step :: "scheduler \<Rightarrow> scheduler \<Rightarrow> bool" where
  step_register: "handler_ok h \<Longrightarrow> sched_step s (register_handler ty h s)"
| step_submit: "job_inv j \<Longrightarrow> sched_step s (snd (submit j s))"
| step_execute: "sched_step s (snd (execute_job now i s))"
| step_execute_next: "sched_step s (snd (execute_next now s))"
| step_cancel: "sched_step s (snd (cancel_job now i s))"

inductive sched_reachable :: "scheduler \<Rightarrow> bool" where
  reach_new: "sched_reachable scheduler_new"
| reach_step: "sched_reachable s \<Longrightarrow> sched_step s t \<Longrightarrow> sched_reachable t"

definition handlers_ok :: "scheduler \<Rightarrow> bool" where
  "handlers_ok s \<longleftrightarrow> (\<forall>ty h. hm_get (sc_handlers s) ty = Some h \<longrightarrow> handler_ok h)"

lemma sched_inv_insert:
  "sched_inv s \<Longrightarrow> job_inv j \<Longrightarrow> j_id j = i \<Longrightarrow> sched_inv (s \<lparr> sc_jobs := hm_insert i j (sc_jobs s) \<rparr>)"
  by (auto simp: sched_inv_def hm_simps simp del: map_of_eq_Some_iff split: if_splits)

lemma execute_job_inv:
  assumes "sched_inv s" and "handlers_ok s"
  shows "sched_inv (snd (execute_job now i s)) \<and> handlers_ok (snd (execute_job now i s))"
proof (cases "hm_get (sc_jobs s) i")
  case None
  with assms show ?thesis by (simp add: execute_job_def)
next
  case (Some j)
  then have j: "job_inv j" "j_id j = i" using assms(1) by (auto simp: sched_inv_def simp del: map_of_eq_Some_iff)
  let ?r = "mark_running now j"
  have "job_inv (case hm_get (sc_handlers s) (j_type ?r) of Some h \<Rightarrow> h ?r
          | None \<Rightarrow> mark_completed now ''no handler registered'' ?r) \<and>
        j_id (case hm_get (sc_handlers s) (j_type ?r) of Some h \<Rightarrow> h ?r
          | None \<Rightarrow> mark_completed now ''no handler registered'' ?r) = i"
    using assms(2) j by (auto simp: handlers_ok_def handler_ok_def split: option.split)
  with Some assms show ?thesis
    by (auto simp: execute_job_def Let_def handlers_ok_def intro!: sched_inv_insert)
qed

lemma cancel_job_inv:
  assumes "sched_inv s" and "handlers_ok s"
  shows "sched_inv (snd (cancel_job now i s)) \<and> handlers_ok (snd (cancel_job now i s))"
proof (cases "hm_get (sc_jobs s) i")
  case None
  with assms show ?thesis by (simp add: cancel_job_def)
next
  case (Some j)
  then have "job_inv j" "j_id j = i" using assms(1) by (auto simp: sched_inv_def simp del: map_of_eq_Some_iff)
  with Some assms show ?thesis
    using sched_inv_insert [of s "mark_cancelled now j" i] by (simp add: cancel_job_def handlers_ok_def)
qed

lemma sched_step_inv:
  "sched_step s t \<Longrightarrow> sched_inv s \<and> handlers_ok s \<Longrightarrow> sched_inv t \<and> handlers_ok t"
proof (induction rule: sched_step.induct)
  case (step_register h s ty)
  then show ?case by (auto simp: register_handler_def sched_inv_def handlers_ok_def hm_simps)
next
  case (step_submit j s)
  then show ?case using sched_inv_insert [of s j] by (auto simp: submit_def handlers_ok_def)
next
  case (step_execute s now i)
  then show ?case using execute_job_inv by blast
next
  case (step_execute_next s now)
  then show ?case using execute_job_inv by (auto simp: execute_next_def split: list.split)
next
  case (step_cancel s now i)
  then show ?case using cancel_job_inv by blast
qed

lemma sched_reachable_inv: "sched_reachable s \<Longrightarrow> sched_inv s \<and> handlers_ok s"
proof (induction rule: sched_reachable.induct)
  case reach_new
  then show ?case by (simp add: scheduler_new_def sched_inv_def handlers_ok_def)
qed (use sched_step_inv in blast)

text \<open>Priorities in descending order.\<close>

interpretation prio: comparator
  "\<lambda>a b :: job. cmp_of (priority_order (j_priority b)) (priority_order (j_priority a))"
proof -
  have "comparator (\<lambda>a b. reverse_ordering (cmp_of (priority_order (j_priority a)) (priority_order (j_priority b))))"
    by (intro comparator_reverse comparator_map [OF comparator_cmp_of])
  then show "comparator (\<lambda>a b :: job. cmp_of (priority_order (j_priority b)) (priority_order (j_priority a)))"
    by (simp add: cmp_of_flip [symmetric])
qed

lemma set_pending_jobs:
  "sched_inv s \<Longrightarrow>
   set (pending_jobs s) = {j. hm_get (sc_jobs s) (j_id j) = Some j \<and> j_status j = Pending}"
proof (intro equalityI subsetI)
  fix j
  assume inv: "sched_inv s" and "j \<in> set (pending_jobs s)"
  then have j: "j \<in> set (hm_values (sc_jobs s))" "j_status j = Pending" by (auto simp: pending_jobs_def)
  then obtain i where "hm_get (sc_jobs s) i = Some j"
    using inv hm_values_get [of "sc_jobs s" j] unfolding sched_inv_def by blast
  with inv j(2) show "j \<in> {j. hm_get (sc_jobs s) (j_id j) = Some j \<and> j_status j = Pending}"
    unfolding sched_inv_def by auto
next
  fix j
  assume "j \<in> {j. hm_get (sc_jobs s) (j_id j) = Some j \<and> j_status j = Pending}"
  then have "j \<in> set (hm_values (sc_jobs s))" "j_status j = Pending"
    using hm_get_value [of "sc_jobs s" "j_id j" j] by blast+
  then show "j \<in> set (pending_jobs s)" by (simp add: pending_jobs_def)
qed

lemma pending_jobs_head:
  assumes "pending_jobs s = j # js" and "j' \<in> set (pending_jobs s)"
  shows "priority_order (j_priority j') \<le> priority_order (j_priority j)"
proof -
  have "sorted_wrt (\<lambda>a b. cmp_of (priority_order (j_priority b)) (priority_order (j_priority a)) \<noteq> Greater)
          (pending_jobs s)"
    unfolding pending_jobs_def by (rule prio.sorted_sort_by)
  with assms show ?thesis by (auto simp: cmp_simps not_less)
qed

section \<open>Properties of the scheduler\<close>

text \<open>
  In every state the scheduler can reach with handlers that keep the identity and the
  bookkeeping of a job, jobs are filed under their identifier, their retries stay within the
  bound, running jobs have a start and finished jobs an end; and a finished job is final: it
  is neither executed nor cancelled any more.
\<close>

theorem scheduler_invariant:
  assumes "sched_reachable s" and "get_job s i = Some j"
  shows "j_id j = i \<and> job_inv j \<and>
     (terminal (j_status j) \<longrightarrow> execute_job now i s = (None, s) \<and> cancel_job now i s = (False, s))"
  using sched_reachable_inv [OF assms(1)] assms(2)
  by (auto simp: sched_inv_def get_job_def terminal_def execute_job_def cancel_job_def
      simp del: map_of_eq_Some_iff)

text \<open>
  The next job to execute is a pending one of the highest priority, and when one is
  pending, one is executed.
\<close>

theorem execute_next_highest_priority:
  assumes "sched_reachable s" and "get_job s i = Some j" and "j_status j = Pending"
  shows "\<exists>k j'. get_job s k = Some j' \<and> j_status j' = Pending \<and>
     execute_next now s = execute_job now k s \<and> fst (execute_next now s) \<noteq> None \<and>
     priority_order (j_priority j) \<le> priority_order (j_priority j')"
proof -
  have inv: "sched_inv s" using sched_reachable_inv [OF assms(1)] by blast
  then have "j_id j = i" using assms(2) by (auto simp: sched_inv_def get_job_def simp del: map_of_eq_Some_iff)
  with assms have j: "j \<in> set (pending_jobs s)"
    by (simp add: set_pending_jobs [OF inv] get_job_def del: map_of_eq_Some_iff)
  then obtain j' js where p: "pending_jobs s = j' # js" by (cases "pending_jobs s") auto
  then have j': "hm_get (sc_jobs s) (j_id j') = Some j'" "j_status j' = Pending"
    using set_pending_jobs [OF inv] by (auto simp del: map_of_eq_Some_iff)
  have "execute_next now s = execute_job now (j_id j') s" using p by (simp add: execute_next_def)
  moreover have "fst (execute_job now (j_id j') s) \<noteq> None"
    using j' by (simp add: execute_job_def Let_def del: map_of_eq_Some_iff)
  ultimately show ?thesis
    using j' pending_jobs_head [OF p j] by (auto simp: get_job_def simp del: map_of_eq_Some_iff)
qed

text \<open>Executing one job over and over.\<close>

fun execute_times :: "nat \<Rightarrow> int \<Rightarrow> 128 word \<Rightarrow> scheduler \<Rightarrow> scheduler" where
  "execute_times 0 now i s = s"
| "execute_times (Suc n) now i s = execute_times n now i (snd (execute_job now i s))"

lemma execute_failing:
  assumes "get_job s i = Some j" and "j_status j = Pending"
    and "hm_get (sc_handlers s) (j_type j) = Some (mark_failed now err)"
  shows "snd (execute_job now i s) =
     s \<lparr> sc_jobs := hm_insert i (mark_failed now err (mark_running now j)) (sc_jobs s) \<rparr>"
  using assms by (simp add: execute_job_def get_job_def Let_def)

lemma failing_job_attempts:
  assumes "get_job s i = Some j" and "j_status j = Pending"
    and "hm_get (sc_handlers s) (j_type j) = Some (mark_failed now err)"
    and "unat (j_max_retries j) = unat (j_retry_count j) + n"
  shows "(\<forall>k \<le> n. \<exists>j'. get_job (execute_times k now i s) i = Some j' \<and> j_status j' = Pending \<and>
              unat (j_retry_count j') = unat (j_retry_count j) + k) \<and>
         (\<exists>j'. get_job (execute_times (Suc n) now i s) i = Some j' \<and> j_status j' = Failed \<and>
              j_retry_count j' = j_max_retries j)"
  using assms
proof (induction n arbitrary: s j)
  case 0
  then have "j_retry_count j = j_max_retries j" by (simp add: word_unat_eq_iff)
  with 0 execute_failing [OF 0(1,2,3)] show ?case
    by (auto simp: get_job_def hm_simps mark_failed_def mark_running_def Let_def)
next
  case (Suc n)
  let ?j = "mark_failed now err (mark_running now j)" and ?s = "snd (execute_job now i s)"
  have lt: "j_retry_count j < j_max_retries j" using Suc.prems(4) by (simp add: word_less_nat_alt)
  then have rc: "unat (j_retry_count j + 1) = Suc (unat (j_retry_count j))"
    using word_order.extremum [of "j_max_retries j"]
    by (metis add.commute add_eq_0_iff leD unatSuc)
  have s: "?s = s \<lparr> sc_jobs := hm_insert i ?j (sc_jobs s) \<rparr>" by (rule execute_failing [OF Suc.prems(1,2,3)])
  have j: "j_status ?j = Pending" "j_type ?j = j_type j" "j_max_retries ?j = j_max_retries j"
    "unat (j_retry_count ?j) = Suc (unat (j_retry_count j))"
    using lt rc by (simp_all add: mark_failed_def mark_running_def Let_def)
  have IH: "(\<forall>k \<le> n. \<exists>j'. get_job (execute_times k now i ?s) i = Some j' \<and> j_status j' = Pending \<and>
              unat (j_retry_count j') = unat (j_retry_count ?j) + k) \<and>
         (\<exists>j'. get_job (execute_times (Suc n) now i ?s) i = Some j' \<and> j_status j' = Failed \<and>
              j_retry_count j' = j_max_retries ?j)"
    using Suc.prems j by (intro Suc.IH) (simp_all add: s get_job_def hm_simps)
  have "\<exists>j'. get_job (execute_times k now i s) i = Some j' \<and> j_status j' = Pending \<and>
              unat (j_retry_count j') = unat (j_retry_count j) + k" if "k \<le> Suc n" for k
  proof (cases k)
    case 0
    with Suc.prems show ?thesis by simp
  next
    case (Suc m)
    with IH that j(4) show ?thesis by fastforce
  qed
  with IH j(3) show ?case by auto
qed

text \<open>
  C38: A job whose handler always fails is attempted once and retried exactly the number of
  times it has left: after each of these attempts but the last it is pending again with one more
  retry counted, and after the last it has failed.
\<close>

theorem failing_job_gives_up:
  assumes "get_job s i = Some j" and "j_status j = Pending"
    and "hm_get (sc_handlers s) (j_type j) = Some (mark_failed now err)"
    and "unat (j_max_retries j) = unat (j_retry_count j) + n"
  shows "(\<forall>k \<le> n. \<exists>j'. get_job (execute_times k now i s) i = Some j' \<and> j_status j' = Pending \<and>
              unat (j_retry_count j') = unat (j_retry_count j) + k) \<and>
         (\<exists>j'. get_job (execute_times (Suc n) now i s) i = Some j' \<and> j_status j' = Failed \<and>
              j_retry_count j' = j_max_retries j)"
  by (rule failing_job_attempts [OF assms])

definition demo_scheduler :: scheduler where
  "demo_scheduler =
     snd (submit (job_with_priority High (job_new 2 5 ''mail''))
       (snd (submit (job_new 1 5 ''mail'') (register_handler ''mail'' (mark_failed 9 ''down'') scheduler_new))))"

lemma demo_scheduler_jobs:
  "sc_jobs demo_scheduler = [(1, job_new 1 5 ''mail''), (2, job_with_priority High (job_new 2 5 ''mail''))]"
  "sc_handlers demo_scheduler = [(''mail'', mark_failed 9 ''down'')]"
  by (simp_all add: demo_scheduler_def submit_def register_handler_def scheduler_new_def job_new_def
      job_with_priority_def)

lemma demo_scheduler_reachable: "sched_reachable demo_scheduler"
proof -
  have "handler_ok (mark_failed 9 ''down'')" by (simp add: handler_ok_def)
  moreover have "job_inv (job_with_priority High (job_new 2 5 ''mail''))"
    by (simp add: job_with_priority_def job_new_def job_inv_def terminal_def)
  ultimately show ?thesis
    unfolding demo_scheduler_def by (intro reach_step [OF _ step_submit] reach_step [OF _ step_register] reach_new) auto
qed

theorem scheduler_invariant_witness:
  "j_id (job_new 1 5 ''mail'') = 1 \<and> job_inv (job_new 1 5 ''mail'')"
  using scheduler_invariant [OF demo_scheduler_reachable, of 1 "job_new 1 5 ''mail''"]
  by (simp add: get_job_def demo_scheduler_jobs)

theorem execute_next_highest_priority_witness:
  "\<exists>k j'. get_job demo_scheduler k = Some j' \<and> execute_next 7 demo_scheduler = execute_job 7 k demo_scheduler \<and>
     1 \<le> priority_order (j_priority j')"
proof -
  have "get_job demo_scheduler 1 = Some (job_new 1 5 ''mail'')"
    by (simp add: get_job_def demo_scheduler_jobs)
  moreover have "j_status (job_new 1 5 ''mail'') = Pending" "j_priority (job_new 1 5 ''mail'') = Normal"
    by (simp_all add: job_new_def)
  ultimately show ?thesis
    using execute_next_highest_priority [OF demo_scheduler_reachable, of 1 "job_new 1 5 ''mail''" 7]
    by auto
qed

theorem failing_job_gives_up_witness:
  "\<exists>j'. get_job (execute_times 4 9 1 demo_scheduler) 1 = Some j' \<and> j_status j' = Failed \<and> j_retry_count j' = 3"
  using failing_job_gives_up [of demo_scheduler 1 "job_new 1 5 ''mail''" 9 "''down''" 3]
  by (simp add: get_job_def demo_scheduler_jobs job_new_def)

section \<open>The bounds of a guest's output\<close>

text \<open>
  What the documentation of the runtime says of a memory in a store with the executor's limits:
  growing by some pages appends zeroes and never exceeds the limit; writing and reading succeed
  exactly within the memory.
\<close>

definition memory_laws :: "wasm_executor \<Rightarrow> wasm_instance \<Rightarrow> bool" where
  "memory_laws e inst \<longleftrightarrow>
     (\<forall>mem n mem'. wi_grow inst mem n = Some mem' \<longrightarrow>
        mem' = mem @ replicate (n * PAGE) 0 \<and> length mem' \<le> unat (we_memory_max e)) \<and>
     (\<forall>mem off data. wi_write inst mem off data =
        (if off + length data \<le> length mem then Some (take off mem @ data @ drop (off + length data) mem) else None)) \<and>
     (\<forall>mem off n. wi_read inst mem off n = (if off + n \<le> length mem then Some (take n (drop off mem)) else None))"

lemma memory_lawsD:
  assumes "memory_laws e inst"
  shows "wi_grow inst mem n = Some mem' \<Longrightarrow> mem' = mem @ replicate (n * PAGE) 0 \<and> length mem' \<le> unat (we_memory_max e)"
    and "wi_write inst mem off data =
      (if off + length data \<le> length mem then Some (take off mem @ data @ drop (off + length data) mem) else None)"
    and "wi_read inst mem off n = (if off + n \<le> length mem then Some (take n (drop off mem)) else None)"
  using assms by (simp_all add: memory_laws_def)

lemma ok_or_Ok: "ok_or err x = Ok y \<longleftrightarrow> x = Some y"
  by (cases x) simp_all

lemma ensure_grows:
  assumes "memory_laws e inst" and "ensure inst stop mem = Ok mem'"
  obtains k where "mem' = mem @ replicate k 0" "k = 0 \<or> length mem' \<le> unat (we_memory_max e)"
proof (cases "stop \<le> length mem")
  case True
  with assms(2) that [of 0] show ?thesis by (simp add: ensure_def)
next
  case False
  let ?n = "div_ceil stop PAGE - div_ceil (length mem) PAGE"
  have "wi_grow inst mem ?n = Some mem'" using False assms(2) by (simp add: ensure_def ok_or_Ok)
  from memory_lawsD(1) [OF assms(1) this] that [of "?n * PAGE"] show ?thesis by blast
qed

lemma write_input_Ok:
  assumes "memory_laws e inst" and "write_input inst inp mem = Ok mem'"
  shows "length inp \<le> length mem' \<and> take (length inp) mem' = inp"
  using assms memory_lawsD(2) [OF assms(1)]
  by (auto simp: write_input_def INPUT_BASE_def ok_or_Ok split: sum.splits if_splits)

lemma read_output_Ok:
  assumes laws: "memory_laws e inst" and "read_output e inst ptr len mem = Ok out"
  obtains k where "k = 0 \<or> length mem + k \<le> unat (we_memory_max e)" "ptr + len \<le> length mem + k" "len \<le> unat (we_memory_max e)"
    "as_bytes out = take len (drop ptr (mem @ replicate k 0))" "str_ok out"
proof -
  obtain mem' where m: "ensure inst (saturating_add_usize ptr len) mem = Ok mem'" "len \<le> unat (we_memory_max e)"
    "ptr + len \<le> length mem'" "from_utf8 (take len (drop ptr mem')) = Some out"
    using assms(2) memory_lawsD(3) [OF laws] by (auto simp: read_output_def ok_or_Ok split: if_splits sum.splits)
  from ensure_grows [OF laws m(1)] obtain k where "mem' = mem @ replicate k 0" "k = 0 \<or> length mem' \<le> unat (we_memory_max e)"
    by blast
  then show ?thesis
    using m from_utf8_Some [OF m(4)] by (intro that [of k]) auto
qed

text \<open>
  C23: What the host hands on is what the guest's result names. When a run succeeds, the guest was
  called with a memory that begins with the bytes of the input; and the output consists of
  exactly the bytes at the offset and of the length packed in the word that the guest returned,
  in the memory that the guest left, extended with zeroes when the host had to grow it. They lie
  within that memory, the memory was not grown beyond the limit, and there are no more of them
  than the limit. The runtime's operations on memory are assumed to behave as documented.
\<close>

theorem wasm_output_in_bounds:
  assumes "memory_laws e inst" and "wasm_run lower e inst inp = Ok out"
  shows "\<exists>mem0 packed mem1 k.
    wi_run inst mem0 0 (of_nat (length inp)) = Ok (packed, mem1) \<and> take (length inp) mem0 = as_bytes inp \<and>
    as_bytes out = take (unpack_len packed) (drop (unpack_ptr packed) (mem1 @ replicate k 0)) \<and>
    unpack_ptr packed + unpack_len packed \<le> length mem1 + k \<and> length out = unpack_len packed \<and>
    (k = 0 \<or> length mem1 + k \<le> unat (we_memory_max e)) \<and> length out \<le> unat (we_memory_max e) \<and> str_ok out"
proof -
  obtain mem0 packed mem1 where r: "write_input inst (as_bytes inp) (wi_memory inst) = Ok mem0"
    "wi_run inst mem0 0 (of_nat (length inp)) = Ok (packed, mem1)"
    "read_output e inst (unpack_ptr packed) (unpack_len packed) mem1 = Ok out"
    using assms(2) by (auto simp: wasm_run_def Let_def INPUT_BASE_def split: sum.splits)
  from read_output_Ok [OF assms(1) r(3)] obtain k where k: "k = 0 \<or> length mem1 + k \<le> unat (we_memory_max e)"
    "unpack_ptr packed + unpack_len packed \<le> length mem1 + k" "unpack_len packed \<le> unat (we_memory_max e)"
    "as_bytes out = take (unpack_len packed) (drop (unpack_ptr packed) (mem1 @ replicate k 0))" "str_ok out"
    by blast
  have "length out = unpack_len packed"
    using arg_cong [OF k(4), of length] k(2) by simp
  then show ?thesis
    using r(2) k write_input_Ok [OF assms(1) r(1)] by (intro exI [of _ mem0] exI [of _ packed] exI [of _ mem1] exI [of _ k]) simp
qed

text \<open>A guest that answers with the second half of its input.\<close>

definition demo_instance :: wasm_instance where
  "demo_instance = \<lparr> wi_memory = [0, 0, 0, 0],
     wi_grow = (\<lambda>mem n. if length mem + n * PAGE \<le> 4 * 1024 * 1024 then Some (mem @ replicate (n * PAGE) 0) else None),
     wi_write = (\<lambda>mem off data. if off + length data \<le> length mem then Some (take off mem @ data @ drop (off + length data) mem) else None),
     wi_read = (\<lambda>mem off n. if off + n \<le> length mem then Some (take n (drop off mem)) else None),
     wi_run = (\<lambda>mem p n. Ok (0x200000002, mem)) \<rparr>"

theorem wasm_output_in_bounds_witness:
  "wasm_run id executor_new demo_instance ''abcd'' = Ok ''cd'' \<and> length ''cd'' \<le> unat (we_memory_max executor_new)"
proof -
  have "memory_laws executor_new demo_instance"
    by (simp add: memory_laws_def demo_instance_def executor_new_def DEFAULT_MEMORY_MAX_def)
  moreover have "wasm_run id executor_new demo_instance ''abcd'' = Ok ''cd''"
    by (simp add: wasm_run_def demo_instance_def executor_new_def write_input_def ensure_def INPUT_BASE_def
        as_bytes_def byte_of_char_def read_output_def DEFAULT_MEMORY_MAX_def unpack_ptr_def unpack_len_def
        saturating_add_usize_def from_utf8_def char_of_byte_def char_of_def bit_0)
  ultimately show ?thesis using wasm_output_in_bounds by blast
qed

end
