(* ===== verification/Wasm_Jobs.thy ===== *)
theory Wasm_Jobs
  imports Jobs Display
begin

text \<open>
  Background jobs of the server (\<open>store_wasm_job\<close>, \<open>run_wasm_job\<close>, \<open>get_wasm_job\<close> of
  \<open>blitz-server/src/server.rs\<close>): a bounded store of submitted jobs and the loop that runs one of
  them with retries. What the guest does in each attempt is a parameter.
\<close>

record stored_wasm_job =
  sw_job :: job
  sw_wasm :: "u8 list"
  sw_input :: string

type_synonym wasm_store = "(string, stored_wasm_job) hmap"

definition MAX_WASM_JOBS :: nat where "MAX_WASM_JOBS = 4096"
definition MAX_WASM_BYTES :: nat where "MAX_WASM_BYTES = 1048576"

text \<open>The identifiers of terminal jobs, by the time they ended and then by name.\<close>

definition oldest_terminal :: "wasm_store \<Rightarrow> string list" where
  "oldest_terminal jobs =
     map snd (sort_key fst (sort_key snd (List.map_filter
       (\<lambda>(k, s). if terminal (j_status (sw_job s)) then map_option (\<lambda>t. (t, k)) (j_completed_at (sw_job s)) else None)
       jobs)))"

definition store_wasm_job :: "string \<Rightarrow> job \<Rightarrow> u8 list \<Rightarrow> string \<Rightarrow> wasm_store \<Rightarrow> (string + string) \<times> wasm_store" where
  "store_wasm_job i j wasm input jobs =
     (if MAX_WASM_BYTES < length wasm
      then (Err (''wasm too large (max '' @ nat_text MAX_WASM_BYTES @ '' bytes)''), jobs)
      else
        (case (if MAX_WASM_JOBS \<le> length jobs
               then (case oldest_terminal jobs of
                       oldest # _ \<Rightarrow> Some (hm_remove oldest jobs)
                     | [] \<Rightarrow> None)
               else Some jobs) of
           None \<Rightarrow> (Err ''job queue full (all live; poll and retry)'', jobs)
         | Some jobs \<Rightarrow>
             (Ok i, hm_insert i \<lparr> sw_job = j \<lparr> j_payload := hm_insert ''input_len'' (nat_text (length input)) (j_payload j) \<rparr>,
                                  sw_wasm = wasm, sw_input = input \<rparr> jobs)))"

lemma failed_attempt_measure:
  assumes "run_job err_text now now j out = (Inl e, j')" and "can_retry j'"
  shows "unat (j_max_retries j') - unat (j_retry_count j') < unat (j_max_retries j) - unat (j_retry_count j)"
proof -
  have lt: "j_retry_count j < j_max_retries j" and j': "j_retry_count j' = j_retry_count j + 1" "j_max_retries j' = j_max_retries j"
    using assms by (auto simp: run_job_def mark_failed_def mark_running_def can_retry_def Let_def split: sum.splits if_splits)
  from lt have "unat (j_retry_count j + 1) = Suc (unat (j_retry_count j))"
    by (metis add.commute add_eq_0_iff leD unatSuc word_order.extremum)
  moreover have "unat (j_retry_count j) < unat (j_max_retries j)" using lt by (simp add: word_less_nat_alt)
  ultimately show ?thesis using j' by simp
qed

text \<open>
  The attempts of one job: \<open>outcome k\<close> is what the guest gives in attempt \<open>k\<close>. A failed attempt
  is followed by another one while the job may be retried.
\<close>

function run_attempts :: "(job_error \<Rightarrow> string) \<Rightarrow> int \<Rightarrow> (nat \<Rightarrow> job_error + string) \<Rightarrow> nat \<Rightarrow> job \<Rightarrow> job" where
  "run_attempts err_text now outcome k j =
     (case run_job err_text now now j (outcome k) of
        (Inr _, j') \<Rightarrow> j'
      | (Inl _, j') \<Rightarrow> if can_retry j' then run_attempts err_text now outcome (Suc k) j' else j')"
  by auto

termination
  by (relation "measure (\<lambda>(_, _, _, _, j). unat (j_max_retries j) - unat (j_retry_count j))")
    (auto dest: failed_attempt_measure [OF sym])

declare run_attempts.simps [simp del]

text \<open>The engine is built once; when it cannot be built the job is marked failed.\<close>

definition run_wasm_job ::
  "(job_error \<Rightarrow> string) \<Rightarrow> int \<Rightarrow> string + unit \<Rightarrow> (nat \<Rightarrow> job_error + string) \<Rightarrow> string \<Rightarrow> wasm_store \<Rightarrow> job option \<times> wasm_store" where
  "run_wasm_job err_text now wasm_engine outcome i jobs =
     (case hm_get jobs i of
        None \<Rightarrow> (None, jobs)
      | Some st \<Rightarrow>
          (let j = mark_running now (sw_job st);
               j = (case wasm_engine of
                      Inl e \<Rightarrow> mark_failed now (''engine: '' @ e) j
                    | Inr _ \<Rightarrow> run_attempts err_text now outcome 0 j) in
           (Some j, hm_insert i (st \<lparr> sw_job := j \<rparr>) jobs)))"

definition get_wasm_job :: "wasm_store \<Rightarrow> string \<Rightarrow> job option" where
  "get_wasm_job jobs i = map_option sw_job (hm_get jobs i)"

section \<open>The store is bounded\<close>

lemma length_hm_remove_present:
  assumes "hm_wf m" and "hm_get m k \<noteq> None"
  shows "length (hm_remove k m) = length m - 1"
proof -
  have "length (hm_remove k m) = card (set (hm_keys (hm_remove k m)))"
    using hm_wf_remove [OF assms(1), of k] by (metis distinct_card length_map)
  also have "set (hm_keys (hm_remove k m)) = set (hm_keys m) - {k}" by (simp add: delete_keys)
  also have "card (set (hm_keys m) - {k}) = card (set (hm_keys m)) - 1"
    using assms(2) by (intro card_Diff_singleton) (simp add: map_of_eq_None_iff)
  also have "card (set (hm_keys m)) = length m" using assms(1) by (metis distinct_card length_map)
  finally show ?thesis .
qed

lemma length_hm_insert_le: "length (hm_insert k v m) \<le> Suc (length m)"
proof -
  have "length (hm_insert k v m) = length (hm_keys (hm_insert k v m))" by simp
  then show ?thesis by (simp add: update_keys split: if_splits)
qed

lemma oldest_terminal_live:
  assumes "hm_wf jobs" and "k \<in> set (oldest_terminal jobs)"
  shows "\<exists>st. hm_get jobs k = Some st \<and> terminal (j_status (sw_job st))"
  using assms by (force simp: oldest_terminal_def List.map_filter_def split: if_splits)

lemma store_wasm_job_bounded:
  assumes "hm_wf jobs" and "length jobs \<le> MAX_WASM_JOBS" and "store_wasm_job i j wasm input jobs = (res, jobs')"
  shows "hm_wf jobs' \<and> length jobs' \<le> MAX_WASM_JOBS"
proof (cases "is_ok res")
  case False
  then have "jobs' = jobs" using assms(3)
    by (auto simp: store_wasm_job_def split: if_splits option.splits list.splits)
  with assms show ?thesis by simp
next
  case True
  then obtain js v where js: "jobs' = hm_insert i v js" "hm_wf js" "length js < MAX_WASM_JOBS"
  proof (cases "MAX_WASM_JOBS \<le> length jobs")
    case full: True
    with True assms(3) obtain k ks where k: "oldest_terminal jobs = k # ks"
      by (cases "oldest_terminal jobs") (auto simp: store_wasm_job_def split: if_splits)
    have "hm_get jobs k \<noteq> None" using oldest_terminal_live [OF assms(1), of k] k by auto
    then have "length (hm_remove k jobs) < MAX_WASM_JOBS"
      using length_hm_remove_present [OF assms(1)] assms(2) by (simp add: MAX_WASM_JOBS_def)
    moreover have "\<exists>v. jobs' = hm_insert i v (hm_remove k jobs)"
      using True assms(3) full k by (auto simp: store_wasm_job_def split: if_splits)
    ultimately show ?thesis using that assms(1) by blast
  next
    case False
    with True assms(3) have "\<exists>v. jobs' = hm_insert i v jobs"
      by (auto simp: store_wasm_job_def split: if_splits)
    with False assms(1) that show ?thesis by auto
  qed
  then show ?thesis using length_hm_insert_le [of i v js] by auto
qed

lemma store_keeps_live_jobs:
  assumes "hm_wf jobs" and "store_wasm_job i j wasm input jobs = (res, jobs')" and "k \<noteq> i"
    and "hm_get jobs k = Some st" and "\<not> terminal (j_status (sw_job st))"
  shows "hm_get jobs' k = Some st"
proof -
  have "k \<notin> set (oldest_terminal jobs)"
    using oldest_terminal_live [OF assms(1), of k] assms(4,5) by (metis option.inject)
  then show ?thesis using assms(2-4)
    by (auto simp: store_wasm_job_def hm_simps simp del: map_of_eq_Some_iff split: if_splits option.splits list.splits)
qed

section \<open>The attempts\<close>

lemma run_attempts_failing:
  assumes "\<forall>k. \<not> is_ok (outcome k)" and "j_retry_count j < j_max_retries j"
  shows "j_status (run_attempts err_text now outcome k j) = Pending \<and>
    j_retry_count (run_attempts err_text now outcome k j) = j_max_retries j"
  using assms
proof (induction err_text now outcome k j rule: run_attempts.induct)
  case (1 err_text now outcome k j)
  obtain e where e: "outcome k = Inl e" using 1(2) by (metis is_ok.simps(2) sum.exhaust)
  define j1 where "j1 = mark_failed now (err_text e) (mark_running now j)"
  have run: "run_job err_text now now j (outcome k) = (Inl e, j1)" by (simp add: run_job_def e j1_def)
  have j1: "j_status j1 = Pending" "j_retry_count j1 = j_retry_count j + 1" "j_max_retries j1 = j_max_retries j"
    using 1(3) by (simp_all add: j1_def mark_failed_def mark_running_def Let_def)
  show ?case
  proof (cases "can_retry j1")
    case True
    then have "j_retry_count j1 < j_max_retries j1" by (simp add: can_retry_def)
    with 1(1) [OF run [symmetric] refl True 1(2)] True run j1 show ?thesis
      by (subst (1 2) run_attempts.simps) simp
  next
    case False
    have "j_retry_count j + 1 \<le> j_max_retries j" using 1(3) by (metis inc_le)
    with False j1 have "j_retry_count j1 = j_max_retries j" by (auto simp: can_retry_def)
    with False run j1 show ?thesis by (subst (1 2) run_attempts.simps) simp
  qed
qed

lemma run_attempts_completes:
  assumes "outcome k = Inr out"
  shows "run_attempts err_text now outcome k j = mark_completed now out (mark_running now j)"
  using assms by (subst run_attempts.simps) (simp add: run_job_def)

text \<open>
  A background job that keeps failing never ends: the loop stops when no retry is left, but
  the last failure has put the job back to pending, so the stored job stays pending with all its
  retries used, can never be evicted, and no one runs it again.
\<close>

theorem failing_wasm_job_stays_pending:
  assumes "hm_wf jobs" and "hm_get jobs i = Some st" and "j_retry_count (sw_job st) < j_max_retries (sw_job st)"
    and "\<forall>k. \<not> is_ok (outcome k)" and "run_wasm_job err_text now (Ok ()) outcome i jobs = (res, jobs')"
  shows "\<exists>j. res = Some j \<and> get_wasm_job jobs' i = Some j \<and> j_status j = Pending \<and>
    j_retry_count j = j_max_retries (sw_job st) \<and> i \<notin> set (oldest_terminal jobs')"
proof -
  let ?j = "run_attempts err_text now outcome 0 (mark_running now (sw_job st))"
  have j: "j_status ?j = Pending" "j_retry_count ?j = j_max_retries (sw_job st)"
    using run_attempts_failing [OF assms(4), of "mark_running now (sw_job st)"] assms(3)
    by (simp_all add: mark_running_def)
  have r: "res = Some ?j" "jobs' = hm_insert i (st \<lparr> sw_job := ?j \<rparr>) jobs"
    using assms(2,5) by (auto simp: run_wasm_job_def Let_def)
  have wf: "hm_wf jobs'" using assms(1) r(2) by simp
  have "i \<notin> set (oldest_terminal jobs')"
  proof
    assume "i \<in> set (oldest_terminal jobs')"
    from oldest_terminal_live [OF wf this] j(1) r(2) show False
      by (auto simp: hm_simps terminal_def simp del: map_of_eq_Some_iff)
  qed
  with r j show ?thesis by (simp add: get_wasm_job_def hm_simps)
qed

definition demo_stored :: wasm_store where
  "demo_stored = [(''a'', \<lparr> sw_job = job_new 1 0 ''wasm'', sw_wasm = [], sw_input = [] \<rparr>)]"

theorem failing_wasm_job_stays_pending_witness:
  "\<exists>j. get_wasm_job (snd (run_wasm_job (\<lambda>_. ''trap'') 5 (Ok ()) (\<lambda>_. Inl MemoryGrowTrap) ''a'' demo_stored)) ''a'' = Some j \<and>
     j_status j = Pending \<and> j_retry_count j = 3"
  using failing_wasm_job_stays_pending [of demo_stored "''a''" "\<lparr> sw_job = job_new 1 0 ''wasm'', sw_wasm = [], sw_input = [] \<rparr>"
      "\<lambda>_. Inl MemoryGrowTrap" "\<lambda>_. ''trap''" 5, OF _ _ _ _ prod.collapse [symmetric]]
  by (auto simp: demo_stored_def job_new_def)

end
