(* ===== verification/Server_State.thy ===== *)
theory Server_State
  imports Messages Access Sharding Durable_Values Wal_Log Wasm_Jobs
begin

text \<open>
  The state of the server and the operations on it that the request handlers use
  (\<open>blitz-server/src/server.rs\<close>, with the senders of \<open>durability.rs\<close> and the tokenizer of
  \<open>social.rs\<close>): authentication and authorization, idempotency keys, the change log with its push
  subscribers, the search index, the queue of fan-out jobs, the deployed procedures and the
  senders of the write-ahead log. Bounded channels are their queues; the threads that empty them
  are not part of this state. Each operation is one step: the locks it takes are held for its
  whole effect, or guard a part that no other operation changes.
\<close>

section \<open>State\<close>

record change_record =
  cr_seq :: u64
  cr_table :: string
  cr_op :: string
  cr_row_id :: u64
  cr_ts_micros :: u64

definition MAX_CHANGES_PER_TABLE :: nat where "MAX_CHANGES_PER_TABLE = 128"

record push_channel =
  pch_queue :: "change_record list"
  pch_open :: bool

record fanout_job =
  fj_table :: string
  fj_row_id :: u64
  fj_author :: string

definition FANOUT_QUEUE :: nat where "FANOUT_QUEUE = 4096"

record fanout_sender =
  fs_queue :: "fanout_job list"
  fs_open :: bool

record pending_write =
  pw_entry :: entry_type
  pw_table :: string
  pw_row_id :: u64
  pw_data :: "u8 list"

record wal_sender =
  ws_queue :: "pending_write list"
  ws_open :: bool
  ws_dropped_full :: u64

record wal_cluster =
  wc_shards :: "wal_sender list"
  wc_n :: nat

record registered_procedure =
  rg_proc :: procedure
  rg_version :: u64

record server_config =
  cf_skip_validation :: bool
  cf_require_auth :: bool
  cf_auth_tokens :: "(string, identity) hmap"
  cf_table_shards :: table_shards
  cf_row_owner :: "(string, string) hmap"

record server =
  sv_config :: server_config
  sv_tx_manager :: tx_manager
  sv_policy :: policy_engine
  sv_identities :: "(string, identity) hmap"
  sv_sessions :: "(string, session) hmap"
  sv_wal :: "wal_cluster option"
  sv_wal_enabled :: bool
  sv_wal_rotating :: bool
  sv_wal_dropped_full :: u64
  sv_idem :: "(string, u64) hmap list"
  sv_changes :: "(string, change_record list) hmap"
  sv_change_seq :: u64
  sv_changes_used :: bool
  sv_push_hub :: "(string, (u64 \<times> push_channel) list) hmap"
  sv_push_used :: bool
  sv_push_dropped :: u64
  sv_push_delivered :: u64
  sv_search_index :: "(string, (string \<times> u64) list) hmap"
  sv_fanout_tx :: "fanout_sender option"
  sv_fanout_done :: u64
  sv_fanout_dropped :: u64
  sv_procedures :: "(string, registered_procedure) hmap"
  sv_functions :: function_registry
  sv_wasm_jobs :: wasm_store

text \<open>
  What the server takes from outside: hashing and texts of values, the standard library's hash of
  a table name, the order in which a hash map iterates, the debug text of a value.
\<close>

record server_env =
  se_hash :: hash_env
  se_json :: json_env
  se_table_hash :: "string \<Rightarrow> u64"
  se_key_order :: "string list \<Rightarrow> string list"
  se_debug :: "val \<Rightarrow> string"
  se_proc :: proc_env

abbreviation sv_engine :: "server \<Rightarrow> engine" where
  "sv_engine s \<equiv> tm_engine (sv_tx_manager s)"

definition set_engine :: "engine \<Rightarrow> server \<Rightarrow> server" where
  "set_engine e s = s \<lparr> sv_tx_manager := (sv_tx_manager s) \<lparr> tm_engine := e \<rparr> \<rparr>"

definition server_new :: "server_config \<Rightarrow> function_registry \<Rightarrow> server" where
  "server_new c builtins =
     \<lparr> sv_config = c, sv_tx_manager = tm_new engine_new, sv_policy = policy_new,
       sv_identities = [], sv_sessions = [], sv_wal = None, sv_wal_enabled = False,
       sv_wal_rotating = False, sv_wal_dropped_full = 0, sv_idem = replicate IDEM_SHARDS [],
       sv_changes = [], sv_change_seq = 1, sv_changes_used = False, sv_push_hub = [],
       sv_push_used = False, sv_push_dropped = 0, sv_push_delivered = 0, sv_search_index = [],
       sv_fanout_tx = None, sv_fanout_done = 0, sv_fanout_dropped = 0, sv_procedures = [],
       sv_functions = builtins, sv_wasm_jobs = [] \<rparr>"

section \<open>Authentication and authorization\<close>

definition resolve_token :: "int \<Rightarrow> string \<Rightarrow> server \<Rightarrow> identity option \<times> server" where
  "resolve_token now token s =
     (case hm_get (sv_sessions s) token of
        Some sess \<Rightarrow>
          if session_is_expired now sess
          then (hm_get (sv_identities s) token, s \<lparr> sv_sessions := hm_remove token (sv_sessions s) \<rparr>)
          else (Some (ss_identity sess), s)
      | None \<Rightarrow> (hm_get (sv_identities s) token, s))"

text \<open>The clock, in milliseconds, is read once per call here; the source reads it for each of the two
  times, and panics on a lifetime that no date can hold.\<close>

definition register_session :: "128 word \<Rightarrow> int \<Rightarrow> string \<Rightarrow> identity \<Rightarrow> u64 \<Rightarrow> server \<Rightarrow> server" where
  "register_session uuid now token identity ttl_secs s =
     s \<lparr> sv_sessions := hm_insert token
           \<lparr> ss_id = uuid, ss_identity = identity, ss_created_at = now,
             ss_expires_at = now + sint ttl_secs * 1000 \<rparr> (sv_sessions s) \<rparr>"

definition register_identity :: "string \<Rightarrow> identity \<Rightarrow> server \<Rightarrow> server" where
  "register_identity i identity s = s \<lparr> sv_identities := hm_insert i identity (sv_identities s) \<rparr>"

definition get_identity :: "server \<Rightarrow> string \<Rightarrow> identity option" where
  "get_identity s i = hm_get (sv_identities s) i"

fun op_permission :: "op \<Rightarrow> permission option" where
  "op_permission OpInsert = Some PWrite"
| "op_permission OpUpdate = Some PWrite"
| "op_permission OpGet = Some PRead"
| "op_permission OpScan = Some PRead"
| "op_permission OpFind = Some PRead"
| "op_permission OpSubscribe = Some PRead"
| "op_permission OpSearch = Some PRead"
| "op_permission OpDelete = Some PDelete"
| "op_permission OpCall = Some (PCustom ''call'')"
| "op_permission OpJobSubmit = Some (PCustom ''job.submit'')"
| "op_permission OpJobPoll = Some (PCustom ''job.poll'')"
| "op_permission OpProcDeploy = Some (PCustom ''proc.deploy'')"
| "op_permission OpProcList = Some (PCustom ''proc.list'')"
| "op_permission OpProcDrop = Some (PCustom ''proc.drop'')"
| "op_permission OpTableCreate = Some (PCustom ''table.create'')"
| "op_permission OpPing = None"
| "op_permission OpVersion = None"

definition authorize :: "server \<Rightarrow> identity option \<Rightarrow> op \<Rightarrow> string \<Rightarrow> string + unit" where
  "authorize s ident p table =
     (if p = OpPing then Ok ()
      else if \<not> cf_require_auth (sv_config s) then Ok ()
      else
        (case op_permission p of
           None \<Rightarrow> Ok ()
         | Some perm \<Rightarrow>
             (case ident of
                None \<Rightarrow> Err ''unauthorized: authentication required''
              | Some i \<Rightarrow>
                  if has_permission i perm then Ok ()
                  else if policy_check (sv_policy s) i table perm then Ok ()
                  else Err ''forbidden: policy denies'')))"

definition owner_column :: "server \<Rightarrow> string \<Rightarrow> string option" where
  "owner_column s table = hm_get (cf_row_owner (sv_config s)) table"

definition authorize_row :: "server \<Rightarrow> identity option \<Rightarrow> op \<Rightarrow> string \<Rightarrow> val option \<Rightarrow> string + unit" where
  "authorize_row s ident p table owner =
     (case authorize s ident p table of
        Inl e \<Rightarrow> Err e
      | Inr _ \<Rightarrow>
          if \<not> cf_require_auth (sv_config s) then Ok ()
          else if hm_get (cf_row_owner (sv_config s)) table = None then Ok ()
          else
            (case ident of
               None \<Rightarrow> Err ''unauthorized: authentication required''
             | Some i \<Rightarrow>
                 if has_role i ''admin'' then Ok ()
                 else if owner = Some (VString (id_subject i)) then Ok ()
                 else Err ''forbidden: row owner mismatch''))"

definition enforce_owner :: "server \<Rightarrow> identity option \<Rightarrow> op \<Rightarrow> string \<Rightarrow> row_values \<Rightarrow> string + unit" where
  "enforce_owner s authed p base vals =
     (case owner_column s base of
        None \<Rightarrow> Ok ()
      | Some col \<Rightarrow> authorize_row s authed p base (hm_get vals col))"

section \<open>Idempotency keys\<close>

definition IDEM_SHARD_CAP :: nat where "IDEM_SHARD_CAP = 16000"

definition idem_lookup :: "server \<Rightarrow> string \<Rightarrow> u64 option" where
  "idem_lookup s key = hm_get (sv_idem s ! idem_shard key) key"

text \<open>Half of a full shard is dropped, in the order the hash map iterates.\<close>

definition idem_evict :: "(string list \<Rightarrow> string list) \<Rightarrow> (string, u64) hmap \<Rightarrow> (string, u64) hmap" where
  "idem_evict order g =
     (if IDEM_SHARD_CAP \<le> length g
      then fold hm_remove (take (length g div 2) (order (hm_keys g))) g else g)"

definition idem_record :: "server_env \<Rightarrow> string \<Rightarrow> u64 \<Rightarrow> server \<Rightarrow> server" where
  "idem_record e key rid s =
     (let shard = idem_shard key in
      s \<lparr> sv_idem := (sv_idem s)[shard := hm_insert key rid
            (idem_evict (se_key_order e) (sv_idem s ! shard))] \<rparr>)"

section \<open>Changes and their subscribers\<close>

definition PUSH_DEPTH :: nat where "PUSH_DEPTH = 64"

definition push_try_send :: "change_record \<Rightarrow> push_channel \<Rightarrow> push_channel option" where
  "push_try_send r ch =
     (if pch_open ch \<and> length (pch_queue ch) < PUSH_DEPTH
      then Some (ch \<lparr> pch_queue := pch_queue ch @ [r] \<rparr>) else None)"

definition push_fanout :: "string \<Rightarrow> change_record \<Rightarrow> server \<Rightarrow> server" where
  "push_fanout table r s =
     (if \<not> sv_push_used s then s
      else
        (case hm_get (sv_push_hub s) table of
           None \<Rightarrow> s
         | Some targets \<Rightarrow>
             (let dead = map fst (filter (\<lambda>(i, ch). push_try_send r ch = None) targets);
                  sent = map (\<lambda>(i, ch). (i, case push_try_send r ch of Some ch' \<Rightarrow> ch' | None \<Rightarrow> ch)) targets in
              s \<lparr> sv_push_delivered := sv_push_delivered s + of_nat (length targets - length dead),
                  sv_push_dropped := sv_push_dropped s + of_nat (length dead),
                  sv_push_hub := hm_insert table (filter (\<lambda>(i, ch). i \<notin> set dead) sent) (sv_push_hub s) \<rparr>)))"

definition record_change :: "u64 \<Rightarrow> string \<Rightarrow> string \<Rightarrow> u64 \<Rightarrow> server \<Rightarrow> server" where
  "record_change ts table p rid s =
     (if \<not> sv_changes_used s then s
      else
        (let r = \<lparr> cr_seq = sv_change_seq s, cr_table = table, cr_op = p, cr_row_id = rid, cr_ts_micros = ts \<rparr>;
             q = (case hm_get (sv_changes s) table of Some q \<Rightarrow> q | None \<Rightarrow> []) in
         push_fanout table r
           (s \<lparr> sv_change_seq := sv_change_seq s + 1,
                sv_changes := hm_insert table (trim_front MAX_CHANGES_PER_TABLE (q @ [r])) (sv_changes s) \<rparr>)))"

definition read_changes :: "string \<Rightarrow> u64 \<Rightarrow> nat \<Rightarrow> server \<Rightarrow> change_record list \<times> server" where
  "read_changes table since limit s =
     ((case hm_get (sv_changes s) table of
         Some q \<Rightarrow> take (min (max limit 1) 1000) (filter (\<lambda>r. since < cr_ts_micros r) q)
       | None \<Rightarrow> []),
      s \<lparr> sv_changes_used := True \<rparr>)"

definition push_subscribe :: "string \<Rightarrow> server \<Rightarrow> u64 \<times> server" where
  "push_subscribe table s =
     (let sub = sv_change_seq s;
          subs = (case hm_get (sv_push_hub s) table of Some v \<Rightarrow> v | None \<Rightarrow> []) in
      (sub, s \<lparr> sv_changes_used := True, sv_push_used := True, sv_change_seq := sv_change_seq s + 1,
                sv_push_hub := hm_insert table (subs @ [(sub, \<lparr> pch_queue = [], pch_open = True \<rparr>)]) (sv_push_hub s) \<rparr>))"

definition push_unsubscribe :: "string \<Rightarrow> u64 \<Rightarrow> server \<Rightarrow> server" where
  "push_unsubscribe table sub s =
     (case hm_get (sv_push_hub s) table of
        None \<Rightarrow> s
      | Some v \<Rightarrow> s \<lparr> sv_push_hub := hm_insert table (filter (\<lambda>(i, _). i \<noteq> sub) v) (sv_push_hub s) \<rparr>)"

section \<open>Search\<close>

definition to_ascii_lowercase :: "char \<Rightarrow> char" where
  "to_ascii_lowercase c =
     (if 65 \<le> (of_char c :: nat) \<and> (of_char c :: nat) \<le> 90 then char_of (of_char c + 32 :: nat) else c)"

fun tok_loop :: "string \<Rightarrow> string \<Rightarrow> string list \<Rightarrow> string list" where
  "tok_loop [] cur terms = (if cur \<noteq> [] \<and> length terms < 8 then terms @ [cur] else terms)"
| "tok_loop (ch # cs) cur terms =
     (if ascii_alphanumeric ch
      then (let cur = cur @ [to_ascii_lowercase ch] in
            if 24 \<le> length cur
            then (let terms = terms @ [cur] in if 8 \<le> length terms then terms else tok_loop cs [] terms)
            else tok_loop cs cur terms)
      else if cur \<noteq> []
      then (let terms = terms @ [cur] in if 8 \<le> length terms then terms else tok_loop cs [] terms)
      else tok_loop cs cur terms)"

definition tokenize :: "string \<Rightarrow> string list" where
  "tokenize text = tok_loop text [] []"

definition POSTINGS_CAP :: nat where "POSTINGS_CAP = 128"

definition index_term :: "string \<Rightarrow> u64 \<Rightarrow> string \<Rightarrow> (string, (string \<times> u64) list) hmap \<Rightarrow> (string, (string \<times> u64) list) hmap" where
  "index_term table rid term idx =
     (let q = (case hm_get idx term of Some q \<Rightarrow> q | None \<Rightarrow> []) in
      hm_insert term (trim_front POSTINGS_CAP (filter (\<lambda>p. p \<noteq> (table, rid)) q @ [(table, rid)])) idx)"

definition index_post :: "string \<Rightarrow> u64 \<Rightarrow> string \<Rightarrow> server \<Rightarrow> server" where
  "index_post table rid body s =
     s \<lparr> sv_search_index := fold (index_term table rid) (take 8 (tokenize body)) (sv_search_index s) \<rparr>"

definition postings :: "server \<Rightarrow> string \<Rightarrow> (string \<times> u64) list" where
  "postings s t = (case hm_get (sv_search_index s) t of Some q \<Rightarrow> q | None \<Rightarrow> [])"

definition search_posts :: "server \<Rightarrow> string \<Rightarrow> nat \<Rightarrow> (string \<times> u64) list" where
  "search_posts s query limit =
     (let limit = max (min (max limit 1) 100) 1 in
      case tokenize query of
        [] \<Rightarrow> []
      | t # ts \<Rightarrow>
          (let hits = postings s t;
               hits = (case ts of [] \<Rightarrow> hits | t2 # _ \<Rightarrow> filter (\<lambda>h. h \<in> set (postings s t2)) hits) in
           if limit < length hits then drop (length hits - limit) hits else hits))"

definition post_table :: "string \<Rightarrow> bool" where
  "post_table t \<longleftrightarrow> t = ''posts'' \<or> prefix ''posts_'' t"

definition rebuild_search_index :: "server \<Rightarrow> nat \<times> server" where
  "rebuild_search_index s =
     fold (\<lambda>table (n, s).
         fold (\<lambda>r (n, s). case hm_get (row_values r) ''body'' of
                             Some (VString body) \<Rightarrow> (n + 1, index_post table (row_id r) body s)
                           | _ \<Rightarrow> (n, s))
           (case engine_scan table (sv_engine s) of Inr rows \<Rightarrow> rows | Inl _ \<Rightarrow> []) (n, s))
       (sort (filter post_table (engine_table_names (sv_engine s)))) (0, s)"

section \<open>Fan-out jobs\<close>

definition install_fanout_channel :: "server \<Rightarrow> server" where
  "install_fanout_channel s = s \<lparr> sv_fanout_tx := Some \<lparr> fs_queue = [], fs_open = True \<rparr> \<rparr>"

definition fanout_enqueue :: "string \<Rightarrow> u64 \<Rightarrow> string \<Rightarrow> server \<Rightarrow> server" where
  "fanout_enqueue table rid author s =
     (case sv_fanout_tx s of
        None \<Rightarrow> s
      | Some f \<Rightarrow>
          if fs_open f \<and> length (fs_queue f) < FANOUT_QUEUE
          then s \<lparr> sv_fanout_tx := Some (f \<lparr> fs_queue := fs_queue f @
                   [\<lparr> fj_table = table, fj_row_id = rid, fj_author = author \<rparr>] \<rparr>) \<rparr>
          else s \<lparr> sv_fanout_dropped := sv_fanout_dropped s + 1 \<rparr>)"

definition fanout_record_done :: "u64 \<Rightarrow> server \<Rightarrow> server" where
  "fanout_record_done n s = (if 0 < n then s \<lparr> sv_fanout_done := sv_fanout_done s + n \<rparr> else s)"

section \<open>Procedures\<close>

definition deploy_procedure :: "procedure \<Rightarrow> server \<Rightarrow> (deploy_fault + u64) \<times> server" where
  "deploy_procedure p s =
     (case validate_procedure p (sv_functions s) of
        Inl e \<Rightarrow> (Err e, s)
      | Inr _ \<Rightarrow>
          (let version = (case hm_get (sv_procedures s) (pc_name p) of Some r \<Rightarrow> rg_version r + 1 | None \<Rightarrow> 1) in
           (Ok version, s \<lparr> sv_procedures := hm_insert (pc_name p) \<lparr> rg_proc = p, rg_version = version \<rparr> (sv_procedures s) \<rparr>)))"

definition drop_procedure :: "string \<Rightarrow> server \<Rightarrow> bool \<times> server" where
  "drop_procedure name s =
     (hm_get (sv_procedures s) name \<noteq> None, s \<lparr> sv_procedures := hm_remove name (sv_procedures s) \<rparr>)"

definition server_procedure :: "server \<Rightarrow> string \<Rightarrow> procedure option" where
  "server_procedure s name = map_option rg_proc (hm_get (sv_procedures s) name)"

definition list_procedures :: "server \<Rightarrow> (string \<times> string \<times> u64 \<times> nat) list" where
  "list_procedures s =
     sort_key fst (map (\<lambda>(n, r). (n, pc_description (rg_proc r), rg_version r, length (pc_steps (rg_proc r)))) (sv_procedures s))"

definition server_call_function :: "server_env \<Rightarrow> server \<Rightarrow> string \<Rightarrow> row_values \<Rightarrow> string + val" where
  "server_call_function e s name args =
     (case registry_execute (sv_functions s) name args of
        Inl err \<Rightarrow> Err (runtime_error_text (se_debug e) err)
      | Inr v \<Rightarrow> Ok v)"

section \<open>The senders of the log\<close>

definition WAL_QUEUE :: nat where "WAL_QUEUE = 131072"

definition sender_append :: "pending_write \<Rightarrow> wal_sender \<Rightarrow> (string + unit) \<times> wal_sender" where
  "sender_append w x =
     (if \<not> ws_open x then (Err ''WAL closed'', x \<lparr> ws_dropped_full := ws_dropped_full x + 1 \<rparr>)
      else if WAL_QUEUE \<le> length (ws_queue x)
      then (Err ''WAL backpressure (group full)'', x \<lparr> ws_dropped_full := ws_dropped_full x + 1 \<rparr>)
      else (Ok (), x \<lparr> ws_queue := ws_queue x @ [w] \<rparr>))"

definition wal_route :: "(string \<Rightarrow> u64) \<Rightarrow> wal_cluster \<Rightarrow> string \<Rightarrow> nat" where
  "wal_route hash c table = unat (hash table) mod max (wc_n c) 1"

definition cluster_append :: "(string \<Rightarrow> u64) \<Rightarrow> pending_write \<Rightarrow> wal_cluster \<Rightarrow> (string + unit) \<times> wal_cluster" where
  "cluster_append hash w c =
     (if wc_shards c = [] then (Ok (), c)
      else
        (let i = wal_route hash c (pw_table w);
             (res, x) = sender_append w (wc_shards c ! i) in
         (res, c \<lparr> wc_shards := (wc_shards c)[i := x] \<rparr>)))"

definition wal_log :: "server_env \<Rightarrow> entry_type \<Rightarrow> string \<Rightarrow> u64 \<Rightarrow> u8 list \<Rightarrow> server \<Rightarrow> (string + unit) \<times> server" where
  "wal_log e entry table rid data s =
     (if \<not> sv_wal_enabled s then (Ok (), s)
      else if sv_wal_rotating s
      then (Err ''WAL rotation in progress'', s \<lparr> sv_wal_dropped_full := sv_wal_dropped_full s + 1 \<rparr>)
      else
        (case sv_wal s of
           None \<Rightarrow> (Ok (), s)
         | Some c \<Rightarrow>
             if wc_shards c = [] then (Ok (), s)
             else
               (let (res, c) = cluster_append (se_table_hash e)
                       \<lparr> pw_entry = entry, pw_table = table, pw_row_id = rid, pw_data = data \<rparr> c;
                    s = s \<lparr> sv_wal := Some c \<rparr> in
                case res of
                  Inl err \<Rightarrow> (Err err, s \<lparr> sv_wal_dropped_full := sv_wal_dropped_full s + 1 \<rparr>)
                | Inr _ \<Rightarrow> (Ok (), s))))"

section \<open>Idempotency keys are kept\<close>

definition idem_inv :: "server \<Rightarrow> bool" where
  "idem_inv s \<longleftrightarrow> length (sv_idem s) = IDEM_SHARDS \<and>
     (\<forall>g \<in> set (sv_idem s). hm_wf g \<and> length g \<le> IDEM_SHARD_CAP)"

lemma idem_shard_bound: "idem_shard key < IDEM_SHARDS"
proof -
  have "(w AND 15 :: u64) = take_bit 4 w" for w by (simp add: take_bit_eq_mask mask_numeral)
  then have "unat (w AND 15 :: u64) < 16" for w by (simp only: unsigned_take_bit_eq) (simp add: take_bit_eq_mod)
  then show ?thesis by (simp add: idem_shard_def IDEM_SHARDS_def)
qed

lemma fold_remove_length:
  "hm_wf g \<Longrightarrow> distinct ks \<Longrightarrow> set ks \<subseteq> set (hm_keys g) \<Longrightarrow>
   hm_wf (fold hm_remove ks g) \<and> length (fold hm_remove ks g) = length g - length ks"
proof (induction ks arbitrary: g)
  case (Cons k ks)
  have keys: "set (hm_keys (hm_remove k g)) = set (hm_keys g) - {k}" by (simp add: delete_keys)
  have "length (hm_remove k g) = length g - 1"
  proof -
    have "length (hm_remove k g) = card (set (hm_keys (hm_remove k g)))"
      using hm_wf_remove [OF Cons.prems(1), of k] by (metis distinct_card length_map)
    also have "\<dots> = card (set (hm_keys g)) - 1"
      unfolding keys using Cons.prems(3) by (intro card_Diff_singleton) simp
    also have "card (set (hm_keys g)) = length g" using Cons.prems(1) by (metis distinct_card length_map)
    finally show ?thesis .
  qed
  moreover have "set ks \<subseteq> set (hm_keys (hm_remove k g))" using Cons.prems(2,3) keys by auto
  ultimately show ?case using Cons.IH [of "hm_remove k g"] Cons.prems by simp
qed simp

lemma idem_evict_room:
  assumes "hm_wf g" and "length g \<le> IDEM_SHARD_CAP" and "mset (order (hm_keys g)) = mset (hm_keys g)"
  shows "hm_wf (idem_evict order g) \<and> length (idem_evict order g) < IDEM_SHARD_CAP"
proof (cases "IDEM_SHARD_CAP \<le> length g")
  case True
  let ?ks = "take (length g div 2) (order (hm_keys g))"
  have dist: "distinct (order (hm_keys g))" using assms(1,3) by (metis mset_eq_imp_distinct_iff)
  have "set (order (hm_keys g)) = set (hm_keys g)" using assms(3) by (metis set_mset_mset)
  moreover have "length (order (hm_keys g)) = length g" using assms(3) by (metis length_map size_mset)
  ultimately have "set ?ks \<subseteq> set (hm_keys g)" "length ?ks = length g div 2"
    using set_take_subset by (fastforce, simp)
  with fold_remove_length [OF assms(1) _ this(1)] dist show ?thesis
    using True assms(2) by (simp add: idem_evict_def IDEM_SHARD_CAP_def)
qed (use assms in \<open>simp add: idem_evict_def\<close>)

text \<open>
  A recorded idempotency key is found: right after recording, the key gives the row it was
  recorded with, and however many keys are recorded, in whatever order the maps iterate when
  they evict, no shard ever holds more than its limit.
\<close>

lemma idem_record_lookup:
  assumes "idem_inv s" and "\<And>ks. mset (se_key_order e ks) = mset ks"
  shows "idem_inv (idem_record e key r s) \<and> idem_lookup (idem_record e key r s) key = Some r"
proof -
  let ?i = "idem_shard key" and ?g = "idem_evict (se_key_order e) (sv_idem s ! idem_shard key)"
  have i: "?i < length (sv_idem s)" using assms(1) idem_shard_bound by (simp add: idem_inv_def)
  then have "sv_idem s ! ?i \<in> set (sv_idem s)" by simp
  then have g: "hm_wf ?g \<and> length ?g < IDEM_SHARD_CAP"
    using assms by (intro idem_evict_room) (auto simp: idem_inv_def)
  then have "hm_wf (hm_insert key r ?g)" "length (hm_insert key r ?g) \<le> IDEM_SHARD_CAP"
    using length_hm_insert_le [of key r ?g] by auto
  with assms(1) i show ?thesis
    by (auto simp: idem_inv_def idem_record_def idem_lookup_def Let_def hm_simps
        dest!: subsetD [OF set_update_subset_insert])
qed

definition demo_json_env :: json_env where
  "demo_json_env = \<lparr> je_uuid_text = (\<lambda>_. ''u''), je_rfc3339 = int_text, je_date_text = int_text,
     je_to_vec = (\<lambda>_. []) \<rparr>"

definition demo_server_env :: server_env where
  "demo_server_env = \<lparr> se_hash = demo_hash_env, se_json = demo_json_env, se_table_hash = (\<lambda>_. 0),
     se_key_order = (\<lambda>ks. ks), se_debug = display (he_displays demo_hash_env),
     se_proc = \<lparr> pv_js = (\<lambda>_. ''j''), pv_displays = he_displays demo_hash_env \<rparr> \<rparr>"

definition demo_config :: server_config where
  "demo_config = \<lparr> cf_skip_validation = False, cf_require_auth = False, cf_auth_tokens = [],
     cf_table_shards = [], cf_row_owner = [] \<rparr>"

lemma idem_inv_new: "idem_inv (server_new c fns)"
  by (simp add: idem_inv_def server_new_def)

section \<open>Searching finds what was indexed\<close>

lemma tok_loop_bound: "length terms < 8 \<Longrightarrow> length (tok_loop cs cur terms) \<le> 8"
  by (induction cs cur terms rule: tok_loop.induct) (auto simp: Let_def)

definition term_ok :: "string \<Rightarrow> bool" where
  "term_ok t \<longleftrightarrow> t \<noteq> [] \<and> length t \<le> 24 \<and>
     (\<forall>c \<in> set t. ascii_alphanumeric c \<and> to_ascii_lowercase c = c)"

lemma lowercase_ok:
  assumes "ascii_alphanumeric c"
  shows "ascii_alphanumeric (to_ascii_lowercase c) \<and> to_ascii_lowercase (to_ascii_lowercase c) = to_ascii_lowercase c"
proof (cases "65 \<le> (of_char c :: nat) \<and> (of_char c :: nat) \<le> 90")
  case True
  then have "(of_char (char_of (of_char c + 32 :: nat)) :: nat) = of_char c + 32" by simp
  with True show ?thesis by (simp add: to_ascii_lowercase_def ascii_alphanumeric_def less_eq_char_def)
qed (use assms in \<open>auto simp: to_ascii_lowercase_def\<close>)

definition cur_ok :: "string \<Rightarrow> bool" where
  "cur_ok cur \<longleftrightarrow> length cur < 24 \<and> (\<forall>c \<in> set cur. ascii_alphanumeric c \<and> to_ascii_lowercase c = c)"

lemma cur_ok_push:
  assumes "cur_ok cur" and "ascii_alphanumeric ch"
  shows "term_ok (cur @ [to_ascii_lowercase ch])"
    and "length cur < 23 \<Longrightarrow> cur_ok (cur @ [to_ascii_lowercase ch])"
  using assms lowercase_ok [of ch] by (auto simp: cur_ok_def term_ok_def)

lemma tok_loop_ok:
  "\<forall>t \<in> set terms. term_ok t \<Longrightarrow> cur_ok cur \<Longrightarrow> \<forall>t \<in> set (tok_loop cs cur terms). term_ok t"
proof (induction cs cur terms rule: tok_loop.induct)
  case (1 cur terms)
  then show ?case by (auto simp: cur_ok_def term_ok_def)
next
  case (2 ch cs cur terms)
  have none: "cur_ok []" by (simp add: cur_ok_def)
  have full: "cur \<noteq> [] \<Longrightarrow> term_ok cur" using 2(6) by (auto simp: cur_ok_def term_ok_def)
  show ?case
  proof (cases "ascii_alphanumeric ch")
    case True
    note push = cur_ok_push [OF 2(6) True]
    show ?thesis
    proof (cases "length cur < 23")
      case short: True
      have "\<forall>t \<in> set (tok_loop cs (cur @ [to_ascii_lowercase ch]) terms). term_ok t"
        using short 2(5) push(2) [OF short] by (intro 2(2) [OF True refl]) simp_all
      with True short show ?thesis by (simp add: Let_def)
    next
      case False
      have "\<forall>t \<in> set (tok_loop cs [] (terms @ [cur @ [to_ascii_lowercase ch]])). term_ok t" if "length terms < 7"
        using that False 2(5) push(1) none by (intro 2(1) [OF True refl _ refl]) simp_all
      with True False push(1) 2(5) show ?thesis by (simp add: Let_def not_le)
    qed
  next
    case False
    show ?thesis
    proof (cases "cur = []")
      case True
      have "\<forall>t \<in> set (tok_loop cs cur terms). term_ok t"
        using True 2(5,6) by (intro 2(4) [OF False]) simp_all
      with True False show ?thesis by simp
    next
      case nonempty: False
      have "\<forall>t \<in> set (tok_loop cs [] (terms @ [cur])). term_ok t" if "length terms < 7"
        using that 2(5) full [OF nonempty] none by (intro 2(3) [OF False nonempty refl]) simp_all
      with False nonempty full 2(5) show ?thesis by (simp add: Let_def not_le)
    qed
  qed
qed

lemma tokenize_ok: "length (tokenize body) \<le> 8 \<and> (\<forall>t \<in> set (tokenize body). term_ok t)"
  using tok_loop_bound [of "[]" body "[]"] tok_loop_ok [of "[]" "[]" body] by (simp add: tokenize_def cur_ok_def)

lemma index_term_last:
  assumes "p = (table, rid)"
  shows "\<exists>q. hm_get (index_term table rid t idx) t = Some (q @ [p])"
    and "t' \<noteq> t \<Longrightarrow> hm_get (index_term table rid t idx) t' = hm_get idx t'"
  using assms by (auto simp: index_term_def Let_def hm_simps trim_front_keep_last keep_last_def POSTINGS_CAP_def drop_append)

lemma index_terms_last:
  assumes "t \<in> set ts"
  shows "\<exists>q. hm_get (fold (index_term table rid) ts idx) t = Some (q @ [(table, rid)])"
proof -
  have keep: "\<exists>q. hm_get idx t = Some (q @ [(table, rid)]) \<Longrightarrow>
      \<exists>q. hm_get (fold (index_term table rid) ts idx) t = Some (q @ [(table, rid)])" for ts idx
  proof (induction ts arbitrary: idx)
    case (Cons u ts)
    show ?case
    proof (cases "t = u")
      case True
      then show ?thesis
        using Cons.IH [of "index_term table rid u idx"] index_term_last(1) [OF refl, of table rid u idx] by simp
    next
      case False
      then show ?thesis using Cons by (simp add: index_term_last(2) [OF refl])
    qed
  qed simp
  from assms show ?thesis
  proof (induction ts arbitrary: idx)
    case (Cons u ts)
    then show ?case
      using keep [of "index_term table rid u idx" ts] index_term_last(1) [OF refl, of table rid u idx] by auto
  qed simp
qed

text \<open>
  An indexed post is found: right after a post is indexed, every query whose terms occur in
  its text has the post as its newest hit, whatever was indexed before and whatever the limit.
\<close>

theorem indexed_post_found:
  assumes "tokenize query \<noteq> []" and "set (tokenize query) \<subseteq> set (tokenize body)"
  shows "search_posts (index_post table rid body s) query limit \<noteq> [] \<and>
         last (search_posts (index_post table rid body s) query limit) = (table, rid)"
proof -
  let ?s = "index_post table rid body s" and ?p = "(table, rid)"
  have "take 8 (tokenize body) = tokenize body" using tokenize_ok by simp
  then have post: "\<exists>q. postings ?s t = q @ [?p]" if "t \<in> set (tokenize query)" for t
  proof -
    have "t \<in> set (tokenize body)" using assms(2) that by blast
    from index_terms_last [OF this, of table rid "sv_search_index s"] show ?thesis
      using \<open>take 8 (tokenize body) = tokenize body\<close> by (auto simp: postings_def index_post_def)
  qed
  obtain t ts where q: "tokenize query = t # ts" using assms(1) by (cases "tokenize query") auto
  define hits where "hits = (case ts of [] \<Rightarrow> postings ?s t | t2 # _ \<Rightarrow> filter (\<lambda>h. h \<in> set (postings ?s t2)) (postings ?s t))"
  have "\<exists>r. hits = r @ [?p]"
    using post [of t] post [of "hd ts"] q by (cases ts) (auto simp: hits_def)
  then obtain r where r: "hits = r @ [?p]" by blast
  have "search_posts ?s query limit = (let limit = max (min (max limit 1) 100) 1 in
      if limit < length hits then drop (length hits - limit) hits else hits)"
    unfolding search_posts_def q hits_def by (simp add: Let_def)
  then show ?thesis by (auto simp: r Let_def)
qed

lemma tokenize_demo: "tokenize ''CAT'' = [''cat'']" "tokenize ''A cat, two.'' = [''a'', ''cat'', ''two'']"
  by code_simp+

theorem indexed_post_found_witness:
  "last (search_posts (index_post ''posts'' 3 ''A cat, two.'' (server_new demo_config [])) ''CAT'' 10) = (''posts'', 3)"
  using indexed_post_found [of "''CAT''" "''A cat, two.''" "''posts''" 3 "server_new demo_config []" 10]
  by (simp add: tokenize_demo)

section \<open>Authorization\<close>

lemma authorize_Ok_iff:
  "authorize s ident p table = Ok () \<longleftrightarrow>
     \<not> cf_require_auth (sv_config s) \<or> op_permission p = None \<or>
     (\<exists>i perm. ident = Some i \<and> op_permission p = Some perm \<and>
        (has_permission i perm \<or> policy_check (sv_policy s) i table perm))"
  by (cases p; cases ident) (auto simp: authorize_def)

text \<open>The rows of a table with an owner column that a caller may touch.\<close>

definition owns :: "server \<Rightarrow> identity option \<Rightarrow> string \<Rightarrow> row_values \<Rightarrow> bool" where
  "owns s ident base vals \<longleftrightarrow>
     (cf_require_auth (sv_config s) \<longrightarrow>
       (\<forall>col. owner_column s base = Some col \<longrightarrow>
          (\<exists>i. ident = Some i \<and> (has_role i ''admin'' \<or> hm_get vals col = Some (VString (id_subject i))))))"

lemma enforce_owner_owns: "enforce_owner s ident p base vals = Ok u \<Longrightarrow> owns s ident base vals"
  by (auto simp: enforce_owner_def authorize_row_def owns_def owner_column_def
      split: option.splits sum.splits if_splits)

lemma enforce_owner_authorizes:
  "enforce_owner s ident p base vals = Ok u \<Longrightarrow> owner_column s base \<noteq> None \<Longrightarrow> authorize s ident p base = Ok ()"
  by (auto simp: enforce_owner_def authorize_row_def split: option.splits sum.splits)

end
