(* ===== verification/Proc_Calls.thy ===== *)
theory Proc_Calls
  imports Server_State
begin

text \<open>
  Procedure calls on the server (\<open>ProcBackend\<close>, \<open>execute_procedure\<close>, \<open>emit_write_effects\<close> of
  \<open>blitz-server/src/transport.rs\<close>): the steps of a procedure read and buffer writes in one
  transaction with the rights of the caller; the commit applies them, and the log, the change
  feed and the derived data follow. The clock is read once per request.
\<close>

section \<open>The backend of a call\<close>

record proc_write =
  pwr_base :: string
  pwr_physical :: string
  pwr_shard :: nat
  pwr_entry :: entry_type
  pwr_values :: "row_values option"

record proc_backend =
  pb_server :: server
  pb_ident :: "identity option"
  pb_tx :: transaction
  pb_writes :: "proc_write list"
  pb_seen :: "(string \<times> string \<times> string) set"

definition pb_deny :: "proc_backend \<Rightarrow> op \<Rightarrow> string \<Rightarrow> string + unit" where
  "pb_deny b p table = authorize (pb_server b) (pb_ident b) p table"

definition pb_deny_row :: "proc_backend \<Rightarrow> op \<Rightarrow> string \<Rightarrow> row_values \<Rightarrow> string + unit" where
  "pb_deny_row b p table vals = enforce_owner (pb_server b) (pb_ident b) p table vals"

text \<open>Only columns declared unique are checked here; the engine also indexes primary keys.\<close>

fun check_unique_columns ::
  "server_env \<Rightarrow> engine \<Rightarrow> string \<Rightarrow> row_values \<Rightarrow> column_def list \<Rightarrow> (string \<times> string \<times> string) set \<Rightarrow>
   (string + unit) \<times> (string \<times> string \<times> string) set" where
  "check_unique_columns e eng table vals [] seen = (Ok (), seen)"
| "check_unique_columns e eng table vals (c # cs) seen =
     (if \<not> col_unique c then check_unique_columns e eng table vals cs seen
      else
        (case hm_get vals (col_name c) of
           None \<Rightarrow> check_unique_columns e eng table vals cs seen
         | Some v \<Rightarrow>
             (let key = (table, col_name c, se_debug e v) in
              if key \<in> seen
              then (Err (''duplicate value in call for unique '' @ table @ ''.'' @ col_name c), seen)
              else if (case engine_lookup_by_unique table (col_name c) v eng of Inr (Some _) \<Rightarrow> True | _ \<Rightarrow> False)
              then (Err (''duplicate value for unique '' @ table @ ''.'' @ col_name c), insert key seen)
              else check_unique_columns e eng table vals cs (insert key seen))))"

definition pb_check_unique :: "server_env \<Rightarrow> string \<Rightarrow> row_values \<Rightarrow> proc_backend \<Rightarrow> (string + unit) \<times> proc_backend" where
  "pb_check_unique e table vals b =
     (case engine_schema table (sv_engine (pb_server b)) of
        Inl _ \<Rightarrow> (Ok (), b)
      | Inr schema \<Rightarrow>
          (let (res, seen) = check_unique_columns e (sv_engine (pb_server b)) table vals (ts_columns schema) (pb_seen b) in
           (res, b \<lparr> pb_seen := seen \<rparr>)))"

definition blob_too_large :: "string \<Rightarrow> row_values \<Rightarrow> bool" where
  "blob_too_large table vals =
     (prefix ''media'' table \<and>
      (case hm_get vals ''blob'' of Some (VBytes b) \<Rightarrow> 262144 < length b | _ \<Rightarrow> False))"

definition pb_get :: "string \<Rightarrow> u64 \<Rightarrow> proc_backend \<Rightarrow> (tx_error + row option) \<times> proc_backend" where
  "pb_get physical local b =
     (let (res, tx) = tm_get (sv_tx_manager (pb_server b)) physical local (pb_tx b) in (res, b \<lparr> pb_tx := tx \<rparr>))"

definition pb_read :: "server_env \<Rightarrow> string \<Rightarrow> u64 \<Rightarrow> proc_backend \<Rightarrow> (runtime_error + row_values option) \<times> proc_backend" where
  "pb_read e table i b =
     (case pb_deny b OpGet table of
        Inl m \<Rightarrow> (Err (ExecutionError m), b)
      | Inr _ \<Rightarrow>
          (let (physical, local) = route_id (cf_table_shards (sv_config (pb_server b))) table i in
           case pb_get physical local b of
             (Inl err, b) \<Rightarrow> (Err (ExecutionError (tx_error_text (se_debug e) err)), b)
           | (Inr None, b) \<Rightarrow> (Ok None, b)
           | (Inr (Some r), b) \<Rightarrow>
               (case pb_deny_row b OpGet table (row_values r) of
                  Inl m \<Rightarrow> (Err (ExecutionError m), b)
                | Inr _ \<Rightarrow> (Ok (Some (row_values r)), b))))"

definition pb_push :: "server_env \<Rightarrow> (tx_error + unit) \<times> transaction \<Rightarrow> proc_write \<Rightarrow> proc_backend \<Rightarrow> (runtime_error + unit) \<times> proc_backend" where
  "pb_push e pushed w b =
     (case pushed of
        (Inl err, tx) \<Rightarrow> (Err (ExecutionError (tx_error_text (se_debug e) err)), b \<lparr> pb_tx := tx \<rparr>)
      | (Inr _, tx) \<Rightarrow> (Ok (), b \<lparr> pb_tx := tx, pb_writes := pb_writes b @ [w] \<rparr>))"

definition pb_insert :: "server_env \<Rightarrow> string \<Rightarrow> row_values \<Rightarrow> proc_backend \<Rightarrow> (runtime_error + unit) \<times> proc_backend" where
  "pb_insert e table vals b =
     (case pb_deny b OpInsert table of
        Inl m \<Rightarrow> (Err (ExecutionError m), b)
      | Inr _ \<Rightarrow>
          if blob_too_large table vals then (Err (ExecutionError ''blob too large (max 256KiB)''), b)
          else
            (let (physical, shard) = route_insert (se_hash e) (cf_table_shards (sv_config (pb_server b))) table vals in
             case pb_check_unique e physical vals b of
               (Inl m, b) \<Rightarrow> (Err (ExecutionError m), b)
             | (Inr _, b) \<Rightarrow>
                 (case pb_deny_row b OpInsert table vals of
                    Inl m \<Rightarrow> (Err (ExecutionError m), b)
                  | Inr _ \<Rightarrow>
                      pb_push e (tx_insert physical \<lparr> row_id = 0, row_values = vals \<rparr> (pb_tx b))
                        \<lparr> pwr_base = table, pwr_physical = physical, pwr_shard = shard,
                          pwr_entry = EInsert, pwr_values = Some vals \<rparr> b)))"

text \<open>What update and delete share: the rights, the read of the row and the ownership check.\<close>

definition pb_existing :: "server_env \<Rightarrow> op \<Rightarrow> string \<Rightarrow> u64 \<Rightarrow> proc_backend \<Rightarrow> (runtime_error + string \<times> u64) \<times> proc_backend" where
  "pb_existing e p table i b =
     (case pb_deny b p table of
        Inl m \<Rightarrow> (Err (ExecutionError m), b)
      | Inr _ \<Rightarrow>
          (let (physical, local) = route_id (cf_table_shards (sv_config (pb_server b))) table i in
           case pb_get physical local b of
             (Inl err, b) \<Rightarrow> (Err (ExecutionError (tx_error_text (se_debug e) err)), b)
           | (Inr None, b) \<Rightarrow> (Err (ExecutionError (''row not found: '' @ table @ '':'' @ u64_text i)), b)
           | (Inr (Some r), b) \<Rightarrow>
               (case pb_deny_row b p table (row_values r) of
                  Inl m \<Rightarrow> (Err (ExecutionError m), b)
                | Inr _ \<Rightarrow> (Ok (physical, local), b))))"

definition pb_update :: "server_env \<Rightarrow> string \<Rightarrow> u64 \<Rightarrow> row_values \<Rightarrow> proc_backend \<Rightarrow> (runtime_error + unit) \<times> proc_backend" where
  "pb_update e table i vals b =
     (case pb_existing e OpUpdate table i b of
        (Inl err, b) \<Rightarrow> (Err err, b)
      | (Inr (physical, local), b) \<Rightarrow>
          pb_push e (tx_update physical local vals (pb_tx b))
            \<lparr> pwr_base = table, pwr_physical = physical, pwr_shard = fst (split_id i),
              pwr_entry = EUpdate, pwr_values = Some vals \<rparr> b)"

definition pb_delete :: "server_env \<Rightarrow> string \<Rightarrow> u64 \<Rightarrow> proc_backend \<Rightarrow> (runtime_error + unit) \<times> proc_backend" where
  "pb_delete e table i b =
     (case pb_existing e OpDelete table i b of
        (Inl err, b) \<Rightarrow> (Err err, b)
      | (Inr (physical, local), b) \<Rightarrow>
          pb_push e (tx_delete physical local (pb_tx b))
            \<lparr> pwr_base = table, pwr_physical = physical, pwr_shard = fst (split_id i),
              pwr_entry = EDelete, pwr_values = None \<rparr> b)"

definition pb_call :: "server_env \<Rightarrow> string \<Rightarrow> row_values \<Rightarrow> proc_backend \<Rightarrow> runtime_error + val" where
  "pb_call e name args b = map_err ExecutionError (server_call_function e (pb_server b) name args)"

definition proc_ops :: "server_env \<Rightarrow> proc_backend backend" where
  "proc_ops e = \<lparr> bk_read = pb_read e, bk_insert = pb_insert e, bk_update = pb_update e,
     bk_delete = pb_delete e, bk_call = pb_call e \<rparr>"

section \<open>After the commit\<close>

definition entry_op_name :: "entry_type \<Rightarrow> string" where
  "entry_op_name entry =
     (case entry of EInsert \<Rightarrow> ''insert'' | EUpdate \<Rightarrow> ''update'' | EDelete \<Rightarrow> ''delete'' | _ \<Rightarrow> ''write'')"

text \<open>What a new post adds to the search index and to the queue of the fan-out worker.\<close>

definition derive_post :: "string \<Rightarrow> u64 \<Rightarrow> row_values \<Rightarrow> server \<Rightarrow> server" where
  "derive_post physical local v s =
     (let s = (case hm_get v ''body'' of Some (VString body) \<Rightarrow> index_post physical local body s | _ \<Rightarrow> s) in
      case hm_get v ''author'' of
        Some (VString author) \<Rightarrow> fanout_enqueue physical local author s
      | _ \<Rightarrow> s)"

definition emit_write_effects ::
  "server_env \<Rightarrow> u64 \<Rightarrow> string \<Rightarrow> string \<Rightarrow> entry_type \<Rightarrow> u64 \<Rightarrow> u64 \<Rightarrow> row_values option \<Rightarrow> server \<Rightarrow> server" where
  "emit_write_effects e ts base physical entry local global vals s =
     (let data = (case vals of Some v \<Rightarrow> values_to_json_bytes (se_json e) v | None \<Rightarrow> []);
          s = snd (wal_log e entry physical global data s);
          s = record_change ts base (entry_op_name entry) global s in
      if prefix ''posts'' physical \<and> entry = EInsert
      then (case vals of
              None \<Rightarrow> s
            | Some v \<Rightarrow> derive_post physical local v s)
      else s)"

fun flatten_json :: "json \<Rightarrow> val" where
  "flatten_json JNull = VNull"
| "flatten_json (JBool b) = VBoolean b"
| "flatten_json (JNumber n) =
     (case number_as_i64 n of
        Some i \<Rightarrow> VInt64 i
      | None \<Rightarrow>
          (case number_as_u64 n of
             Some u \<Rightarrow> VUInt64 u
           | None \<Rightarrow> (case number_as_f64 n of Some f \<Rightarrow> VFloat64 f | None \<Rightarrow> VJson (JNumber n))))"
| "flatten_json (JString s) = VString s"
| "flatten_json j = VJson j"

definition strip_fn :: "string \<Rightarrow> string option" where
  "strip_fn table = (if prefix ''fn:'' table \<and> drop 3 table \<noteq> [] then Some (drop 3 table) else None)"

definition begin_backend :: "identity option \<Rightarrow> server \<Rightarrow> proc_backend" where
  "begin_backend authed s =
     (let (tx, m) = tm_begin RepeatableRead (sv_tx_manager s) in
      \<lparr> pb_server = s \<lparr> sv_tx_manager := m \<rparr>, pb_ident = authed, pb_tx = tx, pb_writes = [], pb_seen = {} \<rparr>)"

definition call_effects :: "server_env \<Rightarrow> u64 \<Rightarrow> (proc_write \<times> row_key) list \<Rightarrow> server \<Rightarrow> server" where
  "call_effects e ts ws s =
     fold (\<lambda>(w, (_, local)). emit_write_effects e ts (pwr_base w) (pwr_physical w) (pwr_entry w) local
             (compose_id (pwr_shard w) local) (pwr_values w)) ws s"

definition applied_json :: "(proc_write \<times> row_key) list \<Rightarrow> json" where
  "applied_json ws =
     JArray (map (\<lambda>(w, (_, local)). json_object
       [(''table'', JString (pwr_base w)), (''id'', json_of_u64 (compose_id (pwr_shard w) local))]) ws)"

definition call_result :: "val \<Rightarrow> row_values" where
  "call_result v =
     (case v of
        VJson (JObject kvs) \<Rightarrow> hm_extend [] (map (\<lambda>(k, j). (k, flatten_json j)) kvs)
      | _ \<Rightarrow> [(''result'', v)])"

definition call_procedure :: "server_env \<Rightarrow> u64 \<Rightarrow> identity option \<Rightarrow> request \<Rightarrow> server \<Rightarrow> response \<times> server" where
  "call_procedure e ts authed req s =
     (case strip_fn (rq_table req) of
        None \<Rightarrow> (response_err (rq_id req) ''call requires table `fn:<procedure>`'', s)
      | Some name \<Rightarrow>
          (case server_procedure s name of
             None \<Rightarrow> (response_err (rq_id req) (''procedure not found: '' @ name), s)
           | Some p \<Rightarrow>
               (let args = (case rq_values req of Some v \<Rightarrow> v | None \<Rightarrow> []);
                    b0 = begin_backend authed s in
                case run_procedure (proc_ops e) (se_proc e) p args PROC_FUEL b0 of
                  (Inl err, b) \<Rightarrow>
                    (response_err (rq_id req) (''procedure aborted: '' @ runtime_error_text (se_debug e) err), pb_server b)
                | (Inr out, b) \<Rightarrow>
                    (case tm_commit (pb_tx b) (sv_tx_manager (pb_server b)) of
                       (Inl err, _, m) \<Rightarrow>
                         (response_err (rq_id req) (''procedure aborted: '' @ tx_error_text (se_debug e) err),
                          (pb_server b) \<lparr> sv_tx_manager := m \<rparr>)
                     | (Inr touched, _, m) \<Rightarrow>
                         (let ws = zip (pb_writes b) touched in
                          (response_ok (rq_id req)
                             [\<lparr> rv_id = 0, rv_values = hm_insert ''_applied'' (VJson (applied_json ws)) (call_result (po_value out)) \<rparr>],
                           call_effects e ts ws ((pb_server b) \<lparr> sv_tx_manager := m \<rparr>)))))))"

section \<open>Procedure calls\<close>

lemma tm_get_tx: "tm_get m t i tx = (res, tx') \<Longrightarrow> tx_writes tx' = tx_writes tx \<and> tx_state tx' = tx_state tx"
  by (auto simp: tm_get_def tx_record_read_def Let_def split: if_splits option.splits write_op.splits sum.splits)

lemma tx_push_writes:
  "tx_push w tx = (Ok u, tx') \<Longrightarrow> tx_writes tx' = tx_writes tx @ [w] \<and> tx_is_active tx'"
  "tx_push w tx = (Err err, tx') \<Longrightarrow> tx' = tx"
  by (auto simp: tx_push_def tx_is_active_def split: if_splits)

lemma begin_backend_server [simp]:
  "pb_server (begin_backend authed s) = s \<lparr> sv_tx_manager := snd (tm_begin RepeatableRead (sv_tx_manager s)) \<rparr>"
  "pb_ident (begin_backend authed s) = authed"
  by (simp_all add: begin_backend_def tm_begin_def)

lemma tm_begin_engine [simp]: "tm_engine (snd (tm_begin lvl m)) = tm_engine m"
  by (simp add: tm_begin_def)

text \<open>The effects after a commit leave tables, transactions and configuration alone.\<close>

lemma wal_log_engine [simp]:
  "sv_tx_manager (snd (wal_log e entry t i d s)) = sv_tx_manager s"
  "sv_config (snd (wal_log e entry t i d s)) = sv_config s"
  by (auto simp: wal_log_def Let_def split: option.split prod.split sum.split)

lemma record_change_engine [simp]:
  "sv_tx_manager (record_change ts t p i s) = sv_tx_manager s"
  "sv_config (record_change ts t p i s) = sv_config s"
  by (auto simp: record_change_def push_fanout_def Let_def split: option.split)

lemma derived_engine [simp]:
  "sv_tx_manager (index_post t i body s) = sv_tx_manager s"
  "sv_config (index_post t i body s) = sv_config s"
  "sv_tx_manager (fanout_enqueue t i a s) = sv_tx_manager s"
  "sv_config (fanout_enqueue t i a s) = sv_config s"
  by (auto simp: index_post_def fanout_enqueue_def split: option.split)

lemma derive_post_engine [simp]:
  "sv_tx_manager (derive_post ph l v s) = sv_tx_manager s"
  "sv_config (derive_post ph l v s) = sv_config s"
  by (simp_all add: derive_post_def Let_def split: option.split val.split)

lemma emit_write_effects_engine [simp]:
  "sv_tx_manager (emit_write_effects e ts base ph en l g vals s) = sv_tx_manager s"
  by (simp add: emit_write_effects_def Let_def split: option.split)

lemma call_effects_engine [simp]: "sv_tx_manager (call_effects e ts ws s) = sv_tx_manager s"
  by (induction ws arbitrary: s) (auto simp: call_effects_def split: prod.split)

lemma tm_commit_outcome:
  assumes "tm_commit tx m = (res, tx', m')"
  shows "case res of
      Inr touched \<Rightarrow> apply_writes (tx_writes tx) [] (tm_engine m) = (Ok touched, tm_engine m')
    | Inl _ \<Rightarrow> tm_engine m' = tm_engine m \<or> (\<exists>err. apply_writes (tx_writes tx) [] (tm_engine m) = (Err err, tm_engine m'))"
  using assms
  by (auto simp: tm_commit_def tx_has_writes_def Let_def split: if_splits option.splits prod.splits sum.splits)

lemma authorize_cong:
  "sv_config s' = sv_config s \<Longrightarrow> sv_policy s' = sv_policy s \<Longrightarrow> authorize s' ident p t = authorize s ident p t"
  by (simp add: authorize_def split: option.split)

definition demo_table :: table_schema where
  "demo_table = with_column (schema_new 1 ''t'') (column_primary_key (column_new ''k'' TInt64))"

definition demo_call_server :: "proc_step list \<Rightarrow> server" where
  "demo_call_server steps =
     (server_new demo_config []) \<lparr> sv_tx_manager := tm_new (snd (engine_create_table demo_table engine_new)),
       sv_procedures := [(''p'', \<lparr> rg_proc = \<lparr> pc_name = ''p'', pc_description = [], pc_steps = steps \<rparr>, rg_version = 1 \<rparr>)] \<rparr>"

definition insert_k :: "u64 \<Rightarrow> proc_step" where
  "insert_k n = InsertRow ''t'' [(''k'', VInt64 n)] ''x''"

definition demo_call :: "proc_step list \<Rightarrow> response \<times> server" where
  "demo_call steps = call_procedure demo_server_env 0 None
     \<lparr> rq_id = 9, rq_op = OpCall, rq_table = ''fn:p'', rq_row_id = None, rq_values = None \<rparr> (demo_call_server steps)"

lemma demo_call_ok: "rs_ok (fst (demo_call [insert_k 1, insert_k 2]))"
  by code_simp

text \<open>
  A failed call can leave rows behind: only columns declared unique are checked before the
  commit, so a procedure that inserts the same primary key twice fails while its writes are
  applied, and its first row stays in the table although the call reports an error.
\<close>

theorem failed_call_leaves_rows:
  "\<not> rs_ok (fst (demo_call [insert_k 1, insert_k 1])) \<and>
   engine_get ''t'' 1 (sv_engine (demo_call_server [insert_k 1, insert_k 1])) = Ok None \<and>
   engine_get ''t'' 1 (sv_engine (snd (demo_call [insert_k 1, insert_k 1]))) =
     Ok (Some \<lparr> row_id = 1, row_values = [(''k'', VInt64 1)] \<rparr>)"
  by code_simp

end
