(* ===== verification/Scan_Window.thy ===== *)
theory Scan_Window
  imports Server_State
begin

text \<open>
  Pages of a scan (\<open>scan_pagination\<close>, \<open>apply_window\<close> of \<open>blitz-server/src/transport.rs\<close>): the
  window a client asks for with limit, offset, order and cursor, and the binary search that
  finds where it starts. Positions are machine words of 64 bits, so an offset may wrap around.
\<close>

section \<open>The window\<close>

record scan_window =
  sw_limit :: nat
  sw_offset :: nat
  sw_desc :: bool
  sw_cursor :: "u64 option"

definition DEFAULT_SCAN_LIMIT :: nat where "DEFAULT_SCAN_LIMIT = 1000"
definition MAX_SCAN_LIMIT :: nat where "MAX_SCAN_LIMIT = 10000"

fun int_val :: "val \<Rightarrow> nat option" where
  "int_val (VInt64 n) = Some (nat (sint n))"
| "int_val (VInt32 n) = Some (nat (sint n))"
| "int_val (VUInt64 n) = Some (unat n)"
| "int_val (VUInt32 n) = Some (unat n)"
| "int_val _ = None"

definition eq_ignore_ascii_case :: "string \<Rightarrow> string \<Rightarrow> bool" where
  "eq_ignore_ascii_case a b \<longleftrightarrow> map to_ascii_lowercase a = map to_ascii_lowercase b"

definition scan_pagination :: "row_values option \<Rightarrow> scan_window" where
  "scan_pagination vals =
     (let get = (\<lambda>k. Option.bind (Option.bind vals (\<lambda>m. hm_get m k)) int_val) in
      \<lparr> sw_limit = (case get ''_limit'' of
                      Some v \<Rightarrow> if 0 < v then min v MAX_SCAN_LIMIT else DEFAULT_SCAN_LIMIT
                    | None \<Rightarrow> DEFAULT_SCAN_LIMIT),
        sw_offset = (case get ''_offset'' of Some v \<Rightarrow> v | None \<Rightarrow> 0),
        sw_desc = (case Option.bind vals (\<lambda>m. hm_get m ''_order'') of
                     Some (VString s) \<Rightarrow> eq_ignore_ascii_case s ''desc'' | _ \<Rightarrow> False),
        sw_cursor = map_option of_nat (get ''_cursor'') \<rparr>)"

text \<open>The first position in \<open>[lo, hi)\<close> where \<open>skip\<close> does not hold, by bisection.\<close>

function bisect :: "(nat \<Rightarrow> bool) \<Rightarrow> nat \<Rightarrow> nat \<Rightarrow> nat" where
  "bisect skip lo hi =
     (if lo < hi
      then (let mid = (lo + hi) div 2 in if skip mid then bisect skip (mid + 1) hi else bisect skip lo mid)
      else lo)"
  by auto

termination
  by (relation "measure (\<lambda>(_, lo, hi). hi - lo)") (auto simp: Let_def)

declare bisect.simps [simp del]

definition apply_window :: "nat \<Rightarrow> bool \<Rightarrow> scan_window \<Rightarrow> (nat \<Rightarrow> u64) \<Rightarrow> nat \<times> nat" where
  "apply_window len ids_asc w id_at =
     (let start = (case sw_cursor w of
                     None \<Rightarrow> 0
                   | Some c \<Rightarrow> if ids_asc \<and> \<not> sw_desc w then bisect (\<lambda>m. id_at m \<le> c) 0 len
                               else bisect (\<lambda>m. c \<le> id_at m) 0 len);
          start = min (unat (of_nat start + of_nat (sw_offset w) :: u64)) len;
          stop = max (min (start + sw_limit w) len) start in
      (start, stop))"

text \<open>The rows of a scan: sorted by identifier and cut to the window.\<close>

definition scan_page :: "scan_window \<Rightarrow> (u64 \<times> 'r) list \<Rightarrow> (u64 \<times> 'r) list" where
  "scan_page w rows =
     (let rows = (if sw_desc w then sort_key (\<lambda>r. - int (unat (fst r))) rows else sort_key fst rows);
          (start, stop) = apply_window (length rows) (\<not> sw_desc w) w (\<lambda>i. fst (rows ! i)) in
      take (stop - start) (drop start rows))"

section \<open>The bisection\<close>

lemma bisect_spec:
  assumes "lo \<le> hi" and "\<And>i j. lo \<le> i \<Longrightarrow> i \<le> j \<Longrightarrow> j < hi \<Longrightarrow> skip j \<Longrightarrow> skip i"
  shows "lo \<le> bisect skip lo hi \<and> bisect skip lo hi \<le> hi \<and>
    (\<forall>i. lo \<le> i \<longrightarrow> i < hi \<longrightarrow> (skip i \<longleftrightarrow> i < bisect skip lo hi))"
  using assms
proof (induction skip lo hi rule: bisect.induct)
  case (1 skip lo hi)
  let ?m = "(lo + hi) div 2"
  show ?case
  proof (cases "lo < hi")
    case True
    then have m: "lo \<le> ?m" "?m < hi" by auto
    show ?thesis
    proof (cases "skip ?m")
      case sk: True
      have IH: "?m + 1 \<le> bisect skip (?m + 1) hi \<and> bisect skip (?m + 1) hi \<le> hi \<and>
          (\<forall>i. ?m + 1 \<le> i \<longrightarrow> i < hi \<longrightarrow> (skip i \<longleftrightarrow> i < bisect skip (?m + 1) hi))"
        using 1(1) [OF True refl sk] m 1(4) by auto
      have step: "bisect skip lo hi = bisect skip (?m + 1) hi"
        using True sk by (subst bisect.simps) (simp add: Let_def)
      have "skip i \<longleftrightarrow> i < bisect skip (?m + 1) hi" if i: "lo \<le> i" "i < hi" for i
      proof (cases "i \<le> ?m")
        case True
        have "skip i" by (rule 1(4) [OF i(1) True m(2) sk])
        with True IH show ?thesis by auto
      next
        case False
        with IH i show ?thesis by auto
      qed
      with IH m step show ?thesis by auto
    next
      case sk: False
      have IH: "lo \<le> bisect skip lo ?m \<and> bisect skip lo ?m \<le> ?m \<and>
          (\<forall>i. lo \<le> i \<longrightarrow> i < ?m \<longrightarrow> (skip i \<longleftrightarrow> i < bisect skip lo ?m))"
        using 1(2) [OF True refl sk] m 1(4) by auto
      have step: "bisect skip lo hi = bisect skip lo ?m"
        using True sk by (subst bisect.simps) (simp add: Let_def)
      have "skip i \<longleftrightarrow> i < bisect skip lo ?m" if i: "lo \<le> i" "i < hi" for i
      proof (cases "i < ?m")
        case False
        then have "\<not> skip i" using 1(4) [OF m(1) _ i(2)] sk by auto
        with False IH show ?thesis by auto
      qed (use IH i in auto)
      with IH m step show ?thesis by auto
    qed
  qed (use 1(3) in \<open>subst (1 2 3) bisect.simps, auto\<close>)
qed

lemma drop_bisect:
  assumes "\<And>i j. i \<le> j \<Longrightarrow> j < length xs \<Longrightarrow> P (xs ! j) \<Longrightarrow> P (xs ! i)"
  shows "drop (bisect (\<lambda>m. P (xs ! m)) 0 (length xs)) xs = filter (\<lambda>x. \<not> P x) xs"
proof -
  let ?k = "bisect (\<lambda>m. P (xs ! m)) 0 (length xs)"
  have k: "?k \<le> length xs" "\<And>i. i < length xs \<Longrightarrow> P (xs ! i) \<longleftrightarrow> i < ?k"
    using bisect_spec [of 0 "length xs" "\<lambda>m. P (xs ! m)"] assms by auto
  have "filter (\<lambda>x. \<not> P x) (take ?k xs) = []"
    using k by (auto simp: filter_empty_conv in_set_conv_nth)
  moreover have "filter (\<lambda>x. \<not> P x) (drop ?k xs) = drop ?k xs"
    using k by (auto simp: filter_id_conv in_set_conv_nth)
  ultimately show ?thesis by (metis append_take_drop_id filter_append append_Nil)
qed

section \<open>Pages\<close>

definition ordered :: "scan_window \<Rightarrow> (u64 \<times> 'r) list \<Rightarrow> (u64 \<times> 'r) list" where
  "ordered w rows = (if sw_desc w then sort_key (\<lambda>r. - int (unat (fst r))) rows else sort_key fst rows)"

definition before :: "scan_window \<Rightarrow> u64 \<Rightarrow> u64 \<Rightarrow> bool" where
  "before w a b \<longleftrightarrow> (if sw_desc w then b < a else a < b)"

definition beyond :: "scan_window \<Rightarrow> u64 \<Rightarrow> bool" where
  "beyond w i \<longleftrightarrow> (case sw_cursor w of None \<Rightarrow> True | Some c \<Rightarrow> before w c i)"

lemma ordered_nth:
  assumes "i \<le> j" and "j < length (ordered w rows)"
  shows "if sw_desc w then fst (ordered w rows ! j) \<le> fst (ordered w rows ! i)
         else fst (ordered w rows ! i) \<le> fst (ordered w rows ! j)"
proof (cases "sw_desc w")
  case True
  have "sorted (map (\<lambda>r. - int (unat (fst r))) (ordered w rows))" using True by (simp add: ordered_def)
  from sorted_nth_mono [OF this assms(1)] assms True show ?thesis by (simp add: word_le_def)
next
  case False
  have "sorted (map fst (ordered w rows))" using False by (simp add: ordered_def)
  from sorted_nth_mono [OF this assms(1)] assms False show ?thesis by simp
qed

lemma apply_window_start:
  assumes "length rows + sw_offset w < 2 ^ 64"
  shows "drop (fst (apply_window (length rows) (\<not> sw_desc w) w (\<lambda>i. fst (ordered w rows ! i)))) (ordered w rows) =
     drop (sw_offset w) (filter (\<lambda>r. beyond w (fst r)) (ordered w rows))"
proof -
  let ?xs = "ordered w rows"
  have len: "length ?xs = length rows" by (simp add: ordered_def)
  define start where "start = (case sw_cursor w of None \<Rightarrow> 0
      | Some c \<Rightarrow> if \<not> sw_desc w then bisect (\<lambda>m. fst (?xs ! m) \<le> c) 0 (length ?xs)
                  else bisect (\<lambda>m. c \<le> fst (?xs ! m)) 0 (length ?xs))"
  have st: "start \<le> length ?xs \<and> drop start ?xs = filter (\<lambda>r. beyond w (fst r)) ?xs"
  proof (cases "sw_cursor w")
    case None
    then show ?thesis by (simp add: start_def beyond_def)
  next
    case (Some c)
    show ?thesis
    proof (cases "sw_desc w")
      case True
      have mono: "\<And>i j. i \<le> j \<Longrightarrow> j < length ?xs \<Longrightarrow> c \<le> fst (?xs ! j) \<Longrightarrow> c \<le> fst (?xs ! i)"
        using ordered_nth [of _ _ w rows] True by (fastforce intro: order_trans)
      have "bisect (\<lambda>m. c \<le> fst (?xs ! m)) 0 (length ?xs) \<le> length ?xs"
        using bisect_spec [of 0 "length ?xs" "\<lambda>m. c \<le> fst (?xs ! m)"] mono by blast
      moreover have "drop (bisect (\<lambda>m. c \<le> fst (?xs ! m)) 0 (length ?xs)) ?xs = filter (\<lambda>r. \<not> c \<le> fst r) ?xs"
        by (rule drop_bisect [of ?xs "\<lambda>r. c \<le> fst r"]) (rule mono)
      ultimately show ?thesis using Some True by (simp add: start_def beyond_def before_def not_le)
    next
      case False
      have mono: "\<And>i j. i \<le> j \<Longrightarrow> j < length ?xs \<Longrightarrow> fst (?xs ! j) \<le> c \<Longrightarrow> fst (?xs ! i) \<le> c"
        using ordered_nth [of _ _ w rows] False by (fastforce intro: order_trans)
      have "bisect (\<lambda>m. fst (?xs ! m) \<le> c) 0 (length ?xs) \<le> length ?xs"
        using bisect_spec [of 0 "length ?xs" "\<lambda>m. fst (?xs ! m) \<le> c"] mono by blast
      moreover have "drop (bisect (\<lambda>m. fst (?xs ! m) \<le> c) 0 (length ?xs)) ?xs = filter (\<lambda>r. \<not> fst r \<le> c) ?xs"
        by (rule drop_bisect [of ?xs "\<lambda>r. fst r \<le> c"]) (rule mono)
      ultimately show ?thesis using Some False by (simp add: start_def beyond_def before_def not_le)
    qed
  qed
  have "fst (apply_window (length rows) (\<not> sw_desc w) w (\<lambda>i. fst (?xs ! i))) =
      min (unat (of_nat start + of_nat (sw_offset w) :: u64)) (length rows)"
    by (simp add: apply_window_def start_def Let_def len split: option.split)
  moreover have "unat (of_nat start + of_nat (sw_offset w) :: u64) = start + sw_offset w"
    using st len assms unat_of_nat [of "start + sw_offset w", where 'a = 64] by simp
  moreover have "drop (min n (length rows)) ?xs = drop n ?xs" for n using len by (simp add: min_def)
  moreover have "drop (start + sw_offset w) ?xs = drop (sw_offset w) (filter (\<lambda>r. beyond w (fst r)) ?xs)"
    using st by (metis add.commute drop_drop)
  ultimately show ?thesis by simp
qed

lemma scan_page_take:
  assumes "length rows + sw_offset w < 2 ^ 64"
  shows "scan_page w rows = take (sw_limit w) (drop (sw_offset w) (filter (\<lambda>r. beyond w (fst r)) (ordered w rows)))"
proof -
  let ?xs = "ordered w rows"
  obtain start stop where w: "apply_window (length rows) (\<not> sw_desc w) w (\<lambda>i. fst (?xs ! i)) = (start, stop)"
    by fastforce
  have len: "length ?xs = length rows" by (simp add: ordered_def)
  have stop: "start \<le> length rows" "stop = max (min (start + sw_limit w) (length rows)) start"
    using w by (auto simp: apply_window_def Let_def)
  have "take (stop - start) (drop start ?xs) = take (sw_limit w) (drop start ?xs)"
    using stop len by (cases "start + sw_limit w \<le> length rows") (auto simp: min_def max_def)
  moreover have "scan_page w rows = take (stop - start) (drop start ?xs)"
    using w len by (simp add: scan_page_def ordered_def Let_def split: prod.split)
  ultimately show ?thesis using apply_window_start [OF assms] w by simp
qed

text \<open>
  A client that pages with a cursor: each request continues after the last row of the page
  before it, until a page comes back empty.
\<close>

fun scan_pages :: "nat \<Rightarrow> scan_window \<Rightarrow> (u64 \<times> 'r) list \<Rightarrow> (u64 \<times> 'r) list" where
  "scan_pages 0 w rows = []"
| "scan_pages (Suc n) w rows =
     (let p = scan_page w rows in
      if p = [] then [] else p @ scan_pages n (w \<lparr> sw_cursor := Some (fst (last p)) \<rparr>) rows)"

lemma ordered_strict:
  assumes "distinct (map fst rows)"
  shows "sorted_wrt (\<lambda>a b. before w (fst a) (fst b)) (ordered w rows)"
proof -
  have "mset (ordered w rows) = mset rows" by (simp add: ordered_def)
  then have "distinct (map fst (ordered w rows))" using assms by (metis mset_eq_imp_distinct_iff mset_map)
  then have "fst (ordered w rows ! i) \<noteq> fst (ordered w rows ! j)" if "i < j" "j < length (ordered w rows)" for i j
    using that nth_eq_iff_index_eq [of "map fst (ordered w rows)" i j] by simp
  then show ?thesis
    using ordered_nth [of _ _ w rows]
    unfolding sorted_wrt_iff_nth_less before_def by (metis less_imp_le order_le_less)
qed

lemma filter_before_nth:
  assumes "sorted_wrt (\<lambda>a b. before w (fst a) (fst b)) xs" and "m < length xs"
  shows "filter (\<lambda>r. before w (fst (xs ! m)) (fst r)) xs = drop (Suc m) xs"
proof -
  have asym: "before w a b \<Longrightarrow> \<not> before w b a" for a b by (auto simp: before_def split: if_splits)
  have irr: "\<not> before w a a" for a by (auto simp: before_def)
  have "\<not> before w (fst (xs ! m)) (fst (xs ! i))" if "i \<le> m" for i
    using assms asym irr that by (metis le_eq_less_or_eq sorted_wrt_nth_less)
  then have "filter (\<lambda>r. before w (fst (xs ! m)) (fst r)) (take (Suc m) xs) = []"
    using assms(2) by (fastforce simp: filter_empty_conv in_set_conv_nth less_Suc_eq_le)
  moreover have "filter (\<lambda>r. before w (fst (xs ! m)) (fst r)) (drop (Suc m) xs) = drop (Suc m) xs"
  proof -
    have "before w (fst (xs ! m)) (fst (xs ! (Suc m + i)))" if "Suc m + i < length xs" for i
      using assms(1) that by (intro sorted_wrt_nth_less [OF assms(1)]) auto
    then have "before w (fst (xs ! m)) (fst r)" if "r \<in> set (drop (Suc m) xs)" for r
      using that by (clarsimp simp: in_set_conv_nth)
    then show ?thesis by (simp add: filter_id_conv)
  qed
  ultimately show ?thesis by (metis append_take_drop_id filter_append append_Nil)
qed

lemma scan_pages_all:
  assumes "distinct (map fst rows)" and "length rows < 2 ^ 64"
  shows "sw_offset w = 0 \<Longrightarrow> 0 < sw_limit w \<Longrightarrow>
    length (filter (\<lambda>r. beyond w (fst r)) (ordered w rows)) < n \<Longrightarrow>
    scan_pages n w rows = filter (\<lambda>r. beyond w (fst r)) (ordered w rows)"
proof (induction n arbitrary: w)
  case (Suc n)
  let ?L = "filter (\<lambda>r. beyond w (fst r)) (ordered w rows)"
  have page: "scan_page w rows = take (sw_limit w) ?L" using Suc.prems assms(2) by (simp add: scan_page_take)
  show ?case
  proof (cases "?L = []")
    case True
    then show ?thesis using page by simp
  next
    case False
    define m where "m = min (sw_limit w) (length ?L) - 1"
    have m: "m < length ?L" "Suc m = min (sw_limit w) (length ?L)"
      using False Suc.prems(2) by (auto simp: m_def min_def)
    have last: "last (take (sw_limit w) ?L) = ?L ! m"
      using False Suc.prems(2) by (subst last_conv_nth) (auto simp: m_def min.commute)
    let ?w = "w \<lparr> sw_cursor := Some (fst (?L ! m)) \<rparr>"
    have sorted: "sorted_wrt (\<lambda>a b. before w (fst a) (fst b)) ?L"
      by (rule sorted_wrt_filter [OF ordered_strict [OF assms(1)]])
    have "?L ! m \<in> set ?L" using m(1) by (rule nth_mem)
    then have bm: "beyond w (fst (?L ! m))" by auto
    have "filter (\<lambda>r. beyond ?w (fst r)) (ordered ?w rows) =
        filter (\<lambda>r. before w (fst (?L ! m)) (fst r)) ?L"
      using bm unfolding filter_filter
      by (intro filter_cong) (auto simp: ordered_def beyond_def before_def split: option.splits)
    also have "\<dots> = drop (Suc m) ?L" by (rule filter_before_nth [OF sorted m(1)])
    finally have rest: "filter (\<lambda>r. beyond ?w (fst r)) (ordered ?w rows) = drop (Suc m) ?L" .
    have "scan_pages n ?w rows = drop (Suc m) ?L"
      using Suc.IH [of ?w] Suc.prems rest m by simp
    moreover have "take (sw_limit w) ?L = take (Suc m) ?L" using m(2) by (simp add: min_def)
    moreover have "scan_pages (Suc n) w rows = take (sw_limit w) ?L @ scan_pages n ?w rows"
      using page False Suc.prems(2) last by (simp add: Let_def)
    ultimately show ?thesis by simp
  qed
qed simp

text \<open>
  C31: Paging with a cursor visits every row behind the starting cursor exactly once: with any
  positive limit, no offset, and either no starting cursor or one other than 0, the pages a client
  fetches one after the other, each continuing behind the last row seen, are together exactly
  the rows in identifier order, ascending or descending, from the head when there is no starting
  cursor and else strictly behind it.
\<close>

theorem cursor_paging_complete:
  assumes "distinct (map fst rows)" and "length rows < 2 ^ 64" and "sw_offset w = 0" and "0 < sw_limit w"
    and "sw_cursor w \<noteq> Some 0"
  shows "scan_pages (Suc (length rows)) w rows = filter (\<lambda>r. beyond w (fst r)) (ordered w rows)"
proof -
  have "length (filter (\<lambda>r. beyond w (fst r)) (ordered w rows)) \<le> length rows"
    by (rule le_trans [OF length_filter_le]) (simp add: ordered_def)
  then show ?thesis by (intro scan_pages_all [OF assms(1-4)]) (rule le_imp_less_Suc)
qed

text \<open>
  The comment of \<open>apply_window\<close> takes a cursor 0 for the head; in a descending scan nothing is behind
  it, so the page is empty.
\<close>

lemma descending_cursor_zero: "sw_desc w \<Longrightarrow> sw_cursor w = Some 0 \<Longrightarrow> \<not> beyond w i"
  by (simp add: beyond_def before_def)

definition demo_window :: scan_window where
  "demo_window = scan_pagination (Some [(''_limit'', VInt64 2), (''_order'', VString ''DESC'')])"

lemma demo_window_values: "sw_limit demo_window = 2" "sw_offset demo_window = 0" "sw_desc demo_window" "sw_cursor demo_window = None"
  by (code_simp, code_simp, code_simp, code_simp)

theorem cursor_paging_complete_witness:
  "scan_pages 4 demo_window [(3, ''c''), (1, ''a''), (2, ''b'')] =
     filter (\<lambda>r. beyond demo_window (fst r)) (ordered demo_window [(3, ''c''), (1, ''a''), (2, ''b'')])"
proof -
  have four: "Suc (length [(3 :: u64, ''c''), (1, ''a''), (2, ''b'')]) = 4" by simp
  show ?thesis
    using cursor_paging_complete [of "[(3, ''c''), (1, ''a''), (2, ''b'')]" demo_window] demo_window_values
    unfolding four by simp
qed

end
