(* ===== verification/Dispatch.thy ===== *)
theory Dispatch
  imports Proc_Calls Scan_Window
begin

text \<open>
  The request handlers of the server (\<open>dispatch\<close> of \<open>blitz-server/src/transport.rs\<close>): one
  definition per operation, each with all its error branches, and the loop over a batch with its
  handshakes. The clock and identifiers drawn at random are read once per request; the
  conversion of a deployed procedure from JSON, the version text and the debug texts of options
  are parameters.
\<close>

record dispatch_env =
  de_server :: server_env
  de_version :: string
  de_debug_str :: "string \<Rightarrow> string"
  de_debug_value :: "val option \<Rightarrow> string"
  de_deploy :: "json \<Rightarrow> function_registry \<Rightarrow> string + procedure"

text \<open>What a request reads from outside: the time and the identifiers it may draw.\<close>

record request_env =
  qe_now_micros :: u64
  qe_now_millis :: int
  qe_table_id :: table_id
  qe_job_id :: "128 word"

definition row_to_view :: "u64 \<Rightarrow> row \<Rightarrow> row_view" where
  "row_to_view i r = \<lparr> rv_id = i, rv_values = row_values r \<rparr>"

definition shards_of :: "server \<Rightarrow> table_shards" where
  "shards_of s = cf_table_shards (sv_config s)"

section \<open>Handshake and stream requests\<close>

definition take_auth_token :: "row_values option \<Rightarrow> string option \<times> row_values option" where
  "take_auth_token vals =
     (case vals of
        None \<Rightarrow> (None, None)
      | Some m \<Rightarrow>
          (case hm_get m ''_auth'' of Some (VString t) \<Rightarrow> Some t | _ \<Rightarrow> None, Some (hm_remove ''_auth'' m)))"

definition is_stream_subscribe :: "row_values option \<Rightarrow> bool" where
  "is_stream_subscribe vals =
     (case Option.bind vals (\<lambda>m. hm_get m ''_stream'') of
        Some (VInt64 n) \<Rightarrow> n = 1
      | Some (VUInt64 n) \<Rightarrow> n = 1
      | Some (VInt32 n) \<Rightarrow> n = 1
      | Some (VUInt32 n) \<Rightarrow> n = 1
      | Some (VBoolean b) \<Rightarrow> b
      | _ \<Rightarrow> False)"

section \<open>Writes\<close>

definition dispatch_insert :: "dispatch_env \<Rightarrow> u64 \<Rightarrow> identity option \<Rightarrow> request \<Rightarrow> server \<Rightarrow> response \<times> server" where
  "dispatch_insert d ts authed req s =
     (let e = de_server d; i = rq_id req in
      case rq_values req of
        None \<Rightarrow> (response_err i ''insert requires values'', s)
      | Some vals \<Rightarrow>
          if blob_too_large (rq_table req) vals then (response_err i ''blob too large (max 256KiB)'', s)
          else
            (let idem = (case hm_get vals ''_idem'' of Some (VString k) \<Rightarrow> Some k | _ \<Rightarrow> None);
                 vals = hm_remove ''_idem'' vals in
             case Option.bind idem (idem_lookup s) of
               Some cached \<Rightarrow> (response_ok i [\<lparr> rv_id = cached, rv_values = vals \<rparr>], s)
             | None \<Rightarrow>
                 (case enforce_owner s authed OpInsert (rq_table req) vals of
                    Inl m \<Rightarrow> (response_err i m, s)
                  | Inr _ \<Rightarrow>
                      (let (physical, shard) = route_insert (se_hash e) (shards_of s) (rq_table req) vals;
                           r = \<lparr> row_id = 0, row_values = vals \<rparr>;
                           (res, eng) = (if cf_skip_validation (sv_config s)
                                         then engine_insert_unchecked physical r (sv_engine s)
                                         else engine_insert physical r (sv_engine s));
                           s = set_engine eng s in
                       case res of
                         Inl err \<Rightarrow> (response_err i (core_error_text (se_debug e) err), s)
                       | Inr local \<Rightarrow>
                           (let global = compose_id shard local in
                            case wal_log e EInsert physical global (values_to_json_bytes (se_json e) vals) s of
                              (Inl w, s) \<Rightarrow>
                                (response_err i (''WAL backpressure: '' @ w),
                                 set_engine (snd (engine_delete physical local (sv_engine s))) s)
                            | (Inr _, s) \<Rightarrow>
                                (let s = (case idem of Some k \<Rightarrow> idem_record e k global s | None \<Rightarrow> s);
                                     s = record_change ts (rq_table req) ''insert'' global s;
                                     s = (if prefix ''posts'' (rq_table req) then derive_post physical local vals s else s) in
                                 (response_ok i [\<lparr> rv_id = global, rv_values = vals \<rparr>], s)))))))"

definition dispatch_get :: "dispatch_env \<Rightarrow> identity option \<Rightarrow> request \<Rightarrow> server \<Rightarrow> response" where
  "dispatch_get d authed req s =
     (let i = rq_id req in
      case rq_row_id req of
        None \<Rightarrow> response_err i ''get requires row_id''
      | Some global \<Rightarrow>
          (let (physical, local) = route_id (shards_of s) (rq_table req) global in
           case engine_get physical local (sv_engine s) of
             Inl err \<Rightarrow> response_err i (core_error_text (se_debug (de_server d)) err)
           | Inr None \<Rightarrow> response_err i (''row not found: '' @ u64_text global)
           | Inr (Some r) \<Rightarrow>
               (case enforce_owner s authed OpGet (rq_table req) (row_values r) of
                  Inl _ \<Rightarrow> response_err i (''row not found: '' @ u64_text global)
                | Inr _ \<Rightarrow> response_ok i [row_to_view global r])))"

text \<open>The check of the row's owner before an update or a delete.\<close>

definition owner_precheck :: "identity option \<Rightarrow> op \<Rightarrow> string \<Rightarrow> string \<Rightarrow> u64 \<Rightarrow> server \<Rightarrow> string + unit" where
  "owner_precheck authed p table physical local s =
     (if cf_require_auth (sv_config s) \<and> owner_column s table \<noteq> None
      then (case engine_get physical local (sv_engine s) of
              Inr (Some r) \<Rightarrow> enforce_owner s authed p table (row_values r)
            | _ \<Rightarrow> Ok ())
      else Ok ())"

definition dispatch_update :: "dispatch_env \<Rightarrow> u64 \<Rightarrow> identity option \<Rightarrow> request \<Rightarrow> server \<Rightarrow> response \<times> server" where
  "dispatch_update d ts authed req s =
     (let e = de_server d; i = rq_id req in
      case rq_row_id req of
        None \<Rightarrow> (response_err i ''update requires row_id'', s)
      | Some global \<Rightarrow>
          (let (physical, local) = route_id (shards_of s) (rq_table req) global in
           case rq_values req of
             None \<Rightarrow> (response_err i ''update requires values'', s)
           | Some vals \<Rightarrow>
               (case owner_precheck authed OpUpdate (rq_table req) physical local s of
                  Inl m \<Rightarrow> (response_err i m, s)
                | Inr _ \<Rightarrow>
                    (let (res, eng) = engine_update physical local vals (sv_engine s);
                         s = set_engine eng s in
                     case res of
                       Inl err \<Rightarrow> (response_err i (core_error_text (se_debug e) err), s)
                     | Inr r \<Rightarrow>
                         (case wal_log e EUpdate physical global (values_to_json_bytes (se_json e) (row_values r)) s of
                            (Inl w, s) \<Rightarrow> (response_err i (''WAL backpressure: '' @ w), s)
                          | (Inr _, s) \<Rightarrow>
                              (response_ok i [row_to_view global r], record_change ts (rq_table req) ''update'' global s))))))"

definition dispatch_delete :: "dispatch_env \<Rightarrow> u64 \<Rightarrow> identity option \<Rightarrow> request \<Rightarrow> server \<Rightarrow> response \<times> server" where
  "dispatch_delete d ts authed req s =
     (let e = de_server d; i = rq_id req in
      case rq_row_id req of
        None \<Rightarrow> (response_err i ''delete requires row_id'', s)
      | Some global \<Rightarrow>
          (let (physical, local) = route_id (shards_of s) (rq_table req) global in
           case owner_precheck authed OpDelete (rq_table req) physical local s of
             Inl m \<Rightarrow> (response_err i m, s)
           | Inr _ \<Rightarrow>
               (let (res, eng) = engine_delete physical local (sv_engine s);
                    s = set_engine eng s in
                case res of
                  Inl err \<Rightarrow> (response_err i (core_error_text (se_debug e) err), s)
                | Inr found \<Rightarrow>
                    if \<not> found then (response_err i (''row not found: '' @ u64_text global), s)
                    else
                      (case wal_log e EDelete physical global [] s of
                         (Inl w, s) \<Rightarrow> (response_err i (''WAL backpressure: '' @ w), s)
                       | (Inr _, s) \<Rightarrow> (response_ok i [], record_change ts (rq_table req) ''delete'' global s)))))"

section \<open>Reads over many rows\<close>

definition missing_table_text :: "dispatch_env \<Rightarrow> core_error \<Rightarrow> bool" where
  "missing_table_text d err = contains_sub (core_error_text (se_debug (de_server d)) err) ''table not found''"

fun scan_shards :: "dispatch_env \<Rightarrow> engine \<Rightarrow> bool \<Rightarrow> (nat \<times> string) list \<Rightarrow> (u64 \<times> row) list \<Rightarrow> string + (u64 \<times> row) list" where
  "scan_shards d eng sharded [] merged = Ok merged"
| "scan_shards d eng sharded ((shard, physical) # rest) merged =
     (case engine_scan physical eng of
        Inr rows \<Rightarrow> scan_shards d eng sharded rest (merged @ map (\<lambda>r. (compose_id shard (row_id r), r)) rows)
      | Inl err \<Rightarrow>
          if sharded \<and> missing_table_text d err then scan_shards d eng sharded rest merged
          else Err (core_error_text (se_debug (de_server d)) err))"

definition scan_merged :: "dispatch_env \<Rightarrow> server \<Rightarrow> string \<Rightarrow> string + (u64 \<times> row) list" where
  "scan_merged d s base =
     scan_shards d (sv_engine s) (1 < shard_count (shards_of s) base) (shard_tables (shards_of s) base) []"

definition dispatch_scan :: "dispatch_env \<Rightarrow> identity option \<Rightarrow> request \<Rightarrow> server \<Rightarrow> response" where
  "dispatch_scan d authed req s =
     (let i = rq_id req; w = scan_pagination (rq_values req) in
      case scan_merged d s (rq_table req) of
        Inl m \<Rightarrow> response_err i m
      | Inr merged \<Rightarrow>
          (let merged = (if owner_column s (rq_table req) \<noteq> None
                         then filter (\<lambda>(_, r). is_ok (enforce_owner s authed OpScan (rq_table req) (row_values r))) merged
                         else merged) in
           response_ok i (map (\<lambda>(g, r). row_to_view g r) (scan_page w merged))))"

fun find_shards :: "dispatch_env \<Rightarrow> engine \<Rightarrow> bool \<Rightarrow> string \<Rightarrow> val \<Rightarrow> (nat \<times> string) list \<Rightarrow> string + (nat \<times> row) option" where
  "find_shards d eng sharded col v [] = Ok None"
| "find_shards d eng sharded col v ((shard, physical) # rest) =
     (case engine_lookup_by_unique physical col v eng of
        Inr (Some r) \<Rightarrow> Ok (Some (shard, r))
      | Inr None \<Rightarrow> find_shards d eng sharded col v rest
      | Inl err \<Rightarrow>
          if sharded \<and> missing_table_text d err then find_shards d eng sharded col v rest
          else Err (core_error_text (se_debug (de_server d)) err))"

definition dispatch_find :: "dispatch_env \<Rightarrow> identity option \<Rightarrow> request \<Rightarrow> server \<Rightarrow> response" where
  "dispatch_find d authed req s =
     (let i = rq_id req in
      case (Option.bind (rq_values req) (\<lambda>m. hm_get m ''_col''), Option.bind (rq_values req) (\<lambda>m. hm_get m ''_val'')) of
        (Some (VString col), Some v) \<Rightarrow>
          (case find_shards d (sv_engine s) (1 < shard_count (shards_of s) (rq_table req)) col v
                  (shard_tables (shards_of s) (rq_table req)) of
             Inl m \<Rightarrow> response_err i m
           | Inr None \<Rightarrow> response_err i ''not found''
           | Inr (Some (shard, r)) \<Rightarrow>
               (case enforce_owner s authed OpFind (rq_table req) (row_values r) of
                  Inl _ \<Rightarrow> response_err i ''not found''
                | Inr _ \<Rightarrow> response_ok i [row_to_view (compose_id shard (row_id r)) r]))
      | _ \<Rightarrow> response_err i ''find requires values {_col: String, _val: Value}'')"

definition MAX_SUBSCRIBE_LIMIT :: nat where "MAX_SUBSCRIBE_LIMIT = 1000"

definition clamp :: "nat \<Rightarrow> nat \<Rightarrow> nat \<Rightarrow> nat" where
  "clamp lo hi n = min (max n lo) hi"

definition subscribe_since :: "row_values option \<Rightarrow> u64" where
  "subscribe_since vals =
     (case Option.bind vals (\<lambda>m. hm_get m ''_since'') of
        None \<Rightarrow> 0
      | Some v \<Rightarrow> (case int_val v of Some n \<Rightarrow> of_nat n | None \<Rightarrow> 0))"

definition subscribe_limit :: "row_values option \<Rightarrow> nat" where
  "subscribe_limit vals =
     (case Option.bind vals (\<lambda>m. hm_get m ''_limit'') of
        None \<Rightarrow> 100
      | Some v \<Rightarrow> clamp 1 MAX_SUBSCRIBE_LIMIT
          (case v of VInt64 n \<Rightarrow> nat (sint n) | VUInt64 n \<Rightarrow> unat n | _ \<Rightarrow> 100))"

definition change_view :: "change_record \<Rightarrow> row_view" where
  "change_view r =
     \<lparr> rv_id = cr_seq r,
       rv_values = [(''table'', VString (cr_table r)), (''op'', VString (cr_op r)),
                    (''row_id'', VInt64 (cr_row_id r)), (''ts'', VInt64 (cr_ts_micros r))] \<rparr>"

definition dispatch_subscribe :: "identity option \<Rightarrow> request \<Rightarrow> server \<Rightarrow> response \<times> server" where
  "dispatch_subscribe authed req s =
     (let (recs, s') = read_changes (rq_table req) (subscribe_since (rq_values req)) (subscribe_limit (rq_values req)) s;
          recs = (if owner_column s (rq_table req) \<noteq> None
                  then filter (\<lambda>r. let (physical, local) = route_id (shards_of s) (cr_table r) (cr_row_id r) in
                           case engine_get physical local (sv_engine s) of
                             Inr (Some row) \<Rightarrow> is_ok (enforce_owner s authed OpSubscribe (cr_table r) (row_values row))
                           | _ \<Rightarrow> False) recs
                  else recs) in
      (response_ok (rq_id req) (map change_view recs), s'))"

definition search_limit :: "row_values \<Rightarrow> nat" where
  "search_limit m =
     clamp 1 100 (case Option.bind (hm_get m ''_limit'') int_val of Some n \<Rightarrow> n | None \<Rightarrow> 20)"

text \<open>The owner is checked against the base of the table the hit is in, the rights are not.\<close>

definition search_hit :: "identity option \<Rightarrow> string \<Rightarrow> server \<Rightarrow> string \<times> u64 \<Rightarrow> row_view option" where
  "search_hit authed table s hit =
     (let (physical, rid) = hit in
      case engine_get physical rid (sv_engine s) of
        Inr (Some r) \<Rightarrow>
          (case enforce_owner s authed OpSearch (base_of_physical (shards_of s) physical) (row_values r) of
             Inl _ \<Rightarrow> None
           | Inr _ \<Rightarrow> Some (row_to_view (compose_id (shard_of_physical (shards_of s) table physical) rid) r))
      | _ \<Rightarrow> None)"

definition dispatch_search :: "identity option \<Rightarrow> request \<Rightarrow> server \<Rightarrow> response" where
  "dispatch_search authed req s =
     (let i = rq_id req in
      case rq_values req of
        None \<Rightarrow> response_err i ''search requires values {_q: String}''
      | Some m \<Rightarrow>
          (case hm_get m ''_q'' of
             Some (VString q) \<Rightarrow>
               response_ok i (List.map_filter (search_hit authed (rq_table req) s) (search_posts s q (search_limit m)))
           | _ \<Rightarrow> response_err i ''search requires values {_q: String}''))"

section \<open>Administration\<close>

definition dispatch_table_create :: "dispatch_env \<Rightarrow> table_id \<Rightarrow> request \<Rightarrow> server \<Rightarrow> response \<times> server" where
  "dispatch_table_create d tid req s =
     (let i = rq_id req in
      case Option.bind (rq_values req) (\<lambda>m. hm_get m ''schema'') of
        Some (VJson j) \<Rightarrow>
          (case schema_from_json tid j of
             Inl e \<Rightarrow> (response_err i (''invalid schema: '' @ json_fault_text (de_debug_str d) e), s)
           | Inr schema \<Rightarrow>
               (case engine_create_table schema (sv_engine s) of
                  (Inl err, eng) \<Rightarrow> (response_err i (core_error_text (se_debug (de_server d)) err), set_engine eng s)
                | (Inr _, eng) \<Rightarrow>
                    (response_ok i [\<lparr> rv_id = 0, rv_values = [(''table'', VString (ts_name schema))] \<rparr>], set_engine eng s)))
      | _ \<Rightarrow> (response_err i ''table_create requires values {schema: Json}'', s))"

definition dispatch_job_submit :: "dispatch_env \<Rightarrow> request_env \<Rightarrow> request \<Rightarrow> server \<Rightarrow> response \<times> server" where
  "dispatch_job_submit d q req s =
     (let i = rq_id req; bad = (response_err i ''job_submit requires values {wasm: Bytes, input: String}'', s) in
      case rq_values req of
        None \<Rightarrow> bad
      | Some vals \<Rightarrow>
          (case (hm_get vals ''wasm'', hm_get vals ''input'') of
             (Some (VBytes wasm), Some (VString input)) \<Rightarrow>
               (let label = (case hm_get vals ''_type'' of Some (VString t) \<Rightarrow> t | _ \<Rightarrow> ''wasm'');
                    j = job_new (qe_job_id q) (qe_now_millis q) label;
                    j = (case hm_get vals ''_retries'' of
                           Some (VInt64 n) \<Rightarrow> job_with_max_retries (of_int (min (max (sint n) 0) 5)) j
                         | _ \<Rightarrow> j);
                    jid = uuid_disp (he_displays (se_hash (de_server d))) (qe_job_id q) in
                case store_wasm_job jid j wasm input (sv_wasm_jobs s) of
                  (Inl e, jobs) \<Rightarrow> (response_err i e, s \<lparr> sv_wasm_jobs := jobs \<rparr>)
                | (Inr jid, jobs) \<Rightarrow>
                    (response_ok i [\<lparr> rv_id = 0, rv_values = [(''job_id'', VString jid), (''status'', VString ''pending'')] \<rparr>],
                     s \<lparr> sv_wasm_jobs := jobs \<rparr>))
           | _ \<Rightarrow> bad))"

fun job_status_name :: "job_status \<Rightarrow> string" where
  "job_status_name Pending = ''pending''"
| "job_status_name Running = ''running''"
| "job_status_name Completed = ''completed''"
| "job_status_name Failed = ''failed''"
| "job_status_name Cancelled = ''cancelled''"

definition dispatch_job_poll :: "request \<Rightarrow> server \<Rightarrow> response" where
  "dispatch_job_poll req s =
     (let i = rq_id req in
      case Option.bind (rq_values req) (\<lambda>m. hm_get m ''_job'') of
        Some (VString jid) \<Rightarrow>
          (case get_wasm_job (sv_wasm_jobs s) jid of
             None \<Rightarrow> response_err i (''job not found: '' @ jid)
           | Some j \<Rightarrow>
               response_ok i [\<lparr> rv_id = 0, rv_values =
                 [(''job_id'', VString jid), (''status'', VString (job_status_name (j_status j)))] @
                 (case j_result j of Some r \<Rightarrow> [(''result'', VString r)] | None \<Rightarrow> []) @
                 (case j_error j of Some r \<Rightarrow> [(''error'', VString r)] | None \<Rightarrow> []) \<rparr>])
      | _ \<Rightarrow> response_err i ''job_poll requires values {_job: String}'')"

definition dispatch_proc_deploy :: "dispatch_env \<Rightarrow> request \<Rightarrow> server \<Rightarrow> response \<times> server" where
  "dispatch_proc_deploy d req s =
     (let i = rq_id req in
      case strip_fn (rq_table req) of
        None \<Rightarrow> (response_err i ''proc_deploy requires table `fn:<procedure>`'', s)
      | Some name \<Rightarrow>
          (case rq_values req of
             None \<Rightarrow> (response_err i ''proc_deploy requires values {v, procedure}'', s)
           | Some vals \<Rightarrow>
               if \<not> (hm_get vals ''v'' = Some (VInt64 1) \<or> hm_get vals ''v'' = Some (VUInt64 1))
               then (response_err i (''unsupported envelope version (want 1): '' @ de_debug_value d (hm_get vals ''v'')), s)
               else
                 (case hm_get vals ''procedure'' of
                    Some (VJson j) \<Rightarrow>
                      (case de_deploy d j (sv_functions s) of
                         Inl e \<Rightarrow> (response_err i (''invalid procedure: '' @ e), s)
                       | Inr p \<Rightarrow>
                           if pc_name p \<noteq> name
                           then (response_err i (''envelope procedure '' @ de_debug_str d (pc_name p) @ '' must match table fn:<name>''), s)
                           else
                             (case deploy_procedure p s of
                                (Inl f, s) \<Rightarrow> (response_err i (''invalid procedure: '' @ deploy_fault_text f), s)
                              | (Inr version, s) \<Rightarrow>
                                  (response_ok i [\<lparr> rv_id = 0, rv_values = [(''name'', VString name), (''version'', VUInt64 version)] \<rparr>], s)))
                  | _ \<Rightarrow> (response_err i ''proc_deploy requires values.procedure as JSON object'', s))))"

definition dispatch_proc_list :: "request \<Rightarrow> server \<Rightarrow> response" where
  "dispatch_proc_list req s =
     response_ok (rq_id req) (map (\<lambda>(name, description, version, steps).
       \<lparr> rv_id = 0, rv_values = [(''name'', VString name), (''description'', VString description),
           (''version'', VUInt64 version), (''steps'', VUInt64 (of_nat steps))] \<rparr>) (list_procedures s))"

definition dispatch_proc_drop :: "request \<Rightarrow> server \<Rightarrow> response \<times> server" where
  "dispatch_proc_drop req s =
     (case strip_fn (rq_table req) of
        None \<Rightarrow> (response_err (rq_id req) ''proc_drop requires table `fn:<procedure>`'', s)
      | Some name \<Rightarrow>
          (case drop_procedure name s of
             (True, s) \<Rightarrow> (response_ok (rq_id req) [], s)
           | (False, s) \<Rightarrow> (response_err (rq_id req) (''procedure not found: '' @ name), s)))"

section \<open>Requests\<close>

fun dispatch_op :: "op \<Rightarrow> dispatch_env \<Rightarrow> request_env \<Rightarrow> identity option \<Rightarrow> request \<Rightarrow> server \<Rightarrow> response \<times> server" where
  "dispatch_op OpPing d q authed req s = (response_ok (rq_id req) [], s)"
| "dispatch_op OpVersion d q authed req s =
     (response_ok (rq_id req) [\<lparr> rv_id = 0, rv_values = [(''server'', VString (de_version d)),
        (''protocol'', VInt64 (ucast PROTOCOL_VERSION))] \<rparr>], s)"
| "dispatch_op OpTableCreate d q authed req s = dispatch_table_create d (qe_table_id q) req s"
| "dispatch_op OpInsert d q authed req s = dispatch_insert d (qe_now_micros q) authed req s"
| "dispatch_op OpGet d q authed req s = (dispatch_get d authed req s, s)"
| "dispatch_op OpUpdate d q authed req s = dispatch_update d (qe_now_micros q) authed req s"
| "dispatch_op OpDelete d q authed req s = dispatch_delete d (qe_now_micros q) authed req s"
| "dispatch_op OpScan d q authed req s = (dispatch_scan d authed req s, s)"
| "dispatch_op OpFind d q authed req s = (dispatch_find d authed req s, s)"
| "dispatch_op OpSubscribe d q authed req s = dispatch_subscribe authed req s"
| "dispatch_op OpSearch d q authed req s = (dispatch_search authed req s, s)"
| "dispatch_op OpCall d q authed req s = call_procedure (de_server d) (qe_now_micros q) authed req s"
| "dispatch_op OpJobSubmit d q authed req s = dispatch_job_submit d q req s"
| "dispatch_op OpJobPoll d q authed req s = (dispatch_job_poll req s, s)"
| "dispatch_op OpProcDeploy d q authed req s = dispatch_proc_deploy d req s"
| "dispatch_op OpProcList d q authed req s = (dispatch_proc_list req s, s)"
| "dispatch_op OpProcDrop d q authed req s = dispatch_proc_drop req s"

definition dispatch :: "dispatch_env \<Rightarrow> request_env \<Rightarrow> identity option \<Rightarrow> request \<Rightarrow> server \<Rightarrow> response \<times> server" where
  "dispatch d q authed req s = dispatch_op (rq_op req) d q authed req s"

text \<open>The handshake of a request: a known token binds its identity to the connection.\<close>

definition handshake :: "request_env \<Rightarrow> identity option \<Rightarrow> request \<Rightarrow> server \<Rightarrow> identity option \<times> request \<times> server" where
  "handshake q authed req s =
     (let (tok, vals) = take_auth_token (rq_values req); req = req \<lparr> rq_values := vals \<rparr> in
      case tok of
        None \<Rightarrow> (authed, req, s)
      | Some t \<Rightarrow>
          (case resolve_token (qe_now_millis q) t s of
             (Some i, s) \<Rightarrow> (Some i, req, s)
           | (None, s) \<Rightarrow> (authed, req, s)))"

definition handle_request :: "dispatch_env \<Rightarrow> request_env \<Rightarrow> identity option \<Rightarrow> request \<Rightarrow> server \<Rightarrow> response \<times> identity option \<times> server" where
  "handle_request d q authed req s =
     (let (authed, req, s) = handshake q authed req s in
      case authorize s authed (rq_op req) (rq_table req) of
        Inl e \<Rightarrow> (response_err (rq_id req) e, authed, s)
      | Inr _ \<Rightarrow> (let (resp, s) = dispatch d q authed req s in (resp, authed, s)))"

fun handle_ops :: "dispatch_env \<Rightarrow> request_env \<Rightarrow> identity option \<Rightarrow> request list \<Rightarrow> server \<Rightarrow> response list \<times> identity option \<times> server" where
  "handle_ops d q authed [] s = ([], authed, s)"
| "handle_ops d q authed (req # reqs) s =
     (let (resp, authed, s) = handle_request d q authed req s;
          (resps, authed, s) = handle_ops d q authed reqs s in
      (resp # resps, authed, s))"

section \<open>Ownership of rows\<close>

lemma scan_page_subset: "set (scan_page w rows) \<subseteq> set rows"
proof -
  have "set (scan_page w rows) \<subseteq> set (ordered w rows)"
    by (auto simp: scan_page_def ordered_def Let_def split: prod.splits dest!: in_set_takeD in_set_dropD)
  then show ?thesis by (cases "sw_desc w") (simp_all add: ordered_def)
qed

lemma dispatch_scan_owned:
  assumes "v \<in> set (rs_rows (dispatch_scan d authed req s))"
  shows "owns s authed (rq_table req) (rv_values v)"
proof (cases "owner_column s (rq_table req)")
  case None
  then show ?thesis by (simp add: owns_def)
next
  case (Some col)
  obtain merged where m: "scan_merged d s (rq_table req) = Ok merged"
    using assms by (cases "scan_merged d s (rq_table req)") (auto simp: dispatch_scan_def response_err_def)
  let ?ok = "\<lambda>(_, r). is_ok (enforce_owner s authed OpScan (rq_table req) (row_values r))"
  have "rs_rows (dispatch_scan d authed req s) =
      map (\<lambda>(g, r). row_to_view g r) (scan_page (scan_pagination (rq_values req)) (filter ?ok merged))"
    using Some m by (simp add: dispatch_scan_def response_ok_def Let_def)
  then obtain g r where "v = row_to_view g r" "(g, r) \<in> set (filter ?ok merged)"
    using assms scan_page_subset by fastforce
  then show ?thesis
    using enforce_owner_owns [of s authed OpScan "rq_table req" "row_values r"]
    by (cases "enforce_owner s authed OpScan (rq_table req) (row_values r)") (auto simp: row_to_view_def)
qed

lemma dispatch_get_owned:
  assumes "v \<in> set (rs_rows (dispatch_get d authed req s))"
  shows "owns s authed (rq_table req) (rv_values v)"
  using assms enforce_owner_owns
  by (fastforce simp: dispatch_get_def response_err_def response_ok_def row_to_view_def Let_def
      split: option.splits prod.splits sum.splits)

lemma dispatch_find_owned:
  assumes "v \<in> set (rs_rows (dispatch_find d authed req s))"
  shows "owns s authed (rq_table req) (rv_values v)"
  using assms enforce_owner_owns
  by (fastforce simp: dispatch_find_def response_err_def response_ok_def row_to_view_def Let_def
      split: option.splits prod.splits sum.splits val.splits)

text \<open>
  C28: Row ownership protects reads: with authentication on, every row that a get, a scan or a
  find returns from a table with an owner column is the caller's own, unless the caller is an
  administrator.
\<close>

theorem reads_return_owned_rows:
  assumes "rq_op req \<in> {OpGet, OpScan, OpFind}" and "v \<in> set (rs_rows (fst (dispatch d q authed req s)))"
  shows "owns s authed (rq_table req) (rv_values v)"
  using assms dispatch_get_owned dispatch_scan_owned dispatch_find_owned by (auto simp: dispatch_def)

lemma owner_precheck_owns:
  assumes "owner_precheck authed p table physical local s = Ok u"
    and "engine_get physical local (sv_engine s) = Ok (Some r)"
  shows "owns s authed table (row_values r)"
  using assms by (auto simp: owner_precheck_def owns_def split: if_splits dest: enforce_owner_owns)

lemma engine_update_existing:
  "engine_update nm i vals e = (Ok r', e') \<Longrightarrow> \<exists>r. engine_get nm i e = Ok (Some r)"
  by (auto simp: engine_update_def with_table_Ok engine_get_eq table_update_def split: option.splits)

lemma engine_delete_existing:
  "engine_delete nm i e = (Ok True, e') \<Longrightarrow> \<exists>r. engine_get nm i e = Ok (Some r)"
  by (auto simp: engine_delete_def engine_take_def with_table_Ok engine_get_eq table_take_def
      split: prod.splits sum.splits option.splits)

text \<open>
  C29: Row ownership protects writes: a successful update or delete changed a row that existed in
  the table and that the caller owned.
\<close>

theorem writes_touch_owned_rows:
  assumes "rq_op req \<in> {OpUpdate, OpDelete}" and "rs_ok (fst (dispatch d q authed req s))"
  shows "\<exists>g physical local r. rq_row_id req = Some g \<and> route_id (shards_of s) (rq_table req) g = (physical, local) \<and>
    engine_get physical local (sv_engine s) = Ok (Some r) \<and> owns s authed (rq_table req) (row_values r)"
proof -
  obtain g physical local where g: "rq_row_id req = Some g" "route_id (shards_of s) (rq_table req) g = (physical, local)"
    using assms by (cases "rq_row_id req"; cases "route_id (shards_of s) (rq_table req) (the (rq_row_id req))")
      (auto simp: dispatch_def dispatch_update_def dispatch_delete_def response_err_def Let_def)
  have pre: "\<exists>u. owner_precheck authed (rq_op req) (rq_table req) physical local s = Ok u"
    using assms g by (cases "owner_precheck authed (rq_op req) (rq_table req) physical local s")
      (auto simp: dispatch_def dispatch_update_def dispatch_delete_def response_err_def Let_def split: option.splits)
  have "\<exists>r. engine_get physical local (sv_engine s) = Ok (Some r)"
  proof (cases "rq_op req = OpUpdate")
    case True
    with assms g pre obtain vals r eng where "engine_update physical local vals (sv_engine s) = (Ok r, eng)"
      by (auto simp: dispatch_def dispatch_update_def response_err_def Let_def split: option.splits prod.splits sum.splits)
    then show ?thesis by (rule engine_update_existing)
  next
    case False
    with assms have del: "rq_op req = OpDelete" by simp
    with assms g pre obtain eng where "engine_delete physical local (sv_engine s) = (Ok True, eng)"
      by (auto simp: dispatch_def dispatch_delete_def response_err_def Let_def split: prod.splits sum.splits if_splits)
    then show ?thesis by (rule engine_delete_existing)
  qed
  with g pre owner_precheck_owns show ?thesis by blast
qed

section \<open>Inserting and reading back\<close>

lemma effects_frame [simp]:
  "sv_policy (snd (wal_log e en t i dt s)) = sv_policy s" "sv_idem (snd (wal_log e en t i dt s)) = sv_idem s"
  "sv_policy (record_change ts t p i s) = sv_policy s" "sv_idem (record_change ts t p i s) = sv_idem s"
  "sv_policy (index_post t i b s) = sv_policy s" "sv_idem (index_post t i b s) = sv_idem s"
  "sv_policy (fanout_enqueue t i a s) = sv_policy s" "sv_idem (fanout_enqueue t i a s) = sv_idem s"
  "sv_policy (idem_record e k g s) = sv_policy s" "sv_config (idem_record e k g s) = sv_config s"
  "sv_tx_manager (idem_record e k g s) = sv_tx_manager s"
  by (auto simp: wal_log_def record_change_def push_fanout_def index_post_def fanout_enqueue_def
      idem_record_def Let_def split: option.split prod.split sum.split)

lemma derive_post_frame [simp]:
  "sv_policy (derive_post ph l v s) = sv_policy s" "sv_idem (derive_post ph l v s) = sv_idem s"
  by (simp_all add: derive_post_def Let_def split: option.split val.split)

lemma set_engine_simps [simp]:
  "sv_engine (set_engine eng s) = eng" "sv_config (set_engine eng s) = sv_config s"
  "sv_policy (set_engine eng s) = sv_policy s" "sv_idem (set_engine eng s) = sv_idem s"
  by (simp_all add: set_engine_def)

lemma wal_log_Ok_frame:
  assumes "wal_log e en t i dt s = (res, s')"
  shows "sv_tx_manager s' = sv_tx_manager s \<and> sv_config s' = sv_config s \<and> sv_policy s' = sv_policy s \<and> sv_idem s' = sv_idem s"
  using wal_log_engine [of e en t i dt s] effects_frame(1,2) [of e en t i dt s] assms by simp

definition idem_key :: "row_values \<Rightarrow> string option" where
  "idem_key vals = (case hm_get vals ''_idem'' of Some (VString k) \<Rightarrow> Some k | _ \<Rightarrow> None)"

lemma dispatch_insert_Ok:
  assumes "dispatch_insert d ts authed req s = (resp, s')" and "rs_ok resp" and "rq_values req = Some vals"
    and "Option.bind (idem_key vals) (idem_lookup s) = None"
  obtains physical shard local eng where
    "route_insert (se_hash (de_server d)) (shards_of s) (rq_table req) (hm_remove ''_idem'' vals) = (physical, shard)"
    "(if cf_skip_validation (sv_config s) then engine_insert_unchecked else engine_insert)
       physical \<lparr> row_id = 0, row_values = hm_remove ''_idem'' vals \<rparr> (sv_engine s) = (Ok local, eng)"
    "resp = response_ok (rq_id req) [\<lparr> rv_id = compose_id shard local, rv_values = hm_remove ''_idem'' vals \<rparr>]"
    "sv_engine s' = eng" "sv_config s' = sv_config s" "sv_policy s' = sv_policy s"
    "sv_idem s' = (case idem_key vals of
        Some k \<Rightarrow> sv_idem (idem_record (de_server d) k (compose_id shard local) s) | None \<Rightarrow> sv_idem s)"
    "enforce_owner s authed OpInsert (rq_table req) (hm_remove ''_idem'' vals) = Ok ()"
    "\<not> blob_too_large (rq_table req) vals"
proof -
  let ?v = "hm_remove ''_idem'' vals"
  have blob: "\<not> blob_too_large (rq_table req) vals"
    using assms by (auto simp: dispatch_insert_def response_err_def Let_def)
  have own: "enforce_owner s authed OpInsert (rq_table req) ?v = Ok ()"
    using assms blob by (cases "enforce_owner s authed OpInsert (rq_table req) ?v")
      (auto simp: dispatch_insert_def idem_key_def response_err_def Let_def)
  obtain physical shard where route: "route_insert (se_hash (de_server d)) (shards_of s) (rq_table req) ?v = (physical, shard)"
    by fastforce
  let ?ins = "(if cf_skip_validation (sv_config s) then engine_insert_unchecked else engine_insert)
       physical \<lparr> row_id = 0, row_values = ?v \<rparr> (sv_engine s)"
  obtain res eng where ins: "?ins = (res, eng)" by fastforce
  then have ins': "(if cf_skip_validation (sv_config s)
      then engine_insert_unchecked physical \<lparr> row_id = 0, row_values = ?v \<rparr> (sv_engine s)
      else engine_insert physical \<lparr> row_id = 0, row_values = ?v \<rparr> (sv_engine s)) = (res, eng)"
    by (simp split: if_splits)
  note unfolded = assms(1) [unfolded dispatch_insert_def Let_def assms(3) option.case if_not_P [OF blob]
      idem_key_def [symmetric] assms(4) own sum.case route prod.case ins']
  show thesis
  proof (cases res)
    case (Inl err)
    with unfolded assms(2) show ?thesis by (auto simp: response_err_def)
  next
    case (Inr local)
    let ?wal = "wal_log (de_server d) EInsert physical (compose_id shard local)
        (values_to_json_bytes (se_json (de_server d)) ?v) (set_engine eng s)"
    obtain wres s1 where wal: "?wal = (wres, s1)" by fastforce
    note frame = wal_log_Ok_frame [OF wal]
    show ?thesis
    proof (cases wres)
      case (Inl w)
      with unfolded Inr wal assms(2) show ?thesis by (auto simp: response_err_def)
    next
      case ok: (Inr u)
      note final = unfolded [unfolded Inr sum.case wal ok prod.case]
      have "resp = response_ok (rq_id req) [\<lparr> rv_id = compose_id shard local, rv_values = ?v \<rparr>]"
        "sv_tx_manager s' = sv_tx_manager s1" "sv_config s' = sv_config s1" "sv_policy s' = sv_policy s1"
        "sv_idem s' = (case idem_key vals of
           Some k \<Rightarrow> sv_idem (idem_record (de_server d) k (compose_id shard local) s1) | None \<Rightarrow> sv_idem s1)"
        using final by (auto split: option.splits)
      moreover have "sv_idem (idem_record (de_server d) k g s1) = sv_idem (idem_record (de_server d) k g s)" for k g
        using frame by (simp add: idem_record_def Let_def)
      ultimately show ?thesis
        using that [OF route, of local eng] ins Inr frame own blob by (simp split: option.split)
    qed
  qed
qed

lemma inserted_row:
  assumes "(if b then engine_insert_unchecked else engine_insert) nm r e = (Ok i, e')"
  shows "engine_get nm i e' = Ok (Some (r \<lparr> row_id := i \<rparr>)) \<and> (\<exists>t. hm_get (e_tables e) nm = Some t \<and> i = t_next_id t)"
proof -
  have "table_insert_unchecked r t = (Ok i, t') \<Longrightarrow> i = t_next_id t \<and> hm_get (t_rows t') i = Some (r \<lparr> row_id := i \<rparr>)" for t t'
    by (cases "check_uniq t (uniq_cols t) (row_values r) None") (auto simp: table_insert_unchecked_cases hm_simps)
  moreover have "table_insert r t = (Ok i, t') \<Longrightarrow> i = t_next_id t \<and> hm_get (t_rows t') i = Some (r \<lparr> row_id := i \<rparr>)" for t t'
    by (auto simp: table_insert_Ok hm_simps)
  ultimately show ?thesis using assms
    by (cases b) (fastforce simp: engine_insert_unchecked_def engine_insert_def with_table_Ok engine_get_eq hm_simps)+
qed

lemma enforce_owner_op:
  "enforce_owner s a p t v = Ok u \<Longrightarrow> authorize s a p' t = Ok u' \<Longrightarrow> enforce_owner s a p' t v = Ok ()"
  by (auto simp: enforce_owner_def authorize_row_def split: option.splits sum.splits if_splits)

lemma enforce_owner_cong:
  "sv_config s' = sv_config s \<Longrightarrow> sv_policy s' = sv_policy s \<Longrightarrow> enforce_owner s' a p t v = enforce_owner s a p t v"
  using authorize_cong [of s' s a p t]
  by (simp add: enforce_owner_def authorize_row_def owner_column_def split: option.split sum.split)

definition ids_small :: "engine \<Rightarrow> bool" where
  "ids_small e \<longleftrightarrow> (\<forall>nm t. hm_get (e_tables e) nm = Some t \<longrightarrow> unat (t_next_id t) < 2 ^ 56)"

text \<open>
  C26: What was inserted can be read: with at most 256 shards and row counters below \<open>2 ^ 56\<close>,
  after a successful insert through the server, whatever table, shard and effects it involved, a
  get of the returned identifier by the same caller with read rights returns exactly the inserted
  values, without the idempotency key.
\<close>

theorem insert_then_get:
  assumes "dispatch d q authed req s = (resp, s')" and "rq_op req = OpInsert" and "rs_ok resp"
    and "rq_values req = Some vals" and "Option.bind (idem_key vals) (idem_lookup s) = None"
    and "shard_count (shards_of s) (rq_table req) \<le> 256" and "ids_small (sv_engine s)"
    and "authorize s authed OpGet (rq_table req) = Ok ()"
    and "get = \<lparr> rq_id = j, rq_op = OpGet, rq_table = rq_table req, rq_row_id = Some g, rq_values = None \<rparr>"
    and "map rv_id (rs_rows resp) = [g]"
  shows "dispatch d q' authed get s' = (response_ok j [\<lparr> rv_id = g, rv_values = hm_remove ''_idem'' vals \<rparr>], s')"
proof -
  have ins: "dispatch_insert d (qe_now_micros q) authed req s = (resp, s')"
    using assms(1,2) by (simp add: dispatch_def)
  obtain physical shard local eng where
    route: "route_insert (se_hash (de_server d)) (shards_of s) (rq_table req) (hm_remove ''_idem'' vals) = (physical, shard)"
    and eng: "(if cf_skip_validation (sv_config s) then engine_insert_unchecked else engine_insert)
       physical \<lparr> row_id = 0, row_values = hm_remove ''_idem'' vals \<rparr> (sv_engine s) = (Ok local, eng)"
    and resp: "resp = response_ok (rq_id req) [\<lparr> rv_id = compose_id shard local, rv_values = hm_remove ''_idem'' vals \<rparr>]"
    and s': "sv_engine s' = eng" "sv_config s' = sv_config s" "sv_policy s' = sv_policy s"
    and own: "enforce_owner s authed OpInsert (rq_table req) (hm_remove ''_idem'' vals) = Ok ()"
    by (rule dispatch_insert_Ok [OF ins assms(3,4,5)])
  note row = inserted_row [OF eng]
  have g: "g = compose_id shard local" using assms(10) resp by (simp add: response_ok_def)
  have "unat local < 2 ^ 56" using row assms(7) by (auto simp: ids_small_def)
  then have "route_id (shards_of s') (rq_table req) g = (physical, local)"
    using routed_row_found [OF route assms(6)] s'(2) by (simp add: g shards_of_def)
  moreover have "enforce_owner s' authed OpGet (rq_table req) (hm_remove ''_idem'' vals) = Ok ()"
    using enforce_owner_op [OF own assms(8)] enforce_owner_cong [OF s'(2,3)] by simp
  ultimately show ?thesis
    using row s'(1) assms(9) by (simp add: dispatch_def dispatch_get_def row_to_view_def)
qed

text \<open>
  C27: Retrying is safe: after a successful insert with an idempotency key, the same insert sent
  again, under any request number and by anyone, reports the same row and changes nothing.
\<close>

theorem idempotent_retry:
  assumes "dispatch d q authed req s = (resp, s')" and "rq_op req = OpInsert" and "rs_ok resp"
    and "rq_values req = Some vals" and "idem_key vals = Some k"
    and "idem_inv s" and "\<And>ks. mset (se_key_order (de_server d) ks) = mset ks"
  shows "dispatch d q' authed' (req \<lparr> rq_id := j \<rparr>) s' = (response_ok j (rs_rows resp), s')"
proof -
  have ins: "dispatch_insert d (qe_now_micros q) authed req s = (resp, s')"
    using assms(1,2) by (simp add: dispatch_def)
  have blob: "\<not> blob_too_large (rq_table req) vals"
    using ins assms(3,4) by (auto simp: dispatch_insert_def response_err_def Let_def)
  have "\<exists>g. idem_lookup s' k = Some g \<and> rs_rows resp = [\<lparr> rv_id = g, rv_values = hm_remove ''_idem'' vals \<rparr>]"
  proof (cases "idem_lookup s k")
    case (Some g)
    then show ?thesis using ins assms(4,5) blob
      by (auto simp: dispatch_insert_def idem_key_def [symmetric] response_ok_def Let_def)
  next
    case None
    with assms(5) have none: "Option.bind (idem_key vals) (idem_lookup s) = None" by simp
    obtain physical shard local eng where
      resp: "resp = response_ok (rq_id req) [\<lparr> rv_id = compose_id shard local, rv_values = hm_remove ''_idem'' vals \<rparr>]"
      and idem: "sv_idem s' = (case idem_key vals of
        Some k \<Rightarrow> sv_idem (idem_record (de_server d) k (compose_id shard local) s) | None \<Rightarrow> sv_idem s)"
      by (rule dispatch_insert_Ok [OF ins assms(3,4) none])
    have "idem_lookup s' k = idem_lookup (idem_record (de_server d) k (compose_id shard local) s) k"
      using idem assms(5) by (simp add: idem_lookup_def)
    then show ?thesis using idem_record_lookup [OF assms(6,7)] resp by (simp add: response_ok_def)
  qed
  then show ?thesis using assms(2,4,5) blob
    by (auto simp: dispatch_def dispatch_insert_def idem_key_def [symmetric] Let_def)
qed

section \<open>Examples\<close>

definition demo_dispatch_env :: dispatch_env where
  "demo_dispatch_env = \<lparr> de_server = demo_server_env, de_version = ''1'', de_debug_str = (\<lambda>x. x),
     de_debug_value = (\<lambda>_. []), de_deploy = (\<lambda>_ _. Err ''unsupported'') \<rparr>"

definition demo_request_env :: request_env where
  "demo_request_env = \<lparr> qe_now_micros = 5, qe_now_millis = 5, qe_table_id = 1, qe_job_id = 1 \<rparr>"

definition note_schema :: "string \<Rightarrow> table_schema" where
  "note_schema nm = with_column (with_column (schema_new 1 nm) (column_nullable (column_new ''owner'' TString)))
     (column_nullable (column_new ''body'' TString))"

definition shared_config :: server_config where
  "shared_config = \<lparr> cf_skip_validation = False, cf_require_auth = True, cf_auth_tokens = [],
     cf_table_shards = [(''notes'', shard_spec_new 2 ''owner'')], cf_row_owner = [(''notes'', ''owner'')] \<rparr>"

definition shared_server :: server where
  "shared_server = (server_new shared_config []) \<lparr>
     sv_tx_manager := tm_new (snd (engine_create_table (note_schema ''posts'')
       (snd (engine_create_table (note_schema ''notes_00'') (snd (engine_create_table (note_schema ''notes_01'') engine_new)))))),
     sv_policy := add_rule (rule_allow [''user''] ''notes'' PRead) (add_rule (rule_allow [''user''] ''notes'' PWrite)
       (add_rule (rule_allow [''author''] ''posts'' PWrite) policy_new)) \<rparr>"

definition user :: "string \<Rightarrow> string \<Rightarrow> identity" where
  "user subject role = with_role role (identity_new 1 subject)"

definition demo_request :: "op \<Rightarrow> string \<Rightarrow> u64 option \<Rightarrow> row_values option \<Rightarrow> request" where
  "demo_request p table rid vals = \<lparr> rq_id = 9, rq_op = p, rq_table = table, rq_row_id = rid, rq_values = vals \<rparr>"

definition run :: "identity \<Rightarrow> request \<Rightarrow> server \<Rightarrow> response \<times> server" where
  "run i req s = (case handle_request demo_dispatch_env demo_request_env (Some i) req s of (resp, _, s') \<Rightarrow> (resp, s'))"

definition alice_note :: request where
  "alice_note = demo_request OpInsert ''notes'' None
     (Some [(''owner'', VString ''alice''), (''body'', VString ''secret''), (''_idem'', VString ''k1'')])"

definition noted_server :: server where
  "noted_server = snd (run (user ''alice'' ''user'') alice_note shared_server)"


definition note_view :: row_view where
  "note_view = \<lparr> rv_id = 72057594037927937, rv_values = [(''owner'', VString ''alice''), (''body'', VString ''secret'')] \<rparr>"

abbreviation alice :: identity where "alice \<equiv> user ''alice'' ''user''"

lemma alice_note_stored:
  "dispatch demo_dispatch_env demo_request_env (Some alice) alice_note shared_server = (response_ok 9 [note_view], noted_server)"
proof -
  have "fst (dispatch demo_dispatch_env demo_request_env (Some alice) alice_note shared_server) = response_ok 9 [note_view]"
    by code_simp
  moreover have "is_ok (authorize shared_server (Some alice) OpInsert ''notes'')" by code_simp
  then have "authorize shared_server (Some alice) (rq_op alice_note) (rq_table alice_note) = Ok ()"
    by (cases "authorize shared_server (Some alice) OpInsert ''notes''") (auto simp: alice_note_def demo_request_def)
  then have "noted_server = snd (dispatch demo_dispatch_env demo_request_env (Some alice) alice_note shared_server)"
    by (simp add: noted_server_def run_def handle_request_def handshake_def take_auth_token_def alice_note_def
        demo_request_def split: prod.split)
  ultimately show ?thesis by (simp add: prod_eq_iff)
qed

lemma alice_scan:
  "rs_rows (fst (dispatch demo_dispatch_env demo_request_env (Some alice) (demo_request OpScan ''notes'' None None) noted_server)) = [note_view]"
  by code_simp

theorem reads_return_owned_rows_witness:
  "note_view \<in> set (rs_rows (fst (dispatch demo_dispatch_env demo_request_env (Some alice) (demo_request OpScan ''notes'' None None) noted_server))) \<and>
   owns noted_server (Some alice) ''notes'' (rv_values note_view)"
  using reads_return_owned_rows [of "demo_request OpScan ''notes'' None None" note_view demo_dispatch_env demo_request_env "Some alice" noted_server]
  unfolding alice_scan by (simp add: demo_request_def)

definition alice_update :: request where
  "alice_update = demo_request OpUpdate ''notes'' (Some 72057594037927937) (Some [(''body'', VString ''new'')])"

lemma alice_updates: "rs_ok (fst (dispatch demo_dispatch_env demo_request_env (Some alice) alice_update noted_server))"
  by code_simp

theorem writes_touch_owned_rows_witness:
  "\<exists>r. engine_get ''notes_01'' 1 (sv_engine noted_server) = Ok (Some r) \<and> owns noted_server (Some alice) ''notes'' (row_values r)"
proof -
  have "route_id (shards_of noted_server) ''notes'' 72057594037927937 = (''notes_01'', 1)" by code_simp
  then show ?thesis
    using writes_touch_owned_rows [OF _ alice_updates] by (auto simp: alice_update_def demo_request_def)
qed

theorem insert_then_get_witness:
  "fst (dispatch demo_dispatch_env demo_request_env (Some alice) (demo_request OpGet ''notes'' (Some 72057594037927937) None) noted_server)
     = response_ok 9 [note_view]"
proof -
  have fresh: "Option.bind (idem_key [(''owner'', VString ''alice''), (''body'', VString ''secret''), (''_idem'', VString ''k1'')])
      (idem_lookup shared_server) = None" by code_simp
  have "shard_count (shards_of shared_server) ''notes'' \<le> 256" by code_simp
  moreover have "ids_small (sv_engine shared_server)"
  proof -
    have "sv_engine shared_server = \<lparr> e_tables = [(''notes_01'', table_new (note_schema ''notes_01'')),
        (''notes_00'', table_new (note_schema ''notes_00'')), (''posts'', table_new (note_schema ''posts''))] \<rparr>"
      by code_simp
    then show ?thesis by (auto simp: ids_small_def table_new_def split: if_splits)
  qed
  moreover have "is_ok (authorize shared_server (Some alice) OpGet ''notes'')" by code_simp
  then have "authorize shared_server (Some alice) OpGet ''notes'' = Ok ()"
    by (cases "authorize shared_server (Some alice) OpGet ''notes''") auto
  ultimately show ?thesis
    using insert_then_get [OF alice_note_stored, where g = 72057594037927937 and j = 9 and q' = demo_request_env, OF _ _ _ fresh]
    by (simp add: alice_note_def demo_request_def response_ok_def note_view_def)
qed

theorem idempotent_retry_witness:
  "dispatch demo_dispatch_env demo_request_env None (alice_note \<lparr> rq_id := 10 \<rparr>) noted_server = (response_ok 10 [note_view], noted_server)"
  using idempotent_retry [OF alice_note_stored, where q' = demo_request_env and authed' = None and j = 10 and k = "''k1''"
      and vals = "[(''owner'', VString ''alice''), (''body'', VString ''secret''), (''_idem'', VString ''k1'')]"]
  by (simp add: alice_note_def demo_request_def response_ok_def idem_key_def shared_server_def idem_inv_def
      server_new_def demo_dispatch_env_def demo_server_env_def)

section \<open>Ways around the checks\<close>

definition carol :: identity where
  "carol = with_permission PRead (identity_new 2 ''carol'')"

text \<open>
  The name of a shard goes around row ownership: ownership is configured for the base table,
  and a request that names the physical table has no owner column. A caller with the right to
  read is refused the row of somebody else under the base name and receives it under the name of
  the shard.
\<close>

theorem shard_name_bypasses_ownership:
  "\<not> rs_ok (fst (run carol (demo_request OpGet ''notes'' (Some 72057594037927937) None) noted_server)) \<and>
   rs_rows (fst (run carol (demo_request OpGet ''notes_01'' (Some 1) None) noted_server)) =
     [\<lparr> rv_id = 1, rv_values = [(''owner'', VString ''alice''), (''body'', VString ''secret'')] \<rparr>]"
  by code_simp

definition posted_server :: server where
  "posted_server = snd (run (user ''dave'' ''author'') (demo_request OpInsert ''posts'' None
     (Some [(''owner'', VString ''dave''), (''body'', VString ''Cats'')])) shared_server)"

text \<open>
  Search goes around the rights on tables: the right to read is checked for the table named in
  the request only, while the hits come from every table of posts. A caller who may not read the
  posts receives them from a search that names another table.
\<close>

theorem search_bypasses_table_rights:
  "rs_error (fst (run (user ''bob'' ''user'') (demo_request OpGet ''posts'' (Some 1) None) posted_server)) =
     Some ''forbidden: policy denies'' \<and>
   rs_rows (fst (run (user ''bob'' ''user'') (demo_request OpSearch ''notes'' None (Some [(''_q'', VString ''cats'')])) posted_server)) =
     [\<lparr> rv_id = 1, rv_values = [(''owner'', VString ''dave''), (''body'', VString ''Cats'')] \<rparr>]"
  by code_simp

text \<open>
  A write refused by the log may still happen: while the log rotates, an update is answered
  with an error and yet has changed the row, so memory and log disagree; only an insert is
  taken back.
\<close>

theorem refused_update_is_applied:
  "\<not> rs_ok (fst (run alice alice_update (noted_server \<lparr> sv_wal_enabled := True, sv_wal_rotating := True \<rparr>))) \<and>
   engine_get ''notes_01'' 1 (sv_engine (snd (run alice alice_update (noted_server \<lparr> sv_wal_enabled := True, sv_wal_rotating := True \<rparr>)))) =
     Ok (Some \<lparr> row_id = 1, row_values = [(''owner'', VString ''alice''), (''body'', VString ''new'')] \<rparr>)"
  by code_simp

end
