(* ===== verification/Proc_Writes.thy ===== *)
theory Proc_Writes
  imports Dispatch
begin

text \<open>
  What a procedure call writes (\<open>execute_procedure\<close> and \<open>ProcBackend\<close> of
  \<open>blitz-server/src/transport.rs\<close>). The requests that the steps of a procedure make of their backend
  are recorded beside the run, and the tables after the call are compared with them: none is
  lost, added, reordered or sent elsewhere, and each was within the rights of the caller.
\<close>

section \<open>The requests of a procedure\<close>

datatype row_request =
    ReqInsert string row_values
  | ReqUpdate string u64 row_values
  | ReqDelete string u64

definition record_ok :: "row_request \<Rightarrow> ('e + 'a) \<times> 'b \<Rightarrow> row_request list \<Rightarrow> ('e + 'a) \<times> ('b \<times> row_request list)" where
  "record_ok q x reqs = (fst x, (snd x, if is_ok (fst x) then reqs @ [q] else reqs))"

text \<open>A backend that behaves as the given one and notes every write that it accepts.\<close>

definition recording :: "'b backend \<Rightarrow> ('b \<times> row_request list) backend" where
  "recording bk = \<lparr>
     bk_read = (\<lambda>t i (b, reqs). (fst (bk_read bk t i b), (snd (bk_read bk t i b), reqs))),
     bk_insert = (\<lambda>t vals (b, reqs). record_ok (ReqInsert t vals) (bk_insert bk t vals b) reqs),
     bk_update = (\<lambda>t i vals (b, reqs). record_ok (ReqUpdate t i vals) (bk_update bk t i vals b) reqs),
     bk_delete = (\<lambda>t i (b, reqs). record_ok (ReqDelete t i) (bk_delete bk t i b) reqs),
     bk_call = (\<lambda>f args (b, reqs). bk_call bk f args b) \<rparr>"

definition plain_runner :: "('b \<times> 'c) runner \<Rightarrow> 'b runner" where
  "plain_runner r = \<lparr> rn_backend = fst (rn_backend r), rn_variables = rn_variables r, rn_fuel = rn_fuel r, rn_burned = rn_burned r \<rparr>"

lemma plain_runner_simps [simp]:
  "rn_variables (plain_runner r) = rn_variables r" "rn_backend (plain_runner r) = fst (rn_backend r)"
  "plain_runner (r \<lparr> rn_backend := (b, l) \<rparr>) = (plain_runner r) \<lparr> rn_backend := b \<rparr>"
  "plain_runner (r \<lparr> rn_variables := v \<rparr>) = (plain_runner r) \<lparr> rn_variables := v \<rparr>"
  by (simp_all add: plain_runner_def)

lemma charge_plain: "charge (plain_runner r) = map_prod id plain_runner (charge r)"
  by (simp add: charge_def plain_runner_def Let_def)

lemma record_ok_simps [simp]:
  "record_ok q (Inl e, b) reqs = (Inl e, (b, reqs))" "record_ok q (Inr x, b) reqs = (Inr x, (b, reqs @ [q]))"
  by (simp_all add: record_ok_def)

text \<open>Recording changes nothing of the run.\<close>

lemma run_recording:
  fixes bk :: "'b backend" and r :: "('b \<times> row_request list) runner"
  shows "bk' = recording bk \<Longrightarrow> run_steps bk env steps v (plain_runner r) = map_prod id plain_runner (run_steps bk' env steps v r)"
    and "bk' = recording bk \<Longrightarrow> run_step bk env step (plain_runner r) = map_prod id plain_runner (run_step bk' env step r)"
proof (induction bk' env steps v r and bk' env step r rule: run_steps_run_step.induct)
  case (2 bk' env s ss v r)
  then show ?case
    by (auto simp: charge_plain split: prod.split sum.split flow.split)
qed (auto simp: recording_def Let_def split: prod.splits sum.splits option.splits)

lemma run_procedure_recording:
  "run_procedure bk env p args fuel b = map_prod id fst (run_procedure (recording bk) env p args fuel (b, reqs))"
proof -
  let ?r = "\<lparr> rn_backend = (b, reqs), rn_variables = args, rn_fuel = fuel, rn_burned = 0 \<rparr>"
  have "run_steps bk env (pc_steps p) VNull (plain_runner ?r) =
      map_prod id plain_runner (run_steps (recording bk) env (pc_steps p) VNull ?r)"
    by (rule run_recording(1)) simp
  moreover have "plain_runner ?r = \<lparr> rn_backend = b, rn_variables = args, rn_fuel = fuel, rn_burned = 0 \<rparr>"
    by (simp add: plain_runner_def)
  ultimately show ?thesis
    by (auto simp: run_procedure_def split: prod.split sum.split)
qed

definition call_args :: "request \<Rightarrow> row_values" where
  "call_args req = (case rq_values req of Some v \<Rightarrow> v | None \<Rightarrow> [])"

definition call_requests :: "server_env \<Rightarrow> identity option \<Rightarrow> procedure \<Rightarrow> row_values \<Rightarrow> server \<Rightarrow> row_request list" where
  "call_requests e authed p args s =
     snd (snd (run_procedure (recording (proc_ops e)) (se_proc e) p args PROC_FUEL (begin_backend authed s, [])))"

section \<open>Where a request goes and who may make it\<close>

fun routed_write :: "server_env \<Rightarrow> server \<Rightarrow> row_request \<Rightarrow> write_op" where
  "routed_write e s (ReqInsert t vals) =
     WInsert (fst (route_insert (se_hash e) (cf_table_shards (sv_config s)) t vals)) \<lparr> row_id = 0, row_values = vals \<rparr>"
| "routed_write e s (ReqUpdate t i vals) = (case route_id (cf_table_shards (sv_config s)) t i of (ph, l) \<Rightarrow> WUpdate ph l vals)"
| "routed_write e s (ReqDelete t i) = (case route_id (cf_table_shards (sv_config s)) t i of (ph, l) \<Rightarrow> WDelete ph l)"

fun routed_record :: "server_env \<Rightarrow> server \<Rightarrow> row_request \<Rightarrow> proc_write" where
  "routed_record e s (ReqInsert t vals) =
     (case route_insert (se_hash e) (cf_table_shards (sv_config s)) t vals of (ph, shard) \<Rightarrow>
        \<lparr> pwr_base = t, pwr_physical = ph, pwr_shard = shard, pwr_entry = EInsert, pwr_values = Some vals \<rparr>)"
| "routed_record e s (ReqUpdate t i vals) =
     \<lparr> pwr_base = t, pwr_physical = fst (route_id (cf_table_shards (sv_config s)) t i), pwr_shard = fst (split_id i),
       pwr_entry = EUpdate, pwr_values = Some vals \<rparr>"
| "routed_record e s (ReqDelete t i) =
     \<lparr> pwr_base = t, pwr_physical = fst (route_id (cf_table_shards (sv_config s)) t i), pwr_shard = fst (split_id i),
       pwr_entry = EDelete, pwr_values = None \<rparr>"

text \<open>
  A row as a transaction sees it that has buffered some writes: a deleted row is gone, and of the
  buffered updates only the newest counts.
\<close>

definition pending_row :: "engine \<Rightarrow> write_op list \<Rightarrow> string \<Rightarrow> row_id \<Rightarrow> row option" where
  "pending_row eng ws t i =
     (let stored = (case engine_get t i eng of Inr r \<Rightarrow> r | Inl _ \<Rightarrow> None) in
      case find (\<lambda>w. write_key w = Some (t, i)) (rev ws) of
        Some (WDelete _ _) \<Rightarrow> None
      | Some (WUpdate _ _ vals) \<Rightarrow> map_option (\<lambda>r. r \<lparr> row_values := hm_extend (row_values r) vals \<rparr>) stored
      | _ \<Rightarrow> stored)"

definition may_touch :: "server_env \<Rightarrow> server \<Rightarrow> identity option \<Rightarrow> row_request list \<Rightarrow> op \<Rightarrow> string \<Rightarrow> u64 \<Rightarrow> bool" where
  "may_touch e s ident prior p t i \<longleftrightarrow>
     authorize s ident p t = Ok () \<and>
     (case route_id (cf_table_shards (sv_config s)) t i of (ph, l) \<Rightarrow>
        (case pending_row (sv_engine s) (map (routed_write e s) prior) ph l of
           Some r \<Rightarrow> owns s ident t (row_values r)
         | None \<Rightarrow> False))"

text \<open>
  A request is allowed when the caller may make it on the table and owns the row: the one that
  is inserted, or the one that is there, as the call sees it, when it is changed or deleted.
\<close>

fun request_allowed :: "server_env \<Rightarrow> server \<Rightarrow> identity option \<Rightarrow> row_request list \<Rightarrow> row_request \<Rightarrow> bool" where
  "request_allowed e s ident prior (ReqInsert t vals) \<longleftrightarrow> authorize s ident OpInsert t = Ok () \<and> owns s ident t vals"
| "request_allowed e s ident prior (ReqUpdate t i vals) \<longleftrightarrow> may_touch e s ident prior OpUpdate t i"
| "request_allowed e s ident prior (ReqDelete t i) \<longleftrightarrow> may_touch e s ident prior OpDelete t i"

definition all_allowed :: "server_env \<Rightarrow> server \<Rightarrow> identity option \<Rightarrow> row_request list \<Rightarrow> bool" where
  "all_allowed e s ident reqs \<longleftrightarrow> (\<forall>n < length reqs. request_allowed e s ident (take n reqs) (reqs ! n))"

lemma all_allowed_snoc:
  "all_allowed e s ident (reqs @ [q]) \<longleftrightarrow> all_allowed e s ident reqs \<and> request_allowed e s ident reqs q"
  by (auto simp: all_allowed_def nth_append less_Suc_eq)

lemma tm_get_pending:
  assumes "tm_get m t i tx = (Ok (Some r), tx')"
  shows "pending_row (tm_engine m) (tx_writes tx) t i = Some r"
proof -
  have nw: "newest_write tx t i = Some w \<Longrightarrow> write_key w = Some (t, i)" for w
    by (auto simp: newest_write_def find_Some_iff)
  show ?thesis
    using assms nw by (auto simp: tm_get_def pending_row_def newest_write_def Let_def
        split: if_splits option.splits write_op.splits sum.splits)
qed

section \<open>The invariant of the recorded run\<close>

definition recorded_ok :: "server_env \<Rightarrow> server \<Rightarrow> identity option \<Rightarrow> proc_backend \<times> row_request list \<Rightarrow> bool" where
  "recorded_ok e s ident x \<longleftrightarrow>
     (case x of (b, reqs) \<Rightarrow>
        (\<exists>m. pb_server b = s \<lparr> sv_tx_manager := m \<rparr> \<and> tm_engine m = sv_engine s) \<and> pb_ident b = ident \<and> tx_is_active (pb_tx b) \<and>
        tx_writes (pb_tx b) = map (routed_write e s) reqs \<and> pb_writes b = map (routed_record e s) reqs \<and> all_allowed e s ident reqs)"

lemma same_rights [simp]:
  "authorize (s \<lparr> sv_tx_manager := m \<rparr>) ident p t = authorize s ident p t" "owns (s \<lparr> sv_tx_manager := m \<rparr>) = owns s"
  using authorize_cong [of "s \<lparr> sv_tx_manager := m \<rparr>" s] by (simp_all add: owns_def owner_column_def fun_eq_iff)

lemma recorded_get:
  assumes "recorded_ok e s ident (b, reqs)" and "pb_get ph l b = (res, b')"
  shows "recorded_ok e s ident (b', reqs)" "res = Ok (Some r) \<Longrightarrow> pending_row (sv_engine s) (map (routed_write e s) reqs) ph l = Some r"
proof -
  obtain m where m: "sv_tx_manager (pb_server b) = m" "tm_engine m = sv_engine s" "tx_writes (pb_tx b) = map (routed_write e s) reqs"
    using assms(1) by (auto simp: recorded_ok_def)
  obtain tx where get: "tm_get m ph l (pb_tx b) = (res, tx)" "b' = b \<lparr> pb_tx := tx \<rparr>"
    using assms(2) m(1) by (auto simp: pb_get_def split: prod.splits)
  show "recorded_ok e s ident (b', reqs)"
    using assms(1) tm_get_tx [OF get(1)] get(2) by (auto simp: recorded_ok_def tx_is_active_def)
  show "res = Ok (Some r) \<Longrightarrow> pending_row (sv_engine s) (map (routed_write e s) reqs) ph l = Some r"
    using tm_get_pending get(1) m by metis
qed

lemma recorded_unique:
  "recorded_ok e s ident (b, reqs) \<Longrightarrow> pb_check_unique e' t vals b = (res, b') \<Longrightarrow> recorded_ok e s ident (b', reqs)"
  by (auto simp: recorded_ok_def pb_check_unique_def split: sum.splits prod.splits)

lemma recorded_push:
  assumes "recorded_ok e s ident (b, reqs)" and "op = routed_write e s q" and "w = routed_record e s q" and "request_allowed e s ident reqs q"
  shows "recorded_ok e s ident (snd (record_ok q (pb_push e (tx_push op (pb_tx b)) w b) reqs))"
proof -
  have "tx_push op (pb_tx b) = (Ok (), (pb_tx b) \<lparr> tx_writes := tx_writes (pb_tx b) @ [op] \<rparr>)"
    using assms(1) by (simp add: recorded_ok_def tx_push_def)
  then show ?thesis
    using assms by (auto simp: recorded_ok_def pb_push_def all_allowed_snoc tx_is_active_def)
qed

lemma recorded_read:
  "recorded_ok e s ident (b, reqs) \<Longrightarrow> recorded_ok e s ident (snd (pb_read e t i b), reqs)"
  using recorded_get(1)
  by (fastforce simp: pb_read_def Let_def split: sum.split prod.split option.split)

lemma recorded_insert:
  assumes ok: "recorded_ok e s ident (b, reqs)"
  shows "recorded_ok e s ident (snd (record_ok (ReqInsert t vals) (pb_insert e t vals b) reqs))"
proof -
  obtain m where server: "pb_server b = s \<lparr> sv_tx_manager := m \<rparr>" and ident: "pb_ident b = ident"
    using ok by (auto simp: recorded_ok_def)
  obtain ph shard where route: "route_insert (se_hash e) (cf_table_shards (sv_config s)) t vals = (ph, shard)"
    by (cases "route_insert (se_hash e) (cf_table_shards (sv_config s)) t vals")
  obtain res b1 where uniq: "pb_check_unique e ph vals b = (res, b1)" by (cases "pb_check_unique e ph vals b")
  have ok1: "recorded_ok e s ident (b1, reqs)" using recorded_unique [OF ok uniq] .
  show ?thesis
  proof (cases "\<exists>x y z. pb_deny b OpInsert t = Inr x \<and> \<not> blob_too_large t vals \<and> res = Inr y \<and> pb_deny_row b1 OpInsert t vals = Inr z")
    case False
    then show ?thesis
      using ok ok1 server route uniq by (auto simp: pb_insert_def Let_def split: sum.split)
  next
    case True
    then have "request_allowed e s ident reqs (ReqInsert t vals)"
      using server ident ok1 by (auto simp: pb_deny_def pb_deny_row_def recorded_ok_def dest!: enforce_owner_owns)
    from recorded_push [OF ok1 refl refl this] show ?thesis
      using True server route uniq by (auto simp: pb_insert_def tx_insert_def Let_def)
  qed
qed

lemma recorded_existing:
  assumes ok: "recorded_ok e s ident (b, reqs)" and ex: "pb_existing e p t i b = (res, b')"
  shows "recorded_ok e s ident (b', reqs)"
    "res = Ok (ph, l) \<Longrightarrow> route_id (cf_table_shards (sv_config s)) t i = (ph, l) \<and> may_touch e s ident reqs p t i"
proof -
  obtain m where server: "pb_server b = s \<lparr> sv_tx_manager := m \<rparr>" and ident: "pb_ident b = ident"
    using ok by (auto simp: recorded_ok_def)
  obtain ph' l' where route: "route_id (cf_table_shards (sv_config s)) t i = (ph', l')"
    by (cases "route_id (cf_table_shards (sv_config s)) t i")
  obtain got b1 where get: "pb_get ph' l' b = (got, b1)" by (cases "pb_get ph' l' b")
  note g = recorded_get [OF ok get]
  show "recorded_ok e s ident (b', reqs)"
    using ex ok g(1) server route get by (auto simp: pb_existing_def Let_def split: sum.splits option.splits)
  assume res: "res = Ok (ph, l)"
  then obtain r u where r: "got = Ok (Some r)" "pb_deny_row b1 p t (row_values r) = Ok u" "authorize s ident p t = Ok ()" "ph = ph'" "l = l'"
    using ex server ident route get by (auto simp: pb_existing_def pb_deny_def Let_def split: sum.splits option.splits)
  have "owns s ident t (row_values r)"
    using r(2) g(1) by (auto simp: pb_deny_row_def recorded_ok_def dest!: enforce_owner_owns)
  then show "route_id (cf_table_shards (sv_config s)) t i = (ph, l) \<and> may_touch e s ident reqs p t i"
    using g(2) [OF r(1)] r route by (simp add: may_touch_def)
qed

lemma recorded_update:
  assumes ok: "recorded_ok e s ident (b, reqs)"
  shows "recorded_ok e s ident (snd (record_ok (ReqUpdate t i vals) (pb_update e t i vals b) reqs))"
proof -
  obtain res b1 where ex: "pb_existing e OpUpdate t i b = (res, b1)" by (cases "pb_existing e OpUpdate t i b")
  note x = recorded_existing [OF ok ex]
  show ?thesis
  proof (cases res)
    case (Inr pl)
    obtain ph l where pl: "pl = (ph, l)" by (cases pl)
    from recorded_push [OF x(1), of _ "ReqUpdate t i vals"] x(2) Inr pl ex show ?thesis
      by (simp add: pb_update_def tx_update_def)
  qed (use ex x(1) in \<open>simp add: pb_update_def\<close>)
qed

lemma recorded_delete:
  assumes ok: "recorded_ok e s ident (b, reqs)"
  shows "recorded_ok e s ident (snd (record_ok (ReqDelete t i) (pb_delete e t i b) reqs))"
proof -
  obtain res b1 where ex: "pb_existing e OpDelete t i b = (res, b1)" by (cases "pb_existing e OpDelete t i b")
  note x = recorded_existing [OF ok ex]
  show ?thesis
  proof (cases res)
    case (Inr pl)
    obtain ph l where pl: "pl = (ph, l)" by (cases pl)
    from recorded_push [OF x(1), of _ "ReqDelete t i"] x(2) Inr pl ex show ?thesis
      by (simp add: pb_delete_def tx_delete_def)
  qed (use ex x(1) in \<open>simp add: pb_delete_def\<close>)
qed

interpretation recorded: backend_relation "recording (proc_ops e)" "\<lambda>x y. recorded_ok e s ident x \<longrightarrow> recorded_ok e s ident y" for e s ident
  by unfold_locales
    (auto simp: recording_def proc_ops_def recorded_read recorded_insert recorded_update recorded_delete split: prod.split)

lemma begin_recorded: "recorded_ok e s authed (begin_backend authed s, [])"
  by (auto simp: recorded_ok_def all_allowed_def begin_backend_def tm_begin_def tx_is_active_def tx_new_def)

lemma call_recorded:
  assumes "run_procedure (proc_ops e) (se_proc e) p args PROC_FUEL (begin_backend authed s) = (out, b)"
  shows "recorded_ok e s authed (b, call_requests e authed p args s)"
proof -
  let ?x = "run_procedure (recording (proc_ops e)) (se_proc e) p args PROC_FUEL (begin_backend authed s, [])"
  have "recorded_ok e s authed (snd ?x)"
    using recorded.run_procedure_R [of e s authed "(begin_backend authed s, [])" "se_proc e" p args PROC_FUEL] begin_recorded
    by blast
  moreover have "b = fst (snd ?x)"
    using assms run_procedure_recording [of "proc_ops e" "se_proc e" p args PROC_FUEL "begin_backend authed s" "[]"]
    by (cases ?x) auto
  ultimately show ?thesis
    by (simp add: call_requests_def)
qed

section \<open>The writes of a call\<close>

text \<open>
  C30: A procedure call applies exactly the writes its steps made, with the caller's rights. Take the
  inserts, updates and deletions that the steps of the procedure made and the backend accepted,
  in order. Each of them was allowed when it was made: the caller may make it on the table, and
  owns the row that is inserted, or that is there, as the call sees it, when it is changed or
  deleted. When the call succeeds, the tables are the result of applying them all, in order,
  each to the physical table and the local identifier to which it is routed, and the response lists
  each under its table and identifier. When the call fails, the tables are unchanged, unless
  applying these writes failed on the way. No other thread interrupts the commit here.
\<close>

theorem call_applies_permitted_writes:
  assumes call: "call_procedure e ts authed req s = (resp, s')" and name: "strip_fn (rq_table req) = Some name"
    and proc: "server_procedure s name = Some p" and reqs: "reqs = call_requests e authed p (call_args req) s"
  shows "(\<forall>n < length reqs. request_allowed e s authed (take n reqs) (reqs ! n)) \<and>
    (if rs_ok resp
     then \<exists>touched vals. apply_writes (map (routed_write e s) reqs) [] (sv_engine s) = (Ok touched, sv_engine s') \<and>
            rs_rows resp = [\<lparr> rv_id = 0, rv_values = vals \<rparr>] \<and>
            hm_get vals ''_applied'' = Some (VJson (applied_json (zip (map (routed_record e s) reqs) touched)))
     else sv_engine s' = sv_engine s \<or> (\<exists>err. apply_writes (map (routed_write e s) reqs) [] (sv_engine s) = (Err err, sv_engine s')))"
proof -
  obtain out b where run: "run_procedure (proc_ops e) (se_proc e) p (call_args req) PROC_FUEL (begin_backend authed s) = (out, b)"
    by fastforce
  have rec: "recorded_ok e s authed (b, reqs)" using call_recorded [OF run] reqs by simp
  then obtain m0 where b: "pb_server b = s \<lparr> sv_tx_manager := m0 \<rparr>" "tm_engine m0 = sv_engine s"
    "tx_writes (pb_tx b) = map (routed_write e s) reqs" "pb_writes b = map (routed_record e s) reqs" "all_allowed e s authed reqs"
    by (auto simp: recorded_ok_def)
  note eqs = call [unfolded call_procedure_def] name proc run [unfolded call_args_def]
  show ?thesis
  proof (cases out)
    case (Inl err)
    with eqs have "s' = pb_server b \<and> \<not> rs_ok resp"
      by (auto simp: response_err_def Let_def)
    then show ?thesis
      using b(1,2,5) by (simp add: all_allowed_def)
  next
    case (Inr v)
    obtain res tx m where commit: "tm_commit (pb_tx b) m0 = (res, tx, m)" by (cases "tm_commit (pb_tx b) m0")
    show ?thesis
    proof (cases res)
      case (Inl err)
      with eqs Inr commit b tm_commit_outcome [OF commit] show ?thesis
        by (auto simp: response_err_def Let_def all_allowed_def)
    next
      case ok: (Inr touched)
      with eqs Inr commit b tm_commit_outcome [OF commit] show ?thesis
        by (auto simp: response_ok_def Let_def all_allowed_def hm_simps simp del: map_of_eq_Some_iff)
    qed
  qed
qed

text \<open>Alice changes one of her notes and deletes another, in a sharded table with owners and with authentication.\<close>

definition note_row :: "string \<Rightarrow> row" where
  "note_row body = \<lparr> row_id = 0, row_values = [(''owner'', VString ''alice''), (''body'', VString body)] \<rparr>"

definition note_engine :: engine where
  "note_engine = snd (engine_insert ''notes_01'' (note_row ''two'') (snd (engine_insert ''notes_01'' (note_row ''one'') (sv_engine shared_server))))"

definition note_procedure :: procedure where
  "note_procedure = \<lparr> pc_name = ''p'', pc_description = [],
     pc_steps = [UpdateRow ''notes'' (VUInt64 72057594037927937) [(''body'', VString ''new'')], DeleteRow ''notes'' (VUInt64 72057594037927938)] \<rparr>"

definition note_server :: server where
  "note_server = shared_server \<lparr> sv_tx_manager := tm_new note_engine,
     sv_policy := add_rule (rule_allow [''user''] ''notes'' PDelete) (sv_policy shared_server),
     sv_procedures := [(''p'', \<lparr> rg_proc = note_procedure, rg_version = 1 \<rparr>)] \<rparr>"

definition note_call :: "response \<times> server" where
  "note_call = call_procedure demo_server_env 0 (Some alice) (demo_request OpCall ''fn:p'' None None) note_server"

definition note_requests :: "row_request list" where
  "note_requests = [ReqUpdate ''notes'' 72057594037927937 [(''body'', VString ''new'')], ReqDelete ''notes'' 72057594037927938]"

lemma note_call_runs: "rs_ok (fst note_call)" "call_requests demo_server_env (Some alice) note_procedure [] note_server = note_requests"
  "map (routed_write demo_server_env note_server) note_requests =
     [WUpdate ''notes_01'' 1 [(''body'', VString ''new'')], WDelete ''notes_01'' 2]"
  by code_simp+

theorem call_applies_permitted_writes_witness:
  "cf_require_auth (sv_config note_server) \<and>
   may_touch demo_server_env note_server (Some alice) (take 1 note_requests) OpDelete ''notes'' 72057594037927938 \<and>
   (\<exists>touched. apply_writes [WUpdate ''notes_01'' 1 [(''body'', VString ''new'')], WDelete ''notes_01'' 2] []
       (sv_engine note_server) = (Ok touched, sv_engine (snd note_call)))"
proof -
  have "strip_fn (rq_table (demo_request OpCall ''fn:p'' None None)) = Some ''p''"
    by (simp add: demo_request_def strip_fn_def)
  moreover have "server_procedure note_server ''p'' = Some note_procedure"
    by (simp add: server_procedure_def note_server_def)
  moreover have "call_args (demo_request OpCall ''fn:p'' None None) = []"
    by (simp add: call_args_def demo_request_def)
  ultimately have "(\<forall>n < length note_requests. request_allowed demo_server_env note_server (Some alice) (take n note_requests) (note_requests ! n)) \<and>
      (\<exists>touched. apply_writes (map (routed_write demo_server_env note_server) note_requests) [] (sv_engine note_server) =
        (Ok touched, sv_engine (snd note_call)))"
    using call_applies_permitted_writes [of demo_server_env 0 "Some alice" "demo_request OpCall ''fn:p'' None None" note_server
        "fst note_call" "snd note_call" "''p''" note_procedure note_requests] note_call_runs(1,2)
    by (auto simp: note_call_def)
  moreover have "cf_require_auth (sv_config note_server)" by code_simp
  moreover have "note_requests ! 1 = ReqDelete ''notes'' 72057594037927938" "1 < length note_requests"
    by (simp_all add: note_requests_def)
  ultimately show ?thesis
    unfolding note_call_runs(3) by (metis request_allowed.simps(3))
qed

end
