(* ===== verification/Query.thy ===== *)
theory Query
  imports Indexes Texts
begin

text \<open>
  The query engine (\<open>blitz-query\<close>): filters, sort specifications, aggregations and the query
  builder of \<open>planner.rs\<close>, and the executor that filters, sorts, pages and projects a slice of
  rows or groups and aggregates it. The texts of JSON values (\<open>js\<close>) and the Unicode lower-case
  mapping (\<open>lower\<close>) are parameters. A group is a hash map entry; its iteration order is the
  order in which the groups were met.
\<close>

section \<open>Queries\<close>

datatype filter_expr =
    FEq string val
  | FNe string val
  | FGt string val
  | FLt string val
  | FGte string val
  | FLte string val
  | FIn string "val list"
  | FNotIn string "val list"
  | FBetween string val val
  | FLike string string
  | FIsNull string
  | FIsNotNull string
  | FAnd "filter_expr list"
  | FOr "filter_expr list"
  | FNot filter_expr

datatype sort_direction = Asc | Desc

record sort_spec =
  so_column :: string
  so_direction :: sort_direction

definition sort_asc :: "string \<Rightarrow> sort_spec" where
  "sort_asc c = \<lparr> so_column = c, so_direction = Asc \<rparr>"

definition sort_desc :: "string \<Rightarrow> sort_spec" where
  "sort_desc c = \<lparr> so_column = c, so_direction = Desc \<rparr>"

datatype agg_function =
    AggCount
  | AggCountColumn string
  | AggSum string
  | AggAvg string
  | AggMin string
  | AggMax string

record query =
  q_table :: string
  q_filter :: "filter_expr option"
  q_projections :: "string list option"
  q_sorts :: "sort_spec list"
  q_limit :: "nat option"
  q_offset :: "nat option"
  q_aggregations :: "(string \<times> agg_function) list"
  q_group_by :: "string list"

definition query_new :: "string \<Rightarrow> query" where
  "query_new t = \<lparr> q_table = t, q_filter = None, q_projections = None, q_sorts = [], q_limit = None,
     q_offset = None, q_aggregations = [], q_group_by = [] \<rparr>"

definition query_filter :: "filter_expr \<Rightarrow> query \<Rightarrow> query" where
  "query_filter f q = q \<lparr> q_filter := Some f \<rparr>"

definition query_select :: "string list \<Rightarrow> query \<Rightarrow> query" where
  "query_select cs q = q \<lparr> q_projections := Some cs \<rparr>"

definition query_order_by :: "sort_spec \<Rightarrow> query \<Rightarrow> query" where
  "query_order_by s q = q \<lparr> q_sorts := q_sorts q @ [s] \<rparr>"

definition query_limit :: "nat \<Rightarrow> query \<Rightarrow> query" where
  "query_limit n q = q \<lparr> q_limit := Some n \<rparr>"

definition query_offset :: "nat \<Rightarrow> query \<Rightarrow> query" where
  "query_offset n q = q \<lparr> q_offset := Some n \<rparr>"

definition add_agg :: "string \<Rightarrow> agg_function \<Rightarrow> query \<Rightarrow> query" where
  "add_agg alias f q = q \<lparr> q_aggregations := q_aggregations q @ [(alias, f)] \<rparr>"

definition query_count :: "string \<Rightarrow> query \<Rightarrow> query" where
  "query_count alias = add_agg alias AggCount"

definition query_sum :: "string \<Rightarrow> string \<Rightarrow> query \<Rightarrow> query" where
  "query_sum col alias = add_agg alias (AggSum col)"

definition query_avg :: "string \<Rightarrow> string \<Rightarrow> query \<Rightarrow> query" where
  "query_avg col alias = add_agg alias (AggAvg col)"

definition query_min :: "string \<Rightarrow> string \<Rightarrow> query \<Rightarrow> query" where
  "query_min col alias = add_agg alias (AggMin col)"

definition query_max :: "string \<Rightarrow> string \<Rightarrow> query \<Rightarrow> query" where
  "query_max col alias = add_agg alias (AggMax col)"

definition query_group_by :: "string list \<Rightarrow> query \<Rightarrow> query" where
  "query_group_by cs q = q \<lparr> q_group_by := cs \<rparr>"

section \<open>Filters\<close>

fun like_loop :: "nat \<Rightarrow> string list \<Rightarrow> string \<Rightarrow> bool" where
  "like_loop i [] s = True"
| "like_loop i (part # parts) s =
     (if part = [] then like_loop (Suc i) parts s
      else case find_sub part s of
             Some idx \<Rightarrow>
               if i = 0 \<and> idx \<noteq> 0 then False
               else like_loop (Suc i) parts (drop (idx + length part) s)
           | None \<Rightarrow> False)"

definition like_match :: "(string \<Rightarrow> string) \<Rightarrow> string \<Rightarrow> string \<Rightarrow> bool" where
  "like_match lower s pattern =
     (let parts = split_on (CHR ''%'') (lower pattern) in
      if length parts = 1 then lower s = lower pattern else like_loop 0 parts (lower s))"

fun matches_filter :: "(json \<Rightarrow> string) \<Rightarrow> (string \<Rightarrow> string) \<Rightarrow> row \<Rightarrow> filter_expr \<Rightarrow> bool" where
  "matches_filter js lower r (FEq c v) = (case row_get r c of Some x \<Rightarrow> value_eq x v | None \<Rightarrow> False)"
| "matches_filter js lower r (FNe c v) = (case row_get r c of Some x \<Rightarrow> \<not> value_eq x v | None \<Rightarrow> True)"
| "matches_filter js lower r (FGt c v) =
     (case row_get r c of Some x \<Rightarrow> value_cmp js x v = Greater | None \<Rightarrow> False)"
| "matches_filter js lower r (FLt c v) =
     (case row_get r c of Some x \<Rightarrow> value_cmp js x v = Less | None \<Rightarrow> False)"
| "matches_filter js lower r (FGte c v) =
     (case row_get r c of Some x \<Rightarrow> value_cmp js x v \<noteq> Less | None \<Rightarrow> False)"
| "matches_filter js lower r (FLte c v) =
     (case row_get r c of Some x \<Rightarrow> value_cmp js x v \<noteq> Greater | None \<Rightarrow> False)"
| "matches_filter js lower r (FIn c vs) =
     (case row_get r c of Some x \<Rightarrow> (\<exists>v \<in> set vs. value_eq v x) | None \<Rightarrow> False)"
| "matches_filter js lower r (FNotIn c vs) =
     (case row_get r c of Some x \<Rightarrow> \<not> (\<exists>v \<in> set vs. value_eq v x) | None \<Rightarrow> True)"
| "matches_filter js lower r (FBetween c low high) =
     (case row_get r c of
        Some x \<Rightarrow> value_cmp js x low \<noteq> Less \<and> value_cmp js x high \<noteq> Greater | None \<Rightarrow> False)"
| "matches_filter js lower r (FLike c pattern) =
     (case row_get r c of Some (VString s) \<Rightarrow> like_match lower s pattern | _ \<Rightarrow> False)"
| "matches_filter js lower r (FIsNull c) = (case row_get r c of Some x \<Rightarrow> is_null x | None \<Rightarrow> True)"
| "matches_filter js lower r (FIsNotNull c) = (case row_get r c of Some x \<Rightarrow> \<not> is_null x | None \<Rightarrow> False)"
| "matches_filter js lower r (FAnd fs) = (\<forall>f \<in> set fs. matches_filter js lower r f)"
| "matches_filter js lower r (FOr fs) = (\<exists>f \<in> set fs. matches_filter js lower r f)"
| "matches_filter js lower r (FNot f) = (\<not> matches_filter js lower r f)"

definition filter_rows :: "(json \<Rightarrow> string) \<Rightarrow> (string \<Rightarrow> string) \<Rightarrow> row list \<Rightarrow> filter_expr \<Rightarrow> row list" where
  "filter_rows js lower rows f = filter (\<lambda>r. matches_filter js lower r f) rows"

section \<open>Sorting\<close>

text \<open>A missing column sorts behind every value.\<close>

fun option_cmp :: "(json \<Rightarrow> string) \<Rightarrow> val option \<Rightarrow> val option \<Rightarrow> ordering" where
  "option_cmp js (Some a) (Some b) = value_cmp js a b"
| "option_cmp js (Some _) None = Less"
| "option_cmp js None (Some _) = Greater"
| "option_cmp js None None = Equal"

fun sort_cmp :: "(json \<Rightarrow> string) \<Rightarrow> sort_spec list \<Rightarrow> row \<Rightarrow> row \<Rightarrow> ordering" where
  "sort_cmp js [] a b = Equal"
| "sort_cmp js (s # ss) a b =
     (let ord = option_cmp js (row_get a (so_column s)) (row_get b (so_column s));
          ord = (case so_direction s of Asc \<Rightarrow> ord | Desc \<Rightarrow> reverse_ordering ord) in
      if ord \<noteq> Equal then ord else sort_cmp js ss a b)"

definition sort_rows :: "(json \<Rightarrow> string) \<Rightarrow> sort_spec list \<Rightarrow> row list \<Rightarrow> row list" where
  "sort_rows js sorts rows = (if sorts = [] then rows else sort_by (sort_cmp js sorts) rows)"

section \<open>Aggregation\<close>

fun sum_column :: "string \<Rightarrow> row list \<Rightarrow> f64 \<Rightarrow> nat \<Rightarrow> f64 \<times> nat" where
  "sum_column c [] tot cnt = (tot, cnt)"
| "sum_column c (r # rows) tot cnt =
     (case row_get r c of
        Some v \<Rightarrow>
          (case as_f64 v of
             Some n \<Rightarrow> sum_column c rows (f64_add tot n) (Suc cnt)
           | None \<Rightarrow> sum_column c rows tot cnt)
      | None \<Rightarrow> sum_column c rows tot cnt)"

text \<open>The first value no other value beats: \<open>better\<close> is \<open>val < current\<close> or \<open>val > current\<close>.\<close>

fun best_column :: "(val \<Rightarrow> val \<Rightarrow> bool) \<Rightarrow> string \<Rightarrow> row list \<Rightarrow> val option \<Rightarrow> val option" where
  "best_column better c [] best = best"
| "best_column better c (r # rows) best =
     best_column better c rows
       (case row_get r c of
          Some v \<Rightarrow>
            if is_null v then best
            else (case best of None \<Rightarrow> Some v | Some current \<Rightarrow> if better v current then Some v else best)
        | None \<Rightarrow> best)"

definition aggregate :: "(json \<Rightarrow> string) \<Rightarrow> row list \<Rightarrow> agg_function \<Rightarrow> val" where
  "aggregate js rows f =
     (case f of
        AggCount \<Rightarrow> VInt64 (of_nat (length rows))
      | AggCountColumn c \<Rightarrow>
          VInt64 (of_nat (length (filter
            (\<lambda>r. case row_get r c of Some v \<Rightarrow> \<not> is_null v | None \<Rightarrow> False) rows)))
      | AggSum c \<Rightarrow> VFloat64 (fst (sum_column c rows 0 0))
      | AggAvg c \<Rightarrow>
          (let (tot, cnt) = sum_column c rows 0 0 in
           if cnt = 0 then VNull else VFloat64 (f64_div tot (f64_of_int (int cnt))))
      | AggMin c \<Rightarrow>
          (case best_column (\<lambda>v w. value_cmp js v w = Less) c rows None of Some v \<Rightarrow> v | None \<Rightarrow> VNull)
      | AggMax c \<Rightarrow>
          (case best_column (\<lambda>v w. value_cmp js v w = Greater) c rows None of Some v \<Rightarrow> v | None \<Rightarrow> VNull))"

definition compute_aggregations ::
  "(json \<Rightarrow> string) \<Rightarrow> row list \<Rightarrow> (string \<times> agg_function) list \<Rightarrow> (string, val) hmap" where
  "compute_aggregations js rows aggs =
     fold (\<lambda>(alias, f) m. hm_insert alias (aggregate js rows f) m) aggs []"

text \<open>
  \<open>groups.entry(key).or_default().push(row)\<close> with a vector of values as the key: a key that is
  not equal to itself is never found again.
\<close>

definition group_push :: "val list \<Rightarrow> row \<Rightarrow> (val list, row list) hmap \<Rightarrow> (val list, row list) hmap" where
  "group_push k r m =
     (if values_eq k k
      then hm_insert k ((case hm_get m k of Some rs \<Rightarrow> rs | None \<Rightarrow> []) @ [r]) m
      else m @ [(k, [r])])"

definition group_key :: "string list \<Rightarrow> row \<Rightarrow> val list" where
  "group_key cols r = map (\<lambda>c. case row_get r c of Some v \<Rightarrow> v | None \<Rightarrow> VNull) cols"

definition group_rows :: "string list \<Rightarrow> row list \<Rightarrow> (val list, row list) hmap" where
  "group_rows cols rows = fold (\<lambda>r m. group_push (group_key cols r) r m) rows []"

definition set_all :: "(string, val) hmap \<Rightarrow> row \<Rightarrow> row" where
  "set_all m r = fold (\<lambda>(c, v). row_set c v) m r"

definition group_result ::
  "(json \<Rightarrow> string) \<Rightarrow> string list \<Rightarrow> (string \<times> agg_function) list \<Rightarrow> val list \<times> row list \<Rightarrow> row" where
  "group_result js cols aggs g =
     (case g of (k, rows) \<Rightarrow> set_all (compute_aggregations js rows aggs) (set_all (zip cols k) (row_new 0)))"

definition truncate_to :: "nat option \<Rightarrow> 'a list \<Rightarrow> 'a list" where
  "truncate_to limit xs = (case limit of Some n \<Rightarrow> take n xs | None \<Rightarrow> xs)"

definition execute_aggregation :: "(json \<Rightarrow> string) \<Rightarrow> row list \<Rightarrow> query \<Rightarrow> row list" where
  "execute_aggregation js rows q =
     (if q_group_by q = [] then [set_all (compute_aggregations js rows (q_aggregations q)) (row_new 0)]
      else
        truncate_to (q_limit q)
          (sort_by (sort_cmp js (map sort_asc (q_group_by q)))
             (map (group_result js (q_group_by q) (q_aggregations q)) (group_rows (q_group_by q) rows))))"

section \<open>Execution\<close>

definition execute :: "(json \<Rightarrow> string) \<Rightarrow> (string \<Rightarrow> string) \<Rightarrow> row list \<Rightarrow> query \<Rightarrow> row list" where
  "execute js lower rows q =
     (let result = (case q_filter q of Some f \<Rightarrow> filter_rows js lower rows f | None \<Rightarrow> rows) in
      if q_group_by q \<noteq> [] \<or> q_aggregations q \<noteq> [] then execute_aggregation js result q
      else
        (let result = sort_rows js (q_sorts q) result in
         case q_offset q of
           Some offset \<Rightarrow>
             if length result \<le> offset then []
             else (let result = truncate_to (q_limit q) (drop offset result) in
                   case q_projections q of Some cs \<Rightarrow> map (\<lambda>r. row_project r cs) result | None \<Rightarrow> result)
         | None \<Rightarrow>
             (let result = truncate_to (q_limit q) result in
              case q_projections q of Some cs \<Rightarrow> map (\<lambda>r. row_project r cs) result | None \<Rightarrow> result)))"

section \<open>Sorting is stable sorting by the specification\<close>

lemma comparator_option: "comparator (option_cmp js)"
proof
  show "option_cmp js x x = Equal" for x by (cases x) (auto simp: vo.cmp_refl)
  show "option_cmp js y x = reverse_ordering (option_cmp js x y)" for x y
    by (cases x; cases y) (auto simp: vo.cmp_flip [symmetric])
  show "option_cmp js x y \<noteq> Greater \<Longrightarrow> option_cmp js y z \<noteq> Greater \<Longrightarrow> option_cmp js x z \<noteq> Greater" for x y z
    by (cases x; cases y; cases z) (use vo.cmp_trans in auto)
qed

lemma comparator_const: "comparator (\<lambda>a b. Equal)"
  by unfold_locales auto

lemma comparator_direction:
  "comparator (\<lambda>a b. case d of Asc \<Rightarrow> option_cmp js (f a) (f b) | Desc \<Rightarrow> reverse_ordering (option_cmp js (f a) (f b)))"
  using comparator_map [OF comparator_option, of js f] comparator_reverse [OF comparator_map [OF comparator_option, of js f]]
  by (cases d) simp_all

interpretation so: comparator "sort_cmp js sorts" for js sorts
proof (induction sorts)
  case Nil
  then show ?case using comparator_const by simp
next
  case (Cons s ss)
  have "sort_cmp js (s # ss) = (\<lambda>a b. then_with
      (case so_direction s of Asc \<Rightarrow> option_cmp js (row_get a (so_column s)) (row_get b (so_column s))
       | Desc \<Rightarrow> reverse_ordering (option_cmp js (row_get a (so_column s)) (row_get b (so_column s))))
      (sort_cmp js ss a b))"
    by (intro ext) (simp add: then_with_def Let_def)
  then show ?case
    using comparator_then_with [OF comparator_direction [where d = "so_direction s" and js = js and
        f = "\<lambda>a. row_get a (so_column s)"] Cons] by simp
qed

lemma sort_rows_sort_by: "sort_rows js sorts rows = sort_by (sort_cmp js sorts) rows"
proof (cases "sorts = []")
  case True
  then have "sorted_wrt (\<lambda>a b. sort_cmp js sorts a b \<noteq> Greater) rows"
    by (simp add: sorted_wrt_iff_nth_less)
  with True show ?thesis using so.sort_by_id by (simp add: sort_rows_def)
qed (simp add: sort_rows_def)

section \<open>Patterns\<close>

text \<open>The pieces of a pattern occur in a text in order and without overlap.\<close>

fun occur_in_order :: "string list \<Rightarrow> string \<Rightarrow> bool" where
  "occur_in_order [] s = True"
| "occur_in_order (p # ps) s = (\<exists>u v. s = u @ p @ v \<and> occur_in_order ps v)"

lemma occur_in_order_suffix: "occur_in_order ps v \<Longrightarrow> occur_in_order ps (u @ v)"
  by (cases ps) (auto, metis append.assoc)

lemma like_loop_later: "0 < i \<Longrightarrow> like_loop i ps s \<longleftrightarrow> occur_in_order ps s"
proof (induction i ps s rule: like_loop.induct)
  case (2 i p ps s)
  show ?case
  proof (cases "p = []")
    case True
    then have "occur_in_order (p # ps) s \<longleftrightarrow> occur_in_order ps s"
      using occur_in_order_suffix by (auto intro: exI [of _ "[]"])
    with 2 True show ?thesis by simp
  next
    case False
    show ?thesis
    proof
      assume "like_loop i (p # ps) s"
      with 2(2) False obtain idx where "find_sub p s = Some idx" "like_loop (Suc i) ps (drop (idx + length p) s)"
        using 2(3) by (auto split: option.splits)
      then show "occur_in_order (p # ps) s"
        using 2(2) [OF False] 2(3) find_sub_Some [of p s idx] by fastforce
    next
      assume "occur_in_order (p # ps) s"
      then obtain u v where uv: "s = u @ p @ v" "occur_in_order ps v" by auto
      then obtain idx where idx: "idx \<le> length u" "find_sub p s = Some idx"
        using find_sub_least by blast
      have "drop (idx + length p) s = drop (idx + length p) (u @ p) @ v"
        using uv(1) idx(1) by simp
      then have "occur_in_order ps (drop (idx + length p) s)"
        using occur_in_order_suffix uv(2) by metis
      then show "like_loop i (p # ps) s"
        using 2(2) [OF False idx(2)] 2(3) False idx by simp
    qed
  qed
qed simp

lemma like_loop_first: "like_loop 0 (p # ps) s \<longleftrightarrow> (\<exists>v. s = p @ v \<and> occur_in_order ps v)"
proof (cases "p = []")
  case False
  show ?thesis
  proof (cases "prefix p s")
    case True
    then obtain v where s: "s = p @ v" by (auto elim: prefixE)
    then have "find_sub p s = Some 0" using find_sub_least [of s "[]" p v] by auto
    then show ?thesis using False s by (simp add: like_loop_later)
  next
    case no: False
    then have "find_sub p s \<noteq> Some 0" using find_sub_Some [of p s 0] by (auto simp: prefix_def)
    moreover have "\<not> (\<exists>v. s = p @ v \<and> occur_in_order ps v)" using no by (auto simp: prefix_def)
    ultimately show ?thesis using False by (auto split: option.split)
  qed
qed (simp add: like_loop_later)


section \<open>Groups and extremes\<close>

lemma values_eq_canon: "\<forall>v \<in> set vs. value_canon v \<Longrightarrow> values_eq vs vs"
  by (induction vs) (auto simp: value_eq_refl_canon)

definition groups_of :: "string list \<Rightarrow> row list \<Rightarrow> (val list, row list) hmap \<Rightarrow> bool" where
  "groups_of cols rows m \<longleftrightarrow>
     hm_wf m \<and>
     (\<forall>k. hm_get m k = (if k \<in> group_key cols ` set rows
                         then Some (filter (\<lambda>r. group_key cols r = k) rows) else None))"

lemma groups_of_push:
  assumes "groups_of cols rows m" and "values_eq (group_key cols r) (group_key cols r)"
  shows "groups_of cols (rows @ [r]) (group_push (group_key cols r) r m)"
proof -
  have "filter (\<lambda>r'. group_key cols r' = k) rows = []" if "k \<notin> group_key cols ` set rows" for k
    using that by (auto simp: filter_empty_conv)
  with assms show ?thesis
    by (auto simp: groups_of_def group_push_def hm_simps)
qed

lemma groups_of_rows:
  assumes "\<forall>r \<in> set rows. values_eq (group_key cols r) (group_key cols r)"
  shows "groups_of cols rows (group_rows cols rows)"
  using assms
proof (induction rows rule: rev_induct)
  case Nil
  then show ?case by (simp add: groups_of_def group_rows_def)
next
  case (snoc r rows)
  then show ?case using groups_of_push [of cols rows "group_rows cols rows" r]
    by (simp add: group_rows_def)
qed

text \<open>The values an extreme ranges over.\<close>

definition column_values :: "string \<Rightarrow> row list \<Rightarrow> val list" where
  "column_values c rows =
     filter (\<lambda>v. \<not> is_null v) (List.map_filter (\<lambda>r. row_get r c) rows)"

lemma column_values_Cons:
  "column_values c (r # rows) =
     (case row_get r c of
        Some v \<Rightarrow> if is_null v then column_values c rows else v # column_values c rows
      | None \<Rightarrow> column_values c rows)"
  by (auto simp: column_values_def map_filter_simps split: option.split)

lemma best_column_fold:
  "best_column better c rows best =
   fold (\<lambda>v b. case b of None \<Rightarrow> Some v | Some w \<Rightarrow> if better v w then Some v else b)
     (column_values c rows) best"
  by (induction rows arbitrary: best)
    (auto simp: column_values_Cons column_values_def map_filter_simps split: option.split)

lemma fold_best:
  assumes "comparator cmp"
  shows "fold (\<lambda>v b. case b of None \<Rightarrow> Some v | Some w \<Rightarrow> if cmp v w = Less then Some v else b) vs (Some b) = Some m \<Longrightarrow>
     m \<in> insert b (set vs) \<and> (\<forall>v \<in> insert b (set vs). cmp m v \<noteq> Greater)"
proof (induction vs arbitrary: b)
  case Nil
  then show ?case using comparator.cmp_refl [OF assms] by simp
next
  case (Cons v vs)
  let ?b = "if cmp v b = Less then v else b"
  have IH: "m \<in> insert ?b (set vs)" "\<forall>w \<in> insert ?b (set vs). cmp m w \<noteq> Greater"
    using Cons.IH [of ?b] Cons.prems by (auto split: if_splits)
  have flip: "cmp b v = reverse_ordering (cmp v b)" by (rule comparator.cmp_flip [OF assms])
  have refl: "cmp x x = Equal" for x by (rule comparator.cmp_refl [OF assms])
  have "cmp ?b v \<noteq> Greater" using flip refl by simp
  moreover have "cmp ?b b \<noteq> Greater" using refl by simp
  ultimately have "cmp m v \<noteq> Greater" "cmp m b \<noteq> Greater"
    using IH(2) comparator.cmp_trans [OF assms, of m ?b] by blast+
  with IH show ?case by (auto split: if_splits)
qed

lemma fold_best_Some:
  "\<exists>m. fold (\<lambda>v b. case b of None \<Rightarrow> Some v | Some w \<Rightarrow> if better v w then Some v else b) vs (Some b) = Some m"
  by (induction vs arbitrary: b) auto

lemma best_column_correct:
  assumes "comparator cmp"
  shows "case best_column (\<lambda>v w. cmp v w = Less) c rows None of
           None \<Rightarrow> column_values c rows = []
         | Some m \<Rightarrow> m \<in> set (column_values c rows) \<and> (\<forall>v \<in> set (column_values c rows). cmp m v \<noteq> Greater)"
proof (cases "column_values c rows")
  case Nil
  then show ?thesis by (simp add: best_column_fold)
next
  case (Cons v vs)
  obtain m where m: "best_column (\<lambda>v w. cmp v w = Less) c rows None = Some m"
    using fold_best_Some [of "\<lambda>v w. cmp v w = Less" vs v] Cons by (auto simp: best_column_fold)
  with fold_best [OF assms, of vs v m] Cons show ?thesis by (simp add: best_column_fold)
qed

section \<open>Properties\<close>

text \<open>What is selected before sorting and paging.\<close>

definition selected :: "(json \<Rightarrow> string) \<Rightarrow> (string \<Rightarrow> string) \<Rightarrow> row list \<Rightarrow> query \<Rightarrow> row list" where
  "selected js lower rows q =
     (case q_filter q of Some f \<Rightarrow> filter (\<lambda>r. matches_filter js lower r f) rows | None \<Rightarrow> rows)"

definition page :: "query \<Rightarrow> row list \<Rightarrow> row list" where
  "page q rows =
     (case q_projections q of Some cs \<Rightarrow> map (\<lambda>r. row_project r cs) | None \<Rightarrow> id)
       (truncate_to (q_limit q) (drop (case q_offset q of Some n \<Rightarrow> n | None \<Rightarrow> 0) rows))"

text \<open>
  C20: A query without aggregation returns one page of the matching rows: there is an
  arrangement of exactly the matching rows that is ordered by the sort specification and keeps
  rows that compare equal in their original order, and the result is its page between offset and
  limit, projected.
\<close>

theorem execute_sorted_page:
  assumes "q_group_by q = []" and "q_aggregations q = []"
  shows "\<exists>ordered. mset ordered = mset (selected js lower rows q) \<and>
     sorted_wrt (\<lambda>a b. sort_cmp js (q_sorts q) a b \<noteq> Greater) ordered \<and>
     (\<forall>r. filter (\<lambda>x. sort_cmp js (q_sorts q) r x = Equal) ordered =
          filter (\<lambda>x. sort_cmp js (q_sorts q) r x = Equal) (selected js lower rows q)) \<and>
     execute js lower rows q = page q ordered"
proof (intro exI conjI allI)
  let ?o = "sort_by (sort_cmp js (q_sorts q)) (selected js lower rows q)"
  show "mset ?o = mset (selected js lower rows q)" by simp
  show "sorted_wrt (\<lambda>a b. sort_cmp js (q_sorts q) a b \<noteq> Greater) ?o" by (rule so.sorted_sort_by)
  show "filter (\<lambda>x. sort_cmp js (q_sorts q) r x = Equal) ?o =
        filter (\<lambda>x. sort_cmp js (q_sorts q) r x = Equal) (selected js lower rows q)" for r
    by (rule so.sort_by_stable)
  show "execute js lower rows q = page q ?o"
    using assms
    by (auto simp: execute_def page_def selected_def filter_rows_def sort_rows_sort_by Let_def
        truncate_to_def split: option.split)
qed

definition demo_rows :: "row list" where
  "demo_rows =
     [\<lparr> row_id = 1, row_values = [(''n'', VInt64 3), (''t'', VString ''b'')] \<rparr>,
      \<lparr> row_id = 2, row_values = [(''n'', VInt64 1), (''t'', VString ''a'')] \<rparr>,
      \<lparr> row_id = 3, row_values = [(''n'', VInt64 2), (''t'', VString ''b'')] \<rparr>]"

definition demo_query :: query where
  "demo_query = query_limit 1 (query_order_by (sort_desc ''n'') (query_filter (FGt ''n'' (VInt64 1)) (query_new ''t'')))"

theorem execute_sorted_page_witness:
  "\<exists>ordered. mset ordered = mset (selected (\<lambda>_. []) id demo_rows demo_query) \<and>
     execute (\<lambda>_. []) id demo_rows demo_query = page demo_query ordered \<and>
     execute (\<lambda>_. []) id demo_rows demo_query = [hd demo_rows]"
proof -
  have "execute (\<lambda>_. []) id demo_rows demo_query = [hd demo_rows]" by code_simp
  moreover have "q_group_by demo_query = []" "q_aggregations demo_query = []" by code_simp+
  ultimately show ?thesis using execute_sorted_page [of demo_query "\<lambda>_. []" id demo_rows] by blast
qed

text \<open>
  \<open>LIKE\<close> is matched case-insensitively: without a wildcard the texts are equal, and with
  wildcards the text starts with the first piece of the pattern and the other pieces follow in
  order without overlap. The greedy search of the leftmost occurrence misses no match. Nothing
  ties the last piece to the end of the text.
\<close>

theorem like_match_spec:
  "like_match lower s pattern =
     (case split_on (CHR ''%'') (lower pattern) of
        [] \<Rightarrow> False
      | [_] \<Rightarrow> lower s = lower pattern
      | p # ps \<Rightarrow> \<exists>v. lower s = p @ v \<and> occur_in_order ps v)"
  using split_on_nonempty [of "CHR ''%''" "lower pattern"]
  by (auto simp: like_match_def Let_def like_loop_first split: list.split simp del: like_loop.simps)

lemma like_not_anchored: "like_match id ''abc'' ''a%b''"
  by (simp add: like_match_def)

text \<open>
  C39: Grouping partitions the rows: when no grouping value contains NaN or a negative zero, there is one group per
  key that occurs, it holds exactly the rows with that key in their order, and there are as many
  groups as keys.
\<close>

theorem group_rows_partition:
  assumes "\<forall>r \<in> set rows. \<forall>v \<in> set (group_key cols r). value_canon v"
  shows "hm_wf (group_rows cols rows) \<and>
     (\<forall>k. hm_get (group_rows cols rows) k =
        (if k \<in> group_key cols ` set rows then Some (filter (\<lambda>r. group_key cols r = k) rows) else None)) \<and>
     length (group_rows cols rows) = card (group_key cols ` set rows)"
proof -
  have g: "groups_of cols rows (group_rows cols rows)"
    using assms by (intro groups_of_rows ballI values_eq_canon) auto
  then have "dom (hm_get (group_rows cols rows)) = group_key cols ` set rows"
    by (auto simp: groups_of_def dom_def)
  then have keys: "set (hm_keys (group_rows cols rows)) = group_key cols ` set rows"
    by (simp add: dom_map_of_conv_image_fst)
  have "hm_wf (group_rows cols rows)" using g by (simp add: groups_of_def)
  from distinct_card [OF this] keys
  have "length (group_rows cols rows) = card (group_key cols ` set rows)" by simp
  with g show ?thesis unfolding groups_of_def by blast
qed

theorem group_rows_partition_witness:
  "length (group_rows [''t''] demo_rows) = 2 \<and>
   hm_get (group_rows [''t''] demo_rows) [VString ''b''] = Some [demo_rows ! 0, demo_rows ! 2]"
proof -
  have "\<forall>r \<in> set demo_rows. \<forall>v \<in> set (group_key [''t''] r). value_canon v"
    by (simp add: demo_rows_def group_key_def row_get_def)
  note g = group_rows_partition [OF this]
  have k: "group_key [''t''] ` set demo_rows = {[VString ''a''], [VString ''b'']}"
    by (auto simp: demo_rows_def group_key_def row_get_def)
  have "filter (\<lambda>r. group_key [''t''] r = [VString ''b'']) demo_rows = [demo_rows ! 0, demo_rows ! 2]"
    by (simp add: demo_rows_def group_key_def row_get_def)
  with g show ?thesis unfolding k by simp
qed

text \<open>
  The minimum and the maximum of a column are \<open>NULL\<close> exactly when no row has a value there,
  and otherwise a value of the column that no other value of the column is below, respectively
  above, in the order of values.
\<close>

theorem min_max_correct:
  "(let m = aggregate js rows (AggMin c); vs = set (column_values c rows) in
      if vs = {} then m = VNull else m \<in> vs \<and> (\<forall>v \<in> vs. value_cmp js m v \<noteq> Greater)) \<and>
   (let m = aggregate js rows (AggMax c); vs = set (column_values c rows) in
      if vs = {} then m = VNull else m \<in> vs \<and> (\<forall>v \<in> vs. value_cmp js m v \<noteq> Less))"
proof -
  let ?rev = "\<lambda>v w. reverse_ordering (value_cmp js v w)"
  have "comparator ?rev" by (rule comparator_reverse [OF vo.comparator_axioms])
  from best_column_correct [OF this, of c rows] best_column_correct [OF vo.comparator_axioms [of js], of c rows]
  show ?thesis by (auto simp: aggregate_def Let_def split: option.splits)
qed

theorem min_max_correct_witness:
  "aggregate (\<lambda>_. []) demo_rows (AggMin ''n'') = VInt64 1 \<and>
   aggregate (\<lambda>_. []) demo_rows (AggMax ''n'') = VInt64 3"
proof -
  have "set (column_values ''n'' demo_rows) = {VInt64 1, VInt64 2, VInt64 3}"
    by (auto simp: demo_rows_def column_values_def row_get_def is_null_def map_filter_simps)
  note vs = this
  let ?min = "aggregate (\<lambda>_. []) demo_rows (AggMin ''n'')" and ?max = "aggregate (\<lambda>_. []) demo_rows (AggMax ''n'')"
  have "?min \<in> {VInt64 1, VInt64 2, VInt64 3}" "value_cmp (\<lambda>_. []) ?min (VInt64 1) \<noteq> Greater"
    "?max \<in> {VInt64 1, VInt64 2, VInt64 3}" "value_cmp (\<lambda>_. []) ?max (VInt64 3) \<noteq> Less"
    using min_max_correct [of "\<lambda>_. []" demo_rows "''n''"] by (simp_all add: vs Let_def)
  then show ?thesis by (auto simp: cmp_of_def)
qed

end
