(* ===== verification/Feeds.thy ===== *)
theory Feeds
  imports Core_Table
begin

text \<open>
  The feeds of changes: events and their emitter (\<open>blitz-events\<close>), row deltas and subscriptions
  (\<open>blitz-realtime\<close>), and the replication log with the state of its peers (\<open>blitz-replication\<close>).
  All three keep a bounded log. A callback is recorded as a delivery: an operation that calls
  callbacks returns whom it called. Fresh UUIDs and the clock are arguments.
\<close>

section \<open>Events\<close>

datatype event_kind =
    TableCreated
  | TableDropped
  | RowInserted
  | RowUpdated
  | RowDeleted
  | TransactionCommitted
  | TransactionRolledBack
  | CustomEvent string

fun event_kind_str :: "event_kind \<Rightarrow> string" where
  "event_kind_str TableCreated = ''table.created''"
| "event_kind_str TableDropped = ''table.dropped''"
| "event_kind_str RowInserted = ''row.inserted''"
| "event_kind_str RowUpdated = ''row.updated''"
| "event_kind_str RowDeleted = ''row.deleted''"
| "event_kind_str TransactionCommitted = ''tx.committed''"
| "event_kind_str TransactionRolledBack = ''tx.rolled_back''"
| "event_kind_str (CustomEvent s) = s"

record event =
  ev_id :: "128 word"
  ev_kind :: event_kind
  ev_timestamp :: int
  ev_table :: "string option"
  ev_data :: row_values

definition event_new :: "128 word \<Rightarrow> int \<Rightarrow> event_kind \<Rightarrow> event" where
  "event_new uuid now k = \<lparr> ev_id = uuid, ev_kind = k, ev_timestamp = now, ev_table = None, ev_data = [] \<rparr>"

definition event_with_table :: "string \<Rightarrow> event \<Rightarrow> event" where
  "event_with_table t e = e \<lparr> ev_table := Some t \<rparr>"

definition event_with_data :: "string \<Rightarrow> val \<Rightarrow> event \<Rightarrow> event" where
  "event_with_data k v e = e \<lparr> ev_data := hm_insert k v (ev_data e) \<rparr>"

definition event_get :: "event \<Rightarrow> string \<Rightarrow> val option" where
  "event_get e k = hm_get (ev_data e) k"

record subscriber =
  sb_id :: string
  sb_event_kinds :: "event_kind list option"
  sb_tables :: "string list option"

record emitter =
  em_subscribers :: "(string, subscriber) hmap"
  em_buffer :: "event list"
  em_history :: "event list"
  em_max_history :: nat

definition emitter_new :: emitter where
  "emitter_new = \<lparr> em_subscribers = [], em_buffer = [], em_history = [], em_max_history = 1000 \<rparr>"

definition with_max_history :: "nat \<Rightarrow> emitter \<Rightarrow> emitter" where
  "with_max_history n e = e \<lparr> em_max_history := n \<rparr>"

definition add_subscriber :: "subscriber \<Rightarrow> emitter \<Rightarrow> emitter" where
  "add_subscriber s e = e \<lparr> em_subscribers := hm_insert (sb_id s) s (em_subscribers e) \<rparr>"

definition em_subscribe :: "string \<Rightarrow> emitter \<Rightarrow> emitter" where
  "em_subscribe i = add_subscriber \<lparr> sb_id = i, sb_event_kinds = None, sb_tables = None \<rparr>"

definition em_subscribe_kind :: "string \<Rightarrow> event_kind list \<Rightarrow> emitter \<Rightarrow> emitter" where
  "em_subscribe_kind i ks = add_subscriber \<lparr> sb_id = i, sb_event_kinds = Some ks, sb_tables = None \<rparr>"

definition em_subscribe_table :: "string \<Rightarrow> string list \<Rightarrow> emitter \<Rightarrow> emitter" where
  "em_subscribe_table i ts = add_subscriber \<lparr> sb_id = i, sb_event_kinds = None, sb_tables = Some ts \<rparr>"

definition em_unsubscribe :: "string \<Rightarrow> emitter \<Rightarrow> bool \<times> emitter" where
  "em_unsubscribe i e =
     (hm_contains (em_subscribers e) i, e \<lparr> em_subscribers := hm_remove i (em_subscribers e) \<rparr>)"

definition subscriber_matches :: "subscriber \<Rightarrow> event \<Rightarrow> bool" where
  "subscriber_matches s ev \<longleftrightarrow>
     (case sb_event_kinds s of Some ks \<Rightarrow> ev_kind ev \<in> set ks | None \<Rightarrow> True) \<and>
     (case sb_tables s of
        Some ts \<Rightarrow> (case ev_table ev of Some t \<Rightarrow> t \<in> set ts | None \<Rightarrow> False)
      | None \<Rightarrow> True)"

definition emit :: "event \<Rightarrow> emitter \<Rightarrow> string list \<times> emitter" where
  "emit ev e =
     (map sb_id (filter (\<lambda>s. subscriber_matches s ev) (hm_values (em_subscribers e))),
      (let history = em_history e @ [ev];
           excess = length history - em_max_history e in
       e \<lparr> em_buffer := em_buffer e @ [ev],
           em_history := (if 0 < excess then drop excess history else history) \<rparr>))"

definition em_drain :: "emitter \<Rightarrow> event list \<times> emitter" where
  "em_drain e = (em_buffer e, e \<lparr> em_buffer := [] \<rparr>)"

definition em_clear_subscribers :: "emitter \<Rightarrow> emitter" where
  "em_clear_subscribers e = e \<lparr> em_subscribers := [] \<rparr>"

definition em_subscriber_count :: "emitter \<Rightarrow> nat" where
  "em_subscriber_count e = length (em_subscribers e)"

section \<open>Deltas and subscriptions\<close>

datatype change_kind = ChangeInsert | ChangeUpdate | ChangeDelete

record delta =
  dl_row_id :: row_id
  dl_change :: change_kind
  dl_old_row :: "row option"
  dl_new_row :: "row option"
  dl_changed_columns :: "(string, val option \<times> val option) hmap"

definition delta_insert :: "row_id \<Rightarrow> row \<Rightarrow> delta" where
  "delta_insert i r =
     \<lparr> dl_row_id = i, dl_change = ChangeInsert, dl_old_row = None, dl_new_row = Some r,
       dl_changed_columns = map (\<lambda>(k, v). (k, (None, Some v))) (row_values r) \<rparr>"

definition delta_delete :: "row_id \<Rightarrow> row \<Rightarrow> delta" where
  "delta_delete i r =
     \<lparr> dl_row_id = i, dl_change = ChangeDelete, dl_old_row = Some r, dl_new_row = None,
       dl_changed_columns = map (\<lambda>(k, v). (k, (Some v, None))) (row_values r) \<rparr>"

definition delta_update :: "row_id \<Rightarrow> row \<Rightarrow> row \<Rightarrow> delta" where
  "delta_update i old new =
     (let all_cols = remdups (hm_keys (row_values old) @ hm_keys (row_values new)) in
      \<lparr> dl_row_id = i, dl_change = ChangeUpdate, dl_old_row = Some old, dl_new_row = Some new,
        dl_changed_columns =
          map (\<lambda>c. (c, (row_get old c, row_get new c)))
            (filter (\<lambda>c. \<not> option_value_eq (row_get old c) (row_get new c)) all_cols) \<rparr>)"

definition column_changed :: "delta \<Rightarrow> string \<Rightarrow> bool" where
  "column_changed d c \<longleftrightarrow> hm_contains (dl_changed_columns d) c"

definition delta_old_value :: "delta \<Rightarrow> string \<Rightarrow> val option" where
  "delta_old_value d c = Option.bind (hm_get (dl_changed_columns d) c) fst"

definition delta_new_value :: "delta \<Rightarrow> string \<Rightarrow> val option" where
  "delta_new_value d c = Option.bind (hm_get (dl_changed_columns d) c) snd"

record subscription_filter =
  sf_tables :: "string list option"
  sf_changes :: "change_kind list option"
  sf_columns :: "string list option"

definition sf_new :: subscription_filter where
  "sf_new = \<lparr> sf_tables = None, sf_changes = None, sf_columns = None \<rparr>"

definition sf_with_tables :: "string list \<Rightarrow> subscription_filter \<Rightarrow> subscription_filter" where
  "sf_with_tables ts f = f \<lparr> sf_tables := Some ts \<rparr>"

definition sf_with_changes :: "change_kind list \<Rightarrow> subscription_filter \<Rightarrow> subscription_filter" where
  "sf_with_changes cs f = f \<lparr> sf_changes := Some cs \<rparr>"

definition sf_with_columns :: "string list \<Rightarrow> subscription_filter \<Rightarrow> subscription_filter" where
  "sf_with_columns cs f = f \<lparr> sf_columns := Some cs \<rparr>"

definition filter_matches :: "subscription_filter \<Rightarrow> string option \<Rightarrow> delta \<Rightarrow> bool" where
  "filter_matches f table d =
     (if (case sf_tables f of
            Some ts \<Rightarrow> (case table of Some t \<Rightarrow> t \<notin> set ts | None \<Rightarrow> True) | None \<Rightarrow> False) then False
      else if (case sf_changes f of Some cs \<Rightarrow> dl_change d \<notin> set cs | None \<Rightarrow> False) then False
      else if (case sf_columns f of
                 Some cs \<Rightarrow> \<not> (\<exists>c \<in> set (hm_keys (dl_changed_columns d)). c \<in> set cs) | None \<Rightarrow> False) then False
      else True)"

record subscription_manager =
  sm_subscriptions :: "(128 word, subscription_filter) hmap"
  sm_change_log :: "delta list"
  sm_max_log_size :: nat

definition sm_new :: subscription_manager where
  "sm_new = \<lparr> sm_subscriptions = [], sm_change_log = [], sm_max_log_size = 1000 \<rparr>"

definition sm_with_max_log_size :: "nat \<Rightarrow> subscription_manager \<Rightarrow> subscription_manager" where
  "sm_with_max_log_size n m = m \<lparr> sm_max_log_size := n \<rparr>"

definition sm_subscribe ::
  "128 word \<Rightarrow> subscription_filter \<Rightarrow> subscription_manager \<Rightarrow> 128 word \<times> subscription_manager" where
  "sm_subscribe uuid f m = (uuid, m \<lparr> sm_subscriptions := hm_insert uuid f (sm_subscriptions m) \<rparr>)"

definition sm_unsubscribe :: "128 word \<Rightarrow> subscription_manager \<Rightarrow> bool \<times> subscription_manager" where
  "sm_unsubscribe i m =
     (hm_contains (sm_subscriptions m) i, m \<lparr> sm_subscriptions := hm_remove i (sm_subscriptions m) \<rparr>)"

definition sm_notify ::
  "string option \<Rightarrow> delta \<Rightarrow> subscription_manager \<Rightarrow> 128 word list \<times> subscription_manager" where
  "sm_notify table d m =
     (map fst (filter (\<lambda>(i, f). filter_matches f table d) (sm_subscriptions m)),
      m \<lparr> sm_change_log := trim_front (sm_max_log_size m) (sm_change_log m @ [d]) \<rparr>)"

definition sm_subscription_count :: "subscription_manager \<Rightarrow> nat" where
  "sm_subscription_count m = length (sm_subscriptions m)"

definition sm_clear :: "subscription_manager \<Rightarrow> subscription_manager" where
  "sm_clear m = m \<lparr> sm_subscriptions := [] \<rparr>"

section \<open>Replication\<close>

datatype operation =
    ReplInsert string row_id row_values
  | ReplUpdate string row_id row_values
  | ReplDelete string row_id

record op_entry =
  oe_id :: "128 word"
  oe_seq :: u64
  oe_timestamp :: int
  oe_op :: operation

record peer_state =
  ps_peer_id :: string
  ps_last_applied_seq :: u64
  ps_lag :: u64

record replicator =
  rp_oplog :: "op_entry list"
  rp_max_oplog_size :: nat
  rp_next_seq :: u64
  rp_peers :: "(string, peer_state) hmap"

definition replicator_new :: replicator where
  "replicator_new = \<lparr> rp_oplog = [], rp_max_oplog_size = 10000, rp_next_seq = 1, rp_peers = [] \<rparr>"

definition with_max_oplog_size :: "nat \<Rightarrow> replicator \<Rightarrow> replicator" where
  "with_max_oplog_size n r = r \<lparr> rp_max_oplog_size := n \<rparr>"

definition rp_append :: "128 word \<Rightarrow> int \<Rightarrow> operation \<Rightarrow> replicator \<Rightarrow> u64 \<times> replicator" where
  "rp_append uuid now p r =
     (let seq = rp_next_seq r;
          entry = \<lparr> oe_id = uuid, oe_seq = seq, oe_timestamp = now, oe_op = p \<rparr> in
      (seq, r \<lparr> rp_next_seq := rp_next_seq r + 1,
                rp_oplog := trim_front (rp_max_oplog_size r) (rp_oplog r @ [entry]) \<rparr>))"

definition entries_since :: "u64 \<Rightarrow> replicator \<Rightarrow> op_entry list" where
  "entries_since since_seq r = filter (\<lambda>e. since_seq < oe_seq e) (rp_oplog r)"

definition saturating_sub :: "u64 \<Rightarrow> u64 \<Rightarrow> u64" where
  "saturating_sub a b = (if a < b then 0 else a - b)"

definition latest_seq :: "replicator \<Rightarrow> u64" where
  "latest_seq r = saturating_sub (rp_next_seq r) 1"

definition oplog_size :: "replicator \<Rightarrow> nat" where
  "oplog_size r = length (rp_oplog r)"

definition register_peer :: "string \<Rightarrow> replicator \<Rightarrow> replicator" where
  "register_peer p r =
     (if hm_contains (rp_peers r) p then r
      else r \<lparr> rp_peers := hm_insert p \<lparr> ps_peer_id = p, ps_last_applied_seq = 0, ps_lag = 0 \<rparr> (rp_peers r) \<rparr>)"

definition update_peer :: "string \<Rightarrow> u64 \<Rightarrow> replicator \<Rightarrow> replicator" where
  "update_peer p seq r =
     (let latest = latest_seq r in
      case hm_get (rp_peers r) p of
        Some peer \<Rightarrow>
          r \<lparr> rp_peers := hm_insert p (peer \<lparr> ps_last_applied_seq := seq, ps_lag := saturating_sub latest seq \<rparr>)
                (rp_peers r) \<rparr>
      | None \<Rightarrow> r)"

definition peer_states :: "replicator \<Rightarrow> peer_state list" where
  "peer_states r = hm_values (rp_peers r)"

definition peer_lag :: "replicator \<Rightarrow> string \<Rightarrow> u64 option" where
  "peer_lag r p = map_option ps_lag (hm_get (rp_peers r) p)"

definition remove_peer :: "string \<Rightarrow> replicator \<Rightarrow> bool \<times> replicator" where
  "remove_peer p r = (hm_contains (rp_peers r) p, r \<lparr> rp_peers := hm_remove p (rp_peers r) \<rparr>)"

section \<open>The bounded logs\<close>

interpretation event_log: bounded_log "\<lambda>ev e. snd (emit ev e)" em_history em_max_history
  by unfold_locales (auto simp: emit_def keep_last_def Let_def)

interpretation delta_log: bounded_log "\<lambda>d m. snd (sm_notify t d m)" sm_change_log sm_max_log_size for t
  by unfold_locales (simp_all add: sm_notify_def trim_front_keep_last)

lemma map_keep_last: "map f (keep_last n xs) = keep_last n (map f xs)"
  by (simp add: keep_last_def drop_map)

interpretation op_log: bounded_log "\<lambda>(u, now, p) r. snd (rp_append u now p r)"
  "\<lambda>r. map (\<lambda>e. (oe_id e, oe_timestamp e, oe_op e)) (rp_oplog r)" rp_max_oplog_size
  by unfold_locales (auto simp: rp_append_def Let_def trim_front_keep_last map_keep_last)

section \<open>Deltas describe the change\<close>

text \<open>What a consumer does with a delta: set the new values, drop the columns without one.\<close>

definition patch :: "(string, val option \<times> val option) hmap \<Rightarrow> row_values \<Rightarrow> row_values" where
  "patch ch m = fold (\<lambda>(c, _, n) m. case n of Some v \<Rightarrow> hm_insert c v m | None \<Rightarrow> hm_remove c m) ch m"

lemma hm_get_patch:
  "hm_wf ch \<Longrightarrow> hm_get (patch ch m) c = (case hm_get ch c of Some (_, n) \<Rightarrow> n | None \<Rightarrow> hm_get m c)"
proof (induction ch arbitrary: m)
  case (Cons x ch)
  obtain d o' n where x: "x = (d, o', n)" by (cases x)
  have "hm_get ch d = None" using Cons.prems x by (simp add: map_of_eq_None_iff)
  with Cons x show ?case
    by (cases n) (auto simp: patch_def hm_simps split: option.split)
qed (simp add: patch_def)

lemma option_value_eq_canon:
  "(\<And>v. a = Some v \<Longrightarrow> value_canon v) \<Longrightarrow> (\<And>v. b = Some v \<Longrightarrow> value_canon v) \<Longrightarrow>
   option_value_eq a b \<longleftrightarrow> a = b"
  by (cases a; cases b) (auto simp: option_value_eq_def value_eq_canon)

lemma hm_get_map_key: "hm_get (map (\<lambda>c. (c, f c)) cs) c = (if c \<in> set cs then Some (f c) else None)"
  by (induction cs) auto

lemma delta_update_changed:
  "hm_get (dl_changed_columns (delta_update i old new)) c =
     (if option_value_eq (row_get old c) (row_get new c) then None else Some (row_get old c, row_get new c))"
proof -
  have "c \<in> set (hm_keys (row_values old)) \<longleftrightarrow> row_get old c \<noteq> None"
    "c \<in> set (hm_keys (row_values new)) \<longleftrightarrow> row_get new c \<noteq> None"
    by (auto simp: row_get_def map_of_eq_None_iff)
  then show ?thesis
    by (auto simp: delta_update_def Let_def hm_get_map_key option_value_eq_def)
qed

text \<open>
  C40: The changed columns of an update are exactly those whose values differ, with their old and
  new values; and a consumer that has the old row and applies the delta of an insertion, an
  update or a deletion arrives at the values of the new row (none after a deletion). Floats must
  not be NaN or a negative zero.
\<close>

theorem delta_roundtrip:
  assumes "\<forall>v \<in> set (hm_values (row_values old)). value_canon v"
    and "\<forall>v \<in> set (hm_values (row_values new)). value_canon v"
    and "hm_wf (row_values old)" and "hm_wf (row_values new)"
  shows "(column_changed (delta_update i old new) c \<longleftrightarrow> row_get old c \<noteq> row_get new c) \<and>
     hm_get (patch (dl_changed_columns (delta_update i old new)) (row_values old)) c = row_get new c \<and>
     hm_get (patch (dl_changed_columns (delta_insert i new)) []) c = row_get new c \<and>
     hm_get (patch (dl_changed_columns (delta_delete i old)) (row_values old)) c = None"
proof -
  have canon: "option_value_eq (row_get old c) (row_get new c) \<longleftrightarrow> row_get old c = row_get new c"
    using assms(1,2) hm_get_value by (intro option_value_eq_canon) (force simp: row_get_def)+
  have wf: "hm_wf (dl_changed_columns (delta_update i old new))"
    by (simp add: delta_update_def Let_def o_def)
  have ins: "hm_get (dl_changed_columns (delta_insert i new)) c = map_option (\<lambda>v. (None, Some v)) (row_get new c)"
    "hm_get (dl_changed_columns (delta_delete i old)) c = map_option (\<lambda>v. (Some v, None)) (row_get old c)"
    by (simp_all add: delta_insert_def delta_delete_def row_get_def hm_get_map_values)
  have wf': "hm_wf (dl_changed_columns (delta_insert i new))" "hm_wf (dl_changed_columns (delta_delete i old))"
    using assms(3,4) by (simp_all add: delta_insert_def delta_delete_def o_def split_def)
  show ?thesis
    using canon
    by (auto simp: hm_get_patch wf wf' ins delta_update_changed column_changed_def row_get_def split: option.split)
qed

definition demo_old :: row where
  "demo_old = \<lparr> row_id = 1, row_values = [(''a'', VInt64 1), (''b'', VInt64 2)] \<rparr>"

definition demo_new :: row where
  "demo_new = \<lparr> row_id = 1, row_values = [(''a'', VInt64 1), (''c'', VString ''x'')] \<rparr>"

theorem delta_roundtrip_witness:
  "column_changed (delta_update 1 demo_old demo_new) ''b'' \<and>
   hm_get (patch (dl_changed_columns (delta_update 1 demo_old demo_new)) (row_values demo_old)) ''b'' = None"
  using delta_roundtrip [of demo_old demo_new 1 "''b''"]
  by (simp add: demo_old_def demo_new_def row_get_def)

section \<open>Catching up from the replication log\<close>

type_synonym appended = "128 word \<times> int \<times> operation"

definition append_all :: "appended list \<Rightarrow> replicator \<Rightarrow> replicator" where
  "append_all ops r = fold (\<lambda>(u, now, p) r. snd (rp_append u now p r)) ops r"

definition numbered :: "nat \<Rightarrow> appended list \<Rightarrow> op_entry list" where
  "numbered m ops =
     map (\<lambda>(k, u, now, p). \<lparr> oe_id = u, oe_seq = of_nat (Suc k), oe_timestamp = now, oe_op = p \<rparr>)
       (zip [m..<m + length ops] ops)"

lemma length_numbered [simp]: "length (numbered m ops) = length ops"
  by (simp add: numbered_def)

lemma numbered_snoc:
  "numbered m (ops @ [(u, now, p)]) =
   numbered m ops @ [\<lparr> oe_id = u, oe_seq = of_nat (Suc (m + length ops)), oe_timestamp = now, oe_op = p \<rparr>]"
  by (simp add: numbered_def)

lemma numbered_Nil [simp]: "numbered m [] = []"
  by (simp add: numbered_def)

lemma numbered_Cons:
  "numbered m ((u, now, p) # ops) =
   \<lparr> oe_id = u, oe_seq = of_nat (Suc m), oe_timestamp = now, oe_op = p \<rparr> # numbered (Suc m) ops"
  by (simp add: numbered_def upt_conv_Cons del: upt_Suc)

lemma numbered_drop: "drop n (numbered m ops) = numbered (m + n) (drop n ops)"
  by (cases "n \<le> length ops") (simp_all add: numbered_def drop_map drop_zip)

lemma ops_numbered [simp]: "map oe_op (numbered m ops) = map (\<lambda>(u, now, p). p) ops"
  by (induction ops arbitrary: m) (auto simp: numbered_Cons)

lemma append_all_state:
  assumes "length ops < 2 ^ 64 - 1"
  shows "rp_next_seq (append_all ops (with_max_oplog_size cap replicator_new)) = of_nat (Suc (length ops)) \<and>
     rp_max_oplog_size (append_all ops (with_max_oplog_size cap replicator_new)) = cap \<and>
     rp_oplog (append_all ops (with_max_oplog_size cap replicator_new)) = keep_last cap (numbered 0 ops)"
  using assms
proof (induction ops rule: rev_induct)
  case Nil
  then show ?case by (simp add: append_all_def with_max_oplog_size_def replicator_new_def numbered_def keep_last_def)
next
  case (snoc x ops)
  obtain u now p where x: "x = (u, now, p)" by (cases x)
  with snoc show ?case
    by (simp add: append_all_def rp_append_def Let_def trim_front_keep_last numbered_snoc keep_last_append)
qed

lemma filter_numbered:
  assumes "m + length ops < 2 ^ 64"
  shows "filter (\<lambda>e. since < oe_seq e) (numbered m ops) = drop (unat since - m) (numbered m ops)"
  using assms
proof (induction ops arbitrary: m)
  case Nil
  then show ?case by (simp add: numbered_def)
next
  case (Cons x ops)
  obtain u now p where x: "x = (u, now, p)" by (cases x)
  have n: "numbered m (x # ops) =
      \<lparr> oe_id = u, oe_seq = of_nat (Suc m), oe_timestamp = now, oe_op = p \<rparr> # numbered (Suc m) ops"
    using x by (simp add: numbered_Cons)
  have "since < of_nat (Suc m) \<longleftrightarrow> unat since \<le> m"
    using Cons.prems by (simp add: word_less_nat_alt unsigned_of_nat take_bit_eq_mod less_Suc_eq_le del: of_nat_Suc)
  moreover have "unat since \<le> m \<Longrightarrow> filter (\<lambda>e. since < oe_seq e) (numbered (Suc m) ops) = numbered (Suc m) ops"
    using Cons by simp
  ultimately show ?case
    using Cons n by (cases "unat since \<le> m") (simp_all add: drop_Cons' Suc_diff_Suc)
qed

text \<open>
  Catching up. After any operations have been appended to a fresh replicator, a peer that
  has applied the first \<open>since\<close> operations and asks for the rest receives, in order, all the
  operations it is missing that the log still holds: everything when at most the capacity of the
  log is missing, and only the newest ones otherwise, without any sign of the gap.
\<close>

theorem replication_catch_up:
  assumes "length ops < 2 ^ 64 - 1"
  shows "map oe_op (entries_since since (append_all ops (with_max_oplog_size cap replicator_new))) =
         drop (max (unat since) (length ops - cap)) (map (\<lambda>(u, now, p). p) ops)"
proof -
  let ?r = "append_all ops (with_max_oplog_size cap replicator_new)" and ?n = "length ops - cap"
  have "rp_oplog ?r = numbered ?n (drop ?n ops)"
    using append_all_state [OF assms, of cap] numbered_drop [of ?n 0 ops] by (simp add: keep_last_def)
  moreover have "?n + length (drop ?n ops) < 2 ^ 64" using assms by simp
  ultimately have "entries_since since ?r = drop (unat since - ?n) (numbered ?n (drop ?n ops))"
    using filter_numbered by (simp add: entries_since_def)
  then have "map oe_op (entries_since since ?r) = drop (unat since - ?n) (drop ?n (map (\<lambda>(u, now, p). p) ops))"
    by (simp add: drop_map [symmetric])
  also have "unat since - ?n + ?n = max (unat since) ?n" by simp
  then have "drop (unat since - ?n) (drop ?n (map (\<lambda>(u, now, p). p) ops)) =
             drop (max (unat since) ?n) (map (\<lambda>(u, now, p). p) ops)"
    by (simp only: drop_drop)
  finally show ?thesis .
qed

theorem replication_catch_up_witness:
  "map oe_op (entries_since 1 (append_all [(0, 0, ReplDelete ''t'' 1), (0, 0, ReplDelete ''t'' 2), (0, 0, ReplDelete ''t'' 3)]
     (with_max_oplog_size 2 replicator_new))) = [ReplDelete ''t'' 2, ReplDelete ''t'' 3]"
  using replication_catch_up
    [of "[(0, 0, ReplDelete ''t'' 1), (0, 0, ReplDelete ''t'' 2), (0, 0, ReplDelete ''t'' 3)]" 1 2]
  by simp

text \<open>
  The event history after any run of emissions is the newest events, as many as it may
  keep; the buffer holds every event since it was last drained; and an event is delivered to
  exactly the subscribers whose filters accept its kind and table.
\<close>

theorem emitter_history_and_delivery:
  assumes "evs \<noteq> []" and "hm_wf (em_subscribers e)"
    and "\<forall>i s. hm_get (em_subscribers e) i = Some s \<longrightarrow> sb_id s = i"
  shows "em_history (fold (\<lambda>ev e. snd (emit ev e)) evs e) = keep_last (em_max_history e) (em_history e @ evs) \<and>
     fst (em_drain (fold (\<lambda>ev e. snd (emit ev e)) evs e)) = em_buffer e @ evs \<and>
     (i \<in> set (fst (emit ev e)) \<longleftrightarrow> (\<exists>s. hm_get (em_subscribers e) i = Some s \<and> subscriber_matches s ev))"
proof -
  have "em_buffer (fold (\<lambda>ev e. snd (emit ev e)) evs e) = em_buffer e @ evs"
    by (induction evs arbitrary: e) (auto simp: emit_def Let_def)
  moreover have "i \<in> set (fst (emit ev e)) \<longleftrightarrow> (\<exists>s. hm_get (em_subscribers e) i = Some s \<and> subscriber_matches s ev)"
  proof
    assume "i \<in> set (fst (emit ev e))"
    then obtain s where s: "s \<in> set (hm_values (em_subscribers e))" "subscriber_matches s ev" "i = sb_id s"
      by (auto simp: emit_def)
    then obtain k where "hm_get (em_subscribers e) k = Some s"
      using assms(2) hm_values_get by metis
    with assms(3) s show "\<exists>s. hm_get (em_subscribers e) i = Some s \<and> subscriber_matches s ev" by auto
  next
    assume "\<exists>s. hm_get (em_subscribers e) i = Some s \<and> subscriber_matches s ev"
    then obtain s where s: "hm_get (em_subscribers e) i = Some s" "subscriber_matches s ev" by blast
    then have "s \<in> set (hm_values (em_subscribers e))" "sb_id s = i" using assms(3) hm_get_value by metis+
    with s show "i \<in> set (fst (emit ev e))" by (auto simp: emit_def)
  qed
  ultimately show ?thesis
    using event_log.entries_pushes [OF assms(1), of e] by (simp add: em_drain_def)
qed

theorem emitter_history_and_delivery_witness:
  "em_history (fold (\<lambda>ev e. snd (emit ev e)) [event_new 1 0 RowInserted, event_new 2 0 RowDeleted]
     (with_max_history 1 (em_subscribe_kind ''a'' [RowInserted] emitter_new))) = [event_new 2 0 RowDeleted]"
  using emitter_history_and_delivery [of "[event_new 1 0 RowInserted, event_new 2 0 RowDeleted]"
      "with_max_history 1 (em_subscribe_kind ''a'' [RowInserted] emitter_new)"]
  by (simp add: with_max_history_def em_subscribe_kind_def add_subscriber_def emitter_new_def keep_last_def)

end
