(* ===== verification/Cluster.thy ===== *)
theory Cluster
  imports Blitz_Prelude
begin

text \<open>
  Cluster membership (\<open>blitz-cluster\<close>): the nodes a process knows, their status and role, and
  the quorum. The clock is an argument; counts are natural numbers below the size of a map.
\<close>

section \<open>Nodes\<close>

datatype node_status = Alive | Suspect | Dead

datatype node_role = Leader | Follower | Observer

record node =
  nd_id :: string
  nd_name :: string
  nd_address :: string
  nd_port :: u16
  nd_status :: node_status
  nd_role :: node_role
  nd_metadata :: "(string, string) hmap"
  nd_last_heartbeat :: int
  nd_joined_at :: int

definition node_new :: "int \<Rightarrow> string \<Rightarrow> string \<Rightarrow> u16 \<Rightarrow> node" where
  "node_new now i addr p =
     \<lparr> nd_id = i, nd_name = [], nd_address = addr, nd_port = p, nd_status = Alive, nd_role = Follower,
       nd_metadata = [], nd_last_heartbeat = now, nd_joined_at = now \<rparr>"

definition node_with_name :: "string \<Rightarrow> node \<Rightarrow> node" where
  "node_with_name nm n = n \<lparr> nd_name := nm \<rparr>"

definition node_with_role :: "node_role \<Rightarrow> node \<Rightarrow> node" where
  "node_with_role r n = n \<lparr> nd_role := r \<rparr>"

definition node_with_metadata :: "string \<Rightarrow> string \<Rightarrow> node \<Rightarrow> node" where
  "node_with_metadata k v n = n \<lparr> nd_metadata := hm_insert k v (nd_metadata n) \<rparr>"

definition is_alive :: "node \<Rightarrow> bool" where
  "is_alive n \<longleftrightarrow> nd_status n = Alive"

section \<open>Membership\<close>

record membership =
  mb_nodes :: "(string, node) hmap"
  mb_local_id :: string

definition membership_new :: "string \<Rightarrow> membership" where
  "membership_new i = \<lparr> mb_nodes = [], mb_local_id = i \<rparr>"

definition add_node :: "node \<Rightarrow> membership \<Rightarrow> membership" where
  "add_node n m = m \<lparr> mb_nodes := hm_insert (nd_id n) n (mb_nodes m) \<rparr>"

definition remove_node :: "string \<Rightarrow> membership \<Rightarrow> bool \<times> membership" where
  "remove_node i m = (hm_contains (mb_nodes m) i, m \<lparr> mb_nodes := hm_remove i (mb_nodes m) \<rparr>)"

definition get_node :: "membership \<Rightarrow> string \<Rightarrow> node option" where
  "get_node m i = hm_get (mb_nodes m) i"

definition local_node :: "membership \<Rightarrow> node option" where
  "local_node m = hm_get (mb_nodes m) (mb_local_id m)"

definition alive_nodes :: "membership \<Rightarrow> node list" where
  "alive_nodes m = filter is_alive (hm_values (mb_nodes m))"

definition leader :: "membership \<Rightarrow> node option" where
  "leader m = find (\<lambda>n. nd_role n = Leader \<and> is_alive n) (hm_values (mb_nodes m))"

definition nodes_by_role :: "membership \<Rightarrow> node_role \<Rightarrow> node list" where
  "nodes_by_role m r = filter (\<lambda>n. nd_role n = r) (hm_values (mb_nodes m))"

definition update_node :: "(node \<Rightarrow> node) \<Rightarrow> string \<Rightarrow> membership \<Rightarrow> bool \<times> membership" where
  "update_node f i m =
     (case hm_get (mb_nodes m) i of
        Some n \<Rightarrow> (True, m \<lparr> mb_nodes := hm_insert i (f n) (mb_nodes m) \<rparr>)
      | None \<Rightarrow> (False, m))"

definition heartbeat :: "int \<Rightarrow> string \<Rightarrow> membership \<Rightarrow> bool \<times> membership" where
  "heartbeat now = update_node (\<lambda>n. n \<lparr> nd_last_heartbeat := now, nd_status := Alive \<rparr>)"

definition mark_suspect :: "string \<Rightarrow> membership \<Rightarrow> bool \<times> membership" where
  "mark_suspect = update_node (\<lambda>n. n \<lparr> nd_status := Suspect \<rparr>)"

definition mark_dead :: "string \<Rightarrow> membership \<Rightarrow> bool \<times> membership" where
  "mark_dead = update_node (\<lambda>n. n \<lparr> nd_status := Dead \<rparr>)"

definition alive_count :: "membership \<Rightarrow> nat" where
  "alive_count m = length (filter is_alive (hm_values (mb_nodes m)))"

definition total_count :: "membership \<Rightarrow> nat" where
  "total_count m = length (mb_nodes m)"

definition has_quorum :: "membership \<Rightarrow> bool" where
  "has_quorum m =
     (let alive = alive_count m; total' = total_count m in
      if total' = 0 then False else alive > total' div 2)"

section \<open>Quorums\<close>

definition alive_ids :: "membership \<Rightarrow> string set" where
  "alive_ids m = {i. \<exists>n. hm_get (mb_nodes m) i = Some n \<and> is_alive n}"

definition member_ids :: "membership \<Rightarrow> string set" where
  "member_ids m = dom (hm_get (mb_nodes m))"

lemma alive_count_card: "hm_wf (mb_nodes m) \<Longrightarrow> alive_count m = card (alive_ids m)"
proof -
  assume wf: "hm_wf (mb_nodes m)"
  have "alive_ids m = fst ` set (filter (\<lambda>(i, n). is_alive n) (mb_nodes m))"
    using wf by (force simp: alive_ids_def)
  moreover have "distinct (map fst (filter (\<lambda>(i, n). is_alive n) (mb_nodes m)))"
    using wf by (rule distinct_map_filter)
  ultimately have "card (alive_ids m) = length (filter (\<lambda>(i, n). is_alive n) (mb_nodes m))"
    by (metis distinct_card length_map list.set_map)
  then show ?thesis by (simp add: alive_count_def filter_map o_def split_def)
qed

lemma total_count_card: "hm_wf (mb_nodes m) \<Longrightarrow> total_count m = card (member_ids m)"
  by (simp add: total_count_def member_ids_def dom_map_of_conv_image_fst)
    (metis distinct_card length_map list.set_map)

lemma has_quorum_iff: "has_quorum m \<longleftrightarrow> total_count m < 2 * alive_count m"
  by (auto simp: has_quorum_def Let_def) (simp add: alive_count_def total_count_def)

text \<open>
  No two sides of a partition both have a quorum: two processes that know the same nodes
  and both see a quorum have a node in common that both consider alive. A quorum is a strict
  majority of the known nodes, dead ones included, so marking a node dead or suspect never
  creates one, and an empty cluster has none.
\<close>

theorem quorums_intersect:
  assumes "hm_wf (mb_nodes a)" and "hm_wf (mb_nodes b)" and "member_ids a = member_ids b"
    and "has_quorum a" and "has_quorum b"
  shows "alive_ids a \<inter> alive_ids b \<noteq> {}"
proof
  assume disjoint: "alive_ids a \<inter> alive_ids b = {}"
  have fin: "finite (member_ids a)" by (simp add: member_ids_def finite_dom_map_of)
  have sub: "alive_ids a \<subseteq> member_ids a" "alive_ids b \<subseteq> member_ids a"
    using assms(3) by (auto simp: alive_ids_def member_ids_def)
  have "card (alive_ids a) + card (alive_ids b) = card (alive_ids a \<union> alive_ids b)"
    using card_Un_disjoint [OF _ _ disjoint] fin sub finite_subset by metis
  also have "\<dots> \<le> card (member_ids a)" using fin sub by (intro card_mono) auto
  finally show False
    using assms by (simp add: has_quorum_iff alive_count_card total_count_card)
qed

definition demo_membership :: membership where
  "demo_membership = add_node (node_new 0 ''b'' ''h'' 1) (add_node (node_new 0 ''a'' ''h'' 1) (membership_new ''a''))"

theorem quorums_intersect_witness: "alive_ids demo_membership \<inter> alive_ids demo_membership \<noteq> {}"
  by (rule quorums_intersect)
    (simp_all add: demo_membership_def add_node_def node_new_def membership_new_def has_quorum_def
      alive_count_def total_count_def is_alive_def)

lemma quorum_without_node:
  assumes "hm_wf (mb_nodes m)" and "\<And>n. is_alive (f n) \<Longrightarrow> is_alive n" and "has_quorum (snd (update_node f i m))"
  shows "has_quorum m"
proof (cases "hm_get (mb_nodes m) i")
  case None
  with assms(3) show ?thesis by (simp add: update_node_def)
next
  case (Some n)
  let ?m = "snd (update_node f i m)"
  have nodes: "mb_nodes ?m = hm_insert i (f n) (mb_nodes m)" using Some by (simp add: update_node_def)
  have wf: "hm_wf (mb_nodes ?m)" using assms(1) by (simp add: nodes)
  have "alive_ids ?m \<subseteq> alive_ids m"
    using Some assms(2) by (auto simp: alive_ids_def nodes hm_simps simp del: map_of_eq_Some_iff split: if_splits)
  moreover have "finite (alive_ids m)"
    by (rule finite_subset [of _ "dom (hm_get (mb_nodes m))"]) (auto simp: alive_ids_def finite_dom_map_of)
  ultimately have "card (alive_ids ?m) \<le> card (alive_ids m)" by (rule card_mono [rotated])
  moreover have "total_count ?m = total_count m"
    using Some by (simp add: total_count_def nodes length_hm_insert)
  ultimately show ?thesis
    using assms(1,3) wf by (simp add: has_quorum_iff alive_count_card)
qed

end
