(* ===== verification/Admission.thy ===== *)
theory Admission
  imports Blitz_Prelude "HOL-Library.Multiset"
begin

text \<open>
  Admission of connections (\<open>BlitzServer\<close>'s counters in \<open>blitz-server/src/server.rs\<close>, the
  \<open>ConnectionGuard\<close> of \<open>transport.rs\<close>). Each counter operation is atomic in the code: a
  compare-and-swap loop for the connection counter, a lock for the counters per address. A
  connection takes its slots in two such steps and gives them back in two, and other
  connections run in between: the step relation below interleaves them freely.
\<close>

section \<open>The counters\<close>

record admission_config =
  max_connections :: nat
  shed_at_connections :: "nat option"
  max_connections_per_ip :: nat

record 'ip admission =
  connections :: nat
  ips :: "('ip, nat) hmap"
  shed_drops :: u64

definition admission_new :: "'ip admission" where
  "admission_new = \<lparr> connections = 0, ips = [], shed_drops = 0 \<rparr>"

definition try_acquire_connection :: "admission_config \<Rightarrow> 'ip admission \<Rightarrow> bool \<times> 'ip admission" where
  "try_acquire_connection c s =
     (if max_connections c \<le> connections s then (False, s)
      else (True, s \<lparr> connections := connections s + 1 \<rparr>))"

definition release_connection :: "'ip admission \<Rightarrow> 'ip admission" where
  "release_connection s = (if connections s = 0 then s else s \<lparr> connections := connections s - 1 \<rparr>)"

definition should_shed :: "admission_config \<Rightarrow> 'ip admission \<Rightarrow> bool" where
  "should_shed c s = (case shed_at_connections c of Some t \<Rightarrow> t \<le> connections s | None \<Rightarrow> False)"

definition record_shed_drop :: "'ip admission \<Rightarrow> 'ip admission" where
  "record_shed_drop s = s \<lparr> shed_drops := shed_drops s + 1 \<rparr>"

definition ip_acquire :: "admission_config \<Rightarrow> 'ip \<Rightarrow> 'ip admission \<Rightarrow> bool \<times> 'ip admission" where
  "ip_acquire c ip s =
     (let cap = max_connections_per_ip c in
      if cap = 0 then (True, s)
      else (let n = (case hm_get (ips s) ip of Some n \<Rightarrow> n | None \<Rightarrow> 0) in
            if cap \<le> n then (False, s)
            else (True, s \<lparr> ips := hm_insert ip (n + 1) (ips s) \<rparr>)))"

definition ip_release :: "'ip \<Rightarrow> 'ip admission \<Rightarrow> 'ip admission" where
  "ip_release ip s =
     (case hm_get (ips s) ip of
        None \<Rightarrow> s
      | Some n \<Rightarrow>
          if n \<le> 1 then s \<lparr> ips := hm_remove ip (ips s) \<rparr>
          else s \<lparr> ips := hm_insert ip (n - 1) (ips s) \<rparr>)"

section \<open>The guard of a connection\<close>

text \<open>
  \<open>ConnectionGuard::new\<close> and \<open>drop\<close>, run without interruption: the result says whether a guard
  was handed out.
\<close>

definition guard_new :: "admission_config \<Rightarrow> 'ip option \<Rightarrow> 'ip admission \<Rightarrow> bool \<times> 'ip admission" where
  "guard_new c ip s =
     (case (case ip of None \<Rightarrow> (True, s) | Some a \<Rightarrow> ip_acquire c a s) of
        (False, s) \<Rightarrow> (False, record_shed_drop s)
      | (True, s) \<Rightarrow>
          (case try_acquire_connection c s of
             (True, s) \<Rightarrow> (True, s)
           | (False, s) \<Rightarrow> (False, case ip of Some a \<Rightarrow> ip_release a s | None \<Rightarrow> s)))"

definition guard_drop :: "'ip option \<Rightarrow> 'ip admission \<Rightarrow> 'ip admission" where
  "guard_drop ip s =
     (let s = release_connection s in case ip of Some a \<Rightarrow> ip_release a s | None \<Rightarrow> s)"

text \<open>
  The same with every other connection interleaved: \<open>gs_pending\<close> holds the connections between
  their two acquisitions, \<open>gs_live\<close> the guards handed out, \<open>gs_leaving\<close> those that have only
  their address slot left to give back.
\<close>

record 'ip guard_state =
  gs_server :: "'ip admission"
  gs_pending :: "'ip option multiset"
  gs_live :: "'ip option multiset"
  gs_leaving :: "'ip option multiset"

definition guard_init :: "'ip guard_state" where
  "guard_init = \<lparr> gs_server = admission_new, gs_pending = {#}, gs_live = {#}, gs_leaving = {#} \<rparr>"

inductive guard_step :: "admission_config \<Rightarrow> 'ip guard_state \<Rightarrow> 'ip guard_state \<Rightarrow> bool"
  for c :: admission_config where
  shed: "should_shed c (gs_server g) \<Longrightarrow>
    guard_step c g (g \<lparr> gs_server := record_shed_drop (gs_server g) \<rparr>)"
| ip_denied: "ip_acquire c a (gs_server g) = (False, s) \<Longrightarrow>
    guard_step c g (g \<lparr> gs_server := record_shed_drop s \<rparr>)"
| ip_admitted: "ip_acquire c a (gs_server g) = (True, s) \<Longrightarrow>
    guard_step c g (g \<lparr> gs_server := s, gs_pending := gs_pending g + {#Some a#} \<rparr>)"
| no_address: "guard_step c g (g \<lparr> gs_pending := gs_pending g + {#None#} \<rparr>)"
| admitted: "ip \<in># gs_pending g \<Longrightarrow> try_acquire_connection c (gs_server g) = (True, s) \<Longrightarrow>
    guard_step c g (g \<lparr> gs_server := s, gs_pending := gs_pending g - {#ip#}, gs_live := gs_live g + {#ip#} \<rparr>)"
| refused: "ip \<in># gs_pending g \<Longrightarrow> try_acquire_connection c (gs_server g) = (False, s) \<Longrightarrow>
    guard_step c g (g \<lparr> gs_server := s, gs_pending := gs_pending g - {#ip#}, gs_leaving := gs_leaving g + {#ip#} \<rparr>)"
| dropped: "ip \<in># gs_live g \<Longrightarrow>
    guard_step c g (g \<lparr> gs_server := release_connection (gs_server g),
      gs_live := gs_live g - {#ip#}, gs_leaving := gs_leaving g + {#ip#} \<rparr>)"
| left: "ip \<in># gs_leaving g \<Longrightarrow>
    guard_step c g (g \<lparr> gs_server := (case ip of Some a \<Rightarrow> ip_release a (gs_server g) | None \<Rightarrow> gs_server g),
      gs_leaving := gs_leaving g - {#ip#} \<rparr>)"

section \<open>The counters count\<close>

definition in_flight :: "'ip guard_state \<Rightarrow> 'ip option multiset" where
  "in_flight g = gs_pending g + gs_live g + gs_leaving g"

text \<open>An address counter holds the number of connections from it, and has no entry for none.\<close>

definition counted :: "nat \<Rightarrow> nat option" where
  "counted n = (if n = 0 then None else Some n)"

definition guard_inv :: "admission_config \<Rightarrow> 'ip guard_state \<Rightarrow> bool" where
  "guard_inv c g \<longleftrightarrow>
     connections (gs_server g) = size (gs_live g) \<and> size (gs_live g) \<le> max_connections c \<and>
     hm_wf (ips (gs_server g)) \<and>
     (if max_connections_per_ip c = 0 then ips (gs_server g) = []
      else (\<forall>a. hm_get (ips (gs_server g)) a = counted (count (in_flight g) (Some a)) \<and>
               count (in_flight g) (Some a) \<le> max_connections_per_ip c))"

lemma guard_inv_init: "guard_inv c guard_init"
  by (simp add: guard_inv_def guard_init_def admission_new_def in_flight_def counted_def)

lemma counted_simps [simp]:
  "(case counted n of Some k \<Rightarrow> k | None \<Rightarrow> 0) = n" "counted 0 = None" "counted (Suc n) = Some (Suc n)"
  by (simp_all add: counted_def)

lemma ip_acquire_counts:
  assumes "ip_acquire c a s = (True, s')" and "max_connections_per_ip c \<noteq> 0" and "hm_wf (ips s)"
    and "\<forall>b. hm_get (ips s) b = counted (f b) \<and> f b \<le> max_connections_per_ip c"
  shows "connections s' = connections s \<and> hm_wf (ips s') \<and>
     (\<forall>b. hm_get (ips s') b = counted (if b = a then Suc (f b) else f b) \<and>
          (if b = a then Suc (f b) else f b) \<le> max_connections_per_ip c)"
proof -
  have "hm_get (ips s) a = counted (f a)" using assms(4) by blast
  with assms(1,2) have "f a < max_connections_per_ip c" "s' = s \<lparr> ips := hm_insert a (Suc (f a)) (ips s) \<rparr>"
    by (auto simp: ip_acquire_def Let_def split: if_splits)
  with assms(3,4) show ?thesis by (simp add: hm_simps del: map_of_eq_Some_iff)
qed

lemma ip_release_counts:
  assumes "hm_wf (ips s)" and "\<forall>b. hm_get (ips s) b = counted (f b)" and "0 < f a"
  shows "connections (ip_release a s) = connections s \<and> hm_wf (ips (ip_release a s)) \<and>
     (\<forall>b. hm_get (ips (ip_release a s)) b = counted (if b = a then f b - 1 else f b))"
proof -
  have "hm_get (ips s) a = Some (f a)" using assms(2,3) by (simp add: counted_def)
  moreover have "counted (f a - 1) = (if f a \<le> 1 then None else Some (f a - 1))"
    by (simp add: counted_def)
  ultimately show ?thesis
    using assms(1,2) by (simp add: ip_release_def hm_simps del: map_of_eq_Some_iff)
qed

lemma ip_release_untracked: "ips s = [] \<Longrightarrow> ip_release a s = s"
  by (simp add: ip_release_def)

lemma guard_inv_step:
  assumes "guard_step c g g'" and inv: "guard_inv c g"
  shows "guard_inv c g'"
  using assms(1)
proof cases
  case (ip_admitted a s)
  show ?thesis
  proof (cases "max_connections_per_ip c = 0")
    case True
    with inv ip_admitted show ?thesis by (auto simp: guard_inv_def in_flight_def ip_acquire_def)
  next
    case False
    have "connections s = connections (gs_server g) \<and> hm_wf (ips s) \<and>
      (\<forall>b. hm_get (ips s) b = counted (if b = a then Suc (count (in_flight g) (Some b)) else count (in_flight g) (Some b)) \<and>
           (if b = a then Suc (count (in_flight g) (Some b)) else count (in_flight g) (Some b)) \<le> max_connections_per_ip c)"
      by (rule ip_acquire_counts [OF ip_admitted(2)]) (use False inv in \<open>auto simp: guard_inv_def\<close>)
    moreover have "count (in_flight g') (Some b) =
        (if b = a then Suc (count (in_flight g) (Some b)) else count (in_flight g) (Some b))" for b
      using ip_admitted by (simp add: in_flight_def)
    ultimately show ?thesis using False inv ip_admitted(1) by (auto simp: guard_inv_def)
  qed
next
  case (left ip)
  show ?thesis
  proof (cases ip)
    case None
    have "count (in_flight g') (Some b) = count (in_flight g) (Some b)" for b
      using left None by (simp add: in_flight_def)
    with inv left None show ?thesis by (simp add: guard_inv_def)
  next
    case (Some a)
    have flight: "count (in_flight g') (Some b) =
        (if b = a then count (in_flight g) (Some b) - 1 else count (in_flight g) (Some b))" for b
      using left Some by (auto simp: in_flight_def)
    have pos: "0 < count (in_flight g) (Some a)" using left Some by (simp add: in_flight_def)
    show ?thesis
    proof (cases "max_connections_per_ip c = 0")
      case True
      with inv left Some show ?thesis by (simp add: guard_inv_def ip_release_untracked)
    next
      case False
      have "connections (ip_release a (gs_server g)) = connections (gs_server g) \<and>
        hm_wf (ips (ip_release a (gs_server g))) \<and>
        (\<forall>b. hm_get (ips (ip_release a (gs_server g))) b =
             counted (if b = a then count (in_flight g) (Some b) - 1 else count (in_flight g) (Some b)))"
        by (rule ip_release_counts [where f = "\<lambda>b. count (in_flight g) (Some b)"]) (use False inv pos in \<open>auto simp: guard_inv_def\<close>)
      moreover have "(if b = a then count (in_flight g) (Some b) - 1 else count (in_flight g) (Some b))
          \<le> max_connections_per_ip c" for b
        using False inv le_trans [OF diff_le_self] by (auto simp: guard_inv_def)
      moreover have "gs_server g' = ip_release a (gs_server g)" "gs_live g' = gs_live g"
        using left(1) Some by simp_all
      ultimately show ?thesis using False inv by (simp add: guard_inv_def flight)
    qed
  qed
next
  case (admitted ip s)
  then have "in_flight g' = in_flight g" by (simp add: in_flight_def)
  with inv admitted show ?thesis
    by (auto simp: guard_inv_def try_acquire_connection_def split: if_splits)
next
  case (refused ip s)
  then have "in_flight g' = in_flight g" by (simp add: in_flight_def)
  with inv refused show ?thesis
    by (auto simp: guard_inv_def try_acquire_connection_def split: if_splits)
next
  case (dropped ip)
  then have "in_flight g' = in_flight g" by (simp add: in_flight_def)
  with inv dropped show ?thesis
    by (auto simp: guard_inv_def release_connection_def size_Diff_singleton)
qed (use inv in \<open>auto simp: guard_inv_def in_flight_def record_shed_drop_def ip_acquire_def Let_def
      split: if_splits\<close>)

lemma guard_inv_reachable: "(guard_step c)\<^sup>*\<^sup>* guard_init g \<Longrightarrow> guard_inv c g"
  by (induction rule: rtranclp_induct) (auto simp: guard_inv_init intro: guard_inv_step)

text \<open>Without interruption the steps amount to the guard's constructor and destructor.\<close>

lemma guard_new_steps:
  assumes "guard_new c (Some a) (gs_server g) = (True, s)"
  shows "(guard_step c)\<^sup>*\<^sup>* g (g \<lparr> gs_server := s, gs_live := gs_live g + {#Some a#} \<rparr>)"
proof -
  obtain s1 where one: "ip_acquire c a (gs_server g) = (True, s1)" and two: "try_acquire_connection c s1 = (True, s)"
    using assms by (auto simp: guard_new_def split: prod.splits bool.splits)
  let ?g1 = "g \<lparr> gs_server := s1, gs_pending := gs_pending g + {#Some a#} \<rparr>"
  have "guard_step c g ?g1" by (rule ip_admitted [OF one])
  moreover have "guard_step c ?g1 (?g1 \<lparr> gs_server := s, gs_pending := gs_pending ?g1 - {#Some a#},
      gs_live := gs_live ?g1 + {#Some a#} \<rparr>)"
    by (rule admitted) (use two in auto)
  ultimately show ?thesis by simp
qed

text \<open>
  C35: The admission limits hold however connections interleave: the counter always equals the
  number of live connections and stays within the limit, no address has more live connections
  than its limit, and once nothing is in flight the counters are back at zero, so no slot is ever
  leaked.
\<close>

theorem admission_limits:
  assumes "(guard_step c)\<^sup>*\<^sup>* guard_init g"
  shows "connections (gs_server g) = size (gs_live g) \<and> size (gs_live g) \<le> max_connections c \<and>
    (0 < max_connections_per_ip c \<longrightarrow> count (gs_live g) (Some a) \<le> max_connections_per_ip c) \<and>
    (in_flight g = {#} \<longrightarrow> connections (gs_server g) = 0 \<and> ips (gs_server g) = [])"
proof -
  have inv: "guard_inv c g" using guard_inv_reachable [OF assms] .
  have "ips (gs_server g) = []" if "in_flight g = {#}"
  proof (cases "max_connections_per_ip c = 0")
    case False
    with inv that have "map_of (ips (gs_server g)) = Map.empty"
      by (intro ext) (simp add: guard_inv_def counted_def del: map_of_eq_empty_iff)
    then show ?thesis by simp
  qed (use inv in \<open>simp add: guard_inv_def\<close>)
  moreover have "count (gs_live g) (Some a) \<le> max_connections_per_ip c" if "0 < max_connections_per_ip c"
  proof -
    have "count (gs_live g) (Some a) \<le> count (in_flight g) (Some a)" by (simp add: in_flight_def)
    also have "\<dots> \<le> max_connections_per_ip c" using inv that by (simp add: guard_inv_def)
    finally show ?thesis .
  qed
  ultimately show ?thesis using inv by (auto simp: guard_inv_def in_flight_def)
qed

definition demo_limits :: admission_config where
  "demo_limits = \<lparr> max_connections = 2, shed_at_connections = None, max_connections_per_ip = 1 \<rparr>"

definition demo_guards :: "nat guard_state" where
  "demo_guards = guard_init \<lparr> gs_server := \<lparr> connections = 1, ips = [(7, 1)], shed_drops = 0 \<rparr>,
     gs_live := {#Some 7#} \<rparr>"

lemma demo_guards_reachable: "(guard_step demo_limits)\<^sup>*\<^sup>* guard_init demo_guards"
proof -
  have "guard_new demo_limits (Some 7) (gs_server guard_init) = (True, gs_server demo_guards)"
    by (simp add: guard_new_def demo_limits_def demo_guards_def guard_init_def admission_new_def
        ip_acquire_def try_acquire_connection_def)
  from guard_new_steps [OF this] show ?thesis by (simp add: demo_guards_def guard_init_def)
qed

theorem admission_limits_witness:
  "connections (gs_server demo_guards) = 1 \<and> count (gs_live demo_guards) (Some 7) \<le> 1 \<and>
   \<not> fst (guard_new demo_limits (Some 7) (gs_server demo_guards))"
  using admission_limits [OF demo_guards_reachable, of 7]
  by (simp add: demo_limits_def demo_guards_def guard_new_def ip_acquire_def)

end
