(* ===== verification/Snapshots.thy ===== *)
theory Snapshots
  imports Sharding
begin

text \<open>
  Snapshot files (\<open>blitz-snapshot/src/snapshot.rs\<close>): the format of a file, writing one beside the
  old ones and renaming it into place, finding the newest one, listing and pruning. A directory
  is the association list of its file names with their contents, in the order \<open>read_dir\<close> lists
  them; a directory that does not exist is an empty one, and operations of the file system do
  not fail. The JSON serializer of a snapshot is a parameter.
\<close>

section \<open>Data\<close>

definition SNAPSHOT_MAGIC :: u32 where "SNAPSHOT_MAGIC = 0x42534E41"
definition SNAPSHOT_VERSION :: u32 where "SNAPSHOT_VERSION = 1"

record snapshot_row =
  sr_id :: u64
  sr_values :: "(string \<times> json) list"

record snapshot_table =
  st_name :: string
  st_rows :: "snapshot_row list"

record snapshot =
  sn_version :: u32
  sn_tables :: "snapshot_table list"
  sn_next_row_ids :: "(string \<times> u64) list"

datatype snapshot_error =
    SnapEof
  | InvalidMagic
  | UnsupportedVersion u32
  | SnapSerialization string

type_synonym files = "(string, u8 list) hmap"

record snapshot_serde =
  sd_to_vec :: "snapshot \<Rightarrow> string + u8 list"
  sd_from_slice :: "u8 list \<Rightarrow> string + snapshot"

section \<open>Names of files\<close>

definition pad20 :: "nat \<Rightarrow> string" where
  "pad20 n = replicate (20 - length (nat_text n)) CHR ''0'' @ nat_text n"

definition snapshot_path :: "u64 \<Rightarrow> string" where
  "snapshot_path sequence = ''snapshot_'' @ pad20 (unat sequence) @ ''.snap''"

text \<open>\<open>Path::file_stem\<close> and \<open>Path::extension\<close> of a file name: a leading dot starts no extension.\<close>

definition stem_and_extension :: "string \<Rightarrow> string \<times> string option" where
  "stem_and_extension name =
     (case rsplit_once CHR ''.'' name of
        Some (stem, ext) \<Rightarrow> if stem = [] then (name, None) else (stem, Some ext)
      | None \<Rightarrow> (name, None))"

definition strip_prefix :: "string \<Rightarrow> string \<Rightarrow> string option" where
  "strip_prefix p s = (if prefix p s then Some (drop (length p) s) else None)"

definition parse_snapshot_sequence :: "string \<Rightarrow> u64 option" where
  "parse_snapshot_sequence name =
     (case strip_prefix ''snapshot_'' (fst (stem_and_extension name)) of
        None \<Rightarrow> None
      | Some s \<Rightarrow> map_option of_nat (parse_usize s))"

text \<open>The sequence of a file that counts as a snapshot.\<close>

definition snap_sequence :: "string \<Rightarrow> u64 option" where
  "snap_sequence name =
     (if snd (stem_and_extension name) = Some ''snap'' then parse_snapshot_sequence name else None)"

section \<open>Writing\<close>

definition snapshot_of_tables ::
  "(string \<times> (u64 \<times> (string \<times> json) list) list) list \<Rightarrow> (string \<times> u64) list \<Rightarrow> snapshot" where
  "snapshot_of_tables tabs next_ids =
     \<lparr> sn_version = SNAPSHOT_VERSION,
       sn_tables = map (\<lambda>(name, rows). \<lparr> st_name = name,
         st_rows = map (\<lambda>(i, vals). \<lparr> sr_id = i, sr_values = vals \<rparr>) rows \<rparr>) tabs,
       sn_next_row_ids = next_ids \<rparr>"

definition snapshot_header :: "u64 \<Rightarrow> u8 list" where
  "snapshot_header sequence = u32_bytes SNAPSHOT_MAGIC @ u32_bytes SNAPSHOT_VERSION @ u64_bytes sequence"

definition snapshot_bytes :: "u64 \<Rightarrow> u8 list \<Rightarrow> u8 list" where
  "snapshot_bytes sequence data = snapshot_header sequence @ u64_bytes (of_nat (length data)) @ data"

definition TEMP_NAME :: string where "TEMP_NAME = ''snapshot.tmp''"

definition rename_file :: "string \<Rightarrow> string \<Rightarrow> files \<Rightarrow> files" where
  "rename_file old new fs =
     (case hm_get fs old of Some content \<Rightarrow> hm_insert new content (hm_remove old fs) | None \<Rightarrow> fs)"

definition create_snapshot ::
  "snapshot_serde \<Rightarrow> (string \<times> (u64 \<times> (string \<times> json) list) list) list \<Rightarrow> (string \<times> u64) list \<Rightarrow> u64 \<Rightarrow>
   files \<Rightarrow> (snapshot_error + string) \<times> files" where
  "create_snapshot sd tabs next_ids sequence fs =
     (let final_path = snapshot_path sequence in
      case sd_to_vec sd (snapshot_of_tables tabs next_ids) of
        Inl e \<Rightarrow> (Err (SnapSerialization e), hm_insert TEMP_NAME (snapshot_header sequence) fs)
      | Inr data \<Rightarrow>
          (Ok final_path,
           rename_file TEMP_NAME final_path (hm_insert TEMP_NAME (snapshot_bytes sequence data) fs)))"

section \<open>Reading\<close>

definition load_snapshot :: "snapshot_serde \<Rightarrow> u8 list \<Rightarrow> snapshot_error + snapshot \<times> u64" where
  "load_snapshot sd bs =
     (case (rd_bind (rd_le SnapEof 4) (\<lambda>magic.
        if magic \<noteq> SNAPSHOT_MAGIC then rd_fail InvalidMagic
        else rd_bind (rd_le SnapEof 4) (\<lambda>version.
        if version \<noteq> SNAPSHOT_VERSION then rd_fail (UnsupportedVersion version)
        else rd_bind (rd_le SnapEof 8) (\<lambda>sequence.
        rd_bind (rd_le SnapEof 8) (\<lambda>data_len :: u64.
        rd_bind (rd_take SnapEof (unat data_len)) (\<lambda>data. rd_return (data, sequence))))))) bs of
        Inl e \<Rightarrow> Err e
      | Inr ((data, sequence), _) \<Rightarrow>
          (case sd_from_slice sd data of
             Inl e \<Rightarrow> Err (SnapSerialization e)
           | Inr snap \<Rightarrow> Ok (snap, sequence)))"

fun latest_of :: "string list \<Rightarrow> (u64 \<times> string) option \<Rightarrow> (u64 \<times> string) option" where
  "latest_of [] latest = latest"
| "latest_of (name # names) latest =
     latest_of names
       (case snap_sequence name of
          None \<Rightarrow> latest
        | Some q \<Rightarrow>
            (case latest of
               Some (best, p) \<Rightarrow> if q \<le> best then latest else Some (q, name)
             | None \<Rightarrow> Some (q, name)))"

definition find_latest_snapshot :: "files \<Rightarrow> string option" where
  "find_latest_snapshot fs = map_option snd (latest_of (hm_keys fs) None)"

definition load_latest :: "snapshot_serde \<Rightarrow> files \<Rightarrow> snapshot_error + (snapshot \<times> u64) option" where
  "load_latest sd fs =
     (case find_latest_snapshot fs of
        None \<Rightarrow> Ok None
      | Some path \<Rightarrow>
          (case load_snapshot sd (case hm_get fs path of Some bs \<Rightarrow> bs | None \<Rightarrow> []) of
             Inl e \<Rightarrow> Err e
           | Inr r \<Rightarrow> Ok (Some r)))"

section \<open>Listing and pruning\<close>

definition list_snapshots :: "files \<Rightarrow> (u64 \<times> string) list" where
  "list_snapshots fs =
     sort_key fst (List.map_filter (\<lambda>name. map_option (\<lambda>q. (q, name)) (snap_sequence name)) (hm_keys fs))"

definition prune :: "nat \<Rightarrow> files \<Rightarrow> nat \<times> files" where
  "prune keep fs =
     (let snapshots = list_snapshots fs in
      if keep < length snapshots
      then (let old = take (length snapshots - keep) snapshots in
            (length old, fold (\<lambda>(_, path). hm_remove path) old fs))
      else (0, fs))"
section \<open>Names and sequences\<close>

lemma digits_value_zeros: "digits_value (replicate k CHR ''0'' @ s) 0 = digits_value s 0"
  by (induction k) (simp_all add: ascii_digit_def)

lemma pad20_digits: "list_all ascii_digit (pad20 n)" "pad20 n \<noteq> []"
  using nat_text_digits [of n] by (auto simp: pad20_def ascii_digit_def list_all_iff)

lemma parse_usize_pad20: "n < 2 ^ 64 \<Longrightarrow> parse_usize (pad20 n) = Some n"
proof -
  assume n: "n < 2 ^ 64"
  obtain c cs where pad: "pad20 n = c # cs" using pad20_digits(2) [of n] by (cases "pad20 n") auto
  then have "ascii_digit c" using pad20_digits(1) [of n] by simp
  then have "c \<noteq> CHR ''+''" by (auto simp: ascii_digit_def)
  moreover have "digits_value (c # cs) 0 = Some n"
    unfolding pad [symmetric] using digits_value_nat_text [OF n] by (simp add: pad20_def digits_value_zeros)
  ultimately show ?thesis unfolding pad by (simp only: parse_usize_def list.case if_False)
qed

lemma stem_of_path:
  "stem_and_extension (snapshot_path q) = (''snapshot_'' @ pad20 (unat q), Some ''snap'')"
  using rsplit_once_append [of "CHR ''.''" "''snap''" "''snapshot_'' @ pad20 (unat q)"]
  by (simp add: stem_and_extension_def snapshot_path_def)

lemma snap_sequence_path [simp]: "snap_sequence (snapshot_path q) = Some q"
proof -
  have "unat q < 2 ^ 64" using unsigned_less [of q] by simp
  then show ?thesis
    using parse_usize_pad20 [of "unat q"]
    by (simp add: snap_sequence_def parse_snapshot_sequence_def stem_of_path strip_prefix_def)
qed

lemma snap_sequence_temp [simp]: "snap_sequence TEMP_NAME = None"
  by (simp add: snap_sequence_def stem_and_extension_def TEMP_NAME_def)

lemma temp_not_path [simp]: "snapshot_path q \<noteq> TEMP_NAME" "TEMP_NAME \<noteq> snapshot_path q"
  using snap_sequence_path [of q] snap_sequence_temp by (metis option.distinct(1))+

section \<open>The newest snapshot\<close>

lemma latest_of_skip: "latest_of (filter (\<lambda>n. snap_sequence n \<noteq> None) names) b = latest_of names b"
  by (induction names arbitrary: b) auto

lemma latest_of_keeps:
  assumes "\<And>n q. n \<in> set names \<Longrightarrow> snap_sequence n = Some q \<Longrightarrow> q \<le> best"
  shows "latest_of names (Some (best, p)) = Some (best, p)"
  using assms by (induction names) (auto split: option.split)

lemma latest_of_finds:
  assumes "name \<in> set names" and "snap_sequence name = Some q"
    and "\<And>n q'. n \<in> set names \<Longrightarrow> snap_sequence n = Some q' \<Longrightarrow> n \<noteq> name \<Longrightarrow> q' < q"
    and "case b of Some (q', _) \<Rightarrow> q' < q | None \<Rightarrow> True"
  shows "latest_of names b = Some (q, name)"
  using assms
proof (induction names arbitrary: b)
  case (Cons n names)
  show ?case
  proof (cases "n = name")
    case True
    have "latest_of names (Some (q, name)) = Some (q, name)"
      using Cons.prems(2,3) by (intro latest_of_keeps) (metis less_le_not_le linorder_le_cases list.set_intros(2) option.inject)
    then show ?thesis using True Cons.prems(2,4) by (auto split: option.splits)
  next
    case False
    then have "name \<in> set names" using Cons.prems(1) by simp
    moreover have "q' < q" if "snap_sequence n = Some q'" for q' using Cons.prems(3) [of n q'] False that by simp
    ultimately show ?thesis using Cons.prems(2-)
      by (auto intro!: Cons.IH split: option.split)
  qed
qed simp

lemma keys_filter_insert_temp:
  "filter (\<lambda>n. snap_sequence n \<noteq> None) (hm_keys (hm_insert TEMP_NAME c fs)) =
   filter (\<lambda>n. snap_sequence n \<noteq> None) (hm_keys fs)"
  by (induction fs) auto

lemma latest_in_keys:
  "latest_of names b = Some (q, n) \<Longrightarrow> n \<in> set names \<and> snap_sequence n = Some q \<or> b = Some (q, n)"
  by (induction names arbitrary: b) (fastforce split: option.splits prod.splits if_splits)+

lemma load_latest_temp: "load_latest sd (hm_insert TEMP_NAME c fs) = load_latest sd fs"
proof -
  have "find_latest_snapshot (hm_insert TEMP_NAME c fs) = find_latest_snapshot fs"
    unfolding find_latest_snapshot_def
    by (subst (1 2) latest_of_skip [symmetric]) (simp only: keys_filter_insert_temp)
  moreover have "find_latest_snapshot fs = Some p \<Longrightarrow> p \<noteq> TEMP_NAME" for p
    using latest_in_keys [of "hm_keys fs" None] by (fastforce simp: find_latest_snapshot_def)
  ultimately show ?thesis
    by (simp add: load_latest_def hm_simps del: map_of_eq_Some_iff split: option.split)
qed

lemma load_snapshot_bytes:
  assumes "sd_from_slice sd data = Ok snap" and "length data < 2 ^ 64"
  shows "load_snapshot sd (snapshot_bytes q data) = Ok (snap, q)"
  using assms
  by (simp add: load_snapshot_def snapshot_bytes_def snapshot_header_def rd_bind_def rd_return_def
      unsigned_of_nat take_bit_nat_eq_self rd_take_append [of data _ _ "[]", simplified])

lemma load_created:
  assumes "sd_to_vec sd (snapshot_of_tables tabs ids) = Ok data"
    and "sd_from_slice sd data = Ok (snapshot_of_tables tabs ids)" and "length data < 2 ^ 64"
    and "\<And>n q'. n \<in> set (hm_keys fs) \<Longrightarrow> snap_sequence n = Some q' \<Longrightarrow> n = snapshot_path q \<or> q' < q"
  shows "load_latest sd (snd (create_snapshot sd tabs ids q fs)) = Ok (Some (snapshot_of_tables tabs ids, q))"
proof -
  define fs' where "fs' = snd (create_snapshot sd tabs ids q fs)"
  have fs': "fs' = hm_insert (snapshot_path q) (snapshot_bytes q data)
      (hm_remove TEMP_NAME (hm_insert TEMP_NAME (snapshot_bytes q data) fs))"
    by (simp add: fs'_def create_snapshot_def rename_file_def assms(1) Let_def hm_simps del: map_of_eq_Some_iff)
  have "set (hm_keys (hm_remove TEMP_NAME (hm_insert TEMP_NAME c fs))) \<subseteq> set (hm_keys fs)" for c
    unfolding delete_keys set_removeAll set_map dom_update by auto
  then have keys: "set (hm_keys fs') \<subseteq> insert (snapshot_path q) (set (hm_keys fs))" "snapshot_path q \<in> set (hm_keys fs')"
    unfolding fs' set_map dom_update by auto
  have "latest_of (hm_keys fs') None = Some (q, snapshot_path q)"
    using keys assms(4) by (intro latest_of_finds) auto
  moreover have "hm_get fs' (snapshot_path q) = Some (snapshot_bytes q data)"
    by (simp add: fs' hm_simps del: map_of_eq_Some_iff)
  ultimately have "load_latest sd fs' = Ok (Some (snapshot_of_tables tabs ids, q))"
    by (simp add: load_latest_def find_latest_snapshot_def load_snapshot_bytes [OF assms(2,3)])
  then show ?thesis by (simp add: fs'_def)
qed

text \<open>
  C37: Replacing a snapshot is atomic: whatever part of the new file has reached the disk when the
  process dies before the rename, the newest snapshot loaded afterwards is the old one; and once
  the call has returned, the newest snapshot is exactly the tables it was given, provided that
  the serializer reads back what it wrote and no file of the directory carries the same or a
  later sequence under another name.
\<close>

theorem snapshot_replacement_atomic:
  assumes "sd_to_vec sd (snapshot_of_tables tabs ids) = Ok data"
    and "sd_from_slice sd data = Ok (snapshot_of_tables tabs ids)" and "length data < 2 ^ 64"
    and "\<And>n q'. n \<in> set (hm_keys fs) \<Longrightarrow> snap_sequence n = Some q' \<Longrightarrow> n = snapshot_path q \<or> q' < q"
  shows "load_latest sd (hm_insert TEMP_NAME part fs) = load_latest sd fs \<and>
    load_latest sd (snd (create_snapshot sd tabs ids q fs)) = Ok (Some (snapshot_of_tables tabs ids, q))"
  using load_latest_temp load_created [OF assms] by simp

definition demo_serde :: snapshot_serde where
  "demo_serde = \<lparr> sd_to_vec = (\<lambda>s. Ok [of_nat (length (sn_tables s))]),
     sd_from_slice = (\<lambda>bs. Ok (snapshot_of_tables (if bs = [1] then [(''t'', [])] else []) [])) \<rparr>"

theorem snapshot_replacement_atomic_witness:
  "load_latest demo_serde (snd (create_snapshot demo_serde [(''t'', [])] [] 3
     [(snapshot_path 2, snapshot_bytes 2 [0]), (''notes.txt'', [])])) =
   Ok (Some (snapshot_of_tables [(''t'', [])] [], 3))"
proof -
  have "snap_sequence ''notes.txt'' = None"
    by (simp add: snap_sequence_def stem_and_extension_def)
  then show ?thesis
    by (intro snapshot_replacement_atomic [where data = "[1]", THEN conjunct2])
      (auto simp: demo_serde_def snapshot_of_tables_def)
qed

section \<open>Pruning\<close>

lemma set_map_filter: "set (List.map_filter f xs) = {y. \<exists>x\<in>set xs. f x = Some y}"
  by (induction xs) (auto simp: map_filter_simps split: option.splits)

lemma set_list_snapshots: "set (list_snapshots fs) = {(q, n). n \<in> set (hm_keys fs) \<and> snap_sequence n = Some q}"
  by (auto simp: list_snapshots_def set_map_filter)

lemma hm_get_fold_remove:
  "hm_get (fold (\<lambda>(_, path). hm_remove path) old fs) n = (if n \<in> snd ` set old then None else hm_get fs n)"
  by (induction old arbitrary: fs) (auto simp: hm_simps)

lemma prune_keeps_newest:
  assumes "hm_get fs n = Some c" and "hm_get (snd (prune keep fs)) n = None"
  shows "\<exists>q. snap_sequence n = Some q \<and>
    keep \<le> length (filter (\<lambda>(q', _). q \<le> q') (list_snapshots fs))"
proof -
  let ?l = "list_snapshots fs" and ?k = "length (list_snapshots fs) - keep"
  have "n \<in> snd ` set (take ?k ?l)" and lt: "keep < length ?l"
    using assms by (auto simp: prune_def Let_def hm_get_fold_remove split: if_splits)
  then obtain q where q: "(q, n) \<in> set (take ?k ?l)" by auto
  then have "snap_sequence n = Some q"
    using set_list_snapshots [of fs] by (auto dest!: in_set_takeD)
  moreover have "q \<le> fst y" if "y \<in> set (drop ?k ?l)" for y
  proof -
    have "sorted (map fst (take ?k ?l @ drop ?k ?l))" by (simp add: list_snapshots_def)
    then show ?thesis using q that by (auto simp: sorted_append simp del: append_take_drop_id)
  qed
  then have "filter (\<lambda>(q', _). q \<le> q') (drop ?k ?l) = drop ?k ?l"
    by (auto simp: filter_id_conv)
  then have "keep = length (filter (\<lambda>(q', _). q \<le> q') (drop ?k ?l))" using lt by simp
  then have "keep \<le> length (filter (\<lambda>(q', _). q \<le> q') (take ?k ?l @ drop ?k ?l))"
    by (simp only: filter_append length_append)
  ultimately show ?thesis by simp
qed

end
