(* ===== verification/Recovery.thy ===== *)
theory Recovery
  imports Snapshots Durable_Values Wal_Log Core_Table
begin

text \<open>
  Saving and restoring the tables of a server (\<open>save_snapshot\<close>, \<open>recover\<close>, \<open>offline_rotate\<close> of
  \<open>blitz-server/src/durability.rs\<close>): the newest snapshot is loaded and the entries of all log files
  are replayed on it. A data directory is its log files and the files of its \<open>snapshots\<close>
  subdirectory. The checksum, the JSON parser and the identifiers of new tables are parameters.
\<close>

unbundle bit_operations_syntax

section \<open>Operations\<close>

record recovery_env =
  re_crc :: "u8 list \<Rightarrow> u32"
  re_json :: json_env
  re_from_slice :: "u8 list \<Rightarrow> json option"
  re_serde :: snapshot_serde
  re_table_id :: "string \<Rightarrow> table_id"

record data_dir =
  dd_snapshots :: files
  dd_logs :: files

text \<open>\<open>collect\<close> of pairs into a hash map: a later pair replaces an earlier one.\<close>

definition collect_values :: "(string \<times> json) list \<Rightarrow> row_values" where
  "collect_values kvs = hm_extend [] (json_to_values kvs)"

definition saved_tables :: "recovery_env \<Rightarrow> engine \<Rightarrow> (string \<times> (u64 \<times> (string \<times> json) list) list) list" where
  "saved_tables v eng =
     map (\<lambda>nm. (nm, sort_key fst (map (\<lambda>r. (row_id r, map (\<lambda>(k, x). (k, value_to_json (re_json v) x)) (row_values r)))
           (case engine_scan nm eng of Inr rows \<Rightarrow> rows | Inl _ \<Rightarrow> [])))) (engine_table_names eng)"

definition save_snapshot :: "recovery_env \<Rightarrow> engine \<Rightarrow> files \<Rightarrow> (snapshot_error + string) \<times> files" where
  "save_snapshot v eng fs = create_snapshot (re_serde v) (saved_tables v eng) [] 0 fs"

definition ensure_table :: "recovery_env \<Rightarrow> string \<Rightarrow> row_values \<Rightarrow> engine \<Rightarrow> engine" where
  "ensure_table v nm sample eng =
     (if engine_table_exists nm eng then eng
      else snd (engine_create_table (infer_schema (re_table_id v nm) nm sample) eng))"

definition restore_row :: "string \<Rightarrow> snapshot_row \<Rightarrow> engine \<times> nat \<Rightarrow> engine \<times> nat" where
  "restore_row nm r x =
     (case engine_insert_preserving_id nm \<lparr> row_id = sr_id r, row_values = collect_values (sr_values r) \<rparr> (fst x) of
        (Inr _, eng) \<Rightarrow> (eng, snd x + 1)
      | (Inl _, eng) \<Rightarrow> (eng, snd x))"

definition restore_table :: "recovery_env \<Rightarrow> snapshot_table \<Rightarrow> engine \<times> nat \<times> nat \<Rightarrow> engine \<times> nat \<times> nat" where
  "restore_table v t x =
     (let (eng, tables_restored, rows_restored) = x;
          sample = (case st_rows t of r # _ \<Rightarrow> collect_values (sr_values r) | [] \<Rightarrow> []);
          eng = ensure_table v (st_name t) sample eng;
          (eng, rows_restored) = fold (restore_row (st_name t)) (sort_key sr_id (st_rows t)) (eng, rows_restored) in
      (eng, tables_restored + 1, rows_restored))"

definition entry_values :: "recovery_env \<Rightarrow> wal_entry \<Rightarrow> row_values" where
  "entry_values v en =
     (case re_from_slice v (we_data en) of Some (JObject kvs) \<Rightarrow> collect_values kvs | _ \<Rightarrow> [])"

definition local_id :: "wal_entry \<Rightarrow> row_id" where
  "local_id en = we_row_id en AND LOCAL_MASK"

definition replay_entry :: "recovery_env \<Rightarrow> u64 \<Rightarrow> wal_entry \<Rightarrow> engine \<times> nat \<Rightarrow> engine \<times> nat" where
  "replay_entry v snap_seq en x =
     (if we_sequence en \<le> snap_seq then x
      else
        (case we_type en of
           EInsert \<Rightarrow>
             (case engine_insert_preserving_id (we_table en) \<lparr> row_id = local_id en, row_values = entry_values v en \<rparr>
                     (ensure_table v (we_table en) (entry_values v en) (fst x)) of
                (Inr _, eng) \<Rightarrow> (eng, snd x + 1)
              | (Inl _, eng) \<Rightarrow> (eng, snd x))
         | EUpdate \<Rightarrow> (snd (engine_update (we_table en) (local_id en) (entry_values v en) (fst x)), snd x + 1)
         | EDelete \<Rightarrow> (snd (engine_delete (we_table en) (local_id en) (fst x)), snd x + 1)
         | _ \<Rightarrow> x))"

definition LEGACY_LOG :: string where "LEGACY_LOG = ''wal.log''"

definition shards_for_mode :: nat where "shards_for_mode = 16"

definition shard_log :: "nat \<Rightarrow> string" where
  "shard_log i = ''wal_'' @ pad2 i @ ''.log''"

definition log_names :: "string list" where
  "log_names = LEGACY_LOG # map shard_log [0..<shards_for_mode]"

text \<open>One log file: opening an empty one writes its header; one that cannot be read is passed over.\<close>

definition log_entries :: "recovery_env \<Rightarrow> wal \<Rightarrow> wal_entry list" where
  "log_entries v w = (case read_all (re_crc v) w of Inr es \<Rightarrow> es | Inl _ \<Rightarrow> [])"

definition replay_file :: "recovery_env \<Rightarrow> u64 \<Rightarrow> string \<Rightarrow> files \<times> engine \<times> nat \<Rightarrow> files \<times> engine \<times> nat" where
  "replay_file v snap_seq name x =
     (let (logs, eng, replayed) = x in
      case hm_get logs name of
        None \<Rightarrow> x
      | Some content \<Rightarrow>
          (case wal_open (re_crc v) content of
             Inl _ \<Rightarrow> x
           | Inr w \<Rightarrow>
               (hm_insert name (wal_file w) logs,
                fold (replay_entry v snap_seq) (log_entries v w) (eng, replayed))))"

definition recover :: "recovery_env \<Rightarrow> engine \<Rightarrow> data_dir \<Rightarrow> (snapshot_error + nat \<times> nat \<times> nat) \<times> engine \<times> data_dir" where
  "recover v eng dd =
     (case load_latest (re_serde v) (dd_snapshots dd) of
        Inl e \<Rightarrow> (Err e, eng, dd)
      | Inr snap \<Rightarrow>
          (let (eng, tables_restored, rows_restored) =
                 (case snap of
                    Some (sn, _) \<Rightarrow> fold (restore_table v) (sn_tables sn) (eng, 0, 0)
                  | None \<Rightarrow> (eng, 0, 0));
               snap_seq = (case snap of Some (_, q) \<Rightarrow> q | None \<Rightarrow> 0);
               (logs, eng, replayed) = fold (replay_file v snap_seq) log_names (dd_logs dd, eng, 0) in
           (Ok (tables_restored, rows_restored, replayed), eng, dd \<lparr> dd_logs := logs \<rparr>)))"

definition truncate_log :: "recovery_env \<Rightarrow> string \<Rightarrow> files \<Rightarrow> files" where
  "truncate_log v name logs =
     (case hm_get logs name of
        None \<Rightarrow> logs
      | Some content \<Rightarrow>
          (case wal_open (re_crc v) content of
             Inl _ \<Rightarrow> logs
           | Inr w \<Rightarrow> hm_insert name (wal_file (wal_truncate w)) logs))"

definition offline_rotate :: "recovery_env \<Rightarrow> data_dir \<Rightarrow> (snapshot_error + string) \<times> data_dir" where
  "offline_rotate v dd =
     (case recover v engine_new dd of
        (Inl e, _, dd) \<Rightarrow> (Err e, dd)
      | (Inr _, eng, dd) \<Rightarrow>
          (case save_snapshot v eng (dd_snapshots dd) of
             (Inl e, snaps) \<Rightarrow> (Err e, dd \<lparr> dd_snapshots := snaps \<rparr>)
           | (Inr path, snaps) \<Rightarrow>
               (Ok path, dd \<lparr> dd_logs := fold (truncate_log v) log_names (dd_logs dd),
                              dd_snapshots := snd (prune 3 snaps) \<rparr>)))"
section \<open>What replaying means\<close>

text \<open>
  The rows of an engine as a map from table and identifier to the values of the row. Replaying
  an insertion never replaces a row that is there, an update merges, a deletion removes.
\<close>

type_synonym row_map = "string \<times> row_id \<rightharpoonup> (string \<rightharpoonup> val)"

definition engine_rows :: "engine \<Rightarrow> row_map" where
  "engine_rows eng = (\<lambda>(nm, i). case hm_get (e_tables eng) nm of
     None \<Rightarrow> None | Some t \<Rightarrow> map_option (\<lambda>r. hm_get (row_values r)) (hm_get (t_rows t) i))"

definition put_row :: "string \<times> row_id \<Rightarrow> (string \<rightharpoonup> val) \<Rightarrow> row_map \<Rightarrow> row_map" where
  "put_row k vals m = (if m k = None then m(k \<mapsto> vals) else m)"

definition entry_key :: "wal_entry \<Rightarrow> string \<times> row_id" where
  "entry_key en = (we_table en, local_id en)"

definition spec_entry :: "recovery_env \<Rightarrow> wal_entry \<Rightarrow> row_map \<Rightarrow> row_map" where
  "spec_entry v en m =
     (case we_type en of
        EInsert \<Rightarrow> put_row (entry_key en) (hm_get (entry_values v en)) m
      | EUpdate \<Rightarrow> m(entry_key en := map_option (\<lambda>x. x ++ hm_get (entry_values v en)) (m (entry_key en)))
      | EDelete \<Rightarrow> m(entry_key en := None)
      | _ \<Rightarrow> m)"

definition snapshot_rows :: "snapshot \<Rightarrow> row_map" where
  "snapshot_rows sn =
     fold (\<lambda>t. fold (\<lambda>r. put_row (st_name t, sr_id r) (hm_get (collect_values (sr_values r)))) (sort_key sr_id (st_rows t)))
       (sn_tables sn) (\<lambda>_. None)"

text \<open>Tables that recovery creates have no unique columns, so nothing is refused on them.\<close>

definition plain_engine :: "engine \<Rightarrow> bool" where
  "plain_engine eng \<longleftrightarrow> (\<forall>nm t. hm_get (e_tables eng) nm = Some t \<longrightarrow> uniq_cols t = [])"

lemma plain_engine_new [simp]: "plain_engine engine_new" "engine_rows engine_new = (\<lambda>_. None)"
  by (auto simp: plain_engine_def engine_rows_def engine_new_def)

lemma collect_values_wf [simp]: "hm_wf (collect_values kvs)"
  unfolding collect_values_def by (rule hm_wf_extend) simp

lemma entry_values_wf [simp]: "hm_wf (entry_values v en)"
  by (auto simp: entry_values_def simp del: distinct_map split: option.split json.split)

lemma infer_schema_plain: "filter (\<lambda>c. primary_key c \<or> col_unique c) (ts_columns (infer_schema tid nm sample)) = []"
  using infer_schema_columns [of _ tid nm sample] by (auto simp: filter_empty_conv)

lemma infer_schema_name: "ts_name (infer_schema tid nm sample) = nm"
proof -
  have "ts_name (fold (\<lambda>k s. with_column s (f k)) ks s) = ts_name s" for f :: "string \<Rightarrow> column_def" and ks s
    by (induction ks arbitrary: s) (simp_all add: with_column_def)
  then show ?thesis by (simp add: infer_schema_def with_column_def schema_new_def)
qed

lemma ensure_table_plain:
  assumes "plain_engine eng"
  shows "plain_engine (ensure_table v nm sample eng) \<and> engine_rows (ensure_table v nm sample eng) = engine_rows eng \<and>
    hm_get (e_tables (ensure_table v nm sample eng)) nm \<noteq> None"
proof (cases "hm_get (e_tables eng) nm")
  case None
  then show ?thesis using assms infer_schema_plain [of "re_table_id v nm" nm sample]
    by (auto simp: ensure_table_def engine_table_exists_def engine_create_table_def infer_schema_name hm_simps
        plain_engine_def engine_rows_def uniq_cols_def table_new_def fun_eq_iff
        simp del: map_of_eq_Some_iff split: option.splits if_splits)
qed (simp add: ensure_table_def engine_table_exists_def assms)

lemma plain_put:
  assumes "plain_engine eng" and "uniq_cols t = []"
  shows "plain_engine (eng \<lparr> e_tables := hm_insert nm t (e_tables eng) \<rparr>)"
  using assms by (auto simp: plain_engine_def hm_simps simp del: map_of_eq_Some_iff split: if_splits)

lemma engine_rows_put:
  "engine_rows (eng \<lparr> e_tables := hm_insert nm t (e_tables eng) \<rparr>) =
     (\<lambda>(n, i). if n = nm then map_option (\<lambda>r. hm_get (row_values r)) (hm_get (t_rows t) i) else engine_rows eng (n, i))"
  by (auto simp: engine_rows_def hm_simps fun_eq_iff simp del: map_of_eq_Some_iff)

lemma uniq_cols_rows [simp]: "uniq_cols (t \<lparr> t_rows := rs \<rparr>) = uniq_cols t" "uniq_cols (t \<lparr> t_next_id := n \<rparr>) = uniq_cols t"
  by (simp_all add: uniq_cols_def)

lemma insert_preserving_plain:
  assumes "plain_engine eng" and "hm_get (e_tables eng) nm = Some t"
  shows "plain_engine (snd (engine_insert_preserving_id nm r eng)) \<and>
    engine_rows (snd (engine_insert_preserving_id nm r eng)) = put_row (nm, row_id r) (hm_get (row_values r)) (engine_rows eng)"
proof -
  have u: "uniq_cols t = []" using assms by (simp add: plain_engine_def)
  obtain res t' where ins: "table_insert_preserving_id r t = (res, t')" by fastforce
  then have t': "t' = (if hm_contains (t_rows t) (row_id r) then t
      else (if t_next_id t \<le> row_id r then t \<lparr> t_next_id := row_id r + 1 \<rparr> else t)
        \<lparr> t_rows := hm_insert (row_id r) r (t_rows t) \<rparr>)"
    by (auto simp: table_insert_preserving_id_def u Let_def split: if_splits)
  have "snd (engine_insert_preserving_id nm r eng) = eng \<lparr> e_tables := hm_insert nm t' (e_tables eng) \<rparr>"
    using assms(2) ins by (simp add: engine_insert_preserving_id_def with_table_def engine_table_def)
  moreover have "uniq_cols t' = []" using u by (simp add: t')
  ultimately show ?thesis
    using assms plain_put [OF assms(1)]
    by (auto simp: engine_rows_put put_row_def t' fun_eq_iff engine_rows_def hm_simps
        simp del: map_of_eq_Some_iff split: option.splits if_splits)
qed
lemma hm_get_extend_add: "hm_wf new \<Longrightarrow> hm_get (hm_extend m new) = hm_get m ++ hm_get new"
  by (auto simp: fun_eq_iff map_add_def hm_get_extend simp del: map_of_eq_Some_iff split: option.split)

lemma update_plain:
  assumes "plain_engine eng" and "hm_wf vals"
  shows "plain_engine (snd (engine_update nm i vals eng)) \<and>
    engine_rows (snd (engine_update nm i vals eng)) =
      (engine_rows eng)((nm, i) := map_option (\<lambda>x. x ++ hm_get vals) (engine_rows eng (nm, i)))"
proof (cases "hm_get (e_tables eng) nm")
  case None
  then have "engine_rows eng (nm, i) = None" by (simp add: engine_rows_def)
  with None assms(1) show ?thesis
    by (auto simp: engine_update_def with_table_def engine_table_def fun_eq_iff)
next
  case (Some t)
  have u: "uniq_cols t = []" using assms(1) Some by (simp add: plain_engine_def)
  obtain res t' where upd: "table_update i vals t = (res, t')" by fastforce
  then have t': "t' = (case hm_get (t_rows t) i of None \<Rightarrow> t
      | Some cur \<Rightarrow> t \<lparr> t_rows := hm_insert i (cur \<lparr> row_values := hm_extend (row_values cur) vals \<rparr>) (t_rows t) \<rparr>)"
    by (auto simp: table_update_def u uniq_pairs_def map_filter_simps Let_def simp del: map_of_eq_Some_iff split: option.splits)
  have "snd (engine_update nm i vals eng) = eng \<lparr> e_tables := hm_insert nm t' (e_tables eng) \<rparr>"
    using Some upd by (simp add: engine_update_def with_table_def engine_table_def)
  moreover have "uniq_cols t' = []" using u by (simp add: t' split: option.split)
  moreover have "engine_rows eng (nm, j) = map_option (\<lambda>r. hm_get (row_values r)) (hm_get (t_rows t) j)" for j
    by (simp add: engine_rows_def Some)
  ultimately show ?thesis
    using plain_put [OF assms(1)]
    by (auto simp: engine_rows_put t' fun_eq_iff hm_simps hm_get_extend_add [OF assms(2)]
        simp del: map_of_eq_Some_iff split: option.splits if_splits)
qed

lemma delete_plain:
  assumes "plain_engine eng"
  shows "plain_engine (snd (engine_delete nm i eng)) \<and>
    engine_rows (snd (engine_delete nm i eng)) = (engine_rows eng)((nm, i) := None)"
proof (cases "hm_get (e_tables eng) nm")
  case None
  then have "engine_rows eng (nm, i) = None" by (simp add: engine_rows_def)
  with None assms show ?thesis
    by (auto simp: engine_delete_def engine_take_def with_table_def engine_table_def fun_eq_iff)
next
  case (Some t)
  have u: "uniq_cols t = []" using assms Some by (simp add: plain_engine_def)
  obtain res t' where tk: "table_take i t = (res, t')" by fastforce
  then have t': "t' = (case hm_get (t_rows t) i of None \<Rightarrow> t | Some _ \<Rightarrow> t \<lparr> t_rows := hm_remove i (t_rows t) \<rparr>)"
    by (auto simp: table_take_def u simp del: map_of_eq_Some_iff split: option.splits)
  have "snd (engine_delete nm i eng) = eng \<lparr> e_tables := hm_insert nm t' (e_tables eng) \<rparr>"
    using Some tk by (simp add: engine_delete_def engine_take_def with_table_def engine_table_def split: sum.split)
  moreover have "uniq_cols t' = []" using u by (simp add: t' split: option.split)
  moreover have "engine_rows eng (nm, j) = map_option (\<lambda>r. hm_get (row_values r)) (hm_get (t_rows t) j)" for j
    by (simp add: engine_rows_def Some)
  ultimately show ?thesis
    using plain_put [OF assms]
    by (auto simp: engine_rows_put t' fun_eq_iff hm_simps simp del: map_of_eq_Some_iff split: option.splits if_splits)
qed

lemma replay_entry_refines:
  assumes "plain_engine (fst x)" and "snap_seq < we_sequence en"
  shows "plain_engine (fst (replay_entry v snap_seq en x)) \<and>
    engine_rows (fst (replay_entry v snap_seq en x)) = spec_entry v en (engine_rows (fst x))"
proof (cases "we_type en")
  case EInsert
  let ?eng = "ensure_table v (we_table en) (entry_values v en) (fst x)"
  note ens = ensure_table_plain [OF assms(1), of v "we_table en" "entry_values v en"]
  then obtain t where t: "hm_get (e_tables ?eng) (we_table en) = Some t" by auto
  have "fst (replay_entry v snap_seq en x) = snd (engine_insert_preserving_id (we_table en)
      \<lparr> row_id = local_id en, row_values = entry_values v en \<rparr> ?eng)"
    using EInsert assms(2) by (simp add: replay_entry_def split: prod.split sum.split)
  then show ?thesis
    using insert_preserving_plain [OF _ t, of "\<lparr> row_id = local_id en, row_values = entry_values v en \<rparr>"] ens EInsert
    by (simp add: spec_entry_def entry_key_def)
qed (use assms assms(2) [unfolded not_le [symmetric]] update_plain [OF assms(1), of "entry_values v en"] delete_plain [OF assms(1)]
    in \<open>simp_all add: replay_entry_def spec_entry_def entry_key_def del: distinct_map\<close>)

lemma replay_refines:
  assumes "plain_engine (fst x)" and "\<forall>en \<in> set es. snap_seq < we_sequence en"
  shows "plain_engine (fst (fold (replay_entry v snap_seq) es x)) \<and>
    engine_rows (fst (fold (replay_entry v snap_seq) es x)) = fold (spec_entry v) es (engine_rows (fst x))"
  using assms
proof (induction es arbitrary: x)
  case (Cons en es)
  then show ?case
    using replay_entry_refines [of x snap_seq en v] Cons.IH [of "replay_entry v snap_seq en x"] by simp
qed simp

lemma restore_row_refines:
  assumes "plain_engine (fst x)" and "hm_get (e_tables (fst x)) nm \<noteq> None"
  shows "plain_engine (fst (restore_row nm r x)) \<and> hm_get (e_tables (fst (restore_row nm r x))) nm \<noteq> None \<and>
    engine_rows (fst (restore_row nm r x)) = put_row (nm, sr_id r) (hm_get (collect_values (sr_values r))) (engine_rows (fst x))"
proof -
  obtain t where t: "hm_get (e_tables (fst x)) nm = Some t" using assms(2) by auto
  have "fst (restore_row nm r x) = snd (engine_insert_preserving_id nm
      \<lparr> row_id = sr_id r, row_values = collect_values (sr_values r) \<rparr> (fst x))"
    by (simp add: restore_row_def split: prod.split sum.split)
  moreover have "hm_get (e_tables (snd (engine_insert_preserving_id nm rr (fst x)))) nm \<noteq> None" for rr
    using t by (auto simp: engine_insert_preserving_id_def with_table_def engine_table_def hm_simps
        simp del: map_of_eq_Some_iff split: prod.split)
  ultimately show ?thesis
    using insert_preserving_plain [OF assms(1) t, of "\<lparr> row_id = sr_id r, row_values = collect_values (sr_values r) \<rparr>"]
    by simp
qed

lemma restore_rows_refine:
  assumes "plain_engine (fst x)" and "hm_get (e_tables (fst x)) nm \<noteq> None"
  shows "plain_engine (fst (fold (restore_row nm) rs x)) \<and>
    engine_rows (fst (fold (restore_row nm) rs x)) =
      fold (\<lambda>r. put_row (nm, sr_id r) (hm_get (collect_values (sr_values r)))) rs (engine_rows (fst x))"
  using assms
proof (induction rs arbitrary: x)
  case (Cons r rs)
  then show ?case using restore_row_refines [of x nm r] Cons.IH [of "restore_row nm r x"] by simp
qed simp

lemma restore_tables_refine:
  assumes "plain_engine (fst x)"
  shows "plain_engine (fst (fold (restore_table v) ts x)) \<and>
    engine_rows (fst (fold (restore_table v) ts x)) =
      fold (\<lambda>t. fold (\<lambda>r. put_row (st_name t, sr_id r) (hm_get (collect_values (sr_values r)))) (sort_key sr_id (st_rows t)))
        ts (engine_rows (fst x))"
  using assms
proof (induction ts arbitrary: x)
  case (Cons t ts)
  obtain eng a b where x: "x = (eng, a, b)" by (cases x)
  define sample where "sample = (case st_rows t of r # _ \<Rightarrow> collect_values (sr_values r) | [] \<Rightarrow> [])"
  note ens = ensure_table_plain [of eng v "st_name t" sample]
  have "fst (restore_table v t x) = fst (fold (restore_row (st_name t)) (sort_key sr_id (st_rows t)) (ensure_table v (st_name t) sample eng, b))"
    by (simp add: restore_table_def x sample_def Let_def split: prod.split)
  then have "plain_engine (fst (restore_table v t x)) \<and> engine_rows (fst (restore_table v t x)) =
      fold (\<lambda>r. put_row (st_name t, sr_id r) (hm_get (collect_values (sr_values r)))) (sort_key sr_id (st_rows t)) (engine_rows eng)"
    using Cons.prems ens restore_rows_refine [of "(ensure_table v (st_name t) sample eng, b)" "st_name t"] by (simp add: x)
  then show ?case using Cons.IH [of "restore_table v t x"] by (simp add: x)
qed simp
section \<open>Replaying over a snapshot\<close>

text \<open>Every insertion in the log is the first entry of its row: identifiers are never reused.\<close>

fun fresh_after :: "(string \<times> row_id) set \<Rightarrow> wal_entry list \<Rightarrow> bool" where
  "fresh_after K [] \<longleftrightarrow> True"
| "fresh_after K (en # es) \<longleftrightarrow>
     (we_type en = EInsert \<longrightarrow> entry_key en \<notin> K) \<and> fresh_after (insert (entry_key en) K) es"

abbreviation fresh_inserts :: "wal_entry list \<Rightarrow> bool" where
  "fresh_inserts es \<equiv> fresh_after {} es"

text \<open>What the entries of one row do to it.\<close>

definition row_step :: "recovery_env \<Rightarrow> wal_entry \<Rightarrow> (string \<rightharpoonup> val) option \<Rightarrow> (string \<rightharpoonup> val) option" where
  "row_step v en x =
     (case we_type en of
        EInsert \<Rightarrow> (case x of None \<Rightarrow> Some (hm_get (entry_values v en)) | Some y \<Rightarrow> Some y)
      | EUpdate \<Rightarrow> map_option (\<lambda>y. y ++ hm_get (entry_values v en)) x
      | EDelete \<Rightarrow> None
      | _ \<Rightarrow> x)"

lemma row_step_simps [simp]:
  "we_type en = EInsert \<Longrightarrow> row_step v en None = Some (hm_get (entry_values v en))"
  "we_type en = EInsert \<Longrightarrow> row_step v en (Some y) = Some y"
  "we_type en = EUpdate \<Longrightarrow> row_step v en x = map_option (\<lambda>y. y ++ hm_get (entry_values v en)) x"
  "we_type en = EDelete \<Longrightarrow> row_step v en x = None"
  "we_type en = ECommit \<Longrightarrow> row_step v en x = x"
  "we_type en = ERollback \<Longrightarrow> row_step v en x = x"
  by (simp_all add: row_step_def)

lemma fold_spec_row:
  "fold (spec_entry v) es m k = fold (row_step v) (filter (\<lambda>en. entry_key en = k) es) (m k)"
  by (induction es arbitrary: m) (auto simp: spec_entry_def put_row_def row_step_def split: entry_type.split option.split)

lemma no_insert_None: "EInsert \<notin> we_type ` set es \<Longrightarrow> fold (row_step v) es None = None"
  by (induction es) (auto simp: row_step_def split: entry_type.split)

lemma updates_add:
  assumes "EInsert \<notin> we_type ` set es" and "EDelete \<notin> we_type ` set es"
  shows "\<exists>u. \<forall>y. fold (row_step v) es (Some y) = Some (y ++ u)"
  using assms
proof (induction es)
  case Nil
  show ?case by (rule exI [of _ "\<lambda>_. None"]) (simp add: map_add_def fun_eq_iff)
next
  case (Cons en es)
  then obtain u where u: "fold (row_step v) es (Some y) = Some (y ++ u)" for y by auto
  show ?case
  proof (cases "we_type en")
    case EUpdate
    then show ?thesis using u by (intro exI [of _ "hm_get (entry_values v en) ++ u"]) (simp add: map_add_assoc)
  qed (use Cons.prems u in \<open>auto intro!: exI [of _ u]\<close>)
qed

lemma deleted_None:
  assumes "EInsert \<notin> we_type ` set es" and "EDelete \<in> we_type ` set es"
  shows "fold (row_step v) es x = None"
proof -
  obtain en where en: "en \<in> set es" "we_type en = EDelete" using assms(2) by auto
  then obtain xs ys where es: "es = xs @ en # ys" by (meson split_list)
  have "fold (row_step v) ys None = None" using assms(1) es by (intro no_insert_None) auto
  with en es show ?thesis by simp
qed

lemma insert_then_rest:
  assumes "we_type en = EInsert" and "EInsert \<notin> we_type ` set es"
  shows "fold (row_step v) (en # es) (fold (row_step v) (en # es) None) = fold (row_step v) (en # es) None"
proof (cases "EDelete \<in> we_type ` set es")
  case True
  then show ?thesis by (simp add: deleted_None [OF assms(2)])
next
  case False
  then obtain u where "fold (row_step v) es (Some y) = Some (y ++ u)" for y
    using updates_add [OF assms(2)] by blast
  then show ?thesis using assms(1) by (simp add: map_add_assoc [symmetric] map_add_def fun_eq_iff split: option.split)
qed

lemma fresh_after_filter:
  assumes "fresh_after K es"
  shows "(k \<in> K \<longrightarrow> EInsert \<notin> we_type ` set (filter (\<lambda>en. entry_key en = k) es)) \<and>
    (\<forall>en ys. filter (\<lambda>en. entry_key en = k) es = en # ys \<longrightarrow> EInsert \<notin> we_type ` set ys)"
  using assms
proof (induction es arbitrary: K)
  case (Cons e es)
  then show ?case using Cons.IH [of "insert (entry_key e) K"] by (auto split: if_splits)
qed simp

lemma fresh_after_append: "fresh_after K (xs @ ys) \<Longrightarrow> fresh_after K xs"
  by (induction xs arbitrary: K) auto

lemma refold_row:
  assumes "fresh_inserts es"
  shows "fold (row_step v) (filter (\<lambda>en. entry_key en = k) es) (fold (row_step v) (filter (\<lambda>en. entry_key en = k) es) None) =
    fold (row_step v) (filter (\<lambda>en. entry_key en = k) es) None"
proof (cases "filter (\<lambda>en. entry_key en = k) es")
  case (Cons en ys)
  then have rest: "EInsert \<notin> we_type ` set ys" using fresh_after_filter [OF assms, of k] by blast
  show ?thesis
  proof (cases "we_type en = EInsert")
    case True
    then show ?thesis unfolding Cons by (rule insert_then_rest [OF _ rest])
  next
    case False
    with rest have "EInsert \<notin> we_type ` set (en # ys)" by auto
    from no_insert_None [OF this] show ?thesis unfolding Cons by simp
  qed
qed simp

text \<open>
  The snapshot may have caught every row at a moment of its own, as tables are scanned one after
  the other while requests go on.
\<close>

lemma replay_over_snapshot:
  assumes "fresh_inserts es" and "\<And>k. \<exists>xs ys. es = xs @ ys \<and> m k = fold (spec_entry v) xs (\<lambda>_. None) k"
  shows "fold (spec_entry v) es m = fold (spec_entry v) es (\<lambda>_. None)"
proof
  fix k
  obtain xs ys where es: "es = xs @ ys" and mk: "m k = fold (spec_entry v) xs (\<lambda>_. None) k" using assms(2) by blast
  have "fold (row_step v) (filter (\<lambda>en. entry_key en = k) xs) (m k) = m k"
    unfolding mk fold_spec_row by (rule refold_row) (use assms(1) es fresh_after_append in blast)
  then show "fold (spec_entry v) es m k = fold (spec_entry v) es (\<lambda>_. None) k"
    unfolding fold_spec_row es by (simp add: mk [unfolded fold_spec_row])
qed
section \<open>Recovery\<close>

definition file_entries :: "recovery_env \<Rightarrow> files \<Rightarrow> string \<Rightarrow> wal_entry list" where
  "file_entries v logs name =
     (case hm_get logs name of
        None \<Rightarrow> []
      | Some content \<Rightarrow> (case wal_open (re_crc v) content of Inl _ \<Rightarrow> [] | Inr w \<Rightarrow> log_entries v w))"

definition dir_entries :: "recovery_env \<Rightarrow> files \<Rightarrow> wal_entry list" where
  "dir_entries v logs = concat (map (file_entries v logs) log_names)"

lemma distinct_log_names: "distinct log_names"
  by code_simp

lemma replay_file_eq:
  "\<exists>logs'. replay_file v q name (logs, x) = (logs', fold (replay_entry v q) (file_entries v logs name) x) \<and>
     (\<forall>n. n \<noteq> name \<longrightarrow> file_entries v logs' n = file_entries v logs n)"
proof (cases "hm_get logs name")
  case (Some content)
  show ?thesis
  proof (cases "wal_open (re_crc v) content")
    case (Inr w)
    have "file_entries v (hm_insert name c logs) n = file_entries v logs n" if "n \<noteq> name" for n c
      using that by (simp add: file_entries_def hm_simps)
    with Some Inr show ?thesis
      by (cases x) (auto simp: replay_file_def file_entries_def Let_def simp del: map_of_eq_Some_iff)
  qed (use Some in \<open>cases x, simp add: replay_file_def file_entries_def\<close>)
qed (cases x, simp add: replay_file_def file_entries_def)

lemma replay_files_eq:
  assumes "distinct names"
  shows "snd (fold (replay_file v q) names (logs, x)) =
    fold (replay_entry v q) (concat (map (file_entries v logs) names)) x"
  using assms
proof (induction names arbitrary: logs x)
  case (Cons name names)
  obtain logs' where step: "replay_file v q name (logs, x) = (logs', fold (replay_entry v q) (file_entries v logs name) x)"
    and same: "\<forall>n. n \<noteq> name \<longrightarrow> file_entries v logs' n = file_entries v logs n"
    using replay_file_eq by blast
  have "map (file_entries v logs') names = map (file_entries v logs) names" using same Cons.prems by auto
  then have "concat (map (file_entries v logs') names) = concat (map (file_entries v logs) names)" by (rule arg_cong)
  with Cons.IH [of logs' "fold (replay_entry v q) (file_entries v logs name) x"] Cons.prems step show ?case
    by (simp del: map_eq_conv)
qed simp

lemma recover_rows:
  assumes "load_latest (re_serde v) (dd_snapshots dd) = Ok snap" and "plain_engine eng"
    and "case snap of None \<Rightarrow> q = 0 | Some (_, q') \<Rightarrow> q = q'"
    and "\<forall>en \<in> set (dir_entries v (dd_logs dd)). q < we_sequence en"
  shows "\<exists>n eng' dd'. recover v eng dd = (Ok n, eng', dd') \<and> plain_engine eng' \<and>
    engine_rows eng' = fold (spec_entry v) (dir_entries v (dd_logs dd))
      (case snap of None \<Rightarrow> engine_rows eng
       | Some (sn, _) \<Rightarrow> fold (\<lambda>t. fold (\<lambda>r. put_row (st_name t, sr_id r) (hm_get (collect_values (sr_values r))))
           (sort_key sr_id (st_rows t))) (sn_tables sn) (engine_rows eng))"
proof -
  obtain eng1 tr rr where restored: "(case snap of Some (sn, _) \<Rightarrow> fold (restore_table v) (sn_tables sn) (eng, 0, 0)
      | None \<Rightarrow> (eng, 0, 0)) = (eng1, tr, rr)" by (metis prod_cases3)
  have q: "(case snap of Some (_, q) \<Rightarrow> q | None \<Rightarrow> 0) = q"
    using assms(3) by (auto split: option.splits)
  obtain logs eng2 n where replayed: "fold (replay_file v q) log_names (dd_logs dd, eng1, 0) = (logs, eng2, n)"
    by (metis prod_cases3)
  have "(eng2, n) = fold (replay_entry v q) (dir_entries v (dd_logs dd)) (eng1, 0)"
    using replay_files_eq [OF distinct_log_names, of v q "dd_logs dd" "(eng1, 0)"] replayed by (simp add: dir_entries_def)
  moreover have "plain_engine eng1"
    "engine_rows eng1 = (case snap of None \<Rightarrow> engine_rows eng
       | Some (sn, _) \<Rightarrow> fold (\<lambda>t. fold (\<lambda>r. put_row (st_name t, sr_id r) (hm_get (collect_values (sr_values r))))
           (sort_key sr_id (st_rows t))) (sn_tables sn) (engine_rows eng))"
    using restored restore_tables_refine [of "(eng, 0, 0)" v, unfolded fst_conv, OF assms(2)] assms(2)
    by (metis (no_types, lifting) case_prod_beta fst_conv option.case_eq_if)+
  ultimately show ?thesis
    using assms(1,4) restored replayed q replay_refines [of "(eng1, 0)" "dir_entries v (dd_logs dd)" q v]
    by (auto simp: recover_def Let_def dest: sym)
qed

text \<open>
  C17: Recovery from a snapshot and the log gives what the whole log gives: when every insertion in
  the log files is the first entry of its row, and the snapshot holds every row as some prefix of
  the log left it - each row its own prefix, since tables are scanned one after the other while
  requests go on -, recovering ends with exactly the rows that replaying the log on an empty
  database gives. Nothing is applied twice and nothing is lost.
\<close>

theorem recovery_exact:
  assumes "load_latest (re_serde v) (dd_snapshots dd) = Ok (Some (sn, q))"
    and "\<forall>en \<in> set (dir_entries v (dd_logs dd)). q < we_sequence en"
    and "fresh_inserts (dir_entries v (dd_logs dd))"
    and "\<And>k. \<exists>xs ys. dir_entries v (dd_logs dd) = xs @ ys \<and>
           snapshot_rows sn k = fold (spec_entry v) xs (\<lambda>_. None) k"
  shows "\<exists>n eng dd'. recover v engine_new dd = (Ok n, eng, dd') \<and>
    engine_rows eng = fold (spec_entry v) (dir_entries v (dd_logs dd)) (\<lambda>_. None)"
proof -
  have "fold (spec_entry v) (dir_entries v (dd_logs dd)) (snapshot_rows sn) =
      fold (spec_entry v) (dir_entries v (dd_logs dd)) (\<lambda>_. None)"
    by (rule replay_over_snapshot [OF assms(3,4)])
  with recover_rows [OF assms(1) plain_engine_new(1), of q] assms(2) show ?thesis
    by (auto simp: snapshot_rows_def)
qed

section \<open>Saving\<close>

lemma fold_put_row:
  "fold (\<lambda>x. put_row (key x) (f x)) xs m k =
     (case m k of Some y \<Rightarrow> Some y | None \<Rightarrow> map_of (map (\<lambda>x. (key x, f x)) xs) k)"
  by (induction xs arbitrary: m) (auto simp: put_row_def split: option.split)

lemma map_of_rows:
  "map_of (map (\<lambda>r. ((nm, idf r), f r)) rs) (n, i) = (if n = nm then map_of (map (\<lambda>r. (idf r, f r)) rs) i else None)"
  by (induction rs) auto

lemma snapshot_rows_eq:
  assumes "distinct (map st_name (sn_tables sn))"
  shows "snapshot_rows sn (n, i) =
    (case map_of (map (\<lambda>t. (st_name t, st_rows t)) (sn_tables sn)) n of
       None \<Rightarrow> None
     | Some rs \<Rightarrow> map_of (map (\<lambda>r. (sr_id r, hm_get (collect_values (sr_values r)))) (sort_key sr_id rs)) i)"
proof -
  have "fold (\<lambda>t. fold (\<lambda>r. put_row (st_name t, sr_id r) (f r)) (sort_key sr_id (st_rows t))) ts m (n, i) =
      (case m (n, i) of Some y \<Rightarrow> Some y | None \<Rightarrow>
        (case map_of (map (\<lambda>t. (st_name t, st_rows t)) ts) n of None \<Rightarrow> None
         | Some rs \<Rightarrow> map_of (map (\<lambda>r. (sr_id r, f r)) (sort_key sr_id rs)) i))"
    if "distinct (map st_name ts)" for ts f and m :: row_map
    using that
  proof (induction ts arbitrary: m)
    case (Cons t ts)
    have "map_of (map (\<lambda>t. (st_name t, st_rows t)) ts) (st_name t) = None"
      using Cons.prems by (auto simp: map_of_eq_None_iff)
    then show ?case using Cons by (auto simp: fold_put_row map_of_rows split: option.split)
  qed (simp split: option.split)
  from this [OF assms] show ?thesis by (simp add: snapshot_rows_def)
qed
definition durable_values :: "row_values \<Rightarrow> bool" where
  "durable_values vals \<longleftrightarrow> (\<forall>(_, x) \<in> set vals. durable x)"

definition durable_engine :: "engine \<Rightarrow> bool" where
  "durable_engine eng \<longleftrightarrow>
     (\<forall>nm t i r. hm_get (e_tables eng) nm = Some t \<longrightarrow> hm_get (t_rows t) i = Some r \<longrightarrow> durable_values (row_values r))"

lemma durable_json: "durable x \<Longrightarrow> json_to_value (value_to_json e x) = x"
proof (cases x)
  case (VJson j)
  then show "durable x \<Longrightarrow> ?thesis" by (cases j) (auto split: option.splits)
qed (auto simp: json_of_i64_def json_of_u64_def json_of_f64_def split: option.splits)

lemma collect_values_json:
  assumes "hm_wf vals" and "durable_values vals"
  shows "hm_get (collect_values (map (\<lambda>(k, x). (k, value_to_json e x)) vals)) = hm_get vals"
proof -
  have "json_to_value (value_to_json e x) = x" if "(k, x) \<in> set vals" for k x
    using assms(2) that durable_json by (auto simp: durable_values_def)
  then have "json_to_values (map (\<lambda>(k, x). (k, value_to_json e x)) vals) = vals"
    by (auto simp: json_to_values_def intro!: map_idI)
  then show ?thesis
    using hm_get_extend [OF assms(1), of "[]"]
    by (auto simp: collect_values_def fun_eq_iff simp del: map_of_eq_Some_iff split: option.splits)
qed
lemma map_of_sort_key:
  assumes "distinct (map f xs)"
  shows "map_of (map (\<lambda>x. (f x, g x)) (sort_key f xs)) = map_of (map (\<lambda>x. (f x, g x)) xs)"
  using assms by (intro map_of_inject_set [THEN iffD2]) (simp_all add: o_def distinct_map)

lemma distinct_sort_map: "distinct (map f (sort_key f xs)) \<longleftrightarrow> distinct (map f xs)"
  by (simp add: distinct_map)

lemma map_of_names: "map_of (map (\<lambda>nm. (nm, g nm)) ks) n = (if n \<in> set ks then Some (g n) else None)"
  by (induction ks) auto

abbreviation json_row :: "recovery_env \<Rightarrow> row \<Rightarrow> u64 \<times> (string \<times> json) list" where
  "json_row v r \<equiv> (row_id r, map (\<lambda>(k, x). (k, value_to_json (re_json v) x)) (row_values r))"

abbreviation snap_row :: "u64 \<times> (string \<times> json) list \<Rightarrow> snapshot_row" where
  "snap_row x \<equiv> \<lparr> sr_id = fst x, sr_values = snd x \<rparr>"

lemma saved_table_rows:
  assumes "table_inv t" and "\<And>i r. hm_get (t_rows t) i = Some r \<Longrightarrow> durable_values (row_values r)"
  shows "map_of (map (\<lambda>r. (sr_id r, hm_get (collect_values (sr_values r))))
      (sort_key sr_id (map snap_row (sort_key fst (map (json_row v) (hm_values (t_rows t))))))) i =
    map_option (\<lambda>r. hm_get (row_values r)) (hm_get (t_rows t) i)"
proof -
  let ?rows = "map (json_row v) (hm_values (t_rows t))"
  have ids: "map row_id (hm_values (t_rows t)) = hm_keys (t_rows t)" and wf: "hm_wf (t_rows t)"
    using assms(1) by (auto simp: table_inv_def)
  have "map fst ?rows = map row_id (hm_values (t_rows t))" by simp
  with ids wf have dist: "distinct (map fst ?rows)" by (simp only:)
  have vals: "hm_get (collect_values (snd (json_row v r))) = hm_get (row_values r)" if "(k, r) \<in> set (t_rows t)" for k r
  proof -
    have "hm_get (t_rows t) k = Some r" using that wf by simp
    then have "hm_wf (row_values r)" "durable_values (row_values r)"
      using assms by (auto simp: table_inv_def row_ok_def simp del: map_of_eq_Some_iff)
    then show ?thesis by (simp add: collect_values_json)
  qed
  have "map_of (map (\<lambda>r. (sr_id r, hm_get (collect_values (sr_values r)))) (sort_key sr_id (map snap_row (sort_key fst ?rows)))) =
      map_of (map (\<lambda>x. (fst x, hm_get (collect_values (snd x)))) (sort_key fst ?rows))"
    using dist distinct_sort_map [of fst ?rows] by (subst map_of_sort_key) (simp_all only: map_map o_def snapshot_row.simps)
  also have "\<dots> = map_of (map (\<lambda>x. (fst x, hm_get (collect_values (snd x)))) ?rows)"
    by (rule map_of_sort_key [OF dist])
  also have "map (\<lambda>x. (fst x, hm_get (collect_values (snd x)))) ?rows = map (\<lambda>(k, r). (k, hm_get (row_values r))) (t_rows t)"
    using vals ids by (auto simp: o_def)
  finally show ?thesis by (simp only: hm_get_map_values)
qed

lemma saved_rows:
  assumes "engine_inv eng" and "durable_engine eng"
  shows "snapshot_rows (snapshot_of_tables (saved_tables v eng) []) = engine_rows eng"
proof (rule ext, clarify)
  fix n i
  let ?rows = "\<lambda>nm. sort_key fst (map (json_row v) (case engine_scan nm eng of Inr rows \<Rightarrow> rows | Inl _ \<Rightarrow> []))"
  let ?snap = "snapshot_of_tables (saved_tables v eng) []"
  have tables: "sn_tables ?snap = map (\<lambda>nm. \<lparr> st_name = nm, st_rows = map snap_row (?rows nm) \<rparr>) (hm_keys (e_tables eng))"
    by (simp add: snapshot_of_tables_def saved_tables_def engine_table_names_def case_prod_beta')
  have "distinct (map st_name (sn_tables ?snap))" using assms(1) by (simp add: tables o_def engine_inv_def)
  note eq = snapshot_rows_eq [OF this, of n i]
  have names: "map_of (map (\<lambda>t. (st_name t, st_rows t)) (sn_tables ?snap)) n =
      (if n \<in> set (hm_keys (e_tables eng)) then Some (map snap_row (?rows n)) else None)"
    using map_of_names [of "\<lambda>nm. map snap_row (?rows nm)" "hm_keys (e_tables eng)" n]
    by (simp add: tables o_def)
  show "snapshot_rows ?snap (n, i) = engine_rows eng (n, i)"
  proof (cases "hm_get (e_tables eng) n")
    case None
    then have "n \<notin> set (hm_keys (e_tables eng))" by (simp add: map_of_eq_None_iff)
    with None names eq show ?thesis by (simp add: engine_rows_def)
  next
    case (Some t)
    then have "n \<in> set (hm_keys (e_tables eng))" by (metis map_of_eq_None_iff option.distinct(1) set_map)
    moreover have "engine_scan n eng = Ok (hm_values (t_rows t))"
      using Some by (simp add: engine_scan_def read_table_def engine_table_def)
    moreover have "table_inv t" using engine_invD [OF assms(1) Some] by simp
    then have "map_of (map (\<lambda>r. (sr_id r, hm_get (collect_values (sr_values r))))
        (sort_key sr_id (map snap_row (sort_key fst (map (json_row v) (hm_values (t_rows t))))))) i =
        map_option (\<lambda>r. hm_get (row_values r)) (hm_get (t_rows t) i)"
      by (rule saved_table_rows) (use assms(2) Some in \<open>simp add: durable_engine_def del: map_of_eq_Some_iff\<close>)
    ultimately show ?thesis using eq names by (simp add: engine_rows_def Some)
  qed
qed
text \<open>
  C18: A snapshot restores a database of durable values: when every value of every row is null, a
  boolean, a 64-bit integer (unsigned ones only beyond the signed range), a finite double, a string or
  a JSON array or object, and the serializer reads back the tables it wrote, then saving the
  tables and recovering from that snapshot alone into an empty engine gives the same rows under
  the same identifiers. Values of the other types (narrow integers, decimals, bytes, UUIDs,
  timestamps, dates, arrays) come back as values of another type.
\<close>

theorem saved_rows_restored:
  assumes "engine_inv eng" and "durable_engine eng"
    and "sd_to_vec (re_serde v) (snapshot_of_tables (saved_tables v eng) []) = Ok data"
    and "sd_from_slice (re_serde v) data = Ok (snapshot_of_tables (saved_tables v eng) [])" and "length data < 2 ^ 64"
    and "save_snapshot v eng [] = (res, snaps)"
  shows "\<exists>n eng' dd'. recover v engine_new \<lparr> dd_snapshots = snaps, dd_logs = [] \<rparr> = (Ok n, eng', dd') \<and>
    engine_rows eng' = engine_rows eng"
proof -
  let ?sn = "snapshot_of_tables (saved_tables v eng) []"
  have "load_latest (re_serde v) snaps = Ok (Some (?sn, 0))"
    using load_created [of "re_serde v" "saved_tables v eng" "[]" data "[]" 0] assms(3-) by (simp add: save_snapshot_def)
  then obtain n eng' dd' where rec: "recover v engine_new \<lparr> dd_snapshots = snaps, dd_logs = [] \<rparr> = (Ok n, eng', dd')"
    and rows: "engine_rows eng' = fold (spec_entry v) (dir_entries v []) (snapshot_rows ?sn)"
    using recover_rows [of v "\<lparr> dd_snapshots = snaps, dd_logs = [] \<rparr>" "Some (?sn, 0)" engine_new 0]
    by (auto simp: dir_entries_def file_entries_def snapshot_rows_def)
  have "dir_entries v [] = []" by (simp add: dir_entries_def file_entries_def)
  with rec rows saved_rows [OF assms(1,2)] show ?thesis by (cases n) auto
qed
section \<open>Examples\<close>

text \<open>A toy serializer that writes an object with at most one string member.\<close>

definition demo_to_vec :: "json \<Rightarrow> u8 list" where
  "demo_to_vec j = (case j of JObject [(k, JString s)] \<Rightarrow> of_nat (length k) # as_bytes k @ as_bytes s | _ \<Rightarrow> [])"

definition demo_from_slice :: "u8 list \<Rightarrow> json option" where
  "demo_from_slice bs =
     (case bs of
        [] \<Rightarrow> None
      | n # rest \<Rightarrow>
          (case (from_utf8 (take (unat n) rest), from_utf8 (drop (unat n) rest)) of
             (Some k, Some s) \<Rightarrow> Some (JObject [(k, JString s)])
           | _ \<Rightarrow> None))"

definition demo_recovery :: recovery_env where
  "demo_recovery = \<lparr> re_crc = (\<lambda>_. 0),
     re_json = \<lparr> je_uuid_text = (\<lambda>_. ''u''), je_rfc3339 = int_text, je_date_text = int_text, je_to_vec = demo_to_vec \<rparr>,
     re_from_slice = demo_from_slice, re_serde = demo_serde, re_table_id = (\<lambda>_. 1) \<rparr>"

definition users_schema :: table_schema where
  "users_schema = with_column (schema_new 1 ''users'') (column_unique (column_new ''email'' TString))"

text \<open>The log of two entries: a user and a second change of the address.\<close>

definition user_entry :: "u64 \<Rightarrow> entry_type \<Rightarrow> u64 \<Rightarrow> string \<Rightarrow> wal_entry" where
  "user_entry n ty i email = \<lparr> we_sequence = n, we_type = ty, we_table = ''users'', we_row_id = i,
     we_data = demo_to_vec (JObject [(''email'', JString email)]) \<rparr>"

definition demo_dir :: "wal_entry list \<Rightarrow> data_dir" where
  "demo_dir es = \<lparr> dd_snapshots = [], dd_logs = [(shard_log 3, log_bytes (\<lambda>_. 0) es)] \<rparr>"

definition ann :: row where
  "ann = \<lparr> row_id = 0, row_values = [(''email'', VString ''a'')] \<rparr>"

definition users_before :: engine where
  "users_before = snd (engine_insert ''users'' ann (snd (engine_create_table users_schema engine_new)))"

definition users_after :: engine where
  "users_after = snd (engine_create_table users_schema
     (fst (snd (recover demo_recovery engine_new (demo_dir [user_entry 1 EInsert 1 ''a''])))))"

text \<open>
  A restart forgets unique columns: the tables that recovery creates have a schema inferred from
  their rows, and creating the table with its real schema afterwards, as the server does when it
  starts, fails because the table exists. The row is back, but a second one with the same unique
  value, refused before the restart, is then accepted.
\<close>

theorem restart_loses_uniqueness:
  "engine_get ''users'' 1 users_after = engine_get ''users'' 1 users_before \<and>
   fst (engine_insert ''users'' ann users_before) = Err (DuplicateKey (DupColumn ''email'' (VString ''a''))) \<and>
   fst (engine_insert ''users'' ann users_after) = Ok 2"
  by code_simp
section \<open>Damaged logs\<close>

lemma scan_sequence_entries:
  assumes "\<forall>en \<in> set es. entry_ok en" and "length es < n"
    and "read_raw crc rest = Inl err" and "err \<noteq> UnexpectedEof"
  shows "scan_sequence crc n (concat (map (entry_bytes crc) es) @ rest) m = Err err"
  using assms
proof (induction es arbitrary: n m)
  case Nil
  then obtain k where "n = Suc k" by (cases n) auto
  with Nil show ?case by (cases err) simp_all
next
  case (Cons en es)
  then obtain k where "n = Suc k" by (cases n) auto
  with Cons show ?case by (simp add: read_raw_entry)
qed

text \<open>
  A damaged entry hides its whole log file: when an entry somewhere in a log does not match its
  checksum, opening the file fails and recovery passes over it, so none of its entries is
  replayed - neither those behind the damage nor the intact ones before it -, and recovery still
  reports success.
\<close>

theorem damaged_entry_hides_log:
  assumes "\<forall>en \<in> set es. entry_ok en" and "hm_get logs name = Some (log_bytes (re_crc v) es @ rest)"
    and "read_raw (re_crc v) rest = Inl (ChecksumMismatch a b)"
  shows "file_entries v logs name = [] \<and> replay_file v q name (logs, eng, n) = (logs, eng, n)"
proof -
  let ?body = "concat (map (entry_bytes (re_crc v)) es) @ rest"
  have "length es < Suc (length ?body)" using length_concat_entries [of es "re_crc v"] by simp
  then have "scan_sequence (re_crc v) (Suc (length ?body)) ?body 0 = Err (ChecksumMismatch a b)"
    by (rule scan_sequence_entries [OF assms(1) _ assms(3)]) simp
  then have "wal_open (re_crc v) (log_bytes (re_crc v) es @ rest) = Err (ChecksumMismatch a b)"
  proof -
    have "length (header_bytes fresh_header) = 16" by (simp add: header_bytes_def)
    then have "header_bytes fresh_header \<noteq> []" by auto
    with \<open>scan_sequence _ _ _ _ = _\<close> show ?thesis
      by (simp add: wal_open_def recover_sequence_def log_bytes_def fresh_header_def Let_def del: scan_sequence.simps length_append)
  qed
  then show ?thesis using assms(2) by (simp add: file_entries_def replay_file_def)
qed
text \<open>The examples use the sum of the bytes as their checksum.\<close>

definition sum_recovery :: recovery_env where
  "sum_recovery = demo_recovery \<lparr> re_crc := (\<lambda>bs. ucast (sum_list bs)) \<rparr>"

definition damaged_tail :: "u8 list" where
  "damaged_tail = (entry_bytes (re_crc sum_recovery) (user_entry 2 EInsert 2 ''b''))[40 := 99]"

theorem damaged_entry_hides_log_witness:
  "file_entries sum_recovery [(''wal.log'', log_bytes (re_crc sum_recovery) [user_entry 1 EInsert 1 ''a''] @ damaged_tail)] ''wal.log'' = []"
proof -
  have "case read_raw (re_crc sum_recovery) damaged_tail of Inl (ChecksumMismatch _ _) \<Rightarrow> True | _ \<Rightarrow> False"
    by code_simp
  then obtain a b where "read_raw (re_crc sum_recovery) damaged_tail = Inl (ChecksumMismatch a b)"
    by (auto split: sum.splits wal_error.splits)
  moreover have "str_ok ''users''" by code_simp
  then have "entry_ok (user_entry 1 EInsert 1 ''a'')"
    by (simp add: entry_ok_def user_entry_def demo_to_vec_def)
  ultimately show ?thesis
    using damaged_entry_hides_log [of "[user_entry 1 EInsert 1 ''a'']" _ "''wal.log''" sum_recovery damaged_tail] by simp
qed

definition ann_snapshot :: snapshot where
  "ann_snapshot = snapshot_of_tables [(''users'', [(1, [(''email'', JString ''a'')])])] []"

definition ann_recovery :: recovery_env where
  "ann_recovery = demo_recovery \<lparr> re_serde := \<lparr> sd_to_vec = (\<lambda>_. Ok [7]), sd_from_slice = (\<lambda>_. Ok ann_snapshot) \<rparr> \<rparr>"

definition ann_log :: "wal_entry list" where
  "ann_log = [user_entry 1 EInsert 1 ''a'', user_entry 2 EUpdate 1 ''b'']"

definition ann_dir :: data_dir where
  "ann_dir = \<lparr> dd_snapshots = snd (create_snapshot (re_serde ann_recovery) [(''users'', [(1, [(''email'', JString ''a'')])])] [] 0 []),
     dd_logs = [(shard_log 3, log_bytes (\<lambda>_. 0) ann_log)] \<rparr>"

lemma ann_entries: "dir_entries ann_recovery (dd_logs ann_dir) = ann_log"
  by code_simp

lemma ann_loaded: "load_latest (re_serde ann_recovery) (dd_snapshots ann_dir) = Ok (Some (ann_snapshot, 0))"
  using load_created [of "re_serde ann_recovery" "[(''users'', [(1, [(''email'', JString ''a'')])])]" "[]" "[7]" "[]" 0]
  by (simp add: ann_dir_def ann_recovery_def ann_snapshot_def)

theorem recovery_exact_witness:
  "\<exists>n eng dd'. recover ann_recovery engine_new ann_dir = (Ok n, eng, dd') \<and>
     engine_rows eng (''users'', 1) = Some [''email'' \<mapsto> VString ''b'']"
proof -
  let ?e1 = "user_entry 1 EInsert 1 ''a''" and ?e2 = "user_entry 2 EUpdate 1 ''b''"
  have vals: "entry_values ann_recovery ?e1 = [(''email'', VString ''a'')]"
    "entry_values ann_recovery ?e2 = [(''email'', VString ''b'')]" by code_simp+
  have key: "entry_key ?e1 = (''users'', 1)" "entry_key ?e2 = (''users'', 1)" by code_simp+
  have types: "we_type ?e1 = EInsert" "we_type ?e2 = EUpdate" "we_sequence ?e1 = 1" "we_sequence ?e2 = 2"
    by (simp_all add: user_entry_def)
  have snap: "snapshot_rows ann_snapshot = fold (spec_entry ann_recovery) [?e1] (\<lambda>_. None)"
    by (simp add: snapshot_rows_def ann_snapshot_def snapshot_of_tables_def spec_entry_def types key vals collect_values_def json_to_values_def
        hm_extend_Cons)
  have "dir_entries ann_recovery (dd_logs ann_dir) = [?e1] @ [?e2]" by (simp add: ann_entries ann_log_def)
  then have "\<exists>n eng dd'. recover ann_recovery engine_new ann_dir = (Ok n, eng, dd') \<and>
      engine_rows eng = fold (spec_entry ann_recovery) (dir_entries ann_recovery (dd_logs ann_dir)) (\<lambda>_. None)"
  proof (intro recovery_exact [OF ann_loaded])
    show "\<exists>xs ys. dir_entries ann_recovery (dd_logs ann_dir) = xs @ ys \<and>
        snapshot_rows ann_snapshot k = fold (spec_entry ann_recovery) xs (\<lambda>_. None) k" for k
      using \<open>_ = [?e1] @ [?e2]\<close> snap by metis
  qed (simp_all add: types key)
  then show ?thesis
    by (auto simp: ann_entries ann_log_def spec_entry_def types key vals put_row_def)
qed
theorem saved_rows_restored_witness:
  "\<exists>n eng' dd'. recover ann_recovery engine_new \<lparr> dd_snapshots = snd (save_snapshot ann_recovery users_before []), dd_logs = [] \<rparr> =
     (Ok n, eng', dd') \<and> engine_rows eng' (''users'', 1) = Some [''email'' \<mapsto> VString ''a'']"
proof -
  have users: "users_before = \<lparr> e_tables = [(''users'', \<lparr> t_schema = users_schema,
      t_rows = [(1, ann \<lparr> row_id := 1 \<rparr>)], t_next_id = 2, t_uniq = [(''email'', [(VString ''a'', 1)])] \<rparr>)] \<rparr>"
    by code_simp
  have "engine_reachable users_before"
    unfolding users_before_def
    using reach_step [OF reach_step [OF reach_new], of "OpCreateTable users_schema" "engine_op.OpInsert ''users'' ann"]
    by (simp add: ann_def row_ok_def insert_ok_def id_available_def engine_create_table_def engine_new_def
        table_new_def users_schema_def with_column_def schema_new_def)
  then have "engine_inv users_before" by (rule engine_reachable_inv)
  moreover have "durable_engine users_before"
    by (auto simp: users durable_engine_def durable_values_def ann_def split: if_splits)
  moreover have "snapshot_of_tables (saved_tables ann_recovery users_before) [] = ann_snapshot"
    by code_simp
  ultimately have "\<exists>n eng' dd'. recover ann_recovery engine_new
      \<lparr> dd_snapshots = snd (save_snapshot ann_recovery users_before []), dd_logs = [] \<rparr> = (Ok n, eng', dd') \<and>
      engine_rows eng' = engine_rows users_before"
    by (intro saved_rows_restored [where data = "[7]" and res = "fst (save_snapshot ann_recovery users_before [])"])
      (simp_all add: ann_recovery_def)
  moreover have "engine_rows users_before (''users'', 1) = Some [''email'' \<mapsto> VString ''a'']"
    by (simp add: users engine_rows_def ann_def)
  ultimately show ?thesis by metis
qed

end
