(* ===== verification/Group_Commit.thy ===== *)
theory Group_Commit
  imports Dispatch Recovery
begin

text \<open>
  The server with its data directory (\<open>WalBridge\<close> and \<open>WalCluster\<close> of
  \<open>blitz-server/src/durability.rs\<close>, \<open>start\<close> and \<open>snapshot_and_rotate\<close> of \<open>server.rs\<close>): every log
  file has a thread that takes groups of writes from the queue of its sender, appends them and
  syncs the file. A group is any number of queued writes up to the limit of the mode, since
  writers go on filling the queue while the thread empties it.
\<close>

section \<open>Modes and threads\<close>

datatype durability_mode = DurabilityNone | GroupCommit (window_ms: u64) (max_batch: nat)

definition every_sec :: durability_mode where "every_sec = GroupCommit 1000 5000"
definition near_sync :: durability_mode where "near_sync = GroupCommit 1 100"

fun is_durable :: "durability_mode \<Rightarrow> bool" where
  "is_durable DurabilityNone = False"
| "is_durable (GroupCommit _ _) = True"

fun group_limit :: "durability_mode \<Rightarrow> nat" where
  "group_limit DurabilityNone = 1"
| "group_limit (GroupCommit _ n) = max n 1"

record wal_thread =
  wt_wal :: wal
  wt_bytes_flushed :: u64
  wt_ops_flushed :: u64

text \<open>Opening a bridge: when its log cannot be opened the thread ends and the queue is closed.\<close>

definition open_bridge :: "(u8 list \<Rightarrow> u32) \<Rightarrow> u8 list \<Rightarrow> wal_sender \<times> wal_thread option" where
  "open_bridge crc content =
     (case wal_open crc content of
        Inl _ \<Rightarrow> (\<lparr> ws_queue = [], ws_open = False, ws_dropped_full = 0 \<rparr>, None)
      | Inr w \<Rightarrow>
          (\<lparr> ws_queue = [], ws_open = True, ws_dropped_full = 0 \<rparr>,
           Some \<lparr> wt_wal = w, wt_bytes_flushed = 0, wt_ops_flushed = 0 \<rparr>))"

definition log_append :: "(u8 list \<Rightarrow> u32) \<Rightarrow> pending_write \<Rightarrow> wal \<Rightarrow> wal" where
  "log_append crc w x = snd (append_buffered crc (pw_entry w) (pw_table w) (pw_row_id w) (pw_data w) x)"

definition flush_group :: "(u8 list \<Rightarrow> u32) \<Rightarrow> pending_write list \<Rightarrow> wal_thread \<Rightarrow> wal_thread" where
  "flush_group crc batch t =
     t \<lparr> wt_wal := wal_sync (fold (log_append crc) batch (wt_wal t)),
         wt_bytes_flushed := wt_bytes_flushed t + of_nat (sum_list (map (\<lambda>w. length (pw_data w)) batch)),
         wt_ops_flushed := wt_ops_flushed t + of_nat (length batch) \<rparr>"

text \<open>A bridge whose senders are gone goes on with full groups until its queue is empty.\<close>

function drain_queue :: "(u8 list \<Rightarrow> u32) \<Rightarrow> durability_mode \<Rightarrow> pending_write list \<Rightarrow> wal_thread \<Rightarrow> wal_thread" where
  "drain_queue crc mode queue t =
     (if queue = [] then t
      else drain_queue crc mode (drop (group_limit mode) queue) (flush_group crc (take (group_limit mode) queue) t))"
  by pat_completeness auto
termination
proof (relation "measure (\<lambda>(_, _, queue, _). length queue)")
  show "((crc, mode, drop (group_limit mode) queue, flush_group crc (take (group_limit mode) queue) t), crc, mode, queue, t)
      \<in> measure (\<lambda>(_, _, queue, _). length queue)" if "queue \<noteq> []" for crc mode queue t
    using that by (cases mode) auto
qed simp

declare drain_queue.simps [simp del]

section \<open>The server and its directory\<close>

record db_system =
  sy_server :: server
  sy_threads :: "wal_thread option list"
  sy_dir :: data_dir

definition cluster_open ::
  "(u8 list \<Rightarrow> u32) \<Rightarrow> durability_mode \<Rightarrow> files \<Rightarrow> wal_cluster \<times> wal_thread option list \<times> files" where
  "cluster_open crc mode logs =
     (if \<not> is_durable mode then (\<lparr> wc_shards = [], wc_n = 0 \<rparr>, [], logs)
      else
        (let n = shards_for_mode;
             content = (\<lambda>i. case hm_get logs (shard_log i) of Some c \<Rightarrow> c | None \<Rightarrow> []);
             bridges = map (\<lambda>i. open_bridge crc (content i)) [0..<n];
             logs = fold (\<lambda>i. hm_insert (shard_log i)
                        (case snd (bridges ! i) of Some t \<Rightarrow> wal_file (wt_wal t) | None \<Rightarrow> content i)) [0..<n] logs in
         (\<lparr> wc_shards = map fst bridges, wc_n = n \<rparr>, map snd bridges, logs)))"

text \<open>One group of one thread: the first \<open>k\<close> writes of its queue reach the file.\<close>

definition flush_shard :: "(u8 list \<Rightarrow> u32) \<Rightarrow> nat \<Rightarrow> nat \<Rightarrow> db_system \<Rightarrow> db_system" where
  "flush_shard crc i k sys =
     (case (sv_wal (sy_server sys), sy_threads sys ! i) of
        (Some c, Some t) \<Rightarrow>
          (let x = wc_shards c ! i;
               t = flush_group crc (take k (ws_queue x)) t;
               x = x \<lparr> ws_queue := drop k (ws_queue x) \<rparr> in
           sys \<lparr> sy_server := (sy_server sys) \<lparr> sv_wal := Some (c \<lparr> wc_shards := (wc_shards c)[i := x] \<rparr>) \<rparr>,
                 sy_threads := (sy_threads sys)[i := Some t],
                 sy_dir := (sy_dir sys) \<lparr> dd_logs := hm_insert (shard_log i) (wal_file (wt_wal t)) (dd_logs (sy_dir sys)) \<rparr> \<rparr>)
      | _ \<Rightarrow> sys)"

definition install_cluster :: "(u8 list \<Rightarrow> u32) \<Rightarrow> durability_mode \<Rightarrow> db_system \<Rightarrow> db_system" where
  "install_cluster crc mode sys =
     (let (c, threads, logs) = cluster_open crc mode (dd_logs (sy_dir sys));
          sys = sys \<lparr> sy_threads := threads, sy_dir := (sy_dir sys) \<lparr> dd_logs := logs \<rparr> \<rparr> in
      if wc_shards c \<noteq> []
      then sys \<lparr> sy_server := (sy_server sys) \<lparr> sv_wal := Some c, sv_wal_enabled := True \<rparr> \<rparr>
      else sys)"

text \<open>
  Saving a snapshot and starting the logs anew. The queues are given time to empty, which the
  caller's steps before this one stand for; what is left in them is in the snapshot.
\<close>

definition snapshot_and_rotate ::
  "recovery_env \<Rightarrow> durability_mode \<Rightarrow> db_system \<Rightarrow> (snapshot_error + string) \<times> db_system" where
  "snapshot_and_rotate v mode sys =
     (let sys = sys \<lparr> sy_server := (sy_server sys) \<lparr> sv_wal_rotating := True \<rparr> \<rparr> in
      case save_snapshot v (sv_engine (sy_server sys)) (dd_snapshots (sy_dir sys)) of
        (Inl e, snaps) \<Rightarrow> (Err e, sys \<lparr> sy_dir := (sy_dir sys) \<lparr> dd_snapshots := snaps \<rparr> \<rparr>)
      | (Inr path, snaps) \<Rightarrow>
          (let sys = sys \<lparr> sy_server := (sy_server sys) \<lparr> sv_wal := None \<rparr>, sy_threads := [],
                 sy_dir := \<lparr> dd_snapshots = snaps, dd_logs = fold hm_remove log_names (dd_logs (sy_dir sys)) \<rparr> \<rparr>;
               sys = (if is_durable mode then install_cluster (re_crc v) mode sys else sys);
               sys = sys \<lparr> sy_server := (sy_server sys) \<lparr> sv_wal_rotating := False \<rparr>,
                 sy_dir := (sy_dir sys) \<lparr> dd_snapshots := snd (prune 3 (dd_snapshots (sy_dir sys))) \<rparr> \<rparr> in
           (Ok path, sys)))"

section \<open>Starting\<close>

definition users_table :: "table_id \<Rightarrow> table_schema" where
  "users_table tid = with_column (with_column (with_column (schema_new tid ''users'')
     (column_primary_key (column_new ''id'' TInt64)))
     (column_new ''name'' TString))
     (column_unique (column_new ''email'' TString))"

definition sessions_table :: "table_id \<Rightarrow> table_schema" where
  "sessions_table tid = with_column (with_column (with_column (schema_new tid ''sessions'')
     (column_primary_key (column_new ''id'' TString)))
     (column_new ''user_id'' TInt64))
     (column_new ''token'' TString)"

definition default_tables :: "(string \<Rightarrow> table_id) \<Rightarrow> engine \<Rightarrow> (core_error + unit) \<times> engine" where
  "default_tables tid eng =
     (let create = (\<lambda>schema (res, eng). case res of
              Inl e \<Rightarrow> (Inl e, eng)
            | Inr _ \<Rightarrow> (case engine_create_table schema eng of
                          (Inl (TableAlreadyExists _), eng) \<Rightarrow> (Ok (), eng)
                        | (Inl e, eng) \<Rightarrow> (Err e, eng)
                        | (Inr _, eng) \<Rightarrow> (Ok (), eng))) in
      create (sessions_table (tid ''sessions'')) (create (users_table (tid ''users'')) (Ok (), eng)))"

text \<open>The event that the server started and its starting time are not part of the state here.\<close>

definition server_start ::
  "recovery_env \<Rightarrow> durability_mode \<Rightarrow> server \<Rightarrow> data_dir \<Rightarrow> (core_error + unit) \<times> db_system" where
  "server_start v mode s dd =
     (let sys = \<lparr> sy_server = s, sy_threads = [], sy_dir = dd \<rparr>;
          sys = (if is_durable mode
                 then (let (_, eng, dd) = recover v (sv_engine s) dd in
                       install_cluster (re_crc v) mode (sys \<lparr> sy_server := set_engine eng s, sy_dir := dd \<rparr>))
                 else sys);
          s = sy_server sys;
          s = s \<lparr> sv_identities := fold (\<lambda>(t, i). hm_insert t i) (cf_auth_tokens (sv_config s)) (sv_identities s) \<rparr>;
          (res, eng) = default_tables (re_table_id v) (sv_engine s);
          s = set_engine eng s in
      case res of
        Inl e \<Rightarrow> (Err e, sys \<lparr> sy_server := s \<rparr>)
      | Inr _ \<Rightarrow> (Ok (), sys \<lparr> sy_server := snd (rebuild_search_index s) \<rparr>))"

end
