(* ===== verification/Durable_Server.thy ===== *)
theory Durable_Server
  imports Group_Commit "HOL-Library.Countable"
begin

text \<open>
  Acknowledged writes survive. The server, its log threads and its directory run together: requests
  are handled, groups of queued writes reach the log files, snapshots are taken and the logs
  started anew, in any order. After a crash at any moment, with any part of the group then being
  written on disk, recovery restores every table as it was at some moment of the run, and as it is
  now when nothing of it is left in a queue.
\<close>

section \<open>Logs\<close>

definition write_op :: "pending_write \<Rightarrow> wal_op" where
  "write_op w = WalAppendBuffered (pw_entry w) (pw_table w) (pw_row_id w) (pw_data w)"

definition write_entry :: "u64 \<Rightarrow> pending_write \<Rightarrow> wal_entry" where
  "write_entry n w = \<lparr> we_sequence = n, we_type = pw_entry w, we_table = pw_table w, we_row_id = pw_row_id w,
     we_data = pw_data w \<rparr>"

abbreviation write_entries :: "u64 \<Rightarrow> pending_write list \<Rightarrow> wal_entry list" where
  "write_entries n ws \<equiv> op_entries n (map write_op ws)"


lemma write_entries_simps [simp]:
  "write_entries n [] = []" "write_entries n (w # ws) = write_entry n w # write_entries (n + 1) ws"
  by (simp_all add: write_op_def write_entry_def)

lemma length_write_entries [simp]: "length (write_entries n ws) = length ws"
  by (induction ws arbitrary: n) (simp_all del: list.map(2))

lemma write_entries_append:
  "write_entries n (xs @ ys) = write_entries n xs @ write_entries (n + of_nat (length xs)) ys"
  by (simp add: op_entries_append)






text \<open>The state of a thread that has logged the writes \<open>ws\<close>.\<close>

definition thread_logged :: "(u8 list \<Rightarrow> u32) \<Rightarrow> pending_write list \<Rightarrow> wal_thread \<Rightarrow> bool" where
  "thread_logged crc ws t \<longleftrightarrow>
     wal_file (wt_wal t) = log_bytes crc (write_entries 1 ws) \<and> wal_buf (wt_wal t) = [] \<and>
     wal_next_sequence (wt_wal t) = 1 + of_nat (length ws)"

lemma fold_log_append: "fold (log_append crc) batch w = fold (wal_apply crc) (map write_op batch) w"
  by (induction batch arbitrary: w) (simp_all add: log_append_def write_op_def)

lemma flush_group_logged:
  assumes "thread_logged crc ws t"
  shows "thread_logged crc (ws @ batch) (flush_group crc batch t)"
proof -
  let ?w = "fold (wal_apply crc) (map write_op batch) (wt_wal t)"
  have "wal_content (wt_wal t) = log_bytes crc (write_entries 1 ws)"
    using assms by (simp add: thread_logged_def wal_content_def)
  then have "wal_content ?w = log_bytes crc (write_entries 1 (ws @ batch)) \<and>
      wal_next_sequence ?w = 1 + of_nat (length (ws @ batch))"
    using wal_run_content [of crc "map write_op batch" "wt_wal t"] assms
    by (simp only: write_entries_append) (simp add: thread_logged_def log_bytes_def)
  then show ?thesis
    by (simp add: thread_logged_def flush_group_def fold_log_append wal_sync_def)
      (simp add: bw_flush_def)
qed
section \<open>What a logged write does to the rows\<close>

definition spec_write :: "recovery_env \<Rightarrow> pending_write \<Rightarrow> row_map \<Rightarrow> row_map" where
  "spec_write v w = spec_entry v (write_entry 0 w)"







lemma spec_write_entry [simp]: "spec_entry v (write_entry n w) = spec_write v w"
  by (simp add: spec_write_def spec_entry_def entry_key_def entry_values_def local_id_def write_entry_def fun_eq_iff
      split: entry_type.split)








section \<open>Writes of the engine\<close>





section \<open>Writes of the server\<close>

definition wal_ready :: "server \<Rightarrow> bool" where
  "wal_ready s \<longleftrightarrow> sv_wal_enabled s \<and> \<not> sv_wal_rotating s \<and>
     (\<exists>c. sv_wal s = Some c \<and> length (wc_shards c) = shards_for_mode \<and> wc_n c = shards_for_mode)"

definition wal_queue :: "server \<Rightarrow> nat \<Rightarrow> pending_write list" where
  "wal_queue s i =
     (case sv_wal s of Some c \<Rightarrow> if i < length (wc_shards c) then ws_queue (wc_shards c ! i) else [] | None \<Rightarrow> [])"













text \<open>An engine operation followed by its log entry.\<close>

lemma set_engine_ready [simp]: "wal_ready (set_engine eng s) = wal_ready s" "wal_queue (set_engine eng s) = wal_queue s"
  "sv_wal_dropped_full (set_engine eng s) = sv_wal_dropped_full s"
  by (simp_all add: set_engine_def wal_ready_def wal_queue_def fun_eq_iff)





section \<open>Requests\<close>





















section \<open>Runs\<close>

definition empty_dir :: data_dir where "empty_dir = \<lparr> dd_snapshots = [], dd_logs = [] \<rparr>"






section \<open>The invariant of a run\<close>









section \<open>Fresh logs\<close>

lemma shard_log_names:
  "inj_on shard_log {0..<shards_for_mode}" "i < shards_for_mode \<Longrightarrow> shard_log i \<noteq> LEGACY_LOG"
  using distinct_log_names by (auto simp: log_names_def distinct_map image_iff) (metis atLeastLessThan_iff le0)

lemma fold_insert_other:
  "k \<notin> f ` set is \<Longrightarrow> hm_get (fold (\<lambda>i. hm_insert (f i) (g i)) is m) k = hm_get m k"
  by (induction "is" arbitrary: m) (auto simp: hm_simps)

lemma fold_insert_get:
  assumes "distinct (map f is)" and "i \<in> set is"
  shows "hm_get (fold (\<lambda>i. hm_insert (f i) (g i)) is m) (f i) = Some (g i)"
  using assms
proof (induction "is" arbitrary: m)
  case (Cons j "is")
  show ?case
  proof (cases "i = j")
    case True
    with Cons.prems(1) show ?thesis by (simp add: fold_insert_other hm_simps)
  qed (use Cons in auto)
qed simp

lemma shard_files:
  assumes "i < shards_for_mode"
  shows "hm_get (fold (\<lambda>i. hm_insert (shard_log i) (g i)) [0..<shards_for_mode] logs) (shard_log i) = Some (g i)"
  using assms distinct_log_names by (intro fold_insert_get) (simp_all add: log_names_def)

lemma legacy_file: "hm_get (fold (\<lambda>i. hm_insert (shard_log i) (g i)) [0..<shards_for_mode] logs) LEGACY_LOG = hm_get logs LEGACY_LOG"
  by (rule fold_insert_other) (use shard_log_names(2) in force)

definition fresh_thread :: wal_thread where
  "fresh_thread = \<lparr> wt_wal = fresh_wal, wt_bytes_flushed = 0, wt_ops_flushed = 0 \<rparr>"

definition fresh_sender :: wal_sender where
  "fresh_sender = \<lparr> ws_queue = [], ws_open = True, ws_dropped_full = 0 \<rparr>"

lemma open_bridge_empty: "open_bridge crc [] = (fresh_sender, Some fresh_thread)"
  by (simp add: open_bridge_def wal_open_empty fresh_sender_def fresh_thread_def)

lemma install_fresh:
  assumes "is_durable mode" and "\<And>i. i < shards_for_mode \<Longrightarrow> hm_get (dd_logs (sy_dir sys)) (shard_log i) = None"
    and "sys' = install_cluster crc mode sys"
  shows "sy_server sys' = (sy_server sys) \<lparr> sv_wal := Some \<lparr> wc_shards = replicate shards_for_mode fresh_sender, wc_n = shards_for_mode \<rparr>,
      sv_wal_enabled := True \<rparr> \<and> sy_threads sys' = replicate shards_for_mode (Some fresh_thread) \<and>
    dd_snapshots (sy_dir sys') = dd_snapshots (sy_dir sys) \<and>
    hm_get (dd_logs (sy_dir sys')) LEGACY_LOG = hm_get (dd_logs (sy_dir sys)) LEGACY_LOG \<and>
    (\<forall>i < shards_for_mode. hm_get (dd_logs (sy_dir sys')) (shard_log i) = Some (wal_file fresh_wal))"
proof -
  let ?logs = "dd_logs (sy_dir sys)"
  have bridges: "map (\<lambda>i. open_bridge crc (case hm_get ?logs (shard_log i) of Some c \<Rightarrow> c | None \<Rightarrow> [])) [0..<shards_for_mode] =
      replicate shards_for_mode (fresh_sender, Some fresh_thread)"
    using assms(2) by (intro nth_equalityI) (simp_all add: open_bridge_empty)
  obtain g where g: "\<And>i. i < shards_for_mode \<Longrightarrow> g i = wal_file fresh_wal"
    and opened: "cluster_open crc mode ?logs = (\<lparr> wc_shards = replicate shards_for_mode fresh_sender, wc_n = shards_for_mode \<rparr>,
      replicate shards_for_mode (Some fresh_thread), fold (\<lambda>i. hm_insert (shard_log i) (g i)) [0..<shards_for_mode] ?logs)"
  proof
    let ?g = "\<lambda>i. case snd (replicate shards_for_mode (fresh_sender, Some fresh_thread) ! i) of
        Some t \<Rightarrow> wal_file (wt_wal t) | None \<Rightarrow> (case hm_get ?logs (shard_log i) of Some c \<Rightarrow> c | None \<Rightarrow> [])"
    show "i < shards_for_mode \<Longrightarrow> ?g i = wal_file fresh_wal" for i by (simp add: fresh_thread_def)
    show "cluster_open crc mode ?logs = (\<lparr> wc_shards = replicate shards_for_mode fresh_sender, wc_n = shards_for_mode \<rparr>,
      replicate shards_for_mode (Some fresh_thread), fold (\<lambda>i. hm_insert (shard_log i) (?g i)) [0..<shards_for_mode] ?logs)"
      using assms(1) by (simp add: cluster_open_def bridges del: map_map map_eq_conv)
  qed
  have "replicate shards_for_mode fresh_sender \<noteq> []" by (simp add: shards_for_mode_def)
  then show ?thesis
    using g by (simp add: assms(3) install_cluster_def opened shard_files legacy_file)
qed


section \<open>Starting, flushing and rotating keep the invariant\<close>

lemma recover_empty: "recover v eng empty_dir = (Ok (0, 0, 0), eng, empty_dir)"
proof -
  have "fold (replay_file v q) names ([], eng, 0) = ([], eng, 0)" for q names
    by (induction names) (simp_all add: replay_file_def)
  then show ?thesis
    by (simp add: recover_def empty_dir_def load_latest_def find_latest_snapshot_def)
qed











section \<open>Recovery after a crash\<close>




section \<open>Shutting down, and rotations that fail\<close>

text \<open>A thread whose senders are gone logs everything that is left in its queue, in order.\<close>

lemma drain_queue_logged:
  "thread_logged crc ws t \<Longrightarrow> thread_logged crc (ws @ queue) (drain_queue crc mode queue t)"
proof (induction crc mode queue t arbitrary: ws rule: drain_queue.induct)
  case (1 crc mode queue t)
  let ?k = "group_limit mode"
  show ?case
  proof (cases "queue = []")
    case False
    have "thread_logged crc ((ws @ take ?k queue) @ drop ?k queue)
        (drain_queue crc mode (drop ?k queue) (flush_group crc (take ?k queue) t))"
      by (rule "1.IH" [OF False flush_group_logged [OF "1.prems"]])
    with False show ?thesis by (subst drain_queue.simps) simp
  qed (use "1.prems" in \<open>simp add: drain_queue.simps\<close>)
qed

text \<open>
  A rotation that fails shuts the log: when the snapshot cannot be written, the flag that holds
  writes back stays set, so every later write is refused by the log until the server is restarted.
\<close>

theorem failed_rotation_refuses_writes:
  assumes "snapshot_and_rotate v mode sys = (Err e, sys')" and "sv_wal_enabled (sy_server sys)"
  shows "fst (wal_log env entry table rid data (sy_server sys')) = Err ''WAL rotation in progress''"
proof -
  have "sy_server sys' = (sy_server sys) \<lparr> sv_wal_rotating := True \<rparr>"
    using assms(1) by (auto simp: snapshot_and_rotate_def Let_def split: prod.splits sum.splits)
  then show ?thesis using assms(2) by (simp add: wal_log_def)
qed

section \<open>Example\<close>

text \<open>
  A run with a rotation: one row is inserted and goes into a snapshot, another one is inserted
  behind it and flushed to the new log. The serializers are an injective code of all JSON values
  and of all snapshots, with short codes for those of the run.
\<close>

instance json_number :: countable by countable_datatype
instance json :: countable by countable_datatype

definition ann_values :: row_values where
  "ann_values = [(''id'', VInt64 7), (''name'', VString ''ann''), (''email'', VString ''a@b'')]"

definition bob_values :: row_values where
  "bob_values = [(''id'', VInt64 8), (''name'', VString ''bob''), (''email'', VString ''b@b'')]"

definition ann_json :: json where
  "ann_json = values_to_json demo_json_env ann_values"

definition bob_json :: json where
  "bob_json = values_to_json demo_json_env bob_values"

definition live_json :: json_env where
  "live_json = demo_json_env \<lparr> je_to_vec := (\<lambda>j. if j = ann_json then [1] else if j = bob_json then [2] else replicate (to_nat j + 2) 0) \<rparr>"

definition live_engine :: engine where
  "live_engine = snd (default_tables (\<lambda>_. 1) engine_new)"

definition live_row :: "row_values \<Rightarrow> row" where
  "live_row vals = \<lparr> row_id = 0, row_values = vals \<rparr>"

definition ann_engine :: engine where
  "ann_engine = snd (engine_insert ''users'' (live_row ann_values) live_engine)"


definition no_serde :: snapshot_serde where
  "no_serde = \<lparr> sd_to_vec = (\<lambda>_. Err ''unsupported''), sd_from_slice = (\<lambda>_. Err ''unsupported'') \<rparr>"

definition live_recovery_with :: "snapshot_serde \<Rightarrow> recovery_env" where
  "live_recovery_with sd = \<lparr> re_crc = (\<lambda>_. 0), re_json = live_json,
     re_from_slice = (\<lambda>bs. Some (if bs = [1] then ann_json else if bs = [2] then bob_json else from_nat (length bs - 2))),
     re_serde = sd, re_table_id = (\<lambda>_. 1) \<rparr>"

definition live_snapshot :: snapshot where
  "live_snapshot = snapshot_of_tables (saved_tables (live_recovery_with no_serde) ann_engine) []"

type_synonym snapshot_parts = "u32 \<times> (string \<times> (u64 \<times> (string \<times> json) list) list) list \<times> (string \<times> u64) list"

definition snapshot_parts :: "snapshot \<Rightarrow> snapshot_parts" where
  "snapshot_parts sn = (sn_version sn, map (\<lambda>t. (st_name t, map (\<lambda>r. (sr_id r, sr_values r)) (st_rows t))) (sn_tables sn), sn_next_row_ids sn)"

definition snapshot_from_parts :: "snapshot_parts \<Rightarrow> snapshot" where
  "snapshot_from_parts = (\<lambda>(ver, tabs, ids). \<lparr> sn_version = ver,
     sn_tables = map (\<lambda>(nm, rs). \<lparr> st_name = nm, st_rows = map (\<lambda>(i, vals). \<lparr> sr_id = i, sr_values = vals \<rparr>) rs \<rparr>) tabs,
     sn_next_row_ids = ids \<rparr>)"


definition live_serde :: snapshot_serde where
  "live_serde = \<lparr>
     sd_to_vec = (\<lambda>sn. Ok (if sn = live_snapshot then [1] else replicate (to_nat (snapshot_parts sn) + 2) 0)),
     sd_from_slice = (\<lambda>bs. Ok (if bs = [1] then live_snapshot else snapshot_from_parts (from_nat (length bs - 2)))) \<rparr>"

definition live_recovery :: recovery_env where
  "live_recovery = live_recovery_with live_serde"




definition live_start :: db_system where
  "live_start = snd (server_start live_recovery near_sync (server_new demo_config []) empty_dir)"

lemma default_tables_Ok: "fst (default_tables tid eng) = Ok ()"
  by (simp add: default_tables_def engine_create_table_def)

definition live_server :: server where
  "live_server = (server_new demo_config []) \<lparr> sv_tx_manager := tm_new live_engine,
     sv_wal := Some \<lparr> wc_shards = replicate shards_for_mode fresh_sender, wc_n = shards_for_mode \<rparr>, sv_wal_enabled := True \<rparr>"

lemma no_posts: "filter post_table (engine_table_names live_engine) = []"
  by code_simp

lemma live_recovery_fields: "re_crc live_recovery = (\<lambda>_. 0)" "re_table_id live_recovery = (\<lambda>_. 1)" "re_serde live_recovery = live_serde"
  by (simp_all add: live_recovery_def live_recovery_with_def)

lemma live_started:
  "server_start live_recovery near_sync (server_new demo_config []) empty_dir = (Ok (), live_start)"
  "sy_server live_start = live_server" "sy_threads live_start = replicate shards_for_mode (Some fresh_thread)"
  "dd_snapshots (sy_dir live_start) = []"
proof -
  define sys where "sys = \<lparr> sy_server = server_new demo_config [], sy_threads = [], sy_dir = empty_dir \<rparr>"
  note fresh = install_fresh [of near_sync sys, OF _ _ refl, of "re_crc live_recovery"]
  have durable: "is_durable near_sync" by (simp add: near_sync_def)
  have same: "set_engine engine_new (server_new demo_config []) = server_new demo_config []"
    "sv_engine (server_new demo_config []) = engine_new"
    by (simp_all add: set_engine_def server_new_def tm_new_def)
  have upd: "sys \<lparr> sy_server := server_new demo_config [], sy_dir := empty_dir \<rparr> = sys" by (simp add: sys_def)
  have fields: "sv_config (server_new demo_config []) = demo_config" "sv_identities (server_new demo_config []) = []"
    "cf_auth_tokens demo_config = []"
    by (simp_all add: server_new_def demo_config_def)
  have inst: "sy_server (install_cluster (re_crc live_recovery) near_sync sys) = (server_new demo_config []) \<lparr>
      sv_wal := Some \<lparr> wc_shards = replicate shards_for_mode fresh_sender, wc_n = shards_for_mode \<rparr>, sv_wal_enabled := True \<rparr>"
    "sy_threads (install_cluster (re_crc live_recovery) near_sync sys) = replicate shards_for_mode (Some fresh_thread)"
    "dd_snapshots (sy_dir (install_cluster (re_crc live_recovery) near_sync sys)) = []"
    using fresh durable by (simp_all add: sys_def empty_dir_def)
  have tabs: "default_tables (re_table_id live_recovery) engine_new = (Ok (), live_engine)"
    using default_tables_Ok [of "\<lambda>_. 1" engine_new] by (simp add: live_engine_def live_recovery_fields prod_eq_iff)
  have server: "set_engine live_engine (sy_server (install_cluster (re_crc live_recovery) near_sync sys)
      \<lparr> sv_identities := [] \<rparr>) = live_server"
    by (simp add: inst live_server_def set_engine_def server_new_def tm_new_def)
  have "sv_engine live_server = live_engine" by (simp add: live_server_def tm_new_def)
  then have rebuilt: "rebuild_search_index live_server = (0, live_server)"
    by (simp add: rebuild_search_index_def no_posts)
  have start: "server_start live_recovery near_sync (server_new demo_config []) empty_dir =
      (Ok (), (install_cluster (re_crc live_recovery) near_sync sys) \<lparr> sy_server := live_server \<rparr>)"
    using server
    by (simp add: server_start_def durable same recover_empty sys_def [symmetric] Let_def upd inst(1) tabs rebuilt fields)
  then show "server_start live_recovery near_sync (server_new demo_config []) empty_dir = (Ok (), live_start)"
    "sy_server live_start = live_server" "sy_threads live_start = replicate shards_for_mode (Some fresh_thread)"
    "dd_snapshots (sy_dir live_start) = []"
    by (simp_all add: live_start_def inst(2,3))
qed















theorem failed_rotation_refuses_writes_witness:
  "\<exists>sys'. snapshot_and_rotate (live_recovery_with no_serde) near_sync live_start = (Err (SnapSerialization ''unsupported''), sys') \<and>
     fst (wal_log demo_server_env EInsert ''users'' 1 [] (sy_server sys')) = Err ''WAL rotation in progress''"
proof -
  obtain sys' where "snapshot_and_rotate (live_recovery_with no_serde) near_sync live_start = (Err (SnapSerialization ''unsupported''), sys')"
    by (simp add: snapshot_and_rotate_def save_snapshot_def create_snapshot_def live_recovery_with_def no_serde_def)
  moreover have "sv_wal_enabled (sy_server live_start)" by (simp add: live_started live_server_def)
  ultimately show ?thesis using failed_rotation_refuses_writes by blast
qed


end
