(* ===== verification/Atomic_Batch.thy ===== *)
theory Atomic_Batch
  imports Dispatch
begin

text \<open>
  Atomic batches (\<open>execute_atomic\<close> of \<open>blitz-server/src/transport.rs\<close>): the operations of a batch
  are authorized first, then buffered in one transaction, committed together, and only then
  answered, with the effects of each applied write.
\<close>

section \<open>Operations\<close>

fun op_debug :: "op \<Rightarrow> string" where
  "op_debug OpPing = ''Ping''"
| "op_debug OpInsert = ''Insert''"
| "op_debug OpGet = ''Get''"
| "op_debug OpUpdate = ''Update''"
| "op_debug OpDelete = ''Delete''"
| "op_debug OpScan = ''Scan''"
| "op_debug OpSubscribe = ''Subscribe''"
| "op_debug OpFind = ''Find''"
| "op_debug OpSearch = ''Search''"
| "op_debug OpVersion = ''Version''"
| "op_debug OpCall = ''Call''"
| "op_debug OpTableCreate = ''TableCreate''"
| "op_debug OpJobSubmit = ''JobSubmit''"
| "op_debug OpJobPoll = ''JobPoll''"
| "op_debug OpProcDeploy = ''ProcDeploy''"
| "op_debug OpProcList = ''ProcList''"
| "op_debug OpProcDrop = ''ProcDrop''"

definition atomic_op :: "op \<Rightarrow> bool" where
  "atomic_op p \<longleftrightarrow> p \<in> {OpPing, OpInsert, OpGet, OpUpdate, OpDelete}"

text \<open>Handshakes and authorization of all operations, before anything is touched.\<close>

fun authorize_ops ::
  "request_env \<Rightarrow> identity option \<Rightarrow> request list \<Rightarrow> server \<Rightarrow> (string + request list) \<times> identity option \<times> server" where
  "authorize_ops q authed [] s = (Ok [], authed, s)"
| "authorize_ops q authed (req # reqs) s =
     (let (authed, req, s) = handshake q authed req s in
      case authorize s authed (rq_op req) (rq_table req) of
        Inl e \<Rightarrow> (Err (''atomic batch aborted: unauthorized op '' @ u64_text (rq_id req) @ '': '' @ e), authed, s)
      | Inr _ \<Rightarrow>
          if \<not> atomic_op (rq_op req)
          then (Err (''atomic batch aborted: '' @ op_debug (rq_op req) @ '' not supported in atomic batch''), authed, s)
          else
            (case authorize_ops q authed reqs s of
               (Inl e, authed, s) \<Rightarrow> (Err e, authed, s)
             | (Inr reqs, authed, s) \<Rightarrow> (Ok (req # reqs), authed, s)))"

datatype buffered =
    BPing
  | BGet row_view
  | BInsert (b_base: string) (b_physical: string) (b_shard: nat) (b_values: row_values) (b_idem: "string option")
  | BUpdate (b_base: string) (b_physical: string) (b_local: u64) (b_global: u64)
  | BDelete (b_base: string) (b_physical: string) (b_local: u64) (b_global: u64)

type_synonym seen_uniques = "(string \<times> string \<times> string) set"

text \<open>Only columns declared unique are checked here; the engine also indexes primary keys.\<close>

fun batch_unique ::
  "server_env \<Rightarrow> engine \<Rightarrow> string \<Rightarrow> row_values \<Rightarrow> column_def list \<Rightarrow> seen_uniques \<Rightarrow> (string + unit) \<times> seen_uniques" where
  "batch_unique e eng table vals [] seen = (Ok (), seen)"
| "batch_unique e eng table vals (c # cs) seen =
     (if \<not> col_unique c then batch_unique e eng table vals cs seen
      else
        (case hm_get vals (col_name c) of
           None \<Rightarrow> batch_unique e eng table vals cs seen
         | Some v \<Rightarrow>
             (let key = (table, col_name c, se_debug e v) in
              if key \<in> seen
              then (Err (''duplicate value in batch for unique '' @ table @ ''.'' @ col_name c), seen)
              else if (case engine_lookup_by_unique table (col_name c) v eng of Inr (Some _) \<Rightarrow> True | _ \<Rightarrow> False)
              then (Err (''duplicate value for unique '' @ table @ ''.'' @ col_name c), insert key seen)
              else batch_unique e eng table vals cs (insert key seen))))"

text \<open>The read of a row that an update or a delete starts with.\<close>

definition batch_existing ::
  "server_env \<Rightarrow> server \<Rightarrow> identity option \<Rightarrow> op \<Rightarrow> string \<Rightarrow> string \<Rightarrow> u64 \<Rightarrow> transaction \<Rightarrow> (string + row) \<times> transaction" where
  "batch_existing e s authed p table physical local tx =
     (case tm_get (sv_tx_manager s) physical local tx of
        (Inl err, tx) \<Rightarrow> (Err (tx_error_text (se_debug e) err), tx)
      | (Inr None, tx) \<Rightarrow> (Err (''row not found: '' @ u64_text local), tx)
      | (Inr (Some r), tx) \<Rightarrow>
          (case enforce_owner s authed p table (row_values r) of
             Inl m \<Rightarrow> (Err (if p = OpGet then ''row not found: '' @ u64_text local else m), tx)
           | Inr _ \<Rightarrow> (Ok r, tx)))"

definition buffer_insert ::
  "server_env \<Rightarrow> server \<Rightarrow> identity option \<Rightarrow> request \<Rightarrow> transaction \<Rightarrow> seen_uniques \<Rightarrow> (string + buffered) \<times> transaction \<times> seen_uniques" where
  "buffer_insert e s authed req tx seen =
     (case rq_values req of
        None \<Rightarrow> (Err ''insert requires values'', tx, seen)
      | Some vals \<Rightarrow>
          if blob_too_large (rq_table req) vals then (Err ''blob too large (max 256KiB)'', tx, seen)
          else
            (let idem = idem_key vals; vals = hm_remove ''_idem'' vals in
             case Option.bind idem (idem_lookup s) of
               Some cached \<Rightarrow> (Ok (BGet \<lparr> rv_id = cached, rv_values = vals \<rparr>), tx, seen)
             | None \<Rightarrow>
                 (let (physical, shard) = route_insert (se_hash e) (shards_of s) (rq_table req) vals in
                  case enforce_owner s authed OpInsert (rq_table req) vals of
                    Inl m \<Rightarrow> (Err m, tx, seen)
                  | Inr _ \<Rightarrow>
                      (case (case engine_schema physical (sv_engine s) of
                               Inl _ \<Rightarrow> (Ok (), seen)
                             | Inr schema \<Rightarrow> batch_unique e (sv_engine s) physical vals (ts_columns schema) seen) of
                         (Inl m, seen) \<Rightarrow> (Err m, tx, seen)
                       | (Inr _, seen) \<Rightarrow>
                           (case tx_insert physical \<lparr> row_id = 0, row_values = vals \<rparr> tx of
                              (Inl err, tx) \<Rightarrow> (Err (tx_error_text (se_debug e) err), tx, seen)
                            | (Inr _, tx) \<Rightarrow> (Ok (BInsert (rq_table req) physical shard vals idem), tx, seen))))))"

definition buffer_op ::
  "server_env \<Rightarrow> server \<Rightarrow> identity option \<Rightarrow> request \<Rightarrow> transaction \<Rightarrow> seen_uniques \<Rightarrow> (string + buffered) \<times> transaction \<times> seen_uniques" where
  "buffer_op e s authed req tx seen =
     (case rq_op req of
        OpPing \<Rightarrow> (Ok BPing, tx, seen)
      | OpGet \<Rightarrow>
          (case rq_row_id req of
             None \<Rightarrow> (Err ''get requires row_id'', tx, seen)
           | Some global \<Rightarrow>
               (let (physical, local) = route_id (shards_of s) (rq_table req) global in
                case batch_existing e s authed OpGet (rq_table req) physical local tx of
                  (Inl m, tx) \<Rightarrow> (Err m, tx, seen)
                | (Inr r, tx) \<Rightarrow> (Ok (BGet (row_to_view global r)), tx, seen)))
      | OpInsert \<Rightarrow> buffer_insert e s authed req tx seen
      | OpUpdate \<Rightarrow>
          (case rq_row_id req of
             None \<Rightarrow> (Err ''update requires row_id'', tx, seen)
           | Some global \<Rightarrow>
               (let (physical, local) = route_id (shards_of s) (rq_table req) global in
                case rq_values req of
                  None \<Rightarrow> (Err ''update requires values'', tx, seen)
                | Some vals \<Rightarrow>
                    (case batch_existing e s authed OpUpdate (rq_table req) physical local tx of
                       (Inl m, tx) \<Rightarrow> (Err m, tx, seen)
                     | (Inr _, tx) \<Rightarrow>
                         (case tx_update physical local vals tx of
                            (Inl err, tx) \<Rightarrow> (Err (tx_error_text (se_debug e) err), tx, seen)
                          | (Inr _, tx) \<Rightarrow> (Ok (BUpdate (rq_table req) physical local global), tx, seen)))))
      | OpDelete \<Rightarrow>
          (case rq_row_id req of
             None \<Rightarrow> (Err ''delete requires row_id'', tx, seen)
           | Some global \<Rightarrow>
               (let (physical, local) = route_id (shards_of s) (rq_table req) global in
                case batch_existing e s authed OpDelete (rq_table req) physical local tx of
                  (Inl m, tx) \<Rightarrow> (Err m, tx, seen)
                | (Inr _, tx) \<Rightarrow>
                    (case tx_delete physical local tx of
                       (Inl err, tx) \<Rightarrow> (Err (tx_error_text (se_debug e) err), tx, seen)
                     | (Inr _, tx) \<Rightarrow> (Ok (BDelete (rq_table req) physical local global), tx, seen))))
      | p \<Rightarrow> (Err (op_debug p @ '' not supported in atomic batch''), tx, seen))"

fun buffer_ops ::
  "server_env \<Rightarrow> server \<Rightarrow> identity option \<Rightarrow> request list \<Rightarrow> transaction \<Rightarrow> seen_uniques \<Rightarrow>
   (u64 \<times> string + (u64 \<times> buffered) list) \<times> transaction" where
  "buffer_ops e s authed [] tx seen = (Ok [], tx)"
| "buffer_ops e s authed (req # reqs) tx seen =
     (case buffer_op e s authed req tx seen of
        (Inl m, tx, seen) \<Rightarrow> (Err (rq_id req, m), tx)
      | (Inr b, tx, seen) \<Rightarrow>
          (case buffer_ops e s authed reqs tx seen of
             (Inl m, tx) \<Rightarrow> (Err m, tx)
           | (Inr bs, tx) \<Rightarrow> (Ok ((rq_id req, b) # bs), tx)))"

text \<open>Responses and effects after the commit, one touched row per buffered write.\<close>

fun batch_results :: "server_env \<Rightarrow> u64 \<Rightarrow> (u64 \<times> buffered) list \<Rightarrow> row_key list \<Rightarrow> server \<Rightarrow> response list \<times> server" where
  "batch_results e ts [] touched s = ([], s)"
| "batch_results e ts ((i, BPing) # bs) touched s =
     (let (rs, s) = batch_results e ts bs touched s in (response_ok i [] # rs, s))"
| "batch_results e ts ((i, BGet view) # bs) touched s =
     (let (rs, s) = batch_results e ts bs touched s in (response_ok i [view] # rs, s))"
| "batch_results e ts ((i, b) # bs) [] s =
     (let (rs, s) = batch_results e ts bs [] s in
      (response_err i ''atomic batch aborted: commit/response mismatch'' # rs, s))"
| "batch_results e ts ((i, BInsert base physical shard vals idem) # bs) ((_, local) # touched) s =
     (let global = compose_id shard local;
          s = emit_write_effects e ts base physical EInsert local global (Some vals) s;
          s = (case idem of Some k \<Rightarrow> idem_record e k global s | None \<Rightarrow> s);
          (rs, s) = batch_results e ts bs touched s in
      (response_ok i [\<lparr> rv_id = global, rv_values = vals \<rparr>] # rs, s))"
| "batch_results e ts ((i, BUpdate base physical local global) # bs) (_ # touched) s =
     (case engine_get physical local (sv_engine s) of
        Inr (Some r) \<Rightarrow>
          (let s = emit_write_effects e ts base physical EUpdate local global (Some (row_values r)) s;
               (rs, s) = batch_results e ts bs touched s in
           (response_ok i [row_to_view global r] # rs, s))
      | _ \<Rightarrow>
          (let (rs, s) = batch_results e ts bs touched s in
           (response_err i (''row not found after commit: '' @ u64_text local) # rs, s)))"
| "batch_results e ts ((i, BDelete base physical local global) # bs) (_ # touched) s =
     (let s = emit_write_effects e ts base physical EDelete local global None s;
          (rs, s) = batch_results e ts bs touched s in
      (response_ok i [] # rs, s))"

definition abort_all :: "batch_request \<Rightarrow> string \<Rightarrow> batch_response" where
  "abort_all batch msg = \<lparr> bs_id = bq_id batch, bs_results = map (\<lambda>r. response_err (rq_id r) msg) (bq_ops batch) \<rparr>"

definition execute_atomic ::
  "dispatch_env \<Rightarrow> request_env \<Rightarrow> identity option \<Rightarrow> batch_request \<Rightarrow> server \<Rightarrow> batch_response \<times> identity option \<times> server" where
  "execute_atomic d q authed batch s =
     (let e = de_server d in
      case authorize_ops q authed (bq_ops batch) s of
        (Inl m, authed, s) \<Rightarrow> (abort_all batch m, authed, s)
      | (Inr reqs, authed, s) \<Rightarrow>
          (let (tx, m) = tm_begin RepeatableRead (sv_tx_manager s); s = s \<lparr> sv_tx_manager := m \<rparr> in
           case buffer_ops e s authed reqs tx {} of
             (Inl (i, msg), _) \<Rightarrow> (abort_all batch (''atomic batch aborted: op '' @ u64_text i @ '': '' @ msg), authed, s)
           | (Inr bs, tx) \<Rightarrow>
               (case tm_commit tx (sv_tx_manager s) of
                  (Inl err, _, m) \<Rightarrow>
                    (\<lparr> bs_id = bq_id batch, bs_results = map (\<lambda>(i, _). response_err i
                        (''atomic batch aborted: '' @ tx_error_text (se_debug e) err)) bs \<rparr>,
                     authed, s \<lparr> sv_tx_manager := m \<rparr>)
                | (Inr touched, _, m) \<Rightarrow>
                    (let (rs, s) = batch_results e (qe_now_micros q) bs touched (s \<lparr> sv_tx_manager := m \<rparr>) in
                     (\<lparr> bs_id = bq_id batch, bs_results = rs \<rparr>, authed, s)))))"
section \<open>The writes of a batch\<close>

text \<open>The write that a request asks for: an insertion known by its key asks for none.\<close>

definition request_write :: "server_env \<Rightarrow> server \<Rightarrow> request \<Rightarrow> write_op option" where
  "request_write e s req =
     (case rq_op req of
        OpInsert \<Rightarrow>
          (let vals = the (rq_values req) in
           if Option.bind (idem_key vals) (idem_lookup s) \<noteq> None then None
           else (let v = hm_remove ''_idem'' vals in
                 Some (WInsert (fst (route_insert (se_hash e) (shards_of s) (rq_table req) v)) \<lparr> row_id = 0, row_values = v \<rparr>)))
      | OpUpdate \<Rightarrow>
          (let (physical, local) = route_id (shards_of s) (rq_table req) (the (rq_row_id req)) in
           Some (WUpdate physical local (the (rq_values req))))
      | OpDelete \<Rightarrow>
          (let (physical, local) = route_id (shards_of s) (rq_table req) (the (rq_row_id req)) in
           Some (WDelete physical local))
      | _ \<Rightarrow> None)"

definition batch_writes :: "server_env \<Rightarrow> server \<Rightarrow> request list \<Rightarrow> write_op list" where
  "batch_writes e s reqs = List.map_filter (request_write e s) reqs"

definition strip_auth :: "request \<Rightarrow> request" where
  "strip_auth req = req \<lparr> rq_values := snd (take_auth_token (rq_values req)) \<rparr>"

definition is_write :: "buffered \<Rightarrow> bool" where
  "is_write b = (case b of BPing \<Rightarrow> False | BGet _ \<Rightarrow> False | _ \<Rightarrow> True)"

lemma batch_existing_writes:
  "batch_existing e s a p t ph l tx = (res, tx') \<Longrightarrow> tx_writes tx' = tx_writes tx"
  by (auto simp: batch_existing_def dest: tm_get_tx split: prod.splits sum.splits option.splits)

definition buffers :: "server_env \<Rightarrow> server \<Rightarrow> request \<Rightarrow> buffered \<Rightarrow> transaction \<Rightarrow> transaction \<Rightarrow> bool" where
  "buffers e s req b tx tx' \<longleftrightarrow>
     tx_writes tx' = tx_writes tx @ (case request_write e s req of Some w \<Rightarrow> [w] | None \<Rightarrow> []) \<and>
     (is_write b \<longleftrightarrow> request_write e s req \<noteq> None) \<and> (is_write b \<and> rq_op req \<noteq> OpUpdate \<longrightarrow> (\<forall>x y z w. b \<noteq> BUpdate x y z w))"

lemma buffer_insert_writes:
  assumes "buffer_insert e s a req tx seen = (Ok b, tx', seen')" and "rq_op req = OpInsert"
  shows "buffers e s req b tx tx'"
proof -
  obtain vals where vals: "rq_values req = Some vals" and blob: "\<not> blob_too_large (rq_table req) vals"
    using assms(1) by (auto simp: buffer_insert_def split: option.splits if_splits)
  let ?v = "hm_remove ''_idem'' vals"
  obtain physical shard where route: "route_insert (se_hash e) (shards_of s) (rq_table req) ?v = (physical, shard)" by fastforce
  note started = assms(1) [unfolded buffer_insert_def vals option.case if_not_P [OF blob] Let_def]
  show ?thesis
  proof (cases "Option.bind (idem_key vals) (idem_lookup s)")
    case (Some cached)
    with started assms(2) vals show ?thesis by (auto simp: buffers_def request_write_def is_write_def)
  next
    case None
    note routed = started [unfolded None option.case route prod.case]
    have own: "enforce_owner s a OpInsert (rq_table req) ?v = Ok ()"
      using routed by (cases "enforce_owner s a OpInsert (rq_table req) ?v") auto
    obtain cr seen1 where chk: "(case engine_schema physical (sv_engine s) of Inl _ \<Rightarrow> (Ok (), seen)
        | Inr schema \<Rightarrow> batch_unique e (sv_engine s) physical ?v (ts_columns schema) seen) = (cr, seen1)"
      by (metis prod.exhaust)
    note checked = routed [unfolded own sum.case chk prod.case]
    then obtain c where cr: "cr = Ok c" by (cases cr) auto
    obtain r tx1 where push: "tx_insert physical \<lparr> row_id = 0, row_values = ?v \<rparr> tx = (r, tx1)" by fastforce
    note pushed = checked [unfolded cr sum.case push prod.case]
    then obtain u where r: "r = Ok u" by (cases r) auto
    then have b: "b = BInsert (rq_table req) physical shard ?v (idem_key vals)" "tx' = tx1" using pushed by auto
    have ins: "tx_insert physical \<lparr> row_id = 0, row_values = ?v \<rparr> tx = (Ok u, tx1)" using push r by simp
    with b show ?thesis
      using assms(2) vals None route tx_push_writes(1) [of "WInsert physical \<lparr> row_id = 0, row_values = ?v \<rparr>" tx]
      by (simp add: buffers_def request_write_def is_write_def tx_insert_def Let_def)
  qed
qed

lemma buffer_op_writes:
  assumes "buffer_op e s a req tx seen = (Ok b, tx', seen')"
  shows "buffers e s req b tx tx'"
proof (cases "rq_op req")
  case OpInsert
  with assms show ?thesis by (auto simp: buffer_op_def intro: buffer_insert_writes)
next
  case OpGet
  with assms show ?thesis
    by (auto simp: buffer_op_def buffers_def request_write_def is_write_def dest!: batch_existing_writes split: option.splits prod.splits sum.splits)
next
  case OpUpdate
  with assms show ?thesis
    by (auto simp: buffer_op_def buffers_def request_write_def is_write_def tx_update_def dest!: batch_existing_writes tx_push_writes(1)
        split: option.splits prod.splits sum.splits)
next
  case OpDelete
  with assms show ?thesis
    by (auto simp: buffer_op_def buffers_def request_write_def is_write_def tx_delete_def dest!: batch_existing_writes tx_push_writes(1)
        split: option.splits prod.splits sum.splits)
qed (use assms in \<open>auto simp: buffer_op_def buffers_def request_write_def is_write_def\<close>)

lemma buffer_ops_writes:
  assumes "buffer_ops e s a reqs tx seen = (Ok bs, tx')"
  shows "tx_writes tx' = tx_writes tx @ batch_writes e s reqs \<and> map fst bs = map rq_id reqs \<and>
    length (batch_writes e s reqs) = length (filter (is_write \<circ> snd) bs) \<and>
    list_all2 (\<lambda>req (_, b). rq_op req \<noteq> OpUpdate \<longrightarrow> (\<forall>x y z w. b \<noteq> BUpdate x y z w)) reqs bs"
  using assms
proof (induction reqs arbitrary: tx seen bs)
  case (Cons req reqs)
  from Cons.prems obtain b tx1 seen1 bs1 where b: "buffer_op e s a req tx seen = (Ok b, tx1, seen1)"
    and rest: "buffer_ops e s a reqs tx1 seen1 = (Ok bs1, tx')" and bs: "bs = (rq_id req, b) # bs1"
    by (auto split: prod.splits sum.splits)
  have "\<not> is_write b \<Longrightarrow> b \<noteq> BUpdate x y z w" for x y z w by (auto simp: is_write_def)
  then show ?case
    using buffer_op_writes [OF b] Cons.IH [OF rest]
    by (auto simp: bs buffers_def batch_writes_def map_filter_simps split: option.split)
qed (auto simp: batch_writes_def map_filter_simps)
lemma handshake_frame:
  assumes "handshake q a req s = (a', req', s')"
  shows "req' = strip_auth req \<and> (\<exists>x. s' = s \<lparr> sv_sessions := x \<rparr>)"
proof -
  obtain tok vals where tv: "take_auth_token (rq_values req) = (tok, vals)" by fastforce
  have "s = s \<lparr> sv_sessions := sv_sessions s \<rparr>" by simp
  then have same: "\<exists>x. s = s \<lparr> sv_sessions := x \<rparr>" by blast
  show ?thesis
  proof (cases tok)
    case (Some t)
    obtain r s1 where r: "resolve_token (qe_now_millis q) t s = (r, s1)" by fastforce
    then have "\<exists>x. s1 = s \<lparr> sv_sessions := x \<rparr>" using same by (auto simp: resolve_token_def split: option.splits if_splits)
    with assms tv Some r show ?thesis by (cases r) (auto simp: handshake_def strip_auth_def)
  qed (use assms tv same in \<open>auto simp: handshake_def strip_auth_def\<close>)
qed

lemma authorize_ops_frame:
  assumes "authorize_ops q a reqs s = (res, a', s')"
  shows "(\<exists>x. s' = s \<lparr> sv_sessions := x \<rparr>) \<and> (\<forall>rs. res = Ok rs \<longrightarrow> rs = map strip_auth reqs)"
  using assms
proof (induction reqs arbitrary: a s res a' s')
  case Nil
  have "s = s \<lparr> sv_sessions := sv_sessions s \<rparr>" by simp
  then have "\<exists>x. s = s \<lparr> sv_sessions := x \<rparr>" by blast
  with Nil show ?case by auto
next
  case (Cons req reqs)
  obtain a1 req1 s1 where hs: "handshake q a req s = (a1, req1, s1)" by (metis prod_cases3)
  obtain x where x: "req1 = strip_auth req" "s1 = s \<lparr> sv_sessions := x \<rparr>" using handshake_frame [OF hs] by blast
  obtain res2 a2 s2 where rest: "authorize_ops q a1 reqs s1 = (res2, a2, s2)" by (metis prod_cases3)
  obtain y where y: "s2 = s1 \<lparr> sv_sessions := y \<rparr>" "\<forall>rs. res2 = Ok rs \<longrightarrow> rs = map strip_auth reqs"
    using Cons.IH [OF rest] by blast
  have "s' = s1 \<or> s' = s2" and "\<forall>rs. res = Ok rs \<longrightarrow> (\<exists>rs'. res2 = Ok rs' \<and> rs = req1 # rs')"
    using Cons.prems hs rest by (auto split: sum.splits if_splits)
  with x y show ?case by (auto simp: server.surjective)
qed

text \<open>One buffered operation: its response and the state the next one starts from.\<close>

lemma batch_results_step:
  assumes "batch_results e ts ((i, b) # bs) touched s = (rs, s')"
  obtains r rs1 s1 where "rs = r # rs1" and "rs_id r = i" and "sv_tx_manager s1 = sv_tx_manager s"
    and "batch_results e ts bs (if is_write b then tl touched else touched) s1 = (rs1, s')"
    and "(is_write b \<longrightarrow> touched \<noteq> []) \<and> (\<forall>x y z w. b \<noteq> BUpdate x y z w) \<longrightarrow> rs_ok r"
proof (cases b)
  case BPing
  with assms that show ?thesis by (auto simp: is_write_def response_ok_def split: prod.splits)
next
  case (BGet view)
  with assms that show ?thesis by (auto simp: is_write_def response_ok_def split: prod.splits)
next
  case ins: (BInsert base physical shard vals idem)
  show ?thesis
  proof (cases touched)
    case (Cons k ks)
    obtain nm local where k: "k = (nm, local)" by (cases k)
    let ?s = "case idem of Some x \<Rightarrow> idem_record e x (compose_id shard local)
        (emit_write_effects e ts base physical EInsert local (compose_id shard local) (Some vals) s)
      | None \<Rightarrow> emit_write_effects e ts base physical EInsert local (compose_id shard local) (Some vals) s"
    have "sv_tx_manager ?s = sv_tx_manager s" by (simp split: option.split)
    with assms ins Cons k that [of _ _ ?s] show ?thesis by (auto simp: is_write_def response_ok_def Let_def split: prod.splits)
  qed (use assms ins that in \<open>auto simp: is_write_def response_err_def split: prod.splits\<close>)
next
  case upd: (BUpdate base physical local global)
  show ?thesis
  proof (cases touched)
    case (Cons k ks)
    show ?thesis
    proof (cases "\<exists>r. engine_get physical local (sv_engine s) = Ok (Some r)")
      case True
      then obtain r where "engine_get physical local (sv_engine s) = Ok (Some r)" by blast
      with assms upd Cons that [of _ _ "emit_write_effects e ts base physical EUpdate local global (Some (row_values r)) s"]
      show ?thesis by (auto simp: is_write_def response_ok_def Let_def split: prod.splits)
    next
      case False
      with assms upd Cons that [of _ _ s] show ?thesis
        by (auto simp: is_write_def response_err_def split: prod.splits sum.splits option.splits)
    qed
  qed (use assms upd that in \<open>auto simp: is_write_def response_err_def split: prod.splits\<close>)
next
  case del: (BDelete base physical local global)
  show ?thesis
  proof (cases touched)
    case (Cons k ks)
    with assms del that [of _ _ "emit_write_effects e ts base physical EDelete local global None s"] show ?thesis
      by (auto simp: is_write_def response_ok_def Let_def split: prod.splits)
  qed (use assms del that in \<open>auto simp: is_write_def response_err_def split: prod.splits\<close>)
qed

lemma batch_results_frame:
  assumes "batch_results e ts bs touched s = (rs, s')"
  shows "sv_tx_manager s' = sv_tx_manager s \<and> map rs_id rs = map fst bs \<and>
    (length touched = length (filter (is_write \<circ> snd) bs) \<longrightarrow>
       list_all2 (\<lambda>(_, b) r. (\<forall>x y z w. b \<noteq> BUpdate x y z w) \<longrightarrow> rs_ok r) bs rs)"
  using assms
proof (induction bs arbitrary: touched s rs s')
  case (Cons x bs)
  obtain i b where x: "x = (i, b)" by (cases x)
  from Cons.prems obtain r rs1 s1 where step: "rs = r # rs1" "rs_id r = i" "sv_tx_manager s1 = sv_tx_manager s"
    and rest: "batch_results e ts bs (if is_write b then tl touched else touched) s1 = (rs1, s')"
    and ok: "(is_write b \<longrightarrow> touched \<noteq> []) \<and> (\<forall>x y z w. b \<noteq> BUpdate x y z w) \<longrightarrow> rs_ok r"
    unfolding x by (rule batch_results_step)
  show ?case using Cons.IH [OF rest] step ok by (cases touched) (auto simp: x)
qed simp
section \<open>All or nothing\<close>

lemma request_write_cong:
  "request_write e (s \<lparr> sv_sessions := x, sv_tx_manager := m \<rparr>) req = request_write e s req"
  "request_write e (s \<lparr> sv_tx_manager := m, sv_sessions := x \<rparr>) req = request_write e s req"
  by (simp_all add: request_write_def shards_of_def idem_lookup_def [abs_def] Let_def cong: op.case_cong)

lemma apply_writes_length:
  "apply_writes ws acc eng = (Ok touched, eng') \<Longrightarrow> length touched = length acc + length ws"
  using apply_writes_touched [of ws acc eng touched eng'] by (auto dest: list_all2_lengthD)

lemma no_ok_responses: "\<not> (\<exists>r \<in> set (map (\<lambda>x. response_err (f x) m) xs). rs_ok r)"
  by (auto simp: response_err_def)

definition batch_outcome :: "batch_request \<Rightarrow> write_op list \<Rightarrow> engine \<Rightarrow> batch_response \<Rightarrow> engine \<Rightarrow> bool" where
  "batch_outcome batch writes eng resp eng' \<longleftrightarrow>
     bs_id resp = bq_id batch \<and> map rs_id (bs_results resp) = map rq_id (bq_ops batch) \<and>
     (if \<forall>r \<in> set (bs_results resp). \<not> rs_ok r
      then eng' = eng \<or> (\<exists>res. apply_writes writes [] eng = (res, eng'))
      else (\<exists>touched. apply_writes writes [] eng = (Ok touched, eng')) \<and>
        list_all2 (\<lambda>req r. rq_op req \<noteq> OpUpdate \<longrightarrow> rs_ok r) (bq_ops batch) (bs_results resp))"

lemma aborted_outcome: "batch_outcome batch writes eng (abort_all batch m) eng"
  by (auto simp: batch_outcome_def abort_all_def response_err_def)

text \<open>The outcome once the operations are buffered.\<close>

lemma commit_outcome:
  assumes "buffer_ops e s a (map strip_auth (bq_ops batch)) tx {} = (Ok bs, tx1)" and "tx_writes tx = []"
    and "tm_commit tx1 (sv_tx_manager s) = (cres, tx2, m)" and "writes = batch_writes e s (map strip_auth (bq_ops batch))"
    and "(rs, s') = (case cres of
        Inl err \<Rightarrow> (map (\<lambda>(i, _). response_err i (f err)) bs, s \<lparr> sv_tx_manager := m \<rparr>)
      | Inr touched \<Rightarrow> batch_results e ts bs touched (s \<lparr> sv_tx_manager := m \<rparr>))"
  shows "batch_outcome batch writes (sv_engine s) \<lparr> bs_id = bq_id batch, bs_results = rs \<rparr> (sv_engine s')"
proof -
  note buffered = buffer_ops_writes [OF assms(1)]
  have ids: "map fst bs = map rq_id (bq_ops batch)" using buffered by (simp add: strip_auth_def o_def)
  have outcome: "case cres of
      Inr touched \<Rightarrow> apply_writes writes [] (sv_engine s) = (Ok touched, tm_engine m)
    | Inl _ \<Rightarrow> tm_engine m = sv_engine s \<or> (\<exists>err. apply_writes writes [] (sv_engine s) = (Err err, tm_engine m))"
    using tm_commit_outcome [OF assms(3)] buffered assms(2,4) by (cases cres) simp_all
  show ?thesis
  proof (cases cres)
    case (Inl err)
    then show ?thesis
      using outcome assms(5) ids by (auto simp: batch_outcome_def response_err_def o_def case_prod_beta')
  next
    case committed: (Inr touched)
    then have results: "batch_results e ts bs touched (s \<lparr> sv_tx_manager := m \<rparr>) = (rs, s')" using assms(5) by simp
    note frame = batch_results_frame [OF results]
    have "length touched = length (filter (is_write \<circ> snd) bs)"
      using apply_writes_length [of writes "[]"] outcome committed buffered assms(4) by simp
    with frame have ok: "list_all2 (\<lambda>(_, b) r. (\<forall>x y z w. b \<noteq> BUpdate x y z w) \<longrightarrow> rs_ok r) bs rs" by blast
    have "list_all2 (\<lambda>req (_, b). rq_op req \<noteq> OpUpdate \<longrightarrow> (\<forall>x y z w. b \<noteq> BUpdate x y z w)) (bq_ops batch) bs"
      using buffered by (simp add: list.rel_map strip_auth_def)
    from list_all2_trans [OF _ this ok, of "\<lambda>req r. rq_op req \<noteq> OpUpdate \<longrightarrow> rs_ok r"]
    have "list_all2 (\<lambda>req r. rq_op req \<noteq> OpUpdate \<longrightarrow> rs_ok r) (bq_ops batch) rs" by fastforce
    then show ?thesis using outcome committed frame ids by (auto simp: batch_outcome_def)
  qed
qed

text \<open>
  C9: An atomic batch is refused, or fails while it is applied, or is applied whole. Each operation
  gets one response under its own number, in order. In the first two cases every response is an
  error, and the tables are untouched or what applying the writes in order left; in the third the
  tables hold exactly the writes the operations ask for, in their order, and every
  operation but an update of a row that the batch itself removes is answered with success.
\<close>

theorem atomic_batch_outcome:
  assumes "execute_atomic d q authed batch s = (resp, authed', s')"
    and "writes = batch_writes (de_server d) s (map strip_auth (bq_ops batch))"
  shows "bs_id resp = bq_id batch \<and> map rs_id (bs_results resp) = map rq_id (bq_ops batch) \<and>
    (if \<forall>r \<in> set (bs_results resp). \<not> rs_ok r
     then sv_engine s' = sv_engine s \<or> (\<exists>res. apply_writes writes [] (sv_engine s) = (res, sv_engine s'))
     else (\<exists>touched. apply_writes writes [] (sv_engine s) = (Ok touched, sv_engine s')) \<and>
       list_all2 (\<lambda>req r. rq_op req \<noteq> OpUpdate \<longrightarrow> rs_ok r) (bq_ops batch) (bs_results resp))"
  unfolding batch_outcome_def [symmetric]
proof -
  let ?e = "de_server d"
  obtain res a1 s1 where auth: "authorize_ops q authed (bq_ops batch) s = (res, a1, s1)" by (metis prod_cases3)
  obtain x where s1: "s1 = s \<lparr> sv_sessions := x \<rparr>" and ops: "\<And>rs. res = Ok rs \<Longrightarrow> rs = map strip_auth (bq_ops batch)"
    using authorize_ops_frame [OF auth] by blast
  obtain tx m where started: "tm_begin RepeatableRead (sv_tx_manager s1) = (tx, m)" by fastforce
  define s2 where "s2 = s1 \<lparr> sv_tx_manager := m \<rparr>"
  have s2: "sv_engine s2 = sv_engine s" "tx_writes tx = []"
    using started by (auto simp: s2_def s1 tm_begin_def tx_new_def)
  obtain br tx1 where buf: "buffer_ops ?e s2 a1 (map strip_auth (bq_ops batch)) tx {} = (br, tx1)" by fastforce
  show "batch_outcome batch writes (sv_engine s) resp (sv_engine s')"
  proof (cases "(\<exists>m. res = Err m) \<or> (\<exists>m. br = Err m)")
    case True
    then have "\<exists>m. resp = abort_all batch m \<and> sv_engine s' = sv_engine s"
      using assms(1) auth ops started buf s2 by (cases res) (auto simp: execute_atomic_def s1 s2_def)
    then show ?thesis using aborted_outcome by auto
  next
    case False
    then obtain bs where res: "res = Ok (map strip_auth (bq_ops batch))" and br: "br = Ok bs" using ops by (cases res; cases br) auto
    obtain cres tx2 m2 where commit: "tm_commit tx1 (sv_tx_manager s2) = (cres, tx2, m2)" by (metis prod_cases3)
    have writes: "writes = batch_writes ?e s2 (map strip_auth (bq_ops batch))"
      by (simp add: assms(2) s2_def s1 batch_writes_def request_write_cong [abs_def])
    have "\<exists>rs. resp = \<lparr> bs_id = bq_id batch, bs_results = rs \<rparr> \<and> (rs, s') = (case cres of
        Inl err \<Rightarrow> (map (\<lambda>(i, _). response_err i (''atomic batch aborted: '' @ tx_error_text (se_debug ?e) err)) bs, s2 \<lparr> sv_tx_manager := m2 \<rparr>)
      | Inr touched \<Rightarrow> batch_results ?e (qe_now_micros q) bs touched (s2 \<lparr> sv_tx_manager := m2 \<rparr>))"
      using assms(1) auth res started buf br commit
      by (cases cres) (auto simp: execute_atomic_def s2_def split: prod.splits)
    then show ?thesis using commit_outcome [OF buf [unfolded br] s2(2) commit writes] s2(1) by auto
  qed
qed
section \<open>Examples\<close>

definition keyed_batch :: "val list \<Rightarrow> batch_request" where
  "keyed_batch ks = \<lparr> bq_id = 1, bq_ops = map (\<lambda>k. demo_request OpInsert ''t'' None (Some [(''k'', k)])) ks \<rparr>"

definition run_batch :: "batch_request \<Rightarrow> server \<Rightarrow> batch_response \<times> identity option \<times> server" where
  "run_batch b s = execute_atomic demo_dispatch_env demo_request_env None b s"

lemma keyed_batch_ok: "map rs_ok (bs_results (fst (run_batch (keyed_batch [VInt64 1, VInt64 2]) (demo_call_server [])))) = [True, True]"
  by code_simp

theorem atomic_batch_outcome_witness:
  "\<exists>writes touched. apply_writes writes [] (sv_engine (demo_call_server [])) =
     (Ok touched, sv_engine (snd (snd (run_batch (keyed_batch [VInt64 1, VInt64 2]) (demo_call_server [])))))"
proof -
  let ?r = "run_batch (keyed_batch [VInt64 1, VInt64 2]) (demo_call_server [])"
  have "execute_atomic demo_dispatch_env demo_request_env None (keyed_batch [VInt64 1, VInt64 2]) (demo_call_server []) =
      (fst ?r, fst (snd ?r), snd (snd ?r))" by (simp add: run_batch_def)
  note outcome = atomic_batch_outcome [OF this refl]
  have "True \<in> set (map rs_ok (bs_results (fst ?r)))" by (simp add: keyed_batch_ok del: set_map)
  then have "\<not> (\<forall>r \<in> set (bs_results (fst ?r)). \<not> rs_ok r)" by auto
  with outcome show ?thesis by auto
qed

text \<open>
  A failing atomic batch can leave rows behind: only columns declared unique are checked before
  the commit, so a batch that inserts the same primary key twice fails while it is applied. Both
  responses report an abort, but the first row stays in the table.
\<close>

theorem aborted_batch_leaves_rows:
  "map rs_ok (bs_results (fst (run_batch (keyed_batch [VInt64 1, VInt64 1]) (demo_call_server [])))) = [False, False] \<and>
   engine_get ''t'' 1 (sv_engine (demo_call_server [])) = Ok None \<and>
   engine_get ''t'' 1 (sv_engine (snd (snd (run_batch (keyed_batch [VInt64 1, VInt64 1]) (demo_call_server []))))) =
     Ok (Some \<lparr> row_id = 1, row_values = [(''k'', VInt64 1)] \<rparr>)"
  by code_simp

definition null_schema :: table_schema where
  "null_schema = with_column (schema_new 1 ''t'') (column_unique (column_nullable (column_new ''k'' TInt64)))"

definition null_server :: server where
  "null_server = (server_new demo_config []) \<lparr> sv_tx_manager := tm_new (snd (engine_create_table null_schema engine_new)) \<rparr>"

text \<open>
  Null values are not unique in the engine, but a batch with two of them in a unique column is
  refused, while the same requests sent one after the other are accepted.
\<close>

lemma batch_refuses_two_nulls:
  "map rs_ok (bs_results (fst (run_batch (keyed_batch [VNull, VNull]) null_server))) = [False, False] \<and>
   map rs_ok (fst (handle_ops demo_dispatch_env demo_request_env None (bq_ops (keyed_batch [VNull, VNull])) null_server)) = [True, True]"
  by code_simp

end
