(* ===== verification/Connection.thy ===== *)
theory Connection
  imports Atomic_Batch
begin

text \<open>
  A connection (\<open>handle_stream\<close>, \<open>encode_get_fast\<close>, \<open>encode_scan_fast\<close> and \<open>run_push_stream\<close> of
  \<open>blitz-server/src/transport.rs\<close>): bytes are staged, complete frames are decoded, handled and
  answered in order, until the client goes away or a frame cannot be read or answered. Admission
  to the server is in \<open>Admission\<close>; timeouts, failing writes to the socket and the counters of
  bytes and requests are left out. What a request reads from outside is supplied per frame.
\<close>

section \<open>Answering one frame\<close>

definition too_large_text :: "nat \<Rightarrow> string" where
  "too_large_text n = ''response too large ('' @ nat_text n @ '' rows)''"

text \<open>A response beyond the frame limit is replaced by an error.\<close>

definition encode_or_too_large :: "chrono \<Rightarrow> frame_codec \<Rightarrow> response \<Rightarrow> protocol_error + u8 list" where
  "encode_or_too_large chr c resp =
     (case encode_response chr c resp of
        Inr f \<Rightarrow> Ok f
      | Inl _ \<Rightarrow> encode_response chr c (response_err (rs_id resp) (too_large_text (length (rs_rows resp)))))"

definition encode_get_fast ::
  "dispatch_env \<Rightarrow> chrono \<Rightarrow> frame_codec \<Rightarrow> identity option \<Rightarrow> request \<Rightarrow> server \<Rightarrow> protocol_error + u8 list" where
  "encode_get_fast d chr c authed req s =
     (let i = rq_id req in
      case rq_row_id req of
        None \<Rightarrow> encode_response chr c (response_err i ''get requires row_id'')
      | Some global \<Rightarrow>
          (let (physical, local) = route_id (shards_of s) (rq_table req) global in
           case engine_get physical local (sv_engine s) of
             Inr (Some r) \<Rightarrow>
               (case enforce_owner s authed OpGet (rq_table req) (row_values r) of
                  Inl _ \<Rightarrow> encode_response chr c (response_err i (''row not found: '' @ u64_text global))
                | Inr _ \<Rightarrow> encode_ok_single chr c i global (row_values r))
           | Inr None \<Rightarrow> encode_response chr c (response_err i (''row not found: '' @ u64_text global))
           | Inl e \<Rightarrow> encode_response chr c (response_err i (core_error_text (se_debug (de_server d)) e))))"

definition encode_scan_fast ::
  "dispatch_env \<Rightarrow> chrono \<Rightarrow> frame_codec \<Rightarrow> identity option \<Rightarrow> request \<Rightarrow> server \<Rightarrow> protocol_error + u8 list" where
  "encode_scan_fast d chr c authed req s =
     (let i = rq_id req; w = scan_pagination (rq_values req) in
      case scan_merged d s (rq_table req) of
        Inl m \<Rightarrow> encode_response chr c (response_err i m)
      | Inr merged \<Rightarrow>
          (let merged = (if owner_column s (rq_table req) \<noteq> None
                         then filter (\<lambda>(_, r). is_ok (enforce_owner s authed OpScan (rq_table req) (row_values r))) merged
                         else merged);
               borrowed = map (\<lambda>(g, r). (g, row_values r)) (scan_page w merged) in
           case encode_ok_borrowed chr c i borrowed of
             Inr f \<Rightarrow> Ok f
           | Inl _ \<Rightarrow> encode_response chr c (response_err i (too_large_text (length borrowed)))))"

definition serve_single ::
  "dispatch_env \<Rightarrow> request_env \<Rightarrow> chrono \<Rightarrow> frame_codec \<Rightarrow> identity option \<Rightarrow> request \<Rightarrow> server \<Rightarrow>
   (protocol_error + u8 list) \<times> identity option \<times> server" where
  "serve_single d q chr c authed req s =
     (let (authed, req, s) = handshake q authed req s in
      case authorize s authed (rq_op req) (rq_table req) of
        Inl e \<Rightarrow> (encode_response chr c (response_err (rq_id req) e), authed, s)
      | Inr _ \<Rightarrow>
          if rq_op req = OpGet then (encode_get_fast d chr c authed req s, authed, s)
          else if rq_op req = OpScan then (encode_scan_fast d chr c authed req s, authed, s)
          else (let (resp, s) = dispatch d q authed req s in (encode_or_too_large chr c resp, authed, s)))"

definition MAX_BATCH_OPS :: nat where "MAX_BATCH_OPS = 4096"

definition encode_batch_or_error :: "chrono \<Rightarrow> frame_codec \<Rightarrow> batch_response \<Rightarrow> protocol_error + u8 list" where
  "encode_batch_or_error chr c b =
     (case encode_batch_response chr c b of
        Inr f \<Rightarrow> Ok f
      | Inl _ \<Rightarrow> encode_response chr c (response_err (bs_id b) ''batch response too large''))"

definition serve_incoming ::
  "dispatch_env \<Rightarrow> request_env \<Rightarrow> chrono \<Rightarrow> frame_codec \<Rightarrow> identity option \<Rightarrow> incoming \<Rightarrow> server \<Rightarrow>
   (protocol_error + u8 list) \<times> identity option \<times> server" where
  "serve_incoming d q chr c authed m s =
     (case m of
        Single req \<Rightarrow> serve_single d q chr c authed req s
      | Batch b \<Rightarrow>
          if MAX_BATCH_OPS < length (bq_ops b)
          then (encode_response chr c (response_err (bq_id b) ''batch too large (max 4096 ops)''), authed, s)
          else
            (let (results, authed, s) = handle_ops d q authed (bq_ops b) s in
             (encode_batch_or_error chr c \<lparr> bs_id = bq_id b, bs_results = results \<rparr>, authed, s))
      | AtomicBatch b \<Rightarrow>
          if MAX_BATCH_OPS < length (bq_ops b)
          then (encode_response chr c (response_err (bq_id b) ''batch too large (max 4096 ops)''), authed, s)
          else
            (let (resp, authed, s) = execute_atomic d q authed b s in (encode_batch_or_error chr c resp, authed, s)))"

section \<open>The loop\<close>

datatype conn_error = CeReceive recv_error | CeDecode protocol_error | CeEncode protocol_error

datatype conn_end =
    ConnOpen
  | ConnClosed
  | ConnFailed conn_error
  | ConnStream u64 string

record connection =
  cn_staging :: "u8 list"
  cn_authed :: "identity option"
  cn_out :: "u8 list"
  cn_frames :: nat
  cn_end :: conn_end

definition connection_new :: connection where
  "connection_new = \<lparr> cn_staging = [], cn_authed = None, cn_out = [], cn_frames = 0, cn_end = ConnOpen \<rparr>"

text \<open>The upgrade of a connection to a stream of changes: refused, or the end of requests on it.\<close>

definition upgrade_stream ::
  "request_env \<Rightarrow> chrono \<Rightarrow> frame_codec \<Rightarrow> request \<Rightarrow> connection \<times> server \<Rightarrow> connection \<times> server" where
  "upgrade_stream q chr c req cs =
     (let (cn, s) = cs; (authed, req, s) = handshake q (cn_authed cn) req s; cn = cn \<lparr> cn_authed := authed \<rparr>;
          refuse = (\<lambda>m. case encode_response chr c (response_err (rq_id req) m) of
                          Inl e \<Rightarrow> (cn \<lparr> cn_end := ConnFailed (CeEncode e) \<rparr>, s)
                        | Inr f \<Rightarrow> (cn \<lparr> cn_out := cn_out cn @ f, cn_end := ConnClosed \<rparr>, s)) in
      case authorize s authed (rq_op req) (rq_table req) of
        Inl m \<Rightarrow> refuse m
      | Inr _ \<Rightarrow>
          if cf_require_auth (sv_config s) \<and> owner_column s (rq_table req) \<noteq> None
          then refuse ''push streams disabled on row-owner tables (poll instead)''
          else (cn \<lparr> cn_end := ConnStream (rq_id req) (rq_table req) \<rparr>, s))"

definition serve_payload ::
  "dispatch_env \<Rightarrow> (nat \<Rightarrow> request_env) \<Rightarrow> chrono \<Rightarrow> frame_codec \<Rightarrow> u8 list \<Rightarrow> connection \<times> server \<Rightarrow> connection \<times> server" where
  "serve_payload d env chr c payload cs =
     (let (cn, s) = cs; q = env (cn_frames cn); cn = cn \<lparr> cn_frames := cn_frames cn + 1 \<rparr> in
      case decode_incoming chr payload of
        Inl e \<Rightarrow> (cn \<lparr> cn_end := ConnFailed (CeDecode e) \<rparr>, s)
      | Inr m \<Rightarrow>
          if (case m of Single req \<Rightarrow> rq_op req = OpSubscribe \<and> is_stream_subscribe (rq_values req) | _ \<Rightarrow> False)
          then (case m of Single req \<Rightarrow> upgrade_stream q chr c req (cn, s) | _ \<Rightarrow> (cn, s))
          else
            (case serve_incoming d q chr c (cn_authed cn) m s of
               (Inl e, authed, s) \<Rightarrow> (cn \<lparr> cn_authed := authed, cn_end := ConnFailed (CeEncode e) \<rparr>, s)
             | (Inr f, authed, s) \<Rightarrow> (cn \<lparr> cn_authed := authed, cn_out := cn_out cn @ f \<rparr>, s)))"

text \<open>Complete frames are handled in order until one of them ends the connection.\<close>

fun serve_payloads ::
  "dispatch_env \<Rightarrow> (nat \<Rightarrow> request_env) \<Rightarrow> chrono \<Rightarrow> frame_codec \<Rightarrow> u8 list list \<Rightarrow> connection \<times> server \<Rightarrow> connection \<times> server" where
  "serve_payloads d env chr c [] cs = cs"
| "serve_payloads d env chr c (p # ps) cs =
     (if cn_end (fst cs) = ConnOpen then serve_payloads d env chr c ps (serve_payload d env chr c p cs) else cs)"

text \<open>One read from the socket; no bytes are the orderly end of the connection.\<close>

definition serve_chunk ::
  "dispatch_env \<Rightarrow> (nat \<Rightarrow> request_env) \<Rightarrow> chrono \<Rightarrow> frame_codec \<Rightarrow> u8 list \<Rightarrow> connection \<times> server \<Rightarrow> connection \<times> server" where
  "serve_chunk d env chr c chunk cs =
     (let (cn, s) = cs in
      if cn_end cn \<noteq> ConnOpen then cs
      else if chunk = [] then (cn \<lparr> cn_end := ConnClosed \<rparr>, s)
      else
        (let (ps, err, staging) = receive c (cn_staging cn) chunk;
             (cn, s) = serve_payloads d env chr c ps (cn \<lparr> cn_staging := staging \<rparr>, s) in
         case err of
           Some e \<Rightarrow> if cn_end cn = ConnOpen then (cn \<lparr> cn_end := ConnFailed (CeReceive e) \<rparr>, s) else (cn, s)
         | None \<Rightarrow> (cn, s)))"

definition serve_chunks ::
  "dispatch_env \<Rightarrow> (nat \<Rightarrow> request_env) \<Rightarrow> chrono \<Rightarrow> frame_codec \<Rightarrow> u8 list list \<Rightarrow> connection \<times> server \<Rightarrow> connection \<times> server" where
  "serve_chunks d env chr c chunks cs = fold (serve_chunk d env chr c) chunks cs"

section \<open>Streams of changes\<close>

definition push_frame :: "change_record \<Rightarrow> response" where
  "push_frame r = response_ok (cr_seq r) [\<lparr> rv_id = cr_seq r, rv_values =
     [(''table'', VString (cr_table r)), (''op'', VString (cr_op r)),
      (''row_id'', VInt64 (cr_row_id r)), (''ts'', VInt64 (cr_ts_micros r))] \<rparr>]"

text \<open>The first frames of a stream, given the changes its channel delivers before it ends.\<close>

fun push_frames :: "chrono \<Rightarrow> frame_codec \<Rightarrow> change_record list \<Rightarrow> u8 list \<Rightarrow> protocol_error option \<times> u8 list" where
  "push_frames chr c [] out = (None, out)"
| "push_frames chr c (r # rs) out =
     (case encode_response chr c (push_frame r) of
        Inl e \<Rightarrow> (Some e, out)
      | Inr f \<Rightarrow> push_frames chr c rs (out @ f))"

definition open_stream :: "chrono \<Rightarrow> frame_codec \<Rightarrow> u64 \<Rightarrow> string \<Rightarrow> server \<Rightarrow> (protocol_error + u64 \<times> u8 list) \<times> server" where
  "open_stream chr c ack_id table s =
     (let (sub, s) = push_subscribe table s in
      case encode_response chr c (response_ok ack_id []) of
        Inl e \<Rightarrow> (Err e, s)
      | Inr f \<Rightarrow> (Ok (sub, f), s))"

definition run_push_stream ::
  "chrono \<Rightarrow> frame_codec \<Rightarrow> u64 \<Rightarrow> string \<Rightarrow> change_record list \<Rightarrow> server \<Rightarrow> protocol_error option \<times> u8 list \<times> server" where
  "run_push_stream chr c ack_id table recs s =
     (case open_stream chr c ack_id table s of
        (Inl e, s) \<Rightarrow> (Some e, [], s)
      | (Inr (sub, ack), s) \<Rightarrow>
          (case push_frames chr c recs ack of
             (Some e, out) \<Rightarrow> (Some e, out, s)
           | (None, out) \<Rightarrow> (None, out, push_unsubscribe table sub s)))"
section \<open>The fast paths\<close>

lemma encode_ok_single_eq: "encode_ok_single chr c i g vals = encode_response chr c (response_ok i [\<lparr> rv_id = g, rv_values = vals \<rparr>])"
  by (simp add: encode_ok_single_def encode_response_def w_response_borrowed_eq row_views_def)

lemma get_fast_eq: "encode_get_fast d chr c authed req s = encode_response chr c (dispatch_get d authed req s)"
  by (simp add: encode_get_fast_def dispatch_get_def encode_ok_single_eq row_to_view_def Let_def
      split: option.split prod.split sum.split)

lemma scan_fast_eq:
  assumes "scan_merged d s (rq_table req) = Ok merged"
  shows "encode_scan_fast d chr c authed req s = encode_or_too_large chr c (dispatch_scan d authed req s)"
proof -
  define page where "page = scan_page (scan_pagination (rq_values req)) (if owner_column s (rq_table req) \<noteq> None
      then filter (\<lambda>(_, r). is_ok (enforce_owner s authed OpScan (rq_table req) (row_values r))) merged else merged)"
  have "row_views (map (\<lambda>(g, r). (g, row_values r)) page) = map (\<lambda>(g, r). row_to_view g r) page"
    by (simp add: row_views_def row_to_view_def case_prod_beta' o_def)
  then have e: "encode_ok_borrowed chr c (rq_id req) (map (\<lambda>(g, r). (g, row_values r)) page) =
      encode_response chr c (response_ok (rq_id req) (map (\<lambda>(g, r). row_to_view g r) page))"
    by (simp only: encode_ok_borrowed_def encode_response_def w_response_borrowed_eq)
  have "encode_scan_fast d chr c authed req s =
      (case encode_ok_borrowed chr c (rq_id req) (map (\<lambda>(g, r). (g, row_values r)) page) of
         Inr f \<Rightarrow> Ok f
       | Inl _ \<Rightarrow> encode_response chr c (response_err (rq_id req) (too_large_text (length page))))"
    using assms by (simp only: encode_scan_fast_def Let_def page_def sum.case length_map)
  moreover have "dispatch_scan d authed req s = response_ok (rq_id req) (map (\<lambda>(g, r). row_to_view g r) page)"
    using assms by (simp only: dispatch_scan_def Let_def page_def sum.case)
  ultimately show ?thesis unfolding e by (simp add: encode_or_too_large_def response_ok_def split: sum.split)
qed

lemma scan_fast_err:
  assumes "scan_merged d s (rq_table req) = Err m"
  shows "encode_scan_fast d chr c authed req s = encode_response chr c (dispatch_scan d authed req s)"
  using assms by (simp add: encode_scan_fast_def dispatch_scan_def)

lemma scan_fast_Ok:
  "encode_response chr c (dispatch_scan d authed req s) = Ok f \<Longrightarrow> encode_scan_fast d chr c authed req s = Ok f"
  by (cases "scan_merged d s (rq_table req)") (simp_all add: scan_fast_eq scan_fast_err encode_or_too_large_def)

lemma serve_single_Ok:
  assumes "handle_request d q authed req s = (resp, authed', s')" and "encode_response chr c resp = Ok f"
  shows "serve_single d q chr c authed req s = (Ok f, authed', s')"
proof -
  obtain a req1 s1 where hs: "handshake q authed req s = (a, req1, s1)" by (metis prod_cases3)
  show ?thesis
  proof (cases "authorize s1 a (rq_op req1) (rq_table req1)")
    case (Inl e)
    with assms hs show ?thesis by (auto simp: handle_request_def serve_single_def)
  next
    case (Inr u)
    have "dispatch_op OpGet d q a req1 s1 = (dispatch_get d a req1 s1, s1)" "dispatch_op OpScan d q a req1 s1 = (dispatch_scan d a req1 s1, s1)"
      by simp_all
    with assms hs Inr show ?thesis
      by (auto simp: handle_request_def serve_single_def dispatch_def get_fast_eq encode_or_too_large_def
          intro: scan_fast_Ok split: prod.splits)
  qed
qed

section \<open>However the bytes arrive\<close>

lemma feed_append_err: "feed c buf = (Err e, b) \<Longrightarrow> feed c (buf @ chunk) = (Err e, b @ chunk)"
proof -
  assume a: "feed c buf = (Err e, b)"
  then have "5 \<le> length buf" by (auto simp: feed_def HEADER_LEN_def split: if_splits)
  then obtain h t where "buf = h # t" "4 \<le> length t" by (cases buf) auto
  with a show ?thesis by (auto simp: feed_def HEADER_LEN_def Let_def split: if_splits)
qed

lemma drain_append_err:
  assumes "drain c buf = (ps, Some e, b)"
  shows "\<exists>qs b'. drain c (buf @ chunk) = (qs, Some e, b')"
  using assms
proof (induction c buf arbitrary: ps rule: drain.induct)
  case (1 c buf)
  obtain r b1 where r: "feed c buf = (r, b1)" by fastforce
  consider (err) x where "r = Err x" | (none) "r = Ok None" | (some) p where "r = Ok (Some p)" by (cases r; cases "projr r") auto
  then show ?case
  proof cases
    case err
    with 1(2) r have "x = e" by (simp add: drain.simps [of c buf])
    with err r feed_append_err [of c buf x b1 chunk] show ?thesis by (subst drain.simps) simp
  next
    case none
    with 1(2) r show ?thesis by (simp add: drain.simps [of c buf])
  next
    case some
    obtain ps1 where "drain c b1 = (ps1, Some e, b)" using 1(2) r some by (auto simp: drain.simps [of c buf] split: prod.splits)
    from 1(1) [OF r [symmetric] some refl this] obtain qs b' where "drain c (b1 @ chunk) = (qs, Some e, b')" by blast
    with some r feed_append [of c buf p b1 chunk] show ?thesis by (subst drain.simps) simp
  qed
qed

lemma drain_rest: "drain c buf = (ps, None, b) \<Longrightarrow> drain c b = ([], None, b)"
  using drain_append_aux [of c buf ps b "[]"] by (auto simp: Let_def split: prod.splits)

fun chunks_fit :: "frame_codec \<Rightarrow> u8 list \<Rightarrow> u8 list list \<Rightarrow> bool" where
  "chunks_fit c staging [] \<longleftrightarrow> True"
| "chunks_fit c staging (ch # chs) \<longleftrightarrow> ch \<noteq> [] \<and> length (staging @ ch) \<le> max_frame c + HEADER_LEN \<and>
     chunks_fit c (snd (snd (drain c (staging @ ch)))) chs"

lemma serve_payloads_append:
  "serve_payloads d env chr c (ps @ qs) cs = serve_payloads d env chr c qs (serve_payloads d env chr c ps cs)"
proof (induction ps arbitrary: cs)
  case (Cons p ps)
  have "cn_end (fst cs) \<noteq> ConnOpen \<Longrightarrow> serve_payloads d env chr c qs cs = cs" by (cases qs) auto
  with Cons show ?case by auto
qed simp

lemma ended_stays: "cn_end (fst cs) \<noteq> ConnOpen \<Longrightarrow> serve_payloads d env chr c ps cs = cs"
  by (cases ps) auto

text \<open>What is left in the staging buffer plays no part in answering the frames.\<close>

definition restage :: "u8 list \<Rightarrow> connection \<times> server \<Rightarrow> connection \<times> server" where
  "restage b cs = ((fst cs) \<lparr> cn_staging := b \<rparr>, snd cs)"

lemma restage_simps [simp]:
  "cn_end (fst (restage b cs)) = cn_end (fst cs)" "restage b (restage b' cs) = restage b cs"
  by (simp_all add: restage_def)

lemma serve_payload_restage: "serve_payload d env chr c p (restage b cs) = restage b (serve_payload d env chr c p cs)"
  by (cases cs) (auto simp: serve_payload_def upgrade_stream_def restage_def Let_def split: sum.split incoming.split prod.split)

lemma serve_payloads_restage: "serve_payloads d env chr c ps (restage b cs) = restage b (serve_payloads d env chr c ps cs)"
  by (induction ps arbitrary: cs) (simp_all add: serve_payload_restage)

lemma serve_chunks_drain:
  assumes "chunks_fit c st chunks" and "drain c st = ([], None, st)"
    and "drain c (st @ concat chunks) = (ps, None, b)"
    and "cn_end (fst (serve_payloads d env chr c ps cs)) = ConnOpen"
  shows "serve_chunks d env chr c chunks (restage st cs) = restage b (serve_payloads d env chr c ps cs)"
  using assms
proof (induction chunks arbitrary: st ps cs)
  case Nil
  then show ?case by (simp add: serve_chunks_def)
next
  case (Cons ch chunks)
  obtain ps1 e b1 where d1: "drain c (st @ ch) = (ps1, e, b1)" by (metis prod_cases3)
  have "e = None"
    using drain_append_err [of c "st @ ch" ps1 _ b1 "concat chunks"] d1 Cons.prems(3) by (cases e) auto
  obtain ps2 where ps: "drain c (b1 @ concat chunks) = (ps2, None, b)" "ps = ps1 @ ps2"
    using drain_append_aux [of c "st @ ch" ps1 b1 "concat chunks"] d1 \<open>e = None\<close> Cons.prems(3)
    by (auto simp: Let_def split: prod.splits)
  define cs1 where "cs1 = serve_payloads d env chr c ps1 cs"
  have all: "serve_payloads d env chr c ps cs = serve_payloads d env chr c ps2 cs1"
    by (simp add: ps(2) serve_payloads_append cs1_def)
  have open1: "cn_end (fst cs1) = ConnOpen"
    using Cons.prems(4) ended_stays [of cs1 d env chr c ps2] unfolding all by metis
  have open0: "cn_end (fst cs) = ConnOpen"
    using open1 ended_stays [of cs d env chr c ps1] unfolding cs1_def by metis
  have fit: "ch \<noteq> []" "\<not> max_frame c + HEADER_LEN < length (st @ ch)" "chunks_fit c b1 chunks"
    using Cons.prems(1) d1 by auto
  have "receive c st ch = (ps1, None, b1)"
    using fit(2) d1 \<open>e = None\<close> by (simp add: receive_def)
  moreover have "restage b1 (restage st cs) = restage b1 cs" by simp
  ultimately have "serve_chunk d env chr c ch (restage st cs) = serve_payloads d env chr c ps1 (restage b1 cs)"
    using fit(1) open0 by (simp add: serve_chunk_def restage_def case_prod_beta')
  then have step: "serve_chunk d env chr c ch (restage st cs) = restage b1 cs1"
    by (simp add: serve_payloads_restage cs1_def)
  have "drain c b1 = ([], None, b1)" using drain_rest d1 \<open>e = None\<close> by blast
  from Cons.IH [OF fit(3) this ps(1)] Cons.prems(4) show ?case
    unfolding all by (simp add: serve_chunks_def step)
qed

section \<open>Requests answered in order\<close>

text \<open>What a client expects of a connection, with no bytes in sight: each message handled after
  the one before it.\<close>

datatype answer = AnsOne response | AnsBatch batch_response

fun answer_to :: "dispatch_env \<Rightarrow> request_env \<Rightarrow> identity option \<Rightarrow> incoming \<Rightarrow> server \<Rightarrow> answer \<times> identity option \<times> server" where
  "answer_to d q authed (Single req) s = apfst AnsOne (handle_request d q authed req s)"
| "answer_to d q authed (Batch b) s =
     (let (rs, authed, s) = handle_ops d q authed (bq_ops b) s in (AnsBatch \<lparr> bs_id = bq_id b, bs_results = rs \<rparr>, authed, s))"
| "answer_to d q authed (AtomicBatch b) s = apfst AnsBatch (execute_atomic d q authed b s)"

fun answers_to ::
  "dispatch_env \<Rightarrow> (nat \<Rightarrow> request_env) \<Rightarrow> nat \<Rightarrow> identity option \<Rightarrow> incoming list \<Rightarrow> server \<Rightarrow> answer list \<times> identity option \<times> server" where
  "answers_to d env n authed [] s = ([], authed, s)"
| "answers_to d env n authed (m # ms) s =
     (let (a, authed, s) = answer_to d (env n) authed m s;
          (as, authed, s) = answers_to d env (Suc n) authed ms s in (a # as, authed, s))"

fun encode_answer :: "chrono \<Rightarrow> frame_codec \<Rightarrow> answer \<Rightarrow> protocol_error + u8 list" where
  "encode_answer chr c (AnsOne r) = encode_response chr c r"
| "encode_answer chr c (AnsBatch b) = encode_batch_response chr c b"

fun asks_stream :: "incoming \<Rightarrow> bool" where
  "asks_stream (Single req) \<longleftrightarrow> rq_op req = OpSubscribe \<and> is_stream_subscribe (rq_values req)"
| "asks_stream _ \<longleftrightarrow> False"

lemma serve_incoming_Ok:
  assumes "answer_to d q authed m s = (a, authed', s')" and "encode_answer chr c a = Ok f" and "incoming_wire chr m"
  shows "serve_incoming d q chr c authed m s = (Ok f, authed', s')"
proof (cases m)
  case (Single req)
  with assms serve_single_Ok [of d q authed req s _ authed' s' chr c f] show ?thesis
    by (cases "handle_request d q authed req s") (auto simp: serve_incoming_def)
next
  case (Batch b)
  with assms show ?thesis
    by (auto simp: serve_incoming_def MAX_BATCH_OPS_def encode_batch_or_error_def split: prod.splits)
next
  case (AtomicBatch b)
  with assms show ?thesis
    by (cases "execute_atomic d q authed b s") (auto simp: serve_incoming_def MAX_BATCH_OPS_def encode_batch_or_error_def)
qed

lemma serve_payload_Ok:
  assumes "answer_to d (env (cn_frames cn)) (cn_authed cn) m s = (a, authed', s')" and "encode_answer chr c a = Ok f"
    and "incoming_wire chr m" and "\<not> asks_stream m"
  shows "serve_payload d env chr c (w_incoming chr m) (cn, s) =
    (cn \<lparr> cn_frames := Suc (cn_frames cn), cn_authed := authed', cn_out := cn_out cn @ f \<rparr>, s')"
proof -
  have "decode_incoming chr (w_incoming chr m) = Ok m"
    using decode_all_wire [OF incoming_codec.codec_axioms assms(3)] by (simp add: decode_incoming_def)
  with serve_incoming_Ok [OF assms(1-3)] assms(4) show ?thesis
    by (cases m) (auto simp: serve_payload_def Let_def)
qed

lemma serve_payloads_Ok:
  assumes "answers_to d env (cn_frames cn) (cn_authed cn) ms s = (as, authed', s')"
    and "list_all2 (\<lambda>a g. encode_answer chr c a = Ok g) as gs"
    and "\<forall>m \<in> set ms. incoming_wire chr m \<and> \<not> asks_stream m" and "cn_end cn = ConnOpen"
  shows "serve_payloads d env chr c (map (w_incoming chr) ms) (cn, s) =
    (cn \<lparr> cn_frames := cn_frames cn + length ms, cn_authed := authed', cn_out := cn_out cn @ concat gs \<rparr>, s')"
  using assms
proof (induction ms arbitrary: cn s as gs)
  case Nil
  then show ?case by (cases cn) simp
next
  case (Cons m ms)
  obtain a i1 s1 where a: "answer_to d (env (cn_frames cn)) (cn_authed cn) m s = (a, i1, s1)" by (metis prod_cases3)
  obtain bs where bs: "answers_to d env (Suc (cn_frames cn)) i1 ms s1 = (bs, authed', s')" "as = a # bs"
    using Cons.prems(1) a by (auto split: prod.splits)
  obtain g hs where gs: "gs = g # hs" "encode_answer chr c a = Ok g" "list_all2 (\<lambda>a g. encode_answer chr c a = Ok g) bs hs"
    using Cons.prems(2) bs(2) by (auto simp: list_all2_Cons1)
  note step = serve_payload_Ok [where env = env and cn = cn, OF a gs(2)]
  let ?cn = "cn \<lparr> cn_frames := Suc (cn_frames cn), cn_authed := i1, cn_out := cn_out cn @ g \<rparr>"
  have "serve_payloads d env chr c (map (w_incoming chr) ms) (?cn, s1) =
      (?cn \<lparr> cn_frames := cn_frames ?cn + length ms, cn_authed := authed', cn_out := cn_out ?cn @ concat hs \<rparr>, s')"
    using Cons.prems(3,4) bs(1) gs(3) by (intro Cons.IH) simp_all
  with step Cons.prems(3,4) gs(1) show ?case by simp
qed

lemma drain_messages:
  assumes "list_all2 (\<lambda>m f. encode_incoming chr c m = Ok f) ms fs" and "max_frame c < 2 ^ 32"
  shows "drain c (concat fs) = (map (w_incoming chr) ms, None, [])"
  using assms(1)
proof (induction ms fs rule: list_all2_induct)
  case Nil
  then show ?case by (simp add: drain.simps feed_def HEADER_LEN_def)
next
  case (Cons m ms f fs)
  with drain_frame [of c "w_incoming chr m" f "concat fs"] assms(2) show ?case
    by (simp add: encode_incoming_frame)
qed

text \<open>
  C5: A connection answers every message, once, in the order sent, however the network cuts the
  bytes: when the frames of a sequence of well-formed requests, batches and atomic batches arrive
  in any chunks that the staging buffer holds, the bytes sent back are the encoded answers that
  handling the messages one after the other gives, each seeing the state and the identity the
  one before left; nothing stays behind in the buffer and the connection stays open.
\<close>

theorem connection_answers_in_order:
  assumes "max_frame c < 2 ^ 32" and "\<forall>m \<in> set ms. incoming_wire chr m \<and> \<not> asks_stream m"
    and "list_all2 (\<lambda>m f. encode_incoming chr c m = Ok f) ms fs"
    and "concat chunks = concat fs" and "chunks_fit c [] chunks"
    and "answers_to d env 0 None ms s = (as, authed, s')"
    and "list_all2 (\<lambda>a g. encode_answer chr c a = Ok g) as gs"
  shows "serve_chunks d env chr c chunks (connection_new, s) =
    (\<lparr> cn_staging = [], cn_authed = authed, cn_out = concat gs, cn_frames = length ms, cn_end = ConnOpen \<rparr>, s')"
proof -
  have served: "serve_payloads d env chr c (map (w_incoming chr) ms) (connection_new, s) =
    (\<lparr> cn_staging = [], cn_authed = authed, cn_out = concat gs, cn_frames = length ms, cn_end = ConnOpen \<rparr>, s')"
    using serve_payloads_Ok [of d env connection_new ms s as authed s' chr c gs] assms(2,6,7)
    by (simp add: connection_new_def)
  have "drain c ([] @ concat chunks) = (map (w_incoming chr) ms, None, [])"
    using drain_messages [OF assms(3,1)] assms(4) by simp
  moreover have "drain c [] = ([], None, [])" by (simp add: drain.simps feed_def HEADER_LEN_def)
  ultimately show ?thesis
    using serve_chunks_drain [OF assms(5), of _ "[]" d env chr "(connection_new, s)"] served
    by (simp add: restage_def connection_new_def)
qed

section \<open>An example\<close>

definition demo_messages :: "incoming list" where
  "demo_messages = [Single (demo_request OpInsert ''t'' None (Some [(''k'', VInt64 1)])), Single (demo_request OpGet ''t'' (Some 1) None)]"

definition demo_frames :: "u8 list list" where
  "demo_frames = map (\<lambda>m. projr (encode_incoming demo_chrono demo_codec m)) demo_messages"

definition demo_chunks :: "u8 list list" where
  "demo_chunks = [take 7 (concat demo_frames), take 40 (drop 7 (concat demo_frames)), drop 47 (concat demo_frames)]"

definition demo_answers :: "answer list \<times> identity option \<times> server" where
  "demo_answers = answers_to demo_dispatch_env (\<lambda>_. demo_request_env) 0 None demo_messages (demo_call_server [])"

definition demo_answer_frames :: "u8 list list" where
  "demo_answer_frames = map (\<lambda>a. projr (encode_answer demo_chrono demo_codec a)) (fst demo_answers)"

lemma list_all2_projr: "list_all (\<lambda>x. is_ok (f x)) xs \<Longrightarrow> list_all2 (\<lambda>x y. f x = Ok y) xs (map (\<lambda>x. projr (f x)) xs)"
  by (induction xs) (auto simp: is_ok_iff)

theorem connection_answers_in_order_witness:
  "fst demo_answers = map AnsOne [response_ok 9 [\<lparr> rv_id = 1, rv_values = [(''k'', VInt64 1)] \<rparr>],
     response_ok 9 [\<lparr> rv_id = 1, rv_values = [(''k'', VInt64 1)] \<rparr>]] \<and>
   fst (serve_chunks demo_dispatch_env (\<lambda>_. demo_request_env) demo_chrono demo_codec demo_chunks
     (connection_new, demo_call_server [])) =
   \<lparr> cn_staging = [], cn_authed = None, cn_out = concat demo_answer_frames, cn_frames = 2, cn_end = ConnOpen \<rparr>"
proof -
  have as: "fst demo_answers = map AnsOne [response_ok 9 [\<lparr> rv_id = 1, rv_values = [(''k'', VInt64 1)] \<rparr>],
     response_ok 9 [\<lparr> rv_id = 1, rv_values = [(''k'', VInt64 1)] \<rparr>]]" "fst (snd demo_answers) = None"
    by code_simp+
  have "list_all (\<lambda>m. is_ok (encode_incoming demo_chrono demo_codec m)) demo_messages" by code_simp
  note frames = list_all2_projr [OF this, folded demo_frames_def]
  have "list_all (\<lambda>a. is_ok (encode_answer demo_chrono demo_codec a)) (fst demo_answers)" unfolding as(1) by code_simp
  note replies = list_all2_projr [OF this, folded demo_answer_frames_def]
  have fit: "chunks_fit demo_codec [] demo_chunks" by code_simp
  have wire: "\<forall>m \<in> set demo_messages. incoming_wire demo_chrono m \<and> \<not> asks_stream m"
    by (simp add: demo_messages_def demo_request_def request_wire_def map_wire_def str_wire_def str_ok_def as_bytes_def byte_of_char_def)
  have bytes: "concat demo_chunks = concat demo_frames" by code_simp
  have "answers_to demo_dispatch_env (\<lambda>_. demo_request_env) 0 None demo_messages (demo_call_server []) =
      (fst demo_answers, None, snd (snd demo_answers))"
    using as(2) by (metis demo_answers_def prod.collapse)
  from connection_answers_in_order [OF _ wire frames bytes fit this replies] as(1) show ?thesis
    by (simp add: demo_codec_def demo_messages_def)
qed

section \<open>Fast and slow paths\<close>

text \<open>
  C25: The fast paths of a connection are the general one: a get or a scan answered straight from
  the table, with the rows encoded where they lie, gives the identity, the state and the bytes that
  handling the request and encoding its response gives, with the replacement for a response that is
  too large on the paths that have it.
\<close>

theorem fast_paths_equivalent:
  "(let (resp, authed', s') = handle_request d q authed req s; (bytes, served) = serve_single d q chr c authed req s in
    served = (authed', s') \<and> bytes \<in> {encode_response chr c resp, encode_or_too_large chr c resp})"
proof -
  obtain a req1 s1 where hs: "handshake q authed req s = (a, req1, s1)" by (metis prod_cases3)
  show ?thesis
  proof (cases "authorize s1 a (rq_op req1) (rq_table req1)")
    case (Inl e)
    with hs show ?thesis by (simp add: handle_request_def serve_single_def)
  next
    case (Inr u)
    have "encode_scan_fast d chr c a req1 s1 \<in>
        {encode_response chr c (dispatch_scan d a req1 s1), encode_or_too_large chr c (dispatch_scan d a req1 s1)}"
      by (cases "scan_merged d s1 (rq_table req1)") (simp_all add: scan_fast_eq scan_fast_err)
    with hs Inr show ?thesis
      by (auto simp: handle_request_def serve_single_def dispatch_def get_fast_eq Let_def split: prod.splits)
  qed
qed

text \<open>A get has no replacement: its row alone over the limit ends the connection.\<close>

lemma large_get_ends_connection:
  assumes "handshake q (cn_authed cn) req s = (a, req, s)" and "authorize s a OpGet (rq_table req) = Ok ()"
    and "decode_incoming chr payload = Ok (Single req)" and "rq_op req = OpGet" and "env (cn_frames cn) = q"
    and "encode_response chr c (dispatch_get d a req s) = Err e"
  shows "cn_end (fst (serve_payload d env chr c payload (cn, s))) = ConnFailed (CeEncode e)"
  using assms by (simp add: serve_payload_def serve_incoming_def serve_single_def get_fast_eq)

end
