(* ===== verification/Typed_Rows.thy ===== *)
theory Typed_Rows
  imports Core_Table
begin

text \<open>
  The types of stored rows. The engine checks the values of a row against the schema when the row
  is inserted, and only then; an update, a restored row and the insertion that skips the
  validation rely on their callers. Under what they rely on, every stored row fits its schema.
\<close>

section \<open>Well-typed tables\<close>

definition value_fits :: "val \<Rightarrow> column_def \<Rightarrow> bool" where
  "value_fits v col \<longleftrightarrow> (if is_null v then nullable col else value_matches_type v (column_type col))"

definition table_typed :: "in_memory_table \<Rightarrow> bool" where
  "table_typed t \<longleftrightarrow> (\<forall>i r. hm_get (t_rows t) i = Some r \<longrightarrow> is_ok (validate_row_values (t_schema t) (row_values r)))"

definition engine_typed :: "engine \<Rightarrow> bool" where
  "engine_typed e \<longleftrightarrow> (\<forall>nm t. hm_get (e_tables e) nm = Some t \<longrightarrow> table_typed t)"

definition schema_of :: "engine \<Rightarrow> string \<Rightarrow> table_schema option" where
  "schema_of e nm = map_option t_schema (hm_get (e_tables e) nm)"

text \<open>What an operation is trusted with: nothing for a plain insertion, the values otherwise. The
  values of an update are a map, so a column is in them once.\<close>

fun op_typed :: "engine_op \<Rightarrow> engine \<Rightarrow> bool" where
  "op_typed (OpInsertUnchecked nm r) e =
     (case schema_of e nm of None \<Rightarrow> True | Some s \<Rightarrow> is_ok (validate_row_values s (row_values r)))"
| "op_typed (OpRestore nm r) e =
     (case schema_of e nm of None \<Rightarrow> True | Some s \<Rightarrow> is_ok (validate_row_values s (row_values r)))"
| "op_typed (OpUpdate nm i vals) e = (hm_wf vals \<and>
     (case schema_of e nm of None \<Rightarrow> True
      | Some s \<Rightarrow> (\<forall>col \<in> set (ts_columns s). \<forall>v. hm_get vals (col_name col) = Some v \<longrightarrow> value_fits v col)))"
| "op_typed _ e = True"

inductive typed_reachable :: "engine \<Rightarrow> bool" where
  typed_new: "typed_reachable engine_new"
| typed_step: "typed_reachable e \<Longrightarrow> op_typed op e \<Longrightarrow> typed_reachable (apply_op op e)"

section \<open>Every operation keeps the types\<close>

lemma is_ok_validate: "is_ok (validate_row_values s vals) \<longleftrightarrow> (\<forall>col \<in> set (ts_columns s). column_accepts vals col)"
  using validate_row_values_Ok [of s vals] by (auto simp: is_ok_iff)

lemma column_accepts_fits: "column_accepts vals col \<Longrightarrow> hm_get vals (col_name col) = Some v \<Longrightarrow> value_fits v col"
  by (auto simp: column_accepts_def value_fits_def is_null_def split: val.splits if_splits)

lemma column_accepts_extend:
  assumes "column_accepts vals col" and "hm_wf new" and "\<And>v. hm_get new (col_name col) = Some v \<Longrightarrow> value_fits v col"
  shows "column_accepts (hm_extend vals new) col"
proof (cases "hm_get new (col_name col)")
  case None
  with assms(1,2) show ?thesis by (simp add: column_accepts_def hm_get_extend)
next
  case (Some v)
  with assms(2) assms(3) [OF Some] show ?thesis
    by (auto simp: column_accepts_def hm_get_extend value_fits_def is_null_def split: val.splits if_splits)
qed

lemma table_typed_put:
  assumes "table_typed t" and "is_ok (validate_row_values (t_schema t) (row_values r))"
    and "t_rows t' = hm_insert i r (t_rows t)" and "t_schema t' = t_schema t"
  shows "table_typed t'"
  using assms by (auto simp: table_typed_def hm_simps simp del: map_of_eq_Some_iff split: if_splits)

lemma table_typed_insert_unchecked:
  assumes "table_typed t" and "is_ok (validate_row_values (t_schema t) (row_values r))"
  shows "table_typed (snd (table_insert_unchecked r t))"
  using assms
  by (auto simp: table_insert_unchecked_def next_row_id_def Let_def split: sum.split
      intro!: table_typed_put [OF assms(1), where r = "r \<lparr> row_id := t_next_id t \<rparr>"])

lemma table_typed_insert: "table_typed t \<Longrightarrow> table_typed (snd (table_insert r t))"
  using table_typed_insert_unchecked [of t r]
  by (auto simp: table_insert_cases is_ok_iff split: sum.split)

lemma table_typed_insert_preserving_id:
  assumes "table_typed t" and "is_ok (validate_row_values (t_schema t) (row_values r))"
  shows "table_typed (snd (table_insert_preserving_id r t))"
  using assms
  by (auto simp: table_insert_preserving_id_def Let_def split: sum.split intro!: table_typed_put [OF assms(1), where r = r])

lemma table_typed_take: "table_typed t \<Longrightarrow> table_typed (snd (table_take i t))"
  by (auto simp: table_take_def table_typed_def hm_simps simp del: map_of_eq_Some_iff split: option.split if_splits)

lemma table_typed_update:
  assumes "table_typed t" and "hm_wf vals"
    and "\<forall>col \<in> set (ts_columns (t_schema t)). \<forall>v. hm_get vals (col_name col) = Some v \<longrightarrow> value_fits v col"
  shows "table_typed (snd (table_update i vals t))"
proof (cases "hm_get (t_rows t) i")
  case (Some cur)
  then have "is_ok (validate_row_values (t_schema t) (row_values cur))" using assms(1) by (simp add: table_typed_def del: map_of_eq_Some_iff)
  then have "is_ok (validate_row_values (t_schema t) (hm_extend (row_values cur) vals))"
    using assms(2,3) column_accepts_extend by (simp add: is_ok_validate)
  then have "table_typed (updated_table i cur vals t)"
    by (intro table_typed_put [OF assms(1), where r = "cur \<lparr> row_values := hm_extend (row_values cur) vals \<rparr>"]) simp_all
  with Some assms(1) show ?thesis by (simp add: table_update_cases split: sum.split)
qed (use assms(1) in \<open>simp add: table_update_cases\<close>)

lemma with_table_typed:
  assumes "engine_typed e" and "\<And>t. hm_get (e_tables e) nm = Some t \<Longrightarrow> table_typed t \<Longrightarrow> table_typed (snd (f t))"
  shows "engine_typed (snd (with_table nm f e))"
proof (cases "hm_get (e_tables e) nm")
  case (Some t)
  then have "table_typed (snd (f t))" using assms by (auto simp: engine_typed_def simp del: map_of_eq_Some_iff)
  with Some assms(1) show ?thesis
    by (cases "f t") (auto simp: with_table_def engine_table_def engine_typed_def hm_simps simp del: map_of_eq_Some_iff split: if_splits)
qed (use assms(1) in \<open>simp add: with_table_def engine_table_def\<close>)

lemma table_typed_new: "table_typed (table_new s)"
  by (simp add: table_typed_def table_new_def)

lemma engine_typed_step:
  assumes "engine_typed e" and "op_typed op e"
  shows "engine_typed (apply_op op e)"
proof (cases op)
  case (OpCreateTable s)
  with assms(1) show ?thesis
    by (auto simp: engine_create_table_def engine_typed_def table_typed_new hm_simps simp del: map_of_eq_Some_iff split: if_splits)
next
  case (OpDropTable nm)
  with assms(1) show ?thesis
    by (auto simp: engine_drop_table_def engine_typed_def hm_simps simp del: map_of_eq_Some_iff split: if_splits)
next
  case (OpInsert nm r)
  with assms(1) show ?thesis by (auto simp: engine_insert_def intro!: with_table_typed table_typed_insert)
next
  case (OpInsertUnchecked nm r)
  with assms show ?thesis
    by (auto simp: engine_insert_unchecked_def schema_of_def intro!: with_table_typed table_typed_insert_unchecked)
next
  case (OpUpdate nm i vals)
  with assms show ?thesis
    by (auto simp: engine_update_def schema_of_def intro!: with_table_typed table_typed_update)
next
  case (OpDelete nm i)
  then have "apply_op op e = snd (engine_take nm i e)"
    by (simp add: engine_delete_def split: prod.split sum.split)
  with assms(1) show ?thesis by (auto simp: engine_take_def intro!: with_table_typed table_typed_take)
next
  case (OpRestore nm r)
  with assms show ?thesis
    by (auto simp: engine_insert_preserving_id_def schema_of_def intro!: with_table_typed table_typed_insert_preserving_id)
qed

lemma typed_reachable_typed: "typed_reachable e \<Longrightarrow> engine_typed e"
proof (induction rule: typed_reachable.induct)
  case typed_new
  show ?case by (simp add: engine_typed_def engine_new_def)
qed (rule engine_typed_step)

text \<open>
  C3: Stored rows fit their schema: in every engine reached by table and row operations, plain
  insertions with any values and the other writes with values that fit, a value that a get returns
  for a column of the table has the type of the column, or is a null in a nullable column,
  and a column that has no default value and is not nullable has a value.
\<close>

theorem stored_rows_well_typed:
  assumes "typed_reachable e" and "engine_get nm i e = Ok (Some r)" and "engine_schema nm e = Ok s" and "col \<in> set (ts_columns s)"
  shows "case hm_get (row_values r) (col_name col) of
           Some v \<Rightarrow> if is_null v then nullable col else value_matches_type v (column_type col)
         | None \<Rightarrow> col_default col \<noteq> None \<or> nullable col"
proof -
  obtain t where t: "hm_get (e_tables e) nm = Some t" "hm_get (t_rows t) i = Some r" "s = t_schema t"
    using assms(2,3) by (auto simp: engine_get_eq engine_schema_def read_table_def engine_table_def split: option.splits)
  then have "is_ok (validate_row_values s (row_values r))"
    using typed_reachable_typed [OF assms(1)] by (auto simp: engine_typed_def table_typed_def simp del: map_of_eq_Some_iff)
  then have "column_accepts (row_values r) col" using assms(4) by (simp add: is_ok_validate)
  then show ?thesis
    by (auto simp: column_accepts_def is_null_def simp del: map_of_eq_Some_iff split: option.splits val.splits if_splits)
qed

lemma demo_engine_typed: "typed_reachable demo_engine"
proof -
  have "typed_reachable (apply_op (OpInsert ''users'' (demo_row 7 0)) (apply_op (OpCreateTable demo_schema) engine_new))"
    by (intro typed_reachable.intros) simp_all
  moreover have "apply_op (OpInsert ''users'' (demo_row 7 0)) (apply_op (OpCreateTable demo_schema) engine_new) = demo_engine" by code_simp
  ultimately show ?thesis by simp
qed

theorem stored_rows_well_typed_witness:
  "\<exists>s col. engine_schema ''users'' demo_engine = Ok s \<and> col \<in> set (ts_columns s) \<and> col_name col = ''score'' \<and>
     value_matches_type (VFloat64 0) (column_type col)"
proof -
  have s: "engine_schema ''users'' demo_engine = Ok demo_schema" by code_simp
  have g: "engine_get ''users'' 1 demo_engine = Ok (Some ((demo_row 7 0) \<lparr> row_id := 1 \<rparr>))" by code_simp
  have "\<exists>col \<in> set (ts_columns demo_schema). col_name col = ''score''" by code_simp
  then obtain col where col: "col \<in> set (ts_columns demo_schema)" "col_name col = ''score''" by blast
  have "hm_get (row_values ((demo_row 7 0) \<lparr> row_id := 1 \<rparr>)) (col_name col) = Some (VFloat64 0)"
    by (simp add: col(2) demo_row_def)
  with stored_rows_well_typed [OF demo_engine_typed g s col(1)] s col show ?thesis by (auto simp: is_null_def)
qed

text \<open>An update is not checked: it may leave a text in a column of numbers.\<close>

lemma update_ignores_types:
  "engine_get ''users'' 1 (apply_op (OpUpdate ''users'' 1 [(''score'', VString ''high'')]) demo_engine) =
     Ok (Some \<lparr> row_id = 1, row_values = [(''id'', VInt64 7), (''score'', VString ''high'')] \<rparr>)"
  by code_simp

end
