(* ===== verification/Full_Text.thy ===== *)
theory Full_Text
  imports Types_Schema Texts Display
begin

text \<open>
  The full-text search engine (\<open>blitz-search/src/engine.rs\<close>): documents, an inverted index from
  terms to the documents and fields they occur in, and ranked search. Lower-casing, the division of
  a text into words and the natural logarithm are parameters; the other floating-point operations
  are those of \<open>Float_Bits\<close>, with multiplication and subtraction added here.
\<close>

section \<open>Arithmetic\<close>

unbundle bit_operations_syntax

definition f64_mul :: "f64 \<Rightarrow> f64 \<Rightarrow> f64" where
  "f64_mul a b =
     (let neg = (f64_neg a \<noteq> f64_neg b) in
      if f64_nan a \<or> f64_nan b then f64_quiet_nan
      else if \<not> f64_finite a then (if f64_finite b \<and> f64_mant b = 0 then f64_quiet_nan else f64_signed neg f64_infinity)
      else if \<not> f64_finite b then (if f64_mant a = 0 then f64_quiet_nan else f64_signed neg f64_infinity)
      else f64_round neg (f64_mant a * f64_mant b) (f64_scale a + f64_scale b))"

definition f64_sub :: "f64 \<Rightarrow> f64 \<Rightarrow> f64" where
  "f64_sub a b = f64_add a (b XOR 0x8000000000000000)"

record text_env =
  te_lower :: "string \<Rightarrow> string"
  te_words :: "string \<Rightarrow> string list"
  te_ln :: "f64 \<Rightarrow> f64"

section \<open>Documents and the index\<close>

record search_document =
  sd_id :: row_id
  sd_fields :: "(string, string) hmap"

definition document_new :: "row_id \<Rightarrow> search_document" where
  "document_new i = \<lparr> sd_id = i, sd_fields = [] \<rparr>"

definition document_with_field :: "string \<Rightarrow> string \<Rightarrow> search_document \<Rightarrow> search_document" where
  "document_with_field k v d = d \<lparr> sd_fields := hm_insert k v (sd_fields d) \<rparr>"

definition get_text :: "string \<Rightarrow> search_document \<Rightarrow> string option" where
  "get_text f d = hm_get (sd_fields d) f"

definition all_text :: "search_document \<Rightarrow> string" where
  "all_text d = join '' '' (map snd (sd_fields d))"

record hit =
  hit_id :: row_id
  hit_score :: f64
  hit_fields :: "string list"

record index_entry =
  ie_postings :: "(row_id, (string \<times> nat) list) hmap"
  ie_total_count :: nat

record search_engine =
  se_index :: "(string, index_entry) hmap"
  se_documents :: "(row_id, search_document) hmap"
  se_doc_lengths :: "(row_id, nat) hmap"

definition search_new :: search_engine where
  "search_new = \<lparr> se_index = [], se_documents = [], se_doc_lengths = [] \<rparr>"

definition tokenize_text :: "text_env \<Rightarrow> string \<Rightarrow> string list" where
  "tokenize_text te s = filter (\<lambda>w. w \<noteq> [] \<and> 1 < length w) (te_words te (te_lower te s))"

text \<open>\<open>*map.entry(k).or_insert(0) += 1\<close> for every token.\<close>

definition term_counts :: "string list \<Rightarrow> (string, nat) hmap" where
  "term_counts tokens =
     fold (\<lambda>t m. hm_insert t (Suc (case hm_get m t of Some n \<Rightarrow> n | None \<Rightarrow> 0)) m) tokens []"

type_synonym field_terms = "(string, (string \<times> nat) list) hmap"

fun add_field_terms :: "string \<Rightarrow> (string \<times> nat) list \<Rightarrow> field_terms \<times> nat \<Rightarrow> field_terms \<times> nat" where
  "add_field_terms f [] acc = acc"
| "add_field_terms f ((t, n) # counts) (m, total_terms) =
     add_field_terms f counts
       (hm_insert t ((case hm_get m t of Some es \<Rightarrow> es | None \<Rightarrow> []) @ [(f, n)]) m, total_terms + n)"

fun collect_terms :: "text_env \<Rightarrow> search_document \<Rightarrow> string list \<Rightarrow> field_terms \<times> nat \<Rightarrow> field_terms \<times> nat" where
  "collect_terms te doc [] acc = acc"
| "collect_terms te doc (f # fs) acc =
     collect_terms te doc fs
       (case hm_get (sd_fields doc) f of
          Some text \<Rightarrow> add_field_terms f (term_counts (tokenize_text te text)) acc
        | None \<Rightarrow> acc)"

definition post_term :: "row_id \<Rightarrow> string \<times> (string \<times> nat) list \<Rightarrow> (string, index_entry) hmap \<Rightarrow> (string, index_entry) hmap" where
  "post_term i te ix =
     (let (t, entries) = te;
          e = (case hm_get ix t of Some e \<Rightarrow> e | None \<Rightarrow> \<lparr> ie_postings = [], ie_total_count = 0 \<rparr>) in
      hm_insert t \<lparr> ie_postings = hm_insert i entries (ie_postings e),
                    ie_total_count = ie_total_count e + sum_list (map snd entries) \<rparr> ix)"

definition index_document :: "text_env \<Rightarrow> search_document \<Rightarrow> string list \<Rightarrow> search_engine \<Rightarrow> search_engine" where
  "index_document te doc flds se =
     (let (terms, total_terms) = collect_terms te doc flds ([], 0) in
      \<lparr> se_index = fold (post_term (sd_id doc)) terms (se_index se),
        se_documents = hm_insert (sd_id doc) doc (se_documents se),
        se_doc_lengths = hm_insert (sd_id doc) total_terms (se_doc_lengths se) \<rparr>)"

definition unpost_term :: "row_id \<Rightarrow> string \<times> nat \<Rightarrow> (string, index_entry) hmap \<Rightarrow> (string, index_entry) hmap" where
  "unpost_term i tn ix =
     (let (t, n) = tn in
      case hm_get ix t of
        None \<Rightarrow> ix
      | Some e \<Rightarrow>
          (let ps = hm_remove i (ie_postings e) in
           if ps = [] then hm_remove t ix
           else hm_insert t \<lparr> ie_postings = ps, ie_total_count = ie_total_count e - n \<rparr> ix))"

definition remove_document :: "text_env \<Rightarrow> row_id \<Rightarrow> search_engine \<Rightarrow> search_engine" where
  "remove_document te i se =
     (let ix = (case hm_get (se_documents se) i of
                  None \<Rightarrow> se_index se
                | Some doc \<Rightarrow>
                    fold (\<lambda>(f, text). fold (unpost_term i) (term_counts (tokenize_text te text))) (sd_fields doc) (se_index se)) in
      \<lparr> se_index = ix, se_documents = hm_remove i (se_documents se), se_doc_lengths = hm_remove i (se_doc_lengths se) \<rparr>)"

section \<open>Search\<close>

definition f64_of_nat :: "nat \<Rightarrow> f64" where
  "f64_of_nat n = f64_of_int (int n)"

abbreviation (input) f64_half :: f64 where "f64_half \<equiv> 0x3FE0000000000000"
abbreviation (input) f64_one :: f64 where "f64_one \<equiv> 0x3FF0000000000000"
abbreviation (input) f64_k1 :: f64 where "f64_k1 \<equiv> 0x3FF8000000000000"
abbreviation (input) f64_b :: f64 where "f64_b \<equiv> 0x3FE8000000000000"

definition idf :: "text_env \<Rightarrow> f64 \<Rightarrow> nat \<Rightarrow> f64" where
  "idf te total_docs n =
     te_ln te (f64_add (f64_div (f64_add (f64_sub total_docs (f64_of_nat n)) f64_half) (f64_add (f64_of_nat n) f64_half)) f64_one)"

definition tf_normalized :: "f64 \<Rightarrow> f64 \<Rightarrow> f64 \<Rightarrow> f64" where
  "tf_normalized tf_sum doc_len avg_len =
     f64_div (f64_mul tf_sum (f64_add f64_k1 f64_one))
       (f64_add tf_sum (f64_mul f64_k1
          (f64_add (f64_sub f64_one f64_b) (f64_div (f64_mul f64_b doc_len) avg_len))))"

definition push_new :: "'a list \<Rightarrow> 'a list \<Rightarrow> 'a list" where
  "push_new new fs = fold (\<lambda>f fs. if f \<in> set fs then fs else fs @ [f]) new fs"

type_synonym scores = "(row_id, f64 \<times> string list) hmap"

definition score_posting ::
  "f64 \<Rightarrow> f64 \<Rightarrow> (row_id, nat) hmap \<Rightarrow> row_id \<times> (string \<times> nat) list \<Rightarrow> scores \<Rightarrow> scores" where
  "score_posting idf_value avg_len lens p sc =
     (let (i, entries) = p;
          doc_len = f64_of_nat (case hm_get lens i of Some n \<Rightarrow> n | None \<Rightarrow> 0);
          tf_sum = fold (\<lambda>(f, n) acc. f64_add acc (f64_of_nat n)) entries 0;
          matched = push_new (map fst entries) [];
          score = f64_mul idf_value (tf_normalized tf_sum doc_len avg_len);
          (old, fs) = (case hm_get sc i of Some x \<Rightarrow> x | None \<Rightarrow> (0, [])) in
      hm_insert i (f64_add old score, push_new matched fs) sc)"

definition score_token :: "text_env \<Rightarrow> search_engine \<Rightarrow> f64 \<Rightarrow> f64 \<Rightarrow> string \<Rightarrow> scores \<Rightarrow> scores" where
  "score_token te se total_docs avg_len t sc =
     (case hm_get (se_index se) t of
        None \<Rightarrow> sc
      | Some e \<Rightarrow>
          fold (score_posting (idf te total_docs (length (ie_postings e))) avg_len (se_doc_lengths se)) (ie_postings e) sc)"

text \<open>\<open>partial_cmp\<close> with \<open>Equal\<close> where a NaN is involved.\<close>

definition cmp_f64 :: "f64 \<Rightarrow> f64 \<Rightarrow> ordering" where
  "cmp_f64 a b = (if f64_lt a b then Less else if f64_lt b a then Greater else Equal)"

definition engine_search :: "text_env \<Rightarrow> string \<Rightarrow> nat \<Rightarrow> search_engine \<Rightarrow> hit list" where
  "engine_search te query limit se =
     (let tokens = tokenize_text te query; total_docs = length (se_doc_lengths se) in
      if tokens = [] \<or> total_docs = 0 then []
      else
        (let n = f64_of_nat total_docs;
             avg_len = f64_div (f64_of_nat (sum_list (map snd (se_doc_lengths se)))) n;
             sc = fold (score_token te se n avg_len) tokens [];
             hits = map (\<lambda>(i, score, fs). \<lparr> hit_id = i, hit_score = score, hit_fields = fs \<rparr>) sc in
         take limit (sort_by (\<lambda>a b. cmp_f64 (hit_score b) (hit_score a)) hits)))"

definition document_count :: "search_engine \<Rightarrow> nat" where "document_count se = length (se_documents se)"
definition term_count :: "search_engine \<Rightarrow> nat" where "term_count se = length (se_index se)"
definition has_document :: "row_id \<Rightarrow> search_engine \<Rightarrow> bool" where "has_document i se \<longleftrightarrow> hm_contains (se_documents se) i"
definition get_document :: "row_id \<Rightarrow> search_engine \<Rightarrow> search_document option" where "get_document i se = hm_get (se_documents se) i"

section \<open>Terms of a document\<close>

definition posting :: "(string, index_entry) hmap \<Rightarrow> string \<Rightarrow> row_id \<Rightarrow> (string \<times> nat) list option" where
  "posting ix t i = (case hm_get ix t of Some e \<Rightarrow> hm_get (ie_postings e) i | None \<Rightarrow> None)"

definition index_wf :: "(string, index_entry) hmap \<Rightarrow> bool" where
  "index_wf ix \<longleftrightarrow> (\<forall>t e. hm_get ix t = Some e \<longrightarrow> hm_wf (ie_postings e))"

definition field_tokens :: "text_env \<Rightarrow> search_document \<Rightarrow> string \<Rightarrow> string set" where
  "field_tokens te doc f = (case hm_get (sd_fields doc) f of Some text \<Rightarrow> set (tokenize_text te text) | None \<Rightarrow> {})"

definition indexed_terms :: "text_env \<Rightarrow> search_document \<Rightarrow> string list \<Rightarrow> string set" where
  "indexed_terms te doc flds = (\<Union>f \<in> set flds. field_tokens te doc f)"

lemma term_counts_keys: "set (hm_keys (term_counts tokens)) = set tokens" and term_counts_wf: "hm_wf (term_counts tokens)"
proof -
  have "set (hm_keys (fold (\<lambda>t m. hm_insert t (Suc (case hm_get m t of Some n \<Rightarrow> n | None \<Rightarrow> 0)) m) tokens m)) =
      set tokens \<union> set (hm_keys m)" for m :: "(string, nat) hmap"
    by (induction tokens arbitrary: m) (auto simp: dom_update)
  then show "set (hm_keys (term_counts tokens)) = set tokens" by (simp add: term_counts_def)
  have "hm_wf m \<Longrightarrow> hm_wf (fold (\<lambda>t m. hm_insert t (Suc (case hm_get m t of Some n \<Rightarrow> n | None \<Rightarrow> 0)) m) tokens m)" for m :: "(string, nat) hmap"
    by (induction tokens arbitrary: m) auto
  then show "hm_wf (term_counts tokens)" by (simp add: term_counts_def)
qed

lemma hm_contains_keys: "hm_contains m k \<longleftrightarrow> k \<in> set (hm_keys m)"
  by (auto simp: map_of_eq_None_iff)

lemma add_field_terms_keys:
  "hm_contains (fst (add_field_terms f counts acc)) t \<longleftrightarrow> t \<in> set (map fst counts) \<or> hm_contains (fst acc) t"
  and add_field_terms_wf: "hm_wf (fst acc) \<Longrightarrow> hm_wf (fst (add_field_terms f counts acc))"
proof -
  show "hm_contains (fst (add_field_terms f counts acc)) t \<longleftrightarrow> t \<in> set (map fst counts) \<or> hm_contains (fst acc) t"
  proof (induction counts arbitrary: acc)
    case (Cons c counts)
    then show ?case by (cases c; cases acc) (auto simp: hm_simps)
  qed simp
  show "hm_wf (fst acc) \<Longrightarrow> hm_wf (fst (add_field_terms f counts acc))"
  proof (induction counts arbitrary: acc)
    case (Cons c counts)
    then show ?case by (cases c; cases acc) simp
  qed simp
qed

lemma collect_terms_keys:
  "hm_contains (fst (collect_terms te doc flds acc)) t \<longleftrightarrow> t \<in> indexed_terms te doc flds \<or> hm_contains (fst acc) t"
proof (induction flds arbitrary: acc)
  case (Cons f flds)
  have fs: "t \<in> indexed_terms te doc (f # flds) \<longleftrightarrow> t \<in> field_tokens te doc f \<or> t \<in> indexed_terms te doc flds"
    by (simp add: indexed_terms_def)
  show ?case
  proof (cases "hm_get (sd_fields doc) f")
    case (Some s)
    let ?acc = "add_field_terms f (term_counts (tokenize_text te s)) acc"
    have "hm_contains (fst ?acc) t \<longleftrightarrow> t \<in> set (tokenize_text te s) \<or> hm_contains (fst acc) t"
      by (simp only: add_field_terms_keys term_counts_keys)
    moreover have "hm_contains (fst (collect_terms te doc flds ?acc)) t \<longleftrightarrow> t \<in> indexed_terms te doc flds \<or> hm_contains (fst ?acc) t"
      by (rule Cons.IH)
    moreover have "field_tokens te doc f = set (tokenize_text te s)" using Some by (simp add: field_tokens_def)
    moreover have "collect_terms te doc (f # flds) acc = collect_terms te doc flds ?acc" using Some by simp
    ultimately show ?thesis unfolding fs by (metis (no_types))
  next
    case None
    then show ?thesis using Cons.IH [of acc] unfolding fs by (simp add: field_tokens_def)
  qed
qed (simp add: indexed_terms_def)

lemma collect_terms_wf: "hm_wf (fst acc) \<Longrightarrow> hm_wf (fst (collect_terms te doc flds acc))"
  by (induction flds arbitrary: acc) (auto simp: add_field_terms_wf split: option.split)

section \<open>Postings\<close>

lemma posting_post_term:
  "posting (post_term i (t', es) ix) t j = (if t = t' \<and> j = i then Some es else posting ix t j)"
  by (auto simp: posting_def post_term_def hm_simps split: option.split)

lemma posting_post_terms:
  assumes "hm_wf terms"
  shows "posting (fold (post_term i) terms ix) t j =
    (if j = i then (case hm_get terms t of Some es \<Rightarrow> Some es | None \<Rightarrow> posting ix t j) else posting ix t j)"
  using assms
proof (induction terms arbitrary: ix)
  case (Cons p terms)
  obtain t' es where p: "p = (t', es)" by (cases p)
  have "hm_get terms t' = None" using Cons.prems p by (simp add: map_of_eq_None_iff)
  with Cons p show ?case by (auto simp: posting_post_term simp del: map_of_eq_Some_iff split: option.split)
qed simp

lemma index_wf_post: "index_wf ix \<Longrightarrow> index_wf (fold (post_term i) terms ix)"
proof (induction terms arbitrary: ix)
  case (Cons p terms)
  have "index_wf (post_term i p ix)"
    using Cons.prems
    by (cases p) (auto simp: index_wf_def post_term_def hm_simps simp del: map_of_eq_Some_iff split: option.splits if_splits)
  with Cons show ?case by simp
qed simp

lemma posting_unpost_term:
  "posting (unpost_term i (t', n) ix) t j = (if t = t' \<and> j = i then None else posting ix t j)"
proof (cases "hm_get ix t'")
  case (Some e)
  have "j \<noteq> i \<Longrightarrow> hm_remove i (ie_postings e) = [] \<Longrightarrow> hm_get (ie_postings e) j = None"
    by (metis hm_get_remove map_of.simps(1))
  with Some show ?thesis by (auto simp: posting_def unpost_term_def hm_simps Let_def simp del: map_of_eq_Some_iff split: option.split)
qed (auto simp: posting_def unpost_term_def)

lemma posting_unpost_terms:
  "posting (fold (unpost_term i) counts ix) t j = (if j = i \<and> t \<in> set (map fst counts) then None else posting ix t j)"
proof (induction counts arbitrary: ix)
  case (Cons p counts)
  then show ?case by (cases p) (auto simp: posting_unpost_term)
qed simp

lemma index_wf_unpost_term: "index_wf ix \<Longrightarrow> index_wf (unpost_term i p ix)"
  by (cases p)
    (auto simp: index_wf_def unpost_term_def Let_def hm_simps simp del: map_of_eq_Some_iff split: option.splits if_splits)

lemma posting_unpost_fields:
  "posting (fold (\<lambda>(f, text). fold (unpost_term i) (term_counts (tokenize_text te text))) flds ix) t j =
     (if j = i \<and> (\<exists>(f, text) \<in> set flds. t \<in> set (tokenize_text te text)) then None else posting ix t j)"
proof (induction flds arbitrary: ix)
  case (Cons p flds)
  have "t \<in> set (map fst (term_counts (tokenize_text te (snd p)))) \<longleftrightarrow> t \<in> set (tokenize_text te (snd p))"
    by (simp only: term_counts_keys)
  with Cons show ?case by (cases p) (auto simp: posting_unpost_terms)
qed simp

lemma index_wf_unpost: "index_wf ix \<Longrightarrow> index_wf (fold (unpost_term i) counts ix)"
  by (induction counts arbitrary: ix) (auto simp: index_wf_unpost_term)

lemma index_wf_unpost_fields:
  "index_wf ix \<Longrightarrow> index_wf (fold (\<lambda>(f, text). fold (unpost_term i) (term_counts (tokenize_text te text))) flds ix)"
  by (induction flds arbitrary: ix) (auto simp: index_wf_unpost)

section \<open>Runs of the index\<close>

text \<open>
  The engine beside the terms each document was indexed under. A document is indexed again only
  after it was removed: indexing it twice leaves the postings of its old text behind.
\<close>

inductive search_run :: "text_env \<Rightarrow> search_engine \<Rightarrow> (row_id \<rightharpoonup> string set) \<Rightarrow> bool" for te where
  search_start: "search_run te search_new Map.empty"
| search_index: "search_run te (index_document te doc flds se) (m(sd_id doc \<mapsto> indexed_terms te doc flds))"
    if "search_run te se m" and "sd_id doc \<notin> dom m"
| search_remove: "search_run te (remove_document te i se) (m(i := None))"
    if "search_run te se m"

definition search_inv :: "text_env \<Rightarrow> search_engine \<Rightarrow> (row_id \<rightharpoonup> string set) \<Rightarrow> bool" where
  "search_inv te se m \<longleftrightarrow>
     index_wf (se_index se) \<and> hm_wf (se_doc_lengths se) \<and>
     (\<forall>i. hm_contains (se_documents se) i \<longleftrightarrow> i \<in> dom m) \<and> (\<forall>i. hm_contains (se_doc_lengths se) i \<longleftrightarrow> i \<in> dom m) \<and>
     (\<forall>t i. posting (se_index se) t i \<noteq> None \<longleftrightarrow> (\<exists>T. m i = Some T \<and> t \<in> T)) \<and>
     (\<forall>i doc T t. hm_get (se_documents se) i = Some doc \<longrightarrow> m i = Some T \<longrightarrow> t \<in> T \<longrightarrow>
        (\<exists>(f, text) \<in> set (sd_fields doc). t \<in> set (tokenize_text te text)))"

lemma indexed_terms_in_fields:
  "t \<in> indexed_terms te doc flds \<Longrightarrow> \<exists>(f, text) \<in> set (sd_fields doc). t \<in> set (tokenize_text te text)"
  by (fastforce simp: indexed_terms_def field_tokens_def split: option.splits dest: map_of_SomeD)

lemma search_inv_index:
  assumes "search_inv te se m" and "sd_id doc \<notin> dom m"
  shows "search_inv te (index_document te doc flds se) (m(sd_id doc \<mapsto> indexed_terms te doc flds))"
proof -
  obtain terms n where c: "collect_terms te doc flds ([], 0) = (terms, n)" by fastforce
  have terms: "hm_wf terms" "\<And>t. hm_contains terms t \<longleftrightarrow> t \<in> indexed_terms te doc flds"
    using collect_terms_wf [of "([], 0)" te doc flds] collect_terms_keys [of te doc flds "([], 0)"] by (simp_all add: c)
  have none: "posting (se_index se) t (sd_id doc) = None" for t
    using assms by (metis domI search_inv_def)
  have post: "posting (fold (post_term (sd_id doc)) terms (se_index se)) t i \<noteq> None \<longleftrightarrow>
      (\<exists>T. (m(sd_id doc \<mapsto> indexed_terms te doc flds)) i = Some T \<and> t \<in> T)" for t i
    using assms(1) none terms(2) [of t]
    by (auto simp: posting_post_terms [OF terms(1)] search_inv_def simp del: map_of_eq_Some_iff split: option.split)
  have wf: "index_wf (fold (post_term (sd_id doc)) terms (se_index se))" "hm_wf (hm_insert (sd_id doc) n (se_doc_lengths se))"
    using assms(1) by (auto simp: search_inv_def index_wf_post)
  have docs: "\<exists>(f, text) \<in> set (sd_fields d). t \<in> set (tokenize_text te text)"
    if "hm_get (hm_insert (sd_id doc) doc (se_documents se)) i = Some d"
      "(m(sd_id doc \<mapsto> indexed_terms te doc flds)) i = Some T" "t \<in> T" for i d T t
  proof (cases "i = sd_id doc")
    case True
    with that indexed_terms_in_fields [of t te doc flds] show ?thesis by (simp add: hm_simps)
  next
    case False
    with that assms(1) show ?thesis unfolding search_inv_def by (metis (no_types, lifting) fun_upd_other hm_get_insert)
  qed
  have contains: "\<And>i. hm_contains (hm_insert (sd_id doc) doc (se_documents se)) i \<longleftrightarrow> i \<in> dom (m(sd_id doc \<mapsto> indexed_terms te doc flds))"
    "\<And>i. hm_contains (hm_insert (sd_id doc) n (se_doc_lengths se)) i \<longleftrightarrow> i \<in> dom (m(sd_id doc \<mapsto> indexed_terms te doc flds))"
    using assms(1) by (auto simp: search_inv_def hm_simps simp del: map_of_eq_Some_iff)
  show ?thesis
    unfolding search_inv_def index_document_def c
    by (simp only: prod.case Let_def search_engine.simps) (intro conjI allI impI wf contains post docs)
qed

lemma search_inv_remove:
  assumes "search_inv te se m"
  shows "search_inv te (remove_document te i se) (m(i := None))"
proof -
  let ?ix = "se_index (remove_document te i se)"
  have post: "posting ?ix t j \<noteq> None \<longleftrightarrow> (\<exists>T. (m(i := None)) j = Some T \<and> t \<in> T)" for t j
  proof (cases "hm_get (se_documents se) i")
    case None
    with assms have "m i = None" unfolding search_inv_def by blast
    with None assms show ?thesis by (auto simp: remove_document_def search_inv_def simp del: map_of_eq_Some_iff)
  next
    case (Some doc)
    have "posting ?ix t j = (if j = i \<and> (\<exists>(f, text) \<in> set (sd_fields doc). t \<in> set (tokenize_text te text)) then None
        else posting (se_index se) t j)"
      using Some by (simp add: remove_document_def posting_unpost_fields)
    moreover have "\<not> (\<exists>(f, text) \<in> set (sd_fields doc). t \<in> set (tokenize_text te text)) \<Longrightarrow> posting (se_index se) t i = None"
      using assms Some unfolding search_inv_def by metis
    ultimately have "posting ?ix t j = (if j = i then None else posting (se_index se) t j)" by auto
    moreover have "posting (se_index se) t j \<noteq> None \<longleftrightarrow> (\<exists>T. m j = Some T \<and> t \<in> T)"
      using assms unfolding search_inv_def by blast
    ultimately show ?thesis by simp
  qed
  have wf: "index_wf ?ix" "hm_wf (se_doc_lengths (remove_document te i se))"
    using assms by (auto simp: search_inv_def remove_document_def index_wf_unpost_fields split: option.split)
  have contains: "\<And>j. hm_contains (se_documents (remove_document te i se)) j \<longleftrightarrow> j \<in> dom (m(i := None))"
    "\<And>j. hm_contains (se_doc_lengths (remove_document te i se)) j \<longleftrightarrow> j \<in> dom (m(i := None))"
    using assms by (auto simp: search_inv_def remove_document_def hm_simps simp del: map_of_eq_Some_iff split: if_splits)
  have docs: "\<exists>(f, text) \<in> set (sd_fields d). t \<in> set (tokenize_text te text)"
    if "hm_get (se_documents (remove_document te i se)) j = Some d" "(m(i := None)) j = Some T" "t \<in> T" for j d T t
  proof -
    have "j \<noteq> i" using that(2) by auto
    with that have "hm_get (se_documents se) j = Some d" "m j = Some T"
      by (simp_all add: remove_document_def hm_simps del: map_of_eq_Some_iff)
    with assms that(3) show ?thesis unfolding search_inv_def by metis
  qed
  show ?thesis unfolding search_inv_def by (intro conjI allI impI wf contains post docs)
qed

lemma search_run_inv: "search_run te se m \<Longrightarrow> search_inv te se m"
proof (induction rule: search_run.induct)
  case search_start
  show ?case by (simp add: search_inv_def search_new_def index_wf_def posting_def)
qed (rule search_inv_index search_inv_remove; assumption)+

section \<open>What a search finds\<close>

lemma score_posting_keys:
  "set (hm_keys (score_posting x y lens (i, es) sc)) = insert i (set (hm_keys sc))"
  "hm_wf sc \<Longrightarrow> hm_wf (score_posting x y lens (i, es) sc)"
  by (auto simp: score_posting_def Let_def dom_update split: option.split prod.split)

lemma score_postings_keys:
  "set (hm_keys (fold (score_posting x y lens) ps sc)) = set (map fst ps) \<union> set (hm_keys sc) \<and>
   (hm_wf sc \<longrightarrow> hm_wf (fold (score_posting x y lens) ps sc))"
proof (induction ps arbitrary: sc)
  case (Cons p ps)
  obtain i es where p: "p = (i, es)" by (cases p)
  from Cons [of "score_posting x y lens p sc"] show ?case
    unfolding p using score_posting_keys [where x = x and y = y and lens = lens and i = i and es = es and sc = sc] by auto
qed simp

lemma posting_keys: "posting ix t i \<noteq> None \<longleftrightarrow> (case hm_get ix t of Some e \<Rightarrow> i \<in> set (map fst (ie_postings e)) | None \<Rightarrow> False)"
proof (cases "hm_get ix t")
  case (Some e)
  have "hm_contains (ie_postings e) i \<longleftrightarrow> i \<in> set (hm_keys (ie_postings e))" by (rule hm_contains_keys)
  with Some show ?thesis unfolding posting_def by simp
qed (simp add: posting_def)

lemma score_tokens_keys:
  "set (hm_keys (fold (score_token te se x y) ts sc)) = {i. \<exists>t \<in> set ts. posting (se_index se) t i \<noteq> None} \<union> set (hm_keys sc) \<and>
   (hm_wf sc \<longrightarrow> hm_wf (fold (score_token te se x y) ts sc))"
proof (induction ts arbitrary: sc)
  case (Cons t ts)
  have "set (hm_keys (score_token te se x y t sc)) = {i. posting (se_index se) t i \<noteq> None} \<union> set (hm_keys sc) \<and>
      (hm_wf sc \<longrightarrow> hm_wf (score_token te se x y t sc))"
  proof (cases "hm_get (se_index se) t")
    case None
    then have "{i. posting (se_index se) t i \<noteq> None} = {}" by (simp add: posting_def)
    with None show ?thesis by (simp add: score_token_def)
  next
    case (Some e)
    then have "{i. posting (se_index se) t i \<noteq> None} = set (map fst (ie_postings e))" unfolding posting_keys by simp
    with Some score_postings_keys show ?thesis by (simp add: score_token_def)
  qed
  with Cons [of "score_token te se x y t sc"] show ?case by auto
qed simp

definition found :: "text_env \<Rightarrow> (row_id \<rightharpoonup> string set) \<Rightarrow> string \<Rightarrow> row_id set" where
  "found te m query = {i. \<exists>T. m i = Some T \<and> T \<inter> set (tokenize_text te query) \<noteq> {}}"

lemma sort_by_cong:
  assumes "\<And>a b. a \<in> set xs \<Longrightarrow> b \<in> set xs \<Longrightarrow> cmp a b = cmp' a b"
  shows "sort_by cmp xs = sort_by cmp' xs"
proof -
  have ins: "insert_by cmp x ys = insert_by cmp' x ys" if "\<And>b. b \<in> set ys \<Longrightarrow> cmp x b = cmp' x b" for x ys
    using that by (induction ys) auto
  show ?thesis using assms
  proof (induction xs)
    case (Cons x xs)
    have "insert_by cmp x (sort_by cmp' xs) = insert_by cmp' x (sort_by cmp' xs)" using Cons.prems by (intro ins) auto
    with Cons show ?case by simp
  qed simp
qed

interpretation by_score: comparator "\<lambda>a b :: hit. cmp_of (f64_key (hit_score b)) (f64_key (hit_score a))"
proof -
  have "comparator (\<lambda>a b. reverse_ordering (cmp_of (f64_key (hit_score a)) (f64_key (hit_score b))))"
    by (intro comparator_reverse comparator_map [OF comparator_cmp_of])
  then show "comparator (\<lambda>a b :: hit. cmp_of (f64_key (hit_score b)) (f64_key (hit_score a)))"
    by (simp add: cmp_of_flip [symmetric])
qed

lemma sorted_hits:
  fixes hits :: "hit list"
  assumes "\<forall>h \<in> set hits. \<not> f64_nan (hit_score h)"
  shows "sorted_wrt (\<lambda>a b. \<not> f64_lt (hit_score a) (hit_score b)) (sort_by (\<lambda>a b. cmp_f64 (hit_score b) (hit_score a)) hits)"
proof -
  have same: "sort_by (\<lambda>a b. cmp_f64 (hit_score b) (hit_score a)) hits =
      sort_by (\<lambda>a b. cmp_of (f64_key (hit_score b)) (f64_key (hit_score a))) hits"
    using assms by (intro sort_by_cong) (auto simp: cmp_f64_def cmp_of_def f64_lt_def)
  show ?thesis
    unfolding same using by_score.sorted_sort_by [of hits]
    by (rule sorted_wrt_mono_rel [rotated]) (auto simp: f64_lt_def cmp_simps not_less)
qed

lemma search_all:
  assumes "search_run te se m"
  shows "\<exists>hits. (\<forall>limit. engine_search te query limit se = take limit hits) \<and>
    distinct (map hit_id hits) \<and> set (map hit_id hits) = found te m query \<and>
    ((\<forall>h \<in> set hits. \<not> f64_nan (hit_score h)) \<longrightarrow> sorted_wrt (\<lambda>a b. \<not> f64_lt (hit_score a) (hit_score b)) hits)"
proof -
  note inv = search_run_inv [OF assms, unfolded search_inv_def]
  show ?thesis
  proof (cases "tokenize_text te query = [] \<or> length (se_doc_lengths se) = 0")
    case True
    then have "found te m query = {}"
    proof
      assume "length (se_doc_lengths se) = 0"
      with inv have "m i = None" for i by auto
      then show ?thesis by (simp add: found_def)
    qed (simp add: found_def)
    moreover have "engine_search te query limit se = []" for limit
      using True by (simp add: engine_search_def)
    ultimately show ?thesis by (intro exI [of _ "[]"]) simp
  next
    case False
    define sc where "sc = fold (score_token te se (f64_of_nat (length (se_doc_lengths se)))
      (f64_div (f64_of_nat (sum_list (map snd (se_doc_lengths se)))) (f64_of_nat (length (se_doc_lengths se)))))
      (tokenize_text te query) []"
    define hits where "hits = map (\<lambda>(i, score, fs). \<lparr> hit_id = i, hit_score = score, hit_fields = fs \<rparr>) sc"
    define ranked where "ranked = sort_by (\<lambda>a b. cmp_f64 (hit_score b) (hit_score a)) hits"
    have ids: "map hit_id hits = hm_keys sc" by (simp add: hits_def case_prod_beta' comp_def)
    have keys: "set (hm_keys sc) = {i. \<exists>t \<in> set (tokenize_text te query). posting (se_index se) t i \<noteq> None}" "hm_wf sc"
      unfolding sc_def using score_tokens_keys [where sc = "[]"] by (simp_all only: list.map list.set distinct.simps Un_empty_right simp_thms)
    have "{i. \<exists>t \<in> set (tokenize_text te query). posting (se_index se) t i \<noteq> None} = found te m query"
      unfolding found_def using inv by blast
    moreover have "mset (map hit_id ranked) = mset (map hit_id hits)" by (simp add: ranked_def)
    ultimately have "distinct (map hit_id ranked)" "set (map hit_id ranked) = found te m query"
      using keys ids by (metis mset_eq_imp_distinct_iff, metis set_mset_mset)
    moreover have "engine_search te query limit se = take limit ranked" for limit
      using False by (simp add: engine_search_def Let_def sc_def hits_def ranked_def)
    moreover have "(\<forall>h \<in> set ranked. \<not> f64_nan (hit_score h)) \<longrightarrow> sorted_wrt (\<lambda>a b. \<not> f64_lt (hit_score a) (hit_score b)) ranked"
      using sorted_hits [of hits] by (simp add: ranked_def)
    ultimately show ?thesis by blast
  qed
qed

text \<open>
  C21: A search finds the documents that contain a word of the query and no others: after any
  sequence of indexing and removing documents in which a document is indexed only under an
  identifier that is not indexed at that time, the hits are distinct, every hit contains one of
  the words in an indexed field, and there are as many as the limit allows. (Indexing an
  identifier again without removing it first leaves its old words in the index.) A smaller limit gives
  a beginning of the longer list, and scores fall along it when they are numbers, so the best hits
  come first.
\<close>

theorem search_finds_exactly:
  assumes "search_run te se m" and "hits = engine_search te query limit se" and "all = engine_search te query (card (found te m query)) se"
  shows "distinct (map hit_id hits) \<and> set (map hit_id hits) \<subseteq> found te m query \<and>
    length hits = min limit (card (found te m query)) \<and> hits = take limit all \<and> set (map hit_id all) = found te m query \<and>
    ((\<forall>h \<in> set all. \<not> f64_nan (hit_score h)) \<longrightarrow> sorted_wrt (\<lambda>a b. \<not> f64_lt (hit_score a) (hit_score b)) all)"
proof -
  obtain full where full: "\<And>limit. engine_search te query limit se = take limit full" "distinct (map hit_id full)"
    "set (map hit_id full) = found te m query"
    "(\<forall>h \<in> set full. \<not> f64_nan (hit_score h)) \<longrightarrow> sorted_wrt (\<lambda>a b. \<not> f64_lt (hit_score a) (hit_score b)) full"
    using search_all [OF assms(1), of query] by blast
  have len: "length full = card (found te m query)"
    using distinct_card [OF full(2)] full(3) by simp
  then have "all = full" using assms(3) full(1) by simp
  moreover have "hits = take limit full" using assms(2) full(1) by simp
  moreover have "distinct (map hit_id (take limit full))" "set (map hit_id (take limit full)) \<subseteq> set (map hit_id full)"
    using full(2) by (simp_all add: take_map [symmetric] set_take_subset del: set_map)
  ultimately show ?thesis using full(3,4) len by (simp add: min.commute)
qed

section \<open>Examples\<close>

definition demo_text :: text_env where
  "demo_text = \<lparr> te_lower = id, te_words = split_on (CHR '' ''), te_ln = id \<rparr>"

definition demo_doc :: "string \<Rightarrow> search_document" where
  "demo_doc s = document_with_field ''body'' s (document_new 1)"

lemma demo_terms: "indexed_terms demo_text (demo_doc ''big cat'') [''body''] = {''big'', ''cat''}"
  by (simp add: indexed_terms_def field_tokens_def demo_doc_def document_with_field_def document_new_def tokenize_text_def demo_text_def)

lemma demo_tokens: "tokenize_text demo_text ''cat'' = [''cat'']"
  by (simp add: tokenize_text_def demo_text_def)

lemma demo_search_run:
  "search_run demo_text (index_document demo_text (demo_doc ''big cat'') [''body''] search_new) [1 \<mapsto> {''big'', ''cat''}]"
  using search_index [OF search_start, of "demo_doc ''big cat''" demo_text "[''body'']"]
  by (simp add: demo_terms) (simp add: demo_doc_def document_with_field_def document_new_def)

theorem search_finds_exactly_witness:
  "map hit_id (engine_search demo_text ''cat'' 5 (index_document demo_text (demo_doc ''big cat'') [''body''] search_new)) = [1]"
proof -
  let ?hits = "engine_search demo_text ''cat'' 5 (index_document demo_text (demo_doc ''big cat'') [''body''] search_new)"
  have f: "found demo_text [1 \<mapsto> {''big'', ''cat''}] ''cat'' = {1}" by (auto simp: found_def demo_tokens)
  from search_finds_exactly [OF demo_search_run refl refl, of "''cat''" 5]
  have "length (map hit_id ?hits) = 1" "set (map hit_id ?hits) \<subseteq> {1}" unfolding f by auto
  then show ?thesis by (cases "map hit_id ?hits") (auto simp del: map_eq_Cons_conv length_map)
qed

text \<open>Indexing a document again leaves its old terms in the index, and removing it then does not help.\<close>

lemma reindexing_leaves_old_terms:
  "let se = index_document demo_text (demo_doc ''dog'') [''body''] (index_document demo_text (demo_doc ''cat'') [''body''] search_new) in
   get_document 1 se = Some (demo_doc ''dog'') \<and> posting (se_index se) ''cat'' 1 \<noteq> None \<and>
   has_document 1 (remove_document demo_text 1 se) = False \<and>
   posting (se_index (remove_document demo_text 1 se)) ''cat'' 1 \<noteq> None"
  by code_simp

end
