(* ===== verification/Storage_Recovery.thy ===== *)
theory Storage_Recovery
  imports Snapshots Wal_Log Core_Table
begin

text \<open>
  The recovery manager of \<open>blitz-storage/src/recovery.rs\<close>, which restores an engine from the newest
  snapshot and one log with transaction markers. The checksum, the JSON text of snapshots, the
  binary form of rows (bincode) and the identifiers of new tables are parameters. A data
  directory is the files of its \<open>snapshots\<close> subdirectory and the content of \<open>blitz.wal\<close>, if any.
\<close>

section \<open>Operations\<close>

datatype recovery_error = RecWal wal_error | RecDeserialization string | RecEngine core_error

record storage_env =
  so_crc :: "u8 list \<Rightarrow> u32"
  so_serde :: snapshot_serde
  so_table_id :: "string \<Rightarrow> table_id"
  so_row :: "u8 list \<Rightarrow> string + row"
  so_values :: "u8 list \<Rightarrow> string + row_values"

record storage_dir =
  so_snapshots :: files
  so_wal :: "u8 list option"

fun storage_value :: "json \<Rightarrow> val" where
  "storage_value JNull = VNull"
| "storage_value (JBool b) = VBoolean b"
| "storage_value (JNumber n) =
     (case number_as_i64 n of
        Some i \<Rightarrow> VInt64 i
      | None \<Rightarrow> (case number_as_f64 n of Some f \<Rightarrow> VFloat64 f | None \<Rightarrow> VNull))"
| "storage_value (JString s) = VString s"
| "storage_value (JArray items) = VArray (map storage_value items)"
| "storage_value (JObject kvs) = VJson (JObject kvs)"

fun json_to_column_type :: "json \<Rightarrow> column_type" where
  "json_to_column_type JNull = TString"
| "json_to_column_type (JBool _) = TBoolean"
| "json_to_column_type (JNumber n) = (if number_as_i64 n \<noteq> None then TInt64 else TFloat64)"
| "json_to_column_type (JString _) = TString"
| "json_to_column_type (JArray _) = TArray"
| "json_to_column_type (JObject _) = TJson"

definition storage_schema :: "storage_env \<Rightarrow> string \<Rightarrow> snapshot_row list \<Rightarrow> table_schema" where
  "storage_schema v name rows =
     (let schema = with_column (schema_new (so_table_id v name) name) (column_primary_key (column_new ''id'' TInt64)) in
      case rows of
        [] \<Rightarrow> schema
      | first # _ \<Rightarrow>
          fold (\<lambda>(k, j) s. if k = ''id'' then s else with_column s (column_new k (json_to_column_type j))) (sr_values first) schema)"

definition snapshot_values :: "snapshot_row \<Rightarrow> row_values" where
  "snapshot_values r =
     fold (\<lambda>(k, j) m. if k = ''id'' then m else hm_insert k (storage_value j) m) (sr_values r) [(''id'', VInt64 (sr_id r))]"

fun restore_rows :: "string \<Rightarrow> snapshot_row list \<Rightarrow> engine \<Rightarrow> recovery_error + engine" where
  "restore_rows nm [] eng = Ok eng"
| "restore_rows nm (r # rows) eng =
     (case engine_insert nm \<lparr> row_id = sr_id r, row_values = snapshot_values r \<rparr> eng of
        (Inl e, _) \<Rightarrow> Err (RecEngine e)
      | (Inr _, eng) \<Rightarrow> restore_rows nm rows eng)"

fun restore_tables :: "storage_env \<Rightarrow> snapshot_table list \<Rightarrow> engine \<Rightarrow> recovery_error + engine" where
  "restore_tables v [] eng = Ok eng"
| "restore_tables v (t # ts) eng =
     (case engine_create_table (storage_schema v (st_name t) (st_rows t)) eng of
        (Inl e, _) \<Rightarrow> Err (RecEngine e)
      | (Inr _, eng) \<Rightarrow>
          (case restore_rows (st_name t) (st_rows t) eng of
             Inl e \<Rightarrow> Err e
           | Inr eng \<Rightarrow> restore_tables v ts eng))"

definition restore_snapshot :: "storage_env \<Rightarrow> snapshot \<Rightarrow> recovery_error + engine" where
  "restore_snapshot v sn = restore_tables v (sn_tables sn) engine_new"

definition apply_entry :: "storage_env \<Rightarrow> wal_entry \<Rightarrow> engine \<Rightarrow> recovery_error + engine" where
  "apply_entry v en eng =
     (case we_type en of
        EInsert \<Rightarrow>
          (case so_row v (we_data en) of
             Inl e \<Rightarrow> Err (RecDeserialization e)
           | Inr r \<Rightarrow>
               (case engine_insert (we_table en) r eng of
                  (Inl e, _) \<Rightarrow> Err (RecEngine e) | (Inr _, eng) \<Rightarrow> Ok eng))
      | EUpdate \<Rightarrow>
          (case so_values v (we_data en) of
             Inl e \<Rightarrow> Err (RecDeserialization e)
           | Inr vals \<Rightarrow>
               (case engine_update (we_table en) (we_row_id en) vals eng of
                  (Inl e, _) \<Rightarrow> Err (RecEngine e) | (Inr _, eng) \<Rightarrow> Ok eng))
      | EDelete \<Rightarrow>
          (case engine_delete (we_table en) (we_row_id en) eng of
             (Inl e, _) \<Rightarrow> Err (RecEngine e) | (Inr _, eng) \<Rightarrow> Ok eng)
      | _ \<Rightarrow> Ok eng)"

fun apply_entries :: "storage_env \<Rightarrow> wal_entry list \<Rightarrow> engine \<Rightarrow> recovery_error + engine" where
  "apply_entries v [] eng = Ok eng"
| "apply_entries v (en # es) eng =
     (case apply_entry v en eng of Inl e \<Rightarrow> Err e | Inr eng \<Rightarrow> apply_entries v es eng)"

text \<open>Operations wait for a marker: a commit applies all that wait, a rollback drops them.\<close>

fun replay_entries :: "storage_env \<Rightarrow> u64 \<Rightarrow> wal_entry list \<Rightarrow> wal_entry list \<Rightarrow> engine \<Rightarrow> recovery_error + engine" where
  "replay_entries v after pending [] eng = apply_entries v pending eng"
| "replay_entries v after pending (en # es) eng =
     (if we_sequence en \<le> after then replay_entries v after pending es eng
      else
        (case we_type en of
           ECommit \<Rightarrow>
             (case apply_entries v pending eng of
                Inl e \<Rightarrow> Err e | Inr eng \<Rightarrow> replay_entries v after [] es eng)
         | ERollback \<Rightarrow> replay_entries v after [] es eng
         | _ \<Rightarrow> replay_entries v after (pending @ [en]) es eng))"

definition replay_wal :: "storage_env \<Rightarrow> u64 \<Rightarrow> u8 list \<Rightarrow> engine \<Rightarrow> recovery_error + engine" where
  "replay_wal v after content eng =
     (case wal_open (so_crc v) content of
        Inl e \<Rightarrow> Err (RecWal e)
      | Inr w \<Rightarrow>
          (case read_all (so_crc v) w of
             Inl e \<Rightarrow> Err (RecWal e)
           | Inr es \<Rightarrow> replay_entries v after [] es eng))"

definition storage_recover :: "storage_env \<Rightarrow> storage_dir \<Rightarrow> recovery_error + engine" where
  "storage_recover v dir =
     (case (case load_latest (so_serde v) (so_snapshots dir) of
              Inr (Some (sn, q)) \<Rightarrow> map_sum id (\<lambda>eng. (eng, q)) (restore_snapshot v sn)
            | Inr None \<Rightarrow> Ok (engine_new, 0)
            | Inl _ \<Rightarrow> Ok (engine_new, 0)) of
        Inl e \<Rightarrow> Err e
      | Inr (eng, q) \<Rightarrow>
          (case so_wal dir of None \<Rightarrow> Ok eng | Some content \<Rightarrow> replay_wal v q content eng))"

section \<open>What survives of the log\<close>

definition is_marker :: "wal_entry \<Rightarrow> bool" where
  "is_marker en \<longleftrightarrow> we_type en \<in> {ECommit, ERollback}"

text \<open>An operation counts unless the first marker behind it is a rollback.\<close>

fun surviving :: "wal_entry list \<Rightarrow> wal_entry list" where
  "surviving [] = []"
| "surviving (en # es) =
     (if is_marker en \<or> (\<exists>m. find is_marker es = Some m \<and> we_type m = ERollback) then surviving es else en # surviving es)"

lemma apply_entries_append:
  "apply_entries v (xs @ ys) eng = (case apply_entries v xs eng of Inl e \<Rightarrow> Err e | Inr eng \<Rightarrow> apply_entries v ys eng)"
  by (induction xs arbitrary: eng) (auto split: sum.split)

text \<open>What waits counts unless the next marker is a rollback.\<close>

definition kept :: "wal_entry list \<Rightarrow> wal_entry list \<Rightarrow> wal_entry list" where
  "kept pending es = (if \<exists>m. find is_marker es = Some m \<and> we_type m = ERollback then [] else pending)"

lemma replay_surviving:
  assumes "\<forall>en \<in> set es. after < we_sequence en"
  shows "replay_entries v after pending es eng = apply_entries v (kept pending es @ surviving es) eng"
  using assms
proof (induction es arbitrary: pending eng)
  case Nil
  then show ?case by (simp add: kept_def)
next
  case (Cons en es)
  then have seq: "\<not> we_sequence en \<le> after" by (simp add: not_le)
  show ?case
  proof (cases "we_type en")
    case ECommit
    with seq Cons show ?thesis
      by (auto simp: kept_def is_marker_def apply_entries_append split: sum.split)
  next
    case ERollback
    with seq Cons show ?thesis by (auto simp: kept_def is_marker_def)
  next
    case EInsert
    with seq Cons show ?thesis by (auto simp: kept_def is_marker_def)
  next
    case EUpdate
    with seq Cons show ?thesis by (auto simp: kept_def is_marker_def)
  next
    case EDelete
    with seq Cons show ?thesis by (auto simp: kept_def is_marker_def)
  qed
qed

lemma replay_skips:
  "replay_entries v after pending es eng = replay_entries v after pending (filter (\<lambda>en. after < we_sequence en) es) eng"
proof (induction es arbitrary: pending eng)
  case (Cons en es)
  show ?case
  proof (cases "after < we_sequence en")
    case True
    then have "\<not> we_sequence en \<le> after" by (simp add: not_le)
    with True show ?thesis by (cases "we_type en") (simp_all add: Cons.IH [symmetric] split: sum.split)
  next
    case False
    then have "we_sequence en \<le> after" by (simp add: not_less)
    with False show ?thesis by (simp add: Cons.IH [symmetric])
  qed
qed simp

text \<open>
  Replaying the log is applying its surviving operations in order: of the entries behind
  the snapshot, the operations whose next marker is not a rollback, until one of them fails.
\<close>

theorem replay_applies_surviving:
  "replay_entries v after [] es eng = apply_entries v (surviving (filter (\<lambda>en. after < we_sequence en) es)) eng"
proof -
  have "\<forall>en \<in> set (filter (\<lambda>en. after < we_sequence en) es). after < we_sequence en" by simp
  from replay_surviving [OF this, of v "[]" eng] show ?thesis
    using replay_skips [of v after "[]" es eng] by (simp add: kept_def)
qed

section \<open>Recovery without a snapshot\<close>

lemma apply_entry_empty:
  assumes "\<not> is_marker en"
  shows "\<exists>e. apply_entry v en engine_new = Err e"
  using assms
  by (cases "we_type en"; cases "so_row v (we_data en)"; cases "so_values v (we_data en)")
    (auto simp: apply_entry_def is_marker_def engine_insert_def engine_update_def engine_delete_def engine_take_def
      with_table_def engine_table_def engine_new_def)

lemma surviving_not_marker: "en \<in> set (surviving es) \<Longrightarrow> \<not> is_marker en"
  by (induction es) (auto split: if_splits)

text \<open>
  A log alone cannot be recovered: tables are only created from a snapshot, so when there is no
  readable snapshot and the log holds a single operation that was not rolled back, recovery fails
  with an error and returns no engine.
\<close>

theorem log_without_snapshot_unrecoverable:
  assumes "load_latest (so_serde v) (so_snapshots dir) \<in> {Ok None, Err e}" and "so_wal dir = Some content"
    and "wal_open (so_crc v) content = Ok w" and "read_all (so_crc v) w = Ok es"
    and "surviving (filter (\<lambda>en. 0 < we_sequence en) es) \<noteq> []"
  shows "\<exists>err. storage_recover v dir = Err err"
proof -
  obtain en rest where s: "surviving (filter (\<lambda>en. 0 < we_sequence en) es) = en # rest"
    using assms(5) by (cases "surviving (filter (\<lambda>en. 0 < we_sequence en) es)") auto
  then have "\<not> is_marker en" using surviving_not_marker [of en "filter (\<lambda>en. 0 < we_sequence en) es"] by simp
  then obtain err where "apply_entry v en engine_new = Err err" using apply_entry_empty by blast
  moreover have "\<forall>en \<in> set (filter (\<lambda>en. 0 < we_sequence en) es). 0 < we_sequence en" by simp
  from replay_surviving [OF this, of v "[]" engine_new] replay_skips [of v 0 "[]" es engine_new]
  have "replay_entries v 0 [] es engine_new = apply_entries v (en # rest) engine_new" by (simp add: kept_def s)
  ultimately have "replay_entries v 0 [] es engine_new = Err err" by simp
  with assms(1-4) show ?thesis by (auto simp: storage_recover_def replay_wal_def)
qed

section \<open>Examples\<close>

definition storage_demo :: storage_env where
  "storage_demo = \<lparr> so_crc = (\<lambda>_. 0), so_serde = \<lparr> sd_to_vec = (\<lambda>_. Ok []), sd_from_slice = (\<lambda>_. Err []) \<rparr>,
     so_table_id = (\<lambda>_. 1), so_row = (\<lambda>_. Ok \<lparr> row_id = 0, row_values = [] \<rparr>), so_values = (\<lambda>_. Ok []) \<rparr>"

definition storage_entry :: wal_entry where
  "storage_entry = \<lparr> we_sequence = 1, we_type = EInsert, we_table = ''t'', we_row_id = 1, we_data = [] \<rparr>"

definition log_only :: storage_dir where
  "log_only = \<lparr> so_snapshots = [], so_wal = Some (log_bytes (\<lambda>_. 0) [storage_entry]) \<rparr>"

theorem log_without_snapshot_unrecoverable_witness: "\<exists>err. storage_recover storage_demo log_only = Err err"
proof -
  let ?c = "log_bytes (\<lambda>_. 0) [storage_entry]"
  have "load_latest (so_serde storage_demo) (so_snapshots log_only) = Ok None"
    by (simp add: load_latest_def find_latest_snapshot_def log_only_def)
  moreover have "is_ok (wal_open (\<lambda>_. 0) ?c)" by code_simp
  then obtain w where w: "wal_open (\<lambda>_. 0) ?c = Ok w" by (auto simp: is_ok_iff)
  have "(case wal_open (\<lambda>_. 0) ?c of Inr w \<Rightarrow> read_all (\<lambda>_. 0) w = Ok [storage_entry] | Inl _ \<Rightarrow> False)" by code_simp
  then have r: "read_all (\<lambda>_. 0) w = Ok [storage_entry]" by (simp add: w)
  moreover have "surviving (filter (\<lambda>en. 0 < we_sequence en) [storage_entry]) \<noteq> []"
    by (simp add: storage_entry_def is_marker_def)
  ultimately show ?thesis
    using log_without_snapshot_unrecoverable [of storage_demo log_only _ ?c w "[storage_entry]"] w
    by (simp add: storage_demo_def log_only_def)
qed

text \<open>
  A snapshot is restored with new row identifiers, and a null value in it fails the check against
  the inferred schema, whose columns are not nullable.
\<close>

lemma restored_rows_renumbered:
  "case restore_snapshot storage_demo (snapshot_of_tables [(''t'', [(5, [(''a'', JBool True)])])] []) of
     Inr eng \<Rightarrow> engine_get ''t'' 5 eng = Ok None \<and>
       engine_get ''t'' 1 eng = Ok (Some \<lparr> row_id = 1, row_values = [(''id'', VInt64 5), (''a'', VBoolean True)] \<rparr>)
   | Inl _ \<Rightarrow> False"
  by code_simp

lemma null_in_snapshot_unrecoverable:
  "restore_snapshot storage_demo (snapshot_of_tables [(''t'', [(1, [(''a'', JNull)])])] []) = Err (RecEngine (CoreTypeError NullValue))"
  by code_simp

end
