(* ===== verification/Fanout.thy ===== *)
theory Fanout
  imports Server_State
begin

text \<open>
  The fan-out worker (\<open>blitz-server/src/social.rs\<close>): for every post taken from the queue it writes a
  row of the table \<open>timeline\<close> for each follower of the author, up to a cap.
\<close>

section \<open>The worker\<close>

definition FANOUT_PER_POST_CAP :: nat where "FANOUT_PER_POST_CAP = 200"

definition timeline_schema :: "table_id \<Rightarrow> table_schema" where
  "timeline_schema tid =
     with_column (with_column (with_column (with_column (with_column (schema_new tid ''timeline'')
       (column_nullable (column_new ''id'' TInt64)))
       (column_nullable (column_new ''owner'' TString)))
       (column_nullable (column_new ''post'' TString)))
       (column_nullable (column_new ''author'' TString)))
       (column_nullable (column_new ''ts'' TString))"

definition follow_tables :: "engine \<Rightarrow> string list" where
  "follow_tables eng = sort (filter (\<lambda>t. t = ''follows'' \<or> prefix ''follows_'' t) (engine_table_names eng))"

text \<open>The follower that a row of a follow table names, when it is one of the author's.\<close>

definition follower :: "string \<Rightarrow> row \<Rightarrow> string option" where
  "follower author r =
     (if hm_get (row_values r) ''to'' = Some (VString author)
      then (case hm_get (row_values r) ''from'' of Some (VString f) \<Rightarrow> Some f | _ \<Rightarrow> None)
      else None)"

fun owners_in_rows :: "string \<Rightarrow> row list \<Rightarrow> string list \<Rightarrow> string list" where
  "owners_in_rows author [] owners = owners"
| "owners_in_rows author (r # rs) owners =
     (if FANOUT_PER_POST_CAP \<le> length owners then owners
      else owners_in_rows author rs (case follower author r of Some f \<Rightarrow> owners @ [f] | None \<Rightarrow> owners))"

fun owners_in_tables :: "engine \<Rightarrow> string \<Rightarrow> string list \<Rightarrow> string list \<Rightarrow> string list" where
  "owners_in_tables eng author [] owners = owners"
| "owners_in_tables eng author (t # ts) owners =
     (if FANOUT_PER_POST_CAP \<le> length owners then owners
      else owners_in_tables eng author ts
             (owners_in_rows author (case engine_scan t eng of Inr rows \<Rightarrow> rows | Inl _ \<Rightarrow> []) owners))"

definition timeline_values :: "string \<Rightarrow> fanout_job \<Rightarrow> string \<Rightarrow> row_values" where
  "timeline_values ts job owner =
     [(''owner'', VString owner), (''post'', VString (fj_table job @ '':'' @ u64_text (fj_row_id job))),
      (''author'', VString (fj_author job)), (''ts'', VString ts)]"

definition timeline_insert :: "server_env \<Rightarrow> string \<Rightarrow> fanout_job \<Rightarrow> string \<Rightarrow> server \<times> u64 \<Rightarrow> server \<times> u64" where
  "timeline_insert e ts job owner sd =
     (let (s, num) = sd; vals = timeline_values ts job owner in
      case engine_insert ''timeline'' \<lparr> row_id = 0, row_values = vals \<rparr> (sv_engine s) of
        (Inl _, eng) \<Rightarrow> (set_engine eng s, num)
      | (Inr i, eng) \<Rightarrow>
          (snd (wal_log e EInsert ''timeline'' i (values_to_json_bytes (se_json e) vals) (set_engine eng s)), num + 1))"

definition fanout_one :: "server_env \<Rightarrow> string \<Rightarrow> fanout_job \<Rightarrow> server \<Rightarrow> server" where
  "fanout_one e ts job s =
     (let owners = owners_in_tables (sv_engine s) (fj_author job) (follow_tables (sv_engine s)) [];
          (s, num) = fold (timeline_insert e ts job) owners (s, 0) in
      fanout_record_done num s)"

definition install_fanout :: "server \<Rightarrow> server" where
  "install_fanout s = install_fanout_channel s"

text \<open>The loop over the jobs it receives, each with the time it is taken up.\<close>

definition run_fanout_loop :: "server_env \<Rightarrow> table_id \<Rightarrow> (string \<times> fanout_job) list \<Rightarrow> server \<Rightarrow> server" where
  "run_fanout_loop e tid jobs s =
     fold (\<lambda>(ts, job). fanout_one e ts job) jobs (set_engine (snd (engine_create_table (timeline_schema tid) (sv_engine s))) s)"

section \<open>Who gets a row\<close>

definition followers :: "engine \<Rightarrow> string \<Rightarrow> string list" where
  "followers eng author =
     concat (map (\<lambda>t. List.map_filter (follower author) (case engine_scan t eng of Inr rows \<Rightarrow> rows | Inl _ \<Rightarrow> [])) (follow_tables eng))"

lemma owners_in_rows_take:
  "length owners \<le> FANOUT_PER_POST_CAP \<Longrightarrow>
   owners_in_rows author rows owners = take FANOUT_PER_POST_CAP (owners @ List.map_filter (follower author) rows)"
proof (induction rows arbitrary: owners)
  case (Cons r rows)
  show ?case
  proof (cases "length owners = FANOUT_PER_POST_CAP")
    case False
    with Cons show ?thesis by (cases "follower author r") (auto simp: map_filter_simps take_Cons')
  qed simp
qed (simp add: map_filter_simps)

lemma owners_in_tables_take:
  "length owners \<le> FANOUT_PER_POST_CAP \<Longrightarrow>
   owners_in_tables eng author ts owners = take FANOUT_PER_POST_CAP (owners @
     concat (map (\<lambda>t. List.map_filter (follower author) (case engine_scan t eng of Inr rows \<Rightarrow> rows | Inl _ \<Rightarrow> [])) ts))"
proof (induction ts arbitrary: owners)
  case (Cons t ts)
  let ?new = "List.map_filter (follower author) (case engine_scan t eng of Inr rows \<Rightarrow> rows | Inl _ \<Rightarrow> [])"
  show ?case
  proof (cases "length owners = FANOUT_PER_POST_CAP")
    case False
    have "owners_in_tables eng author ts (take FANOUT_PER_POST_CAP (owners @ ?new)) =
        take FANOUT_PER_POST_CAP (take FANOUT_PER_POST_CAP (owners @ ?new) @
          concat (map (\<lambda>t. List.map_filter (follower author) (case engine_scan t eng of Inr rows \<Rightarrow> rows | Inl _ \<Rightarrow> [])) ts))"
      by (rule Cons.IH) simp
    moreover have "take n (take n xs @ ys) = take n (xs @ ys)" for n and xs ys :: "string list"
      by (simp add: min_def)
    ultimately show ?thesis using False Cons.prems by (simp add: owners_in_rows_take del: take_append)
  qed simp
qed simp

lemma fanout_owners:
  "owners_in_tables eng author (follow_tables eng) [] = take FANOUT_PER_POST_CAP (followers eng author)"
  by (simp add: owners_in_tables_take followers_def)


section \<open>The rows written\<close>

lemma timeline_row_valid:
  "validate_row_values (timeline_schema tid) (timeline_values ts job owner) = Ok ()"
  by (simp add: validate_row_values_Ok timeline_schema_def with_column_def schema_new_def column_nullable_def column_new_def
      column_accepts_def timeline_values_def)

lemma timeline_no_unique: "t_schema t = timeline_schema tid \<Longrightarrow> uniq_cols t = []"
  by (simp add: uniq_cols_def timeline_schema_def with_column_def schema_new_def column_nullable_def column_new_def)

lemma fanout_wal_engine [simp]: "sv_engine (snd (wal_log e entry table rid data s)) = sv_engine s"
  by (auto simp: wal_log_def Let_def split: option.split prod.split sum.split)

lemma wal_log_done [simp]: "sv_fanout_done (snd (wal_log e entry table rid data s)) = sv_fanout_done s"
  by (auto simp: wal_log_def Let_def split: option.split prod.split sum.split)

lemma fanout_set_engine [simp]:
  "sv_engine (set_engine eng s) = eng" "sv_fanout_done (set_engine eng s) = sv_fanout_done s"
  by (simp_all add: set_engine_def)

lemma fanout_record_done_simps [simp]:
  "sv_engine (fanout_record_done n s) = sv_engine s" "sv_fanout_done (fanout_record_done n s) = sv_fanout_done s + n"
  by (auto simp: fanout_record_done_def word_gt_0 simp del: word_neq_0_conv)

text \<open>The table after rows for some owners were appended to it.\<close>

definition appended :: "string \<Rightarrow> fanout_job \<Rightarrow> string list \<Rightarrow> in_memory_table \<Rightarrow> in_memory_table \<Rightarrow> bool" where
  "appended ts job owners t t' \<longleftrightarrow>
     t_schema t' = t_schema t \<and> t_next_id t' = t_next_id t + of_nat (length owners) \<and>
     (\<forall>i. hm_get (t_rows t') i =
        (if unat (i - t_next_id t) < length owners
         then Some \<lparr> row_id = i, row_values = timeline_values ts job (owners ! unat (i - t_next_id t)) \<rparr>
         else hm_get (t_rows t) i))"

lemma appended_snoc:
  assumes "appended ts job owners t t1" and "Suc (length owners) < 2 ^ 64"
    and "t_schema t2 = t_schema t1" and "t_next_id t2 = t_next_id t1 + 1"
    and "t_rows t2 = hm_insert (t_next_id t1) \<lparr> row_id = t_next_id t1, row_values = timeline_values ts job owner \<rparr> (t_rows t1)"
  shows "appended ts job (owners @ [owner]) t t2"
proof -
  let ?n = "length owners"
  have nx: "t_next_id t1 = t_next_id t + of_nat ?n" using assms(1) by (simp add: appended_def)
  have n: "unat (of_nat ?n :: 64 word) = ?n" using assms(2) by (simp add: unsigned_of_nat take_bit_nat_eq_self)
  have "hm_get (t_rows t2) i =
        (if unat (i - t_next_id t) < Suc ?n
         then Some \<lparr> row_id = i, row_values = timeline_values ts job ((owners @ [owner]) ! unat (i - t_next_id t)) \<rparr>
         else hm_get (t_rows t) i)" for i
  proof (cases "i = t_next_id t1")
    case True
    then have "unat (i - t_next_id t) = ?n" using nx n by simp
    with True assms(5) show ?thesis by (simp add: hm_simps)
  next
    case False
    have "unat (i - t_next_id t) \<noteq> ?n"
    proof
      assume "unat (i - t_next_id t) = ?n"
      then have "i - t_next_id t = of_nat ?n" by (simp add: word_unat_eq_iff n)
      with False nx show False by (simp add: algebra_simps)
    qed
    with False assms(1,5) show ?thesis by (auto simp: hm_simps appended_def nth_append less_Suc_eq simp del: map_of_eq_Some_iff)
  qed
  with assms(3,4) nx show ?thesis using assms(1) by (simp add: appended_def)
qed

lemma timeline_inserts:
  assumes "hm_get (e_tables (sv_engine s0)) ''timeline'' = Some t" and "t_schema t = timeline_schema tid" and "length owners < 2 ^ 64"
  shows "\<exists>t' s'. fold (timeline_insert e ts job) owners (s0, 0) = (s', of_nat (length owners)) \<and> appended ts job owners t t' \<and>
    sv_fanout_done s' = sv_fanout_done s0 \<and> sv_engine s' = (sv_engine s0) \<lparr> e_tables := hm_insert ''timeline'' t' (e_tables (sv_engine s0)) \<rparr>"
  using assms(3)
proof (induction owners rule: rev_induct)
  case Nil
  have "appended ts job [] t t" by (simp add: appended_def)
  with assms(1) show ?case by (intro exI [of _ t] exI [of _ s0]) (simp add: hm_insert_same)
next
  case (snoc owner owners)
  then obtain t1 s1 where IH: "fold (timeline_insert e ts job) owners (s0, 0) = (s1, of_nat (length owners))" "appended ts job owners t t1"
    "sv_fanout_done s1 = sv_fanout_done s0" "sv_engine s1 = (sv_engine s0) \<lparr> e_tables := hm_insert ''timeline'' t1 (e_tables (sv_engine s0)) \<rparr>" by fastforce
  let ?r = "\<lparr> row_id = t_next_id t1, row_values = timeline_values ts job owner \<rparr>"
  let ?t2 = "file_row ?r (t1 \<lparr> t_next_id := t_next_id t1 + 1 \<rparr>)"
  have schema: "t_schema t1 = timeline_schema tid" using IH(2) assms(2) by (simp add: appended_def)
  then have ins: "table_insert \<lparr> row_id = 0, row_values = timeline_values ts job owner \<rparr> t1 = (Ok (t_next_id t1), ?t2)"
    using timeline_no_unique [OF schema] by (simp add: table_insert_cases table_insert_unchecked_cases timeline_row_valid)
  have "hm_get (e_tables (sv_engine s1)) ''timeline'' = Some t1" by (simp add: IH(4) hm_simps)
  then have eng: "engine_insert ''timeline'' \<lparr> row_id = 0, row_values = timeline_values ts job owner \<rparr> (sv_engine s1) =
      (Ok (t_next_id t1), (sv_engine s1) \<lparr> e_tables := hm_insert ''timeline'' ?t2 (e_tables (sv_engine s1)) \<rparr>)"
    using ins by (simp add: engine_insert_def with_table_def engine_table_def)
  obtain s2 where step: "timeline_insert e ts job owner (s1, of_nat (length owners)) = (s2, of_nat (length owners) + 1)"
    "sv_engine s2 = (sv_engine s1) \<lparr> e_tables := hm_insert ''timeline'' ?t2 (e_tables (sv_engine s1)) \<rparr>"
    "sv_fanout_done s2 = sv_fanout_done s1"
    using eng by (auto simp: timeline_insert_def Let_def)
  have "appended ts job (owners @ [owner]) t ?t2"
    using snoc.prems by (intro appended_snoc [OF IH(2)]) simp_all
  moreover have "sv_engine s2 = (sv_engine s0) \<lparr> e_tables := hm_insert ''timeline'' ?t2 (e_tables (sv_engine s0)) \<rparr>"
    using step(2) IH(4) by (simp add: update_last)
  ultimately show ?case using IH(1,3) step(1,3) by (intro exI [of _ ?t2] exI [of _ s2]) (simp add: add.commute)
qed

text \<open>
  C32: Fan-out writes one row per follower: with the table of timelines in place, a job appends to it,
  in order and under the next free identifiers, one row for each of the first two hundred
  followers of the author and nothing else; no other table changes, and the counter of written
  rows grows by their number.
\<close>

theorem fanout_writes_timelines:
  assumes "hm_get (e_tables (sv_engine s)) ''timeline'' = Some t" and "t_schema t = timeline_schema tid"
  shows "\<exists>t'. appended ts job (take 200 (followers (sv_engine s) (fj_author job))) t t' \<and>
    sv_engine (fanout_one e ts job s) = (sv_engine s) \<lparr> e_tables := hm_insert ''timeline'' t' (e_tables (sv_engine s)) \<rparr> \<and>
    sv_fanout_done (fanout_one e ts job s) =
      sv_fanout_done s + of_nat (length (take 200 (followers (sv_engine s) (fj_author job))))"
proof -
  let ?owners = "take 200 (followers (sv_engine s) (fj_author job))"
  have "length ?owners < 2 ^ 64" by simp
  from timeline_inserts [OF assms this, of e ts job] obtain t' s' where
    "fold (timeline_insert e ts job) ?owners (s, 0) = (s', of_nat (length ?owners))" "appended ts job ?owners t t'"
    "sv_fanout_done s' = sv_fanout_done s" "sv_engine s' = (sv_engine s) \<lparr> e_tables := hm_insert ''timeline'' t' (e_tables (sv_engine s)) \<rparr>" by blast
  then show ?thesis
    by (intro exI [of _ t'])
      (auto simp: fanout_one_def fanout_owners FANOUT_PER_POST_CAP_def simp del: length_take split: prod.split)
qed

section \<open>Example\<close>

definition follow_row :: "string \<Rightarrow> string \<Rightarrow> row" where
  "follow_row a b = \<lparr> row_id = 0, row_values = [(''from'', VString a), (''to'', VString b)] \<rparr>"

definition follow_schema :: table_schema where
  "follow_schema = with_column (with_column (schema_new 1 ''follows'') (column_nullable (column_new ''from'' TString)))
     (column_nullable (column_new ''to'' TString))"

definition social_server :: server where
  "social_server = (server_new demo_config []) \<lparr> sv_tx_manager := tm_new
     (snd (engine_insert ''follows'' (follow_row ''carl'' ''ann'') (snd (engine_insert ''follows'' (follow_row ''bob'' ''zoe'')
       (snd (engine_create_table follow_schema (snd (engine_create_table (timeline_schema 2) engine_new)))))))) \<rparr>"

definition ann_post :: fanout_job where
  "ann_post = \<lparr> fj_table = ''posts'', fj_row_id = 4, fj_author = ''ann'' \<rparr>"

lemma ann_followers: "followers (sv_engine social_server) (fj_author ann_post) = [''carl'']"
  by code_simp

lemma social_timeline: "hm_get (e_tables (sv_engine social_server)) ''timeline'' = Some (table_new (timeline_schema 2))"
  by code_simp

theorem fanout_writes_timelines_witness:
  "engine_get ''timeline'' 1 (sv_engine (fanout_one demo_server_env ''0'' ann_post social_server)) =
     Ok (Some \<lparr> row_id = 1, row_values = timeline_values ''0'' ann_post ''carl'' \<rparr>)"
proof -
  have "t_schema (table_new (timeline_schema 2)) = timeline_schema 2" by (simp add: table_new_def)
  from fanout_writes_timelines [OF social_timeline this, of "''0''" ann_post demo_server_env] obtain t' where
    t: "appended ''0'' ann_post [''carl''] (table_new (timeline_schema 2)) t'"
    "sv_engine (fanout_one demo_server_env ''0'' ann_post social_server) =
       (sv_engine social_server) \<lparr> e_tables := hm_insert ''timeline'' t' (e_tables (sv_engine social_server)) \<rparr>"
    unfolding ann_followers by auto
  from t(1) have "hm_get (t_rows t') 1 = Some \<lparr> row_id = 1, row_values = timeline_values ''0'' ann_post ''carl'' \<rparr>"
    by (simp add: appended_def table_new_def)
  then show ?thesis by (simp add: t(2) engine_get_eq hm_simps)
qed

end
