(* ===== verification/Http_Bridge.thy ===== *)
theory Http_Bridge
  imports Atomic_Batch
begin

text \<open>
  The JSON bridge (\<open>blitz-server/src/http_bridge.rs\<close>): requests and batches written as JSON, the
  answers as JSON, over the same \<open>dispatch\<close> and \<open>execute_atomic\<close> as the binary protocol. UUIDs,
  calendar dates, base64 and the JSON parser and printer are parameters.
\<close>

section \<open>Numbers in texts\<close>

text \<open>\<open>str::parse\<close> for integers: a sign, at least one digit, and no value out of range.\<close>

definition digits_int :: "string \<Rightarrow> int option" where
  "digits_int ds =
     (if ds = [] \<or> \<not> list_all ascii_digit ds then None
      else Some (fold (\<lambda>c n. 10 * n + (of_char c - 48)) ds 0))"

fun parse_unsigned :: "int \<Rightarrow> string \<Rightarrow> int option" where
  "parse_unsigned limit s =
     (case digits_int (case s of c # cs \<Rightarrow> if c = CHR ''+'' then cs else s | [] \<Rightarrow> []) of
        Some n \<Rightarrow> if n < limit then Some n else None
      | None \<Rightarrow> None)"

fun parse_signed :: "int \<Rightarrow> string \<Rightarrow> int option" where
  "parse_signed limit s =
     (case s of
        c # cs \<Rightarrow>
          if c = CHR ''-'' then
            (case digits_int cs of Some n \<Rightarrow> if n \<le> limit then Some (- n) else None | None \<Rightarrow> None)
          else parse_unsigned limit s
      | [] \<Rightarrow> None)"

definition parse_u64 :: "string \<Rightarrow> u64 option" where
  "parse_u64 s = map_option word_of_int (parse_unsigned 0x10000000000000000 s)"

definition parse_i64 :: "string \<Rightarrow> i64 option" where
  "parse_i64 s = map_option word_of_int (parse_signed 0x8000000000000000 s)"

definition parse_u32 :: "string \<Rightarrow> u32 option" where
  "parse_u32 s = map_option word_of_int (parse_unsigned 0x100000000 s)"

definition parse_i32 :: "string \<Rightarrow> i32 option" where
  "parse_i32 s = map_option word_of_int (parse_signed 0x80000000 s)"

text \<open>The conversion of a double to a single; what \<open>$f32\<close> holds is never a NaN.\<close>

definition f64_to_f32 :: "f64 \<Rightarrow> f32" where
  "f64_to_f32 b =
     (let sign = (if f64_neg b then 0x80000000 else 0 :: f32) in
      if f64_nan b then 0x7FC00000
      else if \<not> f64_finite b then sign OR 0x7F800000
      else
        (let m = f64_mant b; e = f64_scale b;
             q = max (e + bit_length m - 24) (-149);
             r = (if q \<le> e then m * 2 ^ nat (e - q) else round_half_even m (nat (q - e)));
             bits = (q + 149) * 0x800000 + r in
         sign OR (if m = 0 then 0 else if 0x7F800000 \<le> bits then 0x7F800000 else of_int bits)))"

section \<open>Values\<close>

record http_env =
  ht_chrono :: chrono
  ht_parse_uuid :: "string \<Rightarrow> 128 word option"
  ht_uuid_text :: "128 word \<Rightarrow> string"
  ht_from_ymd :: "i32 \<Rightarrow> u32 \<Rightarrow> u32 \<Rightarrow> int option"
  ht_date_text :: "int \<Rightarrow> string"
  ht_base64_encode :: "u8 list \<Rightarrow> string"
  ht_base64_decode :: "string \<Rightarrow> u8 list option"
  ht_number_text :: "json_number \<Rightarrow> string"
  ht_to_text :: "json \<Rightarrow> string"
  ht_from_slice :: "u8 list \<Rightarrow> string + json"

definition hexdigit :: "char \<Rightarrow> bool" where
  "hexdigit c \<longleftrightarrow> ascii_digit c \<or> CHR ''a'' \<le> c \<and> c \<le> CHR ''f'' \<or> CHR ''A'' \<le> c \<and> c \<le> CHR ''F''"

definition is_uuid_shaped :: "string \<Rightarrow> bool" where
  "is_uuid_shaped s \<longleftrightarrow>
     length s = 36 \<and> s ! 8 = CHR ''-'' \<and> s ! 13 = CHR ''-'' \<and> s ! 18 = CHR ''-'' \<and> s ! 23 = CHR ''-'' \<and>
     list_all (\<lambda>c. hexdigit c \<or> c = CHR ''-'') s"

definition parse_uuid :: "http_env \<Rightarrow> string \<Rightarrow> 128 word option" where
  "parse_uuid h s = (if \<not> is_uuid_shaped s then None else ht_parse_uuid h s)"

definition parse_ymd :: "string \<Rightarrow> string + i32 \<times> u32 \<times> u32" where
  "parse_ymd s =
     (case split_on (CHR ''-'') s of
        [y, m, d] \<Rightarrow>
          (case (parse_i32 y, parse_u32 m, parse_u32 d) of
             (Some y, Some m, Some d) \<Rightarrow> Ok (y, m, d)
           | _ \<Rightarrow> Err (''bad $date: '' @ s))
      | _ \<Rightarrow> Err (''bad $date (want YYYY-MM-DD): '' @ s))"

definition as_i64_lenient :: "http_env \<Rightarrow> json \<Rightarrow> string + i64" where
  "as_i64_lenient h v =
     (case v of
        JNumber n \<Rightarrow> ok_or (''not an i64: '' @ ht_number_text h n) (number_as_i64 n)
      | JString s \<Rightarrow> ok_or (''not an i64: '' @ s) (parse_i64 s)
      | _ \<Rightarrow> Err ''not an i64'')"

definition as_u64_lenient :: "http_env \<Rightarrow> json \<Rightarrow> string + u64" where
  "as_u64_lenient h v =
     (case v of
        JNumber n \<Rightarrow> ok_or (''not a u64: '' @ ht_number_text h n) (number_as_u64 n)
      | JString s \<Rightarrow> ok_or (''not a u64: '' @ s) (parse_u64 s)
      | _ \<Rightarrow> Err ''not a u64'')"

fun json_as_i64 :: "json \<Rightarrow> i64 option" where
  "json_as_i64 (JNumber n) = number_as_i64 n"
| "json_as_i64 _ = None"

fun json_as_u64 :: "json \<Rightarrow> u64 option" where
  "json_as_u64 (JNumber n) = number_as_u64 n"
| "json_as_u64 _ = None"

fun json_as_f64 :: "json \<Rightarrow> f64 option" where
  "json_as_f64 (JNumber n) = number_as_f64 n"
| "json_as_f64 _ = None"

fun json_as_str :: "json \<Rightarrow> string option" where
  "json_as_str (JString s) = Some s"
| "json_as_str _ = None"

text \<open>An object with a single tagged entry; none of the tags leaves the object as it is.\<close>

definition tagged_value :: "http_env \<Rightarrow> string \<Rightarrow> json \<Rightarrow> (string + val) option" where
  "tagged_value h k j =
     (if k = ''$i32'' then map_option (\<lambda>n. Ok (VInt32 (ucast n))) (json_as_i64 j)
      else if k = ''$u32'' then map_option (\<lambda>n. Ok (VUInt32 (ucast n))) (json_as_u64 j)
      else if k = ''$i64'' then Some (map_sum id VInt64 (as_i64_lenient h j))
      else if k = ''$u64'' then Some (map_sum id VUInt64 (as_u64_lenient h j))
      else if k = ''$f32'' then map_option (\<lambda>n. Ok (VFloat32 (f64_to_f32 n))) (json_as_f64 j)
      else if k = ''$decimal'' then map_option (\<lambda>s. Ok (VDecimal s)) (json_as_str j)
      else if k = ''$date'' then
        map_option (\<lambda>s. case parse_ymd s of
            Inl e \<Rightarrow> Err e
          | Inr (y, m, d) \<Rightarrow> map_sum id VDate (ok_or (''bad $date: '' @ s) (ht_from_ymd h y m d))) (json_as_str j)
      else if k = ''$uuid'' then
        map_option (\<lambda>s. map_sum id VUuid (ok_or (''bad uuid: '' @ s) (parse_uuid h s))) (json_as_str j)
      else if k = ''$bytes'' then
        map_option (\<lambda>s. map_sum id VBytes (ok_or ''bad $bytes base64'' (ht_base64_decode h s))) (json_as_str j)
      else if k = ''$ts'' then
        Some (case as_i64_lenient h j of
            Inl e \<Rightarrow> Err e
          | Inr n \<Rightarrow> map_sum id VTimestamp (ok_or (''bad $ts: '' @ ht_to_text h j) (from_timestamp_micros (ht_chrono h) n)))
      else None)"

fun bridge_value :: "http_env \<Rightarrow> json \<Rightarrow> string + val"
  and bridge_items :: "http_env \<Rightarrow> json list \<Rightarrow> string + val list" where
  "bridge_value h JNull = Ok VNull"
| "bridge_value h (JBool b) = Ok (VBoolean b)"
| "bridge_value h (JNumber n) =
     (case number_as_i64 n of
        Some i \<Rightarrow> Ok (VInt64 i)
      | None \<Rightarrow>
          (case number_as_u64 n of
             Some u \<Rightarrow> Ok (VUInt64 u)
           | None \<Rightarrow> map_sum id VFloat64 (ok_or (''bad number: '' @ ht_number_text h n) (number_as_f64 n))))"
| "bridge_value h (JString s) =
     (if is_uuid_shaped s then map_sum id VUuid (ok_or (''bad uuid: '' @ s) (parse_uuid h s)) else Ok (VString s))"
| "bridge_value h (JArray items) = map_sum id VArray (bridge_items h items)"
| "bridge_value h (JObject kvs) =
     (case (case kvs of [(k, j)] \<Rightarrow> tagged_value h k j | _ \<Rightarrow> None) of
        Some r \<Rightarrow> r
      | None \<Rightarrow> Ok (VJson (JObject kvs)))"
| "bridge_items h [] = Ok []"
| "bridge_items h (j # js) =
     (case bridge_value h j of
        Inl e \<Rightarrow> Err e
      | Inr v \<Rightarrow> map_sum id (Cons v) (bridge_items h js))"

definition u64_to_json :: "u64 \<Rightarrow> json" where
  "u64_to_json n = (if n \<le> 0x20000000000000 then json_of_u64 n else JString (u64_text n))"

fun bridge_json :: "http_env \<Rightarrow> val \<Rightarrow> json" where
  "bridge_json h VNull = JNull"
| "bridge_json h (VBoolean b) = JBool b"
| "bridge_json h (VInt8 n) = json_of_i64 (scast n)"
| "bridge_json h (VInt16 n) = json_of_i64 (scast n)"
| "bridge_json h (VInt32 n) = json_of_i64 (scast n)"
| "bridge_json h (VInt64 n) = json_of_i64 n"
| "bridge_json h (VUInt8 n) = json_of_u64 (ucast n)"
| "bridge_json h (VUInt16 n) = json_of_u64 (ucast n)"
| "bridge_json h (VUInt32 n) = json_of_u64 (ucast n)"
| "bridge_json h (VUInt64 n) = u64_to_json n"
| "bridge_json h (VFloat32 n) = json_of_f64 (f32_to_f64 n)"
| "bridge_json h (VFloat64 n) = json_of_f64 n"
| "bridge_json h (VDecimal s) = JObject [(''$decimal'', JString s)]"
| "bridge_json h (VString s) = JString s"
| "bridge_json h (VBytes b) = JObject [(''$bytes'', JString (ht_base64_encode h b))]"
| "bridge_json h (VUuid u) = JString (ht_uuid_text h u)"
| "bridge_json h (VTimestamp t) = JObject [(''$ts'', json_of_i64 (timestamp_micros (ht_chrono h) t))]"
| "bridge_json h (VDate d) = JObject [(''$date'', JString (ht_date_text h d))]"
| "bridge_json h (VJson j) = j"
| "bridge_json h (VArray items) = JArray (map (bridge_json h) items)"

section \<open>Requests and responses\<close>

definition json_get :: "(string \<times> json) list \<Rightarrow> string \<Rightarrow> json option" where
  "json_get kvs k = map_of kvs k"

fun op_of_name :: "string \<Rightarrow> op option" where
  "op_of_name nm =
     map_of [(''ping'', OpPing), (''insert'', OpInsert), (''get'', OpGet), (''update'', OpUpdate),
       (''delete'', OpDelete), (''scan'', OpScan), (''subscribe'', OpSubscribe), (''find'', OpFind),
       (''search'', OpSearch), (''call'', OpCall), (''job_submit'', OpJobSubmit), (''job_poll'', OpJobPoll),
       (''proc_deploy'', OpProcDeploy), (''proc_list'', OpProcList), (''proc_drop'', OpProcDrop),
       (''version'', OpVersion), (''table_create'', OpTableCreate)] nm"

definition json_to_u64 :: "http_env \<Rightarrow> json \<Rightarrow> string + u64" where
  "json_to_u64 h v =
     (case v of
        JNumber n \<Rightarrow> ok_or (''id out of u64 range: '' @ ht_number_text h n) (number_as_u64 n)
      | JString s \<Rightarrow> ok_or (''id not a u64: '' @ s) (parse_u64 s)
      | _ \<Rightarrow> Err ''id must be a number or numeric string'')"

text \<open>\<open>map(json_to_u64).transpose()\<close>.\<close>

definition optional_u64 :: "http_env \<Rightarrow> json option \<Rightarrow> string + u64 option" where
  "optional_u64 h v = (case v of None \<Rightarrow> Ok None | Some j \<Rightarrow> map_sum id Some (json_to_u64 h j))"

fun bridge_values :: "http_env \<Rightarrow> (string \<times> json) list \<Rightarrow> string + row_values" where
  "bridge_values h [] = Ok []"
| "bridge_values h ((k, j) # kvs) =
     (case bridge_value h j of
        Inl e \<Rightarrow> Err e
      | Inr v \<Rightarrow> map_sum id (Cons (k, v)) (bridge_values h kvs))"

definition request_from_json :: "http_env \<Rightarrow> json \<Rightarrow> string + request" where
  "request_from_json h v =
     (case v of
        JObject obj \<Rightarrow>
          (case Option.bind (json_get obj ''op'') json_as_str of
             None \<Rightarrow> Err (''missing string field '' @ quoted ''op'')
           | Some opname \<Rightarrow>
               (case op_of_name opname of
                  None \<Rightarrow> Err (''unknown op: '' @ opname)
                | Some p \<Rightarrow>
                    (case optional_u64 h (json_get obj ''id'') of
                       Inl e \<Rightarrow> Err e
                     | Inr i \<Rightarrow>
                         (let table = (case Option.bind (json_get obj ''table'') json_as_str of Some t \<Rightarrow> t | None \<Rightarrow> []) in
                          case optional_u64 h (json_get obj ''row_id'') of
                            Inl e \<Rightarrow> Err e
                          | Inr rid \<Rightarrow>
                              (case (case json_get obj ''values'' of
                                       None \<Rightarrow> Ok None
                                     | Some (JObject m) \<Rightarrow> map_sum id Some (bridge_values h m)
                                     | Some _ \<Rightarrow> Err (quoted ''values'' @ '' must be a JSON object'')) of
                                 Inl e \<Rightarrow> Err e
                               | Inr vals \<Rightarrow>
                                   Ok \<lparr> rq_id = (case i of Some i \<Rightarrow> i | None \<Rightarrow> 0), rq_op = p, rq_table = table,
                                        rq_row_id = rid, rq_values = vals \<rparr>)))))
      | _ \<Rightarrow> Err ''body must be a JSON object'')"

definition row_view_json :: "http_env \<Rightarrow> row_view \<Rightarrow> json" where
  "row_view_json h r = JObject [(''id'', u64_to_json (rv_id r)),
     (''values'', json_object (map (\<lambda>(k, v). (k, bridge_json h v)) (rv_values r)))]"

definition response_to_json :: "http_env \<Rightarrow> u64 \<Rightarrow> response \<Rightarrow> json" where
  "response_to_json h i resp =
     (let rows = JArray (map (row_view_json h) (rs_rows resp)) in
      case rs_error resp of
        Some e \<Rightarrow> JObject [(''error'', JString e), (''id'', json_of_u64 i), (''ok'', JBool False), (''rows'', rows)]
      | None \<Rightarrow> JObject [(''id'', json_of_u64 i), (''ok'', JBool (rs_ok resp)), (''rows'', rows)])"

definition auth_status :: "string \<Rightarrow> nat option" where
  "auth_status e = (if prefix ''unauthorized'' e then Some 401 else if prefix ''forbidden'' e then Some 403 else None)"

definition error_body :: "http_env \<Rightarrow> string \<Rightarrow> string" where
  "error_body h e = ht_to_text h (JObject [(''error'', JString e), (''ok'', JBool False)])"

section \<open>Handlers\<close>

definition handle_op ::
  "http_env \<Rightarrow> dispatch_env \<Rightarrow> request_env \<Rightarrow> identity option \<Rightarrow> u8 list \<Rightarrow> server \<Rightarrow> (nat \<times> string) \<times> server" where
  "handle_op h d q ident body s =
     (case ht_from_slice h body of
        Inl e \<Rightarrow> ((400, error_body h (''malformed JSON: '' @ e)), s)
      | Inr parsed \<Rightarrow>
          (case request_from_json h parsed of
             Inl e \<Rightarrow> ((400, error_body h e), s)
           | Inr req \<Rightarrow>
               (case authorize s ident (rq_op req) (rq_table req) of
                  Inl e \<Rightarrow> ((case auth_status e of Some c \<Rightarrow> c | None \<Rightarrow> 200, error_body h e), s)
                | Inr _ \<Rightarrow>
                    (let (resp, s) = dispatch d q ident req s;
                         code = (if rs_ok resp then None else Option.bind (rs_error resp) auth_status) in
                     ((case code of Some c \<Rightarrow> c | None \<Rightarrow> 200, ht_to_text h (response_to_json h (rq_id req) resp)), s)))))"

text \<open>Tokens and rights of the operations of a batch, before any of them is carried out.\<close>

fun batch_rights ::
  "request_env \<Rightarrow> identity option \<Rightarrow> request list \<Rightarrow> server \<Rightarrow> (request \<times> string option) list \<times> identity option \<times> server" where
  "batch_rights q authed [] s = ([], authed, s)"
| "batch_rights q authed (req # reqs) s =
     (let (authed, req, s) = handshake q authed req s;
          deny = (case authorize s authed (rq_op req) (rq_table req) of Inl e \<Rightarrow> Some e | Inr _ \<Rightarrow> None);
          (ops, authed, s) = batch_rights q authed reqs s in
      ((req, deny) # ops, authed, s))"

definition denied_json :: "u64 \<Rightarrow> string \<Rightarrow> json" where
  "denied_json i e = JObject [(''error'', JString e), (''id'', json_of_u64 i), (''ok'', JBool False), (''rows'', JArray [])]"

text \<open>Every operation that was not refused runs with the identity the last token left.\<close>

fun run_ops ::
  "http_env \<Rightarrow> dispatch_env \<Rightarrow> request_env \<Rightarrow> identity option \<Rightarrow> (request \<times> string option) list \<Rightarrow> server \<Rightarrow> json list \<times> server" where
  "run_ops h d q authed [] s = ([], s)"
| "run_ops h d q authed ((req, deny) # ops) s =
     (let (j, s) = (case deny of
              Some e \<Rightarrow> (denied_json (rq_id req) e, s)
            | None \<Rightarrow> (let (resp, s) = dispatch d q authed req s in (response_to_json h (rq_id req) resp, s)));
          (js, s) = run_ops h d q authed ops s in
      (j # js, s))"

fun requests_from_json :: "http_env \<Rightarrow> nat \<Rightarrow> json list \<Rightarrow> string + request list" where
  "requests_from_json h n [] = Ok []"
| "requests_from_json h n (j # js) =
     (case request_from_json h j of
        Inl e \<Rightarrow> Err (''ops['' @ nat_text n @ '']: '' @ e)
      | Inr r \<Rightarrow> map_sum id (Cons r) (requests_from_json h (Suc n) js))"

definition batch_body :: "http_env \<Rightarrow> u64 \<Rightarrow> json list \<Rightarrow> string" where
  "batch_body h i results = ht_to_text h (JObject [(''id'', json_of_u64 i), (''ok'', JBool True), (''results'', JArray results)])"

definition run_batch_ops ::
  "http_env \<Rightarrow> dispatch_env \<Rightarrow> request_env \<Rightarrow> identity option \<Rightarrow> bool \<Rightarrow> u64 \<Rightarrow> request list \<Rightarrow> server \<Rightarrow> string \<times> server" where
  "run_batch_ops h d q ident atomic i reqs s =
     (let (ops, authed, s) = batch_rights q ident reqs s in
      if atomic then
        (case find (\<lambda>(_, deny). deny \<noteq> None) ops of
           Some (req, deny) \<Rightarrow>
             (let msg = ''atomic batch aborted: unauthorized op '' @ u64_text (rq_id req) @ '': '' @ the deny in
              (batch_body h i (map (\<lambda>(op, _). denied_json (rq_id op) msg) ops), s))
         | None \<Rightarrow>
             (let (bresp, _, s) = execute_atomic d q authed \<lparr> bq_id = i, bq_ops = map fst ops \<rparr> s in
              (batch_body h (bs_id bresp) (map (\<lambda>r. response_to_json h (rs_id r) r) (bs_results bresp)), s)))
      else
        (let (results, s) = run_ops h d q authed ops s in (batch_body h i results, s)))"

definition handle_batch ::
  "http_env \<Rightarrow> dispatch_env \<Rightarrow> request_env \<Rightarrow> identity option \<Rightarrow> u8 list \<Rightarrow> server \<Rightarrow> (nat \<times> string) \<times> server" where
  "handle_batch h d q ident body s =
     (case ht_from_slice h body of
        Inl e \<Rightarrow> ((400, error_body h (''malformed JSON: '' @ e)), s)
      | Inr (JObject obj) \<Rightarrow>
          (case json_get obj ''ops'' of
             Some (JArray ops_json) \<Rightarrow>
               if 4096 < length ops_json then ((400, error_body h ''batch too large (max 4096 ops)''), s)
               else
                 (let atomic = (case json_get obj ''atomic'' of Some (JBool b) \<Rightarrow> b | _ \<Rightarrow> False) in
                  case optional_u64 h (json_get obj ''id'') of
                    Inl e \<Rightarrow> ((400, error_body h e), s)
                  | Inr i \<Rightarrow>
                      (case requests_from_json h 0 ops_json of
                         Inl e \<Rightarrow> ((400, error_body h e), s)
                       | Inr reqs \<Rightarrow>
                           (let (text, s) = run_batch_ops h d q ident atomic (case i of Some i \<Rightarrow> i | None \<Rightarrow> 0) reqs s in
                            ((200, text), s))))
           | _ \<Rightarrow> ((400, error_body h (''missing array field '' @ quoted ''ops'')), s))
      | Inr _ \<Rightarrow> ((400, error_body h ''body must be a JSON object''), s))"

section \<open>Values there and back\<close>








section \<open>The bridge and the binary protocol\<close>

text \<open>
  C33: One operation over the bridge is the operation of the binary protocol, when the request carries
  no \<open>_auth\<close> value: a body that reads as such a request leaves the server as handling that request
  on a connection with the caller's identity does. When the caller may not make the request, it
  is answered with the bare error and status 401 or 403; otherwise with the response as
  JSON, under the request's number, with status 401 or 403 exactly for a refusal of the caller's
  rights to a row. (A request with an \<open>_auth\<close> value is treated differently: the bridge keeps it as a
  value of the row and ignores the token.)
\<close>

theorem bridge_op_is_dispatch:
  assumes "ht_from_slice h body = Ok j" and "request_from_json h j = Ok req"
    and "take_auth_token (rq_values req) = (None, rq_values req)"
    and "handle_request d q ident req s = (resp, ident', s')"
    and "handle_op h d q ident body s = ((code, text), s2)"
  shows "s2 = s' \<and> ident' = ident \<and>
    (case authorize s ident (rq_op req) (rq_table req) of
       Inl e \<Rightarrow> resp = response_err (rq_id req) e \<and> text = error_body h e \<and> code \<in> {401, 403}
     | Inr _ \<Rightarrow> text = ht_to_text h (response_to_json h (rq_id req) resp) \<and>
         code = (if rs_ok resp then 200 else case Option.bind (rs_error resp) auth_status of Some c \<Rightarrow> c | None \<Rightarrow> 200))"
proof -
  have hs: "handshake q ident req s = (ident, req, s)" using assms(3) by (simp add: handshake_def)
  show ?thesis
  proof (cases "authorize s ident (rq_op req) (rq_table req)")
    case (Inl e)
    then have "e \<in> {''unauthorized: authentication required'', ''forbidden: policy denies''}"
      by (auto simp: authorize_def split: if_splits option.splits)
    with Inl hs assms(1,2,4,5) show ?thesis by (auto simp: handle_request_def handle_op_def auth_status_def)
  next
    case (Inr u)
    with hs assms(1,2,4,5) show ?thesis
      by (cases "dispatch d q ident req s") (auto simp: handle_request_def handle_op_def Let_def)
  qed
qed

section \<open>Examples\<close>

text \<open>The text of a UUID in hexadecimal, and its reader.\<close>

definition hex_char :: "int \<Rightarrow> char" where
  "hex_char n = ''0123456789abcdef'' ! nat n"

definition hex_value :: "char \<Rightarrow> int" where
  "hex_value c = (if ascii_digit c then of_char c - 48 else of_char c - 87)"

definition hex_digits :: "128 word \<Rightarrow> string" where
  "hex_digits u = map (\<lambda>i. hex_char (uint u div 16 ^ i mod 16)) (rev [0..<32])"

definition hyphenated :: "128 word \<Rightarrow> string" where
  "hyphenated u = (let h = hex_digits u in take 8 h @ ''-'' @ take 4 (drop 8 h) @ ''-'' @ take 4 (drop 12 h) @ ''-'' @
     take 4 (drop 16 h) @ ''-'' @ drop 20 h)"

definition read_hyphenated :: "string \<Rightarrow> 128 word" where
  "read_hyphenated s = word_of_int (fold (\<lambda>c n. 16 * n + hex_value c) (filter (\<lambda>c. c \<noteq> CHR ''-'') s) 0)"






text \<open>A parser of bodies that knows a few of them by their number.\<close>

definition demo_http :: "(nat \<Rightarrow> json) \<Rightarrow> http_env" where
  "demo_http bodies = \<lparr> ht_chrono = demo_chrono, ht_parse_uuid = (\<lambda>s. Some (read_hyphenated s)), ht_uuid_text = hyphenated,
     ht_from_ymd = (\<lambda>y m d. Some (sint y * 372 + uint m * 31 + uint d)), ht_date_text = int_text,
     ht_base64_encode = map char_of_byte, ht_base64_decode = (\<lambda>s. Some (as_bytes s)),
     ht_number_text = (\<lambda>_. []), ht_to_text = (\<lambda>_. []),
     ht_from_slice = (\<lambda>bs. case bs of [b] \<Rightarrow> Ok (bodies (unat b)) | _ \<Rightarrow> Err []) \<rparr>"


abbreviation plain_http :: http_env where "plain_http \<equiv> demo_http (\<lambda>_. JNull)"


text \<open>The note of another user, asked for by its number, which a JSON number could not hold.\<close>

definition note_get :: json where
  "note_get = JObject [(''op'', JString ''get''), (''row_id'', JString ''72057594037927937''), (''table'', JString ''notes'')]"

definition note_request :: request where
  "note_request = \<lparr> rq_id = 0, rq_op = OpGet, rq_table = ''notes'', rq_row_id = Some 72057594037927937, rq_values = None \<rparr>"

lemma note_get_request: "request_from_json (demo_http (\<lambda>_. note_get)) note_get = Ok note_request"
  by code_simp

theorem bridge_op_is_dispatch_witness:
  "\<exists>text. handle_op (demo_http (\<lambda>_. note_get)) demo_dispatch_env demo_request_env (Some alice) [0] noted_server =
     ((200, text), noted_server) \<and>
     text = ht_to_text (demo_http (\<lambda>_. note_get)) (response_to_json (demo_http (\<lambda>_. note_get)) 0 (response_ok 0 [note_view]))"
proof -
  let ?h = "demo_http (\<lambda>_. note_get)"
  obtain code body s2 where op: "handle_op ?h demo_dispatch_env demo_request_env (Some alice) [0] noted_server = ((code, body), s2)"
    by (metis prod_cases3 surj_pair)
  obtain resp i s' where req: "handle_request demo_dispatch_env demo_request_env (Some alice) note_request noted_server = (resp, i, s')"
    by (metis prod_cases3)
  have "fst (handle_request demo_dispatch_env demo_request_env (Some alice) note_request noted_server) = response_ok 0 [note_view]"
    by code_simp
  then have resp: "resp = response_ok 0 [note_view]" using req by simp
  have "is_ok (authorize noted_server (Some alice) OpGet ''notes'')" by code_simp
  then have auth: "authorize noted_server (Some alice) (rq_op note_request) (rq_table note_request) = Ok ()"
    by (cases "authorize noted_server (Some alice) OpGet ''notes''") (auto simp: note_request_def)
  have "s' = noted_server" using req auth
    by (simp add: handle_request_def handshake_def take_auth_token_def note_request_def dispatch_def split: prod.splits)
  with bridge_op_is_dispatch [OF _ note_get_request _ req op] op resp auth show ?thesis
    by (simp add: demo_http_def note_request_def take_auth_token_def response_ok_def)
qed

section \<open>Whose rights an operation has\<close>

definition shared_login :: server where
  "shared_login = noted_server \<lparr> sv_identities := [(''tok'', alice)] \<rparr>"

definition reading_ops :: "request list" where
  "reading_ops = [note_request, \<lparr> rq_id = 1, rq_op = OpPing, rq_table = [], rq_row_id = None, rq_values = Some [(''_auth'', VString ''tok'')] \<rparr>]"

text \<open>
  In a batch over the bridge every operation runs with the identity that the last token of
  the batch leaves, while a batch of the binary protocol uses a token from its operation on. Here
  the first operation, sent as one caller, is carried out as another.
\<close>

lemma bridge_batch_mixes_identities:
  "map rs_ok (fst (handle_ops demo_dispatch_env demo_request_env (Some carol) reading_ops shared_login)) = [False, True] \<and>
   (let (ops, authed, s) = batch_rights demo_request_env (Some carol) reading_ops shared_login in
    hd (fst (run_ops plain_http demo_dispatch_env demo_request_env authed ops s)) = response_to_json plain_http 0 (response_ok 0 [note_view]))"
  by code_simp

end
