(* ===== verification/Client.thy ===== *)
theory Client
  imports Connection Http_Bridge
begin

text \<open>
  The client library (\<open>blitz-client/src/client.rs\<close> and \<open>error.rs\<close>): the requests its methods
  build and what they make of the responses, the worker that sends queued requests in frames, its
  single retry, and the version check of a new connection. The network is a parameter: connecting,
  writing and reading may fail at any time, and reads may cut the bytes anywhere. A timeout of one
  of them is such a failure. Times are in nanoseconds; a reply goes to a numbered caller.
\<close>

section \<open>Errors\<close>

datatype sdk_error =
    SdkTransport string
  | SdkTimeout nat
  | SdkAuth string
  | SdkRetryable string
  | SdkNotFound string
  | SdkInvalid string
  | SdkServer string
  | SdkClosed

definition map_server_error :: "string \<Rightarrow> sdk_error" where
  "map_server_error msg =
     (if prefix ''unauthorized'' msg \<or> prefix ''forbidden'' msg then SdkAuth msg
      else if prefix ''WAL backpressure'' msg \<or> prefix ''group full'' msg \<or> prefix ''rotation in progress'' msg
      then SdkRetryable msg
      else if contains_sub msg ''not found'' \<or> msg = ''not found'' then SdkNotFound msg
      else if contains_sub msg ''requires values'' \<or> contains_sub msg ''requires row_id'' \<or>
              contains_sub msg ''too large'' \<or> contains_sub msg ''DuplicateKey'' \<or>
              contains_sub msg ''duplicate value'' \<or> contains_sub msg ''not supported'' \<or>
              contains_sub msg ''not unique'' \<or> contains_sub msg ''validation'' \<or>
              contains_sub msg ''schema error'' \<or> contains_sub msg ''type error''
      then SdkInvalid msg
      else SdkServer msg)"

section \<open>Requests and results\<close>

record pending =
  pd_req :: request
  pd_reply :: nat
  pd_retry_safe :: bool
  pd_enqueued :: nat

datatype cmd = CmdBatch pending | CmdDirect pending

fun cmd_pending :: "cmd \<Rightarrow> pending" where
  "cmd_pending (CmdBatch p) = p"
| "cmd_pending (CmdDirect p) = p"

fun is_direct :: "cmd \<Rightarrow> bool" where
  "is_direct (CmdDirect _) \<longleftrightarrow> True"
| "is_direct (CmdBatch _) \<longleftrightarrow> False"

text \<open>A handle: the counters it shares with its clones, and the commands sent to the worker.\<close>

record client =
  cl_queue :: "cmd list"
  cl_next_id :: u64
  cl_idem_prefix :: string
  cl_idem_next :: u64

definition client_new :: "string \<Rightarrow> client" where
  "client_new uuid = \<lparr> cl_queue = [], cl_next_id = 1, cl_idem_prefix = uuid, cl_idem_next = 1 \<rparr>"

definition alloc_id :: "client \<Rightarrow> u64 \<times> client" where
  "alloc_id cl = (cl_next_id cl, cl \<lparr> cl_next_id := cl_next_id cl + 1 \<rparr>)"

definition alloc_idem :: "client \<Rightarrow> string \<times> client" where
  "alloc_idem cl = (cl_idem_prefix cl @ ''-'' @ u64_text (cl_idem_next cl), cl \<lparr> cl_idem_next := cl_idem_next cl + 1 \<rparr>)"

text \<open>A command enters the queue with the caller that waits for its reply and the present time.\<close>

type_synonym caller = "nat \<times> nat"

definition exec :: "caller \<Rightarrow> request \<Rightarrow> bool \<Rightarrow> client \<Rightarrow> client" where
  "exec who req retry_safe cl =
     cl \<lparr> cl_queue := cl_queue cl @
       [CmdBatch \<lparr> pd_req = req, pd_reply = fst who, pd_retry_safe = retry_safe, pd_enqueued = snd who \<rparr>] \<rparr>"

definition exec_direct :: "caller \<Rightarrow> request \<Rightarrow> client \<Rightarrow> client" where
  "exec_direct who req cl =
     cl \<lparr> cl_queue := cl_queue cl @
       [CmdDirect \<lparr> pd_req = req, pd_reply = fst who, pd_retry_safe = True, pd_enqueued = snd who \<rparr>] \<rparr>"

definition client_authenticate :: "caller \<Rightarrow> string \<Rightarrow> client \<Rightarrow> client" where
  "client_authenticate who token cl =
     (let (i, cl) = alloc_id cl in
      exec_direct who \<lparr> rq_id = i, rq_op = OpPing, rq_table = [], rq_row_id = None, rq_values = Some [(''_auth'', VString token)] \<rparr> cl)"

definition client_ping :: "caller \<Rightarrow> client \<Rightarrow> client" where
  "client_ping who cl =
     (let (i, cl) = alloc_id cl in
      exec_direct who \<lparr> rq_id = i, rq_op = OpPing, rq_table = [], rq_row_id = None, rq_values = None \<rparr> cl)"

definition client_insert :: "caller \<Rightarrow> string \<Rightarrow> row_values \<Rightarrow> client \<Rightarrow> client" where
  "client_insert who table vals cl =
     (let (key, cl) = alloc_idem cl; vals = hm_insert ''_idem'' (VString key) vals; (i, cl) = alloc_id cl in
      exec who \<lparr> rq_id = i, rq_op = OpInsert, rq_table = table, rq_row_id = None, rq_values = Some vals \<rparr> True cl)"

definition client_insert_fast :: "caller \<Rightarrow> string \<Rightarrow> row_values \<Rightarrow> client \<Rightarrow> client" where
  "client_insert_fast who table vals cl =
     (let (i, cl) = alloc_id cl in
      exec who \<lparr> rq_id = i, rq_op = OpInsert, rq_table = table, rq_row_id = None, rq_values = Some vals \<rparr> False cl)"

definition client_get :: "caller \<Rightarrow> string \<Rightarrow> u64 \<Rightarrow> client \<Rightarrow> client" where
  "client_get who table rid cl =
     (let (i, cl) = alloc_id cl in
      exec who \<lparr> rq_id = i, rq_op = OpGet, rq_table = table, rq_row_id = Some rid, rq_values = None \<rparr> True cl)"

definition client_update :: "caller \<Rightarrow> string \<Rightarrow> u64 \<Rightarrow> row_values \<Rightarrow> client \<Rightarrow> client" where
  "client_update who table rid vals cl =
     (let (i, cl) = alloc_id cl in
      exec who \<lparr> rq_id = i, rq_op = OpUpdate, rq_table = table, rq_row_id = Some rid, rq_values = Some vals \<rparr> False cl)"

definition client_delete :: "caller \<Rightarrow> string \<Rightarrow> u64 \<Rightarrow> client \<Rightarrow> client" where
  "client_delete who table rid cl =
     (let (i, cl) = alloc_id cl in
      exec who \<lparr> rq_id = i, rq_op = OpDelete, rq_table = table, rq_row_id = Some rid, rq_values = None \<rparr> False cl)"

definition client_scan :: "caller \<Rightarrow> string \<Rightarrow> nat \<Rightarrow> u64 option \<Rightarrow> bool \<Rightarrow> client \<Rightarrow> client" where
  "client_scan who table limit cursor desc cl =
     (let vals = hm_insert ''_limit'' (VInt64 (of_nat limit)) [];
          vals = (if desc then hm_insert ''_order'' (VString ''desc'') vals else vals);
          vals = (case cursor of Some k \<Rightarrow> hm_insert ''_cursor'' (VUInt64 k) vals | None \<Rightarrow> vals);
          (i, cl) = alloc_id cl in
      exec who \<lparr> rq_id = i, rq_op = OpScan, rq_table = table, rq_row_id = None, rq_values = Some vals \<rparr> True cl)"

definition client_find :: "caller \<Rightarrow> string \<Rightarrow> string \<Rightarrow> val \<Rightarrow> client \<Rightarrow> client" where
  "client_find who table column v cl =
     (let vals = hm_insert ''_val'' v (hm_insert ''_col'' (VString column) []); (i, cl) = alloc_id cl in
      exec who \<lparr> rq_id = i, rq_op = OpFind, rq_table = table, rq_row_id = None, rq_values = Some vals \<rparr> True cl)"

definition client_search :: "caller \<Rightarrow> string \<Rightarrow> string \<Rightarrow> nat \<Rightarrow> client \<Rightarrow> client" where
  "client_search who table query limit cl =
     (let vals = hm_insert ''_limit'' (VInt64 (of_nat limit)) (hm_insert ''_q'' (VString query) []); (i, cl) = alloc_id cl in
      exec who \<lparr> rq_id = i, rq_op = OpSearch, rq_table = table, rq_row_id = None, rq_values = Some vals \<rparr> True cl)"

definition client_create_table :: "caller \<Rightarrow> json \<Rightarrow> client \<Rightarrow> client" where
  "client_create_table who schema cl =
     (let (i, cl) = alloc_id cl in
      exec who \<lparr> rq_id = i, rq_op = OpTableCreate, rq_table = [], rq_row_id = None, rq_values = Some [(''schema'', VJson schema)] \<rparr>
        False cl)"

definition client_call :: "caller \<Rightarrow> string \<Rightarrow> row_values \<Rightarrow> client \<Rightarrow> client" where
  "client_call who name args cl =
     (let (i, cl) = alloc_id cl in
      exec who \<lparr> rq_id = i, rq_op = OpCall, rq_table = ''fn:'' @ name, rq_row_id = None, rq_values = Some args \<rparr> False cl)"

text \<open>What a method makes of the reply of the worker.\<close>

type_synonym reply = "sdk_error + response"

definition error_text :: "response \<Rightarrow> string" where
  "error_text resp = (case rs_error resp of Some m \<Rightarrow> m | None \<Rightarrow> ''unknown error'')"

definition ok_rows :: "reply \<Rightarrow> sdk_error + row_view list" where
  "ok_rows r =
     (case r of
        Inl e \<Rightarrow> Err e
      | Inr resp \<Rightarrow> if rs_ok resp then Ok (rs_rows resp) else Err (map_server_error (error_text resp)))"

definition ack_result :: "reply \<Rightarrow> sdk_error + unit" where
  "ack_result r = map_sum id (\<lambda>_. ()) (ok_rows r)"

definition one_row :: "string \<Rightarrow> reply \<Rightarrow> sdk_error + row_view" where
  "one_row missing r =
     (case ok_rows r of
        Inl e \<Rightarrow> Err e
      | Inr rows \<Rightarrow> if rows = [] then Err (SdkServer missing) else Ok (last rows))"

definition insert_result :: "reply \<Rightarrow> sdk_error + row_view" where "insert_result = one_row ''insert returned no rows''"
definition update_result :: "reply \<Rightarrow> sdk_error + row_view" where "update_result = one_row ''update returned no rows''"

definition first_row :: "(string \<Rightarrow> bool) \<Rightarrow> reply \<Rightarrow> sdk_error + row_view option" where
  "first_row miss r =
     (case r of
        Inl e \<Rightarrow> Err e
      | Inr resp \<Rightarrow>
          if rs_ok resp then Ok (case rs_rows resp of [] \<Rightarrow> None | v # _ \<Rightarrow> Some v)
          else if miss (error_text resp) then Ok None
          else Err (map_server_error (error_text resp)))"

definition get_result :: "reply \<Rightarrow> sdk_error + row_view option" where "get_result = first_row (prefix ''row not found'')"
definition find_result :: "reply \<Rightarrow> sdk_error + row_view option" where "find_result = first_row (\<lambda>m. m = ''not found'')"

definition create_table_result :: "reply \<Rightarrow> sdk_error + string" where
  "create_table_result r =
     (case one_row ''table_create returned no rows'' r of
        Inl e \<Rightarrow> Err e
      | Inr v \<Rightarrow>
          (case hm_get (rv_values v) ''table'' of
             Some (VString t) \<Rightarrow> Ok t
           | _ \<Rightarrow> Err (SdkServer ''table_create response missing table'')))"

definition applied_write :: "json \<Rightarrow> (string \<times> u64) option" where
  "applied_write j =
     (case j of
        JObject kvs \<Rightarrow>
          (case (Option.bind (json_get kvs ''table'') json_as_str, Option.bind (json_get kvs ''id'') json_as_u64) of
             (Some t, Some i) \<Rightarrow> Some (t, i)
           | _ \<Rightarrow> None)
      | _ \<Rightarrow> None)"

definition call_result :: "reply \<Rightarrow> sdk_error + row_values \<times> (string \<times> u64) list" where
  "call_result r =
     (case one_row ''call returned no rows'' r of
        Inl e \<Rightarrow> Err e
      | Inr v \<Rightarrow>
          Ok (hm_remove ''_applied'' (rv_values v),
              case hm_get (rv_values v) ''_applied'' of
                Some (VJson (JArray items)) \<Rightarrow> List.map_filter applied_write items
              | _ \<Rightarrow> []))"

section \<open>The worker\<close>

definition MAX_FLUSH_OPS :: nat where "MAX_FLUSH_OPS = 4096"
definition FLUSH_CHUNK :: nat where "FLUSH_CHUNK = 16"

datatype net_fault = NetTimeout | NetError string

text \<open>The network as the worker sees it: connections are numbered, no bytes are the end of one.\<close>

record 'w network =
  nw_connect :: "'w \<Rightarrow> (net_fault + nat) \<times> 'w"
  nw_write :: "nat \<Rightarrow> u8 list \<Rightarrow> 'w \<Rightarrow> (net_fault + unit) \<times> 'w"
  nw_read :: "nat \<Rightarrow> 'w \<Rightarrow> (net_fault + u8 list) \<times> 'w"
  nw_now :: "'w \<Rightarrow> nat"

record client_env =
  ce_chrono :: chrono
  ce_codec :: frame_codec
  ce_timeout :: nat
  ce_error_text :: "protocol_error \<Rightarrow> string"
  ce_debug_error :: "string option \<Rightarrow> string"
  ce_version :: string

record worker =
  wk_stream :: nat
  wk_buf :: "u8 list"
  wk_dead :: bool

definition worker_new :: "nat \<Rightarrow> worker" where
  "worker_new st = \<lparr> wk_stream = st, wk_buf = [], wk_dead = False \<rparr>"

datatype client_event = Flushed "request list" | Replied nat reply

definition flush_frame :: "client_env \<Rightarrow> request list \<Rightarrow> protocol_error + u8 list" where
  "flush_frame v reqs =
     (if length reqs = 1 then encode_request (ce_chrono v) (ce_codec v) (hd reqs)
      else encode_batch_request (ce_chrono v) (ce_codec v) \<lparr> bq_id = rq_id (hd reqs), bq_ops = reqs \<rparr>)"

definition decode_reply :: "client_env \<Rightarrow> nat \<Rightarrow> u8 list \<Rightarrow> response list option" where
  "decode_reply v n payload =
     (if n = 1 then (case decode_response (ce_chrono v) payload of Inl _ \<Rightarrow> None | Inr r \<Rightarrow> Some [r])
      else
        (case decode_batch_response (ce_chrono v) payload of
           Inl _ \<Rightarrow> None
         | Inr b \<Rightarrow> if length (bs_results b) \<noteq> n then None else Some (bs_results b)))"

text \<open>
  The loop that reads until a frame is complete. An incomplete frame within the limit is shorter
  than the limit and the header, so the loop ends after that many bytes at the latest.
\<close>

lemma feed_None_bound: "feed c buf = (Ok None, b) \<Longrightarrow> b = buf \<and> length buf < max_frame c + HEADER_LEN"
  by (auto simp: feed_def Let_def HEADER_LEN_def split: if_splits)

lemma read_progress: "bytes \<noteq> [] \<Longrightarrow> k < m \<Longrightarrow> m - (k + length bytes) < m - k"
  by (cases bytes) auto

function read_reply :: "'w network \<Rightarrow> client_env \<Rightarrow> nat \<Rightarrow> nat \<Rightarrow> u8 list \<Rightarrow> 'w \<Rightarrow> response list option \<times> u8 list \<times> 'w" where
  "read_reply net v st n buf w =
     (case feed (ce_codec v) buf of
        (Inl _, buf) \<Rightarrow> (None, buf, w)
      | (Inr (Some payload), buf) \<Rightarrow> (decode_reply v n payload, buf, w)
      | (Inr None, buf) \<Rightarrow>
          (case nw_read net st w of
             (Inl _, w) \<Rightarrow> (None, buf, w)
           | (Inr bytes, w) \<Rightarrow> if bytes = [] then (None, buf, w) else read_reply net v st n (buf @ bytes) w))"
  by pat_completeness auto
termination
  by (relation "measure (\<lambda>(net, v, st, n, buf, w). max_frame (ce_codec v) + HEADER_LEN - length buf)")
    (auto intro!: read_progress dest!: feed_None_bound [OF sym])

declare read_reply.simps [simp del]

definition flush_once ::
  "'w network \<Rightarrow> client_env \<Rightarrow> nat \<Rightarrow> u8 list \<Rightarrow> request list \<Rightarrow> 'w \<Rightarrow>
   client_event list \<times> response list option \<times> u8 list \<times> 'w" where
  "flush_once net v st buf reqs w =
     (case flush_frame v reqs of
        Inl _ \<Rightarrow> ([], None, buf, w)
      | Inr f \<Rightarrow>
          (case nw_write net st f w of
             (Inl _, w) \<Rightarrow> ([Flushed reqs], None, buf, w)
           | (Inr _, w) \<Rightarrow> ([Flushed reqs], read_reply net v st (length reqs) buf w)))"

text \<open>The events and whether the connection lives on; timed-out requests are answered first.\<close>

definition reply_all :: "sdk_error \<Rightarrow> pending list \<Rightarrow> client_event list" where
  "reply_all e ps = map (\<lambda>p. Replied (pd_reply p) (Err e)) ps"

definition reply_each :: "pending list \<Rightarrow> response list \<Rightarrow> client_event list" where
  "reply_each ps rs = map (\<lambda>(p, r). Replied (pd_reply p) (Ok r)) (zip ps rs)"

definition flush_fresh ::
  "'w network \<Rightarrow> client_env \<Rightarrow> pending list \<Rightarrow> worker \<Rightarrow> 'w \<Rightarrow> client_event list \<times> bool \<times> worker \<times> 'w" where
  "flush_fresh net v fresh wk w =
     (let reqs = map pd_req fresh;
          (ev1, first, buf, w) = flush_once net v (wk_stream wk) (wk_buf wk) reqs w;
          wk = wk \<lparr> wk_buf := buf \<rparr> in
      case first of
        Some rs \<Rightarrow> (ev1 @ reply_each fresh rs, True, wk, w)
      | None \<Rightarrow>
          if list_all pd_retry_safe fresh then
            (case nw_connect net w of
               (Inl _, w) \<Rightarrow> (ev1 @ reply_all (SdkTransport ''flush failed; reconnect failed'') fresh, False, wk, w)
             | (Inr st, w) \<Rightarrow>
                 (let (ev2, second, buf, w) = flush_once net v st [] reqs w in
                  case second of
                    Some rs \<Rightarrow> (ev1 @ ev2 @ reply_each fresh rs, True, wk \<lparr> wk_stream := st, wk_buf := buf \<rparr>, w)
                  | None \<Rightarrow> (ev1 @ ev2 @ reply_all (SdkTransport ''flush failed after reconnect'') fresh, False, wk, w)))
          else (ev1 @ reply_all (SdkTransport ''flush failed (not retry-safe; retry manually)'') fresh, False, wk, w))"

definition flush_pending ::
  "'w network \<Rightarrow> client_env \<Rightarrow> pending list \<Rightarrow> worker \<Rightarrow> 'w \<Rightarrow> client_event list \<times> bool \<times> worker \<times> 'w" where
  "flush_pending net v batch wk w =
     (let late = (\<lambda>p. ce_timeout v \<le> nw_now net w - pd_enqueued p);
          fresh = filter (\<lambda>p. \<not> late p) batch;
          ev = reply_all (SdkTimeout (ce_timeout v div 1000000)) (filter late batch) in
      if fresh = [] then (ev, True, wk, w)
      else (let (ev', alive, wk, w) = flush_fresh net v fresh wk w in (ev @ ev', alive, wk, w)))"

definition fail_cmds :: "string \<Rightarrow> cmd list \<Rightarrow> client_event list" where
  "fail_cmds msg cmds = reply_all (SdkTransport msg) (map cmd_pending cmds)"

text \<open>The next frame of a drained queue: a direct command alone, or a run of batched ones.\<close>

definition next_run :: "cmd list \<Rightarrow> cmd list" where
  "next_run cmds = (if is_direct (hd cmds) then [hd cmds] else take FLUSH_CHUNK (takeWhile (\<lambda>c. \<not> is_direct c) cmds))"

lemma next_run_nonempty: "cmds \<noteq> [] \<Longrightarrow> next_run cmds \<noteq> []"
  by (cases cmds) (auto simp: next_run_def FLUSH_CHUNK_def)

lemma next_run_prefix: "cmds \<noteq> [] \<Longrightarrow> next_run cmds @ drop (length (next_run cmds)) cmds = cmds"
proof -
  assume "cmds \<noteq> []"
  then have "prefix (next_run cmds) cmds"
    using prefix_order.trans [OF take_is_prefix takeWhile_is_prefix, of FLUSH_CHUNK "\<lambda>c. \<not> is_direct c" cmds]
    by (cases cmds) (auto simp: next_run_def)
  then obtain zs where "cmds = next_run cmds @ zs" by (rule prefixE)
  then show ?thesis by (metis append_eq_conv_conj)
qed

function run_cmds :: "'w network \<Rightarrow> client_env \<Rightarrow> cmd list \<Rightarrow> worker \<Rightarrow> 'w \<Rightarrow> client_event list \<times> worker \<times> 'w" where
  "run_cmds net v cmds wk w =
     (if cmds = [] then ([], wk, w)
      else
        (let run = next_run cmds; rest = drop (length run) cmds;
             (ev, alive, wk, w) = flush_pending net v (map cmd_pending run) wk w in
         if alive then (let (ev', wk, w) = run_cmds net v rest wk w in (ev @ ev', wk, w))
         else (ev @ fail_cmds ''connection lost during flush'' rest, wk \<lparr> wk_dead := True \<rparr>, w)))"
  by pat_completeness auto
termination
  by (relation "measure (\<lambda>(net, v, cmds, wk, w). length cmds)") (auto simp: next_run_nonempty)

declare run_cmds.simps [simp del]

text \<open>
  The loop of the worker over the commands that arrive until all handles are dropped. One turn
  takes what is queued, up to a limit; a dead connection is opened again first, and when that
  fails only the command that woke the worker fails with it.
\<close>

definition revive :: "'w network \<Rightarrow> worker \<Rightarrow> 'w \<Rightarrow> bool \<times> worker \<times> 'w" where
  "revive net wk w =
     (if wk_dead wk then
        (case nw_connect net w of
           (Inl _, w) \<Rightarrow> (False, wk, w)
         | (Inr st, w) \<Rightarrow> (True, worker_new st, w))
      else (True, wk, w))"

function worker_loop :: "'w network \<Rightarrow> client_env \<Rightarrow> cmd list \<Rightarrow> worker \<Rightarrow> 'w \<Rightarrow> client_event list \<times> worker \<times> 'w" where
  "worker_loop net v [] wk w = ([], wk, w)"
| "worker_loop net v (first # queue) wk w =
     (let (ready, wk, w) = revive net wk w in
      if ready then
        (let (ev, wk, w) = run_cmds net v (take MAX_FLUSH_OPS (first # queue)) wk w;
             (ev', wk, w) = worker_loop net v (drop MAX_FLUSH_OPS (first # queue)) wk w in
         (ev @ ev', wk, w))
      else
        (let (ev, wk, w) = worker_loop net v queue wk w in
         (fail_cmds ''connection lost; reconnect failed'' [first] @ ev, wk, w)))"
  by pat_completeness auto
termination
  by (relation "measure (\<lambda>(net, v, queue, wk, w). length queue)") (auto simp: MAX_FLUSH_OPS_def)

section \<open>The version check\<close>

definition MIN_SERVER_VERSION :: string where "MIN_SERVER_VERSION = ''0.1.0''"

definition parse_version :: "string \<Rightarrow> (u64 \<times> u64 \<times> u64) option" where
  "parse_version s =
     (let core = takeWhile (\<lambda>c. c \<noteq> CHR ''-'' \<and> c \<noteq> CHR ''+'') s in
      case split_on (CHR ''.'') core of
        a # b # c # _ \<Rightarrow>
          (case (parse_u64 a, parse_u64 b, parse_u64 c) of
             (Some x, Some y, Some z) \<Rightarrow> Some (x, y, z)
           | _ \<Rightarrow> None)
      | _ \<Rightarrow> None)"

definition version_le :: "u64 \<times> u64 \<times> u64 \<Rightarrow> u64 \<times> u64 \<times> u64 \<Rightarrow> bool" where
  "version_le a b =
     (case (a, b) of ((x, y, z), (x', y', z')) \<Rightarrow> x < x' \<or> x = x' \<and> (y < y' \<or> y = y' \<and> z \<le> z'))"

definition check_compat :: "client_env \<Rightarrow> string \<Rightarrow> u8 \<Rightarrow> sdk_error + unit" where
  "check_compat v server protocol =
     (let own = nat_text (unat PROTOCOL_VERSION) in
      if protocol \<noteq> PROTOCOL_VERSION then
        Err (SdkServer (''BlitzDB client v'' @ ce_version v @ '' (protocol '' @ own @ '') requires server protocol '' @ own @
          '' (server v'' @ server @ '' speaks v'' @ nat_text (unat protocol) @ '')''))
      else
        (let floor = (case parse_version MIN_SERVER_VERSION of Some f \<Rightarrow> f | None \<Rightarrow> (0, 1, 0));
             old = Err (SdkServer (''BlitzDB client v'' @ ce_version v @ '' requires BlitzDB server >= '' @ MIN_SERVER_VERSION @
               '' (found '' @ server @ '')'')) in
         case parse_version server of
           Some x \<Rightarrow> if version_le floor x then Ok () else old
         | None \<Rightarrow> old))"

definition net_error :: "client_env \<Rightarrow> string \<Rightarrow> net_fault \<Rightarrow> sdk_error" where
  "net_error v what f =
     (case f of NetTimeout \<Rightarrow> SdkTimeout (ce_timeout v div 1000000) | NetError e \<Rightarrow> SdkTransport (what @ e))"

definition version_verdict :: "client_env \<Rightarrow> u8 list \<Rightarrow> sdk_error + unit" where
  "version_verdict v payload =
     (case decode_response (ce_chrono v) payload of
        Inl e \<Rightarrow> Err (SdkTransport (''version decode: '' @ ce_error_text v e))
      | Inr resp \<Rightarrow>
          if \<not> rs_ok resp then Err (SdkTransport (''version refused: '' @ ce_debug_error v (rs_error resp)))
          else
            (case rs_rows resp of
               [] \<Rightarrow> Err (SdkTransport ''empty version response'')
             | row # _ \<Rightarrow>
                 (case hm_get (rv_values row) ''server'' of
                    Some (VString server) \<Rightarrow>
                      (case hm_get (rv_values row) ''protocol'' of
                         Some (VInt64 n) \<Rightarrow> check_compat v server (ucast n)
                       | Some (VUInt64 n) \<Rightarrow> check_compat v server (ucast n)
                       | _ \<Rightarrow> Err (SdkTransport ''version response missing protocol int''))
                  | _ \<Rightarrow> Err (SdkTransport ''version response missing server string''))))"

function version_loop :: "'w network \<Rightarrow> client_env \<Rightarrow> nat \<Rightarrow> u8 list \<Rightarrow> 'w \<Rightarrow> (sdk_error + unit) \<times> 'w" where
  "version_loop net v st buf w =
     (case nw_read net st w of
        (Inl f, w) \<Rightarrow> (Err (net_error v ''version read: '' f), w)
      | (Inr bytes, w) \<Rightarrow>
          if bytes = [] then (Err (SdkTransport ''server closed during version check''), w)
          else
            (case feed (ce_codec v) (buf @ bytes) of
               (Inl e, _) \<Rightarrow> (Err (SdkTransport (''version framing: '' @ ce_error_text v e)), w)
             | (Inr (Some payload), _) \<Rightarrow> (version_verdict v payload, w)
             | (Inr None, buf') \<Rightarrow>
                 if 65536 < length buf' then (Err (SdkTransport ''version response too large''), w)
                 else version_loop net v st buf' w))"
  by pat_completeness auto
termination
  by (relation "measure (\<lambda>(net, v, st, buf, w). 65537 - length buf)") (auto intro!: read_progress dest!: feed_None_bound [OF sym])

declare version_loop.simps [simp del]

definition check_wire_compat :: "'w network \<Rightarrow> client_env \<Rightarrow> nat \<Rightarrow> 'w \<Rightarrow> (sdk_error + unit) \<times> 'w" where
  "check_wire_compat net v st w =
     (case encode_request (ce_chrono v) (ce_codec v)
             \<lparr> rq_id = 0, rq_op = OpVersion, rq_table = [], rq_row_id = None, rq_values = None \<rparr> of
        Inl e \<Rightarrow> (Err (SdkTransport (''version encode: '' @ ce_error_text v e)), w)
      | Inr f \<Rightarrow>
          (case nw_write net st f w of
             (Inl e, w) \<Rightarrow> (Err (net_error v ''version write: '' e), w)
           | (Inr _, w) \<Rightarrow> version_loop net v st [] w))"

text \<open>Connecting: the address is part of the network, the prefix a fresh UUID.\<close>

definition connect_with_timeout :: "'w network \<Rightarrow> client_env \<Rightarrow> string \<Rightarrow> string \<Rightarrow> 'w \<Rightarrow> (sdk_error + client \<times> worker) \<times> 'w" where
  "connect_with_timeout net v addr uuid w =
     (case nw_connect net w of
        (Inl e, w) \<Rightarrow> (Err (net_error v (''connect '' @ addr @ '': '') e), w)
      | (Inr st, w) \<Rightarrow>
          (case check_wire_compat net v st w of
             (Inl e, w) \<Rightarrow> (Err e, w)
           | (Inr _, w) \<Rightarrow> (Ok (client_new uuid, worker_new st), w)))"

section \<open>Every caller hears once\<close>

definition replies :: "client_event list \<Rightarrow> (nat \<times> reply) list" where
  "replies ev = List.map_filter (\<lambda>e. case e of Replied i r \<Rightarrow> Some (i, r) | Flushed _ \<Rightarrow> None) ev"

definition sent :: "client_event list \<Rightarrow> request list" where
  "sent ev = concat (List.map_filter (\<lambda>e. case e of Flushed reqs \<Rightarrow> Some reqs | Replied _ _ \<Rightarrow> None) ev)"

lemma map_filter_append [simp]: "List.map_filter f (xs @ ys) = List.map_filter f xs @ List.map_filter f ys"
  by (simp add: List.map_filter_def)

lemma events_simps [simp]:
  "replies [] = []" "replies (xs @ ys) = replies xs @ replies ys" "replies [Flushed reqs] = []"
  "sent [] = []" "sent (xs @ ys) = sent xs @ sent ys" "sent [Flushed reqs] = reqs"
  by (simp_all add: replies_def sent_def map_filter_simps)

lemma reply_all_simps [simp]: "replies (reply_all e ps) = map (\<lambda>p. (pd_reply p, Err e)) ps" "sent (reply_all e ps) = []"
  by (induction ps) (simp_all add: reply_all_def replies_def sent_def map_filter_simps)

lemma reply_each_simps [simp]:
  "replies (reply_each ps rs) = map (\<lambda>(p, r). (pd_reply p, Ok r)) (zip ps rs)" "sent (reply_each ps rs) = []"
  by (induction ps rs rule: list_induct2') (simp_all add: reply_each_def replies_def sent_def map_filter_simps)

lemma map_fst_reply_each: "length rs = length ps \<Longrightarrow> map (fst \<circ> (\<lambda>(p, r). (pd_reply p, Ok r :: reply))) (zip ps rs) = map pd_reply ps"
  by (induction rs ps rule: list_induct2) simp_all

lemmas map_fst_reply_each' = map_fst_reply_each [unfolded comp_def]

lemma read_reply_length: "read_reply net v st n buf w = (Some rs, buf', w') \<Longrightarrow> length rs = n"
proof (induction net v st n buf w arbitrary: rs buf' w' rule: read_reply.induct)
  case (1 net v st n buf w)
  from "1.prems" "1.IH" show ?case
    by (subst (asm) read_reply.simps) (auto simp: decode_reply_def split: prod.splits sum.splits option.splits if_splits)
qed

lemma flush_once_events:
  assumes "flush_once net v st buf reqs w = (ev, res, buf', w')"
  shows "replies ev = []" "sent ev \<in> {[], reqs}"
  using assms by (auto simp: flush_once_def split: sum.splits prod.splits)

lemma flush_once_length: "flush_once net v st buf reqs w = (ev, Some rs, buf', w') \<Longrightarrow> length rs = length reqs"
  by (auto simp: flush_once_def split: sum.splits prod.splits dest: read_reply_length)

lemma flush_once_Some:
  "flush_once net v st buf reqs w = (ev, Some rs, buf', w') \<Longrightarrow> replies ev = [] \<and> sent ev \<in> {[], reqs} \<and> length rs = length reqs"
  by (intro conjI; erule flush_once_events flush_once_length)

lemma flush_fresh_replies:
  assumes "flush_fresh net v fresh wk w = (ev, alive, wk', w')"
  shows "map fst (replies ev) = map pd_reply fresh"
proof -
  obtain ev1 first buf w1 where f: "flush_once net v (wk_stream wk) (wk_buf wk) (map pd_req fresh) w = (ev1, first, buf, w1)"
    by (metis prod_cases4)
  note ev1 = flush_once_events [OF f]
  show ?thesis
  proof (cases first)
    case (Some rs)
    with assms f ev1 flush_once_length [OF f [unfolded Some]] show ?thesis by (auto simp: flush_fresh_def map_fst_reply_each)
  next
    case None
    with assms f ev1 show ?thesis
      by (auto simp: flush_fresh_def Let_def comp_def map_fst_reply_each' split: if_splits sum.splits prod.splits option.splits
          dest!: flush_once_Some dest: flush_once_events(1))
  qed
qed

lemma flush_pending_replies:
  assumes "flush_pending net v batch wk w = (ev, alive, wk', w')"
  shows "mset (map fst (replies ev)) = mset (map pd_reply batch)"
proof -
  define late where "late = (\<lambda>p :: pending. ce_timeout v \<le> nw_now net w - pd_enqueued p)"
  let ?fresh = "filter (\<lambda>p. \<not> late p) batch"
  have split: "mset (map pd_reply (filter late batch)) + mset (map pd_reply ?fresh) = mset (map pd_reply batch)"
    by (metis image_mset_union mset_filter mset_map multiset_partition)
  show ?thesis
  proof (cases "?fresh = []")
    case True
    with assms split show ?thesis by (auto simp: flush_pending_def late_def [symmetric] comp_def simp flip: mset_map)
  next
    case False
    obtain ev' alive' wk1 w1 where f: "flush_fresh net v ?fresh wk w = (ev', alive', wk1, w1)" by (metis prod_cases4)
    have "ev = reply_all (SdkTimeout (ce_timeout v div 1000000)) (filter late batch) @ ev'"
      using assms False f by (simp add: flush_pending_def late_def Let_def del: filter_empty_conv)
    with flush_fresh_replies [OF f] split show ?thesis by (simp add: comp_def del: mset_map)
  qed
qed

abbreviation asked :: "cmd list \<Rightarrow> nat list" where
  "asked cmds \<equiv> map (\<lambda>c. pd_reply (cmd_pending c)) cmds"

lemma fail_cmds_simps [simp]:
  "map fst (replies (fail_cmds msg cmds)) = asked cmds" "sent (fail_cmds msg cmds) = []"
  by (simp_all add: fail_cmds_def comp_def)

lemma run_cmds_replies: "mset (map fst (replies (fst (run_cmds net v cmds wk w)))) = mset (asked cmds)"
proof (induction net v cmds wk w rule: run_cmds.induct)
  case (1 net v cmds wk w)
  show ?case
  proof (cases "cmds = []")
    case False
    define run rest where "run = next_run cmds" and "rest = drop (length run) cmds"
    obtain ev alive wk1 w1 where f: "flush_pending net v (map cmd_pending run) wk w = (ev, alive, wk1, w1)" by (metis prod_cases4)
    have ev: "mset (map fst (replies ev)) = mset (asked run)" using flush_pending_replies [OF f] by (simp add: comp_def)
    have cmds: "mset (asked cmds) = mset (asked run) + mset (asked rest)"
      using next_run_prefix [OF False] by (metis map_append mset_append rest_def run_def)
    have "mset (map fst (replies (fst (run_cmds net v cmds wk w)))) = mset (map fst (replies ev)) + mset (asked rest)"
    proof (cases alive)
      case True
      then have "mset (map fst (replies (fst (run_cmds net v rest wk1 w1)))) = mset (asked rest)"
        using "1.IH" [OF False run_def rest_def f [symmetric] refl refl] by simp
      with True False f show ?thesis
        by (subst run_cmds.simps) (simp add: run_def [symmetric] rest_def [symmetric] case_prod_beta del: mset_map)
    next
      case alive: False
      with False f show ?thesis
        by (subst run_cmds.simps) (simp add: run_def [symmetric] rest_def [symmetric] del: mset_map)
    qed
    with ev cmds show ?thesis by simp
  qed (simp add: run_cmds.simps)
qed

text \<open>
  C8: Every caller of the client hears exactly once: whatever the network does, and however often
  connections fail, the worker ends with one reply for each queued command and no other.
\<close>

theorem every_caller_answered_once:
  "mset (map fst (replies (fst (worker_loop net v queue wk w)))) = mset (map (\<lambda>c. pd_reply (cmd_pending c)) queue)"
proof (induction net v queue wk w rule: worker_loop.induct)
  case (2 net v first queue wk w)
  obtain ready wk1 w1 where r: "revive net wk w = (ready, wk1, w1)" by (metis prod_cases3)
  show ?case
  proof (cases ready)
    case True
    obtain ev wk2 w2 where run: "run_cmds net v (take MAX_FLUSH_OPS (first # queue)) wk1 w1 = (ev, wk2, w2)" by (metis prod_cases3)
    have "mset (map fst (replies (fst (worker_loop net v (drop MAX_FLUSH_OPS (first # queue)) wk2 w2)))) =
        mset (asked (drop MAX_FLUSH_OPS (first # queue)))"
      using "2.IH"(1) r True run by metis
    moreover have "mset (map fst (replies ev)) = mset (asked (take MAX_FLUSH_OPS (first # queue)))"
      using run_cmds_replies run by (metis fst_conv)
    moreover have "mset (asked (first # queue)) =
        mset (asked (take MAX_FLUSH_OPS (first # queue))) + mset (asked (drop MAX_FLUSH_OPS (first # queue)))"
      by (metis append_take_drop_id map_append mset_append)
    ultimately show ?thesis
      using r True run by (simp add: case_prod_beta del: mset_map)
  next
    case False
    then have "mset (map fst (replies (fst (worker_loop net v queue wk1 w1)))) = mset (asked queue)"
      using "2.IH"(2) r by metis
    with r False show ?thesis by (simp add: case_prod_beta del: mset_map)
  qed
qed simp

section \<open>What is sent again\<close>

definition sends :: "pending \<Rightarrow> request \<Rightarrow> nat" where
  "sends p r = (if pd_req p = r then (if pd_retry_safe p then 2 else 1) else 0)"

definition allowance :: "pending list \<Rightarrow> request \<Rightarrow> nat" where
  "allowance ps r = sum_list (map (\<lambda>p. sends p r) ps)"

lemma allowance_simps [simp]:
  "allowance [] r = 0" "allowance (p # ps) r = sends p r + allowance ps r" "allowance (ps @ qs) r = allowance ps r + allowance qs r"
  by (simp_all add: allowance_def)

lemma allowance_filter: "allowance (filter P ps) r \<le> allowance ps r"
  by (induction ps) auto

lemma allowance_once: "count_list (map pd_req ps) r \<le> allowance ps r"
  by (induction ps) (auto simp: sends_def)

lemma allowance_twice: "list_all pd_retry_safe ps \<Longrightarrow> 2 * count_list (map pd_req ps) r = allowance ps r"
  by (induction ps) (auto simp: sends_def)

lemma sent_once: "sent ev \<in> {[], reqs} \<Longrightarrow> count_list (sent ev) r \<le> count_list reqs r"
  by auto

lemma flush_fresh_sent:
  assumes "flush_fresh net v fresh wk w = (ev, alive, wk', w')"
  shows "count_list (sent ev) r \<le> allowance fresh r"
proof -
  let ?reqs = "map pd_req fresh"
  obtain ev1 first buf w1 where f: "flush_once net v (wk_stream wk) (wk_buf wk) ?reqs w = (ev1, first, buf, w1)" by (metis prod_cases4)
  note one = sent_once [OF flush_once_events(2) [OF f], of r]
  show ?thesis
  proof (cases "first = None \<and> list_all pd_retry_safe fresh")
    case True
    have "\<exists>ev2 ev3. ev = ev1 @ ev2 @ ev3 \<and> sent ev2 \<in> {[], ?reqs} \<and> sent ev3 = []"
    proof (cases "fst (nw_connect net w1)")
      case (Inl e)
      with assms f True show ?thesis
        by (intro exI [of _ "[]"] exI [of _ "reply_all (SdkTransport ''flush failed; reconnect failed'') fresh"])
          (auto simp: flush_fresh_def Let_def split: prod.splits)
    next
      case (Inr st)
      obtain ev2 second buf2 w2 where g: "flush_once net v st [] ?reqs (snd (nw_connect net w1)) = (ev2, second, buf2, w2)" by (metis prod_cases4)
      have "\<exists>ev3. ev = ev1 @ ev2 @ ev3 \<and> sent ev3 = []"
        using assms f True Inr g by (cases second) (auto simp: flush_fresh_def Let_def split: prod.splits)
      with flush_once_events(2) [OF g] show ?thesis by blast
    qed
    then obtain ev2 ev3 where e: "ev = ev1 @ ev2 @ ev3" "sent ev2 \<in> {[], ?reqs}" "sent ev3 = []" by blast
    from sent_once [OF e(2), of r] e(1,3) one allowance_twice [of fresh r] True show ?thesis by (simp add: count_list_append)
  next
    case False
    have "\<exists>ev3. ev = ev1 @ ev3 \<and> sent ev3 = []"
      using assms f False by (auto simp: flush_fresh_def Let_def split: option.splits if_splits)
    with one allowance_once [of fresh r] show ?thesis by (auto simp: count_list_append)
  qed
qed

lemma flush_pending_sent:
  assumes "flush_pending net v batch wk w = (ev, alive, wk', w')"
  shows "count_list (sent ev) r \<le> allowance batch r"
proof -
  let ?fresh = "filter (\<lambda>p. \<not> ce_timeout v \<le> nw_now net w - pd_enqueued p) batch"
  obtain ev' alive' wk1 w1 where f: "flush_fresh net v ?fresh wk w = (ev', alive', wk1, w1)" by (metis prod_cases4)
  have "sent ev \<in> {[], sent ev'}" using assms f by (auto simp: flush_pending_def Let_def split: if_splits)
  with flush_fresh_sent [OF f, of r] allowance_filter [of "\<lambda>p. \<not> ce_timeout v \<le> nw_now net w - pd_enqueued p" batch r]
  show ?thesis by auto
qed

lemma run_cmds_sent: "count_list (sent (fst (run_cmds net v cmds wk w))) r \<le> allowance (map cmd_pending cmds) r"
proof (induction net v cmds wk w rule: run_cmds.induct)
  case (1 net v cmds wk w)
  show ?case
  proof (cases "cmds = []")
    case False
    define run rest where "run = next_run cmds" and "rest = drop (length run) cmds"
    obtain ev alive wk1 w1 where f: "flush_pending net v (map cmd_pending run) wk w = (ev, alive, wk1, w1)" by (metis prod_cases4)
    have cmds: "allowance (map cmd_pending cmds) r = allowance (map cmd_pending run) r + allowance (map cmd_pending rest) r"
      using next_run_prefix [OF False] by (metis allowance_simps(3) map_append rest_def run_def)
    have "count_list (sent (fst (run_cmds net v rest wk1 w1))) r \<le> allowance (map cmd_pending rest) r" if alive
      using "1.IH" [OF False run_def rest_def f [symmetric] refl refl refl that] .
    with flush_pending_sent [OF f, of r] False f cmds show ?thesis
      by (subst run_cmds.simps)
        (auto simp: run_def [symmetric] rest_def [symmetric] case_prod_beta count_list_append)
  qed (simp add: run_cmds.simps)
qed

lemma worker_loop_sent: "count_list (sent (fst (worker_loop net v queue wk w))) r \<le> allowance (map cmd_pending queue) r"
proof (induction net v queue wk w rule: worker_loop.induct)
  case (2 net v first queue wk w)
  obtain ready wk1 w1 where r: "revive net wk w = (ready, wk1, w1)" by (metis prod_cases3)
  show ?case
  proof (cases ready)
    case True
    obtain ev wk2 w2 where run: "run_cmds net v (take MAX_FLUSH_OPS (first # queue)) wk1 w1 = (ev, wk2, w2)" by (metis prod_cases3)
    have "count_list (sent (fst (worker_loop net v (drop MAX_FLUSH_OPS (first # queue)) wk2 w2))) r
        \<le> allowance (map cmd_pending (drop MAX_FLUSH_OPS (first # queue))) r"
      using "2.IH"(1) r True run by metis
    moreover have "count_list (sent ev) r \<le> allowance (map cmd_pending (take MAX_FLUSH_OPS (first # queue))) r"
      using run_cmds_sent run by (metis fst_conv)
    moreover have "allowance (map cmd_pending (first # queue)) r =
        allowance (map cmd_pending (take MAX_FLUSH_OPS (first # queue))) r + allowance (map cmd_pending (drop MAX_FLUSH_OPS (first # queue))) r"
      by (metis append_take_drop_id map_append allowance_simps(3))
    ultimately show ?thesis using r True run by (simp add: case_prod_beta count_list_append)
  next
    case False
    then have "count_list (sent (fst (worker_loop net v queue wk1 w1))) r \<le> allowance (map cmd_pending queue) r"
      using "2.IH"(2) r by metis
    with r False show ?thesis by (simp add: case_prod_beta)
  qed
qed simp

text \<open>Calls of the methods of a client, in any order.\<close>

datatype client_call =
    CallAuthenticate string
  | CallPing
  | CallInsert string row_values
  | CallInsertFast string row_values
  | CallGet string u64
  | CallUpdate string u64 row_values
  | CallDelete string u64
  | CallScan string nat "u64 option" bool
  | CallFind string string val
  | CallSearch string string nat
  | CallCreateTable json
  | CallProcedure string row_values

fun run_call :: "caller \<times> client_call \<Rightarrow> client \<Rightarrow> client" where
  "run_call (who, CallAuthenticate token) = client_authenticate who token"
| "run_call (who, CallPing) = client_ping who"
| "run_call (who, CallInsert t vals) = client_insert who t vals"
| "run_call (who, CallInsertFast t vals) = client_insert_fast who t vals"
| "run_call (who, CallGet t i) = client_get who t i"
| "run_call (who, CallUpdate t i vals) = client_update who t i vals"
| "run_call (who, CallDelete t i) = client_delete who t i"
| "run_call (who, CallScan t n k desc) = client_scan who t n k desc"
| "run_call (who, CallFind t col x) = client_find who t col x"
| "run_call (who, CallSearch t query n) = client_search who t query n"
| "run_call (who, CallCreateTable j) = client_create_table who j"
| "run_call (who, CallProcedure nm args) = client_call who nm args"

text \<open>Requests that have no effect, or whose effect the server applies once by their key.\<close>

definition replayable :: "request \<Rightarrow> bool" where
  "replayable r \<longleftrightarrow>
     rq_op r \<in> {OpPing, OpGet, OpScan, OpFind, OpSearch} \<or>
     rq_op r = OpInsert \<and> (\<exists>vals. rq_values r = Some vals \<and> idem_key vals \<noteq> None)"

abbreviation queued :: "client \<Rightarrow> pending list" where
  "queued cl \<equiv> map cmd_pending (cl_queue cl)"

lemmas client_methods =
  client_authenticate_def client_ping_def client_insert_def client_insert_fast_def client_get_def client_update_def
  client_delete_def client_scan_def client_find_def client_search_def client_create_table_def client_call_def

lemma idem_key_insert: "idem_key (hm_insert ''_idem'' (VString k) vals) = Some k"
  by (simp add: idem_key_def hm_simps)

lemma run_call_queues:
  "\<exists>p. queued (run_call call cl) = queued cl @ [p] \<and> rq_id (pd_req p) = cl_next_id cl \<and>
       cl_next_id (run_call call cl) = cl_next_id cl + 1 \<and> (pd_retry_safe p \<longrightarrow> replayable (pd_req p))"
proof (cases call)
  case (Pair who m)
  then show ?thesis
    by (cases m) (simp_all add: client_methods alloc_id_def alloc_idem_def exec_def exec_direct_def Let_def replayable_def idem_key_insert)
qed

lemma calls_queued:
  assumes "cl = fold run_call calls (client_new uuid)"
  shows "cl_next_id cl = of_nat (Suc (length calls)) \<and> map (\<lambda>p. rq_id (pd_req p)) (queued cl) = map (\<lambda>n. of_nat (Suc n)) [0..<length calls] \<and>
    (\<forall>p \<in> set (queued cl). pd_retry_safe p \<longrightarrow> replayable (pd_req p))"
  using assms
proof (induction calls arbitrary: cl rule: rev_induct)
  case (snoc call calls)
  define cl0 where "cl0 = fold run_call calls (client_new uuid)"
  obtain p where p: "queued (run_call call cl0) = queued cl0 @ [p]" "rq_id (pd_req p) = cl_next_id cl0"
    "cl_next_id (run_call call cl0) = cl_next_id cl0 + 1" "pd_retry_safe p \<longrightarrow> replayable (pd_req p)"
    using run_call_queues by meson
  have cl: "cl = run_call call cl0" using snoc.prems by (simp add: cl0_def)
  show ?case using snoc.IH [OF cl0_def] p unfolding cl by (simp add: add.commute del: map_map set_map)
qed (simp add: client_new_def)

lemma allowance_absent: "r \<notin> set (map pd_req ps) \<Longrightarrow> allowance ps r = 0"
  by (induction ps) (auto simp: sends_def)

lemma allowance_distinct:
  "distinct (map pd_req ps) \<Longrightarrow> p \<in> set ps \<Longrightarrow> allowance ps (pd_req p) = (if pd_retry_safe p then 2 else 1)"
  by (induction ps) (auto simp: sends_def allowance_absent image_iff)

lemma distinct_by_id: "distinct (map (\<lambda>p. rq_id (pd_req p)) ps) \<Longrightarrow> distinct (map pd_req ps)"
  by (induction ps) auto

text \<open>
  C7: The retry contract of the client: after any calls of its methods, and whatever the network
  does while the worker sends what they queued, no request goes out more than twice, and none
  goes out twice unless it has no effect or is an insert that carries an idempotency key. An
  update, a deletion, a procedure call and the creation of a table are sent at most once.
\<close>

theorem retry_contract:
  assumes "length calls < 2 ^ 64" and "cl = fold run_call calls (client_new uuid)" and "cmd \<in> set (cl_queue cl)"
  shows "count_list (sent (fst (worker_loop net v (cl_queue cl) wk w))) (pd_req (cmd_pending cmd)) \<le>
    (if replayable (pd_req (cmd_pending cmd)) then 2 else 1)"
proof -
  note q = calls_queued [OF assms(2)]
  have small: "take_bit 64 (Suc n) = Suc n" if "n < length calls" for n
    using that assms(1) by (intro take_bit_nat_eq_self) linarith
  have "inj_on (\<lambda>n. of_nat (Suc n) :: u64) {0..<length calls}"
  proof (rule inj_onI)
    fix m n
    assume "m \<in> {0..<length calls}" "n \<in> {0..<length calls}" "of_nat (Suc m) = (of_nat (Suc n) :: u64)"
    with small [of m] small [of n] show "m = n" by (simp only: word_of_nat_eq_iff) simp
  qed
  then have "distinct (map (\<lambda>p. rq_id (pd_req p)) (queued cl))"
    using q by (metis atLeastLessThan_upt distinct_map distinct_upt)
  from allowance_distinct [OF distinct_by_id [OF this], of "cmd_pending cmd"] assms(3)
  have "allowance (queued cl) (pd_req (cmd_pending cmd)) = (if pd_retry_safe (cmd_pending cmd) then 2 else 1)" by simp
  with worker_loop_sent [of net v "cl_queue cl" wk w "pd_req (cmd_pending cmd)"] q assms(3) show ?thesis by (auto split: if_splits)
qed

definition lossy_network :: "nat network" where
  "lossy_network = \<lparr> nw_connect = (\<lambda>w. (Inr w, Suc w)), nw_write = (\<lambda>_ _ w. (Inr (), w)), nw_read = (\<lambda>_ w. (Inl NetTimeout, w)), nw_now = (\<lambda>_. 0) \<rparr>"

definition demo_client_env :: client_env where
  "demo_client_env = \<lparr> ce_chrono = demo_chrono, ce_codec = demo_codec, ce_timeout = 5000000000, ce_error_text = (\<lambda>_. ''error''),
     ce_debug_error = (\<lambda>_. ''None''), ce_version = ''0.2.4'' \<rparr>"

definition demo_client :: client where
  "demo_client = fold run_call [((7, 0), CallUpdate ''t'' 1 [(''k'', VInt64 2)]), ((8, 0), CallInsert ''t'' [(''k'', VInt64 3)])] (client_new ''u'')"

theorem retry_contract_witness:
  "map pd_reply (queued demo_client) = [7, 8] \<and>
   count_list (sent (fst (worker_loop lossy_network demo_client_env (cl_queue demo_client) (worker_new 0) 1)))
     \<lparr> rq_id = 1, rq_op = OpUpdate, rq_table = ''t'', rq_row_id = Some 1, rq_values = Some [(''k'', VInt64 2)] \<rparr> \<le> 1"
proof -
  define upd where "upd = \<lparr> rq_id = 1, rq_op = OpUpdate, rq_table = ''t'', rq_row_id = Some 1, rq_values = Some [(''k'', VInt64 2)] \<rparr>"
  have q: "queued demo_client = [\<lparr> pd_req = upd, pd_reply = 7, pd_retry_safe = False, pd_enqueued = 0 \<rparr>,
      \<lparr> pd_req = \<lparr> rq_id = 2, rq_op = OpInsert, rq_table = ''t'', rq_row_id = None, rq_values = Some [(''k'', VInt64 3), (''_idem'', VString ''u-1'')] \<rparr>,
         pd_reply = 8, pd_retry_safe = True, pd_enqueued = 0 \<rparr>]"
    unfolding upd_def by code_simp
  have "upd \<in> set (map pd_req (queued demo_client))" unfolding q by simp
  then obtain cmd where cmd: "cmd \<in> set (cl_queue demo_client)" "pd_req (cmd_pending cmd) = upd" by auto
  have "\<not> replayable upd" by (simp add: replayable_def upd_def)
  with retry_contract [OF _ demo_client_def cmd(1), of lossy_network demo_client_env "worker_new 0" 1] cmd(2) q
  show ?thesis by (simp add: upd_def)
qed

section \<open>Errors and versions\<close>

lemma min_version: "parse_version MIN_SERVER_VERSION = Some (0, 1, 0)"
  by code_simp

lemma check_compat_iff:
  "check_compat v server p = Ok () \<longleftrightarrow>
     p = PROTOCOL_VERSION \<and> (\<exists>x. parse_version server = Some x \<and> version_le (0, 1, 0) x)"
  by (auto simp: check_compat_def min_version Let_def split: option.splits)

text \<open>
  The text of a violated uniqueness is none of those the client knows: it reports an error of the
  server, not of the caller.
\<close>

lemma unique_violation_unclassified:
  "map_server_error (core_error_text (\<lambda>_. ''Int64(1)'') (DuplicateKey (DupColumn ''email'' (VInt64 1)))) =
     SdkServer ''duplicate key: email=Int64(1)''"
  by code_simp

end
