(* ===== verification/Client_Server.thy ===== *)
theory Client_Server
  imports Client
begin

text \<open>
  The client against the server: the worker of \<open>Client\<close> on a network whose other end is the
  connection of \<open>Connection\<close>. What is written reaches the server, and its answers come back cut
  into arbitrary pieces. Batching then is invisible: callers see requests handled one by one.
\<close>

section \<open>The network between them\<close>

type_synonym wire = "connection \<times> server \<times> nat"

text \<open>The connection, the server, and how many of the bytes sent back were read so far.\<close>

definition served_network ::
  "dispatch_env \<Rightarrow> (nat \<Rightarrow> request_env) \<Rightarrow> client_env \<Rightarrow> (nat \<Rightarrow> nat) \<Rightarrow> nat \<Rightarrow> wire network" where
  "served_network d env v piece now =
     \<lparr> nw_connect = (\<lambda>(cn, s, seen). (Inr 0, (connection_new, s, 0))),
       nw_write = (\<lambda>_ bytes (cn, s, seen).
         let (cn, s) = serve_chunk d env (ce_chrono v) (ce_codec v) bytes (cn, s) in (Inr (), (cn, s, seen))),
       nw_read = (\<lambda>_ (cn, s, seen).
         if seen < length (cn_out cn)
         then (let bytes = take (Suc (piece seen)) (drop seen (cn_out cn)) in (Inr bytes, (cn, s, seen + length bytes)))
         else (Inl NetTimeout, (cn, s, seen))),
       nw_now = (\<lambda>_. now) \<rparr>"

section \<open>One by one\<close>

fun handle_each ::
  "dispatch_env \<Rightarrow> request_env list \<Rightarrow> identity option \<Rightarrow> request list \<Rightarrow> server \<Rightarrow> response list \<times> identity option \<times> server" where
  "handle_each d (q # qs) authed (req # reqs) s =
     (let (resp, authed, s) = handle_request d q authed req s; (resps, authed, s) = handle_each d qs authed reqs s in
      (resp # resps, authed, s))"
| "handle_each d _ authed _ s = ([], authed, s)"

lemma handle_each_replicate: "handle_each d (replicate (length reqs) q) authed reqs s = handle_ops d q authed reqs s"
  by (induction reqs arbitrary: authed s) (simp_all split: prod.split)

lemma handle_each_append:
  "length qs = length reqs \<Longrightarrow> handle_each d (qs @ qs') authed (reqs @ reqs') s =
     (let (rs, authed, s) = handle_each d qs authed reqs s; (rs', authed, s) = handle_each d qs' authed reqs' s in (rs @ rs', authed, s))"
  by (induction qs reqs arbitrary: authed s rule: list_induct2) (simp_all split: prod.split)

lemma handle_each_length: "length qs = length reqs \<Longrightarrow> length (fst (handle_each d qs authed reqs s)) = length reqs"
  by (induction qs reqs arbitrary: authed s rule: list_induct2) (simp_all add: case_prod_beta)

section \<open>One frame\<close>

definition flush_message :: "request list \<Rightarrow> incoming" where
  "flush_message reqs = (if length reqs = 1 then Single (hd reqs) else Batch \<lparr> bq_id = rq_id (hd reqs), bq_ops = reqs \<rparr>)"

lemma flush_frame_message: "flush_frame v reqs = encode_incoming (ce_chrono v) (ce_codec v) (flush_message reqs)"
  by (simp add: flush_frame_def flush_message_def)

definition answer_payload :: "chrono \<Rightarrow> answer \<Rightarrow> u8 list" where
  "answer_payload chr a =
     (case a of
        AnsOne r \<Rightarrow> KIND_RESPONSE # w_response chr r
      | AnsBatch b \<Rightarrow> KIND_BATCH_RESPONSE # u64_bytes (bs_id b) @ w_len (length (bs_results b)) @ concat (map (w_response chr) (bs_results b)))"

lemma encode_answer_frame: "encode_answer chr c a = frame c (answer_payload chr a)"
  by (cases a) (simp_all add: answer_payload_def encode_response_def encode_batch_response_def)

definition flush_answer :: "request list \<Rightarrow> response list \<Rightarrow> answer" where
  "flush_answer reqs rs = (if length reqs = 1 then AnsOne (hd rs) else AnsBatch \<lparr> bs_id = rq_id (hd reqs), bs_results = rs \<rparr>)"

lemma answer_to_flush:
  assumes "handle_ops d q authed reqs s = (rs, authed', s')"
  shows "answer_to d q authed (flush_message reqs) s = (flush_answer reqs rs, authed', s')"
proof (cases "length reqs = 1")
  case True
  then obtain r where "reqs = [r]" by (cases reqs) auto
  with assms show ?thesis by (auto simp: flush_message_def flush_answer_def split: prod.splits)
next
  case False
  with assms show ?thesis by (simp add: flush_message_def flush_answer_def)
qed

lemma decode_reply_answer:
  assumes "length rs = length reqs" and "length reqs \<le> 4096" and "\<forall>r \<in> set rs. response_wire (ce_chrono v) r"
  shows "decode_reply v (length reqs) (answer_payload (ce_chrono v) (flush_answer reqs rs)) = Some rs"
proof (cases "length reqs = 1")
  case True
  then obtain r where "rs = [r]" using assms(1) by (cases rs) auto
  with True assms(3) decode_all_wire [OF response_payload.codec_axioms, of "ce_chrono v" r] show ?thesis
    by (simp add: decode_reply_def answer_payload_def flush_answer_def decode_response_def)
next
  case False
  with assms response_codec.dec_list_enc [of rs "ce_chrono v" "[]"] show ?thesis
    by (simp add: decode_reply_def answer_payload_def flush_answer_def decode_batch_response_def decode_all_def expect_kind_def
        rd_end_def rd_simps wire_simps)
qed

text \<open>What a frame carries fits when every request and response takes at most a sixteenth of it.\<close>

definition fits :: "client_env \<Rightarrow> nat \<Rightarrow> bool" where
  "fits v n \<longleftrightarrow> FLUSH_CHUNK * n + 13 \<le> max_frame (ce_codec v)"

lemma length_concat_le: "\<forall>x \<in> set xs. length (f x) \<le> n \<Longrightarrow> length (concat (map f xs)) \<le> length xs * n"
  by (induction xs) auto

lemma concat_fits:
  assumes "xs \<noteq> []" and "length xs \<le> FLUSH_CHUNK" and "\<forall>x \<in> set xs. fits v (length (f x))"
  shows "length (concat (map f xs)) + 13 \<le> max_frame (ce_codec v)"
proof -
  define n where "n = (max_frame (ce_codec v) - 13) div 16"
  have m: "13 \<le> max_frame (ce_codec v)" using assms(1,3) by (cases xs) (auto simp: fits_def)
  have "\<forall>x \<in> set xs. length (f x) \<le> n" using assms(3) by (auto simp: fits_def n_def FLUSH_CHUNK_def)
  then have "length (concat (map f xs)) \<le> length xs * n" by (rule length_concat_le)
  also have "\<dots> \<le> 16 * n" using assms(2) by (simp add: FLUSH_CHUNK_def)
  finally show ?thesis using m by (simp add: n_def)
qed

lemma message_fits:
  assumes "reqs \<noteq> []" and "length reqs \<le> FLUSH_CHUNK" and "\<forall>r \<in> set reqs. fits v (length (w_request (ce_chrono v) r))"
  obtains f where "flush_frame v reqs = Ok f"
proof -
  have "length (w_incoming (ce_chrono v) (flush_message reqs)) \<le> max_frame (ce_codec v)"
    using concat_fits [OF assms] assms(1) by (cases reqs) (auto simp: flush_message_def batch_payload_def w_len_def)
  then have "is_ok (flush_frame v reqs)" by (simp add: flush_frame_message encode_incoming_frame is_ok_frame)
  with that show ?thesis by (auto simp: is_ok_iff)
qed

lemma answer_fits:
  assumes "rs \<noteq> []" and "length rs \<le> FLUSH_CHUNK" and "\<forall>r \<in> set rs. fits v (length (w_response (ce_chrono v) r))"
    and "length reqs = length rs"
  obtains g where "encode_answer (ce_chrono v) (ce_codec v) (flush_answer reqs rs) = Ok g"
proof -
  have "length (answer_payload (ce_chrono v) (flush_answer reqs rs)) \<le> max_frame (ce_codec v)"
    using concat_fits [OF assms(1-3)] assms(1) by (cases rs) (auto simp: flush_answer_def answer_payload_def w_len_def)
  then have "is_ok (encode_answer (ce_chrono v) (ce_codec v) (flush_answer reqs rs))" by (simp add: encode_answer_frame is_ok_frame)
  with that show ?thesis by (auto simp: is_ok_iff)
qed

text \<open>The server's side of a frame, and the client's side of the answer.\<close>

lemma serve_frame:
  assumes "cn_end cn = ConnOpen" and "cn_staging cn = []" and "max_frame c < 2 ^ 32"
    and "incoming_wire chr m" and "\<not> asks_stream m" and "encode_incoming chr c m = Ok f"
    and "answer_to d (env (cn_frames cn)) (cn_authed cn) m s = (a, authed', s')" and "encode_answer chr c a = Ok g"
  shows "serve_chunk d env chr c f (cn, s) =
    (cn \<lparr> cn_frames := Suc (cn_frames cn), cn_authed := authed', cn_out := cn_out cn @ g \<rparr>, s')"
proof -
  let ?p = "[w_incoming chr m]" and ?cn = "cn \<lparr> cn_frames := Suc (cn_frames cn), cn_authed := authed', cn_out := cn_out cn @ g \<rparr>"
  have p: "serve_payloads d env chr c ?p (cn, s) = (?cn, s')"
    using serve_payload_Ok [where env = env and cn = cn, OF assms(7,8,4,5)] assms(1) by simp
  have drain: "drain c f = (?p, None, [])" "drain c [] = ([], None, [])"
    using drain_messages [of chr c "[m]" "[f]"] drain_messages [of chr c "[]" "[]"] assms(3,6) by simp_all
  have "f \<noteq> []" "length f \<le> max_frame c + HEADER_LEN"
    using frame_Ok [OF assms(6) [unfolded encode_incoming_frame] assms(3)] by (auto simp: HEADER_LEN_def)
  then have "chunks_fit c [] [f]" by simp
  from serve_chunks_drain [OF this drain(2), of ?p "[]" d env chr "(cn, s)"] drain(1) p assms(1,2)
  show ?thesis by (cases cn) (simp add: serve_chunks_def restage_def)
qed

lemma served_read:
  "k < length g \<Longrightarrow> cn_out cn = old @ g \<Longrightarrow> nw_read (served_network d env v piece now) st (cn, s, length old + k) =
     (let bytes = take (Suc (piece (length old + k))) (drop k g) in (Inr bytes, (cn, s, length old + (k + length bytes))))"
  by (simp add: served_network_def Let_def)

lemma read_answer:
  assumes "frame (ce_codec v) payload = Ok g" and "max_frame (ce_codec v) < 2 ^ 32" and "cn_out cn = old @ g" and "k \<le> length g"
  shows "read_reply (served_network d env v piece now) v st n (take k g) (cn, s, length old + k) =
    (decode_reply v n payload, [], (cn, s, length old + length g))"
  using assms(4)
proof (induction "length g - k" arbitrary: k rule: less_induct)
  case less
  show ?case
  proof (cases "k = length g")
    case True
    with feed_frame [OF assms(1,2), of "[]"] show ?thesis by (subst read_reply.simps) simp
  next
    case False
    define j where "j = min (Suc (piece (length old + k))) (length g - k)"
    have j: "0 < j" "k + j \<le> length g" using False less.prems by (auto simp: j_def)
    have bytes: "take (Suc (piece (length old + k))) (drop k g) = take j (drop k g)" "take j (drop k g) \<noteq> []" "length (take j (drop k g)) = j"
      using j False less.prems by (auto simp: j_def min_def)
    have "take k g @ take j (drop k g) = take (k + j) g" by (simp add: take_add)
    moreover have "read_reply (served_network d env v piece now) v st n (take (k + j) g) (cn, s, length old + (k + j)) =
        (decode_reply v n payload, [], (cn, s, length old + length g))"
      using less.hyps [of "k + j"] j by simp
    ultimately show ?thesis
      using feed_partial [OF assms(1,2), of k] served_read [OF _ assms(3), of k d env v piece now st s] False less.prems bytes
      by (subst read_reply.simps) (simp del: length_take)
  qed
qed

definition request_fits :: "client_env \<Rightarrow> request \<Rightarrow> bool" where
  "request_fits v r \<longleftrightarrow> request_wire (ce_chrono v) r \<and> fits v (length (w_request (ce_chrono v) r)) \<and> \<not> asks_stream (Single r)"

definition response_fits :: "client_env \<Rightarrow> response \<Rightarrow> bool" where
  "response_fits v r \<longleftrightarrow> response_wire (ce_chrono v) r \<and> fits v (length (w_response (ce_chrono v) r))"

text \<open>Between frames: the connection is open and everything it sent was read.\<close>

definition in_step :: "wire \<Rightarrow> bool" where
  "in_step = (\<lambda>(cn, s, seen). cn_end cn = ConnOpen \<and> cn_staging cn = [] \<and> seen = length (cn_out cn))"

lemma flush_once_served:
  assumes "in_step (cn, s, seen)" and "max_frame (ce_codec v) < 2 ^ 32" and "reqs \<noteq> []" and "length reqs \<le> FLUSH_CHUNK"
    and "\<forall>r \<in> set reqs. request_fits v r" and "\<forall>r \<in> set rs. response_fits v r"
    and "handle_ops d (env (cn_frames cn)) (cn_authed cn) reqs s = (rs, authed', s')"
  shows "\<exists>cn' seen'. flush_once (served_network d env v piece now) v st [] reqs (cn, s, seen) = ([Flushed reqs], Some rs, [], (cn', s', seen')) \<and>
    in_step (cn', s', seen') \<and> cn_authed cn' = authed' \<and> cn_frames cn' = Suc (cn_frames cn)"
proof -
  have rs: "length rs = length reqs" using handle_each_length [of "replicate (length reqs) (env (cn_frames cn))" reqs d "cn_authed cn" s] assms(7)
    by (simp add: handle_each_replicate)
  then have "rs \<noteq> []" using assms(3) by auto
  have "\<forall>r \<in> set reqs. fits v (length (w_request (ce_chrono v) r))" using assms(5) by (simp add: request_fits_def)
  then obtain f where f: "flush_frame v reqs = Ok f" by (rule message_fits [OF assms(3,4)])
  have "length rs \<le> FLUSH_CHUNK" "\<forall>r \<in> set rs. fits v (length (w_response (ce_chrono v) r))"
    using assms(4,6) rs by (simp_all add: response_fits_def)
  then obtain g where g: "encode_answer (ce_chrono v) (ce_codec v) (flush_answer reqs rs) = Ok g"
    by (rule answer_fits [OF \<open>rs \<noteq> []\<close>, where reqs = reqs]) (simp_all add: rs)
  have wire: "incoming_wire (ce_chrono v) (flush_message reqs)" "\<not> asks_stream (flush_message reqs)"
    using assms(3-5) by (cases reqs; auto simp: flush_message_def request_fits_def FLUSH_CHUNK_def)+
  let ?cn = "cn \<lparr> cn_frames := Suc (cn_frames cn), cn_authed := authed', cn_out := cn_out cn @ g \<rparr>"
  have "serve_chunk d env (ce_chrono v) (ce_codec v) f (cn, s) = (?cn, s')"
    using assms(1,2) f by (intro serve_frame [where env = env and cn = cn, OF _ _ _ wire _ answer_to_flush [OF assms(7)] g]) (simp_all add: in_step_def flush_frame_message)
  then have w: "nw_write (served_network d env v piece now) st f (cn, s, seen) = (Inr (), (?cn, s', seen))"
    by (simp add: served_network_def)
  have "decode_reply v (length reqs) (answer_payload (ce_chrono v) (flush_answer reqs rs)) = Some rs"
    using decode_reply_answer [OF rs] assms(4,6) by (simp add: FLUSH_CHUNK_def response_fits_def)
  then have "read_reply (served_network d env v piece now) v st (length reqs) [] (?cn, s', seen) =
      (Some rs, [], (?cn, s', length (cn_out cn) + length g))"
    using read_answer [OF g [unfolded encode_answer_frame] assms(2), of ?cn "cn_out cn" 0] assms(1) by (simp add: in_step_def)
  with w f assms(1) show ?thesis by (auto simp: flush_once_def in_step_def)
qed

lemma flush_pending_served:
  assumes "in_step (cn, s, seen)" and "max_frame (ce_codec v) < 2 ^ 32" and "ps \<noteq> []" and "length ps \<le> FLUSH_CHUNK"
    and "\<forall>p \<in> set ps. request_fits v (pd_req p) \<and> now - pd_enqueued p < ce_timeout v" and "\<forall>r \<in> set rs. response_fits v r"
    and "handle_ops d (env (cn_frames cn)) (cn_authed cn) (map pd_req ps) s = (rs, authed', s')" and "wk_buf wk = []"
  shows "\<exists>ev cn' seen'. flush_pending (served_network d env v piece now) v ps wk (cn, s, seen) = (ev, True, wk, (cn', s', seen')) \<and>
    replies ev = zip (map pd_reply ps) (map Ok rs) \<and> length rs = length ps \<and> sent ev = map pd_req ps \<and>
    in_step (cn', s', seen') \<and> cn_authed cn' = authed' \<and> cn_frames cn' = Suc (cn_frames cn)"
proof -
  obtain cn' seen' where f: "flush_once (served_network d env v piece now) v (wk_stream wk) [] (map pd_req ps) (cn, s, seen) =
      ([Flushed (map pd_req ps)], Some rs, [], (cn', s', seen'))"
    "in_step (cn', s', seen')" "cn_authed cn' = authed'" "cn_frames cn' = Suc (cn_frames cn)"
    using flush_once_served [OF assms(1,2), of "map pd_req ps" rs d env authed' s' piece now "wk_stream wk"] assms(3-7) by auto
  have "filter (\<lambda>p. \<not> ce_timeout v \<le> now - pd_enqueued p) ps = ps" "filter (\<lambda>p. ce_timeout v \<le> now - pd_enqueued p) ps = []"
    using assms(5) by (auto simp: filter_id_conv filter_empty_conv not_le)
  moreover have "nw_now (served_network d env v piece now) w = now" for w by (simp add: served_network_def)
  ultimately have "flush_pending (served_network d env v piece now) v ps wk (cn, s, seen) =
      ([Flushed (map pd_req ps)] @ reply_each ps rs, True, wk, (cn', s', seen'))"
    using assms(3,8) f(1) by (cases wk) (simp add: flush_pending_def flush_fresh_def Let_def reply_all_def)
  moreover have "map (\<lambda>(p, r). (pd_reply p, Ok r :: reply)) (zip ps rs) = zip (map pd_reply ps) (map Ok rs)"
    by (simp add: zip_map_map)
  ultimately show ?thesis using f(2-4) flush_once_length [OF f(1)] by (metis events_simps(2,3,5,6) append_Nil append_Nil2 length_map reply_each_simps)
qed

section \<open>The whole queue\<close>

text \<open>The frames that a queue is cut into, and what the requests of each frame read from outside.\<close>

function run_sizes :: "cmd list \<Rightarrow> nat list" where
  "run_sizes cmds = (if cmds = [] then [] else length (next_run cmds) # run_sizes (drop (length (next_run cmds)) cmds))"
  by pat_completeness auto
termination
  by (relation "measure length") (auto simp: next_run_nonempty)

declare run_sizes.simps [simp del]

function worker_sizes :: "cmd list \<Rightarrow> nat list" where
  "worker_sizes queue =
     (if queue = [] then [] else run_sizes (take MAX_FLUSH_OPS queue) @ worker_sizes (drop MAX_FLUSH_OPS queue))"
  by pat_completeness auto
termination
  by (relation "measure length") (auto simp: MAX_FLUSH_OPS_def)

declare worker_sizes.simps [simp del]

fun frame_envs :: "(nat \<Rightarrow> request_env) \<Rightarrow> nat \<Rightarrow> nat list \<Rightarrow> request_env list" where
  "frame_envs env n [] = []"
| "frame_envs env n (k # ks) = replicate k (env n) @ frame_envs env (Suc n) ks"

lemma frame_envs_append: "frame_envs env n (ks @ ls) = frame_envs env n ks @ frame_envs env (n + length ks) ls"
  by (induction ks arbitrary: n) simp_all

lemma length_frame_envs: "length (frame_envs env n ks) = sum_list ks"
  by (induction ks arbitrary: n) simp_all

lemma run_sizes_sum: "sum_list (run_sizes cmds) = length cmds"
proof (induction cmds rule: run_sizes.induct)
  case (1 cmds)
  show ?case
  proof (cases "cmds = []")
    case False
    then have "length (next_run cmds) + length (drop (length (next_run cmds)) cmds) = length cmds"
      using next_run_prefix by (metis length_append)
    with 1 False show ?thesis by (subst run_sizes.simps) simp
  qed (simp add: run_sizes.simps)
qed

lemma next_run_length: "length (next_run cmds) \<le> FLUSH_CHUNK"
  by (simp add: next_run_def FLUSH_CHUNK_def)

abbreviation asks :: "cmd list \<Rightarrow> request list" where
  "asks cmds \<equiv> map (\<lambda>c. pd_req (cmd_pending c)) cmds"

definition cmds_fit :: "client_env \<Rightarrow> nat \<Rightarrow> cmd list \<Rightarrow> bool" where
  "cmds_fit v now cmds \<longleftrightarrow> (\<forall>c \<in> set cmds. request_fits v (pd_req (cmd_pending c)) \<and> now - pd_enqueued (cmd_pending c) < ce_timeout v)"

lemma cmds_fit_append: "cmds_fit v now (xs @ ys) \<longleftrightarrow> cmds_fit v now xs \<and> cmds_fit v now ys"
  by (auto simp: cmds_fit_def)

lemma run_cmds_served:
  assumes "in_step (cn, s, seen)" and "max_frame (ce_codec v) < 2 ^ 32" and "cmds_fit v now cmds" and "\<forall>r \<in> set rs. response_fits v r"
    and "handle_each d (frame_envs env (cn_frames cn) (run_sizes cmds)) (cn_authed cn) (asks cmds) s = (rs, authed', s')" and "wk_buf wk = []"
  shows "\<exists>ev cn' seen'. run_cmds (served_network d env v piece now) v cmds wk (cn, s, seen) = (ev, wk, (cn', s', seen')) \<and>
    replies ev = zip (asked cmds) (map Ok rs) \<and> length rs = length cmds \<and> sent ev = asks cmds \<and>
    in_step (cn', s', seen') \<and> cn_authed cn' = authed' \<and> cn_frames cn' = cn_frames cn + length (run_sizes cmds)"
  using assms
proof (induction cmds arbitrary: cn s seen rs rule: run_sizes.induct)
  case (1 cmds)
  show ?case
  proof (cases "cmds = []")
    case True
    with "1.prems" show ?thesis by (auto simp: run_cmds.simps run_sizes.simps)
  next
    case False
    define run rest where "run = next_run cmds" and "rest = drop (length run) cmds"
    have cmds: "cmds = run @ rest" using next_run_prefix [OF False] by (simp add: run_def rest_def)
    have sizes: "run_sizes cmds = length run # run_sizes rest"
      using False by (subst run_sizes.simps) (simp add: run_def rest_def)
    obtain rs1 authed1 s1 where h1: "handle_ops d (env (cn_frames cn)) (cn_authed cn) (asks run) s = (rs1, authed1, s1)" by (metis prod_cases3)
    obtain rs2 where h2: "handle_each d (frame_envs env (Suc (cn_frames cn)) (run_sizes rest)) authed1 (asks rest) s1 = (rs2, authed', s')"
        "rs = rs1 @ rs2"
      using "1.prems"(5) h1 handle_each_replicate [of d "asks run"] unfolding sizes
      by (simp add: cmds handle_each_append case_prod_beta) (metis prod.collapse)
    have fit: "cmds_fit v now run" "cmds_fit v now rest" using "1.prems"(3) unfolding cmds cmds_fit_append by auto
    have "\<forall>p \<in> set (map cmd_pending run). request_fits v (pd_req p) \<and> now - pd_enqueued p < ce_timeout v"
      using fit(1) by (auto simp: cmds_fit_def)
    then obtain ev cn1 seen1 where f: "flush_pending (served_network d env v piece now) v (map cmd_pending run) wk (cn, s, seen) = (ev, True, wk, (cn1, s1, seen1))"
      "replies ev = zip (asked run) (map Ok rs1)" "length rs1 = length run" "sent ev = asks run"
      "in_step (cn1, s1, seen1)" "cn_authed cn1 = authed1" "cn_frames cn1 = Suc (cn_frames cn)"
      using flush_pending_served [OF "1.prems"(1,2), of "map cmd_pending run" now rs1 d env authed1 s1 wk piece]
        next_run_nonempty [OF False] next_run_length [of cmds] "1.prems"(4,6) h1 h2(2) by (auto simp: run_def comp_def)
    obtain ev' cn' seen' where g: "run_cmds (served_network d env v piece now) v rest wk (cn1, s1, seen1) = (ev', wk, (cn', s', seen'))"
      "replies ev' = zip (asked rest) (map Ok rs2)" "length rs2 = length rest" "sent ev' = asks rest"
      "in_step (cn', s', seen')" "cn_authed cn' = authed'" "cn_frames cn' = cn_frames cn1 + length (run_sizes rest)"
      using "1.IH" [OF False, folded run_def, folded rest_def, OF f(5) "1.prems"(2) fit(2), of rs2] h2 f(6,7) "1.prems"(4,6) by auto
    have "run_cmds (served_network d env v piece now) v cmds wk (cn, s, seen) = (ev @ ev', wk, (cn', s', seen'))"
      using False f(1) g(1) by (subst run_cmds.simps) (simp add: run_def [symmetric] rest_def [symmetric])
    with f(2-4,7) g(2-7) h2(2) sizes show ?thesis by (simp add: cmds zip_append)
  qed
qed

text \<open>
  C6: Batching is invisible: against a live connection of the server, with requests and responses
  within a sixteenth of a frame and none waiting beyond the timeout, the callers of the client get,
  whatever frames the worker packs the queue into and however the answers are cut on the way back,
  exactly the responses that the server gives when it handles the requests one by one in the order
  of the queue; the server ends in the state that leaves, and every request was sent once.
\<close>

theorem batching_invisible:
  assumes "in_step (cn, s, seen)" and "max_frame (ce_codec v) < 2 ^ 32" and "cmds_fit v now queue"
    and "\<not> wk_dead wk" and "wk_buf wk = []"
    and "handle_each d (frame_envs env (cn_frames cn) (worker_sizes queue)) (cn_authed cn)
           (map (\<lambda>c. pd_req (cmd_pending c)) queue) s = (rs, authed', s')"
    and "\<forall>r \<in> set rs. response_fits v r"
  shows "\<exists>ev cn' seen'. worker_loop (served_network d env v piece now) v queue wk (cn, s, seen) = (ev, wk, (cn', s', seen')) \<and>
    replies ev = zip (map (\<lambda>c. pd_reply (cmd_pending c)) queue) (map Ok rs) \<and> length rs = length queue \<and>
    sent ev = map (\<lambda>c. pd_req (cmd_pending c)) queue \<and> in_step (cn', s', seen') \<and> cn_authed cn' = authed'"
  using assms(1,3,6,7)
proof (induction queue arbitrary: cn s seen rs rule: worker_sizes.induct)
  case (1 queue)
  show ?case
  proof (cases queue)
    case Nil
    with "1.prems" show ?thesis by (simp add: worker_sizes.simps)
  next
    case (Cons first others)
    define now_cmds later where "now_cmds = take MAX_FLUSH_OPS queue" and "later = drop MAX_FLUSH_OPS queue"
    have queue: "queue = now_cmds @ later" by (simp add: now_cmds_def later_def)
    have sizes: "worker_sizes queue = run_sizes now_cmds @ worker_sizes later"
      using Cons by (subst worker_sizes.simps) (simp add: now_cmds_def later_def)
    obtain rs1 authed1 s1 where h1: "handle_each d (frame_envs env (cn_frames cn) (run_sizes now_cmds)) (cn_authed cn) (asks now_cmds) s = (rs1, authed1, s1)"
      by (metis prod_cases3)
    obtain rs2 where h2: "handle_each d (frame_envs env (cn_frames cn + length (run_sizes now_cmds)) (worker_sizes later)) authed1 (asks later) s1 = (rs2, authed', s')"
        "rs = rs1 @ rs2"
      using "1.prems"(3) h1 unfolding sizes
      by (simp add: queue frame_envs_append handle_each_append length_frame_envs run_sizes_sum case_prod_beta) (metis prod.collapse)
    have fit: "cmds_fit v now now_cmds" "cmds_fit v now later" using "1.prems"(2) unfolding queue cmds_fit_append by auto
    obtain ev cn1 seen1 where f: "run_cmds (served_network d env v piece now) v now_cmds wk (cn, s, seen) = (ev, wk, (cn1, s1, seen1))"
      "replies ev = zip (asked now_cmds) (map Ok rs1)" "length rs1 = length now_cmds" "sent ev = asks now_cmds"
      "in_step (cn1, s1, seen1)" "cn_authed cn1 = authed1" "cn_frames cn1 = cn_frames cn + length (run_sizes now_cmds)"
      using run_cmds_served [OF "1.prems"(1) assms(2) fit(1) _ h1 assms(5), of piece] "1.prems"(4) h2(2) by auto
    obtain ev' cn' seen' where g: "worker_loop (served_network d env v piece now) v later wk (cn1, s1, seen1) = (ev', wk, (cn', s', seen'))"
      "replies ev' = zip (asked later) (map Ok rs2)" "length rs2 = length later" "sent ev' = asks later"
      "in_step (cn', s', seen')" "cn_authed cn' = authed'"
      using "1.IH" [folded later_def, OF _ f(5) fit(2), of rs2] Cons h2 f(6,7) "1.prems"(4) by auto
    have "worker_loop (served_network d env v piece now) v queue wk (cn, s, seen) = (ev @ ev', wk, (cn', s', seen'))"
      using f(1) g(1) assms(4) unfolding now_cmds_def later_def Cons by (simp add: revive_def)
    with f(2-4) g(2-6) h2(2) show ?thesis by (simp add: queue zip_append)
  qed
qed

section \<open>Example\<close>

definition wide_env :: client_env where
  "wide_env = demo_client_env \<lparr> ce_codec := \<lparr> max_frame = 65536 \<rparr> \<rparr>"

definition pair_client :: client where
  "pair_client = fold run_call [((7, 0), CallInsert ''t'' [(''k'', VInt64 1)]), ((8, 0), CallGet ''t'' 1)] (client_new ''u'')"

lemma pair_queue:
  "cl_queue pair_client =
     [CmdBatch \<lparr> pd_req = \<lparr> rq_id = 1, rq_op = OpInsert, rq_table = ''t'', rq_row_id = None,
         rq_values = Some [(''k'', VInt64 1), (''_idem'', VString ''u-1'')] \<rparr>, pd_reply = 7, pd_retry_safe = True, pd_enqueued = 0 \<rparr>,
      CmdBatch \<lparr> pd_req = \<lparr> rq_id = 2, rq_op = OpGet, rq_table = ''t'', rq_row_id = Some 1, rq_values = None \<rparr>,
         pd_reply = 8, pd_retry_safe = True, pd_enqueued = 0 \<rparr>]"
  by code_simp

definition pair_answers :: "response list" where
  "pair_answers = [response_ok 1 [\<lparr> rv_id = 1, rv_values = [(''k'', VInt64 1)] \<rparr>], response_ok 2 [\<lparr> rv_id = 1, rv_values = [(''k'', VInt64 1)] \<rparr>]]"

theorem batching_invisible_witness:
  "replies (fst (worker_loop (served_network demo_dispatch_env (\<lambda>_. demo_request_env) wide_env (\<lambda>n. n mod 3) 0) wide_env
     (cl_queue pair_client) (worker_new 0) (connection_new, demo_call_server [], 0))) = zip [7, 8] (map Ok pair_answers)"
proof -
  have h: "fst (handle_each demo_dispatch_env (frame_envs (\<lambda>_. demo_request_env) 0 (worker_sizes (cl_queue pair_client))) None
      (asks (cl_queue pair_client)) (demo_call_server [])) = pair_answers"
    by code_simp
  have fit: "cmds_fit wide_env 0 (cl_queue pair_client)"
    by (simp add: cmds_fit_def pair_queue request_fits_def fits_def FLUSH_CHUNK_def wide_env_def demo_client_env_def request_wire_def
        map_wire_def str_wire_def str_ok_def as_bytes_def byte_of_char_def w_request_def w_map_def w_str_def w_len_def)
  have ok: "\<forall>r \<in> set pair_answers. response_fits wide_env r"
    by (simp add: pair_answers_def response_fits_def response_ok_def response_wire_def fits_def FLUSH_CHUNK_def wide_env_def demo_client_env_def
        map_wire_def str_wire_def str_ok_def as_bytes_def byte_of_char_def w_response_def w_row_view_def w_error_def w_map_def w_str_def w_len_def)
  have "in_step (connection_new, demo_call_server [], 0)" by (simp add: in_step_def connection_new_def)
  note served = batching_invisible [OF this _ fit, of "worker_new 0" demo_dispatch_env "\<lambda>_. demo_request_env" pair_answers _ _ "\<lambda>n. n mod 3"]
  obtain authed' s' where "handle_each demo_dispatch_env (frame_envs (\<lambda>_. demo_request_env) 0 (worker_sizes (cl_queue pair_client))) None
      (asks (cl_queue pair_client)) (demo_call_server []) = (pair_answers, authed', s')"
    using h by (metis prod.collapse)
  with served [of authed' s'] ok show ?thesis
    by (auto simp: wide_env_def connection_new_def worker_new_def pair_queue)
qed

end
