(* ===== verification/Http_Listener.thy ===== *)
theory Http_Listener
  imports Http_Bridge
begin

text \<open>
  The HTTP listener (\<open>cors_origin\<close> to \<open>sse_stream\<close> of \<open>blitz-server/src/transport.rs\<close>): reading a
  request from a connection, routing it, the answers, and the stream of changes. A connection is
  the list of what its reads return; its end stands for the end of the input and for a failed
  read alike. Lossy decoding, trimming and splitting at Unicode white space are parameters, and so
  is the text of \<open>/metrics\<close>, whose counters are not part of the state of the server here. Two
  fields of the configuration that only the listener reads are in its own record.
\<close>

section \<open>Heads\<close>

record http_listener =
  hl_http :: http_env
  hl_dispatch :: dispatch_env
  hl_request :: "nat \<Rightarrow> request_env"
  hl_lossy :: "u8 list \<Rightarrow> string"
  hl_words :: "string \<Rightarrow> string list"
  hl_trim :: "string \<Rightarrow> string"
  hl_metrics :: "server \<Rightarrow> string"
  hl_started :: bool
  hl_cors_origins :: "string list"
  hl_max_message_size :: nat

definition ascii_lower :: "string \<Rightarrow> string" where
  "ascii_lower s = map to_ascii_lowercase s"

definition cors_origin :: "string list \<Rightarrow> string option \<Rightarrow> string option" where
  "cors_origin origins origin =
     (if origins = [] then None
      else
        (case origin of
           None \<Rightarrow> None
         | Some o' \<Rightarrow>
             if list_ex (\<lambda>x. x = ''*'' \<or> x = o') origins
             then (if list_ex (\<lambda>x. x = ''*'') origins then Some ''*'' else Some o')
             else None))"

definition reason :: "nat \<Rightarrow> string" where
  "reason code =
     (if code = 200 then ''OK'' else if code = 204 then ''No Content'' else if code = 400 then ''Bad Request''
      else if code = 401 then ''Unauthorized'' else if code = 403 then ''Forbidden'' else if code = 404 then ''Not Found''
      else if code = 405 then ''Method Not Allowed'' else if code = 413 then ''Too Large''
      else if code = 503 then ''Service Unavailable'' else ''OK'')"

fun find_headers_end :: "u8 list \<Rightarrow> nat option" where
  "find_headers_end [] = None"
| "find_headers_end (b # bs) =
     (if take 4 (b # bs) = [13, 10, 13, 10] then Some 4 else map_option Suc (find_headers_end bs))"

fun read_head :: "u8 list list \<Rightarrow> u8 list \<Rightarrow> (u8 list \<times> nat \<times> u8 list list) option" where
  "read_head reads buf =
     (case find_headers_end buf of
        Some pos \<Rightarrow> Some (buf, pos, reads)
      | None \<Rightarrow>
          if 16384 < length buf then None
          else
            (case reads of
               [] \<Rightarrow> None
             | bytes # reads \<Rightarrow> if bytes = [] then None else read_head reads (buf @ bytes)))"

declare read_head.simps [simp del]

record http_head =
  hh_method :: string
  hh_target :: string
  hh_version :: string
  hh_headers :: "(string \<times> string) list"

definition strip_cr :: "string \<Rightarrow> string" where
  "strip_cr s = (if s \<noteq> [] \<and> last s = CHR 0x0D then butlast s else s)"

definition str_lines :: "string \<Rightarrow> string list" where
  "str_lines s = (let ls = split_on (CHR 0x0A) s in map strip_cr (if last ls = [] then butlast ls else ls))"

definition split_once :: "char \<Rightarrow> string \<Rightarrow> (string \<times> string) option" where
  "split_once c s = (if c \<in> set s then Some (takeWhile (\<lambda>x. x \<noteq> c) s, tl (dropWhile (\<lambda>x. x \<noteq> c) s)) else None)"

definition trim_cr :: "string \<Rightarrow> string" where
  "trim_cr s = rev (dropWhile (\<lambda>c. c = CHR 0x0D) (rev s))"

definition parse_header :: "http_listener \<Rightarrow> string \<Rightarrow> (string \<times> string) option" where
  "parse_header l line =
     map_option (\<lambda>(k, v). (ascii_lower (hl_trim l k), hl_trim l v)) (split_once (CHR '':'') (trim_cr line))"

definition nth_or :: "'a list \<Rightarrow> nat \<Rightarrow> 'a \<Rightarrow> 'a" where
  "nth_or xs i d = (if i < length xs then xs ! i else d)"

definition parse_head :: "http_listener \<Rightarrow> string \<Rightarrow> http_head" where
  "parse_head l t =
     (let ls = str_lines t; parts = hl_words l (case ls of [] \<Rightarrow> ''/'' | x # _ \<Rightarrow> x) in
      \<lparr> hh_method = nth_or parts 0 [], hh_target = nth_or parts 1 ''/'', hh_version = nth_or parts 2 ''HTTP/1.0'',
        hh_headers = List.map_filter (parse_header l) (tl ls) \<rparr>)"

definition header :: "http_head \<Rightarrow> string \<Rightarrow> string option" where
  "header hq name = map_option snd (find (\<lambda>(k, _). k = name) (hh_headers hq))"

definition content_length :: "http_head \<Rightarrow> nat" where
  "content_length hq =
     (case Option.bind (header hq ''content-length'') (parse_unsigned 0x10000000000000000) of Some n \<Rightarrow> nat n | None \<Rightarrow> 0)"

section \<open>Bodies\<close>

datatype body_result = BodyRead "u8 list" "u8 list list" | BodyGone | BodyTooLarge

fun read_body :: "nat \<Rightarrow> nat \<Rightarrow> u8 list list \<Rightarrow> u8 list \<Rightarrow> body_result" where
  "read_body max_body need reads body =
     (if need \<le> length body then BodyRead (take need body) reads
      else
        (case reads of
           [] \<Rightarrow> BodyGone
         | bytes # reads \<Rightarrow>
             if bytes = [] then BodyGone
             else if max_body < length (body @ bytes) then BodyTooLarge
             else read_body max_body need reads (body @ bytes)))"

declare read_body.simps [simp del]

section \<open>Answers\<close>

definition crlf :: string where "crlf = [CHR 0x0D, CHR 0x0A]"

definition respond :: "nat \<Rightarrow> string \<Rightarrow> string \<Rightarrow> string \<Rightarrow> string option \<Rightarrow> u8 list" where
  "respond code ctype body conn cors =
     as_bytes (''HTTP/1.1 '' @ nat_text code @ '' '' @ reason code @ crlf @ ''content-type: '' @ ctype @ crlf @
       ''content-length: '' @ nat_text (length body) @ crlf @ ''connection: '' @ conn @ crlf @
       (case cors of Some o' \<Rightarrow> ''access-control-allow-origin: '' @ o' @ crlf | None \<Rightarrow> []) @ crlf) @
     as_bytes body"

definition preflight :: "string \<Rightarrow> string \<Rightarrow> string option \<Rightarrow> u8 list" where
  "preflight version conn cors =
     as_bytes (version @ '' 204 '' @ reason 204 @ crlf @
       (case cors of
          Some o' \<Rightarrow> ''access-control-allow-origin: '' @ o' @ crlf @
            ''access-control-allow-methods: GET, POST, OPTIONS'' @ crlf @
            ''access-control-allow-headers: authorization, content-type'' @ crlf @ ''access-control-max-age: 86400'' @ crlf
        | None \<Rightarrow> []) @
       ''content-length: 0'' @ crlf @ ''connection: '' @ conn @ crlf @ crlf)"

definition hex_val :: "u8 \<Rightarrow> u8 option" where
  "hex_val c =
     (if 0x30 \<le> c \<and> c \<le> 0x39 then Some (c - 0x30)
      else if 0x61 \<le> c \<and> c \<le> 0x66 then Some (c - 0x61 + 10)
      else if 0x41 \<le> c \<and> c \<le> 0x46 then Some (c - 0x41 + 10)
      else None)"

fun percent_bytes :: "u8 list \<Rightarrow> u8 list" where
  "percent_bytes [] = []"
| "percent_bytes (b # bs) =
     (if b = 0x2B then 0x20 # percent_bytes bs
      else if b = 0x25 then
        (case bs of
           x # y # rest \<Rightarrow>
             (case (hex_val x, hex_val y) of
                (Some h, Some d) \<Rightarrow> (push_bit 4 h OR d) # percent_bytes rest
              | _ \<Rightarrow> b # percent_bytes bs)
         | _ \<Rightarrow> b # percent_bytes bs)
      else b # percent_bytes bs)"

definition percent_decode :: "http_listener \<Rightarrow> string \<Rightarrow> string" where
  "percent_decode l s = hl_lossy l (percent_bytes (as_bytes s))"

definition split_target :: "string \<Rightarrow> string \<times> string" where
  "split_target t = (case split_once (CHR ''?'') t of Some pq \<Rightarrow> pq | None \<Rightarrow> (t, []))"

definition query_param :: "http_listener \<Rightarrow> string \<Rightarrow> string \<Rightarrow> string option" where
  "query_param l query name =
     (case find (\<lambda>kv. fst (case split_once (CHR ''='') kv of Some p \<Rightarrow> p | None \<Rightarrow> (kv, [])) = name) (split_on (CHR ''&'') query) of
        Some kv \<Rightarrow> Some (percent_decode l (case split_once (CHR ''='') kv of Some p \<Rightarrow> snd p | None \<Rightarrow> []))
      | None \<Rightarrow> None)"

definition bearer :: "http_listener \<Rightarrow> http_head \<Rightarrow> string option" where
  "bearer l hq =
     (case header hq ''authorization'' of
        None \<Rightarrow> None
      | Some v \<Rightarrow>
          (let v = hl_trim l v in
           if prefix ''Bearer '' v \<or> prefix ''bearer '' v then Some (hl_trim l (drop 7 v)) else None))"

definition request_identity :: "http_listener \<Rightarrow> int \<Rightarrow> http_head \<Rightarrow> string \<Rightarrow> server \<Rightarrow> identity option \<times> server" where
  "request_identity l now hq query s =
     (case (case bearer l hq of Some t \<Rightarrow> Some t | None \<Rightarrow> query_param l query ''token'') of
        Some t \<Rightarrow> resolve_token now t s
      | None \<Rightarrow> (None, s))"

definition keep_alive :: "http_head \<Rightarrow> bool" where
  "keep_alive hq =
     (let c = ascii_lower (case header hq ''connection'' of Some v \<Rightarrow> v | None \<Rightarrow> []) in
      if hh_version hq = ''HTTP/1.1'' then c \<noteq> ''close'' else c = ''keep-alive'')"

definition conn_token :: "http_head \<Rightarrow> string" where
  "conn_token hq = (if keep_alive hq then ''keep-alive'' else ''close'')"

text \<open>The routes other than the stream: status, content type and text.\<close>

definition http_route ::
  "http_listener \<Rightarrow> request_env \<Rightarrow> identity option \<Rightarrow> string \<Rightarrow> string \<Rightarrow> u8 list \<Rightarrow> server \<Rightarrow> (nat \<times> string \<times> string) \<times> server" where
  "http_route l q authed method path body s =
     (if method = ''GET'' \<and> path = ''/metrics'' then ((200, ''text/plain; version=0.0.4'', hl_metrics l s), s)
      else if method = ''GET'' \<and> path = ''/readyz'' then
        ((if hl_started l then (200, ''text/plain'', ''ok'' @ [CHR 0x0A]) else (503, ''text/plain'', ''starting'' @ [CHR 0x0A])), s)
      else if method = ''POST'' \<and> path = ''/v1/op'' then
        (let ((c, b), s) = handle_op (hl_http l) (hl_dispatch l) q authed body s in ((c, ''application/json'', b), s))
      else if method = ''POST'' \<and> path = ''/v1/batch'' then
        (let ((c, b), s) = handle_batch (hl_http l) (hl_dispatch l) q authed body s in ((c, ''application/json'', b), s))
      else if method \<noteq> ''GET'' \<and> (path = ''/v1/op'' \<or> path = ''/v1/batch'') then
        ((405, ''text/plain'', ''method not allowed (use POST)'' @ [CHR 0x0A]), s)
      else ((404, ''text/plain'', ''not found'' @ [CHR 0x0A]), s))"

text \<open>What follows a request: the next one, the end, or a stream of changes.\<close>

datatype http_next = HttpAgain | HttpDone | HttpStream string "string option" "string option"

definition open_sse :: "http_listener \<Rightarrow> identity option \<Rightarrow> string \<Rightarrow> string option \<Rightarrow> server \<Rightarrow> u8 list \<times> http_next" where
  "open_sse l authed query cors s =
     (let table = (case query_param l query ''table'' of Some t \<Rightarrow> t | None \<Rightarrow> []);
          refuse = (\<lambda>code m. (respond code ''text/plain'' (m @ [CHR 0x0A]) ''close'' cors, HttpDone)) in
      if table = [] then refuse 400 ''missing ?table=''
      else
        (case authorize s authed OpSubscribe table of
           Inl e \<Rightarrow> refuse (if prefix ''unauthorized'' e then 401 else 403) e
         | Inr _ \<Rightarrow>
             if cf_require_auth (sv_config s) \<and> owner_column s table \<noteq> None
             then refuse 403 ''push streams disabled on row-owner tables (poll instead)''
             else ([], HttpStream table (query_param l query ''since'') cors)))"

definition answer_request :: "http_listener \<Rightarrow> request_env \<Rightarrow> http_head \<Rightarrow> u8 list \<Rightarrow> server \<Rightarrow> u8 list \<times> http_next \<times> server" where
  "answer_request l q hq body s =
     (let cors = cors_origin (hl_cors_origins l) (header hq ''origin'');
          after = (if keep_alive hq then HttpAgain else HttpDone) in
      if hh_method hq = ''OPTIONS'' then (preflight (hh_version hq) (conn_token hq) cors, after, s)
      else
        (let (path, query) = split_target (hh_target hq);
             (authed, s) = request_identity l (qe_now_millis q) hq query s in
         if hh_method hq = ''GET'' \<and> path = ''/v1/stream''
         then (let (out, nxt) = open_sse l authed query cors s in (out, nxt, s))
         else
           (let ((code, ctype, b), s) = http_route l q authed (hh_method hq) path body s in
            (respond code ctype b (conn_token hq) cors, after, s))))"

section \<open>The connection\<close>

text \<open>One request from the reads, or the end; bytes behind the body that were read with it are dropped.\<close>

definition http_request ::
  "http_listener \<Rightarrow> request_env \<Rightarrow> u8 list list \<Rightarrow> server \<Rightarrow> u8 list \<times> http_next \<times> u8 list list \<times> server" where
  "http_request l q reads s =
     (case read_head reads [] of
        None \<Rightarrow> ([], HttpDone, [], s)
      | Some (buf, pos, reads) \<Rightarrow>
          (let hq = parse_head l (hl_lossy l (take pos buf)); max_body = max (hl_max_message_size l) 1024;
               too_large = (respond 413 ''text/plain'' (''too large'' @ [CHR 0x0A]) ''close'' None, HttpDone, [], s) in
           if max_body < content_length hq then too_large
           else
             (case read_body max_body (content_length hq) reads (drop pos buf) of
                BodyGone \<Rightarrow> ([], HttpDone, [], s)
              | BodyTooLarge \<Rightarrow> too_large
              | BodyRead body reads \<Rightarrow>
                  (let (out, nxt, s) = answer_request l q hq body s in (out, nxt, reads, s)))))"

fun http_loop ::
  "http_listener \<Rightarrow> nat \<Rightarrow> nat \<Rightarrow> u8 list list \<Rightarrow> server \<Rightarrow> u8 list \<times> http_next \<times> server" where
  "http_loop l 0 n reads s = ([], HttpDone, s)"
| "http_loop l (Suc k) n reads s =
     (let (out, nxt, reads, s) = http_request l (hl_request l n) reads s in
      if nxt = HttpAgain then (let (out', nxt, s) = http_loop l k (Suc n) reads s in (out @ out', nxt, s))
      else (out, nxt, s))"

definition http_connection :: "http_listener \<Rightarrow> u8 list list \<Rightarrow> server \<Rightarrow> u8 list \<times> http_next \<times> server" where
  "http_connection l reads s = http_loop l 10000 0 reads s"

section \<open>The stream of changes\<close>

definition sse_head :: "string option \<Rightarrow> u8 list" where
  "sse_head cors =
     as_bytes (''HTTP/1.1 200 OK'' @ crlf @ ''content-type: text/event-stream'' @ crlf @ ''cache-control: no-cache'' @ crlf @
       ''connection: keep-alive'' @ crlf @ (case cors of Some o' \<Rightarrow> ''access-control-allow-origin: '' @ o' @ crlf | None \<Rightarrow> []) @ crlf @
       '': connected'' @ [CHR 0x0A, CHR 0x0A])"

definition sse_frame :: "http_env \<Rightarrow> change_record \<Rightarrow> u8 list" where
  "sse_frame h r =
     as_bytes (''data: {\"table\":'' @ ht_to_text h (JString (cr_table r)) @ '',\"op\":'' @ ht_to_text h (JString (cr_op r)) @
       '',\"row_id\":'' @ u64_text (cr_row_id r) @ '',\"ts\":'' @ u64_text (cr_ts_micros r) @ ''}'' @ [CHR 0x0A, CHR 0x0A])"

text \<open>One poll: the records, their frames, and the position from which the next poll reads.\<close>

definition sse_poll :: "http_env \<Rightarrow> string \<Rightarrow> u64 \<Rightarrow> server \<Rightarrow> u8 list \<times> u64 \<times> server" where
  "sse_poll h table since s =
     (let (recs, s) = read_changes table since 100 s in
      (concat (map (sse_frame h) recs), fold (\<lambda>r t. max t (cr_ts_micros r)) recs since, s))"

fun sse_polls :: "http_env \<Rightarrow> string \<Rightarrow> u64 \<Rightarrow> (server \<Rightarrow> server) list \<Rightarrow> server \<Rightarrow> u8 list \<times> server" where
  "sse_polls h table since [] s = ([], s)"
| "sse_polls h table since (meanwhile # ms) s =
     (let (out, since, s) = sse_poll h table since s; (out', s) = sse_polls h table since ms (meanwhile s) in (out @ out', s))"

definition sse_stream ::
  "http_env \<Rightarrow> string \<Rightarrow> string option \<Rightarrow> string option \<Rightarrow> (server \<Rightarrow> server) list \<Rightarrow> server \<Rightarrow> u8 list \<times> server" where
  "sse_stream h table since cors ms s =
     (let start = (case Option.bind since parse_u64 of Some t \<Rightarrow> t | None \<Rightarrow> 0);
          (out, s) = sse_polls h table start ms s in (sse_head cors @ out, s))"

section \<open>However a request arrives\<close>

lemma find_headers_end_bounds: "find_headers_end bs = Some pos \<Longrightarrow> 4 \<le> pos \<and> pos \<le> length bs"
proof (induction bs arbitrary: pos)
  case (Cons b bs)
  show ?case
  proof (cases "take 4 (b # bs) = [13, 10, 13, 10]")
    case True
    from arg_cong [where f = length, OF this] Cons.prems True show ?thesis by (simp split: if_splits)
  next
    case False
    with Cons show ?thesis by auto
  qed
qed simp

lemma find_headers_end_append: "find_headers_end bs = Some pos \<Longrightarrow> find_headers_end (bs @ cs) = Some pos"
proof (induction bs arbitrary: pos)
  case (Cons b bs)
  have "4 \<le> length (b # bs)" using find_headers_end_bounds [OF Cons.prems] by linarith
  then have "take 4 ((b # bs) @ cs) = take 4 (b # bs)" by simp
  with Cons show ?case by (auto split: if_splits)
qed simp

text \<open>A head that ends at its first blank line is read whole, whatever the reads and what follows it.\<close>

lemma read_head_reads:
  assumes "find_headers_end head = Some (length head)" and "length head \<le> 16384"
    and "\<forall>r \<in> set reads. r \<noteq> []" and "buf @ concat reads = head @ body" and "find_headers_end buf = None \<or> length head \<le> length buf"
  shows "\<exists>got later. read_head (reads @ rest) buf = Some (head @ got, length head, later @ rest) \<and>
    got @ concat later = body \<and> set later \<subseteq> set reads"
  using assms(3-5)
proof (induction reads arbitrary: buf)
  case Nil
  then show ?case using find_headers_end_append [OF assms(1)] by (subst read_head.simps) auto
next
  case (Cons r reads)
  show ?case
  proof (cases "length head \<le> length buf")
    case True
    then obtain got where "buf = head @ got" using Cons.prems(2) by (metis append_eq_append_conv_if append_take_drop_id)
    with Cons.prems(2) find_headers_end_append [OF assms(1)] show ?thesis by (subst read_head.simps) (auto intro!: exI [of _ "r # reads"])
  next
    case False
    then have none: "find_headers_end buf = None" using Cons.prems(3) by simp
    have "find_headers_end (buf @ r) = None \<or> length head \<le> length (buf @ r)"
    proof (cases "find_headers_end (buf @ r)")
      case (Some pos)
      then have "find_headers_end (head @ body) = Some pos"
        using find_headers_end_append [OF Some, of "concat reads"] Cons.prems(2) by simp
      with find_headers_end_append [OF assms(1)] have "pos = length head" by simp
      with find_headers_end_bounds [OF Some] show ?thesis by simp
    qed simp
    from Cons.IH [OF _ _ this] Cons.prems(1,2) obtain got later where
      IH: "read_head (reads @ rest) (buf @ r) = Some (head @ got, length head, later @ rest)" "got @ concat later = body" "set later \<subseteq> set reads"
      by auto
    from IH(1) none False assms(2) Cons.prems(1) have "read_head ((r # reads) @ rest) buf = Some (head @ got, length head, later @ rest)"
      by (subst read_head.simps) simp
    with IH(2,3) show ?thesis by auto
  qed
qed

lemma read_body_reads:
  assumes "length body \<le> max_body" and "\<forall>r \<in> set reads. r \<noteq> []" and "got @ concat reads = body"
  shows "read_body max_body (length body) (reads @ rest) got = BodyRead body rest"
  using assms(2,3)
proof (induction reads arbitrary: got)
  case Nil
  then show ?case by (subst read_body.simps) simp
next
  case (Cons r reads)
  then have "length got < length body" "length (got @ r) \<le> length body" by auto
  with Cons assms(1) show ?case by (subst read_body.simps) auto
qed

text \<open>
  Requests that wait for the answer before the next are answered whatever pieces they arrive in:
  the bytes of a request, cut anywhere, have the effect of answering its head and its body.
\<close>

theorem http_request_reassembled:
  assumes "find_headers_end head = Some (length head)" and "length head \<le> 16384" and "hq = parse_head l (hl_lossy l head)"
    and "content_length hq = length body" and "length body \<le> max (hl_max_message_size l) 1024"
    and "concat reads = head @ body" and "\<forall>r \<in> set reads. r \<noteq> []"
  shows "http_request l q (reads @ rest) s = (let (out, nxt, s') = answer_request l q hq body s in (out, nxt, rest, s'))"
proof -
  obtain got later where h: "read_head (reads @ rest) [] = Some (head @ got, length head, later @ rest)"
    "got @ concat later = body" "set later \<subseteq> set reads"
    using read_head_reads [OF assms(1,2,7), of "[]" body rest] assms(6) by auto
  have "read_body (max (hl_max_message_size l) 1024) (length body) (later @ rest) got = BodyRead body rest"
    using assms(5,7) h(2,3) by (intro read_body_reads) auto
  with h(1) assms(3-5) show ?thesis by (auto simp: http_request_def Let_def)
qed

text \<open>A whole connection: what each request in turn is answered with, and the state it leaves.\<close>

fun http_answers :: "http_listener \<Rightarrow> nat \<Rightarrow> (http_head \<times> u8 list) list \<Rightarrow> server \<Rightarrow> u8 list \<times> server" where
  "http_answers l n [] s = ([], s)"
| "http_answers l n ((hq, body) # rqs) s =
     (let (out, _, s) = answer_request l (hl_request l n) hq body s; (out', s) = http_answers l (Suc n) rqs s in (out @ out', s))"

definition stays_open :: "http_head \<Rightarrow> bool" where
  "stays_open hq \<longleftrightarrow> keep_alive hq \<and> \<not> (hh_method hq = ''GET'' \<and> fst (split_target (hh_target hq)) = ''/v1/stream'')"

lemma stays_open_again: "stays_open hq \<Longrightarrow> fst (snd (answer_request l q hq body s)) = HttpAgain"
  by (auto simp: answer_request_def stays_open_def Let_def split: prod.split)

definition arrives :: "http_listener \<Rightarrow> http_head \<times> u8 list \<Rightarrow> u8 list list \<Rightarrow> bool" where
  "arrives l rq reads \<longleftrightarrow>
     (\<exists>head. find_headers_end head = Some (length head) \<and> length head \<le> 16384 \<and> fst rq = parse_head l (hl_lossy l head) \<and>
        content_length (fst rq) = length (snd rq) \<and> length (snd rq) \<le> max (hl_max_message_size l) 1024 \<and>
        concat reads = head @ snd rq \<and> (\<forall>r \<in> set reads. r \<noteq> []))"

theorem http_answers_in_order:
  assumes "list_all2 (arrives l) rqs readss" and "\<forall>rq \<in> set rqs. stays_open (fst rq)"
  shows "http_loop l (length rqs + k) n (concat readss @ rest) s =
    (let (out, s) = http_answers l n rqs s; (out', nxt, s) = http_loop l k (n + length rqs) rest s in (out @ out', nxt, s))"
  using assms
proof (induction rqs readss arbitrary: n s rule: list_all2_induct)
  case Nil
  then show ?case by simp
next
  case (Cons rq rqs reads readss)
  obtain hq body where rq: "rq = (hq, body)" by fastforce
  obtain out nxt s' where a: "answer_request l (hl_request l n) hq body s = (out, nxt, s')" by (metis prod_cases3)
  have "nxt = HttpAgain" using stays_open_again [of hq l "hl_request l n" body s] Cons.prems a rq by simp
  moreover have "http_request l (hl_request l n) (reads @ concat readss @ rest) s = (out, nxt, concat readss @ rest, s')"
    using Cons.hyps(1) a rq http_request_reassembled [of _ hq l body reads "hl_request l n" "concat readss @ rest" s]
    by (auto simp: arrives_def)
  ultimately show ?case using Cons.IH [of "Suc n" s'] Cons.prems a rq by (simp add: case_prod_beta Let_def)
qed

section \<open>Examples\<close>

definition demo_words :: "string \<Rightarrow> string list" where
  "demo_words s = filter (\<lambda>w. w \<noteq> []) (split_on (CHR '' '') s)"

definition demo_listener :: http_listener where
  "demo_listener = \<lparr> hl_http = plain_http, hl_dispatch = demo_dispatch_env, hl_request = (\<lambda>_. demo_request_env),
     hl_lossy = map char_of_byte, hl_words = demo_words, hl_trim = id, hl_metrics = (\<lambda>_. []), hl_started = True,
     hl_cors_origins = [], hl_max_message_size = 0 \<rparr>"

definition demo_get :: "u8 list" where
  "demo_get = as_bytes (''GET /readyz HTTP/1.1'' @ crlf @ crlf)"

text \<open>
  The comment at the body says that a pipelined tail stays. It is dropped: of two requests in one
  read only the first is answered, in two reads both are.
\<close>

definition demo_ready :: "u8 list" where
  "demo_ready = respond 200 ''text/plain'' (''ok'' @ [CHR 0x0A]) ''keep-alive'' None"

lemma demo_get_head:
  "find_headers_end demo_get = Some (length demo_get)"
  "parse_head demo_listener (hl_lossy demo_listener demo_get) =
     \<lparr> hh_method = ''GET'', hh_target = ''/readyz'', hh_version = ''HTTP/1.1'', hh_headers = [] \<rparr>"
  by code_simp+

lemma demo_get_answered: "http_request demo_listener q ((demo_get @ tail) # reads) s = (demo_ready, HttpAgain, reads, s)"
proof -
  have "read_head ((demo_get @ tail) # reads) [] = Some (demo_get @ tail, length demo_get, reads)"
    using find_headers_end_append [OF demo_get_head(1), of tail]
    by (subst read_head.simps, subst read_head.simps) (auto simp: demo_get_def as_bytes_def)
  moreover have "answer_request demo_listener q (parse_head demo_listener (hl_lossy demo_listener demo_get)) [] s = (demo_ready, HttpAgain, s)"
    unfolding demo_get_head(2)
    by (simp add: answer_request_def keep_alive_def conn_token_def header_def ascii_lower_def cors_origin_def demo_listener_def split_target_def
        split_once_def request_identity_def bearer_def query_param_def http_route_def demo_ready_def)
  moreover have "content_length (parse_head demo_listener (hl_lossy demo_listener demo_get)) = 0"
    unfolding demo_get_head(2) by (simp add: content_length_def header_def)
  ultimately show ?thesis by (simp add: http_request_def read_body.simps)
qed

lemma pipelined_request_dropped:
  "fst (http_loop demo_listener 3 0 [demo_get @ demo_get] s) = demo_ready"
  "fst (http_loop demo_listener 3 0 [demo_get, demo_get] s) = demo_ready @ demo_ready"
  using demo_get_answered [where tail = demo_get] demo_get_answered [where tail = "[]"]
  by (simp_all add: numeral_3_eq_3 http_request_def [where reads = "[]"] read_head.simps [where reads = "[]"])

text \<open>A get of an operation's path is not found, where every other method is refused as not allowed.\<close>

lemma get_of_op_not_found:
  "fst (http_route l q authed ''GET'' ''/v1/op'' body s) = (404, ''text/plain'', ''not found'' @ [CHR 0x0A])"
  "fst (http_route l q authed ''PUT'' ''/v1/op'' body s) = (405, ''text/plain'', ''method not allowed (use POST)'' @ [CHR 0x0A])"
  by (simp_all add: http_route_def)

end
