(* ===== verification/Api_Routes.thy ===== *)
theory Api_Routes
  imports Types_Value Display
begin

text \<open>
  The API layer (\<open>blitz-api/src/handler.rs\<close> and \<open>error.rs\<close>): requests, responses, and a table of
  routes that are tried in the order of their registration. The handlers are functions.
\<close>

section \<open>Requests and responses\<close>

datatype http_method = HttpGet | HttpPost | HttpPut | HttpDelete

datatype api_error = ApiBadRequest string | ApiNotFound string | ApiUnauthorized string | ApiInternal string

fun api_error_text :: "api_error \<Rightarrow> string" where
  "api_error_text (ApiBadRequest m) = ''bad request: '' @ m"
| "api_error_text (ApiNotFound m) = ''not found: '' @ m"
| "api_error_text (ApiUnauthorized m) = ''unauthorized: '' @ m"
| "api_error_text (ApiInternal m) = ''internal error: '' @ m"

fun method_as_str :: "http_method \<Rightarrow> string" where
  "method_as_str HttpGet = ''GET''"
| "method_as_str HttpPost = ''POST''"
| "method_as_str HttpPut = ''PUT''"
| "method_as_str HttpDelete = ''DELETE''"

record api_request =
  ar_method :: http_method
  ar_path :: string
  ar_params :: "(string, val) hmap"
  ar_body :: "val option"
  ar_headers :: "(string, string) hmap"

definition request_get :: "string \<Rightarrow> api_request" where
  "request_get path = \<lparr> ar_method = HttpGet, ar_path = path, ar_params = [], ar_body = None, ar_headers = [] \<rparr>"

definition request_post :: "string \<Rightarrow> val \<Rightarrow> api_request" where
  "request_post path body = \<lparr> ar_method = HttpPost, ar_path = path, ar_params = [], ar_body = Some body, ar_headers = [] \<rparr>"

definition request_put :: "string \<Rightarrow> val \<Rightarrow> api_request" where
  "request_put path body = \<lparr> ar_method = HttpPut, ar_path = path, ar_params = [], ar_body = Some body, ar_headers = [] \<rparr>"

definition request_delete :: "string \<Rightarrow> api_request" where
  "request_delete path = \<lparr> ar_method = HttpDelete, ar_path = path, ar_params = [], ar_body = None, ar_headers = [] \<rparr>"

definition with_param :: "string \<Rightarrow> val \<Rightarrow> api_request \<Rightarrow> api_request" where
  "with_param k v r = r \<lparr> ar_params := hm_insert k v (ar_params r) \<rparr>"

definition with_header :: "string \<Rightarrow> string \<Rightarrow> api_request \<Rightarrow> api_request" where
  "with_header k v r = r \<lparr> ar_headers := hm_insert k v (ar_headers r) \<rparr>"

record api_response =
  as_status :: u16
  as_body :: "val option"
  as_error :: "string option"

definition response_with :: "u16 \<Rightarrow> val \<Rightarrow> api_response" where
  "response_with code body = \<lparr> as_status = code, as_body = Some body, as_error = None \<rparr>"

definition response_failed :: "u16 \<Rightarrow> string \<Rightarrow> api_response" where
  "response_failed code e = \<lparr> as_status = code, as_body = None, as_error = Some e \<rparr>"

definition api_ok :: "val \<Rightarrow> api_response" where "api_ok = response_with 200"
definition api_created :: "val \<Rightarrow> api_response" where "api_created = response_with 201"
definition api_no_content :: api_response where "api_no_content = \<lparr> as_status = 204, as_body = None, as_error = None \<rparr>"
definition api_bad_request :: "string \<Rightarrow> api_response" where "api_bad_request = response_failed 400"
definition api_not_found :: "string \<Rightarrow> api_response" where "api_not_found = response_failed 404"
definition api_internal :: "string \<Rightarrow> api_response" where "api_internal = response_failed 500"

section \<open>Routes\<close>

type_synonym route_handler = "api_request \<Rightarrow> api_response"
type_synonym api_handler = "(http_method \<times> string \<times> route_handler) list"

definition api_new :: api_handler where "api_new = []"

definition api_route :: "http_method \<Rightarrow> string \<Rightarrow> route_handler \<Rightarrow> api_handler \<Rightarrow> api_handler" where
  "api_route m path h routes = routes @ [(m, path, h)]"

definition api_get :: "string \<Rightarrow> route_handler \<Rightarrow> api_handler \<Rightarrow> api_handler" where "api_get = api_route HttpGet"
definition api_post :: "string \<Rightarrow> route_handler \<Rightarrow> api_handler \<Rightarrow> api_handler" where "api_post = api_route HttpPost"
definition api_put :: "string \<Rightarrow> route_handler \<Rightarrow> api_handler \<Rightarrow> api_handler" where "api_put = api_route HttpPut"
definition api_delete :: "string \<Rightarrow> route_handler \<Rightarrow> api_handler \<Rightarrow> api_handler" where "api_delete = api_route HttpDelete"

fun api_handle :: "api_handler \<Rightarrow> api_request \<Rightarrow> api_response" where
  "api_handle [] r = api_not_found (''no route for '' @ method_as_str (ar_method r) @ '' '' @ ar_path r)"
| "api_handle ((m, path, h) # routes) r = (if m = ar_method r \<and> path = ar_path r then h r else api_handle routes r)"

definition route_count :: "api_handler \<Rightarrow> nat" where "route_count routes = length routes"

section \<open>The first route wins\<close>

definition routed :: "api_handler \<Rightarrow> http_method \<Rightarrow> string \<Rightarrow> bool" where
  "routed routes m path \<longleftrightarrow> (\<exists>h. (m, path, h) \<in> set routes)"

lemma api_handle_append:
  "api_handle (routes @ more_routes) r =
     (if routed routes (ar_method r) (ar_path r) then api_handle routes r else api_handle more_routes r)"
  by (induction routes) (auto simp: routed_def)

text \<open>
  Registering a route adds an answer for its method and path only, and only when none was there:
  a second registration of the same route is never reached.
\<close>

theorem api_route_effect:
  "api_handle (api_route m path h routes) r =
     (if \<not> routed routes m path \<and> ar_method r = m \<and> ar_path r = path then h r else api_handle routes r)"
proof (cases "routed routes (ar_method r) (ar_path r)")
  case True
  then show ?thesis by (auto simp: api_route_def api_handle_append)
next
  case False
  then have "api_handle routes r = api_handle [] r" using api_handle_append [of routes "[]" r] by simp
  with False show ?thesis by (auto simp: api_route_def api_handle_append)
qed

end
