(* ===== verification/Metrics.thy ===== *)
theory Metrics
  imports Types_Value
begin

text \<open>
  The counters of \<open>blitz-observability/src/metrics.rs\<close>. Each method is an atomic addition on its
  counter; the timer only reads the clock and is left out.
\<close>

section \<open>The collector\<close>

record metrics_collector =
  mc_inserts :: u64
  mc_reads :: u64
  mc_updates :: u64
  mc_deletes :: u64
  mc_transactions_committed :: u64
  mc_transactions_rolled_back :: u64
  mc_queries_executed :: u64
  mc_index_lookups :: u64
  mc_custom_counters :: "(string, u64) hmap"

definition metrics_new :: metrics_collector where
  "metrics_new = \<lparr> mc_inserts = 0, mc_reads = 0, mc_updates = 0, mc_deletes = 0, mc_transactions_committed = 0,
     mc_transactions_rolled_back = 0, mc_queries_executed = 0, mc_index_lookups = 0, mc_custom_counters = [] \<rparr>"

definition record_insert :: "metrics_collector \<Rightarrow> metrics_collector" where
  "record_insert m = m \<lparr> mc_inserts := mc_inserts m + 1 \<rparr>"

definition record_read :: "metrics_collector \<Rightarrow> metrics_collector" where
  "record_read m = m \<lparr> mc_reads := mc_reads m + 1 \<rparr>"

definition record_update :: "metrics_collector \<Rightarrow> metrics_collector" where
  "record_update m = m \<lparr> mc_updates := mc_updates m + 1 \<rparr>"

definition record_delete :: "metrics_collector \<Rightarrow> metrics_collector" where
  "record_delete m = m \<lparr> mc_deletes := mc_deletes m + 1 \<rparr>"

definition record_transaction_commit :: "metrics_collector \<Rightarrow> metrics_collector" where
  "record_transaction_commit m = m \<lparr> mc_transactions_committed := mc_transactions_committed m + 1 \<rparr>"

definition record_transaction_rollback :: "metrics_collector \<Rightarrow> metrics_collector" where
  "record_transaction_rollback m = m \<lparr> mc_transactions_rolled_back := mc_transactions_rolled_back m + 1 \<rparr>"

definition record_query :: "metrics_collector \<Rightarrow> metrics_collector" where
  "record_query m = m \<lparr> mc_queries_executed := mc_queries_executed m + 1 \<rparr>"

definition record_index_lookup :: "metrics_collector \<Rightarrow> metrics_collector" where
  "record_index_lookup m = m \<lparr> mc_index_lookups := mc_index_lookups m + 1 \<rparr>"

definition get_counter :: "metrics_collector \<Rightarrow> string \<Rightarrow> u64" where
  "get_counter m name = (case hm_get (mc_custom_counters m) name of Some n \<Rightarrow> n | None \<Rightarrow> 0)"

definition increment_counter :: "string \<Rightarrow> metrics_collector \<Rightarrow> metrics_collector" where
  "increment_counter name m = m \<lparr> mc_custom_counters := hm_insert name (get_counter m name + 1) (mc_custom_counters m) \<rparr>"

definition metrics_reset :: "metrics_collector \<Rightarrow> metrics_collector" where
  "metrics_reset m = metrics_new"

text \<open>A snapshot has the fields of the collector at the time it is taken.\<close>

type_synonym metrics_snapshot = metrics_collector

definition snapshot_metrics :: "metrics_collector \<Rightarrow> metrics_snapshot" where
  "snapshot_metrics m = \<lparr> mc_inserts = mc_inserts m, mc_reads = mc_reads m, mc_updates = mc_updates m, mc_deletes = mc_deletes m,
     mc_transactions_committed = mc_transactions_committed m, mc_transactions_rolled_back = mc_transactions_rolled_back m,
     mc_queries_executed = mc_queries_executed m, mc_index_lookups = mc_index_lookups m,
     mc_custom_counters = mc_custom_counters m \<rparr>"

section \<open>Counting\<close>

datatype metric =
    MInsert | MRead | MUpdate | MDelete | MCommit | MRollback | MQuery | MLookup | MCustom string | MReset

fun record_metric :: "metric \<Rightarrow> metrics_collector \<Rightarrow> metrics_collector" where
  "record_metric MInsert = record_insert"
| "record_metric MRead = record_read"
| "record_metric MUpdate = record_update"
| "record_metric MDelete = record_delete"
| "record_metric MCommit = record_transaction_commit"
| "record_metric MRollback = record_transaction_rollback"
| "record_metric MQuery = record_query"
| "record_metric MLookup = record_index_lookup"
| "record_metric (MCustom name) = increment_counter name"
| "record_metric MReset = metrics_reset"

fun metric_value :: "metrics_snapshot \<Rightarrow> metric \<Rightarrow> u64" where
  "metric_value m MInsert = mc_inserts m"
| "metric_value m MRead = mc_reads m"
| "metric_value m MUpdate = mc_updates m"
| "metric_value m MDelete = mc_deletes m"
| "metric_value m MCommit = mc_transactions_committed m"
| "metric_value m MRollback = mc_transactions_rolled_back m"
| "metric_value m MQuery = mc_queries_executed m"
| "metric_value m MLookup = mc_index_lookups m"
| "metric_value m (MCustom name) = get_counter m name"
| "metric_value m MReset = 0"

lemmas record_defs =
  record_insert_def record_read_def record_update_def record_delete_def record_transaction_commit_def
  record_transaction_rollback_def record_query_def record_index_lookup_def increment_counter_def get_counter_def
  metrics_reset_def metrics_new_def snapshot_metrics_def

lemma record_metric_value:
  "metric_value (record_metric e m) x = (if e = MReset then 0 else if e = x then metric_value m x + 1 else metric_value m x)"
  by (cases e; cases x) (simp_all add: record_defs hm_simps)

text \<open>What has been counted since the last reset.\<close>

definition since_reset :: "metric list \<Rightarrow> metric list" where
  "since_reset es = rev (takeWhile (\<lambda>e. e \<noteq> MReset) (rev es))"

theorem snapshot_counts:
  "x \<noteq> MReset \<Longrightarrow> metric_value (snapshot_metrics (fold record_metric es metrics_new)) x = of_nat (count_list (since_reset es) x)"
proof (induction es rule: rev_induct)
  case Nil
  then show ?case by (cases x) (simp_all add: record_defs since_reset_def)
next
  case (snoc e es)
  have "snapshot_metrics m = m" for m by (simp add: snapshot_metrics_def)
  with snoc show ?case by (auto simp: record_metric_value since_reset_def)
qed

end
