(* ===== verification/Server_Stats.thy ===== *)
theory Server_Stats
  imports Group_Commit Admission Messages
begin

text \<open>
  The statistics of the server (\<open>record_request\<close> to \<open>slow_rate\<close>, \<open>metrics_text\<close> and \<open>uptime_secs\<close> of
  \<open>blitz-server/src/server.rs\<close>): counters of requests and bytes, and the text that the endpoint
  \<open>/metrics\<close> returns. The conversion of integers to floats with their division and the printers
  of floats are parameters; the flush counters of the log are those of its shards.
\<close>

section \<open>Counters\<close>

record traffic =
  total_requests :: u64
  slow_responses :: u64
  bytes_read :: u64
  bytes_written :: u64
  started_at :: "int option"

definition traffic_new :: traffic where
  "traffic_new = \<lparr> total_requests = 0, slow_responses = 0, bytes_read = 0, bytes_written = 0, started_at = None \<rparr>"

definition record_request :: "bool \<Rightarrow> traffic \<Rightarrow> traffic" where
  "record_request slow t =
     (let t = t \<lparr> total_requests := total_requests t + 1 \<rparr> in
      if slow then t \<lparr> slow_responses := slow_responses t + 1 \<rparr> else t)"

definition record_io :: "u64 \<Rightarrow> u64 \<Rightarrow> traffic \<Rightarrow> traffic" where
  "record_io read_bytes written_bytes t =
     (let t = (if 0 < read_bytes then t \<lparr> bytes_read := bytes_read t + read_bytes \<rparr> else t) in
      if 0 < written_bytes then t \<lparr> bytes_written := bytes_written t + written_bytes \<rparr> else t)"

record server_stats =
  st_connections :: nat
  st_total_requests :: u64
  st_slow_responses :: u64
  st_shed_drops :: u64
  st_bytes_read :: u64
  st_bytes_written :: u64
  st_active_tx :: u64
  st_tx_conflicts :: u64
  st_subscription_fanout :: u64
  st_push_dropped :: u64
  st_fanout_done :: u64
  st_fanout_dropped :: u64
  st_wal_bytes :: u64
  st_wal_ops :: u64

definition flushed_bytes :: "wal_thread list \<Rightarrow> u64" where
  "flushed_bytes shards = sum_list (map wt_bytes_flushed shards)"

definition flushed_ops :: "wal_thread list \<Rightarrow> u64" where
  "flushed_ops shards = sum_list (map wt_ops_flushed shards)"

definition server_stats_of :: "'ip admission \<Rightarrow> traffic \<Rightarrow> wal_thread list \<Rightarrow> server \<Rightarrow> server_stats" where
  "server_stats_of a t shards s =
     (let (wal_bytes, wal_ops) = (case sv_wal s of Some _ \<Rightarrow> (flushed_bytes shards, flushed_ops shards) | None \<Rightarrow> (0, 0)) in
      \<lparr> st_connections = connections a, st_total_requests = total_requests t, st_slow_responses = slow_responses t,
        st_shed_drops = shed_drops a, st_bytes_read = bytes_read t, st_bytes_written = bytes_written t,
        st_active_tx = 0, st_tx_conflicts = 0, st_subscription_fanout = sv_push_delivered s,
        st_push_dropped = sv_push_dropped s, st_fanout_done = sv_fanout_done s, st_fanout_dropped = sv_fanout_dropped s,
        st_wal_bytes = wal_bytes, st_wal_ops = wal_ops \<rparr>)"

section \<open>The exposition\<close>

record stat_floats =
  sf_ratio :: "int \<Rightarrow> int \<Rightarrow> f64"
  sf_fixed4 :: "f64 \<Rightarrow> string"
  sf_fixed1 :: "f64 \<Rightarrow> string"

definition slow_rate :: "stat_floats \<Rightarrow> traffic \<Rightarrow> f64 option" where
  "slow_rate f t = (if total_requests t = 0 then None else Some (sf_ratio f (uint (slow_responses t)) (uint (total_requests t))))"

text \<open>Times are in microseconds; the division by a thousand is that of floats.\<close>

definition uptime_secs :: "stat_floats \<Rightarrow> int \<Rightarrow> traffic \<Rightarrow> f64 option" where
  "uptime_secs f now t = map_option (\<lambda>t0. sf_ratio f (sgn (now - t0) * (\<bar>now - t0\<bar> div 1000)) 1000) (started_at t)"

definition metric_lines :: "string \<times> string \<times> string \<times> string \<Rightarrow> string" where
  "metric_lines = (\<lambda>(name, help, kind, reading).
     ''# HELP '' @ name @ '' '' @ help @ [CHR 0x0A] @ ''# TYPE '' @ name @ '' '' @ kind @ [CHR 0x0A] @
     name @ '' '' @ reading @ [CHR 0x0A])"

definition metric_items ::
  "stat_floats \<Rightarrow> int \<Rightarrow> 'ip admission \<Rightarrow> traffic \<Rightarrow> wal_thread list \<Rightarrow> server \<Rightarrow> (string \<times> string \<times> string \<times> string) list" where
  "metric_items f now a t shards s =
     (let st = server_stats_of a t shards s in
      [(''blitz_connections'', ''live connections'', ''gauge'', nat_text (st_connections st)),
        (''blitz_requests_total'', ''dispatched frames'', ''counter'', u64_text (st_total_requests st)),
        (''blitz_slow_responses_total'', ''frames past slow_threshold'', ''counter'', u64_text (st_slow_responses st)),
        (''blitz_slow_rate'', ''slow/total'', ''gauge'', sf_fixed4 f (case slow_rate f t of None \<Rightarrow> 0 | Some r \<Rightarrow> r)),
        (''blitz_shed_drops_total'', ''shed at admission'', ''counter'', u64_text (st_shed_drops st)),
        (''blitz_wal_dropped_total'', ''WAL backpressure drops'', ''counter'', u64_text (sv_wal_dropped_full s)),
        (''blitz_bytes_read_total'', ''TCP bytes read'', ''counter'', u64_text (st_bytes_read st)),
        (''blitz_bytes_written_total'', ''TCP bytes written'', ''counter'', u64_text (st_bytes_written st)),
        (''blitz_wal_bytes_total'', ''WAL bytes fsynced'', ''counter'', u64_text (st_wal_bytes st)),
        (''blitz_wal_ops_total'', ''WAL ops fsynced'', ''counter'', u64_text (st_wal_ops st)),
        (''blitz_active_tx'', ''active transactions (0: auto-commit TCP)'', ''gauge'', u64_text (st_active_tx st)),
        (''blitz_push_delivered_total'', ''stream pushes delivered'', ''counter'', u64_text (st_subscription_fanout st)),
        (''blitz_push_dropped_total'', ''slow push consumers evicted'', ''counter'', u64_text (st_push_dropped st)),
        (''blitz_fanout_done_total'', ''timeline rows materialized'', ''counter'', u64_text (st_fanout_done st)),
        (''blitz_fanout_dropped_total'', ''fanout jobs shed under pressure'', ''counter'', u64_text (st_fanout_dropped st)),
        (''blitz_uptime_seconds'', ''server uptime'', ''gauge'', sf_fixed1 f (case uptime_secs f now t of None \<Rightarrow> 0 | Some u \<Rightarrow> u))])"

definition metrics_text ::
  "stat_floats \<Rightarrow> int \<Rightarrow> 'ip admission \<Rightarrow> traffic \<Rightarrow> wal_thread list \<Rightarrow> server \<Rightarrow> string" where
  "metrics_text f now a t shards s = concat (map metric_lines (metric_items f now a t shards s))"

section \<open>Counting\<close>

datatype traffic_event = TRequest bool | TIo u64 u64

fun record_event :: "traffic_event \<Rightarrow> traffic \<Rightarrow> traffic" where
  "record_event (TRequest slow) = record_request slow"
| "record_event (TIo r w) = record_io r w"

definition requests_of :: "traffic_event list \<Rightarrow> bool list" where
  "requests_of es = List.map_filter (\<lambda>e. case e of TRequest slow \<Rightarrow> Some slow | TIo _ _ \<Rightarrow> None) es"

definition io_of :: "traffic_event list \<Rightarrow> (u64 \<times> u64) list" where
  "io_of es = List.map_filter (\<lambda>e. case e of TIo r w \<Rightarrow> Some (r, w) | TRequest _ \<Rightarrow> None) es"

lemma record_io_add:
  "record_io r w t = t \<lparr> bytes_read := bytes_read t + r, bytes_written := bytes_written t + w \<rparr>"
  by (cases t) (auto simp: record_io_def Let_def word_gt_0)

lemma record_request_add:
  "record_request slow t = t \<lparr> total_requests := total_requests t + 1, slow_responses := slow_responses t + of_bool slow \<rparr>"
  by (cases t) (simp add: record_request_def Let_def)

text \<open>
  The counters are the numbers of requests and of slow ones and the sums of the bytes, modulo the
  width of a counter; while fewer requests were made than a counter holds, no more were slow than
  were made.
\<close>

theorem traffic_counted:
  "fold record_event es t = t \<lparr> total_requests := total_requests t + of_nat (length (requests_of es)),
     slow_responses := slow_responses t + of_nat (length (filter id (requests_of es))),
     bytes_read := bytes_read t + sum_list (map fst (io_of es)), bytes_written := bytes_written t + sum_list (map snd (io_of es)) \<rparr>"
proof (induction es arbitrary: t)
  case (Cons e es)
  show ?case
    by (cases e) (simp_all add: Cons.IH record_request_add record_io_add requests_of_def io_of_def map_filter_simps algebra_simps)
qed (simp add: requests_of_def io_of_def map_filter_simps)

theorem slow_at_most_total:
  assumes "length (requests_of es) < 2 ^ 64"
  shows "slow_responses (fold record_event es traffic_new) \<le> total_requests (fold record_event es traffic_new)"
proof -
  have "length (filter id (requests_of es)) \<le> length (requests_of es)"
    by simp
  then show ?thesis
    using assms
    by (simp add: traffic_counted traffic_new_def word_le_nat_alt unat_of_nat le_trans [OF mod_less_eq_dividend])
qed

end
