(* ===== verification/Deploy.thy ===== *)
theory Deploy
  imports Http_Bridge
begin

text \<open>
  The envelope of a deployed procedure (\<open>deploy_from_json\<close> to \<open>transform_value\<close> and \<open>base64_decode\<close> of
  \<open>blitz-runtime/src/deploy.rs\<close>): its literals are rewritten into the form that the derived
  deserializer reads, then the procedure is validated. The JSON parser, the derived deserializer
  of procedures and the calendar are parameters. A panic of the source is a value of its own. The
  helpers that read integers, dates and UUIDs are word for word those of \<open>Http_Bridge\<close>.
\<close>

section \<open>Base64\<close>

definition ALPH :: string where
  "ALPH = ''ABCDEFGHIJKLMNOPQRSTUVWXYZabcdefghijklmnopqrstuvwxyz0123456789+/''"

definition sextet :: "u8 \<Rightarrow> u32 option" where
  "sextet b = map_of (zip (as_bytes ALPH) (map word_of_int [0..63])) b"

text \<open>Four characters; a pad counts as zero wherever it stands.\<close>

fun group_bits :: "u8 list \<Rightarrow> u32 \<Rightarrow> nat \<Rightarrow> string + u32 \<times> nat" where
  "group_bits [] n pad = Ok (n, pad)"
| "group_bits (b # bs) n pad =
     (if b = byte_of_char (CHR ''='') then group_bits bs (push_bit 6 n) (Suc pad)
      else
        (case sextet b of
           None \<Rightarrow> Err ''bad $bytes base64 character''
         | Some v \<Rightarrow> group_bits bs (push_bit 6 n OR v) pad))"

definition group_bytes :: "u32 \<Rightarrow> nat \<Rightarrow> u8 list" where
  "group_bytes n pad =
     [ucast (drop_bit 16 n)] @ (if pad < 2 then [ucast (drop_bit 8 n)] else []) @ (if pad < 1 then [ucast n] else [])"

fun decode_groups :: "u8 list \<Rightarrow> string + u8 list" where
  "decode_groups (a # b # c # d # rest) =
     (case group_bits [a, b, c, d] 0 0 of
        Inl e \<Rightarrow> Err e
      | Inr (n, pad) \<Rightarrow> map_sum id (\<lambda>out. group_bytes n pad @ out) (decode_groups rest))"
| "decode_groups _ = Ok []"

definition base64_decode :: "string \<Rightarrow> string + u8 list" where
  "base64_decode s =
     (let bytes = filter (\<lambda>b. b \<noteq> 0x0D \<and> b \<noteq> 0x0A) (as_bytes s) in
      if bytes = [] then Ok []
      else if length bytes mod 4 \<noteq> 0 then Err ''bad $bytes base64 length''
      else decode_groups bytes)"

section \<open>Literals\<close>

record deploy_env =
  dp_http :: http_env
  dp_rfc3339 :: "int \<Rightarrow> string"
  dp_debug_version :: "u64 option \<Rightarrow> string"
  dp_from_str :: "string \<Rightarrow> string + json"
  dp_from_value :: "json \<Rightarrow> string + procedure"

definition tagged :: "string \<Rightarrow> json \<Rightarrow> json" where
  "tagged k j = JObject [(k, j)]"

text \<open>An object with a single entry; none of the tags leaves it a JSON value.\<close>

definition transform_tagged :: "deploy_env \<Rightarrow> string \<Rightarrow> json \<Rightarrow> (string + json) option" where
  "transform_tagged dp k j =
     (let h = dp_http dp in
      if k = ''$i32'' then
        map_option (\<lambda>n. if - 0x80000000 \<le> sint n \<and> sint n < 0x80000000 then Ok (tagged ''Int32'' (json_of_i64 n))
          else Err (''$i32 out of range: '' @ int_text (sint n))) (json_as_i64 j)
      else if k = ''$u32'' then
        map_option (\<lambda>n. if n < 0x100000000 then Ok (tagged ''UInt32'' (json_of_u64 n))
          else Err (''$u32 out of range: '' @ u64_text n)) (json_as_u64 j)
      else if k = ''$i64'' then Some (map_sum id (\<lambda>n. tagged ''Int64'' (json_of_i64 n)) (as_i64_lenient h j))
      else if k = ''$u64'' then Some (map_sum id (\<lambda>n. tagged ''UInt64'' (json_of_u64 n)) (as_u64_lenient h j))
      else if k = ''$f32'' then map_option (\<lambda>n. Ok (tagged ''Float32'' (json_of_f64 (f32_to_f64 (f64_to_f32 n))))) (json_as_f64 j)
      else if k = ''$decimal'' then map_option (\<lambda>s. Ok (tagged ''Decimal'' (JString s))) (json_as_str j)
      else if k = ''$date'' then
        map_option (\<lambda>s. case parse_ymd s of
            Inl e \<Rightarrow> Err e
          | Inr (y, m, d) \<Rightarrow> if ht_from_ymd h y m d = None then Err (''bad $date: '' @ s) else Ok (tagged ''Date'' (JString s))) (json_as_str j)
      else if k = ''$uuid'' then
        map_option (\<lambda>s. if is_uuid_shaped s then Ok (tagged ''Uuid'' (JString s)) else Err (''bad $uuid: '' @ s)) (json_as_str j)
      else if k = ''$bytes'' then
        map_option (\<lambda>s. case base64_decode s of
            Inl e \<Rightarrow> Err e
          | Inr bytes \<Rightarrow> if 262144 < length bytes then Err ''bytes literal too large (max 256KiB)''
              else Ok (tagged ''Bytes'' (JArray (map (\<lambda>b. json_of_u64 (ucast b)) bytes)))) (json_as_str j)
      else if k = ''$ts'' then
        Some (case as_i64_lenient h j of
            Inl e \<Rightarrow> Err e
          | Inr n \<Rightarrow> (case from_timestamp_micros (ht_chrono h) n of
              None \<Rightarrow> Err (''bad $ts: '' @ ht_to_text h j)
            | Some t \<Rightarrow> Ok (tagged ''Timestamp'' (JString (dp_rfc3339 dp t)))))
      else None)"

fun transform_value :: "deploy_env \<Rightarrow> json \<Rightarrow> string + json"
  and transform_items :: "deploy_env \<Rightarrow> json list \<Rightarrow> string + json list" where
  "transform_value dp JNull = Ok (JString ''Null'')"
| "transform_value dp (JBool b) = Ok (tagged ''Boolean'' (JBool b))"
| "transform_value dp (JNumber n) =
     (case number_as_i64 n of
        Some i \<Rightarrow> Ok (tagged ''Int64'' (json_of_i64 i))
      | None \<Rightarrow>
          (case number_as_u64 n of
             Some u \<Rightarrow> Ok (tagged ''UInt64'' (json_of_u64 u))
           | None \<Rightarrow>
               (case number_as_f64 n of
                  Some f \<Rightarrow> Ok (tagged ''Float64'' (json_of_f64 f))
                | None \<Rightarrow> Err (''bad number: '' @ ht_number_text (dp_http dp) n))))"
| "transform_value dp (JString s) = Ok (tagged (if is_uuid_shaped s then ''Uuid'' else ''String'') (JString s))"
| "transform_value dp (JArray items) = map_sum id (\<lambda>js. tagged ''Array'' (JArray js)) (transform_items dp items)"
| "transform_value dp (JObject kvs) =
     (case (case kvs of [(k, j)] \<Rightarrow> transform_tagged dp k j | _ \<Rightarrow> None) of
        Some r \<Rightarrow> r
      | None \<Rightarrow> Ok (tagged ''Json'' (JObject kvs)))"
| "transform_items dp [] = Ok []"
| "transform_items dp (j # js) =
     (case transform_value dp j of
        Inl e \<Rightarrow> Err e
      | Inr v \<Rightarrow> map_sum id (Cons v) (transform_items dp js))"

section \<open>Steps and conditions\<close>

datatype deploy_stop = DeployErr string | DeployPanic

definition put_field :: "string \<Rightarrow> json \<Rightarrow> (string \<times> json) list \<Rightarrow> (string \<times> json) list" where
  "put_field k j kvs = map (\<lambda>(k', x). (k', if k' = k then j else x)) kvs"

definition at_field :: "(json \<Rightarrow> 'e + json) \<Rightarrow> string \<Rightarrow> (string \<times> json) list \<Rightarrow> 'e + (string \<times> json) list" where
  "at_field f k kvs =
     (case map_of kvs k of
        None \<Rightarrow> Ok kvs
      | Some j \<Rightarrow> map_sum id (\<lambda>j. put_field k j kvs) (f j))"

definition value_field :: "deploy_env \<Rightarrow> string \<Rightarrow> (string \<times> json) list \<Rightarrow> deploy_stop + (string \<times> json) list" where
  "value_field dp = at_field (\<lambda>j. map_sum DeployErr id (transform_value dp j))"

fun transform_entries :: "deploy_env \<Rightarrow> (string \<times> json) list \<Rightarrow> string + (string \<times> json) list" where
  "transform_entries dp [] = Ok []"
| "transform_entries dp ((k, j) # kvs) =
     (case transform_value dp j of
        Inl e \<Rightarrow> Err e
      | Inr v \<Rightarrow> map_sum id (Cons (k, v)) (transform_entries dp kvs))"

definition entries_field :: "deploy_env \<Rightarrow> string \<Rightarrow> string \<Rightarrow> (string \<times> json) list \<Rightarrow> deploy_stop + (string \<times> json) list" where
  "entries_field dp variant name =
     at_field (\<lambda>j. case j of
         JObject m \<Rightarrow> map_sum DeployErr JObject (transform_entries dp m)
       | _ \<Rightarrow> Err (DeployErr (variant @ ''.'' @ name @ '' must be an object''))) name"

fun transform_condition :: "deploy_env \<Rightarrow> json \<Rightarrow> string + json"
  and transform_conditions :: "deploy_env \<Rightarrow> json list \<Rightarrow> string + json list" where
  "transform_condition dp (JObject [(variant, body)]) =
     (if variant \<in> {''Equals'', ''NotEquals'', ''GreaterOrEqual'', ''LessThan''} then
        (case body of
           JArray [x, y] \<Rightarrow> map_sum id (\<lambda>y. tagged variant (JArray [x, y])) (transform_value dp y)
         | _ \<Rightarrow> Err ''comparison needs [var, value]'')
      else if variant = ''IsNotNull'' then Ok (tagged variant body)
      else if variant \<in> {''All'', ''Any''} then
        (case body of
           JArray cs \<Rightarrow> map_sum id (\<lambda>cs. tagged variant (JArray cs)) (transform_conditions dp cs)
         | _ \<Rightarrow> Err ''All/Any need an array'')
      else Err (''unknown condition: '' @ variant))"
| "transform_condition dp (JObject _) = Err ''condition must have exactly one variant''"
| "transform_condition dp _ = Err ''condition must be an object''"
| "transform_conditions dp [] = Ok []"
| "transform_conditions dp (c # cs) =
     (case transform_condition dp c of
        Inl e \<Rightarrow> Err e
      | Inr x \<Rightarrow> map_sum id (Cons x) (transform_conditions dp cs))"

text \<open>The body of every step but the conditional.\<close>

definition and_then_field :: "'e + 'a \<Rightarrow> ('a \<Rightarrow> 'e + 'a) \<Rightarrow> 'e + 'a" where
  "and_then_field r f = (case r of Inl e \<Rightarrow> Err e | Inr x \<Rightarrow> f x)"

definition transform_body :: "deploy_env \<Rightarrow> string \<Rightarrow> (string \<times> json) list \<Rightarrow> deploy_stop + (string \<times> json) list" where
  "transform_body dp variant kvs =
     (if variant = ''CallFunction'' then entries_field dp variant ''args'' kvs
      else if variant = ''SetVariable'' \<or> variant = ''Return'' then value_field dp ''value'' kvs
      else if variant = ''Read'' \<or> variant = ''Delete'' then value_field dp ''id'' kvs
      else if variant = ''Insert'' then entries_field dp variant ''values'' kvs
      else if variant = ''Update'' then and_then_field (value_field dp ''id'' kvs) (entries_field dp variant ''values'')
      else if variant = ''Fail'' then Ok kvs
      else Err (DeployErr (''unknown step: '' @ variant)))"

lemma map_of_size: "map_of kvs k = Some j \<Longrightarrow> size j < size (JObject kvs)"
  by (induction kvs) (auto split: if_splits)

text \<open>A branch of a conditional is transformed where it stands; a step whose body is no object panics.\<close>

function (sequential) transform_step :: "deploy_env \<Rightarrow> json \<Rightarrow> deploy_stop + json"
  and transform_steps :: "deploy_env \<Rightarrow> json list \<Rightarrow> deploy_stop + json list"
  and transform_branch :: "deploy_env \<Rightarrow> string \<Rightarrow> json option \<Rightarrow> (string \<times> json) list \<Rightarrow> deploy_stop + (string \<times> json) list" where
  "transform_step dp (JObject [(variant, JObject kvs)]) =
     (if variant = ''If'' then
        (case at_field (\<lambda>c. map_sum DeployErr id (transform_condition dp c)) ''condition'' kvs of
           Inl e \<Rightarrow> Err e
         | Inr kvs1 \<Rightarrow>
             (case transform_branch dp ''then_steps'' (map_of kvs ''then_steps'') kvs1 of
                Inl e \<Rightarrow> Err e
              | Inr kvs2 \<Rightarrow>
                  map_sum id (\<lambda>kvs3. tagged variant (JObject kvs3)) (transform_branch dp ''else_steps'' (map_of kvs ''else_steps'') kvs2)))
      else map_sum id (\<lambda>kvs. tagged variant (JObject kvs)) (transform_body dp variant kvs))"
| "transform_step dp (JObject [(variant, _)]) = Err DeployPanic"
| "transform_step dp (JObject _) = Err (DeployErr ''step must have exactly one variant'')"
| "transform_step dp _ = Err (DeployErr ''step must be an object'')"
| "transform_steps dp [] = Ok []"
| "transform_steps dp (j # js) =
     (case transform_step dp j of
        Inl e \<Rightarrow> Err e
      | Inr x \<Rightarrow> map_sum id (Cons x) (transform_steps dp js))"
| "transform_branch dp name None kvs = Ok kvs"
| "transform_branch dp name (Some (JArray a)) kvs = map_sum id (\<lambda>a. put_field name (JArray a) kvs) (transform_steps dp a)"
| "transform_branch dp name (Some _) kvs = Err (DeployErr (''If.'' @ name @ '' must be an array''))"
  by pat_completeness auto
termination
  by (relation "measure (\<lambda>x. case x of
      Inl (_, j) \<Rightarrow> size j
    | Inr (Inl (_, js)) \<Rightarrow> size_list size js
    | Inr (Inr (_, _, j, _)) \<Rightarrow> (case j of Some j \<Rightarrow> size j | None \<Rightarrow> 0))")
    (auto dest: map_of_size split: option.split)

definition transform_procedure :: "deploy_env \<Rightarrow> json \<Rightarrow> deploy_stop + json" where
  "transform_procedure dp j =
     (case j of
        JObject kvs \<Rightarrow>
          (case map_of kvs ''steps'' of
             Some (JArray steps) \<Rightarrow> map_sum id (\<lambda>steps. JObject (put_field ''steps'' (JArray steps) kvs)) (transform_steps dp steps)
           | _ \<Rightarrow> Err (DeployErr ''procedure.steps must be an array''))
      | _ \<Rightarrow> Err (DeployErr ''procedure.steps must be an array''))"

definition deploy_from_parsed :: "deploy_env \<Rightarrow> u64 option \<Rightarrow> json \<Rightarrow> function_registry \<Rightarrow> deploy_stop + procedure" where
  "deploy_from_parsed dp version j fns =
     (if version \<noteq> Some 1 then Err (DeployErr (''unsupported envelope version (want 1): '' @ dp_debug_version dp version))
      else
        (case transform_procedure dp j of
           Inl e \<Rightarrow> Err e
         | Inr j \<Rightarrow>
             (case dp_from_value dp j of
                Inl e \<Rightarrow> Err (DeployErr (''bad procedure: '' @ e))
              | Inr p \<Rightarrow>
                  (case validate_procedure p fns of
                     Inl f \<Rightarrow> Err (DeployErr (deploy_fault_text f))
                   | Inr _ \<Rightarrow> Ok p))))"

definition deploy_from_json :: "deploy_env \<Rightarrow> string \<Rightarrow> function_registry \<Rightarrow> deploy_stop + procedure" where
  "deploy_from_json dp body fns =
     (case dp_from_str dp body of
        Inl e \<Rightarrow> Err (DeployErr (''malformed envelope: '' @ e))
      | Inr (JObject kvs) \<Rightarrow>
          (case map_of kvs ''procedure'' of
             None \<Rightarrow> Err (DeployErr (''envelope missing '' @ quoted ''procedure''))
           | Some j \<Rightarrow> deploy_from_parsed dp (Option.bind (map_of kvs ''v'') json_as_u64) j fns)
      | Inr _ \<Rightarrow> Err (DeployErr ''envelope must be a JSON object''))"

section \<open>Base64 in both directions\<close>

text \<open>The standard encoding, with pads at the end only.\<close>

definition b64 :: "u32 \<Rightarrow> u8" where
  "b64 v = byte_of_char (ALPH ! unat v)"

definition join_bytes :: "u8 \<Rightarrow> u8 \<Rightarrow> u8 \<Rightarrow> u32" where
  "join_bytes a b c = push_bit 16 (ucast a) OR push_bit 8 (ucast b) OR ucast c"

definition digit_at :: "nat \<Rightarrow> u32 \<Rightarrow> u32" where
  "digit_at k n = take_bit 6 (drop_bit (6 * k) n)"

fun base64_encode :: "u8 list \<Rightarrow> u8 list" where
  "base64_encode (a # b # c # rest) = map (\<lambda>k. b64 (digit_at k (join_bytes a b c))) [3, 2, 1, 0] @ base64_encode rest"
| "base64_encode [a, b] = map (\<lambda>k. b64 (digit_at k (join_bytes a b 0))) [3, 2, 1] @ [byte_of_char (CHR ''='')]"
| "base64_encode [a] = map (\<lambda>k. b64 (digit_at k (join_bytes a 0 0))) [3, 2] @ [byte_of_char (CHR ''=''), byte_of_char (CHR ''='')]"
| "base64_encode [] = []"

lemma alphabet:
  "length ALPH = 64" "distinct ALPH" "list_all (\<lambda>c. c \<noteq> CHR ''='' \<and> c \<noteq> CHR 0x0D \<and> c \<noteq> CHR 0x0A) ALPH"
  by (simp_all add: ALPH_def)

lemma digit_at_bound: "unat (digit_at k n) < 64"
  using take_bit_nat_less_exp [of 6 "unat (drop_bit (6 * k) n)"] by (simp add: digit_at_def unsigned_take_bit_eq)

lemma sextet_nth: "i < 64 \<Longrightarrow> sextet (byte_of_char (ALPH ! i)) = Some (of_nat i)"
proof -
  assume i: "i < 64"
  have "inj byte_of_char" by (metis char_of_byte_of_char injI)
  then have "distinct (as_bytes ALPH)" using alphabet(2) by (simp add: as_bytes_def distinct_map inj_on_subset [OF _ subset_UNIV])
  from map_of_zip_nth [OF _ this, of "map word_of_int [0..63]" i] i show ?thesis
    by (simp add: sextet_def as_bytes_def alphabet(1))
qed

lemma b64_digit:
  "sextet (b64 (digit_at k n)) = Some (digit_at k n)" "b64 (digit_at k n) \<noteq> byte_of_char (CHR ''='')"
  "b64 (digit_at k n) \<noteq> 0x0D" "b64 (digit_at k n) \<noteq> 0x0A"
proof -
  have "ALPH ! unat (digit_at k n) \<in> set ALPH" using digit_at_bound alphabet(1) by simp
  then have "ALPH ! unat (digit_at k n) \<notin> {CHR ''='', CHR 0x0D, CHR 0x0A}" using alphabet(3) by (auto simp: list_all_iff)
  moreover have "byte_of_char c = byte_of_char c' \<longleftrightarrow> c = c'" for c c' by (metis char_of_byte_of_char)
  moreover have "byte_of_char (CHR 0x0D) = 0x0D" "byte_of_char (CHR 0x0A) = 0x0A" by (simp_all add: byte_of_char_def)
  ultimately show "b64 (digit_at k n) \<noteq> byte_of_char (CHR ''='')" "b64 (digit_at k n) \<noteq> 0x0D" "b64 (digit_at k n) \<noteq> 0x0A"
    unfolding b64_def by (metis insertCI)+
qed (use sextet_nth [OF digit_at_bound] in \<open>simp add: b64_def\<close>)

lemma digits_join: "drop_bit 24 n = 0 \<Longrightarrow>
    push_bit 6 (push_bit 6 (push_bit 6 (digit_at 3 n) OR digit_at 2 n) OR digit_at 1 n) OR digit_at 0 n = n" for n :: u32
proof (rule bit_word_eqI)
  fix i
  assume "drop_bit 24 n = 0" and "i < LENGTH(32)"
  have high: "\<not> bit n i" if "24 \<le> i"
  proof -
    have "bit (drop_bit 24 n) (i - 24) \<longleftrightarrow> bit n i" using that by (simp add: bit_drop_bit_eq)
    with \<open>drop_bit 24 n = 0\<close> show ?thesis by simp
  qed
  show "bit (push_bit 6 (push_bit 6 (push_bit 6 (digit_at 3 n) OR digit_at 2 n) OR digit_at 1 n) OR digit_at 0 n) i \<longleftrightarrow> bit n i"
    using high \<open>i < LENGTH(32)\<close>
    by (simp add: digit_at_def bit_simps, cases "i < 6"; cases "i < 12"; cases "i < 18"; cases "i < 24"; auto)
qed

lemma join_bytes_bits:
  "bit (join_bytes a b c) i \<longleftrightarrow>
     (if i < 8 then bit c i else if i < 16 then bit b (i - 8) else i < 24 \<and> bit a (i - 16))"
  by (auto simp: join_bytes_def bit_simps dest: bit_imp_le_length)

lemma join_bytes_parts:
  "drop_bit 24 (join_bytes a b c) = 0" "ucast (drop_bit 16 (join_bytes a b c)) = a"
  "ucast (drop_bit 8 (join_bytes a b c)) = b" "ucast (join_bytes a b c) = c"
  by (rule bit_word_eqI; simp add: bit_simps join_bytes_bits)+

lemma join_bytes_zeros:
  "digit_at 0 (join_bytes a b 0) = 0" "digit_at 0 (join_bytes a 0 0) = 0" "digit_at (Suc 0) (join_bytes a 0 0) = 0"
  by (rule bit_word_eqI; auto simp: digit_at_def bit_simps join_bytes_bits)+

lemma digits_group:
  "group_bits (map (\<lambda>k. b64 (digit_at k (join_bytes a b c))) [3, 2, 1, 0]) 0 0 = Ok (join_bytes a b c, 0)"
  "group_bits (map (\<lambda>k. b64 (digit_at k (join_bytes a b 0))) [3, 2, 1] @ [byte_of_char (CHR ''='')]) 0 0 = Ok (join_bytes a b 0, 1)"
  "group_bits (map (\<lambda>k. b64 (digit_at k (join_bytes a 0 0))) [3, 2] @ [byte_of_char (CHR ''=''), byte_of_char (CHR ''='')]) 0 0 = Ok (join_bytes a 0 0, 2)"
  using digits_join [OF join_bytes_parts(1) [of a b c]] digits_join [OF join_bytes_parts(1) [of a b 0]]
    digits_join [OF join_bytes_parts(1) [of a 0 0]]
  by (simp_all add: b64_digit join_bytes_zeros)

lemma encoded_groups: "decode_groups (base64_encode bs) = Ok bs"
  by (induction bs rule: base64_encode.induct)
    (use digits_group in \<open>simp_all add: group_bytes_def join_bytes_parts\<close>)

lemma encoded_bytes: "length (base64_encode bs) mod 4 = 0" "b \<in> set (base64_encode bs) \<Longrightarrow> b \<noteq> 0x0D \<and> b \<noteq> 0x0A"
  by (induction bs rule: base64_encode.induct) (auto simp: b64_digit byte_of_char_def)

text \<open>Decoding inverts the standard encoding.\<close>

theorem base64_roundtrip: "base64_decode (map char_of_byte (base64_encode bs)) = Ok bs"
proof -
  have "as_bytes (map char_of_byte (base64_encode bs)) = base64_encode bs" by (simp add: as_bytes_def comp_def)
  moreover have "filter (\<lambda>b. b \<noteq> 0x0D \<and> b \<noteq> 0x0A) (base64_encode bs) = base64_encode bs"
    using encoded_bytes(2) by (simp add: filter_id_conv)
  moreover have "base64_encode bs = [] \<longleftrightarrow> bs = []" by (cases bs rule: base64_encode.cases) auto
  ultimately show ?thesis using encoded_groups encoded_bytes(1) by (simp add: base64_decode_def Let_def)
qed

text \<open>It accepts more than encodings: a pad in the middle of a group shortens the group.\<close>

lemma pad_in_the_middle: "base64_decode ''A=AA'' = Ok [0, 0]"
  by code_simp

section \<open>Deployment\<close>

text \<open>
  What is deployed passed the validation. A step whose variant has no object as its body does not
  give an error, though: the source unwraps it and panics, which ends the connection.
\<close>

lemma deployed_is_valid: "deploy_from_parsed dp v j fns = Ok p \<Longrightarrow> v = Some 1 \<and> validate_procedure p fns = Ok ()"
  by (auto simp: deploy_from_parsed_def split: if_splits sum.splits)

lemma malformed_step_panics:
  "deploy_from_parsed dp (Some 1) (JObject [(''name'', JString ''f''), (''steps'', JArray [JObject [(''Read'', JNull)]])]) fns = Err DeployPanic"
  by (simp add: deploy_from_parsed_def transform_procedure_def)

end
