(* ===== verification/Codegen.thy ===== *)
theory Codegen
  imports Deploy
begin

text \<open>
  The code generator of the command line (\<open>blitz-cli/src/generate.rs\<close>): bindings in TypeScript and
  Rust for the tables and procedures of a project, a manifest with a fingerprint of the inputs,
  and the check that the files are up to date. Strings are their UTF-8 bytes; a function that maps
  characters works on the leading byte of each. A project is its two input directories (absent, or
  file names with their contents, \<open>None\<close> where reading fails) and its other files; the JSON texts are
  parameters. Writing a file succeeds, and the console output is left out.
\<close>

section \<open>Names\<close>

abbreviation nl :: string where "nl \<equiv> [CHR 0x0A]"

definition lead_bytes :: "string \<Rightarrow> string" where
  "lead_bytes s = filter (\<lambda>c. \<not> (CHR 0x80 \<le> c \<and> c < CHR 0xC0)) s"

definition to_ascii_uppercase :: "char \<Rightarrow> char" where
  "to_ascii_uppercase c =
     (if CHR ''a'' \<le> c \<and> c \<le> CHR ''z'' then char_of ((of_char c :: int) - 32) else c)"

fun split_words :: "(char \<Rightarrow> bool) \<Rightarrow> string \<Rightarrow> string list" where
  "split_words sep [] = [[]]"
| "split_words sep (c # cs) =
     (case split_words sep cs of
        w # ws \<Rightarrow> if sep c then [] # w # ws else (c # w) # ws
      | [] \<Rightarrow> [[c]])"

definition pascal_case :: "string \<Rightarrow> string" where
  "pascal_case s =
     concat (map (\<lambda>w. case w of c # cs \<Rightarrow> to_ascii_uppercase c # cs | [] \<Rightarrow> [])
       (filter (\<lambda>w. w \<noteq> []) (split_words (\<lambda>c. \<not> ascii_alphanumeric c) s)))"

definition scream :: "string \<Rightarrow> string" where
  "scream s = map (\<lambda>c. if ascii_alphanumeric c then to_ascii_uppercase c else CHR ''_'') (lead_bytes s)"

definition identifier_chars :: "string \<Rightarrow> string" where
  "identifier_chars name =
     (let out = map (\<lambda>c. if ascii_alphanumeric c \<or> c = CHR ''_'' then c else CHR ''_'') (lead_bytes name) in
      case out of
        [] \<Rightarrow> ''_''
      | c # _ \<Rightarrow> if ascii_digit c then CHR ''_'' # out else out)"

definition TS_WORDS :: "string list" where
  "TS_WORDS = [''break'', ''case'', ''catch'', ''class'', ''const'', ''continue'', ''debugger'',
     ''default'', ''delete'', ''do'', ''else'', ''enum'', ''export'', ''extends'',
     ''false'', ''finally'', ''for'', ''function'', ''if'', ''import'', ''in'',
     ''instanceof'', ''new'', ''null'', ''return'', ''super'', ''switch'',
     ''this'', ''throw'', ''true'', ''try'', ''typeof'', ''var'', ''void'',
     ''while'', ''with'', ''yield'', ''let'', ''static'', ''implements'',
     ''interface'', ''package'', ''private'', ''protected'', ''public'']"

definition RUST_WORDS :: "string list" where
  "RUST_WORDS = [''as'', ''break'', ''const'', ''continue'', ''crate'', ''else'', ''enum'', ''extern'',
     ''false'', ''fn'', ''for'', ''if'', ''impl'', ''in'', ''let'', ''loop'',
     ''match'', ''mod'', ''move'', ''mut'', ''pub'', ''ref'', ''return'', ''self'',
     ''Self'', ''static'', ''struct'', ''super'', ''trait'', ''true'', ''type'',
     ''unsafe'', ''use'', ''where'', ''while'', ''async'', ''await'', ''dyn'',
     ''abstract'', ''become'', ''box'', ''do'', ''final'', ''macro'', ''override'',
     ''priv'', ''typeof'', ''unsized'', ''virtual'', ''yield'', ''try'']"

definition rust_ident :: "string \<Rightarrow> string" where
  "rust_ident name = (let out = identifier_chars name in if out \<in> set TS_WORDS then out @ ''_'' else out)"

definition rust_field :: "string \<Rightarrow> string" where
  "rust_field name = (let out = identifier_chars name in if out \<in> set RUST_WORDS then out @ ''_'' else out)"

section \<open>Types\<close>

fun ts_base :: "column_type \<Rightarrow> string" where
  "ts_base TBoolean = ''boolean''"
| "ts_base TInt64 = ''number | bigint''"
| "ts_base TUInt64 = ''number | bigint''"
| "ts_base TDecimal = ''string''"
| "ts_base TString = ''string''"
| "ts_base TBytes = ''Uint8Array''"
| "ts_base TUuid = ''string''"
| "ts_base TTimestamp = ''Date''"
| "ts_base TDate = ''{ $date: string }''"
| "ts_base TJson = ''unknown''"
| "ts_base TArray = ''unknown[]''"
| "ts_base _ = ''number''"

definition ts_type_of :: "column_def \<Rightarrow> string" where
  "ts_type_of col = (if nullable col then ts_base (column_type col) @ '' | null'' else ts_base (column_type col))"

fun rs_base :: "column_type \<Rightarrow> string" where
  "rs_base TBoolean = ''bool''"
| "rs_base TInt8 = ''i8''"
| "rs_base TInt16 = ''i16''"
| "rs_base TInt32 = ''i32''"
| "rs_base TInt64 = ''i64''"
| "rs_base TUInt8 = ''u8''"
| "rs_base TUInt16 = ''u16''"
| "rs_base TUInt32 = ''u32''"
| "rs_base TUInt64 = ''u64''"
| "rs_base TFloat32 = ''f32''"
| "rs_base TFloat64 = ''f64''"
| "rs_base TBytes = ''Vec<u8>''"
| "rs_base TJson = ''serde_json::Value''"
| "rs_base TArray = ''Vec<serde_json::Value>''"
| "rs_base _ = ''String''"

definition rs_type_of :: "column_def \<Rightarrow> string" where
  "rs_type_of col = (if nullable col then ''Option<'' @ rs_base (column_type col) @ ''>'' else rs_base (column_type col))"

text \<open>The constructor of \<open>Value\<close> that a column is written with, and whether the field is cloned.\<close>

fun rs_variant :: "column_type \<Rightarrow> string \<times> bool" where
  "rs_variant TBoolean = (''Boolean'', False)"
| "rs_variant TInt8 = (''Int8'', False)"
| "rs_variant TInt16 = (''Int16'', False)"
| "rs_variant TInt32 = (''Int32'', False)"
| "rs_variant TInt64 = (''Int64'', False)"
| "rs_variant TUInt8 = (''UInt8'', False)"
| "rs_variant TUInt16 = (''UInt16'', False)"
| "rs_variant TUInt32 = (''UInt32'', False)"
| "rs_variant TUInt64 = (''UInt64'', False)"
| "rs_variant TFloat32 = (''Float32'', False)"
| "rs_variant TFloat64 = (''Float64'', False)"
| "rs_variant TBytes = (''Bytes'', True)"
| "rs_variant TJson = (''Json'', True)"
| "rs_variant TArray = (''Array'', True)"
| "rs_variant _ = (''String'', True)"

definition rs_to_value :: "column_def \<Rightarrow> string" where
  "rs_to_value col =
     (let (variant, clone) = rs_variant (column_type col);
          field = ''self.'' @ rust_field (col_name col) @ (if clone then ''.clone()'' else []) in
      if nullable col then field @ ''.map(Value::'' @ variant @ '').unwrap_or(Value::Null)''
      else ''Value::'' @ variant @ ''('' @ field @ '')'')"

section \<open>Files\<close>

text \<open>The dash of the header is U+2014.\<close>

definition gen_header :: "string \<Rightarrow> string" where
  "gen_header lang =
     ''// Generated by `blitz generate` '' @ [CHR 0xE2, CHR 0x80, CHR 0x94] @ '' do not hand-edit.'' @ nl @
     ''// Regenerate: blitz generate [--check]'' @ nl @ ''// '' @ lang @ '' bindings below.'' @ nl @ nl"

definition ts_table :: "table_schema \<Rightarrow> string" where
  "ts_table s =
     ''export const TABLE_'' @ scream (ts_name s) @ '' = '' @ quoted (ts_name s) @ '';'' @ nl @
     ''export interface '' @ pascal_case (ts_name s) @ ''Row {'' @ nl @
     concat (map (\<lambda>col. ''  '' @ col_name col @ '': '' @ ts_type_of col @ '';'' @ nl) (ts_columns s)) @ ''}'' @ nl @ nl"

definition render_ts_tables :: "(string \<times> table_schema) list \<Rightarrow> string" where
  "render_ts_tables schemas =
     gen_header ''TypeScript'' @
     ''// int64/uint64 are `number | bigint`: narrow with V.i64()/V.u64()'' @ nl @
     ''// when writing strict columns; reads may arrive as either.'' @ nl @
     ''// Row ids travel alongside (RowView.id); only columns are listed.'' @ nl @ nl @
     concat (map (\<lambda>(_, s). ts_table s) schemas)"

definition ts_function :: "procedure \<Rightarrow> string" where
  "ts_function p =
     ''export async function '' @ rust_ident (pc_name p) @ ''(db: Client, args: Record<string, Value>): Promise<CallResult> {'' @ nl @
     ''  return db.call('' @ quoted (pc_name p) @ '', args);'' @ nl @ ''}'' @ nl @ nl"

definition render_ts_functions :: "(string \<times> procedure) list \<Rightarrow> string" where
  "render_ts_functions procs =
     gen_header ''TypeScript'' @
     ''import type { Client, CallResult } from '' @ quoted ''@blitzdb/client'' @ '';'' @ nl @
     ''import type { Value } from '' @ quoted ''@blitzdb/client'' @ '';'' @ nl @ nl @
     ''// Procedure names (deploy with `blitz dev` or ProcDeploy).'' @ nl @
     concat (map (\<lambda>(_, p). ''export const FN_'' @ scream (pc_name p) @ '' = '' @ quoted (pc_name p) @ '';'' @ nl) procs) @ nl @
     ''// Argument shapes are caller-declared: procedures reference $vars'' @ nl @
     ''// without declared signatures (see PROTOCOL.md), so each wrapper'' @ nl @
     ''// takes the args record the procedure documents. Typed arg schemas'' @ nl @
     ''// are future work '' @ [CHR 0xE2, CHR 0x80, CHR 0x94] @ '' not faked here.'' @ nl @
     concat (map (\<lambda>(_, p). ts_function p) procs)"

definition rs_table :: "table_schema \<Rightarrow> string" where
  "rs_table s =
     (let strukt = pascal_case (ts_name s) @ ''Row'' in
      ''pub const TABLE_'' @ scream (ts_name s) @ '': &str = \"'' @ ts_name s @ ''\";'' @ nl @
      ''#[derive(Debug, Clone, Default)]'' @ nl @ ''pub struct '' @ strukt @ '' {'' @ nl @
      concat (map (\<lambda>col. ''    pub '' @ rust_field (col_name col) @ '': '' @ rs_type_of col @ '','' @ nl) (ts_columns s)) @
      ''}'' @ nl @ nl @ ''impl '' @ strukt @ '' {'' @ nl @
      ''    pub fn values(&self) -> HashMap<String, Value> {'' @ nl @ ''        let mut m = HashMap::new();'' @ nl @
      concat (map (\<lambda>col. ''        m.insert(\"'' @ col_name col @ ''\".to_string(), '' @ rs_to_value col @ '');'' @ nl) (ts_columns s)) @
      ''        m'' @ nl @ ''    }'' @ nl @ ''}'' @ nl @ nl)"

definition render_rs_tables :: "(string \<times> table_schema) list \<Rightarrow> string" where
  "render_rs_tables schemas =
     gen_header ''Rust'' @
     ''use std::collections::HashMap;'' @ nl @ ''use blitz_types::value::Value;'' @ nl @ nl @
     ''// Row structs mirror table shapes (see ts/tables.ts for docs).'' @ nl @
     ''// `values()` converts back to a write map (skips None fields).'' @ nl @ nl @
     concat (map (\<lambda>(_, s). rs_table s) schemas)"

section \<open>The manifest and the check\<close>

text \<open>An FNV hash in two renderings, under the name of another hash.\<close>

definition hex_digit :: "u64 \<Rightarrow> char" where
  "hex_digit n = ''0123456789abcdef'' ! unat (n AND 15)"

definition hex16 :: "u64 \<Rightarrow> string" where
  "hex16 n = map (\<lambda>k. hex_digit (drop_bit (4 * k) n)) (rev [0..<16])"

definition sha256_hex :: "u8 list \<Rightarrow> string" where
  "sha256_hex bytes =
     (let h = fold (\<lambda>b h. (h XOR ucast b) * 0x100000001b3) bytes (0xcbf29ce484222325 :: u64) in
      hex16 (word_rotl 13 h XOR 0x9e3779b97f4a7c15) @ hex16 h)"

definition schema_names :: "table_schema \<Rightarrow> (string \<times> string) list" where
  "schema_names s = map (\<lambda>col. (col_name col, column_type_name (column_type col))) (ts_columns s)"

record generate_env =
  ge_names_text :: "(string \<times> string) list \<Rightarrow> string"
  ge_pretty :: "json \<Rightarrow> string"
  ge_version :: string
  ge_read_error :: "string \<Rightarrow> string"
  ge_debug_str :: "string \<Rightarrow> string"
  ge_deploy :: deploy_env
  ge_builtins :: "function_registry \<Rightarrow> function_registry"

definition hasher_input :: "generate_env \<Rightarrow> (string \<times> table_schema) list \<Rightarrow> (string \<times> procedure) list \<Rightarrow> string" where
  "hasher_input g schemas procs =
     concat (map (\<lambda>(stem, s). stem @ '':'' @ ge_names_text g (schema_names s) @ '';'') schemas) @
     concat (map (\<lambda>(stem, p). stem @ '':'' @ pc_name p @ '';'') procs)"

record generated_set =
  gs_files :: "(string \<times> string) list"
  gs_manifest :: string

definition generate_set :: "generate_env \<Rightarrow> (string \<times> table_schema) list \<Rightarrow> (string \<times> procedure) list \<Rightarrow> generated_set" where
  "generate_set g schemas procs =
     (let schemas = sort_key (\<lambda>(_, s). ts_name s) schemas; procs = sort_key (\<lambda>(_, p). pc_name p) procs;
          files = [(''blitz.generated/rs/tables.rs'', render_rs_tables schemas),
                   (''blitz.generated/ts/functions.ts'', render_ts_functions procs),
                   (''blitz.generated/ts/tables.ts'', render_ts_tables schemas)] in
      \<lparr> gs_files = files,
        gs_manifest = ge_pretty g (JObject
          [(''files'', JArray (map (\<lambda>(f, _). JString f) files)),
           (''generator'', JString (''blitz-cli '' @ ge_version g)),
           (''inputs_sha256'', JString (sha256_hex (as_bytes (hasher_input g schemas procs))))]) \<rparr>)"

definition MANIFEST_PATH :: string where "MANIFEST_PATH = ''blitz.generated/manifest.json''"

definition write_set :: "generated_set \<Rightarrow> (string, string) hmap \<Rightarrow> (string, string) hmap" where
  "write_set gs project = hm_insert MANIFEST_PATH (gs_manifest gs) (fold (\<lambda>(f, t). hm_insert f t) (gs_files gs) project)"

definition verify_unchanged :: "(string, string) hmap \<Rightarrow> generated_set \<Rightarrow> string + unit" where
  "verify_unchanged project gs =
     (let stale = map fst (filter (\<lambda>(f, t). hm_get project f \<noteq> Some t) (gs_files gs)) @
                  (if hm_get project MANIFEST_PATH = Some (gs_manifest gs) then [] else [MANIFEST_PATH]) in
      if stale = [] then Ok () else Err (''stale generated files (run `blitz generate`): '' @ join '', '' stale))"

section \<open>Inputs\<close>

text \<open>The stem and the extension of a file name; a leading dot starts no extension.\<close>

definition split_ext :: "string \<Rightarrow> string \<times> string option" where
  "split_ext name =
     (let ext = takeWhile (\<lambda>c. c \<noteq> CHR ''.'') (rev name); n = length name - length ext in
      if n \<le> 1 then (name, None) else (take (n - 1) name, Some (rev ext)))"

definition sorted_json_files :: "(string \<times> 'a) list \<Rightarrow> (string \<times> 'a) list" where
  "sorted_json_files dir = sort_key fst (filter (\<lambda>(name, _). snd (split_ext name) = Some ''json'') dir)"

definition load_schema :: "generate_env \<Rightarrow> table_id \<Rightarrow> string \<Rightarrow> string option \<Rightarrow> deploy_stop + table_schema" where
  "load_schema g tid path body =
     (case body of
        None \<Rightarrow> Err (DeployErr (ge_read_error g path))
      | Some body \<Rightarrow>
          (case dp_from_str (ge_deploy g) body of
             Inl e \<Rightarrow> Err (DeployErr (path @ '': malformed JSON ('' @ e @ '')''))
           | Inr j \<Rightarrow>
               (case schema_from_json tid j of
                  Inl e \<Rightarrow> Err (DeployErr (path @ '': '' @ json_fault_text (ge_debug_str g) e))
                | Inr s \<Rightarrow> Ok s)))"

definition load_procedure :: "generate_env \<Rightarrow> string \<Rightarrow> string option \<Rightarrow> deploy_stop + procedure" where
  "load_procedure g path body =
     (case body of
        None \<Rightarrow> Err (DeployErr (ge_read_error g path))
      | Some body \<Rightarrow>
          (case deploy_from_json (ge_deploy g) body (ge_builtins g []) of
             Inl (DeployErr e) \<Rightarrow> Err (DeployErr (path @ '': '' @ e))
           | Inl DeployPanic \<Rightarrow> Err DeployPanic
           | Inr p \<Rightarrow> Ok p))"

text \<open>The first input that fails ends the run.\<close>

fun load_all :: "(string \<Rightarrow> string option \<Rightarrow> deploy_stop + 'a) \<Rightarrow> (string \<times> string option) list \<Rightarrow> deploy_stop + (string \<times> 'a) list" where
  "load_all load [] = Ok []"
| "load_all load ((name, body) # inputs) =
     (case load name body of
        Inl e \<Rightarrow> Err e
      | Inr x \<Rightarrow> map_sum id (Cons (fst (split_ext name), x)) (load_all load inputs))"

record project =
  pj_root :: string
  pj_schema :: "(string \<times> string option) list option"
  pj_functions :: "(string \<times> string option) list option"
  pj_files :: "(string, string) hmap"

definition dir_inputs :: "(string \<times> string option) list option \<Rightarrow> (string \<times> string option) list" where
  "dir_inputs dir = (case dir of None \<Rightarrow> [] | Some entries \<Rightarrow> sorted_json_files entries)"

text \<open>The identifiers of the schemas come from a counter; nothing of the output depends on them.\<close>

definition run_generate :: "generate_env \<Rightarrow> (string \<Rightarrow> table_id) \<Rightarrow> bool \<Rightarrow> project \<Rightarrow> (deploy_stop + generated_set) \<times> project" where
  "run_generate g tid check pj =
     (if pj_schema pj = None \<and> pj_functions pj = None
      then (Err (DeployErr (''no blitz/schema or blitz/functions in '' @ pj_root pj @ ''.'' @ nl @
              ''Create table schemas ({table, columns}) and/or procedure deploy envelopes ({v, procedure}) there first.'')), pj)
      else
        (case load_all (\<lambda>name. load_schema g (tid name) (pj_root pj @ ''/blitz/schema/'' @ name)) (dir_inputs (pj_schema pj)) of
           Inl e \<Rightarrow> (Err e, pj)
         | Inr schemas \<Rightarrow>
             (case load_all (\<lambda>name. load_procedure g (pj_root pj @ ''/blitz/functions/'' @ name)) (dir_inputs (pj_functions pj)) of
                Inl e \<Rightarrow> (Err e, pj)
              | Inr procs \<Rightarrow>
                  (let gs = generate_set g schemas procs in
                   if check
                   then (case verify_unchanged (pj_files pj) gs of
                           Inl e \<Rightarrow> (Err (DeployErr e), pj)
                         | Inr _ \<Rightarrow> (Ok gs, pj))
                   else (Ok gs, pj\<lparr>pj_files := write_set gs (pj_files pj)\<rparr>)))))"

section \<open>Properties\<close>

lemma check_written: "verify_unchanged (write_set (generate_set g schemas procs) files) (generate_set g schemas procs) = Ok ()"
  by (simp add: verify_unchanged_def write_set_def generate_set_def MANIFEST_PATH_def hm_simps Let_def)

lemma verify_unchanged_iff:
  "verify_unchanged files gs = Ok u \<longleftrightarrow>
     (\<forall>(f, t) \<in> set (gs_files gs). hm_get files f = Some t) \<and> hm_get files MANIFEST_PATH = Some (gs_manifest gs)"
  by (auto simp: verify_unchanged_def Let_def filter_empty_conv)

text \<open>A check is a run that compares instead of writing.\<close>

lemma check_is_run:
  "run_generate g tid True pj =
     (case fst (run_generate g tid False pj) of
        Inl e \<Rightarrow> (Err e, pj)
      | Inr gs \<Rightarrow>
          (case verify_unchanged (pj_files pj) gs of
             Inl e \<Rightarrow> (Err (DeployErr e), pj)
           | Inr _ \<Rightarrow> (Ok gs, pj)))"
  by (simp add: run_generate_def Let_def split: sum.split)

text \<open>
  A run that succeeds is reproducible: the check that follows it finds the same set and leaves the
  project alone. A check succeeds exactly when the run would succeed and every generated file and
  the manifest are in the project as it would write them.
\<close>

theorem check_after_generate:
  assumes "run_generate g tid False pj = (Ok gs, pj')"
  shows "run_generate g tid True pj' = (Ok gs, pj')"
  using assms by (auto simp: run_generate_def check_written Let_def split: if_splits sum.splits)

theorem check_detects_changes:
  "fst (run_generate g tid True pj) = Ok gs \<longleftrightarrow>
     fst (run_generate g tid False pj) = Ok gs \<and>
     (\<forall>(f, t) \<in> set (gs_files gs). hm_get (pj_files pj) f = Some t) \<and> hm_get (pj_files pj) MANIFEST_PATH = Some (gs_manifest gs)"
  using verify_unchanged_iff [of "pj_files pj" gs "()"]
  by (auto simp: check_is_run split: sum.splits)

text \<open>A generated field name consists of letters, digits and underscores, does not start with a digit and is no keyword.\<close>

lemma identifier_chars_shape:
  "identifier_chars name \<noteq> []" "\<not> ascii_digit (hd (identifier_chars name))"
  "c \<in> set (identifier_chars name) \<Longrightarrow> ascii_alphanumeric c \<or> c = CHR ''_''"
  by (auto simp: identifier_chars_def ascii_digit_def Let_def split: list.splits if_splits)

text \<open>
  The constructor that a row is written with is the one of the column's type for all types but
  four: decimals, UUIDs, timestamps and dates are written as strings, which the validation of the
  server refuses.
\<close>

fun built_with :: "val \<Rightarrow> string \<Rightarrow> bool" where
  "built_with (VBoolean _) v \<longleftrightarrow> v = ''Boolean''"
| "built_with (VInt8 _) v \<longleftrightarrow> v = ''Int8''"
| "built_with (VInt16 _) v \<longleftrightarrow> v = ''Int16''"
| "built_with (VInt32 _) v \<longleftrightarrow> v = ''Int32''"
| "built_with (VInt64 _) v \<longleftrightarrow> v = ''Int64''"
| "built_with (VUInt8 _) v \<longleftrightarrow> v = ''UInt8''"
| "built_with (VUInt16 _) v \<longleftrightarrow> v = ''UInt16''"
| "built_with (VUInt32 _) v \<longleftrightarrow> v = ''UInt32''"
| "built_with (VUInt64 _) v \<longleftrightarrow> v = ''UInt64''"
| "built_with (VFloat32 _) v \<longleftrightarrow> v = ''Float32''"
| "built_with (VFloat64 _) v \<longleftrightarrow> v = ''Float64''"
| "built_with (VString _) v \<longleftrightarrow> v = ''String''"
| "built_with (VBytes _) v \<longleftrightarrow> v = ''Bytes''"
| "built_with (VJson _) v \<longleftrightarrow> v = ''Json''"
| "built_with (VArray _) v \<longleftrightarrow> v = ''Array''"
| "built_with _ _ \<longleftrightarrow> False"

theorem generated_writes_typed:
  "built_with v (fst (rs_variant t)) \<Longrightarrow> value_matches_type v t \<longleftrightarrow> t \<notin> {TDecimal, TUuid, TTimestamp, TDate}"
  by (cases t; cases v) simp_all

text \<open>The fingerprint does not see whether a column may be null.\<close>

lemma fingerprint_ignores_nullability:
  "hasher_input g [(stem, with_column (schema_new i nm) (column_nullable c))] [] = hasher_input g [(stem, with_column (schema_new i nm) c)] []"
  by (simp add: hasher_input_def schema_names_def with_column_def schema_new_def column_nullable_def)

text \<open>A name without letters, digits or underscores becomes the single underscore, which is no field name.\<close>

lemma lone_underscore: "rust_field ''-'' = ''_''" "rust_field [] = ''_''"
  by code_simp+

end
