(* ===== verification/Dev_Watch.thy ===== *)
theory Dev_Watch
  imports Codegen
begin

text \<open>
  The watcher of the development server (\<open>blitz-cli/src/dev.rs\<close>): the envelopes of a directory are
  deployed at the start and again when the time of a file changes. A directory is absent or a list
  of file names with their modification times and contents (\<open>None\<close> where they cannot be read); the
  value \<open>None\<close> of a step stands for the panic of a malformed envelope. The listeners, the console and
  the timer are left out.
\<close>

section \<open>Deployment of a file\<close>

type_synonym mtime = "int option"
type_synonym watch_dir = "(string \<times> mtime \<times> string option) list"
type_synonym watched = "(string, mtime) hmap"

definition deploy_file :: "deploy_env \<Rightarrow> string option \<Rightarrow> server \<Rightarrow> server option" where
  "deploy_file dp body s =
     (case body of
        None \<Rightarrow> Some s
      | Some body \<Rightarrow>
          (case deploy_from_json dp body (sv_functions s) of
             Inl DeployPanic \<Rightarrow> None
           | Inl (DeployErr _) \<Rightarrow> Some s
           | Inr p \<Rightarrow> Some (snd (deploy_procedure p s))))"

fun initial_load :: "deploy_env \<Rightarrow> watch_dir \<Rightarrow> watched \<times> server \<Rightarrow> (watched \<times> server) option" where
  "initial_load dp [] (w, s) = Some (w, s)"
| "initial_load dp ((path, t, body) # files) (w, s) =
     Option.bind (deploy_file dp body s) (\<lambda>s. initial_load dp files (hm_insert path t w, s))"

fun poll_files :: "deploy_env \<Rightarrow> watch_dir \<Rightarrow> watched \<times> server \<Rightarrow> (watched \<times> server) option" where
  "poll_files dp [] (w, s) = Some (w, s)"
| "poll_files dp ((path, t, body) # files) (w, s) =
     (if hm_get w path \<noteq> Some t
      then Option.bind (deploy_file dp body s) (\<lambda>s. poll_files dp files (hm_insert path t w, s))
      else poll_files dp files (w, s))"

definition poll_procedures :: "deploy_env \<Rightarrow> watch_dir option \<Rightarrow> watched \<times> server \<Rightarrow> (watched \<times> server) option" where
  "poll_procedures dp dir st =
     (case dir of
        None \<Rightarrow> Some st
      | Some entries \<Rightarrow>
          (let files = sorted_json_files entries in
           map_option (\<lambda>(w, s). (filter (\<lambda>(p, _). p \<in> fst ` set files) w, s)) (poll_files dp files st)))"

definition dev_start :: "deploy_env \<Rightarrow> watch_dir option \<Rightarrow> server \<Rightarrow> (watched \<times> server) option" where
  "dev_start dp dir s =
     (case dir of None \<Rightarrow> Some ([], s) | Some entries \<Rightarrow> initial_load dp (sorted_json_files entries) ([], s))"

section \<open>Settled directories\<close>

lemma deploy_file_registry: "deploy_file dp body s = Some s' \<Longrightarrow> sv_functions s' = sv_functions s"
  by (auto simp: deploy_file_def deploy_procedure_def Let_def split: option.splits sum.splits deploy_stop.splits)

definition settled :: "watch_dir \<Rightarrow> watched \<Rightarrow> bool" where
  "settled files w \<longleftrightarrow> (\<forall>(path, t, _) \<in> set files. hm_get w path = Some t)"

lemma poll_settled: "settled files w \<Longrightarrow> poll_files dp files (w, s) = Some (w, s)"
  by (induction dp files "(w, s)" arbitrary: w s rule: poll_files.induct) (auto simp: settled_def)

lemma poll_files_frame: "poll_files dp files (w, s) = Some (w', s') \<Longrightarrow> p \<notin> fst ` set files \<Longrightarrow> hm_get w' p = hm_get w p"
  by (induction dp files "(w, s)" arbitrary: w s rule: poll_files.induct)
    (auto simp: hm_simps split: if_splits bind_splits)

lemma poll_files_settles:
  "poll_files dp files (w, s) = Some (w', s') \<Longrightarrow> distinct (map fst files) \<Longrightarrow> settled files w'"
proof (induction dp files "(w, s)" arbitrary: w s rule: poll_files.induct)
  case (2 dp path t body files w s)
  from "2.prems" obtain w1 s1 where rest: "poll_files dp files (w1, s1) = Some (w', s')" and new: "hm_get w1 path = Some t"
    by (auto simp: hm_simps split: if_splits bind_splits)
  have "settled files w'"
    using 2 by (auto split: if_splits bind_splits)
  moreover have "hm_get w' path = Some t"
    using poll_files_frame [OF rest, of path] new "2.prems"(2) by force
  ultimately show ?case
    by (auto simp: settled_def)
qed (simp add: settled_def)

lemma map_of_filter_key: "k \<in> K \<Longrightarrow> hm_get (filter (\<lambda>(p, _). p \<in> K) w) k = hm_get w k"
  by (induction w) auto

lemma settled_filter: "settled files w \<Longrightarrow> settled files (filter (\<lambda>(p, _). p \<in> fst ` set files) w)"
proof -
  assume w: "settled files w"
  have "hm_get (filter (\<lambda>(p, _). p \<in> fst ` set files) w) path = Some t" if "(path, t, body) \<in> set files" for path t body
    using w that map_of_filter_key [of path "fst ` set files" w] by (force simp: settled_def)
  then show ?thesis
    by (auto simp: settled_def)
qed

lemma sorted_json_files_distinct: "distinct (map fst entries) \<Longrightarrow> distinct (map fst (sorted_json_files entries))"
  by (auto simp: sorted_json_files_def distinct_map inj_on_def)

text \<open>
  A poll leaves the watcher with exactly the files of the directory and their times, so that the
  next poll of an unchanged directory deploys nothing; a file that is gone is forgotten, and its
  procedure stays.
\<close>

theorem poll_settles:
  assumes "poll_procedures dp (Some entries) (w, s) = Some (w', s')" and "distinct (map fst entries)"
  shows "poll_procedures dp (Some entries) (w', s') = Some (w', s')"
    and "hm_get w' p = map_option fst (map_of (sorted_json_files entries) p)"
proof -
  define files where "files = sorted_json_files entries"
  from assms(1) obtain v where polled: "poll_files dp files (w, s) = Some (v, s')"
    and w': "w' = filter (\<lambda>(p, _). p \<in> fst ` set files) v"
    by (auto simp: poll_procedures_def files_def Let_def)
  have d: "distinct (map fst files)"
    unfolding files_def by (rule sorted_json_files_distinct [OF assms(2)])
  have "settled files v"
    by (rule poll_files_settles [OF polled d])
  then have set: "settled files w'"
    unfolding w' by (rule settled_filter)
  then show "poll_procedures dp (Some entries) (w', s') = Some (w', s')"
    by (simp add: poll_procedures_def poll_settled w' flip: files_def)
  show "hm_get w' p = map_option fst (map_of (sorted_json_files entries) p)"
  proof (cases "map_of files p")
    case None
    then have "p \<notin> fst ` set w'"
      by (force simp: w' map_of_eq_None_iff)
    then have "hm_get w' p = None"
      by (simp add: map_of_eq_None_iff)
    with None show ?thesis
      by (simp add: files_def)
  next
    case (Some tb)
    then have "(p, tb) \<in> set files"
      by (rule map_of_SomeD)
    with set Some show ?thesis
      by (cases tb) (auto simp: settled_def files_def)
  qed
qed


end
