(* ===== verification/Templates.thy ===== *)
theory Templates
  imports Http_Listener Texts
begin

text \<open>
  Project templates of the command line (\<open>blitz-cli/src/compat.rs\<close>): manifests, their discovery in
  directories and in the binary, the resolver of versions, and \<open>run_init\<close>. The semver crate, the JSON
  texts and the network connection of the probe are parameters. Directories are trees, the console
  is a list of lines, printing is left out and writing a file succeeds. The paths of one directory
  are distinct, so sorting files is sorting their paths.
\<close>

section \<open>Manifests\<close>

definition TEMPLATE_MANIFEST :: string where "TEMPLATE_MANIFEST = ''blitz.template.json''"
definition PROJECT_FILE :: string where "PROJECT_FILE = ''blitz.project.json''"
definition MANIFEST_VERSION :: u32 where "MANIFEST_VERSION = 1"

record sdk_req =
  sdk_name :: string
  sdk_range :: string

record protocol_req =
  pr_min :: u8
  pr_max :: u8

record template_manifest =
  tm_manifest :: u32
  tm_name :: string
  tm_version :: string
  tm_language :: string
  tm_framework :: string
  tm_description :: string
  tm_sdk :: sdk_req
  tm_protocol :: protocol_req
  tm_server_min :: string

record discovered_template =
  dt_manifest :: template_manifest
  dt_files :: "(string \<times> u8 list) list"
  dt_source :: string

record project_record =
  pr_blitz_project :: u32
  pr_template :: string
  pr_template_version :: string
  pr_sdk :: string
  pr_sdk_version :: string
  pr_protocol :: u8
  pr_server_min :: string
  pr_verified :: bool

record known_versions =
  kv_sdks :: "(string, string) hmap"
  kv_server :: "string option"
  kv_protocol :: "u8 option"

record ('v, 'r) cli_env =
  ce_manifest :: "string \<Rightarrow> string + template_manifest"
  ce_version :: "string \<Rightarrow> 'v option"
  ce_req :: "string \<Rightarrow> 'r option"
  ce_matches :: "'r \<Rightarrow> 'v \<Rightarrow> bool"
  ce_older :: "'v \<Rightarrow> 'v \<Rightarrow> bool"
  ce_lossy :: "u8 list \<Rightarrow> string"
  ce_debug_str :: "string \<Rightarrow> string"
  ce_debug_error :: "string option \<Rightarrow> string"
  ce_trim :: "string \<Rightarrow> string"
  ce_record_text :: "project_record \<Rightarrow> u8 list"
  ce_io_error :: "string \<Rightarrow> string"
  ce_semver_error :: "string \<Rightarrow> string"

definition manifest_parse :: "('v, 'r) cli_env \<Rightarrow> string \<Rightarrow> string + template_manifest" where
  "manifest_parse c body =
     (case ce_manifest c body of
        Inl e \<Rightarrow> Err (''malformed manifest: '' @ e)
      | Inr m \<Rightarrow>
          if tm_manifest m \<noteq> MANIFEST_VERSION
          then Err (''unsupported manifest version '' @ nat_text (unat (tm_manifest m)) @ '' (want '' @ nat_text (unat MANIFEST_VERSION) @ '')'')
          else if tm_name m = [] \<or> 128 < length (tm_name m) then Err ''template name must be 1..=128 chars''
          else if ce_version c (tm_version m) = None then Err (''template version is not semver: '' @ tm_version m)
          else if tm_language m = [] then Err ''template language is required''
          else if sdk_name (tm_sdk m) = [] then Err ''template sdk.name is required''
          else if ce_req c (sdk_range (tm_sdk m)) = None
          then Err (''sdk range is not a valid semver req: '' @ sdk_range (tm_sdk m))
          else if pr_min (tm_protocol m) = 0 \<or> pr_max (tm_protocol m) < pr_min (tm_protocol m)
          then Err ''protocol window is empty (need 1 <= min <= max)''
          else if ce_version c (tm_server_min m) = None then Err (''server.min is not semver: '' @ tm_server_min m)
          else Ok m)"

section \<open>Discovery\<close>

text \<open>A file or a directory; \<open>None\<close> where reading it fails.\<close>

datatype fs_node = FsFile string "u8 list option" | FsDir string "fs_node list option"

definition slashes :: "string \<Rightarrow> string" where
  "slashes p = map (\<lambda>c. if c = CHR 0x5C then CHR ''/'' else c) p"

fun collect_node :: "('v, 'r) cli_env \<Rightarrow> string \<Rightarrow> string \<Rightarrow> fs_node \<Rightarrow> string + (string \<times> u8 list) list"
  and collect_files :: "('v, 'r) cli_env \<Rightarrow> string \<Rightarrow> string \<Rightarrow> fs_node list \<Rightarrow> string + (string \<times> u8 list) list" where
  "collect_node c base rel (FsFile name None) = Err (''read '' @ base @ ''/'' @ rel @ name @ '': '' @ ce_io_error c name)"
| "collect_node c base rel (FsFile name (Some bytes)) = Ok [(slashes (rel @ name), bytes)]"
| "collect_node c base rel (FsDir name None) = Err (''read '' @ base @ ''/'' @ rel @ name @ '': '' @ ce_io_error c name)"
| "collect_node c base rel (FsDir name (Some nodes)) = collect_files c base (rel @ name @ ''/'') nodes"
| "collect_files c base rel [] = Ok []"
| "collect_files c base rel (n # ns) =
     (case collect_node c base rel n of
        Inl e \<Rightarrow> Err e
      | Inr out \<Rightarrow> map_sum id (\<lambda>rest. out @ rest) (collect_files c base rel ns))"

fun file_named :: "string \<Rightarrow> fs_node list \<Rightarrow> u8 list option option" where
  "file_named name [] = None"
| "file_named name (FsFile n body # ns) = (if n = name then Some body else file_named name ns)"
| "file_named name (FsDir _ _ # ns) = file_named name ns"

definition read_template_dir ::
  "('v, 'r) cli_env \<Rightarrow> string \<Rightarrow> fs_node list option \<Rightarrow> string + template_manifest \<times> (string \<times> u8 list) list" where
  "read_template_dir c path dir =
     (case Option.bind (Option.bind dir (file_named TEMPLATE_MANIFEST)) (\<lambda>body. Option.bind body from_utf8) of
        None \<Rightarrow> Err (''no '' @ TEMPLATE_MANIFEST)
      | Some body \<Rightarrow>
          (case manifest_parse c body of
             Inl e \<Rightarrow> Err (path @ ''/'' @ TEMPLATE_MANIFEST @ '': '' @ e)
           | Inr m \<Rightarrow>
               (case collect_files c path [] (the dir) of
                  Inl e \<Rightarrow> Err e
                | Inr files \<Rightarrow> Ok (m, sort_key fst files))))"

text \<open>A broken template is a warning; a directory without a manifest is no template.\<close>

fun discover_entry :: "('v, 'r) cli_env \<Rightarrow> string \<Rightarrow> fs_node \<Rightarrow> discovered_template list \<times> string list" where
  "discover_entry c source (FsFile _ _) = ([], [])"
| "discover_entry c source (FsDir name dir) =
     (let path = source @ ''/'' @ name in
      case read_template_dir c path dir of
        Inr (m, files) \<Rightarrow> ([\<lparr> dt_manifest = m, dt_files = files, dt_source = source \<rparr>], [])
      | Inl e \<Rightarrow> ([], if Option.bind dir (file_named TEMPLATE_MANIFEST) = None then [] else [path @ '': '' @ e]))"

abbreviation template_name :: "discovered_template \<Rightarrow> string" where
  "template_name t \<equiv> tm_name (dt_manifest t)"

definition discover :: "('v, 'r) cli_env \<Rightarrow> (string \<times> fs_node list option) list \<Rightarrow> discovered_template list \<times> string list" where
  "discover c dirs =
     (let found = concat (map (\<lambda>(source, entries). map (discover_entry c source) (case entries of None \<Rightarrow> [] | Some es \<Rightarrow> es)) dirs) in
      (sort_key template_name (concat (map fst found)), concat (map snd found)))"

text \<open>Templates in the binary, as (template, path, contents).\<close>

definition by_template :: "(string \<times> string \<times> u8 list) list \<Rightarrow> (string \<times> (string \<times> u8 list) list) list" where
  "by_template bundle =
     map (\<lambda>name. (name, map snd (filter (\<lambda>(n, _). n = name) bundle))) (sort (remdups (map fst bundle)))"

definition bundled_entry :: "('v, 'r) cli_env \<Rightarrow> string \<times> (string \<times> u8 list) list \<Rightarrow> discovered_template list \<times> string list" where
  "bundled_entry c = (\<lambda>(name, files).
     let files = sort_key fst files in
     case map_of files TEMPLATE_MANIFEST of
       None \<Rightarrow> ([], [''bundled template '' @ quoted name @ '' lacks a manifest (build bug)''])
     | Some bytes \<Rightarrow>
         (case manifest_parse c (ce_lossy c bytes) of
            Inl e \<Rightarrow> ([], [''bundled template '' @ quoted name @ '': '' @ e])
          | Inr m \<Rightarrow>
              ([\<lparr> dt_manifest = m, dt_files = files, dt_source = ''bundled'' \<rparr>],
               if tm_name m \<noteq> name
               then [''bundled template dir '' @ quoted name @ '' declares name '' @ quoted (tm_name m) @ '' (using declared name)'']
               else [])))"

definition discover_bundled :: "('v, 'r) cli_env \<Rightarrow> (string \<times> string \<times> u8 list) list \<Rightarrow> discovered_template list \<times> string list" where
  "discover_bundled c bundle =
     (let found = map (bundled_entry c) (by_template bundle) in
      (sort_key template_name (concat (map fst found)), concat (map snd found)))"

text \<open>\<open>consider\<close>: the first template of a name is kept.\<close>

fun keep_first :: "discovered_template list \<Rightarrow> discovered_template list \<times> string list \<Rightarrow> discovered_template list \<times> string list" where
  "keep_first [] (found, warns) = (found, warns)"
| "keep_first (t # ts) (found, warns) =
     (if template_name t \<in> set (map template_name found)
      then keep_first ts (found, warns @ [''template '' @ quoted (template_name t) @ '' from '' @ dt_source t @
             '' shadows same-named template (using the first)''])
      else keep_first ts (found @ [t], warns))"

definition consider_all ::
  "discovered_template list \<times> string list \<Rightarrow> discovered_template list \<times> string list \<Rightarrow> discovered_template list \<times> string list" where
  "consider_all source acc =
     (let (found, warns) = keep_first (fst source) (fst acc, snd source) in (found, snd acc @ warns))"

record template_sources =
  src_explicit :: "(string \<times> fs_node list option) list"
  src_user :: "(string \<times> fs_node list option) option"
  src_bundle :: "(string \<times> string \<times> u8 list) list"

definition discover_all :: "('v, 'r) cli_env \<Rightarrow> template_sources \<Rightarrow> discovered_template list \<times> string list" where
  "discover_all c src =
     (let explicit = consider_all (discover c (src_explicit src)) ([], []);
          user = (case src_user src of None \<Rightarrow> explicit | Some d \<Rightarrow> consider_all (discover c [d]) explicit);
          (found, warnings) = consider_all (discover_bundled c (src_bundle src)) user in
      (sort_key template_name found, warnings))"

section \<open>Resolution\<close>

definition window_text :: "protocol_req \<Rightarrow> string" where
  "window_text p = ''v'' @ nat_text (unat (pr_min p)) @ [CHR 0xE2, CHR 0x80, CHR 0x93] @ ''v'' @ nat_text (unat (pr_max p))"

abbreviation line_break :: string where "line_break \<equiv> [CHR 0x0A]"

definition resolve_sdk :: "('v, 'r) cli_env \<Rightarrow> template_manifest \<Rightarrow> known_versions \<Rightarrow> string + string" where
  "resolve_sdk c m known =
     (case hm_get (kv_sdks known) (sdk_name (tm_sdk m)) of
        None \<Rightarrow> Err (''template '' @ quoted (tm_name m) @ '' needs SDK '' @ quoted (sdk_name (tm_sdk m)) @ '' ('' @ sdk_range (tm_sdk m) @
          ''), which is not installed/known.'' @ line_break @ ''Install it or pass --sdk-version name=version.'')
      | Some v \<Rightarrow>
          (case ce_version c v of
             None \<Rightarrow> Err (''known SDK version is not semver: '' @ v)
           | Some sdk \<Rightarrow>
               (case ce_req c (sdk_range (tm_sdk m)) of
                  None \<Rightarrow> Err ''unreachable: range pre-validated''
                | Some req \<Rightarrow>
                    if ce_matches c req sdk then Ok v
                    else Err (''template '' @ quoted (tm_name m) @ '' v'' @ tm_version m @ '' needs '' @ sdk_name (tm_sdk m) @ '' '' @
                      sdk_range (tm_sdk m) @ '', but '' @ v @ '' is installed.'' @ line_break @
                      ''Install a compatible SDK or pick another template.''))))"

definition resolve_protocol :: "template_manifest \<Rightarrow> known_versions \<Rightarrow> string + u8" where
  "resolve_protocol m known =
     (let needs = ''template '' @ quoted (tm_name m) @ '' needs protocol '' @ window_text (tm_protocol m) in
      case kv_protocol known of
        None \<Rightarrow> Err (needs @ '', but no server was probed.'' @ line_break @ ''Run against a live server or pass --protocol N.'')
      | Some p \<Rightarrow>
          if p < pr_min (tm_protocol m) \<or> pr_max (tm_protocol m) < p
          then Err (needs @ '', but the server speaks v'' @ nat_text (unat p) @ ''.'' @ line_break @ ''Upgrade the server or pick another template.'')
          else Ok p)"

definition resolve_server :: "('v, 'r) cli_env \<Rightarrow> template_manifest \<Rightarrow> known_versions \<Rightarrow> string + unit" where
  "resolve_server c m known =
     (case kv_server known of
        None \<Rightarrow> Err (''template '' @ quoted (tm_name m) @ '' needs server >= '' @ tm_server_min m @ '', but no server was probed.'' @ line_break @
          ''Run against a live server or pass --server-version X.Y.Z.'')
      | Some v \<Rightarrow>
          (case ce_version c v of
             None \<Rightarrow> Err (''server version is not semver: '' @ v)
           | Some server \<Rightarrow>
               (case ce_version c (tm_server_min m) of
                  None \<Rightarrow> Err ''unreachable: floor pre-validated''
                | Some least \<Rightarrow>
                    if ce_older c server least
                    then Err (''template '' @ quoted (tm_name m) @ '' needs BlitzDB server >= '' @ tm_server_min m @ '', but '' @ v @
                      '' is running.'' @ line_break @ ''Upgrade the server or pick another template.'')
                    else Ok ())))"

definition resolve_template :: "('v, 'r) cli_env \<Rightarrow> discovered_template \<Rightarrow> known_versions \<Rightarrow> string + project_record" where
  "resolve_template c t known =
     (let m = dt_manifest t in
      case resolve_sdk c m known of
        Inl e \<Rightarrow> Err e
      | Inr sdk_version \<Rightarrow>
          (case resolve_protocol m known of
             Inl e \<Rightarrow> Err e
           | Inr protocol \<Rightarrow>
               (case resolve_server c m known of
                  Inl e \<Rightarrow> Err e
                | Inr _ \<Rightarrow>
                    Ok \<lparr> pr_blitz_project = 1, pr_template = tm_name m, pr_template_version = tm_version m,
                         pr_sdk = sdk_name (tm_sdk m), pr_sdk_version = sdk_version, pr_protocol = protocol,
                         pr_server_min = tm_server_min m, pr_verified = True \<rparr>)))"

definition known_complete :: "known_versions \<Rightarrow> bool" where
  "known_complete known \<longleftrightarrow> kv_sdks known \<noteq> [] \<and> kv_server known \<noteq> None \<and> kv_protocol known \<noteq> None"

definition unverified_record :: "discovered_template \<Rightarrow> project_record" where
  "unverified_record t =
     (let m = dt_manifest t in
      \<lparr> pr_blitz_project = 1, pr_template = tm_name m, pr_template_version = tm_version m,
        pr_sdk = sdk_name (tm_sdk m), pr_sdk_version = [], pr_protocol = pr_min (tm_protocol m),
        pr_server_min = tm_server_min m, pr_verified = False \<rparr>)"

section \<open>The probe\<close>

record server_info =
  si_server :: string
  si_protocol :: u8

text \<open>The answer to the version request; the number of the protocol is cut to a byte.\<close>

definition probe_server :: "('v, 'r) cli_env \<Rightarrow> (string \<Rightarrow> int \<Rightarrow> string + response) \<Rightarrow> string \<Rightarrow> int \<Rightarrow> string + server_info" where
  "probe_server c connect host port =
     (case connect host port of
        Inl e \<Rightarrow> Err e
      | Inr resp \<Rightarrow>
          if \<not> rs_ok resp then Err (''server refused version check: '' @ ce_debug_error c (rs_error resp))
          else
            (case rs_rows resp of
               [] \<Rightarrow> Err ''empty version response''
             | row # _ \<Rightarrow>
                 (case hm_get (rv_values row) ''server'' of
                    Some (VString server) \<Rightarrow>
                      (case hm_get (rv_values row) ''protocol'' of
                         Some (VInt64 n) \<Rightarrow> Ok \<lparr> si_server = server, si_protocol = ucast n \<rparr>
                       | Some (VUInt64 n) \<Rightarrow> Ok \<lparr> si_server = server, si_protocol = ucast n \<rparr>
                       | _ \<Rightarrow> Err ''version response missing protocol int'')
                  | _ \<Rightarrow> Err ''version response missing server string'')))"

section \<open>Scaffolding\<close>

datatype init_target = Missing | NotDirectory | Directory "string list"

record init_args =
  ia_dir :: string
  ia_template :: "string option"
  ia_sdk_version :: "string list"
  ia_server :: "string option"
  ia_server_version :: "string option"
  ia_protocol :: "u8 option"
  ia_yes :: bool

fun known_sdks :: "('v, 'r) cli_env \<Rightarrow> string list \<Rightarrow> (string, string) hmap \<Rightarrow> string + (string, string) hmap" where
  "known_sdks c [] m = Ok m"
| "known_sdks c (kv # kvs) m =
     (case split_once (CHR ''='') kv of
        None \<Rightarrow> Err (''--sdk-version must be name=version, got '' @ ce_debug_str c kv)
      | Some (name, ver) \<Rightarrow> known_sdks c kvs (hm_insert name ver m))"

definition known_server :: "('v, 'r) cli_env \<Rightarrow> (string \<Rightarrow> int \<Rightarrow> string + response) \<Rightarrow> string option \<Rightarrow> string + server_info option" where
  "known_server c connect server =
     (case server of
        None \<Rightarrow> Ok None
      | Some addr \<Rightarrow>
          (case split_once (CHR '':'') addr of
             None \<Rightarrow> Err (''--server must be host:port, got '' @ ce_debug_str c addr)
           | Some (host, port) \<Rightarrow>
               (case parse_unsigned 0x10000 port of
                  None \<Rightarrow> Err (''bad port in --server '' @ ce_debug_str c addr)
                | Some port \<Rightarrow>
                    (case probe_server c connect host port of
                       Inl e \<Rightarrow> Err (''server probe failed: '' @ e)
                     | Inr info \<Rightarrow> Ok (Some info)))))"

definition or_else :: "'a option \<Rightarrow> 'a option \<Rightarrow> 'a option" where
  "or_else a b = (case a of None \<Rightarrow> b | Some _ \<Rightarrow> a)"

definition known_versions_of ::
  "('v, 'r) cli_env \<Rightarrow> (string \<Rightarrow> int \<Rightarrow> string + response) \<Rightarrow> init_args \<Rightarrow> string + known_versions" where
  "known_versions_of c connect a =
     (case known_sdks c (ia_sdk_version a) [] of
        Inl e \<Rightarrow> Err e
      | Inr sdks \<Rightarrow>
          (case known_server c connect (ia_server a) of
             Inl e \<Rightarrow> Err e
           | Inr info \<Rightarrow>
               Ok \<lparr> kv_sdks = sdks, kv_server = or_else (ia_server_version a) (map_option si_server info),
                    kv_protocol = or_else (ia_protocol a) (map_option si_protocol info) \<rparr>))"

fun is_Ok :: "'e + 'a \<Rightarrow> bool" where
  "is_Ok (Inr _) = True"
| "is_Ok (Inl _) = False"

fun position :: "('a \<Rightarrow> bool) \<Rightarrow> 'a list \<Rightarrow> nat option" where
  "position P [] = None"
| "position P (x # xs) = (if P x then Some 0 else map_option Suc (position P xs))"

text \<open>The number that the user types, or at the end of the input the first template that will do.\<close>

definition pick_template ::
  "('v, 'r) cli_env \<Rightarrow> discovered_template list \<Rightarrow> known_versions \<Rightarrow> bool \<Rightarrow> string list \<Rightarrow> (string + discovered_template) \<times> string list" where
  "pick_template c found known strict stdin =
     (let choice =
        (case stdin of
           [] \<Rightarrow>
             (case position (\<lambda>t. is_Ok (resolve_template c t known) \<or> \<not> strict) found of
                None \<Rightarrow> Err ''no compatible template (all failed resolution; see list above)''
              | Some i \<Rightarrow> Ok (int i + 1))
         | line # _ \<Rightarrow>
             (case parse_unsigned 0x10000000000000000 (ce_trim c line) of
                None \<Rightarrow> Err (''expected a number, got '' @ ce_debug_str c (ce_trim c line))
              | Some n \<Rightarrow> Ok n)) in
      (case choice of
         Inl e \<Rightarrow> Err e
       | Inr n \<Rightarrow>
           if n < 1 \<or> int (length found) < n then Err (''choice out of range 1..='' @ nat_text (length found))
           else
             (let t = found ! nat (n - 1) in
              case resolve_template c t known of
                Inl e \<Rightarrow> if strict then Err (''that template is incompatible:'' @ line_break @ e) else Ok t
              | Inr _ \<Rightarrow> Ok t), tl stdin))"

definition choose_template ::
  "('v, 'r) cli_env \<Rightarrow> init_args \<Rightarrow> discovered_template list \<Rightarrow> known_versions \<Rightarrow> string list \<Rightarrow> (string + discovered_template) \<times> string list" where
  "choose_template c a found known stdin =
     (case ia_template a of
        Some name \<Rightarrow>
          (case find (\<lambda>t. template_name t = name) found of
             None \<Rightarrow> Err (''template '' @ ce_debug_str c name @ '' not found among: '' @ join '', '' (map template_name found))
           | Some t \<Rightarrow> Ok t, stdin)
      | None \<Rightarrow>
          if ia_yes a then
            (if \<not> known_complete known
             then Err (''cannot verify compatibility non-interactively: no SDK/server versions known.'' @ line_break @
               ''Pass --sdk-version name=ver with --server-version X.Y.Z --protocol N,'' @ line_break @
               ''or --server host:port for a live probe, or pick interactively.'')
             else
               (case find (\<lambda>t. is_Ok (resolve_template c t known)) found of
                  None \<Rightarrow> Err ''--yes given but no template is fully compatible (see --help for overrides)''
                | Some t \<Rightarrow> Ok t), stdin)
          else pick_template c found known (known_complete known) stdin)"

definition declines :: "('v, 'r) cli_env \<Rightarrow> string list \<Rightarrow> bool" where
  "declines c stdin \<longleftrightarrow> (case stdin of [] \<Rightarrow> False | line # _ \<Rightarrow> ascii_lower (ce_trim c line) \<in> {''n'', ''no''})"

datatype init_result = InitAborted | InitCreated project_record "(string, u8 list) hmap"

definition write_files :: "(string \<times> u8 list) list \<Rightarrow> (string, u8 list) hmap" where
  "write_files files = fold (\<lambda>(rel, bytes). hm_insert rel bytes) files []"

definition scaffold :: "('v, 'r) cli_env \<Rightarrow> discovered_template \<Rightarrow> known_versions \<Rightarrow> string + init_result" where
  "scaffold c t known =
     (case (if known_complete known then resolve_template c t known else Ok (unverified_record t)) of
        Inl e \<Rightarrow> Err (''incompatible template:'' @ line_break @ e)
      | Inr rec \<Rightarrow> Ok (InitCreated rec (hm_insert PROJECT_FILE (ce_record_text c rec) (write_files (dt_files t)))))"

definition run_init ::
  "('v, 'r) cli_env \<Rightarrow> template_sources \<Rightarrow> (string \<Rightarrow> int \<Rightarrow> string + response) \<Rightarrow> init_target \<Rightarrow> string list \<Rightarrow> init_args \<Rightarrow> string + init_result" where
  "run_init c src connect target stdin a =
     (if target \<noteq> Missing \<and> target \<noteq> Directory [] then Err (''directory '' @ ia_dir a @ '' exists and is not empty'')
      else
        (let found = fst (discover_all c src) in
         if found = []
         then Err (''no templates found (explicit --templates dirs, ~/.blitzdb/templates, bundled).'' @ line_break @
           ''Point --templates <dir> (repeatable) at directories whose immediate subdirectories each carry a blitz.template.json.'')
         else
           (case known_versions_of c connect a of
              Inl e \<Rightarrow> Err e
            | Inr known \<Rightarrow>
                (case choose_template c a found known stdin of
                   (Inl e, _) \<Rightarrow> Err e
                 | (Inr t, stdin) \<Rightarrow>
                     if \<not> ia_yes a \<and> declines c stdin then Ok InitAborted else scaffold c t known))))"

definition sdk_install_hint :: "string \<Rightarrow> string \<Rightarrow> string option" where
  "sdk_install_hint sdk language =
     (let l = ascii_lower language in
      if contains_sub l ''typescript'' \<or> contains_sub l ''javascript'' then Some (''npm install '' @ sdk)
      else if contains_sub l ''python'' then Some (''pip install '' @ sdk)
      else if contains_sub l ''go'' then Some (''go get '' @ sdk)
      else if contains_sub l ''rust'' then Some (''cargo add '' @ sdk)
      else None)"

section \<open>The release check\<close>

record release_check_result =
  rk_name :: string
  rk_pass :: bool
  rk_detail :: string

definition template_problems :: "('v, 'r) cli_env \<Rightarrow> string \<Rightarrow> 'v \<Rightarrow> discovered_template \<Rightarrow> string list" where
  "template_problems c server_version own t =
     (let m = dt_manifest t in
      (if PROTOCOL_VERSION < pr_min (tm_protocol m) \<or> pr_max (tm_protocol m) < PROTOCOL_VERSION
       then [''protocol window '' @ window_text (tm_protocol m) @ '' excludes this binary (v'' @ nat_text (unat PROTOCOL_VERSION) @ '')'']
       else []) @
      (case ce_version c (tm_server_min m) of
         None \<Rightarrow> [''server.min is not semver: '' @ tm_server_min m]
       | Some least \<Rightarrow>
           if ce_older c own least
           then [''server floor '' @ tm_server_min m @ '' is newer than this binary ('' @ server_version @ '')'']
           else []) @
      (if dt_files t = [] then [''template has no files''] else []))"

definition template_check :: "('v, 'r) cli_env \<Rightarrow> string \<Rightarrow> 'v \<Rightarrow> discovered_template \<Rightarrow> release_check_result" where
  "template_check c server_version own t =
     (let m = dt_manifest t; problems = template_problems c server_version own t in
      if problems = []
      then \<lparr> rk_name = ''template'', rk_pass = True,
             rk_detail = tm_name m @ '' v'' @ tm_version m @ '' ('' @ nat_text (length (dt_files t)) @ '' files)'' \<rparr>
      else \<lparr> rk_name = ''template'', rk_pass = False, rk_detail = tm_name m @ '': '' @ join ''; '' problems \<rparr>)"

definition scaffold_check :: "discovered_template \<Rightarrow> release_check_result" where
  "scaffold_check t =
     \<lparr> rk_name = ''scaffold'', rk_pass = True,
       rk_detail = template_name t @ '' materialized ('' @ nat_text (length (dt_files t)) @ '' files)'' \<rparr>"

definition release_check ::
  "('v, 'r) cli_env \<Rightarrow> (string \<times> string \<times> u8 list) list \<Rightarrow> string \<Rightarrow> string \<Rightarrow> release_check_result list" where
  "release_check c bundle cli_version server_version =
     (let version = (if ce_version c cli_version \<noteq> None
            then \<lparr> rk_name = ''version-metadata'', rk_pass = True, rk_detail = ''blitz-cli v'' @ cli_version \<rparr>
            else \<lparr> rk_name = ''version-metadata'', rk_pass = False,
                   rk_detail = ''CARGO_PKG_VERSION is not semver: '' @ ce_semver_error c cli_version \<rparr>);
          (found, warnings) = discover_bundled c bundle;
          start = version # map (\<lambda>w. \<lparr> rk_name = ''bundled-manifest'', rk_pass = False, rk_detail = w \<rparr>) warnings in
      if found = []
      then start @ [\<lparr> rk_name = ''bundled-templates'', rk_pass = False,
             rk_detail = ''no bundled templates (release without templates is a build bug)'' \<rparr>]
      else
        (case ce_version c server_version of
           None \<Rightarrow> start @ [\<lparr> rk_name = ''server-version'', rk_pass = False,
             rk_detail = ''SERVER_VERSION is not semver: '' @ ce_semver_error c server_version \<rparr>]
         | Some own \<Rightarrow> start @ map (template_check c server_version own) found @ map scaffold_check found))"

section \<open>Discovered templates\<close>

definition valid_manifest :: "('v, 'r) cli_env \<Rightarrow> template_manifest \<Rightarrow> bool" where
  "valid_manifest c m \<longleftrightarrow>
     tm_manifest m = MANIFEST_VERSION \<and> tm_name m \<noteq> [] \<and> length (tm_name m) \<le> 128 \<and> ce_version c (tm_version m) \<noteq> None \<and>
     tm_language m \<noteq> [] \<and> sdk_name (tm_sdk m) \<noteq> [] \<and> ce_req c (sdk_range (tm_sdk m)) \<noteq> None \<and>
     0 < pr_min (tm_protocol m) \<and> pr_min (tm_protocol m) \<le> pr_max (tm_protocol m) \<and> ce_version c (tm_server_min m) \<noteq> None"

lemma manifest_parse_valid: "manifest_parse c body = Ok m \<Longrightarrow> valid_manifest c m"
  by (auto simp: manifest_parse_def valid_manifest_def word_gt_0 not_less split: sum.splits if_splits)

lemma discover_entry_valid: "t \<in> set (fst (discover_entry c source e)) \<Longrightarrow> valid_manifest c (dt_manifest t)"
  by (cases e) (auto simp: read_template_dir_def Let_def dest: manifest_parse_valid split: sum.splits option.splits)

lemma discover_valid: "t \<in> set (fst (discover c dirs)) \<Longrightarrow> valid_manifest c (dt_manifest t)"
  by (auto simp: discover_def Let_def image_iff split: option.splits) (metis discover_entry_valid fst_conv)

lemma discover_bundled_valid: "t \<in> set (fst (discover_bundled c bundle)) \<Longrightarrow> valid_manifest c (dt_manifest t)"
  by (auto simp: discover_bundled_def bundled_entry_def Let_def dest: manifest_parse_valid split: sum.splits option.splits if_splits)

lemma keep_first_set: "set (fst (keep_first ts (found, warns))) \<subseteq> set found \<union> set ts"
  by (induction ts "(found, warns)" arbitrary: found warns rule: keep_first.induct) (simp, simp, blast)

lemma keep_first_distinct:
  "distinct (map template_name found) \<Longrightarrow> distinct (map template_name (fst (keep_first ts (found, warns))))"
  by (induction ts "(found, warns)" arbitrary: found warns rule: keep_first.induct) auto

lemma find_append: "find P (xs @ ys) = (case find P xs of None \<Rightarrow> find P ys | Some x \<Rightarrow> Some x)"
  by (induction xs) auto

lemma keep_first_find:
  "find (\<lambda>t. template_name t = n) (fst (keep_first ts (found, warns))) = find (\<lambda>t. template_name t = n) (found @ ts)"
proof (induction ts "(found, warns)" arbitrary: found warns rule: keep_first.induct)
  case (2 t ts found warns)
  have "find (\<lambda>t. template_name t = n) found \<noteq> None" if "template_name t \<in> set (map template_name found)" "template_name t = n"
    using that by (auto simp: find_None_iff)
  with 2 show ?case
    by (auto simp: find_append split: option.split)
qed simp

lemma consider_all_fst [simp]: "fst (consider_all source acc) = fst (keep_first (fst source) (fst acc, snd source))"
  by (simp add: consider_all_def case_prod_beta Let_def)

definition user_templates :: "('v, 'r) cli_env \<Rightarrow> template_sources \<Rightarrow> discovered_template list" where
  "user_templates c src = (case src_user src of None \<Rightarrow> [] | Some d \<Rightarrow> fst (discover c [d]))"

definition kept_templates :: "('v, 'r) cli_env \<Rightarrow> template_sources \<Rightarrow> discovered_template list" where
  "kept_templates c src =
     fst (keep_first (fst (discover_bundled c (src_bundle src)))
       (fst (keep_first (user_templates c src)
          (fst (keep_first (fst (discover c (src_explicit src))) ([], snd (discover c (src_explicit src)))),
           snd (discover c [the (src_user src)]))),
        snd (discover_bundled c (src_bundle src))))"

lemma discover_all_fst: "fst (discover_all c src) = sort_key template_name (kept_templates c src)"
  by (cases "src_user src") (simp_all add: discover_all_def kept_templates_def user_templates_def case_prod_beta Let_def)

lemma kept_distinct: "distinct (map template_name (kept_templates c src))"
  by (simp add: kept_templates_def keep_first_distinct)

lemma find_by_name:
  assumes "distinct (map template_name ts)"
  shows "find (\<lambda>t. template_name t = n) ts = Some t \<longleftrightarrow> t \<in> set ts \<and> template_name t = n"
  using assms by (induction ts) auto

lemma find_sort:
  assumes "distinct (map template_name ts)"
  shows "find (\<lambda>t. template_name t = n) (sort_key template_name ts) = find (\<lambda>t. template_name t = n) ts"
proof -
  have "distinct (map template_name (sort_key template_name ts))"
    using assms by (simp add: distinct_map)
  then have "find (\<lambda>t. template_name t = n) (sort_key template_name ts) = Some t \<longleftrightarrow> find (\<lambda>t. template_name t = n) ts = Some t" for t
    using assms by (simp add: find_by_name)
  then show ?thesis
    by (metis option.exhaust)
qed

lemma kept_find:
  "find (\<lambda>t. template_name t = n) (kept_templates c src) =
     find (\<lambda>t. template_name t = n)
       (fst (discover c (src_explicit src)) @ user_templates c src @ fst (discover_bundled c (src_bundle src)))"
  by (simp add: kept_templates_def keep_first_find find_append split: option.split)

text \<open>
  The templates on offer have distinct names, in order; a name stands for its first template among
  the directories given, the user's directory and the binary; and each has passed the checks of
  its manifest.
\<close>

theorem discovery_shadows:
  "sorted (map template_name (fst (discover_all c src)))"
  "distinct (map template_name (fst (discover_all c src)))"
  "find (\<lambda>t. template_name t = n) (fst (discover_all c src)) =
     find (\<lambda>t. template_name t = n)
       (fst (discover c (src_explicit src)) @ user_templates c src @ fst (discover_bundled c (src_bundle src)))"
  using kept_distinct [of c src]
  by (simp_all add: discover_all_fst distinct_map find_sort [OF kept_distinct] kept_find)

lemma discovered_valid: "t \<in> set (fst (discover_all c src)) \<Longrightarrow> valid_manifest c (dt_manifest t)"
  by (auto simp: discover_all_fst kept_templates_def user_templates_def
      dest!: keep_first_set [THEN subsetD] dest: discover_valid discover_bundled_valid split: option.splits)

section \<open>Resolved versions\<close>

definition compatible :: "('v, 'r) cli_env \<Rightarrow> template_manifest \<Rightarrow> known_versions \<Rightarrow> bool" where
  "compatible c m known \<longleftrightarrow>
     (\<exists>v sdk req. hm_get (kv_sdks known) (sdk_name (tm_sdk m)) = Some v \<and> ce_version c v = Some sdk \<and>
        ce_req c (sdk_range (tm_sdk m)) = Some req \<and> ce_matches c req sdk) \<and>
     (\<exists>p. kv_protocol known = Some p \<and> pr_min (tm_protocol m) \<le> p \<and> p \<le> pr_max (tm_protocol m)) \<and>
     (\<exists>v server least. kv_server known = Some v \<and> ce_version c v = Some server \<and> ce_version c (tm_server_min m) = Some least \<and>
        \<not> ce_older c server least)"

text \<open>
  The resolver accepts a template exactly when the SDK is in its range, the protocol in its window
  and the server no older than its minimum, and pins these versions; no template that was
  discovered meets the errors called unreachable.
\<close>

lemma resolve_sdk_Ok:
  "resolve_sdk c m known = Ok v \<longleftrightarrow>
     hm_get (kv_sdks known) (sdk_name (tm_sdk m)) = Some v \<and>
     (\<exists>sdk req. ce_version c v = Some sdk \<and> ce_req c (sdk_range (tm_sdk m)) = Some req \<and> ce_matches c req sdk)"
  by (auto simp: resolve_sdk_def split: option.split)

lemma resolve_protocol_Ok:
  "resolve_protocol m known = Ok p \<longleftrightarrow> kv_protocol known = Some p \<and> pr_min (tm_protocol m) \<le> p \<and> p \<le> pr_max (tm_protocol m)"
  by (auto simp: resolve_protocol_def not_less not_le Let_def split: option.split)

lemma resolve_server_Ok:
  "resolve_server c m known = Ok u \<longleftrightarrow>
     (\<exists>v server least. kv_server known = Some v \<and> ce_version c v = Some server \<and> ce_version c (tm_server_min m) = Some least \<and>
        \<not> ce_older c server least)"
  by (auto simp: resolve_server_def split: option.split)

lemmas resolve_parts = resolve_sdk_Ok resolve_protocol_Ok resolve_server_Ok

lemma resolve_Ok:
  "resolve_template c t known = Ok rec \<longleftrightarrow>
     (\<exists>v p. resolve_sdk c (dt_manifest t) known = Ok v \<and> resolve_protocol (dt_manifest t) known = Ok p \<and>
        resolve_server c (dt_manifest t) known = Ok () \<and>
        rec = (unverified_record t)\<lparr> pr_sdk_version := v, pr_protocol := p, pr_verified := True \<rparr>)"
  by (auto simp: resolve_template_def unverified_record_def Let_def split: sum.split)

theorem resolve_accepts_compatible: "is_Ok (resolve_template c t known) \<longleftrightarrow> compatible c (dt_manifest t) known"
proof -
  have "is_Ok r \<longleftrightarrow> (\<exists>x. r = Ok x)" for r :: "string + project_record"
    by (cases r) auto
  then show ?thesis
    by (auto simp: resolve_Ok resolve_parts compatible_def)
qed

theorem discovered_never_unreachable:
  assumes "t \<in> set (fst (discover_all c src))"
  shows "resolve_template c t known \<noteq> Err ''unreachable: range pre-validated''"
    and "resolve_template c t known \<noteq> Err ''unreachable: floor pre-validated''"
  using discovered_valid [OF assms]
  by (auto simp: valid_manifest_def resolve_template_def resolve_sdk_def resolve_protocol_def resolve_server_def Let_def
      split: option.splits sum.splits if_splits)

lemma template_check_pass: "rk_pass (template_check c sv own t) \<longleftrightarrow> template_problems c sv own t = []"
  by (simp add: template_check_def Let_def)

lemma release_check_pass:
  assumes "list_all rk_pass (release_check c bundle cv sv)"
  shows "fst (discover_bundled c bundle) \<noteq> [] \<and>
    (\<exists>own. ce_version c sv = Some own \<and> list_all (\<lambda>t. rk_pass (template_check c sv own t)) (fst (discover_bundled c bundle)))"
  using assms
  by (cases "discover_bundled c bundle"; cases "ce_version c sv"; cases "fst (discover_bundled c bundle) = []")
    (simp_all add: release_check_def list.pred_map o_def Let_def)

text \<open>
  A release whose checks pass carries templates, all of them compatible with its own protocol and
  server for every SDK in their range.
\<close>

theorem released_templates_compatible:
  assumes "list_all rk_pass (release_check c bundle cli_version server_version)"
    and "kv_protocol known = Some PROTOCOL_VERSION" and "kv_server known = Some server_version"
  shows "fst (discover_bundled c bundle) \<noteq> [] \<and>
    (\<forall>t \<in> set (fst (discover_bundled c bundle)).
       compatible c (dt_manifest t) known \<longleftrightarrow> is_Ok (resolve_sdk c (dt_manifest t) known))"
proof -
  have all: "fst (discover_bundled c bundle) \<noteq> []" and "\<exists>own. ce_version c server_version = Some own \<and>
      (\<forall>t \<in> set (fst (discover_bundled c bundle)). template_problems c server_version own t = [])"
    using release_check_pass [OF assms(1)] by (auto simp: list_all_iff template_check_pass)
  then obtain own where own: "ce_version c server_version = Some own"
    and good: "\<And>t. t \<in> set (fst (discover_bundled c bundle)) \<Longrightarrow> template_problems c server_version own t = []"
    by blast
  have sdk: "is_Ok r \<longleftrightarrow> (\<exists>x. r = Ok x)" for r :: "string + string"
    by (cases r) auto
  have "compatible c (dt_manifest t) known \<longleftrightarrow> is_Ok (resolve_sdk c (dt_manifest t) known)"
    if "t \<in> set (fst (discover_bundled c bundle))" for t
    using good [OF that] own assms(2,3)
    by (auto simp: template_problems_def compatible_def sdk resolve_sdk_Ok not_less Let_def split: if_splits option.splits)
  with all show ?thesis
    by blast
qed

section \<open>Scaffolded projects\<close>

lemma run_init_Ok:
  assumes "run_init c src connect target stdin a = Ok (InitCreated rec files)"
  obtains t known rest where "target = Missing \<or> target = Directory []"
    and "known_versions_of c connect a = Ok known"
    and "choose_template c a (fst (discover_all c src)) known stdin = (Ok t, rest)"
    and "scaffold c t known = Ok (InitCreated rec files)"
  using assms by (auto simp: run_init_def Let_def split: if_splits sum.splits prod.splits)

lemma choose_template_found:
  "choose_template c a found known stdin = (Ok t, rest) \<Longrightarrow> t \<in> set found"
  by (auto simp: choose_template_def pick_template_def find_Some_iff Let_def split: option.splits if_splits sum.splits list.splits)

lemma scaffold_Ok:
  assumes "scaffold c t known = Ok (InitCreated rec files)"
  shows "files = hm_insert PROJECT_FILE (ce_record_text c rec) (write_files (dt_files t))"
    and "rec = (if known_complete known then rec else unverified_record t)"
    and "known_complete known \<Longrightarrow> resolve_template c t known = Ok rec"
  using assms by (auto simp: scaffold_def split: sum.splits if_splits)

text \<open>
  A project is created only in a fresh directory, from a template that was discovered, with the
  files of that template and its record; and the record is verified exactly when an SDK, a server
  and a protocol version were all known, in which case the template is compatible with them.
\<close>

theorem init_creates_verified:
  assumes "run_init c src connect target stdin a = Ok (InitCreated rec files)"
  shows "target = Missing \<or> target = Directory []"
    and "\<exists>t \<in> set (fst (discover_all c src)). pr_template rec = template_name t \<and>
           files = hm_insert PROJECT_FILE (ce_record_text c rec) (write_files (dt_files t)) \<and>
           (\<exists>known. known_versions_of c connect a = Ok known \<and> (pr_verified rec \<longleftrightarrow> known_complete known) \<and>
              (pr_verified rec \<longrightarrow> compatible c (dt_manifest t) known))"
proof -
  from assms obtain t known rest where fresh: "target = Missing \<or> target = Directory []"
    and known: "known_versions_of c connect a = Ok known"
    and chosen: "choose_template c a (fst (discover_all c src)) known stdin = (Ok t, rest)"
    and made: "scaffold c t known = Ok (InitCreated rec files)"
    by (rule run_init_Ok)
  show "target = Missing \<or> target = Directory []"
    by (rule fresh)
  have compat: "compatible c (dt_manifest t) known" if "known_complete known"
    using scaffold_Ok(3) [OF made that] by (simp flip: resolve_accepts_compatible)
  have "pr_template rec = template_name t \<and> (pr_verified rec \<longleftrightarrow> known_complete known) \<and>
      (pr_verified rec \<longrightarrow> compatible c (dt_manifest t) known)"
    using scaffold_Ok [OF made] compat
    by (cases "known_complete known") (auto simp: unverified_record_def resolve_Ok Let_def)
  then show "\<exists>t \<in> set (fst (discover_all c src)). pr_template rec = template_name t \<and>
           files = hm_insert PROJECT_FILE (ce_record_text c rec) (write_files (dt_files t)) \<and>
           (\<exists>known. known_versions_of c connect a = Ok known \<and> (pr_verified rec \<longleftrightarrow> known_complete known) \<and>
              (pr_verified rec \<longrightarrow> compatible c (dt_manifest t) known))"
    using choose_template_found [OF chosen] scaffold_Ok(1) [OF made] known by blast
qed

text \<open>Also without questions, a template that is named is scaffolded unverified when a version is missing.\<close>

theorem named_yes_unverified:
  assumes "find (\<lambda>t. template_name t = n) (fst (discover_all c src)) = Some t"
    and "known_versions_of c connect a = Ok known" and "\<not> known_complete known"
    and "ia_template a = Some n" and "ia_yes a"
  shows "\<exists>files. run_init c src connect Missing stdin a = Ok (InitCreated (unverified_record t) files)"
proof -
  have "fst (discover_all c src) \<noteq> []"
    using assms(1) by auto
  then show ?thesis
    using assms by (simp add: run_init_def choose_template_def scaffold_def Let_def)
qed

text \<open>The probe of a server reads what its dispatcher answers.\<close>

lemma probe_reads_version:
  assumes "\<And>host port. connect host port = Ok (fst (dispatch_op OpVersion d q authed req s))"
  shows "probe_server c connect host port = Ok \<lparr> si_server = de_version d, si_protocol = PROTOCOL_VERSION \<rparr>"
  by (simp add: probe_server_def assms response_ok_def PROTOCOL_VERSION_def)

text \<open>A protocol number beyond a byte is taken for the number modulo 256.\<close>

lemma probe_cuts_protocol:
  assumes "connect host port = Ok (response_ok 1 [\<lparr> rv_id = 0, rv_values = [(''server'', VString v), (''protocol'', VInt64 257)] \<rparr>])"
  shows "probe_server c connect host port = Ok \<lparr> si_server = v, si_protocol = 1 \<rparr>"
  by (simp add: probe_server_def assms response_ok_def)

end
