(* ===== verification/Installer.thy ===== *)
theory Installer
  imports Http_Listener Texts
begin

text \<open>
  The installer of the command line (\<open>blitz-cli/src/install.rs\<close>, as compiled for Unix): the asset of a
  device, the download with its checksum, and the entry of the search path in the files that
  shells read. The file system is a map from paths to contents, in which directories exist as
  needed and writing succeeds; the network, SHA-256 and white space, a set of bytes, are parameters,
  and a download that fails leaves no file. Printing and permissions are left out.
\<close>

section \<open>Devices, tags and paths\<close>

record install_env =
  in_os :: string
  in_arch :: string
  in_home :: "string option"
  in_profile :: "string option"
  in_curl :: bool
  in_latest :: "string + string"
  in_download :: "string \<Rightarrow> u8 list option"
  in_sha :: "u8 list \<Rightarrow> string"
  in_white :: "char \<Rightarrow> bool"
  in_rename_blocked :: bool
  in_stage_blocked :: bool
  in_io_error :: "string \<Rightarrow> string"

type_synonym file_tree = "(string, u8 list) hmap"

definition asset_for_device :: "string \<Rightarrow> string \<Rightarrow> string + string \<times> string" where
  "asset_for_device os arch =
     (if os = ''linux'' \<and> arch = ''x86_64'' then Ok (''blitz-linux-x64'', ''blitz'')
      else if os = ''windows'' \<and> arch = ''x86_64'' then Ok (''blitz-windows-x64.exe'', ''blitz.exe'')
      else if os = ''macos'' \<and> arch = ''aarch64'' then Ok (''blitz-macos-arm64'', ''blitz'')
      else Err (''no prebuilt BlitzDB server for '' @ os @ '' '' @ arch @
        ''; supported: linux/x86_64, windows/x86_64, macos/aarch64.'' @ [CHR 0x0A] @
        ''Build from source (cargo build -p blitz-cli) or request a target.''))"

definition trim_white :: "install_env \<Rightarrow> string \<Rightarrow> string" where
  "trim_white e s = rev (dropWhile (in_white e) (rev (dropWhile (in_white e) s)))"

definition normalize_tag :: "install_env \<Rightarrow> string \<Rightarrow> string" where
  "normalize_tag e version =
     (let v = trim_white e version in
      if ascii_lower v = ''latest'' then ''latest''
      else if prefix ''v'' v then v
      else ''v'' @ v)"

text \<open>\<open>Path::join\<close> with a relative path.\<close>

definition path_join :: "string \<Rightarrow> string \<Rightarrow> string" where
  "path_join dir name = (if dir = [] \<or> last dir = CHR ''/'' then dir @ name else dir @ ''/'' @ name)"

definition default_install_dir :: "install_env \<Rightarrow> string + string" where
  "default_install_dir e =
     (case filter (\<lambda>h. h \<noteq> []) (List.map_filter id [in_home e, in_profile e]) of
        h # _ \<Rightarrow> Ok (path_join (path_join h ''.blitzdb'') ''bin'')
      | [] \<Rightarrow> Err ''cannot locate a home directory; pass --dir explicitly'')"

section \<open>The search path\<close>

definition PATH_MARKER :: string where "PATH_MARKER = ''# blitzdb (+blitz)''"

definition display_dir :: "string \<Rightarrow> string \<Rightarrow> string" where
  "display_dir dir home =
     (if home \<noteq> [] \<and> prefix home dir \<and>
         (case drop (length home) dir of c # _ \<Rightarrow> c = CHR ''/'' \<or> c = CHR 0x5C | [] \<Rightarrow> False)
      then ''$HOME'' @ drop (length home) dir
      else dir)"

definition sh_block :: "string \<Rightarrow> string" where
  "sh_block rendered = PATH_MARKER @ [CHR 0x0A] @ ''export PATH=\"'' @ rendered @ '':$PATH\"'' @ [CHR 0x0A]"

definition ensure_blocked_entry :: "install_env \<Rightarrow> string \<Rightarrow> string \<Rightarrow> file_tree \<Rightarrow> (string + bool) \<times> file_tree" where
  "ensure_blocked_entry e rcfile block fs =
     (let entry = as_bytes ([CHR 0x0A] @ block @ [CHR 0x0A]) in
      case hm_get fs rcfile of
        None \<Rightarrow> (Ok True, hm_insert rcfile entry fs)
      | Some bytes \<Rightarrow>
          (case from_utf8 bytes of
             None \<Rightarrow> (Err (''read '' @ rcfile @ '': '' @ in_io_error e rcfile), fs)
           | Some body \<Rightarrow>
               if contains_sub body PATH_MARKER then (Ok False, fs)
               else (Ok True, hm_insert rcfile (bytes @ entry) fs)))"

text \<open>The entries of the files that exist, until one of them cannot be read.\<close>

fun ensure_entries :: "install_env \<Rightarrow> (string \<times> string) list \<Rightarrow> bool \<Rightarrow> file_tree \<Rightarrow> (string + bool) \<times> file_tree" where
  "ensure_entries e [] changed fs = (Ok changed, fs)"
| "ensure_entries e ((rc, block) # rest) changed fs =
     (case ensure_blocked_entry e rc block fs of
        (Inl err, fs) \<Rightarrow> (Err err, fs)
      | (Inr c, fs) \<Rightarrow> ensure_entries e rest (changed \<or> c) fs)"

definition rc_blocks :: "install_env \<Rightarrow> string \<Rightarrow> (string \<times> string) list" where
  "rc_blocks e dir =
     (let home = (case in_home e of None \<Rightarrow> [] | Some h \<Rightarrow> h); rendered = display_dir dir home in
      [(path_join home ''.bashrc'', sh_block rendered), (path_join home ''.zshrc'', sh_block rendered),
       (path_join home ''.profile'', sh_block rendered),
       (path_join (path_join (path_join home ''.config'') ''fish'') ''config.fish'',
        PATH_MARKER @ [CHR 0x0A] @ ''fish_add_path '' @ rendered @ [CHR 0x0A])])"

text \<open>The files that exist, or else the profile.\<close>

definition rc_targets :: "install_env \<Rightarrow> string \<Rightarrow> file_tree \<Rightarrow> (string \<times> string) list" where
  "rc_targets e dir fs =
     (let present = filter (\<lambda>(rc, _). hm_contains fs rc) (rc_blocks e dir) in
      if present = [] then [rc_blocks e dir ! 2] else present)"

definition ensure_on_path :: "install_env \<Rightarrow> string \<Rightarrow> file_tree \<Rightarrow> (string + bool) \<times> file_tree" where
  "ensure_on_path e dir fs = ensure_entries e (rc_targets e dir fs) False fs"

section \<open>Installation\<close>

record install_args =
  ig_version :: string
  ig_dir :: "string option"
  ig_force :: bool

definition release_url :: "string \<Rightarrow> string \<Rightarrow> string" where
  "release_url tag asset = ''https://github.com/Salaou-Hasan/BlitzDB/releases/download/'' @ tag @ ''/'' @ asset"

definition split_white :: "install_env \<Rightarrow> string \<Rightarrow> (string \<times> string) option" where
  "split_white e l =
     (case dropWhile (\<lambda>c. \<not> in_white e c) l of
        [] \<Rightarrow> None
      | _ # rest \<Rightarrow> Some (takeWhile (\<lambda>c. \<not> in_white e c) l, rest))"

definition wanted_sum :: "install_env \<Rightarrow> string \<Rightarrow> string \<Rightarrow> string option" where
  "wanted_sum e sums asset =
     map_option (\<lambda>(hash, _). trim_white e hash)
       (find (\<lambda>(_, name). trim_white e name = asset) (List.map_filter (split_white e) (str_lines sums)))"

text \<open>The directory and the tag, and the checksum of the asset.\<close>

definition install_plan :: "install_env \<Rightarrow> install_args \<Rightarrow> string + string \<times> string \<times> string \<times> string" where
  "install_plan e a =
     (case asset_for_device (in_os e) (in_arch e) of
        Inl err \<Rightarrow> Err err
      | Inr (asset, exe) \<Rightarrow>
          (case (if ascii_lower (ig_version a) = ''latest'' then in_latest e else Ok (normalize_tag e (ig_version a))) of
             Inl err \<Rightarrow> Err err
           | Inr tag \<Rightarrow>
               if \<not> in_curl e then Err (''`curl` is required but not on PATH.'' @ [CHR 0x0A] @
                 ''Install curl, or download manually from https://github.com/Salaou-Hasan/BlitzDB/releases'')
               else
                 (case (case ig_dir a of Some d \<Rightarrow> Ok d | None \<Rightarrow> default_install_dir e) of
                    Inl err \<Rightarrow> Err err
                  | Inr dir \<Rightarrow> Ok (asset, exe, tag, dir))))"

definition fetch_sums :: "install_env \<Rightarrow> string \<Rightarrow> string \<Rightarrow> string \<Rightarrow> file_tree \<Rightarrow> (string + string) \<times> file_tree" where
  "fetch_sums e tag asset sums_path fs =
     (let url = release_url tag ''SHA256SUMS'' in
      case in_download e url of
        None \<Rightarrow> (Err (''download failed ('' @ url @ '' -> '' @ sums_path @ '')''), fs)
      | Some bytes \<Rightarrow>
          (let fs = hm_insert sums_path bytes fs in
           case from_utf8 bytes of
             None \<Rightarrow> (Err (''read checksums: '' @ in_io_error e sums_path), fs)
           | Some sums \<Rightarrow>
               (case wanted_sum e sums asset of
                  None \<Rightarrow> (Err (''SHA256SUMS has no entry for '' @ asset), fs)
                | Some want \<Rightarrow> (Ok want, fs))))"

definition fetch_binary :: "install_env \<Rightarrow> string \<Rightarrow> string \<Rightarrow> string \<Rightarrow> string \<Rightarrow> string \<Rightarrow> file_tree \<Rightarrow> (string + string) \<times> file_tree" where
  "fetch_binary e tag asset exe dir want fs =
     (let tmp = path_join dir (exe @ ''.pending''); dest = path_join dir exe; staged = path_join dir (exe @ ''.new'') in
      case in_download e (release_url tag asset) of
        None \<Rightarrow> (Err (''download failed ('' @ release_url tag asset @ '' -> '' @ tmp @ '')''), hm_remove tmp fs)
      | Some bytes \<Rightarrow>
          if in_sha e bytes \<noteq> want
          then (Err (''checksum mismatch for '' @ asset @ '' (want '' @ want @ '', got '' @ in_sha e bytes @ '') '' @
                 [CHR 0xE2, CHR 0x80, CHR 0x94] @ '' deleted, nothing installed''), hm_remove tmp fs)
          else if \<not> in_rename_blocked e then (Ok dest, hm_insert dest bytes (hm_remove tmp fs))
          else if in_stage_blocked e
          then (Err (''install '' @ dest @ '': '' @ in_io_error e dest @ '' (rename blocked '' @ [CHR 0xE2, CHR 0x80, CHR 0x94] @
                 '' is blitz running from it?)''), hm_insert tmp bytes fs)
          else (Ok staged, hm_insert staged bytes (hm_remove tmp fs)))"

definition run_install :: "install_env \<Rightarrow> install_args \<Rightarrow> file_tree \<Rightarrow> (string + string) \<times> file_tree" where
  "run_install e a fs =
     (case install_plan e a of
        Inl err \<Rightarrow> (Err err, fs)
      | Inr (asset, exe, tag, dir) \<Rightarrow>
          (let dest = path_join dir exe; sums_path = path_join dir ''SHA256SUMS.pending'' in
           case fetch_sums e tag asset sums_path fs of
             (Inl err, fs) \<Rightarrow> (Err err, fs)
           | (Inr want, fs) \<Rightarrow>
               if \<not> ig_force a \<and> map_option (in_sha e) (hm_get fs dest) = Some want
               then (Ok dest, snd (ensure_on_path e dir (hm_remove sums_path fs)))
               else
                 (case fetch_binary e tag asset exe dir want fs of
                    (Inl err, fs) \<Rightarrow> (Err err, fs)
                  | (Inr installed, fs) \<Rightarrow> (Ok installed, snd (ensure_on_path e dir (hm_remove sums_path fs))))))"

section \<open>Checked binaries\<close>

definition base_name :: "string \<Rightarrow> string" where
  "base_name p = rev (takeWhile (\<lambda>c. c \<noteq> CHR ''/'') (rev p))"

lemma base_name_join: "CHR ''/'' \<notin> set name \<Longrightarrow> base_name (path_join dir name) = name"
proof -
  assume free: "CHR ''/'' \<notin> set name"
  have skip: "takeWhile (\<lambda>c. c \<noteq> CHR ''/'') (rev name @ xs) = rev name @ takeWhile (\<lambda>c. c \<noteq> CHR ''/'') xs" for xs
    using free by (intro takeWhile_append2) auto
  show ?thesis
    using skip [of "[]"] by (cases dir rule: rev_cases) (simp_all add: base_name_def path_join_def skip del: takeWhile_eq_all_conv)
qed

lemma ensure_blocked_entry_frame: "p \<noteq> rc \<Longrightarrow> hm_get (snd (ensure_blocked_entry e rc block fs)) p = hm_get fs p"
  by (auto simp: ensure_blocked_entry_def hm_simps Let_def split: option.split)

lemma ensure_entries_frame: "p \<notin> fst ` set rcs \<Longrightarrow> hm_get (snd (ensure_entries e rcs changed fs)) p = hm_get fs p"
proof (induction e rcs changed fs rule: ensure_entries.induct)
  case (2 e rc block rest changed fs)
  then show ?case
    using ensure_blocked_entry_frame [of p rc e block fs]
    by (auto split: prod.splits sum.splits)
qed simp

lemma rc_names: "rc \<in> fst ` set (rc_blocks e dir) \<Longrightarrow> base_name rc \<in> {''.bashrc'', ''.zshrc'', ''.profile'', ''config.fish''}"
  by (auto simp: rc_blocks_def base_name_join Let_def)

lemma rc_targets_subset: "set (rc_targets e dir fs) \<subseteq> set (rc_blocks e dir)"
  by (auto simp: rc_targets_def Let_def) (simp add: rc_blocks_def Let_def)

lemma ensure_on_path_frame:
  "base_name p \<notin> {''.bashrc'', ''.zshrc'', ''.profile'', ''config.fish''} \<Longrightarrow> hm_get (snd (ensure_on_path e dir fs)) p = hm_get fs p"
  unfolding ensure_on_path_def using rc_names [of p e dir] rc_targets_subset [of e dir fs]
  by (intro ensure_entries_frame) blast

lemma asset_names: "asset_for_device os arch = Ok (asset, exe) \<Longrightarrow> exe = ''blitz'' \<or> exe = ''blitz.exe''"
  by (auto simp: asset_for_device_def split: if_splits)

lemma install_plan_exe: "install_plan e a = Ok (asset, exe, tag, dir) \<Longrightarrow> exe = ''blitz'' \<or> exe = ''blitz.exe''"
  by (auto simp: install_plan_def dest: asset_names split: sum.splits if_splits prod.splits)

lemma fetch_sums_frame:
  "p \<noteq> sums_path \<Longrightarrow> hm_get (snd (fetch_sums e tag asset sums_path fs)) p = hm_get fs p"
  by (auto simp: fetch_sums_def hm_simps Let_def split: option.split)

lemma fetch_sums_Ok:
  "fst (fetch_sums e tag asset sums_path fs) = Ok want \<Longrightarrow>
     \<exists>sums. Option.bind (in_download e (release_url tag ''SHA256SUMS'')) from_utf8 = Some sums \<and> wanted_sum e sums asset = Some want"
  by (auto simp: fetch_sums_def Let_def split: option.splits)

lemma fetch_binary_dest:
  assumes "exe = ''blitz'' \<or> exe = ''blitz.exe''"
  shows "hm_get (snd (fetch_binary e tag asset exe dir want fs)) (path_join dir exe) = hm_get fs (path_join dir exe) \<or>
     (\<exists>bytes. in_download e (release_url tag asset) = Some bytes \<and> in_sha e bytes = want \<and>
        hm_get (snd (fetch_binary e tag asset exe dir want fs)) (path_join dir exe) = Some bytes)"
proof -
  have "path_join dir exe \<noteq> path_join dir (exe @ ''.pending'')" "path_join dir exe \<noteq> path_join dir (exe @ ''.new'')"
    using assms by (auto simp: path_join_def)
  then show ?thesis
    by (auto simp: fetch_binary_def hm_simps Let_def split: option.split)
qed

text \<open>
  The installer changes the installed binary only into one whose checksum the release lists for
  this device; on every error the binary that was there stays.
\<close>

theorem install_checked:
  assumes plan: "install_plan e a = Ok (asset, exe, tag, dir)"
  shows "hm_get (snd (run_install e a fs)) (path_join dir exe) = hm_get fs (path_join dir exe) \<or>
     (\<exists>bytes sums. in_download e (release_url tag asset) = Some bytes \<and>
        Option.bind (in_download e (release_url tag ''SHA256SUMS'')) from_utf8 = Some sums \<and>
        wanted_sum e sums asset = Some (in_sha e bytes) \<and> hm_get (snd (run_install e a fs)) (path_join dir exe) = Some bytes)"
proof -
  define dest where "dest = path_join dir exe"
  define sums_path where "sums_path = path_join dir ''SHA256SUMS.pending''"
  have exe: "exe = ''blitz'' \<or> exe = ''blitz.exe''"
    by (rule install_plan_exe [OF plan])
  then have name: "base_name dest = exe"
    by (auto simp: dest_def base_name_join)
  have other: "dest \<noteq> sums_path"
    using exe name base_name_join [of "''SHA256SUMS.pending''" dir] by (auto simp: sums_path_def)
  have wiring: "hm_get (snd (ensure_on_path e dir fs')) dest = hm_get fs' dest" for fs'
    using exe name by (intro ensure_on_path_frame) auto
  obtain r fs1 where sums: "fetch_sums e tag asset sums_path fs = (r, fs1)"
    by (cases "fetch_sums e tag asset sums_path fs")
  have same: "hm_get fs1 dest = hm_get fs dest"
    using fetch_sums_frame [OF other, of e tag asset fs] sums by simp
  show ?thesis
  proof (cases r)
    case (Inl err)
    then show ?thesis
      using plan sums same by (simp add: run_install_def dest_def sums_path_def)
  next
    case (Inr want)
    note listed = fetch_sums_Ok [of e tag asset sums_path fs want]
    obtain r2 fs2 where binary: "fetch_binary e tag asset exe dir want fs1 = (r2, fs2)"
      by (cases "fetch_binary e tag asset exe dir want fs1")
    have "hm_get (snd (run_install e a fs)) dest \<in> {hm_get fs1 dest, hm_get fs2 dest}"
      using plan sums Inr binary other wiring
      by (auto simp: run_install_def dest_def sums_path_def hm_simps Let_def split: sum.split)
    then show ?thesis
      using fetch_binary_dest [OF exe, of e tag asset dir want fs1] binary same listed sums Inr
      by (auto simp: dest_def)
  qed
qed

section \<open>The entry of the search path\<close>

lemma utf8_valid_append: "utf8_valid xs \<Longrightarrow> utf8_valid ys \<Longrightarrow> utf8_valid (xs @ ys)"
proof (induction xs rule: utf8_valid.induct)
  case (2 a bs)
  consider "a \<le> 0x7F" | "\<not> a \<le> 0x7F" "0xC2 \<le> a \<and> a \<le> 0xDF"
    | "\<not> a \<le> 0x7F" "\<not> (0xC2 \<le> a \<and> a \<le> 0xDF)" "0xE0 \<le> a \<and> a \<le> 0xEF"
    | "\<not> a \<le> 0x7F" "\<not> (0xC2 \<le> a \<and> a \<le> 0xDF)" "\<not> (0xE0 \<le> a \<and> a \<le> 0xEF)" "0xF0 \<le> a \<and> a \<le> 0xF4"
    using "2.prems"(1) by (auto split: if_splits)
  then show ?case
  proof cases
    case 1
    then show ?thesis using 2 by simp
  next
    case 2
    with "2.prems"(1) obtain b r where "bs = b # r" by (cases bs) auto
    with 2 "2.IH"(2) "2.prems" show ?thesis
      by (auto simp del: utf8_valid.simps simp add: utf8_valid.simps(2) [of a] split: if_splits)
  next
    case 3
    with "2.prems"(1) obtain b c r where "bs = b # c # r" by (auto split: list.splits)
    with 3 "2.IH"(3) "2.prems" show ?thesis
      by (auto simp del: utf8_valid.simps simp add: utf8_valid.simps(2) [of a] split: if_splits)
  next
    case 4
    with "2.prems"(1) obtain b c d r where "bs = b # c # d # r" by (auto split: list.splits)
    with 4 "2.IH"(4) "2.prems" show ?thesis
      by (auto simp del: utf8_valid.simps simp add: utf8_valid.simps(2) [of a] split: if_splits)
  qed
qed simp

lemma from_utf8_append: "from_utf8 b = Some s \<Longrightarrow> str_ok t \<Longrightarrow> from_utf8 (b @ as_bytes t) = Some (s @ t)"
  by (auto simp: from_utf8_def str_ok_def utf8_valid_append as_bytes_def o_def split: if_splits)

lemma find_sub_present: "find_sub p (u @ p @ v) \<noteq> None"
proof (induction u)
  case Nil
  have "prefix p (p @ v)" by simp
  then show ?case by (cases "p @ v") (simp_all del: same_prefix_prefix)
qed simp

lemma contains_sub_present: "contains_sub (u @ p @ v) p"
  by (simp add: contains_sub_def find_sub_present)

definition has_entry :: "file_tree \<Rightarrow> string \<Rightarrow> bool" where
  "has_entry fs rc \<longleftrightarrow> (\<exists>body. Option.bind (hm_get fs rc) from_utf8 = Some body \<and> contains_sub body PATH_MARKER)"

lemma has_entry_unchanged: "has_entry fs rc \<Longrightarrow> ensure_blocked_entry e rc block fs = (Ok False, fs)"
  by (auto simp: has_entry_def ensure_blocked_entry_def Let_def split: option.splits bind_splits)

lemma ensure_blocked_entry_has:
  assumes "ensure_blocked_entry e rc block fs = (Ok c, fs')" and "block = PATH_MARKER @ t" and "str_ok block"
  shows "has_entry fs' rc"
proof -
  define entry where "entry = CHR 0x0A # block @ [CHR 0x0A]"
  have ok: "str_ok entry"
    using assms(3) by (simp add: entry_def str_ok_def as_bytes_def utf8_valid_append byte_of_char_def)
  have "contains_sub (s @ entry) PATH_MARKER" for s
    using contains_sub_present [of "s @ [CHR 0x0A]" PATH_MARKER "t @ [CHR 0x0A]"] by (simp add: entry_def assms(2))
  from this this [of "[]"] ok show ?thesis
    using assms(1) by (auto simp: ensure_blocked_entry_def has_entry_def hm_simps from_utf8_append from_utf8_as_bytes
        Let_def simp flip: entry_def split: option.splits if_splits)
qed

text \<open>Once all entries are there, nothing is written.\<close>

lemma ensure_entries_done:
  "\<forall>rc \<in> fst ` set rcs. has_entry fs rc \<Longrightarrow> ensure_entries e rcs c fs = (Ok c, fs)"
  by (induction rcs arbitrary: c) (auto simp: has_entry_unchanged)

lemma has_entry_kept:
  assumes "has_entry fs rc" and "ensure_blocked_entry e rc' block fs = (Ok c, fs')"
  shows "has_entry fs' rc"
  using assms has_entry_unchanged [OF assms(1), of e block] ensure_blocked_entry_frame [of rc rc' e block fs]
  by (cases "rc = rc'") (auto simp: has_entry_def)

lemma ensure_entries_has:
  assumes "ensure_entries e rcs c fs = (Ok c', fs')" and "\<forall>(_, block) \<in> set rcs. (\<exists>t. block = PATH_MARKER @ t) \<and> str_ok block"
  shows "(\<forall>rc \<in> fst ` set rcs. has_entry fs' rc) \<and> (\<forall>rc. has_entry fs rc \<longrightarrow> has_entry fs' rc)"
  using assms
proof (induction e rcs c fs rule: ensure_entries.induct)
  case (2 e rc block rest changed fs)
  then obtain c1 fs1 where step: "ensure_blocked_entry e rc block fs = (Ok c1, fs1)"
    by (auto split: prod.splits sum.splits)
  then have "has_entry fs1 rc"
    using "2.prems"(2) ensure_blocked_entry_has by fastforce
  moreover have "\<forall>rc. has_entry fs rc \<longrightarrow> has_entry fs1 rc"
    using has_entry_kept [OF _ step] by blast
  moreover have "(\<forall>rc \<in> fst ` set rest. has_entry fs' rc) \<and> (\<forall>rc. has_entry fs1 rc \<longrightarrow> has_entry fs' rc)"
    using "2.IH" [OF step [symmetric] refl] "2.prems" step by auto
  ultimately show ?case by auto
qed simp

text \<open>
  Adding the directory to the search path twice is adding it once: after a run that succeeds, the
  next one writes nothing, and every file that shells read has the entry.
\<close>

lemma rc_blocks_marked:
  "str_ok (display_dir dir (case in_home e of None \<Rightarrow> [] | Some h \<Rightarrow> h)) \<Longrightarrow>
   \<forall>(_, block) \<in> set (rc_blocks e dir). (\<exists>t. block = PATH_MARKER @ t) \<and> str_ok block"
  by (auto simp: rc_blocks_def sh_block_def PATH_MARKER_def str_ok_def as_bytes_def byte_of_char_def utf8_valid_append Let_def)

lemma has_entry_contained: "has_entry fs rc \<Longrightarrow> hm_contains fs rc"
  by (auto simp: has_entry_def split: bind_splits)

theorem path_entry_idempotent:
  assumes "str_ok (display_dir dir (case in_home e of None \<Rightarrow> [] | Some h \<Rightarrow> h))"
    and run: "ensure_on_path e dir fs = (Ok c, fs')"
  shows "ensure_on_path e dir fs' = (Ok False, fs')"
    and "hm_contains fs' rc \<Longrightarrow> rc \<in> fst ` set (rc_blocks e dir) \<Longrightarrow> has_entry fs' rc"
proof -
  have marked: "\<forall>(_, block) \<in> set (rc_targets e dir fs). (\<exists>t. block = PATH_MARKER @ t) \<and> str_ok block"
    by (rule ballI) (rule bspec [OF rc_blocks_marked [OF assms(1)] subsetD [OF rc_targets_subset]])
  have has: "\<forall>rc \<in> fst ` set (rc_targets e dir fs). has_entry fs' rc"
    using ensure_entries_has [OF run [unfolded ensure_on_path_def] marked] by blast
  have old: "rc \<in> fst ` set (rc_targets e dir fs)" if "hm_contains fs' rc" "rc \<in> fst ` set (rc_blocks e dir)" for rc
  proof (rule ccontr)
    assume out: "rc \<notin> fst ` set (rc_targets e dir fs)"
    then have "hm_get fs' rc = hm_get fs rc"
      using ensure_entries_frame [OF out, of e False fs] run by (simp add: ensure_on_path_def)
    with that have "rc \<in> fst ` set (filter (\<lambda>(rc, _). hm_contains fs rc) (rc_blocks e dir))"
      by force
    with out show False
      by (auto simp: rc_targets_def Let_def filter_empty_conv split: if_splits)
  qed
  then show entry: "hm_contains fs' rc \<Longrightarrow> rc \<in> fst ` set (rc_blocks e dir) \<Longrightarrow> has_entry fs' rc"
    using has by blast
  have nonempty: "rc_targets e dir fs \<noteq> []"
    by (simp add: rc_targets_def Let_def)
  have "set (rc_targets e dir fs) \<subseteq> set (filter (\<lambda>(rc, _). hm_contains fs' rc) (rc_blocks e dir))"
    using has has_entry_contained rc_targets_subset [of e dir fs] by fastforce
  with nonempty have "filter (\<lambda>(rc, _). hm_contains fs' rc) (rc_blocks e dir) \<noteq> []"
    by (metis set_empty subset_empty)
  then have "rc_targets e dir fs' = filter (\<lambda>(rc, _). hm_contains fs' rc) (rc_blocks e dir)"
    by (simp add: rc_targets_def Let_def)
  then have "\<forall>rc \<in> fst ` set (rc_targets e dir fs'). has_entry fs' rc"
    using old has by force
  then show "ensure_on_path e dir fs' = (Ok False, fs')"
    by (simp add: ensure_on_path_def ensure_entries_done)
qed

text \<open>Without a home directory the profile is written into the current directory.\<close>

lemma homeless_profile:
  "in_home e = None \<Longrightarrow> fst (snd (ensure_on_path e ''/opt'' [])! 0) = ''.profile''"
  by (simp add: ensure_on_path_def rc_targets_def rc_blocks_def path_join_def ensure_blocked_entry_def Let_def)

text \<open>A tag that is blank but for the word latest is no request for the latest release.\<close>

lemma padded_latest:
  "in_white e (CHR '' '') \<Longrightarrow> (\<And>c. ascii_alphanumeric c \<Longrightarrow> \<not> in_white e c) \<Longrightarrow>
   normalize_tag e '' latest'' = ''latest'' \<and> ascii_lower '' latest'' \<noteq> ''latest''"
  by (simp add: normalize_tag_def trim_white_def ascii_lower_def to_ascii_lowercase_def ascii_alphanumeric_def)

end
