(* ===== verification/Spec2Isabelle.thy ===== *)
theory Spec2Isabelle
  imports Core_Pool Memory_Store Tx_Reads Proc_Writes Query Feeds Cluster Admission Durable_Server Connection
    Typed_Rows Full_Text Storage_Recovery Fanout Client_Server Http_Listener Api_Routes Metrics
    Server_Stats Codegen Dev_Watch Templates Installer
begin

text \<open>
  \<^bold>\<open>BlitzDB: a verification development.\<close>
  BlitzDB is an in-memory database server written in Rust, a workspace of crates under
  \<open>src/crates/\<close>. Clients send framed requests over TCP, or JSON over HTTP, to a server that keeps
  tables in memory, checks the rights of callers, applies writes directly or in optimistic
  transactions, and makes them durable with a group-committed write-ahead log and snapshots.

  \<^bold>\<open>The parts and how they interact.\<close>
  A connection (\<open>transport.rs\<close>) pops frames, decodes requests (\<open>blitz-protocol\<close>), authenticates
  and authorizes them (\<open>blitz-auth\<close>, \<open>blitz-policy\<close>) and dispatches them to the state of the server
  (\<open>server.rs\<close>). Writes go to the table engine (\<open>blitz-core\<close>) directly or through the transaction
  manager (\<open>blitz-tx\<close>), then to the log of the table's log shard (\<open>durability.rs\<close>, \<open>blitz-wal\<close>) and
  to the feeds of changes. Snapshots (\<open>blitz-snapshot\<close>) bound the log; recovery restores the engine
  from the newest snapshot and the logs. Procedures (\<open>blitz-runtime\<close>) run steps inside one
  transaction, jobs (\<open>blitz-jobs\<close>) run guest modules in the background. Queries, search, events,
  subscriptions, replication and cluster membership are libraries of their own.

  \<^bold>\<open>Conventions.\<close>
  A struct is a record, an enum a datatype, a w-bit integer a word of that width, a \<open>HashMap\<close>
  an association list with distinct keys whose order stands for the unspecified iteration order,
  a \<open>Result\<close> a sum with the error on the left, a method with \<open>&mut self\<close> a function that returns the
  new state, what a method does under a lock one step. Floats are their bit patterns, with rounding
  written out. Times, fresh identifiers and everything from libraries outside the repository
  (calendar, CRC, hashing, JSON text, UUID text, base64, WebAssembly, Unicode tables) are
  arguments, collected in environment records; where a theorem relies on them the law is a
  named hypothesis with a witness.

  \<^bold>\<open>Theories and sources.\<close>
  \<^item> \<open>Blitz_Prelude\<close>, \<open>Byte_Codec\<close>, \<open>Float_Bits\<close>, \<open>Texts\<close>, \<open>Display\<close>, \<open>Messages\<close>: results, hash maps,
    stable sorting with the contract of comparison functions, encodings of integers and texts
    (a locale for codecs), IEEE floats, texts of values and of errors.
  \<^item> \<open>Types_Value\<close>, \<open>Types_Schema\<close> (\<open>blitz-types\<close>): values, their order, equality and hash, columns,
    schemas, validation.
  \<^item> \<open>Indexes\<close> (\<open>blitz-core/index.rs\<close>, \<open>blitz-index\<close>): hash and ordered indexes, with an interface
    locale; range queries refine the history of insertions and removals.
  \<^item> \<open>Row_Store\<close>, \<open>Core_Table\<close>, \<open>Typed_Rows\<close> (\<open>blitz-core/table.rs\<close>): the contract of a store of rows as a
    locale, and the engine that implements it: every method, the invariant that its unique
    indexes are exact, the effect of each operation, and the types of stored rows.
  \<^item> \<open>Core_Pool\<close>, \<open>Memory_Store\<close>: object pools; the wrapper of one table and the memory store, which
    implement the same contract.
  \<^item> \<open>Transactions\<close>, \<open>Tx_Interleaving\<close>, \<open>Tx_Threads\<close>, \<open>Tx_Reads\<close> (\<open>blitz-tx\<close>): optimistic transactions with
    validation, a commit as one step; the phases of a commit and its striped locks, with progress;
    threads that interleave at every step of reading and committing, beside writes of the rest of
    the server: first committer wins, and repeatable reads.
  \<^item> \<open>Wal_Log\<close> (\<open>blitz-wal\<close>): the log's bytes, reading after a crash at any byte, sequence numbers.
  \<^item> \<open>Protocol\<close> (\<open>blitz-protocol\<close>): messages, frames, both directions of the codec, its fuel.
  \<^item> \<open>Query\<close>, \<open>Access\<close>, \<open>Jobs\<close>, \<open>Wasm_Jobs\<close>, \<open>Feeds\<close>, \<open>Cluster\<close>, \<open>Procedures\<close>, \<open>Full_Text\<close>: the crates
    \<open>blitz-query\<close>, \<open>blitz-auth\<close> with \<open>blitz-policy\<close>, \<open>blitz-jobs\<close>, \<open>blitz-events\<close> with
    \<open>blitz-realtime\<close> and \<open>blitz-replication\<close>, \<open>blitz-cluster\<close>, \<open>blitz-runtime\<close>, \<open>blitz-search\<close>.
  \<^item> \<open>Sharding\<close>, \<open>Durable_Values\<close>, \<open>Server_State\<close>, \<open>Admission\<close>, \<open>Server_Stats\<close> (\<open>server.rs\<close>, parts of \<open>durability.rs\<close>): routing
    of tables and row identifiers to shards, the durable form of values, the state of the server
    with its operations, admission of connections, statistics.
  \<^item> \<open>Proc_Calls\<close>, \<open>Proc_Writes\<close>, \<open>Scan_Window\<close>, \<open>Dispatch\<close>, \<open>Atomic_Batch\<close>, \<open>Connection\<close> (\<open>transport.rs\<close>): procedure calls,
    paging, every operation of \<open>dispatch\<close> with authentication and row ownership, atomic
    batches, and the loop of a connection with its fast paths.
  \<^item> \<open>Http_Bridge\<close> (\<open>http_bridge.rs\<close>), \<open>Http_Listener\<close> (\<open>transport.rs\<close>), \<open>Fanout\<close> (\<open>social.rs\<close>): requests and
    answers as JSON; the HTTP connections that carry them, and event streams; the worker that
    writes timelines.
  \<^item> \<open>Deploy\<close> (\<open>blitz-runtime/deploy.rs\<close>): the envelope of a deployed procedure and its literals.
  \<^item> \<open>Api_Routes\<close> (\<open>blitz-api\<close>), \<open>Metrics\<close> (\<open>blitz-observability\<close>): the table of routes; the counters.
  \<^item> \<open>Codegen\<close>, \<open>Dev_Watch\<close>, \<open>Templates\<close>, \<open>Installer\<close> (\<open>blitz-cli\<close>): generated bindings and the check
    that they are current, the watcher of the development server, project templates with the
    resolver of versions, and the installer with its checksums.
  \<^item> \<open>Client\<close>, \<open>Client_Server\<close> (\<open>blitz-client\<close>): the client library over a network that may fail, and
    the client against the server's connection.
  \<^item> \<open>Storage_Recovery\<close> (\<open>blitz-storage\<close>): the other recovery manager, over a single log with markers
    of transactions.
  \<^item> \<open>Snapshots\<close>, \<open>Recovery\<close>, \<open>Group_Commit\<close>, \<open>Durable_Server\<close> (\<open>blitz-snapshot\<close>, \<open>durability.rs\<close>, \<open>start\<close> and
    \<open>snapshot_and_rotate\<close> of \<open>server.rs\<close>): snapshot files, recovery, the threads of the log, and the
    whole server as a step relation of requests, flushes, rotations and crashes.

  \<^bold>\<open>What is shown.\<close>
  Tables: unique columns stay unique, the constant-time check is the full scan, stored rows have
  the types of their columns. Transactions: of two commits to a row the later one
  began after the earlier one was numbered, what a repeatable-read commit has read still holds
  while it writes, commits never deadlock. Durability: after a crash at any byte recovery succeeds,
  each log shard comes back as a state of the run, and what is missing are the last queued writes
  only (single requests with values that JSON text keeps exactly).
  Wire: decoding inverts encoding, a connection answers every message once and in
  order however the bytes arrive, the fast paths and the JSON bridge agree with the general path. The client answers each caller
  once, resends only what is safe to resend, and its batching cannot be told from single requests.
  Rights: policies, row ownership of reads and writes, procedures that write exactly what their
  steps ask for and only what the caller may. Paging, queries, search, jobs and admission have their functional specifications. Tools: a check
  of generated files passes exactly when they are what the generator writes, a scaffolded project
  is marked as verified only when its versions are compatible, the installed binary is replaced
  only by one with the listed checksum, and wiring the search path twice is wiring it once. Where the
  code does not do what its comments promise, a theorem or a lemma states what it does instead.

  \<^bold>\<open>Fuel.\<close>
  Loops are structural or have a termination proof. Fuel remains in the reader of nested values,
  where the length of the input suffices (\<open>decoder_total\<close>; the stack that the recursion of the code
  needs is not modelled), and in the steps of procedures, where
  it is the program's own limit and a bound that suffices is proved (\<open>enough_fuel\<close>).

  \<^bold>\<open>Not modelled.\<close>
  Accepting sockets, TLS, timeouts, thread scheduling below the level of a critical section (finer for the transaction
  manager), the stack of a thread, lock poisoning, panics of allocation, logging and the timer of
  \<open>blitz-observability\<close>; the derived deserializers, which are parameters; the argument parser and the
  console output of the command line with its Windows branches; examples, benchmarks and load
  generators, which hold no state of the database. Failing writes to files appear as the loss of
  what was not yet synced; the tools of the command line write files without failing.
\<close>

end
